(* ===== verification/Prelude.thy ===== *)
theory Prelude
  imports Main "HOL-Library.Sublist"
begin

text \<open>
  The vocabulary the component theories share.

  \<^item> A C string is a \<^typ>\<open>string\<close> holding the characters before the terminating NUL; a
    \<^verbatim>\<open>char *\<close> that may be \<^verbatim>\<open>NULL\<close> is a \<^typ>\<open>string option\<close>. \<open>peek\<close> is the read \<^verbatim>\<open>*p\<close> at a
    pointer whose remaining characters are given: at the end of the string it is NUL.
  \<^item> \<open>strstr\<close>, \<open>strchr_split\<close>, \<open>strcasecmp_eq\<close>, \<open>isspace\<close> and \<open>tolower\<close> are the libc functions
    the sources call, in the C locale the program runs in.
  \<^item> A 32-bit \<^verbatim>\<open>int\<close> is an \<^typ>\<open>int\<close> whose arithmetic goes through \<open>wrap32\<close>.
  \<^item> \<^verbatim>\<open>malloc\<close>, \<^verbatim>\<open>calloc\<close>, \<^verbatim>\<open>realloc\<close> and \<^verbatim>\<open>strdup\<close> may return \<^verbatim>\<open>NULL\<close>. An operation that
    allocates takes an oracle \<open>ok\<close> of type \<open>alloc\<close>: \<open>ok n\<close> says whether its allocation site
    number \<open>n\<close> succeeds. No site is consulted twice in one run of an operation, so quantifying
    over all oracles covers all patterns of failure.
\<close>

named_theorems c_str \<open>facts on the string functions of libc\<close>
named_theorems inv_intro \<open>every operation keeps its component's invariant\<close>

section \<open>Allocation and machine integers\<close>

type_synonym alloc = "nat \<Rightarrow> bool"

abbreviation alloc_ok :: alloc where
  "alloc_ok \<equiv> (\<lambda>_. True)"

definition wrap32 :: "int \<Rightarrow> int" where
  "wrap32 x = (x + 2147483648) mod 4294967296 - 2147483648"

abbreviation INT_MAX :: int where
  "INT_MAX \<equiv> 2147483647"

abbreviation INT_MIN :: int where
  "INT_MIN \<equiv> -2147483648"

lemma wrap32_bounds: "INT_MIN \<le> wrap32 x \<and> wrap32 x \<le> INT_MAX"
  using pos_mod_bound[of 4294967296 "x + 2147483648"] pos_mod_sign[of 4294967296 "x + 2147483648"]
  by (simp add: wrap32_def)

lemma wrap32_id [simp]: "INT_MIN \<le> x \<Longrightarrow> x \<le> INT_MAX \<Longrightarrow> wrap32 x = x"
  by (simp add: wrap32_def)

lemma wrap32_idem [simp]: "wrap32 (wrap32 x) = wrap32 x"
  using wrap32_bounds[of x] by simp

section \<open>Characters and strings\<close>

abbreviation NUL :: char where
  "NUL \<equiv> CHR 0x00"

fun peek :: "string \<Rightarrow> char" where
  "peek [] = NUL"
| "peek (c # _) = c"

definition c_string :: "string \<Rightarrow> bool" where
  "c_string s \<longleftrightarrow> NUL \<notin> set s"

definition char_code :: "char \<Rightarrow> int" where
  "char_code c = of_char c"

definition isspace :: "char \<Rightarrow> bool" where
  "isspace c \<longleftrightarrow> c = CHR '' '' \<or> c = CHR 0x09 \<or> c = CHR 0x0A \<or> c = CHR 0x0B
     \<or> c = CHR 0x0C \<or> c = CHR 0x0D"

definition tolower :: "char \<Rightarrow> char" where
  "tolower c = (if 65 \<le> char_code c \<and> char_code c \<le> 90 then char_of (char_code c + 32) else c)"

definition strcasecmp_eq :: "string \<Rightarrow> string \<Rightarrow> bool" where
  "strcasecmp_eq a b \<longleftrightarrow> map tolower a = map tolower b"

fun starts_with :: "string \<Rightarrow> string \<Rightarrow> bool" where
  "starts_with [] s = True"
| "starts_with (p # ps) [] = False"
| "starts_with (p # ps) (c # cs) = (p = c \<and> starts_with ps cs)"

fun strstr :: "string \<Rightarrow> string \<Rightarrow> bool" where
  "strstr [] needle = (needle = [])"
| "strstr (c # cs) needle = (starts_with needle (c # cs) \<or> strstr cs needle)"

text \<open>The text before and after the first occurrence of a character, as \<^verbatim>\<open>strchr\<close> splits it.\<close>

fun strchr_split :: "char \<Rightarrow> string \<Rightarrow> (string \<times> string) option" where
  "strchr_split x [] = None"
| "strchr_split x (c # cs) =
     (if c = x then Some ([], cs)
      else map_option (\<lambda>(a, b). (c # a, b)) (strchr_split x cs))"

lemma starts_with_prefix [c_str]: "starts_with p s \<longleftrightarrow> prefix p s"
  by (induction p s rule: starts_with.induct) auto

lemma strstr_sublist [c_str]: "strstr h n \<longleftrightarrow> sublist n h"
  by (induction h) (auto simp: starts_with_prefix sublist_Cons_right)

lemma strchr_split_None [c_str]: "strchr_split x s = None \<longleftrightarrow> x \<notin> set s"
  by (induction s) auto

lemma strchr_split_Some [c_str]:
  "strchr_split x s = Some (a, b) \<longleftrightarrow> s = a @ x # b \<and> x \<notin> set a"
proof (induction s arbitrary: a)
  case (Cons c cs)
  show ?case
    by (cases a) (auto simp: Cons.IH)
qed simp

lemma strstr_append_left [c_str]: "strstr h n \<Longrightarrow> strstr (p @ h) n"
  by (simp add: strstr_sublist sublist_append)

lemma strstr_append_right [c_str]: "strstr h n \<Longrightarrow> strstr (h @ q) n"
  by (simp add: strstr_sublist sublist_append)

lemma strstr_refl [c_str, simp]: "strstr s s"
  by (simp add: strstr_sublist)

section \<open>Case analysis\<close>

text \<open>Eliminates one conditional of an equation between results, without rewriting its branches.\<close>

lemma ifE_option: "(if b then x else y) = r \<Longrightarrow> (b \<Longrightarrow> x = r \<Longrightarrow> P) \<Longrightarrow> (\<not> b \<Longrightarrow> y = r \<Longrightarrow> P) \<Longrightarrow> P"
  by (cases b) simp_all

section \<open>Lists\<close>

text \<open>A sequence of steps, each of which may be undefined.\<close>

fun opt_fold :: "('a \<Rightarrow> 's \<Rightarrow> 's option) \<Rightarrow> 'a list \<Rightarrow> 's \<Rightarrow> 's option" where
  "opt_fold f [] s = Some s"
| "opt_fold f (x # xs) s = (case f x s of None \<Rightarrow> None | Some s' \<Rightarrow> opt_fold f xs s')"

lemma opt_fold_append:
  "opt_fold f (xs @ ys) s = (case opt_fold f xs s of None \<Rightarrow> None | Some s' \<Rightarrow> opt_fold f ys s')"
  by (induction xs arbitrary: s) (auto split: option.split)

text \<open>A property that every step establishes again holds at the end, and the steps are defined.\<close>

lemma opt_fold_invariant:
  assumes "\<And>x s. x \<in> set xs \<Longrightarrow> I s \<Longrightarrow> \<exists>s'. f x s = Some s' \<and> I s'" and "I s"
  shows "\<exists>s'. opt_fold f xs s = Some s' \<and> I s'"
  using assms
proof (induction xs arbitrary: s)
  case (Cons x xs)
  obtain s1 where "f x s = Some s1" "I s1"
    using Cons.prems(1)[of x s] Cons.prems(2) by auto
  with Cons.IH[of s1] Cons.prems(1) show ?case by simp
qed simp

text \<open>The index of the first element that satisfies a test: a search loop that returns a pointer
  into an array.\<close>

fun find_index :: "('a \<Rightarrow> bool) \<Rightarrow> 'a list \<Rightarrow> nat option" where
  "find_index P [] = None"
| "find_index P (x # xs) = (if P x then Some 0 else map_option Suc (find_index P xs))"

lemma find_index_None: "find_index P xs = None \<longleftrightarrow> (\<forall>x \<in> set xs. \<not> P x)"
  by (induction xs) auto

lemma find_index_Some:
  "find_index P xs = Some i \<longleftrightarrow> i < length xs \<and> P (xs ! i) \<and> (\<forall>j < i. \<not> P (xs ! j))"
proof (induction xs arbitrary: i)
  case (Cons x xs)
  show ?case
  proof (cases i)
    case 0
    then show ?thesis by auto
  next
    case (Suc k)
    have "(\<forall>j < Suc k. \<not> P ((x # xs) ! j)) \<longleftrightarrow> \<not> P x \<and> (\<forall>j < k. \<not> P (xs ! j))"
      by (auto simp: less_Suc_eq_0_disj)
    with Suc show ?thesis by (auto simp: Cons.IH)
  qed
qed simp

lemma find_index_SomeD:
  assumes "find_index P xs = Some i"
  shows "i < length xs" and "P (xs ! i)"
  using assms by (simp_all add: find_index_Some)

lemma find_eq_find_index: "find P xs = map_option ((!) xs) (find_index P xs)"
  by (induction xs) (auto simp: option.map_comp o_def intro: option.map_cong)

text \<open>Overwriting the element a search by key found, keeping its key.\<close>

lemma find_list_update_key:
  assumes "find_index (\<lambda>e. key e = k) xs = Some i" and "key v = k"
  shows "find (\<lambda>e. key e = k') (xs[i := v]) =
           (if k' = k then Some v else find (\<lambda>e. key e = k') xs)"
  using assms(1)
proof (induction xs arbitrary: i)
  case (Cons x xs)
  then show ?case
    using assms(2) by (auto split: if_splits option.splits)
qed simp

lemma find_append: "find P (xs @ ys) = (case find P xs of None \<Rightarrow> find P ys | Some x \<Rightarrow> Some x)"
  by (induction xs) auto

lemma map_list_update_same:
  assumes "i < length xs" and "f v = f (xs ! i)"
  shows "map f (xs[i := v]) = map f xs"
  using assms by (simp add: map_update list_update_same_conv)

lemma take_of_prefix: "prefix xs ys \<Longrightarrow> n \<le> length xs \<Longrightarrow> take n ys = take n xs"
  by (auto simp: prefix_def)

end
