(* ===== verification/Rate_Limiter.thy ===== *)
theory Rate_Limiter
  imports Prelude
begin

text \<open>
  Model of \<^verbatim>\<open>lib/policy/rate_limiter.c\<close>: the denial counters with a backoff schedule that the
  approval gate consults before it prompts again. The entry array is the list of its first
  \<open>count\<close> elements together with the allocated capacity; \<^verbatim>\<open>time(NULL)\<close> is the argument \<open>now\<close>; a
  pointer that may be \<^verbatim>\<open>NULL\<close> is an option; a pointer into the array is an index.
  The abstraction \<open>rl_lookup\<close> reads the array as a map from keys to counters, and the locale
  \<open>denial_limiter\<close> states what the gate relies on: what each operation does to that map.
\<close>

section \<open>State\<close>

record RateLimitEntry =
  rle_key :: "string option"
  denial_count :: int
  last_denial :: int
  backoff_until :: int

record RateLimiter =
  rl_entries :: "RateLimitEntry list"
  rl_capacity :: int

definition INITIAL_CAPACITY :: int where
  "INITIAL_CAPACITY = 8"

definition BACKOFF_SCHEDULE :: "int list" where
  "BACKOFF_SCHEDULE = [0, 0, 5, 15, 60, 300]"

definition BACKOFF_SCHEDULE_SIZE :: int where
  "BACKOFF_SCHEDULE_SIZE = int (length BACKOFF_SCHEDULE)"

section \<open>Operations\<close>

definition find_entry :: "RateLimiter option \<Rightarrow> string option \<Rightarrow> nat option" where
  "find_entry rl key =
     (case (rl, key) of
        (Some r, Some k) \<Rightarrow> find_index (\<lambda>e. rle_key e = Some k) (rl_entries r)
      | _ \<Rightarrow> None)"

text \<open>Site 0 is the \<^verbatim>\<open>realloc\<close> of a full array, site 1 the \<^verbatim>\<open>strdup\<close> of the key.\<close>

definition get_or_create_entry ::
    "alloc \<Rightarrow> RateLimiter \<Rightarrow> string \<Rightarrow> RateLimiter \<times> nat option" where
  "get_or_create_entry ok rl key =
     (case find_entry (Some rl) (Some key) of
        Some i \<Rightarrow> (rl, Some i)
      | None \<Rightarrow>
          (let count = int (length (rl_entries rl));
               full = count \<ge> rl_capacity rl
           in if full \<and> \<not> ok 0 then (rl, None)
              else
                (let rl1 = (if full then rl\<lparr>rl_capacity := wrap32 (rl_capacity rl * 2)\<rparr> else rl)
                 in if \<not> ok 1 then (rl1, None)
                    else (rl1\<lparr>rl_entries := rl_entries rl1 @
                            [\<lparr>rle_key = Some key, denial_count = 0, last_denial = 0,
                              backoff_until = 0\<rparr>]\<rparr>,
                          Some (length (rl_entries rl1))))))"

text \<open>Site 0 is the structure, site 1 its entry array.\<close>

definition rate_limiter_create :: "alloc \<Rightarrow> RateLimiter option" where
  "rate_limiter_create ok =
     (if \<not> ok 0 then None
      else if \<not> ok 1 then None
      else Some \<lparr>rl_entries = [], rl_capacity = INITIAL_CAPACITY\<rparr>)"

definition rate_limiter_is_blocked ::
    "int \<Rightarrow> RateLimiter option \<Rightarrow> string option \<Rightarrow> bool" where
  "rate_limiter_is_blocked now rl key =
     (case rl of None \<Rightarrow> False
      | Some r \<Rightarrow>
          (case find_entry rl key of
             None \<Rightarrow> False
           | Some i \<Rightarrow> backoff_until (rl_entries r ! i) > now))"

definition schedule_index :: "int \<Rightarrow> int" where
  "schedule_index dcount =
     (let i = wrap32 (dcount - 1);
          i = (if i < 0 then 0 else i)
      in if i \<ge> BACKOFF_SCHEDULE_SIZE then BACKOFF_SCHEDULE_SIZE - 1 else i)"

definition deny_entry :: "int \<Rightarrow> RateLimitEntry \<Rightarrow> RateLimitEntry" where
  "deny_entry now e =
     (let c = wrap32 (denial_count e + 1)
      in e\<lparr>denial_count := c, last_denial := now,
           backoff_until := now + BACKOFF_SCHEDULE ! nat (schedule_index c)\<rparr>)"

definition rate_limiter_record_denial ::
    "alloc \<Rightarrow> int \<Rightarrow> RateLimiter option \<Rightarrow> string option \<Rightarrow> RateLimiter option" where
  "rate_limiter_record_denial ok now rl key =
     (case (rl, key) of
        (Some r, Some k) \<Rightarrow>
          (case get_or_create_entry ok r k of
             (r', None) \<Rightarrow> Some r'
           | (r', Some i) \<Rightarrow>
               Some (r'\<lparr>rl_entries := (rl_entries r')[i := deny_entry now (rl_entries r' ! i)]\<rparr>))
      | _ \<Rightarrow> rl)"

definition rate_limiter_reset ::
    "RateLimiter option \<Rightarrow> string option \<Rightarrow> RateLimiter option" where
  "rate_limiter_reset rl key =
     (case (rl, key) of
        (Some r, Some k) \<Rightarrow>
          (case find_entry rl key of
             None \<Rightarrow> rl
           | Some i \<Rightarrow>
               Some (r\<lparr>rl_entries := (rl_entries r)[i := (rl_entries r ! i)
                        \<lparr>denial_count := 0, last_denial := 0, backoff_until := 0\<rparr>]\<rparr>))
      | _ \<Rightarrow> rl)"

definition rate_limiter_get_remaining ::
    "int \<Rightarrow> RateLimiter option \<Rightarrow> string option \<Rightarrow> int" where
  "rate_limiter_get_remaining now rl key =
     (case rl of None \<Rightarrow> 0
      | Some r \<Rightarrow>
          (case find_entry rl key of
             None \<Rightarrow> 0
           | Some i \<Rightarrow>
               (if backoff_until (rl_entries r ! i) \<le> now then 0
                else wrap32 (backoff_until (rl_entries r ! i) - now))))"

section \<open>Invariant and abstraction\<close>

text \<open>Every entry has a key, no key occurs twice, the array fits its capacity, and a backoff ends
  at most the longest schedule entry after the denial that set it.\<close>

definition entry_ok :: "RateLimitEntry \<Rightarrow> bool" where
  "entry_ok e \<longleftrightarrow> rle_key e \<noteq> None \<and> backoff_until e \<le> last_denial e + 300"

definition rl_inv :: "RateLimiter \<Rightarrow> bool" where
  "rl_inv rl \<longleftrightarrow>
     (\<forall>e \<in> set (rl_entries rl). entry_ok e) \<and>
     distinct (map rle_key (rl_entries rl)) \<and>
     int (length (rl_entries rl)) \<le> rl_capacity rl \<and> 0 < rl_capacity rl"

text \<open>The counters of a key: how often it was denied, when last, and until when it backs off.\<close>

type_synonym counters = "int \<times> int \<times> int"

definition counters_of :: "RateLimitEntry \<Rightarrow> counters" where
  "counters_of e = (denial_count e, last_denial e, backoff_until e)"

definition rl_lookup :: "RateLimiter \<Rightarrow> string \<Rightarrow> counters option" where
  "rl_lookup rl k =
     map_option (\<lambda>i. counters_of (rl_entries rl ! i)) (find_entry (Some rl) (Some k))"

text \<open>The abstract effect of one denial on a key's counters.\<close>

definition deny_counters :: "int \<Rightarrow> counters option \<Rightarrow> counters" where
  "deny_counters now c =
     (let n = wrap32 (case c of None \<Rightarrow> 1 | Some (d, _) \<Rightarrow> d + 1)
      in (n, now, now + BACKOFF_SCHEDULE ! nat (schedule_index n)))"

section \<open>The array as a map\<close>

lemma find_entry_Some_iff: "find_entry (Some r) (Some k) = find_index (\<lambda>e. rle_key e = Some k) (rl_entries r)"
  by (simp add: find_entry_def)

lemma rl_lookup_find:
  "rl_lookup r k = map_option counters_of (find (\<lambda>e. rle_key e = Some k) (rl_entries r))"
  by (simp add: rl_lookup_def find_entry_def find_eq_find_index option.map_comp o_def)

lemma rl_lookup_update:
  assumes "find_entry (Some r) (Some k) = Some i" and "rle_key v = Some k"
  shows "rl_lookup (r\<lparr>rl_entries := (rl_entries r)[i := v]\<rparr>) = (rl_lookup r)(k \<mapsto> counters_of v)"
proof
  fix k'
  show "rl_lookup (r\<lparr>rl_entries := (rl_entries r)[i := v]\<rparr>) k' = ((rl_lookup r)(k \<mapsto> counters_of v)) k'"
    using find_list_update_key[of rle_key "Some k" "rl_entries r" i v "Some k'"] assms
    by (simp add: rl_lookup_find find_entry_def)
qed

lemma find_entry_lookup:
  assumes "find_entry (Some r) (Some k) = Some i"
  shows "rl_lookup r k = Some (counters_of (rl_entries r ! i))"
    and "i < length (rl_entries r)" and "rle_key (rl_entries r ! i) = Some k"
  using assms by (auto simp: rl_lookup_def find_entry_def dest: find_index_SomeD)

lemma find_entry_None_lookup: "find_entry (Some r) (Some k) = None \<longleftrightarrow> rl_lookup r k = None"
  by (simp add: rl_lookup_def)

lemma deny_entry_counters:
  "counters_of (deny_entry now e) = deny_counters now (Some (counters_of e))"
  "rle_key (deny_entry now e) = rle_key e"
  by (simp_all add: deny_entry_def counters_of_def deny_counters_def Let_def)

lemma deny_counters_fresh:
  "deny_counters now (Some (0, 0, 0)) = deny_counters now None"
  by (simp add: deny_counters_def)

definition fresh_entry :: "string \<Rightarrow> RateLimitEntry" where
  "fresh_entry k = \<lparr>rle_key = Some k, denial_count = 0, last_denial = 0, backoff_until = 0\<rparr>"

lemma get_or_create_cases:
  assumes "get_or_create_entry ok r k = (r', Some i)"
  obtains (old) "r' = r" "find_entry (Some r) (Some k) = Some i"
  | (new) "find_entry (Some r) (Some k) = None" "i = length (rl_entries r)"
      "rl_entries r' = rl_entries r @ [fresh_entry k]"
      "rl_capacity r' = (if int (length (rl_entries r)) \<ge> rl_capacity r
                         then wrap32 (rl_capacity r * 2) else rl_capacity r)"
  using assms
  by (auto simp: get_or_create_entry_def Let_def fresh_entry_def split: option.splits if_splits)

lemma find_entry_new:
  assumes "find_entry (Some r) (Some k) = None" and "rl_entries r' = rl_entries r @ [fresh_entry k]"
  shows "find_entry (Some r') (Some k) = Some (length (rl_entries r))"
    and "rl_lookup r' = (rl_lookup r)(k \<mapsto> (0, 0, 0))"
proof -
  have none: "\<forall>e \<in> set (rl_entries r). rle_key e \<noteq> Some k"
    using assms(1) by (simp add: find_entry_def find_index_None)
  then show "find_entry (Some r') (Some k) = Some (length (rl_entries r))"
    using assms(2) by (auto simp: find_entry_def find_index_Some nth_append fresh_entry_def)
  have "find (\<lambda>e. rle_key e = Some k) (rl_entries r) = None"
    using none by (simp add: find_None_iff)
  then show "rl_lookup r' = (rl_lookup r)(k \<mapsto> (0, 0, 0))"
    using assms(2)
    by (auto simp: rl_lookup_find find_append fun_eq_iff counters_of_def fresh_entry_def split: option.splits)
qed

lemma get_or_create_Some:
  assumes "get_or_create_entry ok r k = (r', Some i)"
  shows "find_entry (Some r') (Some k) = Some i \<and>
    rl_lookup r' = (rl_lookup r)(k \<mapsto> (case rl_lookup r k of None \<Rightarrow> (0, 0, 0) | Some c \<Rightarrow> c))"
  using assms
proof (cases rule: get_or_create_cases)
  case old
  then show ?thesis by (auto simp: find_entry_lookup(1)[OF old(2)])
next
  case new
  then show ?thesis using find_entry_new[OF new(1,3)] by (simp add: find_entry_None_lookup)
qed

lemma get_or_create_None:
  assumes "get_or_create_entry ok r k = (r', None)"
  shows "rl_entries r' = rl_entries r" and "rl_lookup r' = rl_lookup r"
    and "rl_lookup r k = None" and "\<not> ok 0 \<or> \<not> ok 1"
  using assms
  by (auto simp: get_or_create_entry_def Let_def rl_lookup_find find_entry_None_lookup fun_eq_iff
      split: option.splits if_splits)

section \<open>What the operations do to the map\<close>

lemma record_denial_Some:
  "\<exists>r'. rate_limiter_record_denial ok now (Some r) (Some k) = Some r'"
  by (auto simp: rate_limiter_record_denial_def split: option.split prod.split)

lemma lookup_record_denial:
  assumes "rate_limiter_record_denial ok now (Some r) (Some k) = Some r'"
  shows "rl_lookup r' = (if rl_lookup r k = None \<and> snd (get_or_create_entry ok r k) = None
           then rl_lookup r
           else (rl_lookup r)(k \<mapsto> deny_counters now (rl_lookup r k)))"
proof (cases "get_or_create_entry ok r k")
  case (Pair r1 io)
  show ?thesis
  proof (cases io)
    case None
    then show ?thesis
      using assms Pair get_or_create_None[of ok r k r1] by (simp add: rate_limiter_record_denial_def)
  next
    case (Some i)
    note f = get_or_create_Some[of ok r k r1 i, unfolded Pair Some, simplified]
    let ?v = "deny_entry now (rl_entries r1 ! i)"
    have v: "rle_key ?v = Some k"
      using find_entry_lookup(3)[of r1 k i] f by (simp add: deny_entry_counters)
    have "counters_of ?v = deny_counters now (rl_lookup r1 k)"
      using find_entry_lookup(1)[of r1 k i] f by (simp add: deny_entry_counters)
    also have "\<dots> = deny_counters now (rl_lookup r k)"
      using f by (auto simp: deny_counters_fresh split: option.split)
    finally show ?thesis
      using assms Pair Some f rl_lookup_update[of r1 k i ?v] v
      by (auto simp: rate_limiter_record_denial_def)
  qed
qed

lemma get_or_create_alloc_ok: "snd (get_or_create_entry alloc_ok r k) \<noteq> None"
  by (auto simp: get_or_create_entry_def Let_def split: option.split)

lemma lookup_reset:
  assumes "rate_limiter_reset (Some r) (Some k) = Some r'"
  shows "rl_lookup r' = (rl_lookup r)(k := map_option (\<lambda>_. (0, 0, 0)) (rl_lookup r k))"
proof (cases "find_entry (Some r) (Some k)")
  case None
  then show ?thesis
    using assms None[unfolded find_entry_None_lookup] by (auto simp: rate_limiter_reset_def None)
next
  case (Some i)
  let ?v = "(rl_entries r ! i)\<lparr>denial_count := 0, last_denial := 0, backoff_until := 0\<rparr>"
  have "rle_key ?v = Some k" using find_entry_lookup(3)[OF Some] by simp
  from rl_lookup_update[OF Some this] show ?thesis
    using assms Some find_entry_lookup(1)[OF Some]
    by (simp add: rate_limiter_reset_def counters_of_def)
qed

lemma is_blocked_lookup:
  "rate_limiter_is_blocked now (Some r) (Some k) \<longleftrightarrow>
     (case rl_lookup r k of None \<Rightarrow> False | Some (_, _, u) \<Rightarrow> now < u)"
  by (auto simp: rate_limiter_is_blocked_def rl_lookup_def counters_of_def split: option.split)

lemma get_remaining_lookup:
  "rate_limiter_get_remaining now (Some r) (Some k) =
     (case rl_lookup r k of None \<Rightarrow> 0 | Some (_, _, u) \<Rightarrow> if u \<le> now then 0 else wrap32 (u - now))"
  by (auto simp: rate_limiter_get_remaining_def rl_lookup_def counters_of_def split: option.split)

section \<open>The contract the gate relies on\<close>

lemma schedule_index_eq:
  assumes "0 < n" and "n \<le> INT_MAX"
  shows "nat (schedule_index n) = min (nat n) 6 - 1"
  using assms by (auto simp: schedule_index_def BACKOFF_SCHEDULE_SIZE_def BACKOFF_SCHEDULE_def Let_def)

definition backoff_after :: "nat \<Rightarrow> int" where
  "backoff_after n = BACKOFF_SCHEDULE ! (min n 6 - 1)"

lemma deny_counters_None: "deny_counters now None = (1, now, now)"
  by (simp add: deny_counters_def schedule_index_eq BACKOFF_SCHEDULE_def)

lemma deny_counters_Some:
  assumes "0 \<le> d" and "d < INT_MAX"
  shows "deny_counters now (Some (d, l, u)) = (d + 1, now, now + backoff_after (nat (d + 1)))"
  using assms by (simp add: deny_counters_def schedule_index_eq backoff_after_def Let_def)

lemma schedule_bounds:
  assumes "i < 6"
  shows "0 \<le> BACKOFF_SCHEDULE ! i" and "BACKOFF_SCHEDULE ! i \<le> 300"
proof -
  have "list_all (\<lambda>x. 0 \<le> x \<and> x \<le> 300) BACKOFF_SCHEDULE" and "length BACKOFF_SCHEDULE = 6"
    by (simp_all add: BACKOFF_SCHEDULE_def)
  with assms show "0 \<le> BACKOFF_SCHEDULE ! i" and "BACKOFF_SCHEDULE ! i \<le> 300"
    by (auto simp: list_all_length)
qed

locale denial_limiter =
  fixes lookup :: "'s \<Rightarrow> string \<Rightarrow> counters option"
    and deny :: "int \<Rightarrow> 's \<Rightarrow> string \<Rightarrow> 's"
    and forgive :: "'s \<Rightarrow> string \<Rightarrow> 's"
    and blocked :: "int \<Rightarrow> 's \<Rightarrow> string \<Rightarrow> bool"
    and remaining :: "int \<Rightarrow> 's \<Rightarrow> string \<Rightarrow> int"
  assumes lookup_deny: "lookup (deny now s k) = (lookup s)(k \<mapsto> deny_counters now (lookup s k))"
    and lookup_forgive: "lookup (forgive s k) = (lookup s)(k := map_option (\<lambda>_. (0, 0, 0)) (lookup s k))"
    and blocked_iff: "blocked now s k \<longleftrightarrow> (case lookup s k of None \<Rightarrow> False | Some (_, _, u) \<Rightarrow> now < u)"
    and remaining_eq: "remaining now s k =
      (case lookup s k of None \<Rightarrow> 0 | Some (_, _, u) \<Rightarrow> if u \<le> now then 0 else wrap32 (u - now))"
begin

definition denials :: "int list \<Rightarrow> string \<Rightarrow> 's \<Rightarrow> 's" where
  "denials ts k s = fold (\<lambda>t s. deny t s k) ts s"

lemma deny_other: "k' \<noteq> k \<Longrightarrow> lookup (deny now s k) k' = lookup s k'"
  by (simp add: lookup_deny)

lemma not_blocked_forgive: "0 \<le> now \<Longrightarrow> \<not> blocked now (forgive s k) k"
  by (auto simp: blocked_iff lookup_forgive split: option.split)

lemma denials_count:
  assumes "lookup s k = None \<or> (\<exists>l u. lookup s k = Some (0, l, u))"
    and "ts \<noteq> []" and "int (length ts) \<le> INT_MAX"
  shows "lookup (denials ts k s) k =
           Some (int (length ts), last ts, last ts + backoff_after (length ts))"
  using assms(2,3)
proof (induction ts rule: rev_induct)
  case (snoc t ts)
  show ?case
  proof (cases "ts = []")
    case True
    then show ?thesis
      using assms(1)
      by (auto simp: denials_def lookup_deny deny_counters_None deny_counters_Some
          backoff_after_def BACKOFF_SCHEDULE_def)
  next
    case False
    with snoc have "lookup (denials ts k s) k =
        Some (int (length ts), last ts, last ts + backoff_after (length ts))" by simp
    with snoc.prems show ?thesis
      by (simp add: denials_def lookup_deny deny_counters_Some nat_add_distrib)
  qed
qed simp

lemma denials_blocked:
  assumes "lookup s k = None \<or> (\<exists>l u. lookup s k = Some (0, l, u))"
    and "ts \<noteq> []" and "int (length ts) \<le> INT_MAX"
  shows "blocked now (denials ts k s) k \<longleftrightarrow> now < last ts + backoff_after (length ts)"
  using denials_count[OF assms] by (simp add: blocked_iff)

lemma denials_other: "k' \<noteq> k \<Longrightarrow> lookup (denials ts k s) k' = lookup s k'"
  by (induction ts arbitrary: s) (simp_all add: denials_def deny_other)

end

interpretation rl: denial_limiter rl_lookup
  "\<lambda>now r k. the (rate_limiter_record_denial alloc_ok now (Some r) (Some k))"
  "\<lambda>r k. the (rate_limiter_reset (Some r) (Some k))"
  "\<lambda>now r k. rate_limiter_is_blocked now (Some r) (Some k)"
  "\<lambda>now r k. rate_limiter_get_remaining now (Some r) (Some k)"
proof unfold_locales
  fix now r k
  obtain r' where r': "rate_limiter_record_denial alloc_ok now (Some r) (Some k) = Some r'"
    using record_denial_Some by blast
  show "rl_lookup (the (rate_limiter_record_denial alloc_ok now (Some r) (Some k))) =
      (rl_lookup r)(k \<mapsto> deny_counters now (rl_lookup r k))"
    using lookup_record_denial[OF r'] get_or_create_alloc_ok[of r k] r' by simp
next
  fix r k
  obtain r' where "rate_limiter_reset (Some r) (Some k) = Some r'"
    by (cases "find_entry (Some r) (Some k)") (auto simp: rate_limiter_reset_def)
  then show "rl_lookup (the (rate_limiter_reset (Some r) (Some k))) =
      (rl_lookup r)(k := map_option (\<lambda>_. (0, 0, 0)) (rl_lookup r k))"
    using lookup_reset by simp
qed (rule is_blocked_lookup get_remaining_lookup)+

section \<open>Invariant preservation\<close>

lemma rl_inv_create [inv_intro]: "rate_limiter_create ok = Some r \<Longrightarrow> rl_inv r"
  by (auto simp: rate_limiter_create_def rl_inv_def INITIAL_CAPACITY_def split: if_splits)

lemma rl_inv_update:
  assumes "rl_inv r" and "i < length (rl_entries r)"
    and "rle_key v = rle_key (rl_entries r ! i)" and "backoff_until v \<le> last_denial v + 300"
  shows "rl_inv (r\<lparr>rl_entries := (rl_entries r)[i := v]\<rparr>)"
proof -
  have "map rle_key ((rl_entries r)[i := v]) = map rle_key (rl_entries r)"
    using assms(2,3) by (rule map_list_update_same)
  moreover have "entry_ok v"
    using assms by (auto simp: entry_ok_def rl_inv_def)
  ultimately show ?thesis
    using assms(1) by (auto simp: rl_inv_def dest!: set_update_subset_insert[THEN subsetD])
qed

lemma deny_entry_window: "backoff_until (deny_entry now e) \<le> last_denial (deny_entry now e) + 300"
proof -
  have "nat (schedule_index n) < 6" for n
    by (auto simp: schedule_index_def BACKOFF_SCHEDULE_SIZE_def BACKOFF_SCHEDULE_def Let_def)
  then show ?thesis
    by (simp add: deny_entry_def Let_def schedule_bounds(2))
qed

lemma rl_inv_get_or_create:
  assumes "get_or_create_entry ok r k = (r', io)" and "rl_inv r"
    and "int (length (rl_entries r)) < 1073741824"
  shows "rl_inv r'"
proof (cases io)
  case None
  then have "rl_entries r' = rl_entries r"
    and "rl_capacity r' = rl_capacity r \<or>
         int (length (rl_entries r)) \<ge> rl_capacity r \<and> rl_capacity r' = wrap32 (rl_capacity r * 2)"
    using assms(1)
    by (auto simp: get_or_create_entry_def Let_def split: option.splits if_splits)
  then show ?thesis using assms(2,3) by (auto simp: rl_inv_def)
next
  case (Some i)
  with assms(1) have "get_or_create_entry ok r k = (r', Some i)" by simp
  then show ?thesis
  proof (cases rule: get_or_create_cases)
    case new
    then have "Some k \<notin> rle_key ` set (rl_entries r)"
      by (auto simp: find_entry_def find_index_None)
    with new assms(2,3) show ?thesis
      by (auto simp: rl_inv_def fresh_entry_def entry_ok_def)
  qed (use assms in simp)
qed

lemma rl_inv_record_denial [inv_intro]:
  assumes "rate_limiter_record_denial ok now (Some r) (Some k) = Some r'" and "rl_inv r"
    and "int (length (rl_entries r)) < 1073741824"
  shows "rl_inv r'"
proof (cases "get_or_create_entry ok r k")
  case (Pair r1 io)
  have inv: "rl_inv r1" using rl_inv_get_or_create[OF Pair assms(2,3)] .
  show ?thesis
  proof (cases io)
    case None
    with assms(1) Pair inv show ?thesis by (simp add: rate_limiter_record_denial_def)
  next
    case (Some i)
    have "find_entry (Some r1) (Some k) = Some i"
      using get_or_create_Some[of ok r k r1 i] Pair Some by simp
    from rl_inv_update[OF inv find_entry_lookup(2)[OF this]] show ?thesis
      using assms(1) Pair Some deny_entry_window
      by (auto simp: rate_limiter_record_denial_def deny_entry_counters)
  qed
qed

lemma rl_inv_reset [inv_intro]:
  assumes "rate_limiter_reset (Some r) key = Some r'" and "rl_inv r"
  shows "rl_inv r'"
proof (cases "find_entry (Some r) key")
  case None
  with assms show ?thesis by (auto simp: rate_limiter_reset_def split: option.splits)
next
  case (Some i)
  then obtain k where k: "key = Some k" by (cases key) (auto simp: find_entry_def)
  show ?thesis
    using rl_inv_update[OF assms(2) find_entry_lookup(2)[OF Some[unfolded k]],
        of "(rl_entries r ! i)\<lparr>denial_count := 0, last_denial := 0, backoff_until := 0\<rparr>"]
      assms(1) Some by (simp add: rate_limiter_reset_def k)
qed

section \<open>Properties\<close>

text \<open>Consecutive denials of a tool that has no denials on record follow the backoff schedule:
  after \<open>n\<close> of them the tool is blocked exactly until the time of the last one plus 0, 0, 5, 15, 60
  and, from the sixth on, 300 seconds.\<close>

theorem backoff_after_denials:
  assumes "rl_lookup r k = None" and "ts \<noteq> []" and "int (length ts) \<le> INT_MAX"
  shows "rate_limiter_is_blocked now
           (fold (\<lambda>t s. rate_limiter_record_denial alloc_ok t s (Some k)) ts (Some r)) (Some k)
         \<longleftrightarrow> now < last ts + [0, 0, 5, 15, 60, 300] ! (min (length ts) 6 - 1)"
proof -
  have "fold (\<lambda>t s. rate_limiter_record_denial alloc_ok t s (Some k)) ts (Some r) =
      Some (rl.denials ts k r)" for ts r
  proof (induction ts arbitrary: r)
    case (Cons t ts)
    obtain r' where "rate_limiter_record_denial alloc_ok t (Some r) (Some k) = Some r'"
      using record_denial_Some by blast
    with Cons show ?case by (simp add: rl.denials_def)
  qed (simp add: rl.denials_def)
  then show ?thesis
    using rl.denials_blocked[OF disjI1[OF assms(1)] assms(2,3)]
    by (simp add: backoff_after_def BACKOFF_SCHEDULE_def)
qed

theorem backoff_after_denials_witness:
  "rate_limiter_is_blocked 1004
     (fold (\<lambda>t s. rate_limiter_record_denial alloc_ok t s (Some ''shell'')) [998, 999, 1000]
        (Some \<lparr>rl_entries = [], rl_capacity = 8\<rparr>)) (Some ''shell'')
   \<and> \<not> rate_limiter_is_blocked 1005
     (fold (\<lambda>t s. rate_limiter_record_denial alloc_ok t s (Some ''shell'')) [998, 999, 1000]
        (Some \<lparr>rl_entries = [], rl_capacity = 8\<rparr>)) (Some ''shell'')"
proof -
  have none: "rl_lookup \<lparr>rl_entries = [], rl_capacity = 8\<rparr> ''shell'' = None"
    by (simp add: rl_lookup_find)
  show ?thesis
    using backoff_after_denials[OF none, of "[998, 999, 1000]" 1004]
      backoff_after_denials[OF none, of "[998, 999, 1000]" 1005]
    by (simp add: numeral_nat)
qed

text \<open>Recording a denial or resetting the counters of one tool never changes whether another
  tool is blocked or how long it stays blocked, whatever allocations fail on the way.\<close>

theorem rate_limiter_frame:
  assumes "k' \<noteq> k"
  shows "rate_limiter_is_blocked now (rate_limiter_record_denial ok t rl (Some k)) (Some k')
           = rate_limiter_is_blocked now rl (Some k')
    \<and> rate_limiter_get_remaining now (rate_limiter_record_denial ok t rl (Some k)) (Some k')
           = rate_limiter_get_remaining now rl (Some k')
    \<and> rate_limiter_is_blocked now (rate_limiter_reset rl (Some k)) (Some k')
           = rate_limiter_is_blocked now rl (Some k')
    \<and> rate_limiter_get_remaining now (rate_limiter_reset rl (Some k)) (Some k')
           = rate_limiter_get_remaining now rl (Some k')"
proof (cases rl)
  case None
  then show ?thesis by (simp add: rate_limiter_record_denial_def rate_limiter_reset_def)
next
  case (Some r)
  obtain r' where d: "rate_limiter_record_denial ok t (Some r) (Some k) = Some r'"
    using record_denial_Some by blast
  obtain r'' where f: "rate_limiter_reset (Some r) (Some k) = Some r''"
    by (cases "find_entry (Some r) (Some k)") (auto simp: rate_limiter_reset_def)
  have "rl_lookup r' k' = rl_lookup r k'" and "rl_lookup r'' k' = rl_lookup r k'"
    using lookup_record_denial[OF d] lookup_reset[OF f] assms by auto
  then show ?thesis
    by (simp add: Some d f is_blocked_lookup get_remaining_lookup)
qed

theorem rate_limiter_frame_witness:
  "rate_limiter_is_blocked 1 (rate_limiter_record_denial (\<lambda>_. False) 0
      (Some \<lparr>rl_entries = [\<lparr>rle_key = Some ''b'', denial_count = 3, last_denial = 0, backoff_until = 5\<rparr>],
             rl_capacity = 8\<rparr>) (Some ''a'')) (Some ''b'')"
  using rate_limiter_frame[of "''b''" "''a''" 1 "\<lambda>_. False" 0
      "Some \<lparr>rl_entries = [\<lparr>rle_key = Some ''b'', denial_count = 3, last_denial = 0, backoff_until = 5\<rparr>],
             rl_capacity = 8\<rparr>"]
  by (simp add: is_blocked_lookup rl_lookup_find counters_of_def)

text \<open>The remaining backoff the limiter reports is between 0 and 300 seconds, and positive exactly
  when the tool is blocked, as long as the clock has not gone back before the denials on record.\<close>

theorem get_remaining_bounds:
  assumes "rl_inv r" and "\<forall>e \<in> set (rl_entries r). last_denial e \<le> now"
  shows "0 \<le> rate_limiter_get_remaining now (Some r) key
    \<and> rate_limiter_get_remaining now (Some r) key \<le> 300
    \<and> (0 < rate_limiter_get_remaining now (Some r) key \<longleftrightarrow>
         rate_limiter_is_blocked now (Some r) key)"
proof (cases "find_entry (Some r) key")
  case None
  then show ?thesis
    by (simp add: rate_limiter_get_remaining_def rate_limiter_is_blocked_def)
next
  case (Some i)
  then have "rl_entries r ! i \<in> set (rl_entries r)"
    by (cases key) (auto simp: find_entry_def dest: find_index_SomeD)
  with assms have "backoff_until (rl_entries r ! i) \<le> now + 300"
    by (fastforce simp: rl_inv_def entry_ok_def)
  with Some show ?thesis
    by (auto simp: rate_limiter_get_remaining_def rate_limiter_is_blocked_def)
qed

theorem get_remaining_bounds_witness:
  "rate_limiter_get_remaining 1002
     (Some \<lparr>rl_entries = [\<lparr>rle_key = Some ''b'', denial_count = 3, last_denial = 1000, backoff_until = 1005\<rparr>],
            rl_capacity = 8\<rparr>) (Some ''b'') \<le> 300"
  using get_remaining_bounds[of "\<lparr>rl_entries = [\<lparr>rle_key = Some ''b'', denial_count = 3, last_denial = 1000,
      backoff_until = 1005\<rparr>], rl_capacity = 8\<rparr>" 1002 "Some ''b''"]
  by (simp add: rl_inv_def entry_ok_def)

end
