(* ===== verification/Shell_Common.thy ===== *)
theory Shell_Common
  imports Prelude
begin

text \<open>
  The parts of \<^verbatim>\<open>lib/policy/shell_parser.h\<close> and \<^verbatim>\<open>shell_parser.c\<close> that the three command parsers
  share: the shell types, the parse result, the scan for dangerous patterns and the growing
  token list, whose copies in \<^verbatim>\<open>shell_parser_cmd.c\<close> and \<^verbatim>\<open>shell_parser_ps.c\<close> are the same code
  under other names.

  The main loop of each parser reads one character, looks at what follows, changes the lexer state
  and moves the pointer. \<open>scan\<close> is that loop: a step gets the current character, the rest of the
  string and the state, and returns how many further characters it skips. A step that fails (a
  token that cannot be stored) ends the loop, as the parsers' early \<^verbatim>\<open>return -1\<close> does.

  Allocation sites of a parser: 0 the lower-cased copy of the command, 1 the token array, 2 the
  token buffer, \<open>3 + 2n\<close> and \<open>4 + 2n\<close> the array growth and the copy for token number \<open>n\<close>.
\<close>

section \<open>Shell types and parse results\<close>

datatype ShellType =
    SHELL_TYPE_POSIX
  | SHELL_TYPE_CMD
  | SHELL_TYPE_POWERSHELL
  | SHELL_TYPE_UNKNOWN

record ParsedShellCommand =
  tokens :: "string list"
  has_chain :: bool
  has_pipe :: bool
  has_subshell :: bool
  has_redirect :: bool
  is_dangerous :: bool
  shell_type :: ShellType

definition shell_command_is_safe_for_matching :: "ParsedShellCommand option \<Rightarrow> bool" where
  "shell_command_is_safe_for_matching parsed =
     (case parsed of
        None \<Rightarrow> False
      | Some p \<Rightarrow> \<not> (has_chain p \<or> has_pipe p \<or> has_subshell p \<or> has_redirect p \<or> is_dangerous p))"

section \<open>Dangerous patterns\<close>

definition DANGEROUS_PATTERNS :: "string list" where
  "DANGEROUS_PATTERNS =
     [''rm -rf'', ''rm -fr'', ''rm -r -f'', ''rm -f -r'', ''chmod 777'', ''chmod -R'',
      '':(){ :|:& };:'']"

definition RCE_DOWNLOAD_CMDS :: "string list" where
  "RCE_DOWNLOAD_CMDS = [''curl'', ''wget'']"

definition RCE_SHELL_CMDS :: "string list" where
  "RCE_SHELL_CMDS = [''| sh'', ''| bash'', ''| zsh'', ''|sh'', ''|bash'', ''|zsh'']"

definition DISK_WRITE_PATTERNS :: "string list" where
  "DISK_WRITE_PATTERNS =
     [''of=/dev/sd'', ''of=/dev/hd'', ''of=/dev/nvme'', ''> /dev/sd'', ''> /dev/hd'', ''> /dev/nvme'']"

definition PS_DANGEROUS :: "string list" where
  "PS_DANGEROUS =
     [''invoke-expression'', ''invoke-command'', ''start-process'', ''invoke-webrequest'',
      ''invoke-restmethod'', ''iex'', ''icm'', ''iwr'', ''irm'', ''-encodedcommand'', ''-enc'',
      ''downloadstring'', ''downloadfile'']"

definition CMD_DANGEROUS_PATTERNS :: "string list" where
  "CMD_DANGEROUS_PATTERNS =
     [''format '', ''del /s'', ''del /q'', ''rd /s'', ''rmdir /s'', ''diskpart'', ''bcdedit'',
      ''reg delete'', ''powershell'', ''pwsh'']"

fun contains_any :: "string \<Rightarrow> string list \<Rightarrow> bool" where
  "contains_any command [] = False"
| "contains_any command (p # ps) = (if strstr command p then True else contains_any command ps)"

definition shell_command_is_dangerous :: "string \<Rightarrow> bool" where
  "shell_command_is_dangerous command =
     (if command = [] then False
      else if contains_any command DANGEROUS_PATTERNS then True
      else if contains_any command RCE_DOWNLOAD_CMDS \<and> contains_any command RCE_SHELL_CMDS then True
      else if contains_any command DISK_WRITE_PATTERNS then True
      else if strstr command ''dd '' \<and> strstr command ''of=/dev/'' then True
      else False)"

definition powershell_command_is_dangerous :: "alloc \<Rightarrow> string \<Rightarrow> bool" where
  "powershell_command_is_dangerous ok command =
     (if command = [] then False
      else if \<not> ok 0 then False
      else contains_any (map tolower command) PS_DANGEROUS)"

definition cmd_command_is_dangerous :: "alloc \<Rightarrow> string \<Rightarrow> bool" where
  "cmd_command_is_dangerous ok command =
     (if command = [] then False
      else if \<not> ok 0 then False
      else contains_any (map tolower command) CMD_DANGEROUS_PATTERNS)"

section \<open>Token lists\<close>

record TokenList =
  tl_tokens :: "string list"
  tl_capacity :: int

definition INITIAL_TOKEN_CAPACITY :: int where
  "INITIAL_TOKEN_CAPACITY = 16"

definition token_list_init :: "alloc \<Rightarrow> TokenList option" where
  "token_list_init ok =
     (if ok 1 then Some \<lparr>tl_tokens = [], tl_capacity = INITIAL_TOKEN_CAPACITY\<rparr> else None)"

definition token_list_add :: "alloc \<Rightarrow> TokenList \<Rightarrow> string \<Rightarrow> TokenList option" where
  "token_list_add ok l token =
     (let count = length (tl_tokens l);
          new_cap = wrap32 (tl_capacity l * 2)
      in if int count \<ge> tl_capacity l \<and> new_cap < tl_capacity l then None
         else if int count \<ge> tl_capacity l \<and> \<not> ok (3 + 2 * count) then None
         else
           (let l1 = (if int count \<ge> tl_capacity l then l\<lparr>tl_capacity := new_cap\<rparr> else l)
            in if \<not> ok (4 + 2 * count) then None
               else Some (l1\<lparr>tl_tokens := tl_tokens l1 @ [token]\<rparr>)))"

definition cmd_token_list_init :: "alloc \<Rightarrow> TokenList option" where
  "cmd_token_list_init = token_list_init"

definition cmd_token_list_add :: "alloc \<Rightarrow> TokenList \<Rightarrow> string \<Rightarrow> TokenList option" where
  "cmd_token_list_add = token_list_add"

definition ps_token_list_init :: "alloc \<Rightarrow> TokenList option" where
  "ps_token_list_init = token_list_init"

definition ps_token_list_add :: "alloc \<Rightarrow> TokenList \<Rightarrow> string \<Rightarrow> TokenList option" where
  "ps_token_list_add = token_list_add"

section \<open>Lexer state and scan loop\<close>

record lex_state =
  lx_tokens :: TokenList
  lx_buf :: string
  lx_sq :: bool
  lx_dq :: bool
  lx_had :: bool
  lx_chain :: bool
  lx_pipe :: bool
  lx_subshell :: bool
  lx_redirect :: bool

definition lex_init :: "TokenList \<Rightarrow> lex_state" where
  "lex_init tk = \<lparr>lx_tokens = tk, lx_buf = [], lx_sq = False, lx_dq = False, lx_had = False,
     lx_chain = False, lx_pipe = False, lx_subshell = False, lx_redirect = False\<rparr>"

fun scan :: "(char \<Rightarrow> string \<Rightarrow> 's \<Rightarrow> (nat \<times> 's) option) \<Rightarrow> string \<Rightarrow> 's \<Rightarrow> 's option" where
  "scan step [] st = Some st"
| "scan step (c # cs) st =
     (case step c cs st of
        None \<Rightarrow> None
      | Some (k, st') \<Rightarrow> scan step (drop k cs) st')"

text \<open>The code that stores a finished token, at white space and at an operator.\<close>

definition flush_word ::
    "(TokenList \<Rightarrow> string \<Rightarrow> TokenList option) \<Rightarrow> 'a lex_state_scheme \<Rightarrow> 'a lex_state_scheme option" where
  "flush_word add st =
     (if lx_buf st \<noteq> [] \<or> lx_had st then
        (case add (lx_tokens st) (lx_buf st) of
           None \<Rightarrow> None
         | Some tk \<Rightarrow> Some (st\<lparr>lx_tokens := tk, lx_buf := [], lx_had := False\<rparr>))
      else Some st)"

definition flush_operator ::
    "(TokenList \<Rightarrow> string \<Rightarrow> TokenList option) \<Rightarrow> 'a lex_state_scheme \<Rightarrow> 'a lex_state_scheme option" where
  "flush_operator add st =
     (if lx_buf st \<noteq> [] then
        (case add (lx_tokens st) (lx_buf st) of
           None \<Rightarrow> None
         | Some tk \<Rightarrow> Some (st\<lparr>lx_tokens := tk, lx_buf := []\<rparr>))
      else Some st)"

text \<open>The common tail of the parsers: unbalanced quotes mark the command as chained, a pending
  token is stored, and the flags go into the result.\<close>

definition lex_finish ::
    "(TokenList \<Rightarrow> string \<Rightarrow> TokenList option) \<Rightarrow> bool \<Rightarrow> ShellType \<Rightarrow> 'a lex_state_scheme
     \<Rightarrow> ParsedShellCommand option" where
  "lex_finish add dangerous type st =
     (let chain = (lx_chain st \<or> lx_sq st \<or> lx_dq st)
      in case (if lx_buf st \<noteq> [] \<or> lx_had st then add (lx_tokens st) (lx_buf st)
               else Some (lx_tokens st)) of
           None \<Rightarrow> None
         | Some tk \<Rightarrow> Some \<lparr>tokens = tl_tokens tk, has_chain = chain, has_pipe = lx_pipe st,
              has_subshell = lx_subshell st, has_redirect = lx_redirect st,
              is_dangerous = dangerous, shell_type = type\<rparr>)"

definition non_ascii :: "char \<Rightarrow> bool" where
  "non_ascii c \<longleftrightarrow> char_code c > 127"

text \<open>Non-ASCII characters, which may look like operators, mark the command as chained.\<close>

definition mark_non_ascii :: "char \<Rightarrow> 'a lex_state_scheme \<Rightarrow> 'a lex_state_scheme" where
  "mark_non_ascii c st = (if non_ascii c then st\<lparr>lx_chain := True\<rparr> else st)"

section \<open>Lemmas\<close>

lemma mark_non_ascii_simps [simp]:
  "lx_tokens (mark_non_ascii c st) = lx_tokens st" "lx_buf (mark_non_ascii c st) = lx_buf st"
  "lx_sq (mark_non_ascii c st) = lx_sq st" "lx_dq (mark_non_ascii c st) = lx_dq st"
  "lx_had (mark_non_ascii c st) = lx_had st" "lx_pipe (mark_non_ascii c st) = lx_pipe st"
  "lx_subshell (mark_non_ascii c st) = lx_subshell st"
  "lx_redirect (mark_non_ascii c st) = lx_redirect st"
  "lx_chain (mark_non_ascii c st) = (lx_chain st \<or> non_ascii c)"
  "lex_state.more (mark_non_ascii c st) = lex_state.more st"
  by (simp_all add: mark_non_ascii_def)

lemma ascii_quotes [simp]: "\<not> non_ascii CHR 0x22" "\<not> non_ascii CHR 0x27" "\<not> non_ascii CHR ''`''"
  by (simp_all add: non_ascii_def char_code_def)

lemma mark_ascii [simp]: "\<not> non_ascii c \<Longrightarrow> mark_non_ascii c st = st"
  by (simp add: mark_non_ascii_def)


lemma contains_any_iff [c_str]: "contains_any s ps \<longleftrightarrow> (\<exists>p \<in> set ps. strstr s p)"
  by (induction ps) auto

text \<open>An invariant of the loop over the state and the unread text.\<close>

lemma scan_invariant:
  assumes "scan step s st = Some st'" and "P s st"
    and "\<And>c cs st k st'. P (c # cs) st \<Longrightarrow> step c cs st = Some (k, st') \<Longrightarrow> P (drop k cs) st'"
  shows "P [] st'"
  using assms(1,2)
proof (induction s arbitrary: st rule: measure_induct_rule[of length])
  case (less s)
  show ?case
  proof (cases s)
    case Nil
    with less.prems show ?thesis by simp
  next
    case (Cons c cs)
    with less.prems(1) obtain k st1 where step: "step c cs st = Some (k, st1)"
      and rest: "scan step (drop k cs) st1 = Some st'"
      by (auto split: option.splits)
    have "P (drop k cs) st1" using assms(3)[OF _ step] less.prems(2) Cons by simp
    with less.IH[OF _ rest] Cons show ?thesis by simp
  qed
qed

text \<open>The loop succeeds when no step fails.\<close>

lemma scan_total:
  assumes "\<And>c cs st. P (c # cs) st \<Longrightarrow> \<exists>k st'. step c cs st = Some (k, st') \<and> P (drop k cs) st'"
    and "P s st"
  shows "\<exists>st'. scan step s st = Some st' \<and> P [] st'"
  using assms(2)
proof (induction s arbitrary: st rule: measure_induct_rule[of length])
  case (less s)
  show ?case
  proof (cases s)
    case Nil
    with less.prems show ?thesis by simp
  next
    case (Cons c cs)
    then obtain k st1 where "step c cs st = Some (k, st1)" and "P (drop k cs) st1"
      using assms(1) less.prems by blast
    with Cons less.IH[of "drop k cs" st1] show ?thesis by simp
  qed
qed

text \<open>The unread text and the state each time the loop is about to test \<^verbatim>\<open>*p\<close>.\<close>

inductive loop_state ::
    "(char \<Rightarrow> string \<Rightarrow> 's \<Rightarrow> (nat \<times> 's) option) \<Rightarrow> string \<Rightarrow> 's \<Rightarrow> string \<Rightarrow> 's \<Rightarrow> bool"
  for step s0 st0 where
  enter: "loop_state step s0 st0 s0 st0"
| iterate: "loop_state step s0 st0 (c # cs) st \<Longrightarrow> step c cs st = Some (k, st') \<Longrightarrow>
     loop_state step s0 st0 (drop k cs) st'"

text \<open>A token list keeps room for its tokens, and storing a token appends it.\<close>

definition tl_inv :: "TokenList \<Rightarrow> bool" where
  "tl_inv l \<longleftrightarrow> int (length (tl_tokens l)) \<le> tl_capacity l \<and> 16 \<le> tl_capacity l
     \<and> tl_capacity l \<le> INT_MAX"

lemma tl_inv_init [inv_intro]: "token_list_init ok = Some l \<Longrightarrow> tl_inv l \<and> tl_tokens l = []"
  by (auto simp: token_list_init_def tl_inv_def INITIAL_TOKEN_CAPACITY_def split: if_splits)

lemma token_list_add_tokens:
  "token_list_add ok l t = Some l' \<Longrightarrow> tl_tokens l' = tl_tokens l @ [t]"
  by (auto simp: token_list_add_def Let_def split: if_splits)

lemma wrap32_double_neq:
  assumes "0 < x" and "x \<le> INT_MAX"
  shows "wrap32 (x * 2) \<noteq> x"
proof
  define q where "q = (x * 2 + 2147483648) div 4294967296"
  assume "wrap32 (x * 2) = x"
  then have "x = 4294967296 * q"
    by (simp add: wrap32_def q_def minus_mult_div_eq_mod[symmetric])
  with assms show False by (cases "q \<le> 0") auto
qed

lemma tl_inv_add [inv_intro]:
  assumes "token_list_add ok l t = Some l'" and "tl_inv l"
  shows "tl_inv l'"
proof (cases "int (length (tl_tokens l)) \<ge> tl_capacity l")
  case True
  with assms have "tl_capacity l' = wrap32 (tl_capacity l * 2)" and "tl_capacity l \<le> tl_capacity l'"
    and len: "length (tl_tokens l') = Suc (length (tl_tokens l))"
    and eq: "int (length (tl_tokens l)) = tl_capacity l"
    by (auto simp: token_list_add_def Let_def tl_inv_def split: if_splits)
  moreover have "wrap32 (tl_capacity l * 2) \<noteq> tl_capacity l"
    using assms(2) wrap32_double_neq[of "tl_capacity l"] by (simp add: tl_inv_def)
  ultimately show ?thesis
    using assms(2) wrap32_bounds[of "tl_capacity l * 2"] by (auto simp: tl_inv_def)
next
  case False
  with assms show ?thesis
    by (auto simp: token_list_add_def Let_def tl_inv_def split: if_splits)
qed

lemma token_list_add_total:
  assumes "tl_inv l" and "length (tl_tokens l) < 1073741824"
  shows "\<exists>l'. token_list_add alloc_ok l t = Some l'"
proof -
  have "\<not> (int (length (tl_tokens l)) \<ge> tl_capacity l \<and> wrap32 (tl_capacity l * 2) < tl_capacity l)"
    using assms by (auto simp: tl_inv_def)
  then show ?thesis by (auto simp: token_list_add_def Let_def)
qed

end
