(* ===== verification/Shell_Words.thy ===== *)
theory Shell_Words
  imports Shell_Common
begin

text \<open>
  The specification the three command lexers are proved against.

  \<^item> A word is a list of fragments, each plain or inside one kind of quotes; \<open>render_words\<close> prints
    words with white space between them. The locale \<open>word_lexer\<close> asks a lexer's step for two laws,
    on one fragment and on one blank, and derives that the lexer reads every rendering back as the
    words' values and raises no flag.
  \<^item> The locale \<open>flagging_lexer\<close> asks that a step which leaves every flag down read an ASCII
    character that is no operator at that place and moved its quotes as the shell's quoting rule
    says, and that a step adds at most one character to the token buffer. It derives that a
    command the lexer calls safe has no operator where operators count, and that the buffer
    stays within the length of the command.
\<close>

section \<open>Words and their rendering\<close>

datatype fragment = Plain string | Single string | Double string

type_synonym word = "fragment list"

fun render_fragment :: "fragment \<Rightarrow> string" where
  "render_fragment (Plain s) = s"
| "render_fragment (Single s) = CHR 0x27 # s @ [CHR 0x27]"
| "render_fragment (Double s) = CHR 0x22 # s @ [CHR 0x22]"

fun fragment_value :: "fragment \<Rightarrow> string" where
  "fragment_value (Plain s) = s"
| "fragment_value (Single s) = s"
| "fragment_value (Double s) = s"

fun quoted_fragment :: "fragment \<Rightarrow> bool" where
  "quoted_fragment (Plain s) = False"
| "quoted_fragment _ = True"

definition render_word :: "word \<Rightarrow> string" where
  "render_word w = concat (map render_fragment w)"

definition word_value :: "word \<Rightarrow> string" where
  "word_value w = concat (map fragment_value w)"

fun render_words :: "(word \<times> string) list \<Rightarrow> string" where
  "render_words [] = []"
| "render_words ((w, sep) # ws) = render_word w @ sep @ render_words ws"

definition blanks :: "string \<Rightarrow> bool" where
  "blanks s \<longleftrightarrow> list_all isspace s"

fun wf_words :: "(fragment \<Rightarrow> bool) \<Rightarrow> (word \<times> string) list \<Rightarrow> bool" where
  "wf_words wff [] = True"
| "wf_words wff ((w, sep) # ws) =
     (w \<noteq> [] \<and> list_all (\<lambda>f. wff f \<and> (quoted_fragment f \<or> fragment_value f \<noteq> [])) w \<and> blanks sep
      \<and> (ws = [] \<or> sep \<noteq> []) \<and> wf_words wff ws)"

section \<open>Lexer states between characters\<close>

definition quiet :: "'a lex_state_scheme \<Rightarrow> bool" where
  "quiet st \<longleftrightarrow> \<not> lx_chain st \<and> \<not> lx_pipe st \<and> \<not> lx_subshell st \<and> \<not> lx_redirect st"

definition lex_idle :: "'a lex_state_scheme \<Rightarrow> bool" where
  "lex_idle st \<longleftrightarrow> \<not> lx_sq st \<and> \<not> lx_dq st \<and> quiet st \<and> tl_inv (lx_tokens st)"

definition lex_view :: "'a lex_state_scheme \<Rightarrow> string list \<times> string \<times> bool" where
  "lex_view st = (tl_tokens (lx_tokens st), lx_buf st, lx_had st)"

text \<open>The tokens once a pending one is stored.\<close>

fun closed :: "string list \<times> string \<times> bool \<Rightarrow> string list" where
  "closed (ts, b, h) = (if b \<noteq> [] \<or> h then ts @ [b] else ts)"

section \<open>Lexers read renderings back\<close>

locale word_lexer =
  fixes step :: "char \<Rightarrow> string \<Rightarrow> 'a lex_state_scheme \<Rightarrow> (nat \<times> 'a lex_state_scheme) option"
    and wff :: "fragment \<Rightarrow> bool"
  assumes fragment_law:
    "lex_idle st \<Longrightarrow> wff f \<Longrightarrow> lex_view st = (ts, b, h) \<Longrightarrow>
       \<exists>st'. scan step (render_fragment f @ rest) st = scan step rest st' \<and> lex_idle st'
         \<and> lex_view st' = (ts, b @ fragment_value f, h \<or> quoted_fragment f)"
    and blank_law:
    "lex_idle st \<Longrightarrow> isspace c \<Longrightarrow> lex_view st = (ts, b, h) \<Longrightarrow> length ts < 1073741824 \<Longrightarrow>
       \<exists>st'. scan step (c # rest) st = scan step rest st' \<and> lex_idle st'
         \<and> lex_view st' = (closed (ts, b, h), [], False)"
begin

lemma word_law:
  assumes "list_all wff w" and "lex_idle st" and "lex_view st = (ts, b, h)"
  shows "\<exists>st'. scan step (render_word w @ rest) st = scan step rest st' \<and> lex_idle st'
     \<and> lex_view st' = (ts, b @ word_value w, h \<or> list_ex quoted_fragment w)"
  using assms
proof (induction w arbitrary: st b h)
  case (Cons f w)
  then obtain st1 where 1: "scan step (render_fragment f @ render_word w @ rest) st =
      scan step (render_word w @ rest) st1" and "lex_idle st1"
    and "lex_view st1 = (ts, b @ fragment_value f, h \<or> quoted_fragment f)"
    using fragment_law[of st f ts b h "render_word w @ rest"] by auto
  with Cons.IH[of st1 "b @ fragment_value f" "h \<or> quoted_fragment f"] Cons.prems(1)
  obtain st2 where "scan step (render_word w @ rest) st1 = scan step rest st2" and "lex_idle st2"
    and "lex_view st2 = (ts, (b @ fragment_value f) @ word_value w,
      (h \<or> quoted_fragment f) \<or> list_ex quoted_fragment w)" by auto
  with 1 show ?case by (auto simp: render_word_def word_value_def)
qed (auto simp: render_word_def word_value_def)

lemma more_blanks_law:
  assumes "blanks sep" and "lex_idle st" and "lex_view st = (ts, [], False)" and "length ts < 1073741824"
  shows "\<exists>st'. scan step (sep @ rest) st = scan step rest st' \<and> lex_idle st'
     \<and> lex_view st' = (ts, [], False)"
  using assms
proof (induction sep arbitrary: st)
  case (Cons c sep)
  then obtain st1 where "scan step (c # sep @ rest) st = scan step (sep @ rest) st1"
    and "lex_idle st1" and "lex_view st1 = (ts, [], False)"
    using blank_law[of st c ts "[]" False "sep @ rest"] by (auto simp: blanks_def)
  with Cons.IH[of st1] Cons.prems show ?case by (auto simp: blanks_def)
qed auto

lemma blanks_law:
  assumes "blanks sep" and "lex_idle st" and "lex_view st = (ts, b, h)" and "length ts + 1 < 1073741824"
  shows "\<exists>st'. scan step (sep @ rest) st = scan step rest st' \<and> lex_idle st'
     \<and> lex_view st' = (if sep = [] then (ts, b, h) else (closed (ts, b, h), [], False))"
proof (cases sep)
  case Nil
  with assms show ?thesis by auto
next
  case (Cons c sep')
  then obtain st1 where "scan step (c # sep' @ rest) st = scan step (sep' @ rest) st1"
    and "lex_idle st1" and "lex_view st1 = (closed (ts, b, h), [], False)"
    using blank_law[of st c ts b h "sep' @ rest"] assms by (auto simp: blanks_def)
  moreover have "length (closed (ts, b, h)) < 1073741824" using assms(4) by simp
  ultimately show ?thesis
    using more_blanks_law[of sep' st1 "closed (ts, b, h)" rest] assms(1) Cons
    by (auto simp: blanks_def)
qed

lemma words_law:
  assumes "wf_words wff ws" and "lex_idle st" and "lex_view st = (ts, [], False)"
    and "length ts + length ws + 1 < 1073741824"
  shows "\<exists>st'. scan step (render_words ws) st = Some st' \<and> lex_idle st'
     \<and> length (tl_tokens (lx_tokens st')) \<le> length ts + length ws
     \<and> closed (lex_view st') = ts @ map (word_value \<circ> fst) ws"
  using assms
proof (induction ws arbitrary: st ts)
  case Nil
  then show ?case by (auto simp: lex_view_def)
next
  case (Cons p ws)
  obtain w sep where p: "p = (w, sep)" by (cases p)
  have frags: "list_all wff w" "w \<noteq> []"
    and nonempty: "list_all (\<lambda>f. quoted_fragment f \<or> fragment_value f \<noteq> []) w"
    and sep: "blanks sep" "ws = [] \<or> sep \<noteq> []" and ws: "wf_words wff ws"
    using Cons.prems(1) p by (auto simp: list_all_iff)
  obtain st1 where 1: "scan step (render_word w @ sep @ render_words ws) st =
      scan step (sep @ render_words ws) st1"
    and i1: "lex_idle st1" and v1: "lex_view st1 = (ts, word_value w, list_ex quoted_fragment w)"
    using word_law[OF frags(1) Cons.prems(2,3), of "sep @ render_words ws"] by auto
  have c1: "closed (ts, word_value w, list_ex quoted_fragment w) = ts @ [word_value w]"
    using frags(2) nonempty by (cases w) (auto simp: word_value_def)
  obtain st2 where 2: "scan step (sep @ render_words ws) st1 = scan step (render_words ws) st2"
    and i2: "lex_idle st2"
    and v2: "lex_view st2 = (if sep = [] then (ts, word_value w, list_ex quoted_fragment w)
               else (ts @ [word_value w], [], False))"
    using blanks_law[OF sep(1) i1 v1, of "render_words ws"] Cons.prems(4) c1 by auto
  show ?case
  proof (cases "sep = []")
    case True
    then show ?thesis using sep(2) 1 2 i2 v2 c1 p by (auto simp: lex_view_def)
  next
    case False
    with Cons.IH[OF ws i2, of "ts @ [word_value w]"] v2 Cons.prems(4) 1 2 p show ?thesis by auto
  qed
qed

lemma command_law:
  assumes "wf_words wff ws" and "blanks lead" and "length ws < 1073741822"
    and "lex_idle st" and "lex_view st = ([], [], False)"
  shows "\<exists>st'. scan step (lead @ render_words ws) st = Some st' \<and> lex_idle st'
     \<and> length (tl_tokens (lx_tokens st')) < 1073741824
     \<and> closed (lex_view st') = map (word_value \<circ> fst) ws"
proof -
  obtain st1 where st1: "scan step (lead @ render_words ws) st = scan step (render_words ws) st1"
    "lex_idle st1" "lex_view st1 = ([], [], False)"
    using more_blanks_law[OF assms(2,4,5), of "render_words ws"] by auto
  show ?thesis using words_law[OF assms(1) st1(2,3)] assms(3) st1(1) by force
qed

end

lemma render_words_nonempty:
  assumes "wf_words wff ws" and "ws \<noteq> []"
  shows "render_words ws \<noteq> []"
proof -
  obtain w sep ws' where ws: "ws = (w, sep) # ws'" using assms(2) by (cases ws) auto
  then obtain f w' where w: "w = f # w'" using assms(1) by (cases w) auto
  have "render_fragment f \<noteq> []" using assms(1) ws w by (cases f) auto
  with ws w show ?thesis by (simp add: render_word_def)
qed

section \<open>Lexers flag operators\<close>

datatype quote_mode = Outside | InSingle | InDouble

definition mode :: "'a lex_state_scheme \<Rightarrow> quote_mode" where
  "mode st = (if lx_sq st then InSingle else if lx_dq st then InDouble else Outside)"

definition one_quote :: "'a lex_state_scheme \<Rightarrow> bool" where
  "one_quote st \<longleftrightarrow> \<not> (lx_sq st \<and> lx_dq st)"

text \<open>The characters of a command with the quotes they stand in. \<open>q m c cs\<close> tells, for the character
  \<open>c\<close> read in mode \<open>m\<close> with \<open>cs\<close> after it, how many characters it escapes and the mode after it.\<close>

fun exposed ::
    "(quote_mode \<Rightarrow> char \<Rightarrow> string \<Rightarrow> nat \<times> quote_mode) \<Rightarrow> quote_mode \<Rightarrow> string
     \<Rightarrow> (quote_mode \<times> char) list" where
  "exposed q m [] = []"
| "exposed q m (c # cs) =
     (m, c) # (case q m c cs of (k, m') \<Rightarrow> exposed q m' (drop k cs))"

fun mode_after ::
    "(quote_mode \<Rightarrow> char \<Rightarrow> string \<Rightarrow> nat \<times> quote_mode) \<Rightarrow> quote_mode \<Rightarrow> string \<Rightarrow> quote_mode" where
  "mode_after q m [] = m"
| "mode_after q m (c # cs) = (case q m c cs of (k, m') \<Rightarrow> mode_after q m' (drop k cs))"

locale flagging_lexer =
  fixes step :: "char \<Rightarrow> string \<Rightarrow> 'a lex_state_scheme \<Rightarrow> (nat \<times> 'a lex_state_scheme) option"
    and quoting :: "quote_mode \<Rightarrow> char \<Rightarrow> string \<Rightarrow> nat \<times> quote_mode"
    and operator :: "quote_mode \<Rightarrow> char \<Rightarrow> bool"
    and quotes_ok :: "'a lex_state_scheme \<Rightarrow> bool"
  assumes flags_stay: "step c cs st = Some (k, st') \<Longrightarrow> quiet st' \<Longrightarrow> quiet st"
    and quiet_step:
      "step c cs st = Some (k, st') \<Longrightarrow> quiet st' \<Longrightarrow> quotes_ok st \<Longrightarrow>
         \<not> non_ascii c \<and> \<not> operator (mode st) c \<and> quoting (mode st) c cs = (k, mode st')
         \<and> quotes_ok st'"
    and buffer_step: "step c cs st = Some (k, st') \<Longrightarrow> length (lx_buf st') \<le> length (lx_buf st) + 1"
begin

text \<open>The token buffer has room for the whole command, so it never overflows.\<close>

lemma buffer_bound:
  assumes "loop_state step s0 st0 s st" and "lx_buf st0 = []"
  shows "length (lx_buf st) + length s \<le> length s0"
  using assms(1)
proof (induction rule: loop_state.induct)
  case enter
  then show ?case using assms(2) by simp
next
  case (iterate c cs st k st')
  from buffer_step[OF iterate.hyps(2)] iterate.IH show ?case by simp
qed

lemma scan_flags_stay:
  assumes "scan step s st = Some st'" and "quiet st'"
  shows "quiet st"
proof (rule ccontr)
  assume "\<not> quiet st"
  then have "\<not> quiet st'"
    using scan_invariant[OF assms(1), of "\<lambda>_ st. \<not> quiet st"] flags_stay by blast
  with assms(2) show False by simp
qed

lemma quiet_scan:
  assumes "scan step s st = Some st'" and "quiet st'" and "quotes_ok st"
  shows "(\<forall>(m, c) \<in> set (exposed quoting (mode st) s). \<not> operator m c \<and> \<not> non_ascii c)
    \<and> mode st' = mode_after quoting (mode st) s \<and> quotes_ok st'"
  using assms(1,3)
proof (induction s arbitrary: st rule: measure_induct_rule[of length])
  case (less s)
  show ?case
  proof (cases s)
    case Nil
    with less.prems show ?thesis by simp
  next
    case (Cons c cs)
    with less.prems(1) obtain k st1 where step: "step c cs st = Some (k, st1)"
      and rest: "scan step (drop k cs) st1 = Some st'"
      by (auto split: option.splits)
    have q: "\<not> non_ascii c \<and> \<not> operator (mode st) c \<and> quoting (mode st) c cs = (k, mode st1)
        \<and> quotes_ok st1"
      using quiet_step[OF step scan_flags_stay[OF rest assms(2)] less.prems(2)] .
    then show ?thesis
      using less.IH[OF _ rest] Cons by auto
  qed
qed

end

section \<open>From the final state to the parse result\<close>

lemma lex_finish_tokens:
  assumes "lex_finish (token_list_add ok) d t st = Some p"
  shows "tokens p = closed (lex_view st)" and "is_dangerous p = d" and "shell_type p = t"
    and "shell_command_is_safe_for_matching (Some p) \<longleftrightarrow> quiet st \<and> mode st = Outside \<and> \<not> d"
  using assms
  by (auto simp: lex_finish_def Let_def lex_view_def quiet_def mode_def token_list_add_tokens
      shell_command_is_safe_for_matching_def split: option.splits if_splits)

lemma lex_finish_idle:
  assumes "lex_idle st" and "length (tl_tokens (lx_tokens st)) < 1073741824"
  shows "\<exists>p. lex_finish (token_list_add alloc_ok) d t st = Some p
    \<and> p = \<lparr>tokens = closed (lex_view st), has_chain = False, has_pipe = False, has_subshell = False,
           has_redirect = False, is_dangerous = d, shell_type = t\<rparr>"
proof -
  obtain l where "token_list_add alloc_ok (lx_tokens st) (lx_buf st) = Some l"
    using token_list_add_total[of "lx_tokens st"] assms by (auto simp: lex_idle_def)
  with assms(1) show ?thesis
    by (auto simp: lex_finish_def Let_def lex_view_def lex_idle_def quiet_def token_list_add_tokens)
qed

lemma lex_init_idle:
  assumes "token_list_init ok = Some tk"
  shows "lex_idle (lex_init tk)" and "lex_view (lex_init tk) = ([], [], False)"
  using tl_inv_init[OF assms] by (auto simp: lex_init_def lex_idle_def quiet_def lex_view_def)

lemma flush_word_ok:
  assumes "lex_idle st" and "lex_view st = (ts, b, h)" and "length ts < 1073741824"
  shows "\<exists>st'. flush_word (token_list_add alloc_ok) st = Some st' \<and> lex_idle st'
    \<and> lex_view st' = (closed (ts, b, h), [], False) \<and> lex_state.more st' = lex_state.more st"
proof -
  obtain l where l: "token_list_add alloc_ok (lx_tokens st) (lx_buf st) = Some l"
    using token_list_add_total[of "lx_tokens st"] assms by (auto simp: lex_idle_def lex_view_def)
  moreover have "tl_inv l" using tl_inv_add[OF l] assms(1) by (simp add: lex_idle_def)
  ultimately show ?thesis
    using assms(1,2) by (auto simp: flush_word_def lex_idle_def quiet_def lex_view_def token_list_add_tokens)
qed

lemma flush_same_flags:
  "flush_word add st = Some st' \<Longrightarrow> quiet st' = quiet st \<and> lx_sq st' = lx_sq st \<and> lx_dq st' = lx_dq st"
  "flush_operator add st = Some st' \<Longrightarrow> quiet st' = quiet st \<and> lx_sq st' = lx_sq st \<and> lx_dq st' = lx_dq st"
  by (auto simp: flush_word_def flush_operator_def quiet_def split: option.splits if_splits)

lemma quiet_mark [simp]: "quiet (mark_non_ascii c st) \<longleftrightarrow> \<not> non_ascii c \<and> quiet st"
  by (auto simp: quiet_def)

lemma isspace_cases: "isspace c \<Longrightarrow> \<not> non_ascii c \<and> c \<noteq> CHR ''$'' \<and> c \<noteq> CHR 0x5C \<and> c \<noteq> CHR 0x27 \<and> c \<noteq> CHR 0x22"
  by (auto simp: isspace_def non_ascii_def char_code_def)

lemma flush_tokens:
  "flush_word (token_list_add ok) st = Some st' \<Longrightarrow>
     tl_inv (lx_tokens st) \<Longrightarrow> tl_inv (lx_tokens st') \<and> lx_buf st' = []
       \<and> length (tl_tokens (lx_tokens st')) \<le> Suc (length (tl_tokens (lx_tokens st)))"
  "flush_operator (token_list_add ok) st = Some st' \<Longrightarrow>
     tl_inv (lx_tokens st) \<Longrightarrow> tl_inv (lx_tokens st') \<and> lx_buf st' = []
       \<and> length (tl_tokens (lx_tokens st')) \<le> Suc (length (tl_tokens (lx_tokens st)))"
  by (auto simp: flush_word_def flush_operator_def token_list_add_tokens dest: tl_inv_add
      split: option.splits if_splits)

lemma flush_total:
  assumes "tl_inv (lx_tokens st)" and "length (tl_tokens (lx_tokens st)) < 1073741824"
  shows "\<exists>st'. flush_word (token_list_add alloc_ok) st = Some st'"
    and "\<exists>st'. flush_operator (token_list_add alloc_ok) st = Some st'"
proof -
  obtain l where "token_list_add alloc_ok (lx_tokens st) (lx_buf st) = Some l"
    using token_list_add_total assms by blast
  then show "\<exists>st'. flush_word (token_list_add alloc_ok) st = Some st'"
    and "\<exists>st'. flush_operator (token_list_add alloc_ok) st = Some st'"
    by (auto simp: flush_word_def flush_operator_def)
qed

lemma flush_buffer:
  "flush_word add st = Some st' \<Longrightarrow> length (lx_buf st') \<le> length (lx_buf st)"
  "flush_operator add st = Some st' \<Longrightarrow> length (lx_buf st') \<le> length (lx_buf st)"
  by (auto simp: flush_word_def flush_operator_def split: option.splits if_splits)

lemma lex_finish_total:
  assumes "tl_inv (lx_tokens st)" and "length (tl_tokens (lx_tokens st)) < 1073741824"
  shows "\<exists>p. lex_finish (token_list_add alloc_ok) d t st = Some p"
proof -
  obtain l where "token_list_add alloc_ok (lx_tokens st) (lx_buf st) = Some l"
    using token_list_add_total assms by blast
  then show ?thesis by (simp add: lex_finish_def Let_def)
qed

text \<open>The bookkeeping a whole run keeps: the token array is well formed and every token stored so far
  used up at least one character.\<close>

definition run_inv :: "nat \<Rightarrow> string \<Rightarrow> 'a lex_state_scheme \<Rightarrow> bool" where
  "run_inv n s st \<longleftrightarrow> tl_inv (lx_tokens st) \<and> length (tl_tokens (lx_tokens st)) + length s \<le> n"

text \<open>What one step may do to the buffer and to the token array.\<close>

definition small_step :: "'a lex_state_scheme \<Rightarrow> 'a lex_state_scheme \<Rightarrow> bool" where
  "small_step st st' \<longleftrightarrow> length (lx_buf st') \<le> length (lx_buf st) + 1 \<and>
     (tl_inv (lx_tokens st) \<longrightarrow> tl_inv (lx_tokens st') \<and>
        length (tl_tokens (lx_tokens st')) \<le> Suc (length (tl_tokens (lx_tokens st))))"

lemma small_step_read:
  "lx_tokens st' = lx_tokens st \<Longrightarrow> length (lx_buf st') \<le> length (lx_buf st) + 1 \<Longrightarrow> small_step st st'"
  by (simp add: small_step_def)

lemma small_step_flush:
  "flush_word (token_list_add ok) st1 = Some st' \<Longrightarrow> lx_tokens st1 = lx_tokens st \<Longrightarrow>
     lx_buf st1 = lx_buf st \<Longrightarrow> small_step st st'"
  "flush_operator (token_list_add ok) st1 = Some st' \<Longrightarrow> lx_tokens st1 = lx_tokens st \<Longrightarrow>
     lx_buf st1 = lx_buf st \<Longrightarrow> small_step st st'"
  using flush_tokens[of ok st1 st'] flush_buffer[of "token_list_add ok" st1 st']
  by (auto simp: small_step_def)

lemma run_inv_step:
  assumes "run_inv n (c # cs) st" and "small_step st st'"
  shows "run_inv n (drop k cs) st'"
  using assms by (auto simp: run_inv_def small_step_def)

end
