(* ===== verification/Shell_Posix.thy ===== *)
theory Shell_Posix
  imports Shell_Words
begin

text \<open>
  Model of \<^verbatim>\<open>parse_posix_shell\<close> in \<^verbatim>\<open>lib/policy/shell_parser.c\<close>, the lexer that turns a command into
  tokens and flags everything that makes comparing those tokens with an allowlist unsafe.
  \<open>posix_step\<close> is the body of its \<^verbatim>\<open>while (*p)\<close> loop, branch for branch.

  Its specification is independent of the lexer: \<open>unquoted\<close> removes the quoted parts of a command,
  and \<open>render\<close> prints a list of words, each a sequence of plain, single-quoted and double-quoted
  fragments. A command the lexer calls safe has no operator outside quotes, and every rendering of
  words is read back as exactly those words.
\<close>

section \<open>The lexer\<close>

definition is_posix_metachar :: "char \<Rightarrow> bool" where
  "is_posix_metachar c \<longleftrightarrow> c \<in> set '';|&()$`><''"

definition posix_operator_flags :: "char \<Rightarrow> char \<Rightarrow> lex_state \<Rightarrow> lex_state" where
  "posix_operator_flags c nxt st =
     (if c = CHR '';'' then st\<lparr>lx_chain := True\<rparr>
      else if c = CHR ''|'' then
        (if nxt = CHR ''|'' then st\<lparr>lx_chain := True\<rparr> else st\<lparr>lx_pipe := True\<rparr>)
      else if c = CHR ''&'' then
        (if nxt = CHR ''&'' then st\<lparr>lx_chain := True\<rparr> else st\<lparr>lx_chain := True\<rparr>)
      else if c = CHR ''$'' then
        (if nxt = CHR ''('' then st\<lparr>lx_subshell := True\<rparr> else st)
      else if c = CHR ''`'' then st\<lparr>lx_subshell := True\<rparr>
      else if c = CHR ''('' \<or> c = CHR '')'' then st\<lparr>lx_subshell := True\<rparr>
      else if c = CHR ''>'' \<or> c = CHR ''<'' then st\<lparr>lx_redirect := True\<rparr>
      else st)"

text \<open>The part of the loop body that handles a character outside quotes: a blank ends the word, an
  operator sets its flag and ends the word, any other character joins the word.\<close>

definition posix_unquoted ::
    "alloc \<Rightarrow> char \<Rightarrow> string \<Rightarrow> lex_state \<Rightarrow> (nat \<times> lex_state) option" where
  "posix_unquoted ok c cs st =
     (if isspace c then
        map_option (\<lambda>st'. (0, st')) (flush_word (token_list_add ok) st)
      else if is_posix_metachar c then
        map_option
          (\<lambda>st'. (if (c = CHR ''&'' \<or> c = CHR ''|'' \<or> c = CHR ''>'' \<or> c = CHR ''<'') \<and> peek cs = c
                  then 1 else 0, st'))
          (flush_operator (token_list_add ok) (posix_operator_flags c (peek cs) st))
      else Some (0, st\<lparr>lx_buf := lx_buf st @ [c]\<rparr>))"

definition posix_step :: "alloc \<Rightarrow> char \<Rightarrow> string \<Rightarrow> lex_state \<Rightarrow> (nat \<times> lex_state) option" where
  "posix_step ok c cs st0 =
     (let st = mark_non_ascii c st0
      in if c = CHR ''$'' \<and> peek cs = CHR 0x27 then Some (0, st\<lparr>lx_chain := True\<rparr>)
         else if c = CHR 0x5C \<and> \<not> lx_sq st then
           Some (if peek cs \<noteq> NUL then 1 else 0, st\<lparr>lx_chain := True\<rparr>)
         else if c = CHR 0x27 \<and> \<not> lx_dq st then
           Some (0, st\<lparr>lx_sq := \<not> lx_sq st, lx_had := True\<rparr>)
         else if c = CHR 0x22 \<and> \<not> lx_sq st then
           Some (0, st\<lparr>lx_dq := \<not> lx_dq st, lx_had := True\<rparr>)
         else if lx_sq st \<or> lx_dq st then Some (0, st\<lparr>lx_buf := lx_buf st @ [c]\<rparr>)
         else posix_unquoted ok c cs st)"

definition parse_posix_shell :: "alloc \<Rightarrow> string \<Rightarrow> ParsedShellCommand option" where
  "parse_posix_shell ok command =
     (case token_list_init ok of
        None \<Rightarrow> None
      | Some tk \<Rightarrow>
          if \<not> ok 2 then None
          else case scan (posix_step ok) command (lex_init tk) of
                 None \<Rightarrow> None
               | Some st \<Rightarrow> lex_finish (token_list_add ok) (shell_command_is_dangerous command)
                              SHELL_TYPE_POSIX st)"

section \<open>Specification of quoting and of plain text\<close>

text \<open>In a command without backslashes a quote opens or closes its own kind of quotation.\<close>

definition posix_quoting :: "quote_mode \<Rightarrow> char \<Rightarrow> string \<Rightarrow> nat \<times> quote_mode" where
  "posix_quoting m c cs =
     (0, if c = CHR 0x27 \<and> m \<noteq> InDouble then (if m = InSingle then Outside else InSingle)
         else if c = CHR 0x22 \<and> m \<noteq> InSingle then (if m = InDouble then Outside else InDouble)
         else m)"

definition posix_operator :: "quote_mode \<Rightarrow> char \<Rightarrow> bool" where
  "posix_operator m c \<longleftrightarrow> m = Outside \<and> c \<in> set '';|&()`><'' \<or> m \<noteq> InSingle \<and> c = CHR 0x5C"

definition posix_plain :: "char \<Rightarrow> bool" where
  "posix_plain c \<longleftrightarrow> \<not> non_ascii c \<and> \<not> isspace c \<and> \<not> is_posix_metachar c
     \<and> c \<noteq> CHR 0x27 \<and> c \<noteq> CHR 0x22 \<and> c \<noteq> CHR 0x5C"

fun posix_fragment :: "fragment \<Rightarrow> bool" where
  "posix_fragment (Plain s) = list_all posix_plain s"
| "posix_fragment (Single s) =
     (list_all (\<lambda>c. \<not> non_ascii c \<and> c \<noteq> CHR 0x27) s \<and> (s = [] \<or> last s \<noteq> CHR ''$''))"
| "posix_fragment (Double s) =
     (list_all (\<lambda>c. \<not> non_ascii c \<and> c \<noteq> CHR 0x22 \<and> c \<noteq> CHR 0x5C) s \<and> \<not> strstr s [CHR ''$'', CHR 0x27])"

section \<open>The lexer satisfies the laws\<close>

lemma posix_step_single:
  assumes "lx_sq st" and "\<not> lx_dq st" and "\<not> non_ascii c" and "c \<noteq> CHR 0x27"
    and "\<not> (c = CHR ''$'' \<and> peek cs = CHR 0x27)"
  shows "posix_step ok c cs st = Some (0, st\<lparr>lx_buf := lx_buf st @ [c]\<rparr>)"
  using assms by (cases "c = CHR ''$''") (simp_all add: posix_step_def posix_unquoted_def Let_def)

lemma posix_step_double:
  assumes "lx_dq st" and "\<not> lx_sq st" and "\<not> non_ascii c" and "c \<noteq> CHR 0x22" and "c \<noteq> CHR 0x5C"
    and "\<not> (c = CHR ''$'' \<and> peek cs = CHR 0x27)"
  shows "posix_step ok c cs st = Some (0, st\<lparr>lx_buf := lx_buf st @ [c]\<rparr>)"
  using assms by (cases "c = CHR ''$''") (simp_all add: posix_step_def posix_unquoted_def Let_def)

lemma posix_step_plain:
  assumes "\<not> lx_sq st" and "\<not> lx_dq st" and "posix_plain c"
  shows "posix_step ok c cs st = Some (0, st\<lparr>lx_buf := lx_buf st @ [c]\<rparr>)"
proof -
  have "c \<noteq> CHR ''$''" using assms(3) by (auto simp: posix_plain_def is_posix_metachar_def)
  with assms show ?thesis by (simp add: posix_step_def posix_unquoted_def Let_def posix_plain_def)
qed

lemma posix_scan_plain:
  assumes "list_all posix_plain s" and "\<not> lx_sq st" and "\<not> lx_dq st"
  shows "scan (posix_step ok) (s @ rest) st = scan (posix_step ok) rest (st\<lparr>lx_buf := lx_buf st @ s\<rparr>)"
  using assms
proof (induction s arbitrary: st)
  case (Cons c s)
  then have "posix_step ok c (s @ rest) st = Some (0, st\<lparr>lx_buf := lx_buf st @ [c]\<rparr>)"
    by (intro posix_step_plain) auto
  with Cons show ?case by simp
qed simp

lemma posix_scan_single:
  assumes "list_all (\<lambda>c. \<not> non_ascii c \<and> c \<noteq> CHR 0x27) s" and "s = [] \<or> last s \<noteq> CHR ''$''"
    and "lx_sq st" and "\<not> lx_dq st"
  shows "scan (posix_step ok) (s @ CHR 0x27 # rest) st =
    scan (posix_step ok) (CHR 0x27 # rest) (st\<lparr>lx_buf := lx_buf st @ s\<rparr>)"
  using assms
proof (induction s arbitrary: st)
  case (Cons c s)
  have "peek (s @ CHR 0x27 # rest) = CHR 0x27 \<Longrightarrow> s = []" using Cons.prems(1) by (cases s) auto
  then have "posix_step ok c (s @ CHR 0x27 # rest) st = Some (0, st\<lparr>lx_buf := lx_buf st @ [c]\<rparr>)"
    using Cons.prems by (intro posix_step_single) auto
  with Cons show ?case by (auto split: if_splits)
qed simp

lemma posix_scan_double:
  assumes "list_all (\<lambda>c. \<not> non_ascii c \<and> c \<noteq> CHR 0x22 \<and> c \<noteq> CHR 0x5C) s"
    and "\<not> strstr s [CHR ''$'', CHR 0x27]" and "\<not> lx_sq st" and "lx_dq st"
  shows "scan (posix_step ok) (s @ CHR 0x22 # rest) st =
    scan (posix_step ok) (CHR 0x22 # rest) (st\<lparr>lx_buf := lx_buf st @ s\<rparr>)"
  using assms
proof (induction s arbitrary: st)
  case (Cons c s)
  have "c = CHR ''$'' \<Longrightarrow> peek (s @ CHR 0x22 # rest) \<noteq> CHR 0x27" using Cons.prems(2) by (cases s) auto
  then have "posix_step ok c (s @ CHR 0x22 # rest) st = Some (0, st\<lparr>lx_buf := lx_buf st @ [c]\<rparr>)"
    using Cons.prems by (intro posix_step_double) auto
  with Cons show ?case by simp
qed simp

lemma posix_quote_step:
  "\<not> lx_dq st \<Longrightarrow> posix_step ok (CHR 0x27) cs st = Some (0, st\<lparr>lx_sq := \<not> lx_sq st, lx_had := True\<rparr>)"
  "\<not> lx_sq st \<Longrightarrow> posix_step ok (CHR 0x22) cs st = Some (0, st\<lparr>lx_dq := \<not> lx_dq st, lx_had := True\<rparr>)"
  by (simp_all add: posix_step_def posix_unquoted_def non_ascii_def char_code_def)

lemma posix_fragment_law:
  assumes "lex_idle st" and "posix_fragment f" and "lex_view st = (ts, b, h)"
  shows "\<exists>st'. scan (posix_step ok) (render_fragment f @ rest) st = scan (posix_step ok) rest st'
    \<and> lex_idle st' \<and> lex_view st' = (ts, b @ fragment_value f, h \<or> quoted_fragment f)"
proof (cases f)
  case (Plain s)
  then show ?thesis
    using assms posix_scan_plain[of s st ok rest] by (auto simp: lex_idle_def quiet_def lex_view_def)
next
  case (Single s)
  then show ?thesis
    using assms posix_scan_single[of s "st\<lparr>lx_sq := True, lx_had := True\<rparr>" ok rest]
    by (auto simp: lex_idle_def quiet_def lex_view_def posix_quote_step)
next
  case (Double s)
  then show ?thesis
    using assms posix_scan_double[of s "st\<lparr>lx_dq := True, lx_had := True\<rparr>" ok rest]
    by (auto simp: lex_idle_def quiet_def lex_view_def posix_quote_step)
qed

interpretation posix: word_lexer "posix_step alloc_ok" posix_fragment
proof unfold_locales
  fix st :: lex_state and c ts b h rest
  assume a: "lex_idle st" "isspace c" "lex_view st = (ts, b, h)" "length ts < 1073741824"
  then obtain st' where "flush_word (token_list_add alloc_ok) st = Some st'" "lex_idle st'"
    "lex_view st' = (closed (ts, b, h), [], False)"
    using flush_word_ok by blast
  moreover have "posix_step alloc_ok c rest st =
      map_option (\<lambda>st'. (0, st')) (flush_word (token_list_add alloc_ok) st)"
    using a isspace_cases[of c] by (simp add: posix_step_def posix_unquoted_def Let_def lex_idle_def)
  ultimately show "\<exists>st'. scan (posix_step alloc_ok) (c # rest) st = scan (posix_step alloc_ok) rest st'
      \<and> lex_idle st' \<and> lex_view st' = (closed (ts, b, h), [], False)" by auto
qed (rule posix_fragment_law)

lemma posix_operator_flags_quiet:
  assumes "is_posix_metachar c" and "quiet (posix_operator_flags c nxt st)"
  shows "c = CHR ''$'' \<and> quiet st"
proof -
  have "c \<in> {CHR '';'', CHR ''|'', CHR ''&'', CHR ''('', CHR '')'', CHR ''$'', CHR ''`'', CHR ''>'', CHR ''<''}"
    using assms(1) by (auto simp: is_posix_metachar_def)
  then show ?thesis
    using assms(2) by (auto simp: posix_operator_flags_def quiet_def split: if_splits)
qed

lemma metachar_ascii: "is_posix_metachar c \<Longrightarrow> \<not> non_ascii c"
  by (auto simp: is_posix_metachar_def non_ascii_def char_code_def)

lemma posix_operator_flags_quotes [simp]:
  "lx_sq (posix_operator_flags c nxt st) = lx_sq st"
  "lx_dq (posix_operator_flags c nxt st) = lx_dq st"
  by (simp_all add: posix_operator_flags_def)

lemma posix_quiet_step:
  assumes step: "posix_step ok c cs st = Some (k, st')" and q: "quiet st'"
  shows "quiet st \<and> (\<not> (lx_sq st \<and> lx_dq st) \<longrightarrow>
      \<not> non_ascii c \<and> \<not> posix_operator (mode st) c \<and> posix_quoting (mode st) c cs = (k, mode st')
      \<and> \<not> (lx_sq st' \<and> lx_dq st'))"
proof -
  let ?st = "mark_non_ascii c st"
  consider (ansi) "c = CHR ''$''" "peek cs = CHR 0x27"
    | (esc) "c = CHR 0x5C" "\<not> lx_sq st"
    | (sq) "c = CHR 0x27" "\<not> lx_dq st"
    | (dq) "c = CHR 0x22" "\<not> lx_sq st"
    | (inq) "lx_sq st \<or> lx_dq st" "\<not> (c = CHR ''$'' \<and> peek cs = CHR 0x27)"
        "c = CHR 0x5C \<longrightarrow> lx_sq st" "c = CHR 0x27 \<longrightarrow> lx_dq st" "c = CHR 0x22 \<longrightarrow> lx_sq st"
    | (out) "\<not> lx_sq st" "\<not> lx_dq st" "\<not> (c = CHR ''$'' \<and> peek cs = CHR 0x27)"
        "c \<noteq> CHR 0x5C" "c \<noteq> CHR 0x27" "c \<noteq> CHR 0x22"
    by blast
  then show ?thesis
  proof cases
    case ansi
    with step q show ?thesis by (auto simp: posix_step_def posix_unquoted_def quiet_def split: if_splits)
  next
    case esc
    with step q show ?thesis by (auto simp: posix_step_def posix_unquoted_def quiet_def Let_def split: if_splits)
  next
    case sq
    with step q show ?thesis
      by (auto simp: posix_quote_step quiet_def mode_def posix_quoting_def posix_operator_def
          non_ascii_def char_code_def)
  next
    case dq
    with step q show ?thesis
      by (auto simp: posix_quote_step quiet_def mode_def posix_quoting_def posix_operator_def
          non_ascii_def char_code_def)
  next
    case inq
    then have "posix_step ok c cs st = Some (0, ?st\<lparr>lx_buf := lx_buf st @ [c]\<rparr>)"
      by (auto simp: posix_step_def posix_unquoted_def Let_def)
    with step have st': "st' = ?st\<lparr>lx_buf := lx_buf st @ [c]\<rparr>" and "k = 0" by auto
    then have "quiet st \<and> \<not> non_ascii c" and "lx_sq st' = lx_sq st \<and> lx_dq st' = lx_dq st"
      using q by (simp_all add: quiet_def split: if_splits)
    with \<open>k = 0\<close> inq show ?thesis
      by (cases "lx_sq st") (simp_all add: mode_def posix_quoting_def posix_operator_def)
  next
    case out
    show ?thesis
    proof (cases "isspace c")
      case True
      then have "map_option (\<lambda>st'. (0, st')) (flush_word (token_list_add ok) st) = Some (k, st')"
        using step out isspace_cases[OF True] by (simp add: posix_step_def posix_unquoted_def)
      then have "k = 0" and "quiet st' = quiet st \<and> lx_sq st' = lx_sq st \<and> lx_dq st' = lx_dq st"
        by (auto dest: flush_same_flags)
      with q out isspace_cases[OF True] True show ?thesis
        by (auto simp: mode_def posix_quoting_def posix_operator_def isspace_def)
    next
      case False
      show ?thesis
      proof (cases "is_posix_metachar c")
        case True
        note ascii = metachar_ascii[OF True]
        obtain st1 where st1: "flush_operator (token_list_add ok) (posix_operator_flags c (peek cs) st) = Some st1"
          and k: "k = (if (c = CHR ''&'' \<or> c = CHR ''|'' \<or> c = CHR ''>'' \<or> c = CHR ''<'') \<and> peek cs = c then 1 else 0)"
          and st': "st' = st1"
          using step out False True ascii by (cases "c = CHR ''$''") (auto simp: posix_step_def posix_unquoted_def Let_def)
        note same = flush_same_flags(2)[OF st1]
        then have "c = CHR ''$''" and "quiet st"
          using posix_operator_flags_quiet[OF True, of "peek cs" st] q st' by auto
        with same k st' out ascii show ?thesis
          by (simp add: mode_def posix_quoting_def posix_operator_def)
      next
        case nometa: False
        then have "c \<noteq> CHR ''$''" by (auto simp: is_posix_metachar_def)
        then have "st' = ?st\<lparr>lx_buf := lx_buf st @ [c]\<rparr>" and "k = 0"
          using step out False nometa by (simp_all add: posix_step_def posix_unquoted_def Let_def)
        moreover have "\<not> posix_operator Outside c"
          using nometa out by (auto simp: posix_operator_def is_posix_metachar_def)
        ultimately show ?thesis
          using q out by (simp add: quiet_def mode_def posix_quoting_def)
      qed
    qed
  qed
qed

lemma posix_operator_flags_fields [simp]:
  "lx_tokens (posix_operator_flags c nxt st) = lx_tokens st"
  "lx_buf (posix_operator_flags c nxt st) = lx_buf st"
  by (simp_all add: posix_operator_flags_def)

lemma posix_unquoted_cases:
  assumes "posix_unquoted ok c cs st = Some (k, st')"
  obtains (read) "st' = st\<lparr>lx_buf := lx_buf st @ [c]\<rparr>" "k = 0"
  | (word) "flush_word (token_list_add ok) st = Some st'" "k = 0"
  | (operator) "flush_operator (token_list_add ok) (posix_operator_flags c (peek cs) st) = Some st'"
  using assms by (auto simp: posix_unquoted_def split: if_split_asm)

lemma posix_step_cases:
  assumes "posix_step ok c cs st = Some (k, st')"
  obtains (quoting) "lx_tokens st' = lx_tokens st" "length (lx_buf st') \<le> length (lx_buf st) + 1"
  | (unquoted) "posix_unquoted ok c cs (mark_non_ascii c st) = Some (k, st')"
  using assms unfolding posix_step_def Let_def
  by (elim ifE_option) auto

lemma posix_small_step:
  assumes "posix_step ok c cs st = Some (k, st')"
  shows "small_step st st'"
  using assms
proof (cases rule: posix_step_cases)
  case quoting
  then show ?thesis by (rule small_step_read)
next
  case unquoted
  then show ?thesis
    by (cases rule: posix_unquoted_cases) (auto intro: small_step_read small_step_flush)
qed

interpretation posix: flagging_lexer "posix_step ok" posix_quoting posix_operator one_quote for ok
proof unfold_locales
  fix c cs st k st'
  assume "posix_step ok c cs st = Some (k, st')"
  then show "length (lx_buf st') \<le> length (lx_buf st) + 1"
    by (auto dest!: posix_small_step simp: small_step_def)
qed (use posix_quiet_step in \<open>auto simp: one_quote_def\<close>)

lemma posix_step_run_inv:
  assumes "run_inv n (c # cs) st" and "n < 1073741824"
  shows "\<exists>k st'. posix_step alloc_ok c cs st = Some (k, st') \<and> run_inv n (drop k cs) st'"
proof -
  have tk: "tl_inv (lx_tokens st)" "length (tl_tokens (lx_tokens st)) < 1073741824"
    using assms by (auto simp: run_inv_def)
  have "posix_unquoted alloc_ok c cs (mark_non_ascii c st) \<noteq> None"
    using flush_total(1)[of "mark_non_ascii c st"]
      flush_total(2)[of "posix_operator_flags c (peek cs) (mark_non_ascii c st)"] tk
    by (auto simp: posix_unquoted_def)
  then obtain k st' where step: "posix_step alloc_ok c cs st = Some (k, st')"
    by (cases "posix_step alloc_ok c cs st") (auto simp: posix_step_def Let_def elim!: ifE_option)
  with run_inv_step[OF assms(1) posix_small_step[OF step]] show ?thesis by blast
qed

section \<open>Properties\<close>

lemma posix_safe_quiet:
  assumes "parse_posix_shell ok command = Some p" and "shell_command_is_safe_for_matching (Some p)"
  shows "(\<forall>(m, c) \<in> set (exposed posix_quoting Outside command).
            \<not> posix_operator m c \<and> \<not> non_ascii c)
    \<and> mode_after posix_quoting Outside command = Outside
    \<and> \<not> shell_command_is_dangerous command"
proof -
  obtain tk st where tk: "token_list_init ok = Some tk"
    and st: "scan (posix_step ok) command (lex_init tk) = Some st"
    and fin: "lex_finish (token_list_add ok) (shell_command_is_dangerous command) SHELL_TYPE_POSIX st = Some p"
    using assms(1) by (auto simp: parse_posix_shell_def split: option.splits if_splits)
  have "mode (lex_init tk) = Outside" and "one_quote (lex_init tk)"
    by (simp_all add: lex_init_def mode_def one_quote_def)
  then show ?thesis
    using posix.quiet_scan[OF st] lex_finish_tokens(4)[OF fin] assms(2) by auto
qed

text \<open>C10. A POSIX command the lexer calls safe for matching has no operator outside quotes
  (\<^verbatim>\<open>; | & ( ) ` > <\<close>), no backslash outside single quotes, no non-ASCII byte, balanced quotes and
  no dangerous pattern, whatever the command and whatever allocations fail.\<close>

theorem posix_safe_no_operators:
  assumes "parse_posix_shell ok command = Some p" and "shell_command_is_safe_for_matching (Some p)"
  shows "(\<forall>(m, c) \<in> set (exposed posix_quoting Outside command).
            \<not> posix_operator m c \<and> \<not> non_ascii c)
    \<and> mode_after posix_quoting Outside command = Outside
    \<and> \<not> shell_command_is_dangerous command"
  using posix_safe_quiet[OF assms] .

theorem posix_safe_no_operators_witness:
  "\<not> shell_command_is_dangerous ''ls -l''"
proof -
  have "parse_posix_shell alloc_ok ''ls -l'' = Some \<lparr>tokens = [''ls'', ''-l''], has_chain = False,
      has_pipe = False, has_subshell = False, has_redirect = False, is_dangerous = False,
      shell_type = SHELL_TYPE_POSIX\<rparr>"
    by code_simp
  from posix_safe_no_operators[OF this] show ?thesis
    by (simp add: shell_command_is_safe_for_matching_def)
qed



text \<open>The POSIX lexer returns a result for every command of less than a gigabyte when no
  allocation fails, and in every iteration of its loop, on every command and allocation pattern,
  the token buffer holds no more characters than the command has read so far, so the buffer of
  \<^verbatim>\<open>strlen(command) + 1\<close> bytes never overflows.\<close>

theorem posix_parse_total:
  "(length command < 1073741824 \<longrightarrow> parse_posix_shell alloc_ok command \<noteq> None)
   \<and> (token_list_init ok = Some tk \<longrightarrow>
      loop_state (posix_step ok) command (lex_init tk) rest st \<longrightarrow>
      length (lx_buf st) + length rest \<le> length command)"
proof (intro conjI impI)
  assume n: "length command < 1073741824"
  obtain tk where tk: "token_list_init alloc_ok = Some tk" by (simp add: token_list_init_def)
  then have "run_inv (length command) command (lex_init tk)"
    using tl_inv_init[OF tk] by (simp add: run_inv_def lex_init_def)
  then obtain st where st: "scan (posix_step alloc_ok) command (lex_init tk) = Some st"
    and "run_inv (length command) [] st"
    using scan_total[where P = "run_inv (length command)" and step = "posix_step alloc_ok"]
      posix_step_run_inv[OF _ n] by blast
  then have "\<exists>p. lex_finish (token_list_add alloc_ok) d t st = Some p" for d t
    using n by (intro lex_finish_total) (auto simp: run_inv_def)
  then show "parse_posix_shell alloc_ok command \<noteq> None"
    using tk st by (simp add: parse_posix_shell_def)
next
  assume "loop_state (posix_step ok) command (lex_init tk) rest st"
  then show "length (lx_buf st) + length rest \<le> length command"
    by (rule posix.buffer_bound) (simp add: lex_init_def)
qed

theorem posix_parse_total_witness:
  "parse_posix_shell alloc_ok ''ls'' \<noteq> None
   \<and> length (lx_buf (lex_init \<lparr>tl_tokens = [], tl_capacity = 16\<rparr>)) + length ''ls'' \<le> length ''ls''"
  using posix_parse_total[of "''ls''" alloc_ok "\<lparr>tl_tokens = [], tl_capacity = 16\<rparr>" "''ls''"
      "lex_init \<lparr>tl_tokens = [], tl_capacity = 16\<rparr>"]
  by (simp add: token_list_init_def INITIAL_TOKEN_CAPACITY_def loop_state.enter)

end
