(* ===== verification/Shell_Cmd.thy ===== *)
theory Shell_Cmd
  imports Shell_Words
begin

text \<open>
  Model of \<^verbatim>\<open>lib/policy/shell_parser_cmd.c\<close>, the lexer for cmd.exe: double quotes only, the escape
  character \<^verbatim>\<open>^\<close>, and \<^verbatim>\<open>%VAR%\<close> expansion also inside quotes.
\<close>

section \<open>The lexer\<close>

definition is_cmd_metachar :: "char \<Rightarrow> bool" where
  "is_cmd_metachar c \<longleftrightarrow> c \<in> set ''&|<>^%''"

definition cmd_operator_flags :: "char \<Rightarrow> char \<Rightarrow> lex_state \<Rightarrow> lex_state" where
  "cmd_operator_flags c nxt st =
     (if c = CHR ''&'' then st\<lparr>lx_chain := True\<rparr>
      else if c = CHR ''|'' then
        (if nxt = CHR ''|'' then st\<lparr>lx_chain := True\<rparr> else st\<lparr>lx_pipe := True\<rparr>)
      else if c = CHR ''<'' \<or> c = CHR ''>'' then st\<lparr>lx_redirect := True\<rparr>
      else if c = CHR ''^'' then st\<lparr>lx_chain := True\<rparr>
      else if c = CHR ''%'' then st\<lparr>lx_subshell := True\<rparr>
      else st)"

definition cmd_skip :: "char \<Rightarrow> string \<Rightarrow> nat" where
  "cmd_skip c cs =
     (let doubled = (if (c = CHR ''&'' \<or> c = CHR ''|'' \<or> c = CHR ''>'') \<and> peek cs = c then 1 else 0)
      in if c = CHR ''^'' \<and> peek (drop doubled cs) \<noteq> NUL then doubled + 1 else doubled)"

definition cmd_unquoted ::
    "alloc \<Rightarrow> char \<Rightarrow> string \<Rightarrow> lex_state \<Rightarrow> (nat \<times> lex_state) option" where
  "cmd_unquoted ok c cs st =
     (if isspace c then
        map_option (\<lambda>st'. (0, st')) (flush_word (cmd_token_list_add ok) st)
      else if is_cmd_metachar c then
        map_option (\<lambda>st'. (cmd_skip c cs, st'))
          (flush_operator (cmd_token_list_add ok) (cmd_operator_flags c (peek cs) st))
      else Some (0, st\<lparr>lx_buf := lx_buf st @ [c]\<rparr>))"

definition cmd_step :: "alloc \<Rightarrow> char \<Rightarrow> string \<Rightarrow> lex_state \<Rightarrow> (nat \<times> lex_state) option" where
  "cmd_step ok c cs st0 =
     (let st = mark_non_ascii c st0
      in if c = CHR 0x22 then Some (0, st\<lparr>lx_dq := \<not> lx_dq st, lx_had := True\<rparr>)
         else if lx_dq st then
           Some (0, (if c = CHR ''%'' then st\<lparr>lx_subshell := True\<rparr> else st)\<lparr>lx_buf := lx_buf st @ [c]\<rparr>)
         else cmd_unquoted ok c cs st)"

definition parse_cmd_shell :: "alloc \<Rightarrow> string \<Rightarrow> ParsedShellCommand option" where
  "parse_cmd_shell ok command =
     (let dangerous = (shell_command_is_dangerous command \<or> cmd_command_is_dangerous ok command)
      in if command = [] then
           Some \<lparr>tokens = [], has_chain = False, has_pipe = False, has_subshell = False,
             has_redirect = False, is_dangerous = dangerous, shell_type = SHELL_TYPE_CMD\<rparr>
         else case cmd_token_list_init ok of
                None \<Rightarrow> None
              | Some tk \<Rightarrow>
                  if \<not> ok 2 then None
                  else case scan (cmd_step ok) command (lex_init tk) of
                         None \<Rightarrow> None
                       | Some st \<Rightarrow> lex_finish (cmd_token_list_add ok) dangerous SHELL_TYPE_CMD st)"

section \<open>Specification of quoting and of plain text\<close>

definition cmd_quoting :: "quote_mode \<Rightarrow> char \<Rightarrow> string \<Rightarrow> nat \<times> quote_mode" where
  "cmd_quoting m c cs = (0, if c = CHR 0x22 then (if m = InDouble then Outside else InDouble) else m)"

definition cmd_operator :: "quote_mode \<Rightarrow> char \<Rightarrow> bool" where
  "cmd_operator m c \<longleftrightarrow> m = Outside \<and> c \<in> set ''&|<>^'' \<or> c = CHR ''%''"

definition cmd_plain :: "char \<Rightarrow> bool" where
  "cmd_plain c \<longleftrightarrow> \<not> non_ascii c \<and> \<not> isspace c \<and> \<not> is_cmd_metachar c \<and> c \<noteq> CHR 0x22"

fun cmd_fragment :: "fragment \<Rightarrow> bool" where
  "cmd_fragment (Plain s) = list_all cmd_plain s"
| "cmd_fragment (Single s) = False"
| "cmd_fragment (Double s) = list_all (\<lambda>c. \<not> non_ascii c \<and> c \<noteq> CHR 0x22 \<and> c \<noteq> CHR ''%'') s"

section \<open>The lexer satisfies the laws\<close>

lemmas cmd_token_defs = cmd_token_list_add_def cmd_token_list_init_def

lemma cmd_quote_step:
  "cmd_step ok (CHR 0x22) cs st = Some (0, st\<lparr>lx_dq := \<not> lx_dq st, lx_had := True\<rparr>)"
  by (simp add: cmd_step_def non_ascii_def char_code_def)

lemma cmd_scan_plain:
  assumes "list_all cmd_plain s" and "\<not> lx_dq st"
  shows "scan (cmd_step ok) (s @ rest) st = scan (cmd_step ok) rest (st\<lparr>lx_buf := lx_buf st @ s\<rparr>)"
  using assms
proof (induction s arbitrary: st)
  case (Cons c s)
  then have "cmd_step ok c (s @ rest) st = Some (0, st\<lparr>lx_buf := lx_buf st @ [c]\<rparr>)"
    by (simp add: cmd_step_def cmd_unquoted_def cmd_plain_def)
  with Cons show ?case by simp
qed simp

lemma cmd_scan_double:
  assumes "list_all (\<lambda>c. \<not> non_ascii c \<and> c \<noteq> CHR 0x22 \<and> c \<noteq> CHR ''%'') s" and "lx_dq st"
  shows "scan (cmd_step ok) (s @ rest) st = scan (cmd_step ok) rest (st\<lparr>lx_buf := lx_buf st @ s\<rparr>)"
  using assms
proof (induction s arbitrary: st)
  case (Cons c s)
  then have "cmd_step ok c (s @ rest) st = Some (0, st\<lparr>lx_buf := lx_buf st @ [c]\<rparr>)"
    by (simp add: cmd_step_def)
  with Cons show ?case by simp
qed simp

lemma cmd_fragment_law:
  assumes "lex_idle st" and "cmd_fragment f" and "lex_view st = (ts, b, h)"
  shows "\<exists>st'. scan (cmd_step ok) (render_fragment f @ rest) st = scan (cmd_step ok) rest st'
    \<and> lex_idle st' \<and> lex_view st' = (ts, b @ fragment_value f, h \<or> quoted_fragment f)"
proof (cases f)
  case (Plain s)
  then show ?thesis
    using assms cmd_scan_plain[of s st ok rest] by (auto simp: lex_idle_def quiet_def lex_view_def)
next
  case (Double s)
  then show ?thesis
    using assms cmd_scan_double[of s "st\<lparr>lx_dq := True, lx_had := True\<rparr>" ok "CHR 0x22 # rest"]
    by (auto simp: lex_idle_def quiet_def lex_view_def cmd_quote_step)
qed (use assms in simp)

interpretation cmd: word_lexer "cmd_step alloc_ok" cmd_fragment
proof unfold_locales
  fix st :: lex_state and c ts b h rest
  assume a: "lex_idle st" "isspace c" "lex_view st = (ts, b, h)" "length ts < 1073741824"
  then obtain st' where "flush_word (token_list_add alloc_ok) st = Some st'" "lex_idle st'"
    "lex_view st' = (closed (ts, b, h), [], False)"
    using flush_word_ok by blast
  moreover have "cmd_step alloc_ok c rest st =
      map_option (\<lambda>st'. (0, st')) (flush_word (token_list_add alloc_ok) st)"
    using a isspace_cases[of c]
    by (simp add: cmd_step_def cmd_unquoted_def lex_idle_def cmd_token_defs)
  ultimately show "\<exists>st'. scan (cmd_step alloc_ok) (c # rest) st = scan (cmd_step alloc_ok) rest st'
      \<and> lex_idle st' \<and> lex_view st' = (closed (ts, b, h), [], False)" by auto
qed (rule cmd_fragment_law)

lemma cmd_operator_flags_loud:
  assumes "is_cmd_metachar c"
  shows "\<not> quiet (cmd_operator_flags c nxt st)"
proof -
  have "c \<in> {CHR ''&'', CHR ''|'', CHR ''<'', CHR ''>'', CHR ''^'', CHR ''%''}"
    using assms by (auto simp: is_cmd_metachar_def)
  then show ?thesis by (auto simp: cmd_operator_flags_def quiet_def)
qed

lemma cmd_operator_flags_fields [simp]:
  "lx_tokens (cmd_operator_flags c nxt st) = lx_tokens st"
  "lx_buf (cmd_operator_flags c nxt st) = lx_buf st"
  "lx_sq (cmd_operator_flags c nxt st) = lx_sq st"
  "lx_dq (cmd_operator_flags c nxt st) = lx_dq st"
  by (simp_all add: cmd_operator_flags_def)

lemma cmd_unquoted_cases:
  assumes "cmd_unquoted ok c cs st = Some (k, st')"
  obtains (read) "st' = st\<lparr>lx_buf := lx_buf st @ [c]\<rparr>" "k = 0" "\<not> is_cmd_metachar c"
  | (word) "flush_word (token_list_add ok) st = Some st'" "k = 0" "isspace c"
  | (operator) "flush_operator (token_list_add ok) (cmd_operator_flags c (peek cs) st) = Some st'"
      "is_cmd_metachar c"
  using assms by (auto simp: cmd_unquoted_def cmd_token_defs split: if_split_asm)

lemma cmd_step_cases:
  assumes "cmd_step ok c cs st = Some (k, st')"
  obtains (quote) "c = CHR 0x22" "k = 0" "st' = st\<lparr>lx_dq := \<not> lx_dq st, lx_had := True\<rparr>"
  | (inside) "c \<noteq> CHR 0x22" "lx_dq st" "k = 0"
      "st' = (if c = CHR ''%'' then (mark_non_ascii c st)\<lparr>lx_subshell := True\<rparr> else mark_non_ascii c st)
             \<lparr>lx_buf := lx_buf st @ [c]\<rparr>"
  | (outside) "c \<noteq> CHR 0x22" "\<not> lx_dq st" "cmd_unquoted ok c cs (mark_non_ascii c st) = Some (k, st')"
  using assms by (cases "c = CHR 0x22") (auto simp: cmd_quote_step cmd_step_def Let_def split: if_split_asm)

text \<open>The step never sets the single-quote field, which this lexer does not use.\<close>

lemma cmd_quiet_step:
  assumes "cmd_step ok c cs st = Some (k, st')" and q: "quiet st'"
  shows "quiet st \<and> (\<not> lx_sq st \<longrightarrow>
      \<not> non_ascii c \<and> \<not> cmd_operator (mode st) c \<and> cmd_quoting (mode st) c cs = (k, mode st')
      \<and> \<not> lx_sq st')"
  using assms(1)
proof (cases rule: cmd_step_cases)
  case quote
  with q show ?thesis
    by (auto simp: quiet_def mode_def cmd_quoting_def cmd_operator_def non_ascii_def char_code_def)
next
  case inside
  with q show ?thesis
    by (auto simp: quiet_def mode_def cmd_quoting_def cmd_operator_def split: if_split_asm)
next
  case outside
  from outside(3) show ?thesis
  proof (cases rule: cmd_unquoted_cases)
    case read
    then have "\<not> cmd_operator Outside c" by (auto simp: cmd_operator_def is_cmd_metachar_def)
    with read outside q show ?thesis by (simp add: quiet_def mode_def cmd_quoting_def)
  next
    case word
    note same = flush_same_flags(1)[OF word(1)]
    have "\<not> cmd_operator Outside c" using word(3) by (auto simp: cmd_operator_def isspace_def)
    with same word outside q show ?thesis by (auto simp: mode_def cmd_quoting_def)
  next
    case operator
    with flush_same_flags(2)[OF operator(1)] cmd_operator_flags_loud[OF operator(2)] q show ?thesis
      by auto
  qed
qed

lemma cmd_small_step:
  assumes "cmd_step ok c cs st = Some (k, st')"
  shows "small_step st st'"
  using assms
proof (cases rule: cmd_step_cases)
  case outside
  from outside(3) show ?thesis
    by (cases rule: cmd_unquoted_cases) (auto intro: small_step_read small_step_flush)
qed (auto intro!: small_step_read)

interpretation cmd: flagging_lexer "cmd_step ok" cmd_quoting cmd_operator "\<lambda>st. \<not> lx_sq st" for ok
proof unfold_locales
  fix c cs st k st'
  assume "cmd_step ok c cs st = Some (k, st')"
  then show "length (lx_buf st') \<le> length (lx_buf st) + 1"
    by (auto dest!: cmd_small_step simp: small_step_def)
qed (use cmd_quiet_step in auto)

lemma cmd_step_run_inv:
  assumes "run_inv n (c # cs) st" and "n < 1073741824"
  shows "\<exists>k st'. cmd_step alloc_ok c cs st = Some (k, st') \<and> run_inv n (drop k cs) st'"
proof -
  have tk: "tl_inv (lx_tokens st)" "length (tl_tokens (lx_tokens st)) < 1073741824"
    using assms by (auto simp: run_inv_def)
  have "cmd_unquoted alloc_ok c cs (mark_non_ascii c st) \<noteq> None"
    using flush_total(1)[of "mark_non_ascii c st"]
      flush_total(2)[of "cmd_operator_flags c (peek cs) (mark_non_ascii c st)"] tk
    by (auto simp: cmd_unquoted_def cmd_token_defs)
  then obtain k st' where step: "cmd_step alloc_ok c cs st = Some (k, st')"
    by (cases "cmd_step alloc_ok c cs st") (auto simp: cmd_step_def Let_def elim!: ifE_option)
  with run_inv_step[OF assms(1) cmd_small_step[OF step]] show ?thesis by blast
qed

section \<open>Properties\<close>

text \<open>A cmd.exe command the lexer calls safe for matching has none of \<^verbatim>\<open>& | < > ^\<close> outside quotes,
  no \<^verbatim>\<open>%\<close> anywhere, no non-ASCII byte, balanced quotes and, when the lower-cased copy could be
  allocated, no pattern of the cmd danger list.\<close>

theorem cmd_safe_no_operators:
  assumes "parse_cmd_shell ok command = Some p" and "shell_command_is_safe_for_matching (Some p)"
  shows "(\<forall>(m, c) \<in> set (exposed cmd_quoting Outside command). \<not> cmd_operator m c \<and> \<not> non_ascii c)
    \<and> mode_after cmd_quoting Outside command = Outside
    \<and> \<not> shell_command_is_dangerous command
    \<and> (ok 0 \<longrightarrow> \<not> contains_any (map tolower command) CMD_DANGEROUS_PATTERNS)"
proof (cases "command = []")
  case True
  have "list_all (\<lambda>p. p \<noteq> []) CMD_DANGEROUS_PATTERNS" by (simp add: CMD_DANGEROUS_PATTERNS_def)
  with True show ?thesis
    by (auto simp: shell_command_is_dangerous_def contains_any_iff list_all_iff)
next
  case False
  let ?d = "shell_command_is_dangerous command \<or> cmd_command_is_dangerous ok command"
  obtain tk st where st: "scan (cmd_step ok) command (lex_init tk) = Some st"
    and fin: "lex_finish (token_list_add ok) ?d SHELL_TYPE_CMD st = Some p"
    using assms(1) False
    by (auto simp: parse_cmd_shell_def Let_def cmd_token_defs split: option.splits if_splits)
  have "mode (lex_init tk) = Outside" and "\<not> lx_sq (lex_init tk)"
    by (simp_all add: lex_init_def mode_def)
  then show ?thesis
    using cmd.quiet_scan[OF st] lex_finish_tokens(4)[OF fin] assms(2) False
    by (auto simp: cmd_command_is_dangerous_def)
qed

theorem cmd_safe_no_operators_witness:
  "\<not> contains_any (map tolower ''dir C:'') CMD_DANGEROUS_PATTERNS"
proof -
  have "parse_cmd_shell alloc_ok ''dir C:'' = Some \<lparr>tokens = [''dir'', ''C:''], has_chain = False,
      has_pipe = False, has_subshell = False, has_redirect = False, is_dangerous = False,
      shell_type = SHELL_TYPE_CMD\<rparr>"
    by code_simp
  from cmd_safe_no_operators[OF this] show ?thesis
    by (simp add: shell_command_is_safe_for_matching_def)
qed

text \<open>Every list of words made of plain and double-quoted fragments is read back by the cmd.exe
  lexer as exactly the words' values, with no flag raised.\<close>

theorem cmd_words_roundtrip:
  assumes "wf_words cmd_fragment ws" and "ws \<noteq> []" and "blanks lead" and "length ws < 1073741822"
  shows "parse_cmd_shell alloc_ok (lead @ render_words ws) =
    Some \<lparr>tokens = map (word_value \<circ> fst) ws, has_chain = False, has_pipe = False,
      has_subshell = False, has_redirect = False,
      is_dangerous = (shell_command_is_dangerous (lead @ render_words ws)
                      \<or> cmd_command_is_dangerous alloc_ok (lead @ render_words ws)),
      shell_type = SHELL_TYPE_CMD\<rparr>"
proof -
  obtain tk where tk: "token_list_init alloc_ok = Some tk" by (simp add: token_list_init_def)
  obtain st where "scan (cmd_step alloc_ok) (lead @ render_words ws) (lex_init tk) = Some st"
    and "lex_idle st" and "length (tl_tokens (lx_tokens st)) < 1073741824"
    and "closed (lex_view st) = map (word_value \<circ> fst) ws"
    using cmd.command_law[OF assms(1,3,4) lex_init_idle[OF tk]] by auto
  with lex_finish_idle[of st] tk render_words_nonempty[OF assms(1,2)] show ?thesis
    by (auto simp: parse_cmd_shell_def cmd_token_defs)
qed

theorem cmd_words_roundtrip_witness:
  "map_option tokens (parse_cmd_shell alloc_ok (''type '' @ CHR 0x22 # ''a&b.txt'' @ [CHR 0x22])) =
     Some [''type'', ''a&b.txt'']"
  using cmd_words_roundtrip[of "[([Plain ''type''], '' ''), ([Double ''a&b.txt''], [])]" "[]"]
  by (simp add: blanks_def isspace_def cmd_plain_def is_cmd_metachar_def non_ascii_def char_code_def
      render_word_def word_value_def)

end
