(* ===== verification/Shell_PS.thy ===== *)
theory Shell_PS
  imports Shell_Words
begin

text \<open>
  Model of \<^verbatim>\<open>lib/policy/shell_parser_ps.c\<close>, the lexer for PowerShell: both kinds of quotes, the
  backtick as escape character (also inside double quotes), variables and subexpressions, the call
  operator \<^verbatim>\<open>&\<close> and dot-sourcing, which only count at the start of an expression.
\<close>

section \<open>The lexer\<close>

record ps_state = lex_state +
  at_expression_start :: bool

definition ps_init :: "TokenList \<Rightarrow> ps_state" where
  "ps_init tk = \<lparr>lx_tokens = tk, lx_buf = [], lx_sq = False, lx_dq = False, lx_had = False,
     lx_chain = False, lx_pipe = False, lx_subshell = False, lx_redirect = False,
     at_expression_start = True\<rparr>"

definition is_ps_metachar :: "char \<Rightarrow> bool" where
  "is_ps_metachar c \<longleftrightarrow> c \<in> set '';|&(){}$`><''"

definition ps_operator_flags :: "char \<Rightarrow> char \<Rightarrow> ps_state \<Rightarrow> ps_state" where
  "ps_operator_flags c nxt st =
     (if c = CHR '';'' then st\<lparr>lx_chain := True\<rparr>
      else if c = CHR ''|'' then
        (if nxt = CHR ''|'' then st\<lparr>lx_chain := True\<rparr> else st\<lparr>lx_pipe := True\<rparr>)
      else if c = CHR ''&'' then st\<lparr>lx_chain := True\<rparr>
      else if c = CHR ''$'' then st\<lparr>lx_subshell := True\<rparr>
      else if c = CHR ''{'' \<or> c = CHR ''}'' then st\<lparr>lx_subshell := True\<rparr>
      else if c = CHR ''('' \<or> c = CHR '')'' then st\<lparr>lx_subshell := True\<rparr>
      else if c = CHR ''>'' \<or> c = CHR ''<'' then st\<lparr>lx_redirect := True\<rparr>
      else st)"

text \<open>A character inside double quotes.\<close>

definition ps_in_double :: "char \<Rightarrow> string \<Rightarrow> ps_state \<Rightarrow> nat \<times> ps_state" where
  "ps_in_double c cs st =
     (if c = CHR ''`'' \<and> peek cs \<noteq> NUL then (1, st\<lparr>lx_buf := lx_buf st @ [peek cs]\<rparr>)
      else (0, (if c = CHR ''$'' then st\<lparr>lx_subshell := True\<rparr> else st)\<lparr>lx_buf := lx_buf st @ [c]\<rparr>))"

text \<open>A character outside quotes.\<close>

definition ps_unquoted :: "alloc \<Rightarrow> char \<Rightarrow> string \<Rightarrow> ps_state \<Rightarrow> (nat \<times> ps_state) option" where
  "ps_unquoted ok c cs st =
     (if isspace c then
        map_option (\<lambda>st'. (0, st'\<lparr>at_expression_start := True\<rparr>)) (flush_word (ps_token_list_add ok) st)
      else if c = CHR ''`'' then
        (if peek cs \<noteq> NUL
         then Some (1, st\<lparr>lx_chain := True, lx_buf := lx_buf st @ [peek cs], at_expression_start := False\<rparr>)
         else Some (0, st\<lparr>lx_chain := True, at_expression_start := False\<rparr>))
      else if c = CHR ''&'' \<and> peek cs = CHR ''&'' then
        map_option (\<lambda>st'. (1, st'\<lparr>at_expression_start := True\<rparr>))
          (flush_operator (ps_token_list_add ok) (st\<lparr>lx_chain := True\<rparr>))
      else if c = CHR ''&'' \<and> at_expression_start st then
        map_option (\<lambda>st'. (0, st')) (flush_operator (ps_token_list_add ok) (st\<lparr>lx_subshell := True\<rparr>))
      else if c = CHR ''.'' \<and> at_expression_start st \<and> (peek cs = CHR '' '' \<or> peek cs = CHR 0x09) then
        map_option (\<lambda>st'. (0, st')) (flush_operator (ps_token_list_add ok) (st\<lparr>lx_subshell := True\<rparr>))
      else if is_ps_metachar c then
        map_option
          (\<lambda>st'. (if (c = CHR ''&'' \<or> c = CHR ''|'' \<or> c = CHR ''>'') \<and> peek cs = c then 1 else 0, st'))
          (flush_operator (ps_token_list_add ok)
             (ps_operator_flags c (peek cs) (st\<lparr>at_expression_start := False\<rparr>)))
      else Some (0, st\<lparr>lx_buf := lx_buf st @ [c], at_expression_start := False\<rparr>))"

definition ps_step :: "alloc \<Rightarrow> char \<Rightarrow> string \<Rightarrow> ps_state \<Rightarrow> (nat \<times> ps_state) option" where
  "ps_step ok c cs st0 =
     (let st = mark_non_ascii c st0
      in if c = CHR 0x27 \<and> \<not> lx_dq st then
           Some (0, st\<lparr>lx_sq := \<not> lx_sq st, lx_had := True, at_expression_start := False\<rparr>)
         else if c = CHR 0x22 \<and> \<not> lx_sq st then
           Some (0, st\<lparr>lx_dq := \<not> lx_dq st, lx_had := True, at_expression_start := False\<rparr>)
         else if lx_sq st then Some (0, st\<lparr>lx_buf := lx_buf st @ [c]\<rparr>)
         else if lx_dq st then Some (ps_in_double c cs st)
         else ps_unquoted ok c cs st)"

definition parse_powershell :: "alloc \<Rightarrow> string \<Rightarrow> ParsedShellCommand option" where
  "parse_powershell ok command =
     (let dangerous = (shell_command_is_dangerous command \<or> powershell_command_is_dangerous ok command)
      in if command = [] then
           Some \<lparr>tokens = [], has_chain = False, has_pipe = False, has_subshell = False,
             has_redirect = False, is_dangerous = dangerous, shell_type = SHELL_TYPE_POWERSHELL\<rparr>
         else case ps_token_list_init ok of
                None \<Rightarrow> None
              | Some tk \<Rightarrow>
                  if \<not> ok 2 then None
                  else case scan (ps_step ok) command (ps_init tk) of
                         None \<Rightarrow> None
                       | Some st \<Rightarrow> lex_finish (ps_token_list_add ok) dangerous SHELL_TYPE_POWERSHELL st)"

section \<open>Specification of quoting and of plain text\<close>

definition ps_quoting :: "quote_mode \<Rightarrow> char \<Rightarrow> string \<Rightarrow> nat \<times> quote_mode" where
  "ps_quoting m c cs =
     (if c = CHR 0x27 \<and> m \<noteq> InDouble then (0, if m = InSingle then Outside else InSingle)
      else if c = CHR 0x22 \<and> m \<noteq> InSingle then (0, if m = InDouble then Outside else InDouble)
      else if m = InDouble \<and> c = CHR ''`'' \<and> peek cs \<noteq> NUL then (1, m)
      else (0, m))"

definition ps_operator :: "quote_mode \<Rightarrow> char \<Rightarrow> bool" where
  "ps_operator m c \<longleftrightarrow> m = Outside \<and> is_ps_metachar c \<or> m = InDouble \<and> c = CHR ''$''"

definition ps_plain :: "char \<Rightarrow> bool" where
  "ps_plain c \<longleftrightarrow> \<not> non_ascii c \<and> \<not> isspace c \<and> \<not> is_ps_metachar c \<and> c \<noteq> CHR 0x27 \<and> c \<noteq> CHR 0x22"

fun ps_fragment :: "fragment \<Rightarrow> bool" where
  "ps_fragment (Plain s) = (list_all ps_plain s \<and> (s = [] \<or> last s \<noteq> CHR ''.''))"
| "ps_fragment (Single s) = list_all (\<lambda>c. \<not> non_ascii c \<and> c \<noteq> CHR 0x27) s"
| "ps_fragment (Double s) = list_all (\<lambda>c. \<not> non_ascii c \<and> c \<noteq> CHR 0x22 \<and> c \<noteq> CHR ''$'' \<and> c \<noteq> CHR ''`'') s"

section \<open>The lexer satisfies the laws\<close>

lemmas ps_token_defs = ps_token_list_add_def ps_token_list_init_def

lemma ps_quote_step:
  "\<not> lx_dq st \<Longrightarrow> ps_step ok (CHR 0x27) cs st =
     Some (0, st\<lparr>lx_sq := \<not> lx_sq st, lx_had := True, at_expression_start := False\<rparr>)"
  "\<not> lx_sq st \<Longrightarrow> ps_step ok (CHR 0x22) cs st =
     Some (0, st\<lparr>lx_dq := \<not> lx_dq st, lx_had := True, at_expression_start := False\<rparr>)"
  by (simp_all add: ps_step_def)

lemma ps_step_plain:
  assumes "\<not> lx_sq st" and "\<not> lx_dq st" and "ps_plain c"
    and "c = CHR ''.'' \<longrightarrow> peek cs \<noteq> CHR '' '' \<and> peek cs \<noteq> CHR 0x09"
  shows "ps_step ok c cs st = Some (0, st\<lparr>lx_buf := lx_buf st @ [c], at_expression_start := False\<rparr>)"
proof -
  have "c \<noteq> CHR ''`''" and "c \<noteq> CHR ''&''" using assms(3) by (auto simp: ps_plain_def is_ps_metachar_def)
  with assms show ?thesis
    by (cases "c = CHR ''.''") (simp_all add: ps_step_def ps_unquoted_def ps_plain_def)
qed

lemma ps_scan_plain:
  assumes "list_all ps_plain s" and "s = [] \<or> last s \<noteq> CHR ''.''" and "\<not> lx_sq st" and "\<not> lx_dq st"
  shows "\<exists>b. scan (ps_step ok) (s @ rest) st =
    scan (ps_step ok) rest (st\<lparr>lx_buf := lx_buf st @ s, at_expression_start := b\<rparr>)"
  using assms
proof (induction s arbitrary: st)
  case (Nil st)
  show ?case by (rule exI[of _ "at_expression_start st"]) simp
next
  case (Cons c s)
  have "peek (s @ rest) \<noteq> CHR '' '' \<and> peek (s @ rest) \<noteq> CHR 0x09" if "c = CHR ''.''"
    using Cons.prems(1,2) that by (cases s) (auto simp: ps_plain_def isspace_def)
  then have "ps_step ok c (s @ rest) st = Some (0, st\<lparr>lx_buf := lx_buf st @ [c], at_expression_start := False\<rparr>)"
    using Cons.prems by (intro ps_step_plain) auto
  with Cons.IH[of "st\<lparr>lx_buf := lx_buf st @ [c], at_expression_start := False\<rparr>"] Cons.prems show ?case
    by (auto split: if_splits)
qed

lemma ps_scan_single:
  assumes "list_all (\<lambda>c. \<not> non_ascii c \<and> c \<noteq> CHR 0x27) s" and "lx_sq st" and "\<not> lx_dq st"
  shows "scan (ps_step ok) (s @ rest) st = scan (ps_step ok) rest (st\<lparr>lx_buf := lx_buf st @ s\<rparr>)"
  using assms
proof (induction s arbitrary: st)
  case (Cons c s)
  then have "ps_step ok c (s @ rest) st = Some (0, st\<lparr>lx_buf := lx_buf st @ [c]\<rparr>)"
    by (simp add: ps_step_def)
  with Cons show ?case by simp
qed simp

lemma ps_scan_double:
  assumes "list_all (\<lambda>c. \<not> non_ascii c \<and> c \<noteq> CHR 0x22 \<and> c \<noteq> CHR ''$'' \<and> c \<noteq> CHR ''`'') s"
    and "\<not> lx_sq st" and "lx_dq st"
  shows "scan (ps_step ok) (s @ rest) st = scan (ps_step ok) rest (st\<lparr>lx_buf := lx_buf st @ s\<rparr>)"
  using assms
proof (induction s arbitrary: st)
  case (Cons c s)
  then have "ps_step ok c (s @ rest) st = Some (0, st\<lparr>lx_buf := lx_buf st @ [c]\<rparr>)"
    by (simp add: ps_step_def ps_in_double_def)
  with Cons show ?case by simp
qed simp

lemma ps_fragment_law:
  assumes "lex_idle st" and "ps_fragment f" and "lex_view st = (ts, b, h)"
  shows "\<exists>st'. scan (ps_step ok) (render_fragment f @ rest) st = scan (ps_step ok) rest st'
    \<and> lex_idle st' \<and> lex_view st' = (ts, b @ fragment_value f, h \<or> quoted_fragment f)"
proof (cases f)
  case (Plain s)
  then obtain e where "scan (ps_step ok) (s @ rest) st =
      scan (ps_step ok) rest (st\<lparr>lx_buf := lx_buf st @ s, at_expression_start := e\<rparr>)"
    using assms ps_scan_plain[of s st ok rest] by (auto simp: lex_idle_def)
  moreover have "lex_idle (st\<lparr>lx_buf := lx_buf st @ s, at_expression_start := e\<rparr>)"
    and "lex_view (st\<lparr>lx_buf := lx_buf st @ s, at_expression_start := e\<rparr>) = (ts, b @ s, h)"
    using assms by (auto simp: lex_idle_def quiet_def lex_view_def)
  ultimately show ?thesis using Plain by auto
next
  case (Single s)
  then show ?thesis
    using assms ps_scan_single[of s "st\<lparr>lx_sq := True, lx_had := True, at_expression_start := False\<rparr>" ok "CHR 0x27 # rest"]
    by (auto simp: lex_idle_def quiet_def lex_view_def ps_quote_step)
next
  case (Double s)
  then show ?thesis
    using assms ps_scan_double[of s "st\<lparr>lx_dq := True, lx_had := True, at_expression_start := False\<rparr>" ok "CHR 0x22 # rest"]
    by (auto simp: lex_idle_def quiet_def lex_view_def ps_quote_step)
qed

interpretation ps: word_lexer "ps_step alloc_ok" ps_fragment
proof unfold_locales
  fix st :: ps_state and c ts b h rest
  assume a: "lex_idle st" "isspace c" "lex_view st = (ts, b, h)" "length ts < 1073741824"
  then obtain st' where "flush_word (token_list_add alloc_ok) st = Some st'" "lex_idle st'"
    "lex_view st' = (closed (ts, b, h), [], False)"
    using flush_word_ok by blast
  moreover have "ps_step alloc_ok c rest st =
      map_option (\<lambda>st'. (0, st'\<lparr>at_expression_start := True\<rparr>)) (flush_word (token_list_add alloc_ok) st)"
    using a isspace_cases[of c] by (simp add: ps_step_def ps_unquoted_def lex_idle_def ps_token_defs)
  moreover have "lex_idle (st'\<lparr>at_expression_start := True\<rparr>) = lex_idle st'"
    and "lex_view (st'\<lparr>at_expression_start := True\<rparr>) = lex_view st'" for st' :: ps_state
    by (simp_all add: lex_idle_def quiet_def lex_view_def)
  ultimately show "\<exists>st'. scan (ps_step alloc_ok) (c # rest) st = scan (ps_step alloc_ok) rest st'
      \<and> lex_idle st' \<and> lex_view st' = (closed (ts, b, h), [], False)" by auto
qed (rule ps_fragment_law)

lemma ps_operator_flags_loud:
  assumes "is_ps_metachar c" and "c \<noteq> CHR ''`''"
  shows "\<not> quiet (ps_operator_flags c nxt st)"
proof -
  have "c \<in> {CHR '';'', CHR ''|'', CHR ''&'', CHR ''('', CHR '')'', CHR ''{'', CHR ''}'', CHR ''$'', CHR ''>'', CHR ''<''}"
    using assms by (auto simp: is_ps_metachar_def)
  then show ?thesis by (auto simp: ps_operator_flags_def quiet_def)
qed

lemma ps_operator_flags_fields [simp]:
  "lx_tokens (ps_operator_flags c nxt st) = lx_tokens st"
  "lx_buf (ps_operator_flags c nxt st) = lx_buf st"
  by (simp_all add: ps_operator_flags_def)

lemma quiet_start [simp]: "quiet (st\<lparr>at_expression_start := e\<rparr>) = quiet st"
  by (simp add: quiet_def)

text \<open>Outside quotes a step ends a word, reads a plain character or raises a flag.\<close>

lemma ps_unquoted_cases:
  assumes "ps_unquoted ok c cs st = Some (k, st')"
  obtains (read) "st' = st\<lparr>lx_buf := lx_buf st @ [c], at_expression_start := False\<rparr>" "k = 0"
      "\<not> is_ps_metachar c"
  | (word) st1 where "flush_word (token_list_add ok) st = Some st1" "k = 0" "isspace c"
      "st' = st1\<lparr>at_expression_start := True\<rparr>"
  | (escape) "\<not> quiet st'" "lx_tokens st' = lx_tokens st" "length (lx_buf st') \<le> length (lx_buf st) + 1"
  | (operator) st0 st1 e where "flush_operator (token_list_add ok) st0 = Some st1" "\<not> quiet st0"
      "lx_tokens st0 = lx_tokens st" "lx_buf st0 = lx_buf st"
      "st' = st1 \<or> st' = st1\<lparr>at_expression_start := e\<rparr>"
proof -
  have loud: "\<not> quiet (st\<lparr>lx_chain := True\<rparr>)" "\<not> quiet (st\<lparr>lx_subshell := True\<rparr>)"
    by (simp_all add: quiet_def)
  show thesis
    using assms unfolding ps_unquoted_def ps_token_defs
  proof (elim ifE_option)
    assume "isspace c"
      "map_option (\<lambda>st'. (0, st'\<lparr>at_expression_start := True\<rparr>)) (flush_word (token_list_add ok) st) = Some (k, st')"
    then show thesis using word by auto
  next
    assume "Some (1, st\<lparr>lx_chain := True, lx_buf := lx_buf st @ [peek cs], at_expression_start := False\<rparr>) = Some (k, st')"
    then show thesis using escape by (auto simp: quiet_def)
  next
    assume "Some (0, st\<lparr>lx_chain := True, at_expression_start := False\<rparr>) = Some (k, st')"
    then show thesis using escape by (auto simp: quiet_def)
  next
    assume "map_option (\<lambda>st'. (1, st'\<lparr>at_expression_start := True\<rparr>))
        (flush_operator (token_list_add ok) (st\<lparr>lx_chain := True\<rparr>)) = Some (k, st')"
    then show thesis using operator loud(1) by fastforce
  next
    assume "map_option (\<lambda>st'. (0, st')) (flush_operator (token_list_add ok) (st\<lparr>lx_subshell := True\<rparr>)) = Some (k, st')"
    then show thesis using operator loud(2) by fastforce
  next
    assume "map_option (\<lambda>st'. (0, st')) (flush_operator (token_list_add ok) (st\<lparr>lx_subshell := True\<rparr>)) = Some (k, st')"
    then show thesis using operator loud(2) by fastforce
  next
    assume a: "is_ps_metachar c" "c \<noteq> CHR ''`''"
    let ?st = "ps_operator_flags c (peek cs) (st\<lparr>at_expression_start := False\<rparr>)"
    assume "map_option (\<lambda>st'. (if (c = CHR ''&'' \<or> c = CHR ''|'' \<or> c = CHR ''>'') \<and> peek cs = c then 1 else 0, st'))
        (flush_operator (token_list_add ok) ?st) = Some (k, st')"
    then have "flush_operator (token_list_add ok) ?st = Some st'"
      by (cases "flush_operator (token_list_add ok) ?st") simp_all
    from operator[OF this ps_operator_flags_loud[OF a]] show thesis by simp
  next
    assume "\<not> is_ps_metachar c"
      "Some (0, st\<lparr>lx_buf := lx_buf st @ [c], at_expression_start := False\<rparr>) = Some (k, st')"
    then show thesis using read by auto
  qed
qed

lemma ps_step_cases:
  assumes "ps_step ok c cs st = Some (k, st')"
  obtains (single) "c = CHR 0x27" "\<not> lx_dq st" "k = 0"
      "st' = st\<lparr>lx_sq := \<not> lx_sq st, lx_had := True, at_expression_start := False\<rparr>"
  | (double) "c = CHR 0x22" "\<not> lx_sq st" "k = 0"
      "st' = st\<lparr>lx_dq := \<not> lx_dq st, lx_had := True, at_expression_start := False\<rparr>"
  | (in_single) "lx_sq st" "c \<noteq> CHR 0x27 \<or> lx_dq st" "k = 0" "st' = (mark_non_ascii c st)\<lparr>lx_buf := lx_buf st @ [c]\<rparr>"
  | (in_double) "lx_dq st" "\<not> lx_sq st" "c \<noteq> CHR 0x22" "(k, st') = ps_in_double c cs (mark_non_ascii c st)"
  | (outside) "\<not> lx_sq st" "\<not> lx_dq st" "c \<noteq> CHR 0x27" "c \<noteq> CHR 0x22"
      "ps_unquoted ok c cs (mark_non_ascii c st) = Some (k, st')"
  using assms unfolding ps_step_def Let_def
proof (elim ifE_option)
  assume "c = CHR 0x27 \<and> \<not> lx_dq (mark_non_ascii c st)"
    and "Some (0, (mark_non_ascii c st)\<lparr>lx_sq := \<not> lx_sq (mark_non_ascii c st), lx_had := True,
      at_expression_start := False\<rparr>) = Some (k, st')"
  then show thesis by (intro single) simp_all
next
  assume "c = CHR 0x22 \<and> \<not> lx_sq (mark_non_ascii c st)"
    and "Some (0, (mark_non_ascii c st)\<lparr>lx_dq := \<not> lx_dq (mark_non_ascii c st), lx_had := True,
      at_expression_start := False\<rparr>) = Some (k, st')"
  then show thesis by (intro double) simp_all
next
  assume "\<not> (c = CHR 0x27 \<and> \<not> lx_dq (mark_non_ascii c st))" and "lx_sq (mark_non_ascii c st)"
    and "Some (0, (mark_non_ascii c st)\<lparr>lx_buf := lx_buf (mark_non_ascii c st) @ [c]\<rparr>) = Some (k, st')"
  then show thesis by (intro in_single) simp_all
next
  assume "\<not> (c = CHR 0x22 \<and> \<not> lx_sq (mark_non_ascii c st))" and "\<not> lx_sq (mark_non_ascii c st)"
    and "lx_dq (mark_non_ascii c st)" and "Some (ps_in_double c cs (mark_non_ascii c st)) = Some (k, st')"
  then show thesis by (intro in_double) simp_all
next
  assume "\<not> (c = CHR 0x27 \<and> \<not> lx_dq (mark_non_ascii c st))"
    and "\<not> (c = CHR 0x22 \<and> \<not> lx_sq (mark_non_ascii c st))" and "\<not> lx_sq (mark_non_ascii c st)"
    and "\<not> lx_dq (mark_non_ascii c st)" and "ps_unquoted ok c cs (mark_non_ascii c st) = Some (k, st')"
  then show thesis by (intro outside) simp_all
qed

lemma ps_quiet_step:
  assumes "ps_step ok c cs st = Some (k, st')" and q: "quiet st'"
  shows "quiet st \<and> (one_quote st \<longrightarrow>
      \<not> non_ascii c \<and> \<not> ps_operator (mode st) c \<and> ps_quoting (mode st) c cs = (k, mode st')
      \<and> one_quote st')"
  using assms(1)
proof (cases rule: ps_step_cases)
  case single
  with q show ?thesis by (simp add: quiet_def mode_def one_quote_def ps_quoting_def ps_operator_def is_ps_metachar_def)
next
  case double
  with q show ?thesis by (simp add: quiet_def mode_def one_quote_def ps_quoting_def ps_operator_def is_ps_metachar_def)
next
  case in_single
  then have "quiet st" "\<not> non_ascii c" using q by (simp_all add: quiet_def)
  with in_single show ?thesis by (auto simp: mode_def one_quote_def ps_quoting_def ps_operator_def)
next
  case in_double
  from in_double(4) q have "quiet st \<and> \<not> non_ascii c \<and> c \<noteq> CHR ''$''"
    by (auto simp: ps_in_double_def quiet_def split: if_split_asm)
  moreover have "lx_sq st' = lx_sq st" "lx_dq st' = lx_dq st"
    and "k = (if c = CHR ''`'' \<and> peek cs \<noteq> NUL then 1 else 0)"
    using in_double(4) by (auto simp: ps_in_double_def split: if_split_asm)
  ultimately show ?thesis
    using in_double(1-3) by (auto simp: mode_def one_quote_def ps_quoting_def ps_operator_def)
next
  case outside
  have m: "mode st = Outside" using outside(1,2) by (simp add: mode_def)
  from outside(5) show ?thesis
  proof (cases rule: ps_unquoted_cases)
    case read
    with q outside(1-4) m show ?thesis
      by (auto simp: quiet_def mode_def one_quote_def ps_quoting_def ps_operator_def)
  next
    case (word st1)
    have "\<not> is_ps_metachar c" using word(3) by (auto simp: isspace_def is_ps_metachar_def)
    with flush_same_flags(1)[OF word(1)] word q outside(1-4) m show ?thesis
      by (auto simp: mode_def one_quote_def ps_quoting_def ps_operator_def)
  next
    case (operator st0 st1 e)
    with flush_same_flags(2)[OF operator(1)] q show ?thesis by auto
  qed (use q in simp)
qed

lemma ps_small_step:
  assumes "ps_step ok c cs st = Some (k, st')"
  shows "small_step st st'"
  using assms
proof (cases rule: ps_step_cases)
  case in_double
  then show ?thesis by (auto simp: ps_in_double_def intro!: small_step_read split: if_split_asm)
next
  case outside
  from outside(5) show ?thesis
  proof (cases rule: ps_unquoted_cases)
    case (word st1)
    then show ?thesis using small_step_flush(1)[OF word(1), of st] by (auto simp: small_step_def)
  next
    case (operator st0 st1 e)
    then show ?thesis using small_step_flush(2)[OF operator(1), of st] by (auto simp: small_step_def)
  qed (auto intro: small_step_read)
qed (auto intro!: small_step_read)

interpretation ps: flagging_lexer "ps_step ok" ps_quoting ps_operator one_quote for ok
proof unfold_locales
  fix c cs st k st'
  assume "ps_step ok c cs st = Some (k, st')"
  then show "length (lx_buf st') \<le> length (lx_buf st) + 1"
    by (auto dest!: ps_small_step simp: small_step_def)
qed (use ps_quiet_step in auto)

section \<open>Properties\<close>

text \<open>A PowerShell command the lexer calls safe for matching has none of
  \<^verbatim>\<open>; | & ( ) { } $ ` > <\<close> outside quotes, no unescaped \<^verbatim>\<open>$\<close> inside double quotes, balanced quotes
  and, when the lower-cased copy could be allocated, no pattern of the PowerShell danger list.\<close>

theorem ps_safe_no_operators:
  assumes "parse_powershell ok command = Some p" and "shell_command_is_safe_for_matching (Some p)"
  shows "(\<forall>(m, c) \<in> set (exposed ps_quoting Outside command). \<not> ps_operator m c \<and> \<not> non_ascii c)
    \<and> mode_after ps_quoting Outside command = Outside
    \<and> \<not> shell_command_is_dangerous command
    \<and> (ok 0 \<longrightarrow> \<not> contains_any (map tolower command) PS_DANGEROUS)"
proof (cases "command = []")
  case True
  have "list_all (\<lambda>p. p \<noteq> []) PS_DANGEROUS" by (simp add: PS_DANGEROUS_def)
  with True show ?thesis
    by (auto simp: shell_command_is_dangerous_def contains_any_iff list_all_iff)
next
  case False
  let ?d = "shell_command_is_dangerous command \<or> powershell_command_is_dangerous ok command"
  obtain tk st where st: "scan (ps_step ok) command (ps_init tk) = Some st"
    and fin: "lex_finish (token_list_add ok) ?d SHELL_TYPE_POWERSHELL st = Some p"
    using assms(1) False
    by (auto simp: parse_powershell_def Let_def ps_token_defs split: option.splits if_splits)
  have "mode (ps_init tk) = Outside" and "one_quote (ps_init tk)"
    by (simp_all add: ps_init_def mode_def one_quote_def)
  then show ?thesis
    using ps.quiet_scan[OF st] lex_finish_tokens(4)[OF fin] assms(2) False
    by (auto simp: powershell_command_is_dangerous_def)
qed

theorem ps_safe_no_operators_witness:
  "\<not> contains_any (map tolower ''gci .'') PS_DANGEROUS"
proof -
  have "parse_powershell alloc_ok ''gci .'' = Some \<lparr>tokens = [''gci'', ''.''], has_chain = False,
      has_pipe = False, has_subshell = False, has_redirect = False, is_dangerous = False,
      shell_type = SHELL_TYPE_POWERSHELL\<rparr>"
    by code_simp
  from ps_safe_no_operators[OF this] show ?thesis
    by (simp add: shell_command_is_safe_for_matching_def)
qed

text \<open>Every list of words made of plain, single-quoted and double-quoted fragments is read back
  by the PowerShell lexer as exactly the words' values, with no flag raised.\<close>

theorem ps_words_roundtrip:
  assumes "wf_words ps_fragment ws" and "ws \<noteq> []" and "blanks lead" and "length ws < 1073741822"
  shows "parse_powershell alloc_ok (lead @ render_words ws) =
    Some \<lparr>tokens = map (word_value \<circ> fst) ws, has_chain = False, has_pipe = False,
      has_subshell = False, has_redirect = False,
      is_dangerous = (shell_command_is_dangerous (lead @ render_words ws)
                      \<or> powershell_command_is_dangerous alloc_ok (lead @ render_words ws)),
      shell_type = SHELL_TYPE_POWERSHELL\<rparr>"
proof -
  obtain tk where tk: "token_list_init alloc_ok = Some tk" by (simp add: token_list_init_def)
  have "lex_idle (ps_init tk)" and "lex_view (ps_init tk) = ([], [], False)"
    using tl_inv_init[OF tk] by (auto simp: ps_init_def lex_idle_def quiet_def lex_view_def)
  then obtain st where "scan (ps_step alloc_ok) (lead @ render_words ws) (ps_init tk) = Some st"
    and "lex_idle st" and "length (tl_tokens (lx_tokens st)) < 1073741824"
    and "closed (lex_view st) = map (word_value \<circ> fst) ws"
    using ps.command_law[OF assms(1,3,4)] by auto
  with lex_finish_idle[of st] tk render_words_nonempty[OF assms(1,2)] show ?thesis
    by (auto simp: parse_powershell_def ps_token_defs)
qed

theorem ps_words_roundtrip_witness:
  "map_option tokens (parse_powershell alloc_ok ''Get-Content ./a.txt'') = Some [''Get-Content'', ''./a.txt'']"
  using ps_words_roundtrip[of "[([Plain ''Get-Content''], '' ''), ([Plain ''./a.txt''], [])]" "[]"]
  by (simp add: blanks_def isspace_def ps_plain_def is_ps_metachar_def non_ascii_def char_code_def
      render_word_def word_value_def)

end
