(* ===== verification/Shell_Parser.thy ===== *)
theory Shell_Parser
  imports Shell_Posix Shell_Cmd Shell_PS
begin

text \<open>
  The entry points of \<^verbatim>\<open>lib/policy/shell_parser.c\<close> over the three lexers: choosing the shell, parsing,
  comparing a parsed command with an allowlist prefix, the table of commands that mean the same on
  different platforms, and copying a result. The model follows the non-Windows build, which is the
  one the Makefile produces; the value of the environment variable \<^verbatim>\<open>SHELL\<close> is an argument.
  Site 0 of \<open>parse_shell_command_for_type\<close> is the result structure, the lexer's sites follow it.
\<close>

section \<open>Shell types\<close>

definition detect_shell_type :: "string option \<Rightarrow> ShellType" where
  "detect_shell_type SHELL =
     (case SHELL of
        Some shell \<Rightarrow>
          if strstr shell ''pwsh'' \<or> strstr shell ''powershell'' then SHELL_TYPE_POWERSHELL
          else SHELL_TYPE_POSIX
      | None \<Rightarrow> SHELL_TYPE_POSIX)"

fun shell_type_name :: "ShellType \<Rightarrow> string" where
  "shell_type_name SHELL_TYPE_POSIX = ''posix''"
| "shell_type_name SHELL_TYPE_CMD = ''cmd''"
| "shell_type_name SHELL_TYPE_POWERSHELL = ''powershell''"
| "shell_type_name SHELL_TYPE_UNKNOWN = ''unknown''"

definition parse_shell_type :: "string \<Rightarrow> ShellType option" where
  "parse_shell_type name =
     (if strcasecmp_eq name ''posix'' \<or> strcasecmp_eq name ''bash'' \<or> strcasecmp_eq name ''sh''
         \<or> strcasecmp_eq name ''zsh'' \<or> strcasecmp_eq name ''dash'' then Some SHELL_TYPE_POSIX
      else if strcasecmp_eq name ''cmd'' \<or> strcasecmp_eq name ''cmd.exe'' then Some SHELL_TYPE_CMD
      else if strcasecmp_eq name ''powershell'' \<or> strcasecmp_eq name ''pwsh'' \<or> strcasecmp_eq name ''ps''
      then Some SHELL_TYPE_POWERSHELL
      else None)"

section \<open>Parsing\<close>

definition MAX_COMMAND_LENGTH :: int where
  "MAX_COMMAND_LENGTH = 65536"

definition parse_shell_command_for_type ::
    "alloc \<Rightarrow> string option \<Rightarrow> ShellType \<Rightarrow> ParsedShellCommand option" where
  "parse_shell_command_for_type ok command type =
     (case command of
        None \<Rightarrow> None
      | Some cmd \<Rightarrow>
          if int (length cmd) > MAX_COMMAND_LENGTH then None
          else if \<not> ok 0 then None
          else (case type of
                  SHELL_TYPE_CMD \<Rightarrow> parse_cmd_shell (\<lambda>n. ok (Suc n)) cmd
                | SHELL_TYPE_POWERSHELL \<Rightarrow> parse_powershell (\<lambda>n. ok (Suc n)) cmd
                | SHELL_TYPE_POSIX \<Rightarrow> parse_posix_shell (\<lambda>n. ok (Suc n)) cmd
                | SHELL_TYPE_UNKNOWN \<Rightarrow> parse_posix_shell (\<lambda>n. ok (Suc n)) cmd))"

definition parse_shell_command ::
    "alloc \<Rightarrow> string option \<Rightarrow> string option \<Rightarrow> ParsedShellCommand option" where
  "parse_shell_command ok SHELL command =
     parse_shell_command_for_type ok command (detect_shell_type SHELL)"

section \<open>Matching\<close>

text \<open>The comparison loop; the first equation is the loop running to \<^verbatim>\<open>prefix_len\<close>.\<close>

fun match_tokens :: "string list \<Rightarrow> string list \<Rightarrow> bool" where
  "match_tokens ts [] = True"
| "match_tokens [] (p # ps) = False"
| "match_tokens (t # ts) (p # ps) = (if t \<noteq> p then False else match_tokens ts ps)"

definition shell_command_matches_prefix ::
    "ParsedShellCommand option \<Rightarrow> string list option \<Rightarrow> bool" where
  "shell_command_matches_prefix parsed command_prefix =
     (case (parsed, command_prefix) of
        (Some p, Some pre) \<Rightarrow>
          if pre = [] then False
          else if has_chain p \<or> has_pipe p \<or> has_subshell p \<or> has_redirect p then False
          else if is_dangerous p then False
          else if length (tokens p) < length pre then False
          else match_tokens (tokens p) pre
      | _ \<Rightarrow> False)"

definition equivalents :: "string list list" where
  "equivalents =
     [[''ls'', ''dir'', ''Get-ChildItem'', ''gci''],
      [''cat'', ''type'', ''Get-Content'', ''gc''],
      [''pwd'', ''Get-Location'', ''gl''],
      [''rm'', ''del'', ''erase'', ''Remove-Item'', ''ri''],
      [''cp'', ''copy'', ''Copy-Item'', ''cpi''],
      [''mv'', ''move'', ''ren'', ''Move-Item'', ''mi''],
      [''echo'', ''Write-Output'', ''Write-Host''],
      [''clear'', ''cls'', ''Clear-Host'']]"

fun in_same_row :: "string \<Rightarrow> string \<Rightarrow> string list list \<Rightarrow> bool" where
  "in_same_row a b [] = False"
| "in_same_row a b (row # rows) =
     (if list_ex (strcasecmp_eq a) row \<and> list_ex (strcasecmp_eq b) row then True
      else in_same_row a b rows)"

definition commands_are_equivalent :: "string option \<Rightarrow> string option \<Rightarrow> bool" where
  "commands_are_equivalent allowed_cmd actual_cmd =
     (case (allowed_cmd, actual_cmd) of
        (Some a, Some b) \<Rightarrow> if a = b then True else in_same_row a b equivalents
      | _ \<Rightarrow> False)"

definition shell_command_get_base :: "ParsedShellCommand option \<Rightarrow> string option" where
  "shell_command_get_base parsed =
     (case parsed of
        None \<Rightarrow> None
      | Some p \<Rightarrow> (case tokens p of [] \<Rightarrow> None | t # _ \<Rightarrow> Some t))"

text \<open>Sites of the copy: 0 the structure, 1 the array, \<open>2 + i\<close> token number \<open>i\<close>.\<close>

definition copy_parsed_shell_command ::
    "alloc \<Rightarrow> ParsedShellCommand option \<Rightarrow> ParsedShellCommand option" where
  "copy_parsed_shell_command ok cmd =
     (case cmd of
        None \<Rightarrow> None
      | Some p \<Rightarrow>
          if \<not> ok 0 then None
          else if length (tokens p) > 0 then
            (if \<not> ok 1 then None
             else if \<not> list_all (\<lambda>i. ok (2 + i)) [0..<length (tokens p)] then None
             else Some p)
          else Some p)"

section \<open>Lemmas\<close>

lemma match_tokens_prefix: "match_tokens ts ps \<longleftrightarrow> prefix ps ts"
  by (induction ts ps rule: match_tokens.induct) auto

lemma matches_prefix_iff:
  "shell_command_matches_prefix (Some p) (Some pre) \<longleftrightarrow>
     shell_command_is_safe_for_matching (Some p) \<and> pre \<noteq> [] \<and> prefix pre (tokens p)"
  by (auto simp: shell_command_matches_prefix_def shell_command_is_safe_for_matching_def
      match_tokens_prefix dest: prefix_length_le)

lemma in_same_row_iff:
  "in_same_row a b rows \<longleftrightarrow>
     (\<exists>row \<in> set rows. map tolower a \<in> map tolower ` set row \<and> map tolower b \<in> map tolower ` set row)"
  by (induction rows) (auto simp: list_ex_iff strcasecmp_eq_def image_iff)

lemma parse_dispatch:
  assumes "parse_shell_command_for_type ok (Some command) type = Some p"
  shows "int (length command) \<le> MAX_COMMAND_LENGTH" and
    "(type = SHELL_TYPE_CMD \<and> parse_cmd_shell (\<lambda>n. ok (Suc n)) command = Some p)
     \<or> (type = SHELL_TYPE_POWERSHELL \<and> parse_powershell (\<lambda>n. ok (Suc n)) command = Some p)
     \<or> (type \<in> {SHELL_TYPE_POSIX, SHELL_TYPE_UNKNOWN} \<and> parse_posix_shell (\<lambda>n. ok (Suc n)) command = Some p)"
  using assms by (auto simp: parse_shell_command_for_type_def split: if_splits ShellType.splits)

section \<open>Properties\<close>

text \<open>A parsed command matches an allowlist prefix exactly when it is safe for matching and its
  tokens start with the prefix, which is not empty.\<close>

theorem matches_prefix_correct:
  "shell_command_matches_prefix parsed pre \<longleftrightarrow>
     shell_command_is_safe_for_matching parsed \<and>
     (\<exists>p ts. parsed = Some p \<and> pre = Some ts \<and> ts \<noteq> [] \<and> prefix ts (tokens p))"
  by (cases parsed; cases pre)
    (auto simp: matches_prefix_iff shell_command_is_safe_for_matching_def,
     auto simp: shell_command_matches_prefix_def)

text \<open>The table of cross-platform command names defines an equivalence relation on command names:
  it is reflexive, symmetric and transitive, so an allowlist entry stands for one whole class.\<close>

theorem commands_equivalence:
  "equivp (\<lambda>a b. commands_are_equivalent (Some a) (Some b))"
proof (rule equivpI)
  show "reflp (\<lambda>a b. commands_are_equivalent (Some a) (Some b))"
    by (simp add: reflp_def commands_are_equivalent_def)
  show "symp (\<lambda>a b. commands_are_equivalent (Some a) (Some b))"
    by (auto simp: symp_def commands_are_equivalent_def in_same_row_iff split: if_splits)
  have disjoint: "r = r'"
    if "r \<in> set equivalents" "r' \<in> set equivalents" "map tolower ` set r \<inter> map tolower ` set r' \<noteq> {}" for r r'
  proof -
    have "list_all (\<lambda>r. list_all (\<lambda>r'. r = r' \<or> list_all (\<lambda>x. list_all (\<lambda>y. map tolower x \<noteq> map tolower y) r') r)
        equivalents) equivalents"
      by code_simp
    with that show ?thesis by (fastforce simp: list_all_iff)
  qed
  show "transp (\<lambda>a b. commands_are_equivalent (Some a) (Some b))"
  proof (rule transpI)
    fix a b c
    assume ab: "commands_are_equivalent (Some a) (Some b)" and bc: "commands_are_equivalent (Some b) (Some c)"
    show "commands_are_equivalent (Some a) (Some c)"
    proof (cases "a = b \<or> b = c")
      case True
      with ab bc show ?thesis by auto
    next
      case False
      with ab bc obtain r r' where "r \<in> set equivalents" "r' \<in> set equivalents"
        "map tolower a \<in> map tolower ` set r" "map tolower b \<in> map tolower ` set r"
        "map tolower b \<in> map tolower ` set r'" "map tolower c \<in> map tolower ` set r'"
        by (auto simp: commands_are_equivalent_def in_same_row_iff split: if_splits)
      moreover from this have "r = r'" by (intro disjoint) auto
      ultimately show ?thesis by (auto simp: commands_are_equivalent_def in_same_row_iff)
    qed
  qed
qed

text \<open>Shell type names round-trip: the name of a known shell type parses back to it, in any case
  of its letters, and no name parses to the unknown type.\<close>

theorem shell_type_roundtrip:
  "(type \<noteq> SHELL_TYPE_UNKNOWN \<longrightarrow> map tolower name = shell_type_name type \<longrightarrow>
      parse_shell_type name = Some type)
   \<and> parse_shell_type name \<noteq> Some SHELL_TYPE_UNKNOWN"
proof -
  have "map tolower ''posix'' = ''posix''" "map tolower ''cmd'' = ''cmd''" "map tolower ''powershell'' = ''powershell''"
    "map tolower ''bash'' = ''bash''" "map tolower ''sh'' = ''sh''" "map tolower ''zsh'' = ''zsh''"
    "map tolower ''dash'' = ''dash''" "map tolower ''cmd.exe'' = ''cmd.exe''" "map tolower ''pwsh'' = ''pwsh''"
    "map tolower ''ps'' = ''ps''"
    by code_simp+
  then show ?thesis
    by (cases type) (simp_all add: parse_shell_type_def strcasecmp_eq_def del: list.map)
qed

theorem shell_type_roundtrip_witness: "parse_shell_type ''PowerShell'' = Some SHELL_TYPE_POWERSHELL"
proof -
  have "map tolower ''PowerShell'' = shell_type_name SHELL_TYPE_POWERSHELL" by code_simp
  then show ?thesis using shell_type_roundtrip[of SHELL_TYPE_POWERSHELL "''PowerShell''"] by simp
qed

text \<open>The POSIX lexer treats a line break as an ordinary blank and does not look for a command
  substitution inside double quotes: a second command on a new line, and a quoted
  \<^verbatim>\<open>$(...)\<close>, leave the command safe for matching, so both match an allowlist prefix that only names
  the first command.\<close>

theorem posix_newline_and_quoted_substitution_match:
  "shell_command_matches_prefix
      (parse_shell_command_for_type alloc_ok (Some (''ls'' @ [CHR 0x0A] @ ''reboot'')) SHELL_TYPE_POSIX)
      (Some [''ls''])
   \<and> shell_command_matches_prefix
      (parse_shell_command_for_type alloc_ok
         (Some (''echo '' @ [CHR 0x22] @ ''$(reboot)'' @ [CHR 0x22])) SHELL_TYPE_POSIX)
      (Some [''echo''])"
  by code_simp

end
