(* ===== verification/Darray.thy ===== *)
theory Darray
  imports Prelude
begin

text \<open>
  Model of the growing arrays of \<^verbatim>\<open>lib/util/darray.h\<close> (\<^verbatim>\<open>DARRAY_DEFINE\<close>), on which the allowlist
  and most stores of the program are built.

  The buffer behind \<^verbatim>\<open>data\<close> is a list of cells, as many as were allocated; a cell that was never
  written is \<open>None\<close>. \<^verbatim>\<open>size_t\<close> values are natural numbers, and every product that the code
  computes in \<^verbatim>\<open>size_t\<close> is reduced modulo \<open>2 ^ 64\<close>, so a request whose size wraps gets a buffer
  smaller than the capacity that is recorded. An access outside the buffer, or a read of a cell
  that was never written, is undefined in C and makes the whole operation \<open>None\<close>. \<open>sz\<close> is
  \<^verbatim>\<open>sizeof(TYPE)\<close>. \<^verbatim>\<open>malloc\<close> and \<^verbatim>\<open>realloc\<close> refuse requests above \<^verbatim>\<open>PTRDIFF_MAX\<close> bytes and may
  refuse any other. The \<^verbatim>\<open>arr == NULL\<close> guards have no counterpart: an array is a value here, and
  the callers pass the address of a structure's field.

  The abstraction \<open>da_list\<close> reads an array as the list of its first \<open>count\<close> elements. The locale
  \<open>list_array\<close> is the contract the clients use.
\<close>

section \<open>Buffers\<close>

definition SIZE_MOD :: nat where
  "SIZE_MOD = 18446744073709551616"

definition PTRDIFF_MAX :: nat where
  "PTRDIFF_MAX = 9223372036854775807"

definition size_mul :: "nat \<Rightarrow> nat \<Rightarrow> nat" where
  "size_mul a b = a * b mod SIZE_MOD"

definition read_cell :: "'a option list \<Rightarrow> nat \<Rightarrow> 'a option" where
  "read_cell d i = (if i < length d then d ! i else None)"

definition write_cell :: "'a option list \<Rightarrow> nat \<Rightarrow> 'a \<Rightarrow> 'a option list option" where
  "write_cell d i v = (if i < length d then Some (d[i := Some v]) else None)"

definition memmove_cells :: "'a option list \<Rightarrow> nat \<Rightarrow> nat \<Rightarrow> nat \<Rightarrow> 'a option list option" where
  "memmove_cells d dst src n =
     (if dst + n \<le> length d \<and> src + n \<le> length d
      then Some (take dst d @ take n (drop src d) @ drop (dst + n) d) else None)"

text \<open>\<open>heap_cells ok site d sz bytes\<close> is \<^verbatim>\<open>realloc\<close> of the buffer \<open>d\<close> (or \<^verbatim>\<open>malloc\<close>, for \<open>d = []\<close>)
  to \<open>bytes\<close> bytes: the first cells are kept.\<close>

definition heap_cells ::
    "alloc \<Rightarrow> nat \<Rightarrow> 'a option list \<Rightarrow> nat \<Rightarrow> nat \<Rightarrow> 'a option list option" where
  "heap_cells ok site d sz bytes =
     (if ok site \<and> bytes \<le> PTRDIFF_MAX
      then Some (take (bytes div sz) d @ replicate (bytes div sz - length d) None) else None)"

section \<open>Arrays\<close>

record 'a darray =
  da_data :: "'a option list"
  da_count :: nat
  da_capacity :: nat

definition DARRAY_DEFAULT_CAPACITY :: nat where
  "DARRAY_DEFAULT_CAPACITY = 8"

definition DARRAY_GROWTH_FACTOR :: nat where
  "DARRAY_GROWTH_FACTOR = 2"

text \<open>A fresh structure after a failed allocation has no buffer; the code leaves its other fields
  as they were.\<close>

definition darray_init_capacity ::
    "nat \<Rightarrow> alloc \<Rightarrow> nat \<Rightarrow> ('a, 'b) darray_scheme \<Rightarrow> int \<times> ('a, 'b) darray_scheme" where
  "darray_init_capacity sz ok initial_capacity arr =
     (let cap = (if initial_capacity = 0 then DARRAY_DEFAULT_CAPACITY else initial_capacity)
      in case heap_cells ok 0 [] sz (size_mul sz cap) of
           None \<Rightarrow> (-1, arr\<lparr>da_data := []\<rparr>)
         | Some d \<Rightarrow> (0, arr\<lparr>da_data := d, da_count := 0, da_capacity := cap\<rparr>))"

definition darray_init ::
    "nat \<Rightarrow> alloc \<Rightarrow> ('a, 'b) darray_scheme \<Rightarrow> int \<times> ('a, 'b) darray_scheme" where
  "darray_init sz ok arr = darray_init_capacity sz ok DARRAY_DEFAULT_CAPACITY arr"

definition darray_destroy :: "('a, 'b) darray_scheme \<Rightarrow> ('a, 'b) darray_scheme" where
  "darray_destroy arr = arr\<lparr>da_data := [], da_count := 0, da_capacity := 0\<rparr>"

definition darray_grow ::
    "nat \<Rightarrow> alloc \<Rightarrow> ('a, 'b) darray_scheme \<Rightarrow> int \<times> ('a, 'b) darray_scheme" where
  "darray_grow sz ok arr =
     (let new_capacity = size_mul (da_capacity arr) DARRAY_GROWTH_FACTOR;
          new_capacity = (if new_capacity = 0 then DARRAY_DEFAULT_CAPACITY else new_capacity)
      in case heap_cells ok 0 (da_data arr) sz (size_mul sz new_capacity) of
           None \<Rightarrow> (-1, arr)
         | Some d \<Rightarrow> (0, arr\<lparr>da_data := d, da_capacity := new_capacity\<rparr>))"

text \<open>The growth that \<^verbatim>\<open>push\<close> and \<^verbatim>\<open>insert\<close> begin with.\<close>

definition darray_room ::
    "nat \<Rightarrow> alloc \<Rightarrow> ('a, 'b) darray_scheme \<Rightarrow> int \<times> ('a, 'b) darray_scheme" where
  "darray_room sz ok arr =
     (if da_count arr \<ge> da_capacity arr then darray_grow sz ok arr else (0, arr))"

definition darray_push ::
    "nat \<Rightarrow> alloc \<Rightarrow> ('a, 'b) darray_scheme \<Rightarrow> 'a \<Rightarrow> (int \<times> ('a, 'b) darray_scheme) option" where
  "darray_push sz ok arr item =
     (case darray_room sz ok arr of (rc, arr) \<Rightarrow>
        if rc \<noteq> 0 then Some (-1, arr)
        else case write_cell (da_data arr) (da_count arr) item of
               None \<Rightarrow> None
             | Some d \<Rightarrow> Some (0, arr\<lparr>da_data := d, da_count := da_count arr + 1\<rparr>))"

definition darray_pop ::
    "('a, 'b) darray_scheme \<Rightarrow> (int \<times> 'a option \<times> ('a, 'b) darray_scheme) option" where
  "darray_pop arr =
     (if da_count arr = 0 then Some (-1, None, arr)
      else let n = da_count arr - 1
           in case read_cell (da_data arr) n of
                None \<Rightarrow> None
              | Some x \<Rightarrow> Some (0, Some x, arr\<lparr>da_count := n\<rparr>))"

text \<open>The outer option is undefined behaviour, the inner one the \<^verbatim>\<open>NULL\<close> result.\<close>

definition darray_get :: "('a, 'b) darray_scheme \<Rightarrow> nat \<Rightarrow> 'a option option" where
  "darray_get arr index =
     (if index \<ge> da_count arr then Some None
      else map_option Some (read_cell (da_data arr) index))"

definition darray_set ::
    "('a, 'b) darray_scheme \<Rightarrow> nat \<Rightarrow> 'a \<Rightarrow> (int \<times> ('a, 'b) darray_scheme) option" where
  "darray_set arr index item =
     (if index \<ge> da_count arr then Some (-1, arr)
      else map_option (\<lambda>d. (0, arr\<lparr>da_data := d\<rparr>)) (write_cell (da_data arr) index item))"

definition darray_insert ::
    "nat \<Rightarrow> alloc \<Rightarrow> ('a, 'b) darray_scheme \<Rightarrow> nat \<Rightarrow> 'a \<Rightarrow> (int \<times> ('a, 'b) darray_scheme) option" where
  "darray_insert sz ok arr index item =
     (if index > da_count arr then Some (-1, arr)
      else case darray_room sz ok arr of (rc, arr) \<Rightarrow>
        if rc \<noteq> 0 then Some (-1, arr)
        else
          case (if index < da_count arr
                then memmove_cells (da_data arr) (index + 1) index (da_count arr - index)
                else Some (da_data arr)) of
            None \<Rightarrow> None
          | Some d \<Rightarrow>
              map_option (\<lambda>d. (0, arr\<lparr>da_data := d, da_count := da_count arr + 1\<rparr>))
                (write_cell d index item))"

definition darray_remove ::
    "('a, 'b) darray_scheme \<Rightarrow> nat \<Rightarrow> (int \<times> ('a, 'b) darray_scheme) option" where
  "darray_remove arr index =
     (if index \<ge> da_count arr then Some (-1, arr)
      else map_option (\<lambda>d. (0, arr\<lparr>da_data := d, da_count := da_count arr - 1\<rparr>))
        (if index < da_count arr - 1
         then memmove_cells (da_data arr) index (index + 1) (da_count arr - index - 1)
         else Some (da_data arr)))"

definition darray_clear :: "('a, 'b) darray_scheme \<Rightarrow> ('a, 'b) darray_scheme" where
  "darray_clear arr = arr\<lparr>da_count := 0\<rparr>"

definition darray_shrink ::
    "nat \<Rightarrow> alloc \<Rightarrow> ('a, 'b) darray_scheme \<Rightarrow> int \<times> ('a, 'b) darray_scheme" where
  "darray_shrink sz ok arr =
     (if da_count arr = 0 then (-1, arr)
      else if da_count arr = da_capacity arr then (0, arr)
      else case heap_cells ok 0 (da_data arr) sz (size_mul sz (da_count arr)) of
             None \<Rightarrow> (-1, arr)
           | Some d \<Rightarrow> (0, arr\<lparr>da_data := d, da_capacity := da_count arr\<rparr>))"

definition darray_reserve ::
    "nat \<Rightarrow> alloc \<Rightarrow> ('a, 'b) darray_scheme \<Rightarrow> nat \<Rightarrow> int \<times> ('a, 'b) darray_scheme" where
  "darray_reserve sz ok arr min_capacity =
     (if min_capacity \<le> da_capacity arr then (0, arr)
      else case heap_cells ok 0 (da_data arr) sz (size_mul sz min_capacity) of
             None \<Rightarrow> (-1, arr)
           | Some d \<Rightarrow> (0, arr\<lparr>da_data := d, da_capacity := min_capacity\<rparr>))"

section \<open>Invariant and abstraction\<close>

text \<open>The buffer has exactly the recorded capacity, whose size in bytes is one \<^verbatim>\<open>malloc\<close> can have
  granted, and the elements counted have all been written.\<close>

definition elem_size :: "nat \<Rightarrow> bool" where
  "elem_size sz \<longleftrightarrow> 0 < sz \<and> sz * DARRAY_DEFAULT_CAPACITY \<le> PTRDIFF_MAX"

definition da_inv :: "nat \<Rightarrow> ('a, 'b) darray_scheme \<Rightarrow> bool" where
  "da_inv sz arr \<longleftrightarrow>
     elem_size sz \<and> length (da_data arr) = da_capacity arr \<and>
     sz * da_capacity arr \<le> PTRDIFF_MAX \<and>
     da_count arr \<le> da_capacity arr \<and> (\<forall>i < da_count arr. da_data arr ! i \<noteq> None)"

definition da_list :: "('a, 'b) darray_scheme \<Rightarrow> 'a list" where
  "da_list arr = map the (take (da_count arr) (da_data arr))"


text \<open>The same by the list of elements: the form the proofs work with.\<close>

definition da_rep :: "nat \<Rightarrow> ('a, 'b) darray_scheme \<Rightarrow> 'a list \<Rightarrow> bool" where
  "da_rep sz arr xs \<longleftrightarrow>
     elem_size sz \<and> sz * da_capacity arr \<le> PTRDIFF_MAX \<and> da_count arr = length xs \<and>
     length xs \<le> da_capacity arr \<and>
     (\<exists>r. da_data arr = map Some xs @ r \<and> length xs + length r = da_capacity arr)"

lemma da_rep_iff: "da_rep sz arr xs \<longleftrightarrow> da_inv sz arr \<and> da_list arr = xs"
proof
  assume "da_rep sz arr xs"
  then show "da_inv sz arr \<and> da_list arr = xs"
    by (auto simp: da_rep_def da_inv_def da_list_def nth_append o_def)
next
  assume a: "da_inv sz arr \<and> da_list arr = xs"
  then have n: "da_count arr \<le> length (da_data arr)"
    by (simp add: da_inv_def)
  have "take (da_count arr) (da_data arr) = map Some xs"
  proof (rule nth_equalityI)
    show "length (take (da_count arr) (da_data arr)) = length (map Some xs)"
      using a n by (auto simp: da_list_def)
  next
    fix i
    assume "i < length (take (da_count arr) (da_data arr))"
    then have "i < da_count arr" and "i < length (da_data arr)" by auto
    then show "take (da_count arr) (da_data arr) ! i = map Some xs ! i"
      using a by (auto simp: da_list_def da_inv_def)
  qed
  then have "da_data arr = map Some xs @ drop (da_count arr) (da_data arr)"
    by (metis append_take_drop_id)
  moreover have "da_count arr = length xs"
    using a n by (auto simp: da_list_def)
  ultimately show "da_rep sz arr xs"
    using a unfolding da_rep_def da_inv_def by (metis length_append length_map)
qed

lemma da_inv_rep: "da_inv sz arr \<longleftrightarrow> da_rep sz arr (da_list arr)"
  by (simp add: da_rep_iff)

lemma da_repD:
  assumes "da_rep sz arr xs"
  shows "da_inv sz arr" and "da_list arr = xs" and "da_count arr = length xs"
  using assms by (simp_all add: da_rep_iff) (use assms in \<open>simp add: da_rep_def\<close>)

lemma da_inv_list_length: "da_inv sz arr \<Longrightarrow> length (da_list arr) = da_count arr"
  by (simp add: da_inv_def da_list_def)

section \<open>Requests that do not wrap\<close>

lemma size_mul_exact: "a * b < SIZE_MOD \<Longrightarrow> size_mul a b = a * b"
  by (simp add: size_mul_def)

lemma heap_cells_exact:
  assumes "0 < sz" and "sz * n < SIZE_MOD" and "heap_cells ok s d sz (size_mul sz n) = Some d'"
  shows "d' = take n d @ replicate (n - length d) None" and "sz * n \<le> PTRDIFF_MAX" and "ok s"
  using assms by (auto simp: heap_cells_def size_mul_exact split: if_splits)

lemma heap_cells_refused:
  assumes "sz * n < SIZE_MOD"
  shows "heap_cells ok s d sz (size_mul sz n) = None \<longleftrightarrow> \<not> ok s \<or> PTRDIFF_MAX < sz * n"
  using assms by (auto simp: heap_cells_def size_mul_exact)

text \<open>Moving the elements to a buffer with room for at least as many keeps the contents.\<close>

lemma da_rep_resize:
  assumes "da_rep sz arr xs" and "length xs \<le> n" and "sz * n < SIZE_MOD"
    and "heap_cells ok s (da_data arr) sz (size_mul sz n) = Some d"
  shows "da_rep sz (arr\<lparr>da_data := d, da_capacity := n\<rparr>) xs" and "length d = n"
proof -
  have sz: "0 < sz"
    using assms(1) by (simp add: da_rep_def elem_size_def)
  obtain r where r: "da_data arr = map Some xs @ r"
    using assms(1) by (auto simp: da_rep_def)
  have d: "d = map Some xs @ take (n - length xs) r @ replicate (n - (length xs + length r)) None"
    using heap_cells_exact(1)[OF sz assms(3,4)] r assms(2) by simp
  then show "da_rep sz (arr\<lparr>da_data := d, da_capacity := n\<rparr>) xs" and "length d = n"
    using assms heap_cells_exact(2)[OF sz assms(3,4)] by (auto simp: da_rep_def)
qed

definition grown_capacity :: "('a, 'b) darray_scheme \<Rightarrow> nat" where
  "grown_capacity arr = (if da_capacity arr = 0 then DARRAY_DEFAULT_CAPACITY else da_capacity arr * 2)"

text \<open>When the allocation of a growing array succeeds, as far as its size is concerned.\<close>

definition can_grow :: "nat \<Rightarrow> alloc \<Rightarrow> ('a, 'b) darray_scheme \<Rightarrow> bool" where
  "can_grow sz ok arr \<longleftrightarrow>
     da_count arr < da_capacity arr \<or> ok 0 \<and> sz * grown_capacity arr \<le> PTRDIFF_MAX"

lemma grown_capacity_exact:
  assumes "da_inv sz arr"
  shows "size_mul (da_capacity arr) DARRAY_GROWTH_FACTOR = da_capacity arr * 2"
    and "sz * grown_capacity arr < SIZE_MOD"
proof -
  have sz: "0 < sz" and b: "sz * da_capacity arr \<le> PTRDIFF_MAX"
    using assms by (auto simp: da_inv_def elem_size_def)
  from sz have "da_capacity arr \<le> sz * da_capacity arr" by simp
  with b have "da_capacity arr \<le> PTRDIFF_MAX" by (rule le_trans[rotated])
  then have "da_capacity arr * 2 < SIZE_MOD"
    by (simp add: PTRDIFF_MAX_def SIZE_MOD_def)
  then show "size_mul (da_capacity arr) DARRAY_GROWTH_FACTOR = da_capacity arr * 2"
    by (simp add: size_mul_def DARRAY_GROWTH_FACTOR_def)
  show "sz * grown_capacity arr < SIZE_MOD"
    using assms b by (auto simp: grown_capacity_def da_inv_def elem_size_def
        PTRDIFF_MAX_def SIZE_MOD_def)
qed

lemma da_room:
  assumes "da_rep sz arr xs"
  shows "if can_grow sz ok arr
         then \<exists>arr'. darray_room sz ok arr = (0, arr') \<and> da_rep sz arr' xs \<and>
                length xs < da_capacity arr'
         else darray_room sz ok arr = (-1, arr)"
proof (cases "da_count arr < da_capacity arr")
  case True
  then show ?thesis
    using assms by (auto simp: darray_room_def can_grow_def da_rep_def)
next
  case False
  have inv: "da_inv sz arr"
    using assms by (rule da_repD)
  let ?n = "grown_capacity arr"
  have n: "length xs < ?n"
    using assms False by (auto simp: da_rep_def grown_capacity_def DARRAY_DEFAULT_CAPACITY_def)
  have g: "darray_room sz ok arr =
             (case heap_cells ok 0 (da_data arr) sz (size_mul sz ?n) of
                None \<Rightarrow> (-1, arr)
              | Some d \<Rightarrow> (0, arr\<lparr>da_data := d, da_capacity := ?n\<rparr>))"
    using False grown_capacity_exact(1)[OF inv]
    by (simp add: darray_room_def darray_grow_def grown_capacity_def Let_def split: option.split)
  show ?thesis
  proof (cases "heap_cells ok 0 (da_data arr) sz (size_mul sz ?n)")
    case None
    then have "\<not> can_grow sz ok arr"
      using False heap_cells_refused[OF grown_capacity_exact(2)[OF inv], of ok 0 "da_data arr"]
      by (auto simp: can_grow_def)
    with None g show ?thesis by simp
  next
    case (Some d)
    then have "can_grow sz ok arr"
      using heap_cells_refused[OF grown_capacity_exact(2)[OF inv], of ok 0 "da_data arr"]
      by (auto simp: can_grow_def)
    moreover have "da_rep sz (arr\<lparr>da_data := d, da_capacity := ?n\<rparr>) xs"
      using da_rep_resize(1)[OF assms _ grown_capacity_exact(2)[OF inv] Some] n by simp
    ultimately show ?thesis
      using Some g n by simp
  qed
qed


section \<open>What each operation does to the list\<close>

lemma darray_init_capacity_list:
  assumes "elem_size sz" and "sz * n < SIZE_MOD" and "darray_init_capacity sz ok n arr = (0, arr')"
  shows "da_rep sz arr' []"
proof -
  define cap where "cap = (if n = 0 then DARRAY_DEFAULT_CAPACITY else n)"
  have c: "sz * cap < SIZE_MOD"
    using assms(1,2) by (auto simp: cap_def elem_size_def PTRDIFF_MAX_def SIZE_MOD_def)
  obtain d where d: "heap_cells ok 0 ([] :: 'a option list) sz (size_mul sz cap) = Some d"
    and a: "arr' = arr\<lparr>da_data := d, da_count := 0, da_capacity := cap\<rparr>"
    using assms(3) by (auto simp: darray_init_capacity_def cap_def[symmetric] Let_def
        split: option.splits)
  show ?thesis
    using heap_cells_exact[OF _ c d] assms(1) a by (simp add: da_rep_def elem_size_def)
qed

lemma darray_init_list:
  assumes "elem_size sz" and "darray_init sz ok arr = (0, arr')"
  shows "da_rep sz arr' []"
  using assms by (intro darray_init_capacity_list[where ok = ok and arr = arr])
    (auto simp: darray_init_def elem_size_def PTRDIFF_MAX_def SIZE_MOD_def DARRAY_DEFAULT_CAPACITY_def)

lemma darray_push_list:
  assumes "da_rep sz arr xs"
  shows "if can_grow sz ok arr
         then \<exists>arr'. darray_push sz ok arr x = Some (0, arr') \<and> da_rep sz arr' (xs @ [x])
         else darray_push sz ok arr x = Some (-1, arr)"
proof (cases "can_grow sz ok arr")
  case True
  then obtain arr' where r: "darray_room sz ok arr = (0, arr')" "da_rep sz arr' xs"
      "length xs < da_capacity arr'"
    using da_room[OF assms, of ok] by auto
  obtain y r' where "da_data arr' = map Some xs @ y # r'"
    using r(2,3) by (cases "drop (length xs) (da_data arr')") (auto simp: da_rep_def)
  then have "darray_push sz ok arr x =
      Some (0, arr'\<lparr>da_data := map Some xs @ Some x # r', da_count := length xs + 1\<rparr>)"
    "da_rep sz (arr'\<lparr>da_data := map Some xs @ Some x # r', da_count := length xs + 1\<rparr>) (xs @ [x])"
    using r by (auto simp: darray_push_def write_cell_def da_rep_def list_update_append)
  with True show ?thesis by auto
next
  case False
  then show ?thesis
    using da_room[OF assms, of ok] by (simp add: darray_push_def)
qed

lemma da_rep_read:
  assumes "da_rep sz arr xs" and "i < length xs"
  shows "read_cell (da_data arr) i = Some (xs ! i)"
  using assms by (auto simp: da_rep_def read_cell_def nth_append)

lemma da_rep_take:
  assumes "da_rep sz arr xs" and "n \<le> length xs"
  shows "da_rep sz (arr\<lparr>da_count := n\<rparr>) (take n xs)"
proof -
  obtain r where "da_data arr = map Some xs @ r" "length xs + length r = da_capacity arr"
    using assms(1) by (auto simp: da_rep_def)
  moreover have "map Some xs = map Some (take n xs) @ map Some (drop n xs)"
    by (metis append_take_drop_id map_append)
  ultimately show ?thesis
    using assms by (auto simp: da_rep_def intro!: exI[of _ "map Some (drop n xs) @ r"])
qed

lemma darray_pop_list:
  assumes "da_rep sz arr xs"
  shows "if xs = [] then darray_pop arr = Some (-1, None, arr)
         else \<exists>arr'. darray_pop arr = Some (0, Some (last xs), arr') \<and> da_rep sz arr' (butlast xs)"
proof (cases "xs = []")
  case False
  then show ?thesis
    using da_rep_read[OF assms, of "length xs - 1"] da_rep_take[OF assms, of "length xs - 1"]
      da_repD(3)[OF assms]
    by (auto simp: darray_pop_def Let_def last_conv_nth butlast_conv_take)
qed (use da_repD(3)[OF assms] in \<open>simp add: darray_pop_def\<close>)

lemma darray_get_list:
  assumes "da_rep sz arr xs"
  shows "darray_get arr i = Some (if i < length xs then Some (xs ! i) else None)"
  using da_rep_read[OF assms, of i] da_repD(3)[OF assms] by (auto simp: darray_get_def)

lemma darray_set_list:
  assumes "da_rep sz arr xs"
  shows "if i < length xs
         then \<exists>arr'. darray_set arr i x = Some (0, arr') \<and> da_rep sz arr' (xs[i := x])
         else darray_set arr i x = Some (-1, arr)"
  using assms by (auto simp: darray_set_def da_rep_def write_cell_def list_update_append map_update)

lemma darray_insert_list:
  assumes "da_rep sz arr xs"
  shows "if i \<le> length xs \<and> can_grow sz ok arr
         then \<exists>arr'. darray_insert sz ok arr i x = Some (0, arr') \<and>
                da_rep sz arr' (take i xs @ x # drop i xs)
         else darray_insert sz ok arr i x = Some (-1, arr)"
proof (cases "i \<le> length xs \<and> can_grow sz ok arr")
  case True
  then obtain arr' where r: "darray_room sz ok arr = (0, arr')" "da_rep sz arr' xs"
      "length xs < da_capacity arr'"
    using da_room[OF assms, of ok] by auto
  obtain y r' where d: "da_data arr' = map Some xs @ y # r'"
    and len: "da_capacity arr' = Suc (length xs + length r')"
    using r(2,3) by (cases "drop (length xs) (da_data arr')") (auto simp: da_rep_def)
  let ?d = "map Some (take i xs) @ Some x # map Some (drop i xs) @ r'"
  have c: "da_count arr' = length xs" "da_count arr = length xs"
    using r(2) assms by (simp_all add: da_repD)
  have "darray_insert sz ok arr i x = Some (0, arr'\<lparr>da_data := ?d, da_count := length xs + 1\<rparr>)"
  proof (cases "i < length xs")
    case lt: True
    have dr: "drop i xs = xs ! i # drop (Suc i) xs"
      using lt by (rule Cons_nth_drop_Suc[symmetric])
    have "memmove_cells (da_data arr') (i + 1) i (length xs - i) =
        Some (map Some (take (Suc i) xs) @ map Some (drop i xs) @ r')"
      using lt by (simp add: memmove_cells_def d take_map drop_map)
    then show ?thesis
      using r lt c by (simp add: darray_insert_def write_cell_def list_update_append
          take_Suc_conv_app_nth)
  next
    case False
    with True have "i = length xs" by simp
    then show ?thesis
      using r c d by (simp add: darray_insert_def write_cell_def list_update_append)
  qed
  moreover have "da_rep sz (arr'\<lparr>da_data := ?d, da_count := length xs + 1\<rparr>)
      (take i xs @ x # drop i xs)"
    using r(2) True len unfolding da_rep_def by auto
  ultimately show ?thesis
    using True by auto
next
  case False
  then show ?thesis
    using da_room[OF assms, of ok] da_repD(3)[OF assms] by (auto simp: darray_insert_def)
qed

lemma darray_remove_list:
  assumes "da_rep sz arr xs"
  shows "if i < length xs
         then \<exists>arr'. darray_remove arr i = Some (0, arr') \<and>
                da_rep sz arr' (take i xs @ drop (Suc i) xs)
         else darray_remove arr i = Some (-1, arr)"
proof (cases "i < length xs")
  case True
  obtain r where d: "da_data arr = map Some xs @ r" and len: "length xs + length r = da_capacity arr"
    using assms by (auto simp: da_rep_def)
  let ?ys = "take i xs @ drop (Suc i) xs"
  let ?d = "map Some ?ys @ Some (last xs) # r"
  have c: "da_count arr = length xs"
    using assms by (rule da_repD)
  have "darray_remove arr i = Some (0, arr\<lparr>da_data := ?d, da_count := length xs - 1\<rparr>)"
  proof (cases "i < length xs - 1")
    case lt: True
    have "drop (length xs - 1) xs = [last xs]"
      using True by (cases xs rule: rev_cases) auto
    then show ?thesis
      using lt by (simp add: darray_remove_def memmove_cells_def d c take_map drop_map) arith
  next
    case False
    with True have "i = length xs - 1" by simp
    with True have "xs = ?ys @ [last xs]"
      by (cases xs rule: rev_cases) auto
    then have "map Some xs = map Some ?ys @ [Some (last xs)]"
      by (metis list.simps(8,9) map_append)
    then have "da_data arr = ?d"
      unfolding d by simp
    then show ?thesis
      using True False by (simp add: darray_remove_def c)
  qed
  moreover have "da_rep sz (arr\<lparr>da_data := ?d, da_count := length xs - 1\<rparr>) ?ys"
    using assms True len unfolding da_rep_def by auto
  ultimately show ?thesis
    using True by auto
qed (use da_repD(3)[OF assms] in \<open>simp add: darray_remove_def\<close>)

lemma darray_clear_list: "da_rep sz arr xs \<Longrightarrow> da_rep sz (darray_clear arr) []"
  using da_rep_take[of sz arr xs 0] by (simp add: darray_clear_def)

lemma darray_shrink_list:
  assumes "da_rep sz arr xs"
  shows "if xs = [] \<or> da_capacity arr \<noteq> length xs \<and> \<not> ok 0 then darray_shrink sz ok arr = (-1, arr)
         else \<exists>arr'. darray_shrink sz ok arr = (0, arr') \<and> da_rep sz arr' xs \<and>
                da_capacity arr' = length xs"
proof -
  have le: "sz * length xs \<le> PTRDIFF_MAX"
  proof (rule le_trans)
    show "sz * length xs \<le> sz * da_capacity arr"
      using assms by (simp add: da_rep_def)
    show "sz * da_capacity arr \<le> PTRDIFF_MAX"
      using assms by (simp add: da_rep_def)
  qed
  then have lt: "sz * length xs < SIZE_MOD"
    by (simp add: PTRDIFF_MAX_def SIZE_MOD_def)
  show ?thesis
    using heap_cells_refused[OF lt, of ok 0 "da_data arr"] da_rep_resize[OF assms _ lt, of ok 0]
      le da_repD(3)[OF assms] assms
    by (auto simp: darray_shrink_def split: option.split)
qed

lemma darray_reserve_list:
  assumes "da_rep sz arr xs" and "sz * n < SIZE_MOD"
  shows "if n \<le> da_capacity arr \<or> ok 0 \<and> sz * n \<le> PTRDIFF_MAX
         then \<exists>arr'. darray_reserve sz ok arr n = (0, arr') \<and> da_rep sz arr' xs \<and>
                n \<le> da_capacity arr'
         else darray_reserve sz ok arr n = (-1, arr)"
proof -
  have "length xs \<le> da_capacity arr"
    using assms(1) by (simp add: da_rep_def)
  then show ?thesis
    using heap_cells_refused[OF assms(2), of ok 0 "da_data arr"]
      da_rep_resize[OF assms(1) _ assms(2), of ok 0] assms(1)
    by (auto simp: darray_reserve_def split: option.split)
qed


lemmas darray_list = darray_push_list darray_pop_list darray_get_list darray_set_list
  darray_insert_list darray_remove_list darray_clear_list darray_shrink_list darray_reserve_list

section \<open>The contract of an array\<close>

text \<open>What the clients use: an append that either happens or leaves the list alone, and access by
  index. \<open>inv\<close> is the representation invariant, \<open>lst\<close> the contents.\<close>

locale list_array =
  fixes inv :: "'s \<Rightarrow> bool"
    and lst :: "'s \<Rightarrow> 'a list"
    and push :: "alloc \<Rightarrow> 's \<Rightarrow> 'a \<Rightarrow> (int \<times> 's) option"
    and get :: "'s \<Rightarrow> nat \<Rightarrow> 'a option option"
  assumes push_law: "inv s \<Longrightarrow> \<exists>rc s'. push ok s x = Some (rc, s') \<and> inv s' \<and>
      (rc = 0 \<and> lst s' = lst s @ [x] \<or> rc = -1 \<and> lst s' = lst s)"
    and get_law: "inv s \<Longrightarrow> get s i = Some (if i < length (lst s) then Some (lst s ! i) else None)"
begin

lemma push_total: "inv s \<Longrightarrow> push ok s x \<noteq> None"
  using push_law by force

lemma push_cases:
  assumes "inv s" and "push ok s x = Some (rc, s')"
  obtains (stored) "rc = 0" "inv s'" "lst s' = lst s @ [x]"
  | (failed) "rc = -1" "inv s'" "lst s' = lst s"
  using push_law[OF assms(1), of ok x] assms(2) by auto

lemma get_after_push:
  assumes "inv s" and "push ok s x = Some (0, s')"
  shows "get s' (length (lst s)) = Some (Some x)"
    and "i < length (lst s) \<Longrightarrow> get s' i = get s i"
proof -
  have s': "inv s'" "lst s' = lst s @ [x]"
    using push_law[OF assms(1), of ok x] assms(2) by auto
  show "get s' (length (lst s)) = Some (Some x)"
    by (simp add: get_law[OF s'(1)] s'(2))
  show "i < length (lst s) \<Longrightarrow> get s' i = get s i"
    by (simp add: get_law[OF s'(1)] get_law[OF assms(1)] s'(2) nth_append)
qed

end

interpretation da: list_array "da_inv sz :: ('a, 'b) darray_scheme \<Rightarrow> bool" da_list "darray_push sz" darray_get
  for sz
proof unfold_locales
  fix s :: "('a, 'b) darray_scheme" and ok x
  assume "da_inv sz s"
  then have "da_rep sz s (da_list s)"
    by (simp add: da_inv_rep)
  from darray_push_list[OF this, of ok x]
  show "\<exists>rc s'. darray_push sz ok s x = Some (rc, s') \<and> da_inv sz s' \<and>
      (rc = 0 \<and> da_list s' = da_list s @ [x] \<or> rc = -1 \<and> da_list s' = da_list s)"
    using \<open>da_inv sz s\<close> by (cases "can_grow sz ok s") (auto simp: da_rep_iff)
next
  fix s :: "('a, 'b) darray_scheme" and i
  assume "da_inv sz s"
  then show "darray_get s i = Some (if i < length (da_list s) then Some (da_list s ! i) else None)"
    using darray_get_list[of sz s] by (simp add: da_inv_rep)
qed

section \<open>Sequences of operations\<close>

datatype 'a array_op =
    Push 'a | Pop | Set_at nat 'a | Insert_at nat 'a | Remove_at nat | Clear | Shrink | Reserve nat

definition darray_apply ::
    "nat \<Rightarrow> alloc \<Rightarrow> 'a darray \<Rightarrow> 'a array_op \<Rightarrow> (int \<times> 'a darray) option" where
  "darray_apply sz ok arr op1 =
     (case op1 of
        Push x \<Rightarrow> darray_push sz ok arr x
      | Pop \<Rightarrow> map_option (\<lambda>(rc, _, arr'). (rc, arr')) (darray_pop arr)
      | Set_at i x \<Rightarrow> darray_set arr i x
      | Insert_at i x \<Rightarrow> darray_insert sz ok arr i x
      | Remove_at i \<Rightarrow> darray_remove arr i
      | Clear \<Rightarrow> Some (0, darray_clear arr)
      | Shrink \<Rightarrow> Some (darray_shrink sz ok arr)
      | Reserve n \<Rightarrow> Some (darray_reserve sz ok arr n))"

fun darray_run ::
    "nat \<Rightarrow> (alloc \<times> 'a array_op) list \<Rightarrow> 'a darray \<Rightarrow> (int list \<times> 'a darray) option" where
  "darray_run sz [] arr = Some ([], arr)"
| "darray_run sz ((ok, op1) # ops) arr =
     (case darray_apply sz ok arr op1 of
        None \<Rightarrow> None
      | Some (rc, arr') \<Rightarrow> map_option (\<lambda>(rcs, a). (rc # rcs, a)) (darray_run sz ops arr'))"

text \<open>The same operations on lists, with the condition under which each is allowed.\<close>

fun list_allows :: "'a array_op \<Rightarrow> 'a list \<Rightarrow> bool" where
  "list_allows Pop xs = (xs \<noteq> [])"
| "list_allows (Set_at i x) xs = (i < length xs)"
| "list_allows (Insert_at i x) xs = (i \<le> length xs)"
| "list_allows (Remove_at i) xs = (i < length xs)"
| "list_allows Shrink xs = (xs \<noteq> [])"
| "list_allows _ xs = True"

fun list_apply :: "'a array_op \<Rightarrow> 'a list \<Rightarrow> 'a list" where
  "list_apply (Push x) xs = xs @ [x]"
| "list_apply Pop xs = butlast xs"
| "list_apply (Set_at i x) xs = xs[i := x]"
| "list_apply (Insert_at i x) xs = take i xs @ x # drop i xs"
| "list_apply (Remove_at i) xs = take i xs @ drop (Suc i) xs"
| "list_apply Clear xs = []"
| "list_apply _ xs = xs"

text \<open>A history of operations and their return codes, replayed on a list: only the ones that
  returned 0 count, and those must have been allowed.\<close>

fun list_replay :: "('a array_op \<times> int) list \<Rightarrow> 'a list \<Rightarrow> 'a list option" where
  "list_replay [] xs = Some xs"
| "list_replay ((op1, rc) # h) xs =
     (if rc = 0 then (if list_allows op1 xs then list_replay h (list_apply op1 xs) else None)
      else if rc = -1 then list_replay h xs else None)"

text \<open>A \<^verbatim>\<open>reserve\<close> whose size in bytes does not wrap.\<close>

fun small_request :: "nat \<Rightarrow> 'a array_op \<Rightarrow> bool" where
  "small_request sz (Reserve n) = (sz * n < SIZE_MOD)"
| "small_request sz _ = True"

lemma darray_apply_list:
  assumes "da_rep sz arr xs" and "small_request sz op1"
  shows "\<exists>rc arr'. darray_apply sz ok arr op1 = Some (rc, arr') \<and>
      (rc = 0 \<and> list_allows op1 xs \<and> da_rep sz arr' (list_apply op1 xs) \<or>
       rc = -1 \<and> da_rep sz arr' xs)"
proof (cases op1)
  case (Push x)
  then show ?thesis
    using assms darray_push_list[OF assms(1), of ok x] by (auto simp: darray_apply_def split: if_splits)
next
  case Pop
  then show ?thesis
    using assms darray_pop_list[OF assms(1)] by (auto simp: darray_apply_def split: if_splits)
next
  case (Set_at i x)
  then show ?thesis
    using assms darray_set_list[OF assms(1), of i x] by (auto simp: darray_apply_def split: if_splits)
next
  case (Insert_at i x)
  then show ?thesis
    using assms darray_insert_list[OF assms(1), of i ok x]
    by (auto simp: darray_apply_def split: if_splits)
next
  case (Remove_at i)
  then show ?thesis
    using assms darray_remove_list[OF assms(1), of i] by (auto simp: darray_apply_def split: if_splits)
next
  case Clear
  then show ?thesis
    using darray_clear_list[OF assms(1)] by (auto simp: darray_apply_def)
next
  case Shrink
  then show ?thesis
    using assms darray_shrink_list[OF assms(1), of ok] by (auto simp: darray_apply_def split: if_splits)
next
  case (Reserve n)
  then show ?thesis
    using assms darray_reserve_list[OF assms(1), of n ok]
    by (auto simp: darray_apply_def split: if_splits)
qed

lemma darray_run_list:
  assumes "da_rep sz arr xs" and "\<forall>(ok, op1) \<in> set ops. small_request sz op1"
  shows "\<exists>rcs arr' ys. darray_run sz ops arr = Some (rcs, arr') \<and> da_rep sz arr' ys \<and>
      length rcs = length ops \<and> list_replay (zip (map snd ops) rcs) xs = Some ys"
  using assms
proof (induction ops arbitrary: arr xs)
  case (Cons a ops)
  obtain ok op1 where a: "a = (ok, op1)" by (cases a)
  then have s: "small_request sz op1"
    using Cons.prems(2) by simp
  obtain rc arr1 where r: "darray_apply sz ok arr op1 = Some (rc, arr1)"
    and c: "rc = 0 \<and> list_allows op1 xs \<and> da_rep sz arr1 (list_apply op1 xs) \<or>
       rc = -1 \<and> da_rep sz arr1 xs"
    using darray_apply_list[OF Cons.prems(1) s] by blast
  define zs where "zs = (if rc = 0 then list_apply op1 xs else xs)"
  have "da_rep sz arr1 zs"
    using c by (auto simp: zs_def)
  then obtain rcs arr' ys where "darray_run sz ops arr1 = Some (rcs, arr')" "da_rep sz arr' ys"
      "length rcs = length ops" "list_replay (zip (map snd ops) rcs) zs = Some ys"
    using Cons.IH Cons.prems(2) by (metis list.set_intros(2))
  with a r c show ?case
    by (auto simp: zs_def)
qed simp

text \<open>Refinement of lists. From a well-formed array, every sequence of pushes, pops, updates,
  insertions, removals, clears, shrinks and reservations whose requested sizes do not wrap runs
  without an access outside the buffer or to an unwritten cell, whatever allocations fail; the
  result is well-formed, and its elements are those of a list on which exactly the operations that
  returned 0 were performed, each of them allowed there.\<close>

theorem darray_refines_list:
  assumes "da_inv sz arr" and "\<forall>(ok, op1) \<in> set ops. small_request sz op1"
  shows "\<exists>rcs arr'. darray_run sz ops arr = Some (rcs, arr') \<and> da_inv sz arr' \<and>
      length rcs = length ops \<and>
      list_replay (zip (map snd ops) rcs) (da_list arr) = Some (da_list arr')"
  using darray_run_list[of sz arr "da_list arr" ops] assms by (auto simp: da_rep_iff)

definition sample_array :: "nat darray" where
  "sample_array = \<lparr>da_data = [Some 5, Some 6], da_count = 2, da_capacity = 2\<rparr>"

definition sample_ops :: "(alloc \<times> nat array_op) list" where
  "sample_ops = [(alloc_ok, Insert_at 1 9), (\<lambda>_. False, Reserve 100), (alloc_ok, Remove_at 0), (alloc_ok, Pop)]"

theorem darray_refines_list_witness:
  "\<exists>rcs arr'. darray_run 8 sample_ops sample_array = Some (rcs, arr') \<and> da_inv 8 arr' \<and>
     length rcs = 4 \<and> list_replay (zip (map snd sample_ops) rcs) [5, 6] = Some (da_list arr')"
proof -
  have "da_inv 8 sample_array"
    by (auto simp: sample_array_def da_inv_def elem_size_def DARRAY_DEFAULT_CAPACITY_def
        PTRDIFF_MAX_def less_Suc_eq numeral_2_eq_2)
  moreover have "\<forall>(ok, op1) \<in> set sample_ops. small_request 8 op1"
    by (simp add: sample_ops_def SIZE_MOD_def)
  moreover have "da_list sample_array = [5, 6]" and "length sample_ops = 4"
    by (simp_all add: sample_array_def da_list_def sample_ops_def)
  ultimately show ?thesis
    using darray_refines_list[of 8 sample_array sample_ops] by simp
qed

text \<open>The size of a request is not checked for overflow: an array of 8-byte elements
  initialised with a capacity of \<open>2 ^ 61 + 1\<close> gets a buffer of one element, records the capacity
  that was asked for, and its second push writes outside the buffer.\<close>

theorem darray_capacity_overflow:
  "\<exists>a1 a2. darray_init_capacity 8 alloc_ok (2 ^ 61 + 1) arr = (0, a1) \<and>
     da_capacity a1 = 2 ^ 61 + 1 \<and> length (da_data a1) = 1 \<and>
     darray_push 8 alloc_ok a1 x = Some (0, a2) \<and> darray_push 8 alloc_ok a2 y = None"
  by (simp add: darray_init_capacity_def heap_cells_def size_mul_def SIZE_MOD_def PTRDIFF_MAX_def
      darray_push_def darray_room_def write_cell_def)

end
