(* ===== verification/Ptrarray.thy ===== *)
theory Ptrarray
  imports Darray "HOL-Library.Multiset"
begin

text \<open>
  Model of the owning pointer arrays of \<^verbatim>\<open>lib/util/ptrarray.h\<close> (\<^verbatim>\<open>PTRARRAY_DEFINE\<close> and the
  predefined \<^verbatim>\<open>StringArray\<close>). A pointer is an element of any type, \<open>None\<close> being \<^verbatim>\<open>NULL\<close>; an array
  extends the record of \<^verbatim>\<open>Darray\<close> by whether it has a destructor. The operations whose code is that
  of \<^verbatim>\<open>darray.h\<close> with \<^verbatim>\<open>sizeof(ELEMTYPE*)\<close> for the element size are instances of it. An operation
  that may call the destructor returns the pointers it was called on, in order.

  The theorem of the component is about ownership: a pointer handed to an owning array is at each
  moment either in it, handed back, or destroyed once.
\<close>

section \<open>State and operations\<close>

record 'p ptrarray = "'p option darray" +
  pa_destructor :: bool

definition PTR_SIZE :: nat where
  "PTR_SIZE = 8"

definition PTRARRAY_DEFAULT_CAPACITY :: nat where
  "PTRARRAY_DEFAULT_CAPACITY = 8"

text \<open>The loop over the elements that calls the destructor on those that are not \<^verbatim>\<open>NULL\<close>.\<close>

fun destroy_loop :: "'p option option list \<Rightarrow> nat \<Rightarrow> nat \<Rightarrow> 'p list option" where
  "destroy_loop d i 0 = Some []"
| "destroy_loop d i (Suc n) =
     (case read_cell d i of
        None \<Rightarrow> None
      | Some p \<Rightarrow> map_option (\<lambda>l. (case p of None \<Rightarrow> l | Some q \<Rightarrow> q # l)) (destroy_loop d (Suc i) n))"

definition ptrarray_init_capacity ::
    "alloc \<Rightarrow> nat \<Rightarrow> bool \<Rightarrow> 'p ptrarray \<Rightarrow> int \<times> 'p ptrarray" where
  "ptrarray_init_capacity ok cap d arr =
     (let cap = (if cap = 0 then PTRARRAY_DEFAULT_CAPACITY else cap)
      in case heap_cells ok 0 [] PTR_SIZE (size_mul PTR_SIZE cap) of
           None \<Rightarrow> (-1, arr\<lparr>da_data := []\<rparr>)
         | Some c \<Rightarrow> (0, arr\<lparr>da_data := c, da_count := 0, da_capacity := cap, pa_destructor := d\<rparr>))"

definition ptrarray_init :: "alloc \<Rightarrow> bool \<Rightarrow> 'p ptrarray \<Rightarrow> int \<times> 'p ptrarray" where
  "ptrarray_init ok d arr = ptrarray_init_capacity ok PTRARRAY_DEFAULT_CAPACITY d arr"

definition ptrarray_destroy :: "'p ptrarray \<Rightarrow> ('p list \<times> 'p ptrarray) option" where
  "ptrarray_destroy arr =
     map_option
       (\<lambda>l. (l, arr\<lparr>da_data := [], da_count := 0, da_capacity := 0, pa_destructor := False\<rparr>))
       (if pa_destructor arr then destroy_loop (da_data arr) 0 (da_count arr) else Some [])"

definition ptrarray_destroy_shallow :: "'p ptrarray \<Rightarrow> 'p ptrarray" where
  "ptrarray_destroy_shallow arr =
     arr\<lparr>da_data := [], da_count := 0, da_capacity := 0, pa_destructor := False\<rparr>"

definition ptrarray_push ::
    "alloc \<Rightarrow> 'p ptrarray \<Rightarrow> 'p option \<Rightarrow> (int \<times> 'p ptrarray) option" where
  "ptrarray_push ok arr item = darray_push PTR_SIZE ok arr item"

definition ptrarray_pop :: "'p ptrarray \<Rightarrow> ('p option \<times> 'p ptrarray) option" where
  "ptrarray_pop arr =
     (if da_count arr = 0 then Some (None, arr)
      else map_option (\<lambda>p. (p, arr\<lparr>da_count := da_count arr - 1\<rparr>))
             (read_cell (da_data arr) (da_count arr - 1)))"

definition ptrarray_get :: "'p ptrarray \<Rightarrow> nat \<Rightarrow> 'p option option" where
  "ptrarray_get arr index =
     (if index \<ge> da_count arr then Some None else read_cell (da_data arr) index)"

definition ptrarray_set ::
    "'p ptrarray \<Rightarrow> nat \<Rightarrow> 'p option \<Rightarrow> (int \<times> 'p list \<times> 'p ptrarray) option" where
  "ptrarray_set arr index item =
     (if index \<ge> da_count arr then Some (-1, [], arr)
      else case read_cell (da_data arr) index of
             None \<Rightarrow> None
           | Some old \<Rightarrow>
               map_option
                 (\<lambda>d. (0, if pa_destructor arr then (case old of None \<Rightarrow> [] | Some p \<Rightarrow> [p]) else [],
                       arr\<lparr>da_data := d\<rparr>))
                 (write_cell (da_data arr) index item))"

definition ptrarray_insert ::
    "alloc \<Rightarrow> 'p ptrarray \<Rightarrow> nat \<Rightarrow> 'p option \<Rightarrow> (int \<times> 'p ptrarray) option" where
  "ptrarray_insert ok arr index item = darray_insert PTR_SIZE ok arr index item"

definition ptrarray_remove :: "'p ptrarray \<Rightarrow> nat \<Rightarrow> ('p option \<times> 'p ptrarray) option" where
  "ptrarray_remove arr index =
     (if index \<ge> da_count arr then Some (None, arr)
      else case read_cell (da_data arr) index of
             None \<Rightarrow> None
           | Some item \<Rightarrow>
               map_option (\<lambda>d. (item, arr\<lparr>da_data := d, da_count := da_count arr - 1\<rparr>))
                 (if index < da_count arr - 1
                  then memmove_cells (da_data arr) index (index + 1) (da_count arr - index - 1)
                  else Some (da_data arr)))"

definition ptrarray_delete :: "'p ptrarray \<Rightarrow> nat \<Rightarrow> ('p list \<times> 'p ptrarray) option" where
  "ptrarray_delete arr index =
     map_option
       (\<lambda>(item, arr'). (case item of
                           Some p \<Rightarrow> if pa_destructor arr' then [p] else []
                         | None \<Rightarrow> [], arr'))
       (ptrarray_remove arr index)"

definition ptrarray_clear :: "'p ptrarray \<Rightarrow> ('p list \<times> 'p ptrarray) option" where
  "ptrarray_clear arr =
     map_option (\<lambda>l. (l, arr\<lparr>da_count := 0\<rparr>))
       (if pa_destructor arr then destroy_loop (da_data arr) 0 (da_count arr) else Some [])"

definition ptrarray_clear_shallow :: "'p ptrarray \<Rightarrow> 'p ptrarray" where
  "ptrarray_clear_shallow arr = arr\<lparr>da_count := 0\<rparr>"

definition ptrarray_shrink :: "alloc \<Rightarrow> 'p ptrarray \<Rightarrow> int \<times> 'p ptrarray" where
  "ptrarray_shrink ok arr = darray_shrink PTR_SIZE ok arr"

definition ptrarray_reserve :: "alloc \<Rightarrow> 'p ptrarray \<Rightarrow> nat \<Rightarrow> int \<times> 'p ptrarray" where
  "ptrarray_reserve ok arr min_capacity = darray_reserve PTR_SIZE ok arr min_capacity"

text \<open>The buffer that is handed over and the number of its elements.\<close>

definition ptrarray_steal :: "'p ptrarray \<Rightarrow> 'p option option list \<times> nat \<times> 'p ptrarray" where
  "ptrarray_steal arr =
     (da_data arr, da_count arr, arr\<lparr>da_data := [], da_count := 0, da_capacity := 0\<rparr>)"

fun find_loop :: "'p option option list \<Rightarrow> 'p option \<Rightarrow> nat \<Rightarrow> nat \<Rightarrow> int option" where
  "find_loop d item i 0 = Some (-1)"
| "find_loop d item i (Suc n) =
     (case read_cell d i of
        None \<Rightarrow> None
      | Some p \<Rightarrow> if p = item then Some (wrap32 (int i)) else find_loop d item (Suc i) n)"

definition ptrarray_find :: "'p ptrarray \<Rightarrow> 'p option \<Rightarrow> int option" where
  "ptrarray_find arr item = find_loop (da_data arr) item 0 (da_count arr)"

text \<open>\<^verbatim>\<open>StringArray\<close> has its own copy of the code; its push does not replace a capacity of 0, and
  its destroy keeps the destructor.\<close>

definition StringArray_init :: "alloc \<Rightarrow> bool \<Rightarrow> 'p ptrarray \<Rightarrow> int \<times> 'p ptrarray" where
  "StringArray_init ok d arr =
     (case heap_cells ok 0 [] PTR_SIZE (size_mul PTR_SIZE PTRARRAY_DEFAULT_CAPACITY) of
        None \<Rightarrow> (-1, arr\<lparr>da_data := []\<rparr>)
      | Some c \<Rightarrow> (0, arr\<lparr>da_data := c, da_count := 0, da_capacity := PTRARRAY_DEFAULT_CAPACITY,
                        pa_destructor := d\<rparr>))"

definition StringArray_destroy :: "'p ptrarray \<Rightarrow> ('p list \<times> 'p ptrarray) option" where
  "StringArray_destroy arr =
     map_option (\<lambda>l. (l, arr\<lparr>da_data := [], da_count := 0, da_capacity := 0\<rparr>))
       (if pa_destructor arr then destroy_loop (da_data arr) 0 (da_count arr) else Some [])"

definition StringArray_push ::
    "alloc \<Rightarrow> 'p ptrarray \<Rightarrow> 'p option \<Rightarrow> (int \<times> 'p ptrarray) option" where
  "StringArray_push ok arr item =
     (case (if da_count arr \<ge> da_capacity arr
            then let new_cap = size_mul (da_capacity arr) DARRAY_GROWTH_FACTOR
                 in case heap_cells ok 0 (da_data arr) PTR_SIZE (size_mul PTR_SIZE new_cap) of
                      None \<Rightarrow> None
                    | Some d \<Rightarrow> Some (arr\<lparr>da_data := d, da_capacity := new_cap\<rparr>)
            else Some arr) of
        None \<Rightarrow> Some (-1, arr)
      | Some arr \<Rightarrow>
          map_option (\<lambda>d. (0, arr\<lparr>da_data := d, da_count := da_count arr + 1\<rparr>))
            (write_cell (da_data arr) (da_count arr) item))"

definition StringArray_get :: "'p ptrarray \<Rightarrow> nat \<Rightarrow> 'p option option" where
  "StringArray_get arr index =
     (if index \<ge> da_count arr then Some None else read_cell (da_data arr) index)"

definition StringArray_pop :: "'p ptrarray \<Rightarrow> ('p option \<times> 'p ptrarray) option" where
  "StringArray_pop arr =
     (if da_count arr = 0 then Some (None, arr)
      else map_option (\<lambda>p. (p, arr\<lparr>da_count := da_count arr - 1\<rparr>))
             (read_cell (da_data arr) (da_count arr - 1)))"

definition StringArray_clear :: "'p ptrarray \<Rightarrow> ('p list \<times> 'p ptrarray) option" where
  "StringArray_clear arr =
     map_option (\<lambda>l. (l, arr\<lparr>da_count := 0\<rparr>))
       (if pa_destructor arr then destroy_loop (da_data arr) 0 (da_count arr) else Some [])"

section \<open>Sequences of operations\<close>

datatype 'p ptr_op =
    PPush "'p option" | PPop | PSet nat "'p option" | PInsert nat "'p option" | PRemove nat
  | PDelete nat | PClear | PClear_shallow | PShrink | PReserve nat | PSteal | PDestroy
  | PDestroy_shallow

text \<open>The pointers an array took over, handed back and destroyed.\<close>

record 'p flow =
  taken :: "'p list"
  returned :: "'p list"
  destroyed :: "'p list"

fun ptrs :: "'p option list \<Rightarrow> 'p list" where
  "ptrs [] = []"
| "ptrs (x # xs) = (case x of None \<Rightarrow> ptrs xs | Some p \<Rightarrow> p # ptrs xs)"

text \<open>Which pointers move when one operation runs. What \<open>clear_shallow\<close> and \<open>destroy_shallow\<close>
  drop is the caller's again.\<close>

definition ptrarray_apply ::
    "alloc \<Rightarrow> 'p ptrarray \<Rightarrow> 'p ptr_op \<Rightarrow> ('p flow \<times> 'p ptrarray) option" where
  "ptrarray_apply ok arr op1 =
     (let took = (\<lambda>rc item. if rc = (0::int) then ptrs [item] else [])
      in case op1 of
        PPush p \<Rightarrow>
          map_option (\<lambda>(rc, a). (\<lparr>taken = took rc p, returned = [], destroyed = []\<rparr>, a))
            (ptrarray_push ok arr p)
      | PPop \<Rightarrow>
          map_option (\<lambda>(p, a). (\<lparr>taken = [], returned = ptrs [p], destroyed = []\<rparr>, a))
            (ptrarray_pop arr)
      | PSet i p \<Rightarrow>
          map_option (\<lambda>(rc, l, a). (\<lparr>taken = took rc p, returned = [], destroyed = l\<rparr>, a))
            (ptrarray_set arr i p)
      | PInsert i p \<Rightarrow>
          map_option (\<lambda>(rc, a). (\<lparr>taken = took rc p, returned = [], destroyed = []\<rparr>, a))
            (ptrarray_insert ok arr i p)
      | PRemove i \<Rightarrow>
          map_option (\<lambda>(p, a). (\<lparr>taken = [], returned = ptrs [p], destroyed = []\<rparr>, a))
            (ptrarray_remove arr i)
      | PDelete i \<Rightarrow>
          map_option (\<lambda>(l, a). (\<lparr>taken = [], returned = [], destroyed = l\<rparr>, a))
            (ptrarray_delete arr i)
      | PClear \<Rightarrow>
          map_option (\<lambda>(l, a). (\<lparr>taken = [], returned = [], destroyed = l\<rparr>, a))
            (ptrarray_clear arr)
      | PClear_shallow \<Rightarrow>
          Some (\<lparr>taken = [], returned = ptrs (da_list arr), destroyed = []\<rparr>,
                ptrarray_clear_shallow arr)
      | PShrink \<Rightarrow>
          Some (\<lparr>taken = [], returned = [], destroyed = []\<rparr>, snd (ptrarray_shrink ok arr))
      | PReserve n \<Rightarrow>
          Some (\<lparr>taken = [], returned = [], destroyed = []\<rparr>, snd (ptrarray_reserve ok arr n))
      | PSteal \<Rightarrow>
          (case ptrarray_steal arr of
             (d, n, a) \<Rightarrow>
               Some (\<lparr>taken = [], returned = ptrs (map the (take n d)), destroyed = []\<rparr>, a))
      | PDestroy \<Rightarrow>
          map_option (\<lambda>(l, a). (\<lparr>taken = [], returned = [], destroyed = l\<rparr>, a))
            (ptrarray_destroy arr)
      | PDestroy_shallow \<Rightarrow>
          Some (\<lparr>taken = [], returned = ptrs (da_list arr), destroyed = []\<rparr>,
                ptrarray_destroy_shallow arr))"

fun ptrarray_run ::
    "(alloc \<times> 'p ptr_op) list \<Rightarrow> 'p ptrarray \<Rightarrow> ('p flow \<times> 'p ptrarray) option" where
  "ptrarray_run [] arr = Some (\<lparr>taken = [], returned = [], destroyed = []\<rparr>, arr)"
| "ptrarray_run ((ok, op1) # ops) arr =
     (case ptrarray_apply ok arr op1 of
        None \<Rightarrow> None
      | Some (f, arr') \<Rightarrow>
          map_option (\<lambda>(g, a). (\<lparr>taken = taken f @ taken g, returned = returned f @ returned g,
                                destroyed = destroyed f @ destroyed g\<rparr>, a))
            (ptrarray_run ops arr'))"


section \<open>Contents\<close>

lemma ptrs_append [simp]: "ptrs (xs @ ys) = ptrs xs @ ptrs ys"
  by (induction xs) (auto split: option.split)

lemma mset_ptrs_Cons: "mset (ptrs (x # xs)) = mset (ptrs [x]) + mset (ptrs xs)"
  by (simp split: option.split)

lemma mset_ptrs_split:
  "i < length xs \<Longrightarrow>
     mset (ptrs xs) = mset (ptrs (take i xs)) + mset (ptrs [xs ! i]) + mset (ptrs (drop (Suc i) xs))"
  by (metis add.assoc append_take_drop_id Cons_nth_drop_Suc mset_append mset_ptrs_Cons ptrs_append)

lemma mset_ptrs_take_drop: "mset (ptrs (take i xs)) + mset (ptrs (drop i xs)) = mset (ptrs xs)"
  by (metis append_take_drop_id mset_append ptrs_append)

lemma mset_ptrs_set:
  "i < length xs \<Longrightarrow> mset (ptrs (xs[i := p])) + mset (ptrs [xs ! i]) = mset (ptrs xs) + mset (ptrs [p])"
  using mset_ptrs_split[of i xs] mset_ptrs_split[of i "xs[i := p]"] by (simp add: ac_simps)

lemma mset_ptrs_last:
  assumes "xs \<noteq> []"
  shows "mset (ptrs (butlast xs)) + mset (ptrs [last xs]) = mset (ptrs xs)"
proof -
  have "ptrs xs = ptrs (butlast xs @ [last xs])"
    using assms by simp
  then show ?thesis
    by (metis mset_append ptrs_append)
qed

lemma destroy_loop_list:
  assumes "da_rep sz arr xs" and "i + n = length xs"
  shows "destroy_loop (da_data arr) i n = Some (ptrs (drop i xs))"
  using assms(2)
proof (induction n arbitrary: i)
  case (Suc n)
  then have i: "i < length xs" by simp
  show ?case
    using Suc.IH[of "Suc i"] Suc.prems da_rep_read[OF assms(1) i] Cons_nth_drop_Suc[OF i, symmetric]
    by (simp split: option.split)
qed simp

lemma destroy_all_list:
  assumes "da_rep sz arr xs"
  shows "destroy_loop (da_data arr) 0 (da_count arr) = Some (ptrs xs)"
  using destroy_loop_list[OF assms, of 0 "length xs"] da_repD(3)[OF assms] by simp

lemma da_rep_empty: "da_rep PTR_SIZE (arr\<lparr>da_data := [], da_count := 0, da_capacity := 0\<rparr>) []"
  by (simp add: da_rep_def elem_size_def PTR_SIZE_def DARRAY_DEFAULT_CAPACITY_def PTRDIFF_MAX_def)

lemma da_rep_destructor [simp]: "da_rep sz (arr\<lparr>pa_destructor := b\<rparr>) xs = da_rep sz arr xs"
  by (simp add: da_rep_def)

lemma da_list_destructor [simp]: "da_list (arr\<lparr>pa_destructor := b\<rparr>) = da_list arr"
  by (simp add: da_list_def)

lemma ptrarray_find_list:
  assumes "da_rep sz arr xs" and "length xs \<le> 2147483648"
  shows "ptrarray_find arr item = Some (case find_index (\<lambda>p. p = item) xs of None \<Rightarrow> -1 | Some i \<Rightarrow> int i)"
proof -
  have "find_loop (da_data arr) item i n =
      Some (case find_index (\<lambda>p. p = item) (drop i xs) of None \<Rightarrow> -1 | Some j \<Rightarrow> int (i + j))"
    if "i + n = length xs" for i n
    using that
  proof (induction n arbitrary: i)
    case (Suc n)
    then have i: "i < length xs" by simp
    then have "int i \<le> INT_MAX"
      using assms(2) by simp
    then show ?case
      using Suc.IH[of "Suc i"] Suc.prems da_rep_read[OF assms(1) i] Cons_nth_drop_Suc[OF i, symmetric]
      by (simp add: wrap32_def split: option.split)
  qed simp
  then show ?thesis
    using da_repD(3)[OF assms(1)] by (simp add: ptrarray_find_def split: option.split)
qed

section \<open>Ownership\<close>

text \<open>One operation on an array with contents \<open>xs\<close>: it runs, its result is well-formed, the array
  keeps its destructor, and no pointer is lost or counted twice.\<close>

definition conserves ::
    "'p option list \<Rightarrow> bool \<Rightarrow> ('p flow \<times> 'p ptrarray) option \<Rightarrow> bool" where
  "conserves xs own r \<longleftrightarrow>
     (\<exists>f arr' ys. r = Some (f, arr') \<and> da_rep PTR_SIZE arr' ys \<and> pa_destructor arr' = own \<and>
        mset (ptrs xs) + mset (taken f) = mset (ptrs ys) + mset (returned f) + mset (destroyed f))"

lemma conservesI:
  assumes "da_rep PTR_SIZE arr' ys" and "pa_destructor arr' = own"
    and "mset (ptrs xs) + mset (taken f) = mset (ptrs ys) + mset (returned f) + mset (destroyed f)"
  shows "conserves xs own (Some (f, arr'))"
  using assms unfolding conserves_def by blast

lemma darray_room_destructor:
  "darray_room sz ok arr = (rc, arr') \<Longrightarrow> pa_destructor arr' = pa_destructor arr"
  by (auto simp: darray_room_def darray_grow_def Let_def split: if_splits option.splits)

lemma darray_push_destructor:
  "darray_push sz ok arr p = Some (rc, arr') \<Longrightarrow> pa_destructor arr' = pa_destructor arr"
  by (auto simp: darray_push_def dest: darray_room_destructor split: if_splits option.splits prod.splits)

lemma darray_insert_destructor:
  "darray_insert sz ok arr i p = Some (rc, arr') \<Longrightarrow> pa_destructor arr' = pa_destructor arr"
  by (auto simp: darray_insert_def dest: darray_room_destructor split: if_splits option.splits prod.splits)

lemma push_conserves:
  assumes "da_rep PTR_SIZE arr xs"
  shows "conserves xs (pa_destructor arr) (ptrarray_apply ok arr (PPush p))"
  using darray_push_list[OF assms, of ok p] assms
  by (auto simp: ptrarray_apply_def ptrarray_push_def Let_def intro!: conservesI
      dest: darray_push_destructor split: if_splits)

lemma insert_conserves:
  assumes "da_rep PTR_SIZE arr xs"
  shows "conserves xs (pa_destructor arr) (ptrarray_apply ok arr (PInsert i p))"
proof (cases "i \<le> length xs \<and> can_grow PTR_SIZE ok arr")
  case True
  then obtain arr' where a: "darray_insert PTR_SIZE ok arr i p = Some (0, arr')"
      "da_rep PTR_SIZE arr' (take i xs @ p # drop i xs)"
    using darray_insert_list[OF assms, of i ok p] by auto
  have "mset (ptrs (take i xs @ p # drop i xs)) = mset (ptrs xs) + mset (ptrs [p])"
    using mset_ptrs_take_drop[of i xs] mset_ptrs_Cons[of p "drop i xs"]
    by (simp del: ptrs.simps add: ac_simps)
  with a darray_insert_destructor[OF a(1)] show ?thesis
    by (auto simp: ptrarray_apply_def ptrarray_insert_def Let_def simp del: ptrs.simps intro!: conservesI[OF a(2)])
next
  case False
  then have "darray_insert PTR_SIZE ok arr i p = Some (-1, arr)"
    using darray_insert_list[OF assms, of i ok p] by simp
  with assms show ?thesis
    by (auto simp: ptrarray_apply_def ptrarray_insert_def Let_def intro!: conservesI)
qed

lemma pop_conserves:
  assumes "da_rep PTR_SIZE arr xs"
  shows "conserves xs (pa_destructor arr) (ptrarray_apply ok arr PPop)"
proof (cases "xs = []")
  case True
  then show ?thesis
    using assms da_repD(3)[OF assms]
    by (auto simp: ptrarray_apply_def ptrarray_pop_def Let_def intro!: conservesI)
next
  case False
  have r: "da_rep PTR_SIZE (arr\<lparr>da_count := length xs - 1\<rparr>) (butlast xs)"
    using da_rep_take[OF assms, of "length xs - 1"] by (simp add: butlast_conv_take)
  show ?thesis
    using False da_rep_read[OF assms, of "length xs - 1"] da_repD(3)[OF assms] mset_ptrs_last[OF False]
    by (auto simp: ptrarray_apply_def ptrarray_pop_def Let_def last_conv_nth simp del: ptrs.simps
        intro!: conservesI[OF r[simplified]])
qed

lemma set_conserves:
  assumes "da_rep PTR_SIZE arr xs" and "pa_destructor arr"
  shows "conserves xs True (ptrarray_apply ok arr (PSet i p))"
proof (cases "i < length xs")
  case True
  obtain arr' where a: "darray_set arr i p = Some (0, arr')" "da_rep PTR_SIZE arr' (xs[i := p])"
    using darray_set_list[OF assms(1), of i p] True by auto
  have "ptrarray_set arr i p = Some (0, ptrs [xs ! i], arr')" and "pa_destructor arr'"
    using a(1) True da_rep_read[OF assms(1) True] da_repD(3)[OF assms(1)] assms(2)
    by (auto simp: ptrarray_set_def darray_set_def split: option.split)
  with a(2) mset_ptrs_set[OF True, of p] show ?thesis
    by (auto simp: ptrarray_apply_def Let_def simp del: ptrs.simps intro!: conservesI[OF a(2)])
next
  case False
  then show ?thesis
    using assms da_repD(3)[OF assms(1)]
    by (auto simp: ptrarray_apply_def ptrarray_set_def Let_def intro!: conservesI)
qed

lemma ptrarray_remove_list:
  assumes "da_rep PTR_SIZE arr xs"
  shows "if i < length xs
         then \<exists>arr'. ptrarray_remove arr i = Some (xs ! i, arr') \<and>
                da_rep PTR_SIZE arr' (take i xs @ drop (Suc i) xs) \<and>
                pa_destructor arr' = pa_destructor arr
         else ptrarray_remove arr i = Some (None, arr)"
proof (cases "i < length xs")
  case True
  obtain arr' where a: "darray_remove arr i = Some (0, arr')"
      "da_rep PTR_SIZE arr' (take i xs @ drop (Suc i) xs)"
    using darray_remove_list[OF assms, of i] True by auto
  then have "ptrarray_remove arr i = Some (xs ! i, arr') \<and> pa_destructor arr' = pa_destructor arr"
    using True da_rep_read[OF assms True] da_repD(3)[OF assms]
    by (auto simp: ptrarray_remove_def darray_remove_def split: if_splits)
  with a True show ?thesis by auto
qed (use da_repD(3)[OF assms] in \<open>simp add: ptrarray_remove_def\<close>)

lemma remove_conserves:
  assumes "da_rep PTR_SIZE arr xs"
  shows "conserves xs (pa_destructor arr) (ptrarray_apply ok arr (PRemove i))"
    and "pa_destructor arr \<Longrightarrow> conserves xs True (ptrarray_apply ok arr (PDelete i))"
proof -
  have m: "mset (ptrs (take i xs @ drop (Suc i) xs)) + mset (ptrs [xs ! i]) = mset (ptrs xs)"
    if "i < length xs"
    using mset_ptrs_split[OF that] by (simp del: ptrs.simps add: ac_simps)
  show "conserves xs (pa_destructor arr) (ptrarray_apply ok arr (PRemove i))"
    using ptrarray_remove_list[OF assms, of i] assms m
    by (auto simp: ptrarray_apply_def Let_def simp del: ptrs_append intro!: conservesI
        split: if_splits)
  show "conserves xs True (ptrarray_apply ok arr (PDelete i))" if "pa_destructor arr"
    using ptrarray_remove_list[OF assms, of i] assms m that
    by (auto simp: ptrarray_apply_def ptrarray_delete_def Let_def simp del: ptrs_append
        intro!: conservesI split: if_splits option.splits)
qed


lemma clear_conserves:
  assumes "da_rep PTR_SIZE arr xs"
  shows "pa_destructor arr \<Longrightarrow> conserves xs True (ptrarray_apply ok arr PClear)"
    and "conserves xs (pa_destructor arr) (ptrarray_apply ok arr PClear_shallow)"
    and "conserves xs (pa_destructor arr) (ptrarray_apply ok arr PSteal)"
proof -
  have e: "da_rep PTR_SIZE (arr\<lparr>da_count := 0\<rparr>) []"
    using da_rep_take[OF assms, of 0] by simp
  show "pa_destructor arr \<Longrightarrow> conserves xs True (ptrarray_apply ok arr PClear)"
    using destroy_all_list[OF assms]
    by (auto simp: ptrarray_apply_def ptrarray_clear_def intro!: conservesI[OF e])
  show "conserves xs (pa_destructor arr) (ptrarray_apply ok arr PClear_shallow)"
    using da_repD(2)[OF assms]
    by (auto simp: ptrarray_apply_def ptrarray_clear_shallow_def intro!: conservesI[OF e])
  show "conserves xs (pa_destructor arr) (ptrarray_apply ok arr PSteal)"
    using da_repD(2)[OF assms]
    by (auto simp: ptrarray_apply_def ptrarray_steal_def da_list_def intro!: conservesI[OF da_rep_empty])
qed

lemma resize_conserves:
  assumes "da_rep PTR_SIZE arr xs"
  shows "conserves xs (pa_destructor arr) (ptrarray_apply ok arr PShrink)"
    and "PTR_SIZE * n < SIZE_MOD \<Longrightarrow>
      conserves xs (pa_destructor arr) (ptrarray_apply ok arr (PReserve n))"
proof -
  have d: "pa_destructor (snd (darray_shrink PTR_SIZE ok arr)) = pa_destructor arr"
    "pa_destructor (snd (darray_reserve PTR_SIZE ok arr n)) = pa_destructor arr"
    by (auto simp: darray_shrink_def darray_reserve_def split: option.split)
  have "da_rep PTR_SIZE (snd (darray_shrink PTR_SIZE ok arr)) xs"
    using darray_shrink_list[OF assms, of ok] assms by (auto split: if_splits)
  from conservesI[OF this d(1)] show "conserves xs (pa_destructor arr) (ptrarray_apply ok arr PShrink)"
    by (simp add: ptrarray_apply_def ptrarray_shrink_def)
  assume "PTR_SIZE * n < SIZE_MOD"
  then have "da_rep PTR_SIZE (snd (darray_reserve PTR_SIZE ok arr n)) xs"
    using darray_reserve_list[OF assms, of n ok] assms by (auto split: if_splits)
  from conservesI[OF this d(2)]
  show "conserves xs (pa_destructor arr) (ptrarray_apply ok arr (PReserve n))"
    by (simp add: ptrarray_apply_def ptrarray_reserve_def)
qed

text \<open>An operation that keeps the array in use, with a request that does not wrap.\<close>

fun in_use :: "'p ptr_op \<Rightarrow> bool" where
  "in_use (PReserve n) = (PTR_SIZE * n < SIZE_MOD)"
| "in_use PDestroy = False"
| "in_use PDestroy_shallow = False"
| "in_use _ = True"

lemma apply_conserves:
  assumes "da_rep PTR_SIZE arr xs" and "pa_destructor arr" and "in_use op1"
  shows "conserves xs True (ptrarray_apply ok arr op1)"
  using assms push_conserves[OF assms(1)] insert_conserves[OF assms(1)] pop_conserves[OF assms(1)]
    set_conserves[OF assms(1,2)] remove_conserves[OF assms(1)] clear_conserves[OF assms(1)]
    resize_conserves[OF assms(1)]
  by (cases op1) simp_all

lemma run_conserves:
  assumes "da_rep PTR_SIZE arr xs" and "pa_destructor arr" and "\<forall>(ok, op1) \<in> set ops. in_use op1"
  shows "conserves xs True (ptrarray_run ops arr)"
  using assms
proof (induction ops arbitrary: arr xs)
  case Nil
  then show ?case by (auto intro!: conservesI)
next
  case (Cons a ops)
  obtain ok op1 where a: "a = (ok, op1)" and u: "in_use op1" "\<forall>(ok, op1) \<in> set ops. in_use op1"
    using Cons.prems(3) by (cases a) auto
  obtain f arr1 ys where 1: "ptrarray_apply ok arr op1 = Some (f, arr1)" "da_rep PTR_SIZE arr1 ys"
      "pa_destructor arr1"
      "mset (ptrs xs) + mset (taken f) = mset (ptrs ys) + mset (returned f) + mset (destroyed f)"
    using apply_conserves[OF Cons.prems(1,2) u(1), of ok] unfolding conserves_def by auto
  obtain g arr2 zs where 2: "ptrarray_run ops arr1 = Some (g, arr2)" "da_rep PTR_SIZE arr2 zs"
      "pa_destructor arr2"
      "mset (ptrs ys) + mset (taken g) = mset (ptrs zs) + mset (returned g) + mset (destroyed g)"
    using Cons.IH[OF 1(2,3) u(2)] unfolding conserves_def by auto
  have "mset (ptrs xs) + (mset (taken f) + mset (taken g)) =
      mset (ptrs zs) + (mset (returned f) + mset (returned g)) + (mset (destroyed f) + mset (destroyed g))"
    using 1(4) 2(4) by (metis (no_types) add.assoc add.left_commute)
  then show ?case
    using a 1(1) 2(1,3) by (auto intro!: conservesI[OF 2(2)])
qed

text \<open>Ownership. An array with a destructor that goes through any sequence of operations, with
  any allocation failures, and is then destroyed has called the destructor exactly once on every
  pointer it held or was successfully given, except those it handed back to the caller.\<close>

theorem ptrarray_ownership:
  assumes "da_inv PTR_SIZE arr" and "pa_destructor arr" and "\<forall>(ok, op1) \<in> set ops. in_use op1"
  shows "\<exists>f arr' l arr''. ptrarray_run ops arr = Some (f, arr') \<and>
     ptrarray_destroy arr' = Some (l, arr'') \<and> da_list arr'' = [] \<and>
     mset (ptrs (da_list arr)) + mset (taken f) = mset (returned f) + mset (destroyed f @ l)"
proof -
  have "da_rep PTR_SIZE arr (da_list arr)"
    using assms(1) by (simp add: da_inv_rep)
  from run_conserves[OF this assms(2,3)]
  obtain f arr' ys where r: "ptrarray_run ops arr = Some (f, arr')" "da_rep PTR_SIZE arr' ys"
      "pa_destructor arr'"
      "mset (ptrs (da_list arr)) + mset (taken f) = mset (ptrs ys) + mset (returned f) + mset (destroyed f)"
    unfolding conserves_def by auto
  have "ptrarray_destroy arr' =
      Some (ptrs ys, arr'\<lparr>da_data := [], da_count := 0, da_capacity := 0, pa_destructor := False\<rparr>)"
    using destroy_all_list[OF r(2)] r(3) by (simp add: ptrarray_destroy_def)
  moreover have "mset (ptrs (da_list arr)) + mset (taken f) =
      mset (returned f) + mset (destroyed f @ ptrs ys)"
    unfolding r(4) mset_append by (simp only: ac_simps)
  ultimately show ?thesis
    using r(1) by (intro exI conjI) (assumption | simp add: da_list_def)+
qed

definition sample_ptrs :: "nat ptrarray" where
  "sample_ptrs = \<lparr>da_data = [Some (Some 5), None], da_count = 1, da_capacity = 2, pa_destructor = True\<rparr>"

definition sample_ptr_ops :: "(alloc \<times> nat ptr_op) list" where
  "sample_ptr_ops = [(alloc_ok, PPush (Some 7)), (\<lambda>_. False, PPush (Some 8)), (alloc_ok, PSet 0 None),
                     (alloc_ok, PPop)]"

theorem ptrarray_ownership_witness:
  "\<exists>f arr' l arr''. ptrarray_run sample_ptr_ops sample_ptrs = Some (f, arr') \<and>
     ptrarray_destroy arr' = Some (l, arr'') \<and> da_list arr'' = [] \<and>
     mset (ptrs [Some 5]) + mset (taken f) = mset (returned f) + mset (destroyed f @ l)"
proof -
  have "da_inv PTR_SIZE sample_ptrs" "pa_destructor sample_ptrs" "da_list sample_ptrs = [Some 5]"
    by (auto simp: sample_ptrs_def da_inv_def elem_size_def DARRAY_DEFAULT_CAPACITY_def PTR_SIZE_def
        PTRDIFF_MAX_def da_list_def)
  moreover have "\<forall>(ok, op1) \<in> set sample_ptr_ops. in_use op1"
    by (simp add: sample_ptr_ops_def)
  ultimately show ?thesis
    using ptrarray_ownership[of sample_ptrs sample_ptr_ops] by simp
qed

lemma take_Suc_replicate: "take (Suc 0) ((replicate 8 None)[0 := Some p]) = [Some p]"
  by (simp add: numeral_eq_Suc)

text \<open>The push of a \<^verbatim>\<open>StringArray\<close> doubles a capacity of 0 to 0: after a destroy, a push whose
  empty reallocation succeeds writes outside the buffer, where that of the generated arrays
  grows to the default capacity and stores the pointer.\<close>

theorem string_array_push_after_destroy:
  "\<exists>l a. StringArray_destroy (\<lparr>da_data = [], da_count = 0, da_capacity = 0, pa_destructor = own\<rparr>) = Some (l, a) \<and>
     StringArray_push alloc_ok a p = None \<and>
     (\<exists>a'. ptrarray_push alloc_ok a p = Some (0, a') \<and> da_list a' = [p])"
  by (simp add: take_Suc_replicate StringArray_destroy_def StringArray_push_def size_mul_def heap_cells_def
      write_cell_def ptrarray_push_def darray_push_def darray_room_def darray_grow_def Let_def
      DARRAY_DEFAULT_CAPACITY_def PTR_SIZE_def SIZE_MOD_def PTRDIFF_MAX_def da_list_def)

end
