(* ===== verification/Allowlist.thy ===== *)
theory Allowlist
  imports Darray Shell_Common
begin

text \<open>
  Model of \<^verbatim>\<open>lib/policy/allowlist.c\<close>: the regular-expression entries for file and network tools and
  the command-prefix entries for the shell tool, in two growing arrays. The POSIX regular
  expressions of libc are the argument \<open>re\<close>: a compiler that may reject a pattern, a matcher, and
  the size of an entry, which depends on libc's \<^verbatim>\<open>regex_t\<close>. \<open>al_abs\<close> reads an allowlist as the
  lists of patterns and prefixes that were added; the locale \<open>rule_store\<close> is what the approval
  gate relies on.

  An operation that fails in undefined behaviour is \<open>None\<close>, as in \<^verbatim>\<open>Darray\<close>.
\<close>

section \<open>State\<close>

record 'r regex_lib =
  regcomp :: "string \<Rightarrow> 'r option"
  regexec :: "'r \<Rightarrow> string \<Rightarrow> bool"
  sizeof_RegexEntry :: nat

record 'r RegexEntry =
  re_tool :: "string option"
  re_pattern :: "string option"
  re_compiled :: "'r option"
  re_valid :: bool

record ShellEntry =
  se_prefix :: "string list option"
  se_prefix_len :: int
  se_shell_type :: ShellType

definition sizeof_ShellEntry :: nat where
  "sizeof_ShellEntry = 16"

record 'r Allowlist =
  regex_entries :: "'r RegexEntry darray"
  shell_entries :: "ShellEntry darray"

datatype AllowlistMatchResult = ALLOWLIST_NO_MATCH | ALLOWLIST_MATCHED

section \<open>Operations\<close>

definition free_regex_entry :: "'r RegexEntry \<Rightarrow> 'r RegexEntry" where
  "free_regex_entry e = e\<lparr>re_tool := None, re_pattern := None, re_valid := False\<rparr>"

definition free_shell_entry :: "ShellEntry \<Rightarrow> ShellEntry" where
  "free_shell_entry e = e\<lparr>se_prefix := None, se_prefix_len := 0\<rparr>"

definition zeroed_array :: "'a darray" where
  "zeroed_array = \<lparr>da_data = [], da_count = 0, da_capacity = 0\<rparr>"

text \<open>Site 0 is the structure, 1 and 2 its arrays.\<close>

definition allowlist_create :: "alloc \<Rightarrow> 'r regex_lib \<Rightarrow> 'r Allowlist option" where
  "allowlist_create ok re =
     (if \<not> ok 0 then None
      else case darray_init (sizeof_RegexEntry re) (\<lambda>_. ok 1) zeroed_array of
        (rc, regex) \<Rightarrow>
          if rc \<noteq> 0 then None
          else case darray_init sizeof_ShellEntry (\<lambda>_. ok 2) zeroed_array of
            (rc, shell) \<Rightarrow>
              if rc \<noteq> 0 then None else Some \<lparr>regex_entries = regex, shell_entries = shell\<rparr>)"

text \<open>Sites 0 and 1 copy the tool and the pattern, 2 grows the array.\<close>

definition allowlist_add_regex ::
    "alloc \<Rightarrow> 'r regex_lib \<Rightarrow> 'r Allowlist option \<Rightarrow> string option \<Rightarrow> string option
     \<Rightarrow> (int \<times> 'r Allowlist option) option" where
  "allowlist_add_regex ok re al tool pattern =
     (case (al, tool, pattern) of
        (Some a, Some t, Some p) \<Rightarrow>
          if \<not> ok 0 then Some (-1, al)
          else if \<not> ok 1 then Some (-1, al)
          else (case regcomp re p of
                  None \<Rightarrow> Some (-1, al)
                | Some r \<Rightarrow>
                    map_option
                      (\<lambda>(rc, arr). (if rc \<noteq> 0 then -1 else 0, Some (a\<lparr>regex_entries := arr\<rparr>)))
                      (darray_push (sizeof_RegexEntry re) (\<lambda>_. ok 2) (regex_entries a)
                         \<lparr>re_tool = Some t, re_pattern = Some p, re_compiled = Some r,
                          re_valid = True\<rparr>))
      | _ \<Rightarrow> Some (-1, al))"

text \<open>Site 0 is the prefix array, 1 the growth of the entry array, \<open>2 + i\<close> the copy of token \<open>i\<close>.
  The length that is passed is that of the array of tokens.\<close>

definition allowlist_add_shell ::
    "alloc \<Rightarrow> 'r Allowlist option \<Rightarrow> string list option \<Rightarrow> ShellType
     \<Rightarrow> (int \<times> 'r Allowlist option) option" where
  "allowlist_add_shell ok al pre stype =
     (case (al, pre) of
        (Some a, Some ts) \<Rightarrow>
          if int (length ts) \<le> 0 then Some (-1, al)
          else if \<not> ok 0 then Some (-1, al)
          else if \<exists>i \<in> set [0..<length ts]. \<not> ok (2 + i) then Some (-1, al)
          else
            map_option
              (\<lambda>(rc, arr). (if rc \<noteq> 0 then -1 else 0, Some (a\<lparr>shell_entries := arr\<rparr>)))
              (darray_push sizeof_ShellEntry (\<lambda>_. ok 1) (shell_entries a)
                 \<lparr>se_prefix = Some ts, se_prefix_len = int (length ts), se_shell_type = stype\<rparr>)
      | _ \<Rightarrow> Some (-1, al))"

fun check_regex_loop :: "'r regex_lib \<Rightarrow> string \<Rightarrow> string \<Rightarrow> 'r RegexEntry list \<Rightarrow> AllowlistMatchResult" where
  "check_regex_loop re tool target [] = ALLOWLIST_NO_MATCH"
| "check_regex_loop re tool target (e # es) =
     (if \<not> re_valid e then check_regex_loop re tool target es
      else if re_tool e \<noteq> Some tool then check_regex_loop re tool target es
      else if (case re_compiled e of Some r \<Rightarrow> regexec re r target | None \<Rightarrow> False)
      then ALLOWLIST_MATCHED
      else check_regex_loop re tool target es)"

definition allowlist_check_regex ::
    "'r regex_lib \<Rightarrow> 'r Allowlist option \<Rightarrow> string option \<Rightarrow> string option \<Rightarrow> AllowlistMatchResult" where
  "allowlist_check_regex re al tool target =
     (case (al, tool, target) of
        (Some a, Some t, Some s) \<Rightarrow> check_regex_loop re t s (da_list (regex_entries a))
      | _ \<Rightarrow> ALLOWLIST_NO_MATCH)"

text \<open>The comparison of the first \<open>prefix_len\<close> tokens.\<close>

fun tokens_match :: "string list \<Rightarrow> string list \<Rightarrow> bool" where
  "tokens_match toks [] = True"
| "tokens_match [] (p # ps) = False"
| "tokens_match (t # ts) (p # ps) = (if t \<noteq> p then False else tokens_match ts ps)"

fun check_shell_loop :: "string list \<Rightarrow> ShellType \<Rightarrow> ShellEntry list \<Rightarrow> AllowlistMatchResult" where
  "check_shell_loop toks stype [] = ALLOWLIST_NO_MATCH"
| "check_shell_loop toks stype (e # es) =
     (if se_shell_type e \<noteq> SHELL_TYPE_UNKNOWN \<and> se_shell_type e \<noteq> stype
      then check_shell_loop toks stype es
      else if int (length toks) < se_prefix_len e then check_shell_loop toks stype es
      else if tokens_match toks (case se_prefix e of None \<Rightarrow> [] | Some p \<Rightarrow> p) then ALLOWLIST_MATCHED
      else check_shell_loop toks stype es)"

definition allowlist_check_shell ::
    "'r Allowlist option \<Rightarrow> string list option \<Rightarrow> ShellType \<Rightarrow> AllowlistMatchResult" where
  "allowlist_check_shell al toks stype =
     (case (al, toks) of
        (Some a, Some ts) \<Rightarrow>
          if int (length ts) \<le> 0 then ALLOWLIST_NO_MATCH
          else check_shell_loop ts stype (da_list (shell_entries a))
      | _ \<Rightarrow> ALLOWLIST_NO_MATCH)"

definition allowlist_regex_count :: "'r Allowlist option \<Rightarrow> int" where
  "allowlist_regex_count al =
     (case al of None \<Rightarrow> 0 | Some a \<Rightarrow> wrap32 (int (da_count (regex_entries a))))"

definition allowlist_shell_count :: "'r Allowlist option \<Rightarrow> int" where
  "allowlist_shell_count al =
     (case al of None \<Rightarrow> 0 | Some a \<Rightarrow> wrap32 (int (da_count (shell_entries a))))"

text \<open>The loop that drops entries from the end; below 0 the \<^verbatim>\<open>size_t\<close> count wraps and the entry it
  frees lies outside the buffer.\<close>

function clear_loop :: "('a \<Rightarrow> 'a) \<Rightarrow> int \<Rightarrow> 'a darray \<Rightarrow> 'a darray option" where
  "clear_loop free_entry keep arr =
     (if wrap32 (int (da_count arr)) > keep
      then if da_count arr = 0 then None
           else let n = da_count arr - 1
                in case read_cell (da_data arr) n of
                     None \<Rightarrow> None
                   | Some e \<Rightarrow>
                       clear_loop free_entry keep
                         (arr\<lparr>da_count := n, da_data := (da_data arr)[n := Some (free_entry e)]\<rparr>)
      else Some arr)"
  by pat_completeness auto
termination
  by (relation "measure (\<lambda>(f, k, arr). da_count arr)") auto

declare clear_loop.simps [simp del]

definition allowlist_clear_session ::
    "'r Allowlist option \<Rightarrow> int \<Rightarrow> int \<Rightarrow> 'r Allowlist option option" where
  "allowlist_clear_session al keep_regex keep_shell =
     (case al of
        None \<Rightarrow> Some None
      | Some a \<Rightarrow>
          (case clear_loop free_regex_entry keep_regex (regex_entries a) of
             None \<Rightarrow> None
           | Some r \<Rightarrow>
               map_option (\<lambda>s. Some (a\<lparr>regex_entries := r, shell_entries := s\<rparr>))
                 (clear_loop free_shell_entry keep_shell (shell_entries a))))"


section \<open>Invariant and abstraction\<close>

definition regex_entry_ok :: "'r regex_lib \<Rightarrow> 'r RegexEntry \<Rightarrow> bool" where
  "regex_entry_ok re e \<longleftrightarrow>
     re_valid e \<and> re_tool e \<noteq> None \<and>
     (case re_pattern e of None \<Rightarrow> False | Some p \<Rightarrow> re_compiled e \<noteq> None \<and> regcomp re p = re_compiled e)"

definition shell_entry_ok :: "ShellEntry \<Rightarrow> bool" where
  "shell_entry_ok e \<longleftrightarrow>
     (case se_prefix e of None \<Rightarrow> False | Some p \<Rightarrow> p \<noteq> [] \<and> se_prefix_len e = int (length p))"

definition al_inv :: "'r regex_lib \<Rightarrow> 'r Allowlist \<Rightarrow> bool" where
  "al_inv re a \<longleftrightarrow>
     da_inv (sizeof_RegexEntry re) (regex_entries a) \<and> da_inv sizeof_ShellEntry (shell_entries a) \<and>
     list_all (regex_entry_ok re) (da_list (regex_entries a)) \<and>
     list_all shell_entry_ok (da_list (shell_entries a))"

definition regex_rules :: "'r Allowlist \<Rightarrow> (string \<times> string) list" where
  "regex_rules a = map (\<lambda>e. (the (re_tool e), the (re_pattern e))) (da_list (regex_entries a))"

definition shell_rules :: "'r Allowlist \<Rightarrow> (string list \<times> ShellType) list" where
  "shell_rules a = map (\<lambda>e. (the (se_prefix e), se_shell_type e)) (da_list (shell_entries a))"

text \<open>What a list of rules allows.\<close>

definition regex_allows :: "'r regex_lib \<Rightarrow> (string \<times> string) list \<Rightarrow> string \<Rightarrow> string \<Rightarrow> bool" where
  "regex_allows re rules tool target \<longleftrightarrow>
     (\<exists>(t, p) \<in> set rules. t = tool \<and> (case regcomp re p of None \<Rightarrow> False | Some r \<Rightarrow> regexec re r target))"

definition shell_allows :: "(string list \<times> ShellType) list \<Rightarrow> string list \<Rightarrow> ShellType \<Rightarrow> bool" where
  "shell_allows rules toks stype \<longleftrightarrow>
     (\<exists>(p, t) \<in> set rules. (t = SHELL_TYPE_UNKNOWN \<or> t = stype) \<and> prefix p toks)"

definition match_of :: "bool \<Rightarrow> AllowlistMatchResult" where
  "match_of b = (if b then ALLOWLIST_MATCHED else ALLOWLIST_NO_MATCH)"

lemma match_of_inject [simp]: "match_of b = match_of c \<longleftrightarrow> b = c"
  and match_of_MATCHED [simp]: "match_of b = ALLOWLIST_MATCHED \<longleftrightarrow> b"
  by (auto simp: match_of_def)

section \<open>Lookup\<close>

lemma tokens_match_prefix: "tokens_match toks p \<longleftrightarrow> prefix p toks"
  by (induction toks p rule: tokens_match.induct) auto

lemma check_regex_loop_allows:
  assumes "list_all (regex_entry_ok re) es"
  shows "check_regex_loop re tool target es =
    match_of (regex_allows re (map (\<lambda>e. (the (re_tool e), the (re_pattern e))) es) tool target)"
  using assms
  by (induction es) (auto simp: regex_allows_def match_of_def regex_entry_ok_def split: option.splits)

lemma check_shell_loop_allows:
  assumes "list_all shell_entry_ok es"
  shows "check_shell_loop toks stype es =
    match_of (shell_allows (map (\<lambda>e. (the (se_prefix e), se_shell_type e)) es) toks stype)"
  using assms
proof (induction es)
  case (Cons e es)
  obtain p where p: "se_prefix e = Some p" "se_prefix_len e = int (length p)"
    using Cons.prems by (auto simp: shell_entry_ok_def split: option.splits)
  then have "prefix p toks \<Longrightarrow> \<not> length toks < length p"
    using prefix_length_le[of p toks] by simp
  then show ?case
    using Cons p by (auto simp: shell_allows_def match_of_def tokens_match_prefix)
qed (simp add: shell_allows_def match_of_def)

lemma check_regex_rules:
  "al_inv re a \<Longrightarrow>
     allowlist_check_regex re (Some a) (Some tool) (Some target) =
       match_of (regex_allows re (regex_rules a) tool target)"
  by (simp add: allowlist_check_regex_def check_regex_loop_allows al_inv_def regex_rules_def)

lemma shell_rules_nonempty: "al_inv re a \<Longrightarrow> (p, t) \<in> set (shell_rules a) \<Longrightarrow> p \<noteq> []"
  by (auto simp: al_inv_def shell_rules_def list_all_iff shell_entry_ok_def split: option.splits)

lemma check_shell_rules:
  assumes "al_inv re a"
  shows "allowlist_check_shell (Some a) (Some toks) stype =
    match_of (shell_allows (shell_rules a) toks stype)"
proof (cases "toks = []")
  case True
  then show ?thesis
    using shell_rules_nonempty[OF assms]
    by (auto simp: allowlist_check_shell_def shell_allows_def match_of_def)
next
  case False
  then show ?thesis
    using assms check_shell_loop_allows[of "da_list (shell_entries a)" toks stype]
    by (simp add: allowlist_check_shell_def al_inv_def shell_rules_def)
qed

section \<open>Additions\<close>

lemma add_regex_rules:
  assumes "al_inv re a"
  shows "\<exists>rc a'. allowlist_add_regex ok re (Some a) (Some t) (Some p) = Some (rc, Some a') \<and>
    al_inv re a' \<and> shell_rules a' = shell_rules a \<and>
    (rc = 0 \<and> regcomp re p \<noteq> None \<and> regex_rules a' = regex_rules a @ [(t, p)] \<or>
     rc = -1 \<and> regex_rules a' = regex_rules a)"
proof (cases "ok 0 \<and> ok 1 \<and> regcomp re p \<noteq> None")
  case True
  then obtain r where r: "regcomp re p = Some r" by auto
  let ?e = "\<lparr>re_tool = Some t, re_pattern = Some p, re_compiled = Some r, re_valid = True\<rparr>"
  have inv: "da_inv (sizeof_RegexEntry re) (regex_entries a)"
    using assms by (simp add: al_inv_def)
  obtain rc arr where push: "darray_push (sizeof_RegexEntry re) (\<lambda>_. ok 2) (regex_entries a) ?e = Some (rc, arr)"
    and arr: "da_inv (sizeof_RegexEntry re) arr"
      "rc = 0 \<and> da_list arr = da_list (regex_entries a) @ [?e] \<or>
       rc = -1 \<and> da_list arr = da_list (regex_entries a)"
    using da.push_law[OF inv] by blast
  have "al_inv re (a\<lparr>regex_entries := arr\<rparr>)"
    using assms arr r by (auto simp: al_inv_def regex_entry_ok_def)
  with True r push arr show ?thesis
    by (auto simp: allowlist_add_regex_def regex_rules_def shell_rules_def)
next
  case False
  then have "allowlist_add_regex ok re (Some a) (Some t) (Some p) = Some (-1, Some a)"
    by (auto simp: allowlist_add_regex_def split: option.split)
  with assms show ?thesis by auto
qed

lemma add_shell_rules:
  assumes "al_inv re a"
  shows "\<exists>rc a'. allowlist_add_shell ok (Some a) (Some ts) st = Some (rc, Some a') \<and>
    al_inv re a' \<and> regex_rules a' = regex_rules a \<and>
    (rc = 0 \<and> ts \<noteq> [] \<and> shell_rules a' = shell_rules a @ [(ts, st)] \<or>
     rc = -1 \<and> shell_rules a' = shell_rules a)"
proof (cases "ts \<noteq> [] \<and> ok 0 \<and> (\<forall>i \<in> set [0..<length ts]. ok (2 + i))")
  case True
  let ?e = "\<lparr>se_prefix = Some ts, se_prefix_len = int (length ts), se_shell_type = st\<rparr>"
  have inv: "da_inv sizeof_ShellEntry (shell_entries a)"
    using assms by (simp add: al_inv_def)
  obtain rc arr where push: "darray_push sizeof_ShellEntry (\<lambda>_. ok 1) (shell_entries a) ?e = Some (rc, arr)"
    and arr: "da_inv sizeof_ShellEntry arr"
      "rc = 0 \<and> da_list arr = da_list (shell_entries a) @ [?e] \<or>
       rc = -1 \<and> da_list arr = da_list (shell_entries a)"
    using da.push_law[OF inv] by blast
  have "al_inv re (a\<lparr>shell_entries := arr\<rparr>)"
    using assms arr True by (auto simp: al_inv_def shell_entry_ok_def)
  with True push arr show ?thesis
    by (auto simp: allowlist_add_shell_def regex_rules_def shell_rules_def)
next
  case False
  then have "allowlist_add_shell ok (Some a) (Some ts) st = Some (-1, Some a)"
    by (auto simp: allowlist_add_shell_def)
  with assms show ?thesis by auto
qed

section \<open>Dropping the additions of a session\<close>

lemma clear_loop_list:
  assumes "da_rep sz arr xs" and "0 \<le> keep" and "int (length xs) \<le> INT_MAX"
  shows "\<exists>arr'. clear_loop f keep arr = Some arr' \<and> da_rep sz arr' (take (nat keep) xs)"
  using assms
proof (induction "length xs" arbitrary: arr xs)
  case 0
  then show ?case
    using da_repD(3)[OF "0.prems"(1)] by (subst clear_loop.simps) auto
next
  case (Suc n)
  have n: "da_count arr = Suc n"
    using Suc.hyps(2) da_repD(3)[OF Suc.prems(1)] by simp
  show ?case
  proof (cases "int (Suc n) > keep")
    case True
    define arr1 where "arr1 = arr\<lparr>da_count := n, da_data := (da_data arr)[n := Some (f (xs ! n))]\<rparr>"
    have rd: "read_cell (da_data arr) n = Some (xs ! n)"
      using da_rep_read[OF Suc.prems(1)] Suc.hyps(2) by simp
    obtain r where d: "da_data arr = map Some xs @ r" "length xs + length r = da_capacity arr"
      using Suc.prems(1) by (auto simp: da_rep_def)
    have "(da_data arr)[n := Some (f (xs ! n))] = map Some (take n xs) @ Some (f (xs ! n)) # r"
      using Suc.hyps(2) d(1)
      by (cases xs rule: rev_cases) (auto simp: list_update_append)
    then have rep: "da_rep sz arr1 (take n xs)"
      using Suc.prems(1) Suc.hyps(2) d(2) by (auto simp: da_rep_def arr1_def)
    have "n = length (take n xs)" and "int (length (take n xs)) \<le> INT_MAX"
      using Suc.hyps(2) Suc.prems(3) by auto
    then obtain arr' where a: "clear_loop f keep arr1 = Some arr'"
        "da_rep sz arr' (take (nat keep) (take n xs))"
      using Suc.hyps(1)[OF _ rep Suc.prems(2)] by blast
    have "clear_loop f keep arr = clear_loop f keep arr1"
      using True n rd Suc.prems(3) Suc.hyps(2)[symmetric]
      by (subst clear_loop.simps) (simp add: arr1_def wrap32_def)
    moreover have "take (nat keep) (take n xs) = take (nat keep) xs"
      using True Suc.prems(2) by (simp add: min_def)
    ultimately show ?thesis
      using a by simp
  next
    case False
    then have "clear_loop f keep arr = Some arr"
      using n Suc.prems(3) Suc.hyps(2)[symmetric]
      by (subst clear_loop.simps) (simp add: wrap32_def)
    moreover have "take (nat keep) xs = xs"
      using False Suc.hyps(2) by simp
    ultimately show ?thesis
      using Suc.prems(1) by simp
  qed
qed

definition al_small :: "'r Allowlist \<Rightarrow> bool" where
  "al_small a \<longleftrightarrow>
     int (length (regex_rules a)) \<le> INT_MAX \<and> int (length (shell_rules a)) \<le> INT_MAX"

lemma clear_session_rules:
  assumes "al_inv re a" and "al_small a" and "0 \<le> kr" and "0 \<le> ks"
  shows "\<exists>a'. allowlist_clear_session (Some a) kr ks = Some (Some a') \<and> al_inv re a' \<and>
    regex_rules a' = take (nat kr) (regex_rules a) \<and> shell_rules a' = take (nat ks) (shell_rules a)"
proof -
  have rep: "da_rep (sizeof_RegexEntry re) (regex_entries a) (da_list (regex_entries a))"
      "da_rep sizeof_ShellEntry (shell_entries a) (da_list (shell_entries a))"
    using assms(1) by (simp_all add: al_inv_def da_inv_rep)
  have small: "int (length (da_list (regex_entries a))) \<le> INT_MAX"
      "int (length (da_list (shell_entries a))) \<le> INT_MAX"
    using assms(2) by (simp_all add: al_small_def regex_rules_def shell_rules_def)
  obtain r where r: "clear_loop free_regex_entry kr (regex_entries a) = Some r"
      "da_rep (sizeof_RegexEntry re) r (take (nat kr) (da_list (regex_entries a)))"
    using clear_loop_list[OF rep(1) assms(3) small(1)] by blast
  obtain s where s: "clear_loop free_shell_entry ks (shell_entries a) = Some s"
      "da_rep sizeof_ShellEntry s (take (nat ks) (da_list (shell_entries a)))"
    using clear_loop_list[OF rep(2) assms(4) small(2)] by blast
  have "al_inv re (a\<lparr>regex_entries := r, shell_entries := s\<rparr>)"
    using assms(1) r(2) s(2)
    by (auto simp: al_inv_def da_rep_iff list_all_iff dest!: in_set_takeD)
  with r s show ?thesis
    by (auto simp: allowlist_clear_session_def regex_rules_def shell_rules_def da_rep_iff take_map)
qed

lemma count_rules:
  assumes "al_inv re a" and "al_small a"
  shows "allowlist_regex_count (Some a) = int (length (regex_rules a))"
    and "allowlist_shell_count (Some a) = int (length (shell_rules a))"
  using assms
  by (auto simp: allowlist_regex_count_def allowlist_shell_count_def al_inv_def al_small_def
      regex_rules_def shell_rules_def da_inv_list_length wrap32_def)

lemma create_rules:
  assumes "elem_size (sizeof_RegexEntry re)" and "allowlist_create ok re = Some a"
  shows "al_inv re a" and "regex_rules a = []" and "shell_rules a = []"
proof -
  have e: "elem_size sizeof_ShellEntry"
    by (simp add: elem_size_def sizeof_ShellEntry_def DARRAY_DEFAULT_CAPACITY_def PTRDIFF_MAX_def)
  have "da_rep (sizeof_RegexEntry re) (regex_entries a) [] \<and>
      da_rep sizeof_ShellEntry (shell_entries a) []"
    using assms(2) darray_init_list[OF assms(1)] darray_init_list[OF e]
    unfolding allowlist_create_def by (auto split: if_splits prod.splits)
  then show "al_inv re a" and "regex_rules a = []" and "shell_rules a = []"
    by (auto simp: da_rep_iff al_inv_def regex_rules_def shell_rules_def)
qed


section \<open>The contract of an allowlist\<close>

text \<open>A store of rules of two kinds: adding a rule appends it or, when it fails, changes nothing;
  truncation keeps the oldest rules; a check finds exactly what the rules allow.\<close>

locale rule_store =
  fixes inv :: "'s \<Rightarrow> bool" and small :: "'s \<Rightarrow> bool"
    and xs :: "'s \<Rightarrow> 'x list" and ys :: "'s \<Rightarrow> 'y list"
    and add :: "alloc \<Rightarrow> 's \<Rightarrow> 'x + 'y \<Rightarrow> (int \<times> 's) option"
    and keep :: "'s \<Rightarrow> int \<Rightarrow> int \<Rightarrow> 's option"
    and check :: "'s \<Rightarrow> 'q \<Rightarrow> AllowlistMatchResult"
    and allows :: "'x list \<Rightarrow> 'y list \<Rightarrow> 'q \<Rightarrow> bool"
  assumes add_law: "inv s \<Longrightarrow> \<exists>rc s'. add ok s r = Some (rc, s') \<and> inv s' \<and>
      (rc = 0 \<and> xs s' = xs s @ (case r of Inl x \<Rightarrow> [x] | Inr y \<Rightarrow> []) \<and>
                ys s' = ys s @ (case r of Inl x \<Rightarrow> [] | Inr y \<Rightarrow> [y]) \<or>
       rc = -1 \<and> xs s' = xs s \<and> ys s' = ys s)"
    and keep_law: "inv s \<Longrightarrow> small s \<Longrightarrow> 0 \<le> n \<Longrightarrow> 0 \<le> m \<Longrightarrow> \<exists>s'. keep s n m = Some s' \<and> inv s' \<and>
      xs s' = take (nat n) (xs s) \<and> ys s' = take (nat m) (ys s)"
    and check_law: "inv s \<Longrightarrow> check s q = match_of (allows (xs s) (ys s) q)"
    and allows_mono: "allows as bs q \<Longrightarrow> allows (as @ as') (bs @ bs') q"
begin

lemma add_extends:
  assumes "inv s"
  obtains rc s' us vs where "add ok s r = Some (rc, s')" "inv s'" "xs s' = xs s @ us" "ys s' = ys s @ vs"
  using add_law[OF assms, of ok r] by (metis append_Nil2)

lemma adds_extends:
  assumes "inv s"
  shows "\<exists>s'. opt_fold (\<lambda>(ok, r) s. map_option snd (add ok s r)) rs s = Some s' \<and>
     (inv s' \<and> (\<exists>us vs. xs s' = xs s @ us \<and> ys s' = ys s @ vs))"
proof (rule opt_fold_invariant)
  fix a t
  assume t: "inv t \<and> (\<exists>us vs. xs t = xs s @ us \<and> ys t = ys s @ vs)"
  then have "inv t" by simp
  then obtain rc t' us vs where "add (fst a) t (snd a) = Some (rc, t')" "inv t'" "xs t' = xs t @ us"
      "ys t' = ys t @ vs"
    using add_extends by blast
  with t show "\<exists>s'. (case a of (ok, r) \<Rightarrow> \<lambda>s. map_option snd (add ok s r)) t = Some s' \<and>
      (inv s' \<and> (\<exists>us vs. xs s' = xs s @ us \<and> ys s' = ys s @ vs))"
    by (cases a) auto
qed (use assms in simp)

text \<open>A match is never lost by adding rules, and dropping the rules added since restores every
  answer.\<close>

lemma adds_keep_matches:
  assumes "inv s" and "opt_fold (\<lambda>(ok, r) s. map_option snd (add ok s r)) rs s = Some s'" and "check s q = ALLOWLIST_MATCHED"
  shows "check s' q = ALLOWLIST_MATCHED"
  using adds_extends[OF assms(1), of rs] assms allows_mono by (auto simp: check_law)

lemma truncate_restores:
  assumes "inv s" and "opt_fold (\<lambda>(ok, r) s. map_option snd (add ok s r)) rs s = Some s'" and "small s'"
  shows "\<exists>s''. keep s' (int (length (xs s))) (int (length (ys s))) = Some s'' \<and> inv s'' \<and>
    (\<forall>q. check s'' q = check s q)"
  using adds_extends[OF assms(1), of rs] assms
    keep_law[of s' "int (length (xs s))" "int (length (ys s))"]
  by (auto simp: check_law)

end

text \<open>The operations of an allowlist that is not \<^verbatim>\<open>NULL\<close>, in the shape of the contract.\<close>

fun al_add :: "'r regex_lib \<Rightarrow> alloc \<Rightarrow> 'r Allowlist
    \<Rightarrow> (string \<times> string) + (string list \<times> ShellType) \<Rightarrow> (int \<times> 'r Allowlist) option" where
  "al_add re ok a (Inl (t, p)) =
     map_option (\<lambda>(rc, a'). (rc, the a')) (allowlist_add_regex ok re (Some a) (Some t) (Some p))"
| "al_add re ok a (Inr (ts, st)) =
     map_option (\<lambda>(rc, a'). (rc, the a')) (allowlist_add_shell ok (Some a) (Some ts) st)"

definition al_keep :: "'r Allowlist \<Rightarrow> int \<Rightarrow> int \<Rightarrow> 'r Allowlist option" where
  "al_keep a kr ks = map_option the (allowlist_clear_session (Some a) kr ks)"

fun al_check :: "'r regex_lib \<Rightarrow> 'r Allowlist
    \<Rightarrow> (string \<times> string) + (string list \<times> ShellType) \<Rightarrow> AllowlistMatchResult" where
  "al_check re a (Inl (tool, target)) = allowlist_check_regex re (Some a) (Some tool) (Some target)"
| "al_check re a (Inr (toks, st)) = allowlist_check_shell (Some a) (Some toks) st"

fun al_allows :: "'r regex_lib \<Rightarrow> (string \<times> string) list \<Rightarrow> (string list \<times> ShellType) list
    \<Rightarrow> (string \<times> string) + (string list \<times> ShellType) \<Rightarrow> bool" where
  "al_allows re rs ss (Inl (tool, target)) = regex_allows re rs tool target"
| "al_allows re rs ss (Inr (toks, st)) = shell_allows ss toks st"

lemma allows_append [simp]:
  "regex_allows re (rs @ rs') tool target \<longleftrightarrow> regex_allows re rs tool target \<or> regex_allows re rs' tool target"
  "shell_allows (ss @ ss') toks st \<longleftrightarrow> shell_allows ss toks st \<or> shell_allows ss' toks st"
  by (auto simp: regex_allows_def shell_allows_def)

interpretation al: rule_store "al_inv re" al_small regex_rules shell_rules "al_add re" al_keep
    "al_check re" "al_allows re" for re
proof unfold_locales
  fix s :: "'a Allowlist" and ok and r :: "(string \<times> string) + (string list \<times> ShellType)"
  assume "al_inv re s"
  note laws = add_regex_rules[OF this] add_shell_rules[OF this]
  show "\<exists>rc s'. al_add re ok s r = Some (rc, s') \<and> al_inv re s' \<and>
      (rc = 0 \<and> regex_rules s' = regex_rules s @ (case r of Inl x \<Rightarrow> [x] | Inr y \<Rightarrow> []) \<and>
       shell_rules s' = shell_rules s @ (case r of Inl x \<Rightarrow> [] | Inr y \<Rightarrow> [y]) \<or>
       rc = -1 \<and> regex_rules s' = regex_rules s \<and> shell_rules s' = shell_rules s)"
  proof (cases r)
    case (Inl x)
    then show ?thesis
      using laws(1)[of ok "fst x" "snd x"] by (cases x) auto
  next
    case (Inr y)
    then show ?thesis
      using laws(2)[of ok "fst y" "snd y"] by (cases y) auto
  qed
next
  fix s :: "'a Allowlist" and n m :: int
  assume "al_inv re s" "al_small s" "0 \<le> n" "0 \<le> m"
  from clear_session_rules[OF this]
  show "\<exists>s'. al_keep s n m = Some s' \<and> al_inv re s' \<and> regex_rules s' = take (nat n) (regex_rules s) \<and>
      shell_rules s' = take (nat m) (shell_rules s)"
    by (auto simp: al_keep_def)
next
  fix s :: "'a Allowlist" and q
  assume "al_inv re s"
  then show "al_check re s q = match_of (al_allows re (regex_rules s) (shell_rules s) q)"
    by (cases q) (auto simp: check_regex_rules check_shell_rules)
next
  fix as bs q as' bs'
  assume "al_allows re as bs q"
  then show "al_allows re (as @ as') (bs @ bs') q"
    by (cases q) auto
qed

definition al_adds :: "'r regex_lib \<Rightarrow> (alloc \<times> ((string \<times> string) + (string list \<times> ShellType))) list
    \<Rightarrow> 'r Allowlist \<Rightarrow> 'r Allowlist option" where
  "al_adds re rs a = opt_fold (\<lambda>(ok, r) a. map_option snd (al_add re ok a r)) rs a"

section \<open>Properties\<close>

text \<open>What an allowlist matches. A tool call matches exactly when some pattern that was added
  for the same tool, and that libc accepts, matches the target; a command matches exactly when its
  tokens begin with a prefix that was added for its shell or for any shell. A rule is added when
  the operation returns 0, and then it takes effect at once and no other answer is lost; an
  addition that fails changes no answer.\<close>

theorem allowlist_check_correct:
  assumes "al_inv re a"
  shows "allowlist_check_regex re (Some a) (Some tool) (Some target) =
           match_of (regex_allows re (regex_rules a) tool target) \<and>
         allowlist_check_shell (Some a) (Some toks) stype =
           match_of (shell_allows (shell_rules a) toks stype) \<and>
         (\<exists>rc a'. al_add re ok a r = Some (rc, a') \<and> al_inv re a' \<and>
           (\<forall>q. al_check re a' q = match_of (al_check re a q = ALLOWLIST_MATCHED \<or>
              rc = 0 \<and> (case r of Inl x \<Rightarrow> al_allows re [x] [] q | Inr y \<Rightarrow> al_allows re [] [y] q))))"
proof (intro conjI)
  show "allowlist_check_regex re (Some a) (Some tool) (Some target) =
           match_of (regex_allows re (regex_rules a) tool target)"
    using assms by (rule check_regex_rules)
  show "allowlist_check_shell (Some a) (Some toks) stype =
           match_of (shell_allows (shell_rules a) toks stype)"
    using assms by (rule check_shell_rules)
  obtain rc a' where a: "al_add re ok a r = Some (rc, a')" "al_inv re a'"
    and c: "rc = 0 \<and> regex_rules a' = regex_rules a @ (case r of Inl x \<Rightarrow> [x] | Inr y \<Rightarrow> []) \<and>
        shell_rules a' = shell_rules a @ (case r of Inl x \<Rightarrow> [] | Inr y \<Rightarrow> [y]) \<or>
        rc = -1 \<and> regex_rules a' = regex_rules a \<and> shell_rules a' = shell_rules a"
    using al.add_law[OF assms, of ok r] by blast
  have "al_check re a' q = match_of (al_check re a q = ALLOWLIST_MATCHED \<or>
      rc = 0 \<and> (case r of Inl x \<Rightarrow> al_allows re [x] [] q | Inr y \<Rightarrow> al_allows re [] [y] q))" for q
    using c al.check_law[OF a(2), of q] al.check_law[OF assms, of q]
    by (cases q; cases r) (auto simp: regex_allows_def shell_allows_def)
  with a show "\<exists>rc a'. al_add re ok a r = Some (rc, a') \<and> al_inv re a' \<and>
           (\<forall>q. al_check re a' q = match_of (al_check re a q = ALLOWLIST_MATCHED \<or>
              rc = 0 \<and> (case r of Inl x \<Rightarrow> al_allows re [x] [] q | Inr y \<Rightarrow> al_allows re [] [y] q)))"
    by blast
qed

text \<open>A regular-expression library that compiles everything but the empty pattern and looks for the
  pattern as a substring.\<close>

definition substring_regex :: "string regex_lib" where
  "substring_regex = \<lparr>regcomp = (\<lambda>p. if p = [] then None else Some p), regexec = (\<lambda>r s. strstr s r),
                      sizeof_RegexEntry = 88\<rparr>"

definition empty_allowlist :: "string Allowlist" where
  "empty_allowlist = \<lparr>regex_entries = \<lparr>da_data = [None], da_count = 0, da_capacity = 1\<rparr>,
                      shell_entries = \<lparr>da_data = [None], da_count = 0, da_capacity = 1\<rparr>\<rparr>"

lemma empty_allowlist_inv: "al_inv substring_regex empty_allowlist"
  and empty_allowlist_rules: "regex_rules empty_allowlist = []" "shell_rules empty_allowlist = []"
  by (simp_all add: empty_allowlist_def substring_regex_def al_inv_def da_inv_def elem_size_def
      sizeof_ShellEntry_def DARRAY_DEFAULT_CAPACITY_def PTRDIFF_MAX_def da_list_def
      regex_rules_def shell_rules_def)

theorem allowlist_check_correct_witness:
  "allowlist_check_regex substring_regex (Some empty_allowlist) (Some ''read'') (Some ''/tmp'') =
     ALLOWLIST_NO_MATCH \<and>
   (\<exists>rc a'. al_add substring_regex alloc_ok empty_allowlist (Inr ([''ls''], SHELL_TYPE_POSIX)) = Some (rc, a') \<and>
      al_inv substring_regex a')"
proof -
  note c = allowlist_check_correct[OF empty_allowlist_inv, where tool = "''read''" and target = "''/tmp''"
      and ok = alloc_ok and r = "Inr ([''ls''], SHELL_TYPE_POSIX)" and toks = "[]" and stype = SHELL_TYPE_POSIX]
  have "match_of (regex_allows substring_regex (regex_rules empty_allowlist) ''read'' ''/tmp'') = ALLOWLIST_NO_MATCH"
    by (simp add: empty_allowlist_rules regex_allows_def match_of_def)
  with c show ?thesis by metis
qed

text \<open>Session approvals end with the session. After any sequence of additions, with any
  failures among them, everything that matched still matches; and clearing down to the counts from
  before restores every answer of the allowlist, for tools and for commands.\<close>

theorem clear_session_restores:
  assumes "al_inv re a" and "al_small a" and "al_adds re rs a = Some a'" and "al_small a'"
  shows "(\<forall>q. al_check re a q = ALLOWLIST_MATCHED \<longrightarrow> al_check re a' q = ALLOWLIST_MATCHED) \<and>
    (\<exists>a''. allowlist_clear_session (Some a') (allowlist_regex_count (Some a))
              (allowlist_shell_count (Some a)) = Some (Some a'') \<and>
           al_inv re a'' \<and> (\<forall>q. al_check re a'' q = al_check re a q))"
proof
  show "\<forall>q. al_check re a q = ALLOWLIST_MATCHED \<longrightarrow> al_check re a' q = ALLOWLIST_MATCHED"
    using al.adds_keep_matches[OF assms(1) assms(3)[unfolded al_adds_def]] by blast
  obtain a'' where k: "al_keep a' (int (length (regex_rules a))) (int (length (shell_rules a))) = Some a''"
    and c: "al_inv re a''" "\<forall>q. al_check re a'' q = al_check re a q"
    using al.truncate_restores[OF assms(1) assms(3)[unfolded al_adds_def] assms(4)] by blast
  have "allowlist_clear_session (Some a') n m = Some (Some b)" if "al_keep a' n m = Some b" for n m b
    using that by (auto simp: al_keep_def allowlist_clear_session_def split: option.splits)
  with k c show "\<exists>a''. allowlist_clear_session (Some a') (allowlist_regex_count (Some a))
              (allowlist_shell_count (Some a)) = Some (Some a'') \<and>
           al_inv re a'' \<and> (\<forall>q. al_check re a'' q = al_check re a q)"
    unfolding count_rules[OF assms(1,2)] by blast
qed

theorem clear_session_restores_witness:
  "\<exists>a' a''. al_adds substring_regex [(alloc_ok, Inl (''read'', ''tmp''))] empty_allowlist = Some a' \<and>
     al_check substring_regex a' (Inl (''read'', ''/tmp/x'')) = ALLOWLIST_MATCHED \<and>
     allowlist_clear_session (Some a') 0 0 = Some (Some a'') \<and>
     al_check substring_regex a'' (Inl (''read'', ''/tmp/x'')) = ALLOWLIST_NO_MATCH"
proof -
  let ?e = "\<lparr>re_tool = Some ''read'', re_pattern = Some ''tmp'', re_compiled = Some ''tmp'', re_valid = True\<rparr>"
  let ?a = "empty_allowlist\<lparr>regex_entries := \<lparr>da_data = [Some ?e], da_count = 1, da_capacity = 1\<rparr>\<rparr>"
  have add: "al_adds substring_regex [(alloc_ok, Inl (''read'', ''tmp''))] empty_allowlist = Some ?a"
    by (simp add: al_adds_def allowlist_add_regex_def substring_regex_def empty_allowlist_def
        darray_push_def darray_room_def write_cell_def)
  have small: "al_small empty_allowlist" "al_small ?a"
    by (simp_all add: al_small_def empty_allowlist_rules) (simp add: regex_rules_def shell_rules_def
        da_list_def empty_allowlist_def)
  have "allowlist_regex_count (Some empty_allowlist) = 0" "allowlist_shell_count (Some empty_allowlist) = 0"
    using count_rules[OF empty_allowlist_inv small(1)] by (simp_all add: empty_allowlist_rules)
  then obtain a'' where "allowlist_clear_session (Some ?a) 0 0 = Some (Some a'')"
      "\<forall>q. al_check substring_regex a'' q = al_check substring_regex empty_allowlist q"
    using clear_session_restores[OF empty_allowlist_inv small(1) add small(2)] by auto
  moreover have "al_check substring_regex empty_allowlist (Inl (''read'', ''/tmp/x'')) = ALLOWLIST_NO_MATCH"
    using check_regex_rules[OF empty_allowlist_inv] by (simp add: empty_allowlist_rules regex_allows_def match_of_def)
  moreover have "al_check substring_regex ?a (Inl (''read'', ''/tmp/x'')) = ALLOWLIST_MATCHED"
    by (simp add: allowlist_check_regex_def da_list_def substring_regex_def)
  ultimately show ?thesis
    using add by metis
qed

end
