(* ===== verification/Path_Normalize.thy ===== *)
theory Path_Normalize
  imports Prelude
begin

text \<open>
  Model of \<^verbatim>\<open>lib/policy/path_normalize.c\<close>: the canonical form of a path that the protected-file
  checks and the pattern generator compare. \<open>win\<close> is the build configuration: whether \<^verbatim>\<open>_WIN32\<close> is
  defined. Allocation sites: 0 the structure, 1 the copy of the path, 2 and 3 the buffers of the
  drive letter and of the network path on Windows.
\<close>

section \<open>Operations\<close>

abbreviation SLASH :: char where
  "SLASH \<equiv> CHR 0x2F"

abbreviation BACKSLASH :: char where
  "BACKSLASH \<equiv> CHR 0x5C"

abbreviation COLON :: char where
  "COLON \<equiv> CHR 0x3A"

record NormalizedPath =
  np_normalized :: string
  np_basename :: string
  np_is_absolute :: bool

definition isalpha :: "char \<Rightarrow> bool" where
  "isalpha c \<longleftrightarrow> (65 \<le> char_code c \<and> char_code c \<le> 90) \<or> (97 \<le> char_code c \<and> char_code c \<le> 122)"

text \<open>\<^verbatim>\<open>strrchr\<close>: the text before and after the last occurrence of a character.\<close>

fun strrchr_split :: "char \<Rightarrow> string \<Rightarrow> (string \<times> string) option" where
  "strrchr_split x [] = None"
| "strrchr_split x (c # cs) =
     (case strrchr_split x cs of
        Some (a, b) \<Rightarrow> Some (c # a, b)
      | None \<Rightarrow> if c = x then Some ([], cs) else None)"

text \<open>The Windows steps: separators and case, then the drive letter, then the network path.\<close>

definition win_chars :: "string \<Rightarrow> string" where
  "win_chars work = map tolower (map (\<lambda>c. if c = BACKSLASH then SLASH else c) work)"

definition win_drive :: "alloc \<Rightarrow> string \<Rightarrow> string option" where
  "win_drive ok work =
     (if isalpha (peek work) \<and> peek (drop 1 work) = COLON
      then if \<not> ok 2 then None
           else Some ([SLASH, peek work] @
                  (if peek (drop 2 work) \<noteq> SLASH then [SLASH] else []) @ drop 2 work)
      else Some work)"

definition win_unc :: "alloc \<Rightarrow> string \<Rightarrow> string option" where
  "win_unc ok work =
     (if peek work = SLASH \<and> peek (drop 1 work) = SLASH
      then if \<not> ok 3 then None else Some (''/unc'' @ drop 1 work)
      else Some work)"

function strip_trailing :: "string \<Rightarrow> string" where
  "strip_trailing work =
     (if length work > 1 \<and> last work = SLASH then strip_trailing (butlast work) else work)"
  by pat_completeness auto
termination
  by (relation "measure length") auto

declare strip_trailing.simps [simp del]

fun collapse :: "string \<Rightarrow> string" where
  "collapse [] = []"
| "collapse (c # cs) = (if c = SLASH \<and> peek cs = SLASH then collapse cs else c # collapse cs)"

definition path_basename :: "string \<Rightarrow> string" where
  "path_basename s = (case strrchr_split SLASH s of Some (_, b) \<Rightarrow> b | None \<Rightarrow> s)"

definition normalize_path :: "bool \<Rightarrow> alloc \<Rightarrow> string option \<Rightarrow> NormalizedPath option" where
  "normalize_path win ok path =
     (case path of
        None \<Rightarrow> None
      | Some p \<Rightarrow>
          if peek p = NUL then None
          else if \<not> ok 0 then None
          else if \<not> ok 1 then None
          else
            (case (if win then Option.bind (win_drive ok (win_chars p)) (win_unc ok) else Some p) of
               None \<Rightarrow> None
             | Some work \<Rightarrow>
                 let normalized = collapse (strip_trailing work)
                 in Some \<lparr>np_normalized = normalized, np_basename = path_basename normalized,
                          np_is_absolute = (peek work = SLASH)\<rparr>))"

text \<open>\<^verbatim>\<open>strcmp\<close>, of which only the sign is specified.\<close>

fun strcmp :: "string \<Rightarrow> string \<Rightarrow> int" where
  "strcmp [] [] = 0"
| "strcmp [] (b # bs) = -1"
| "strcmp (a # as) [] = 1"
| "strcmp (a # as) (b # bs) =
     (if char_code a < char_code b then -1 else if char_code a > char_code b then 1 else strcmp as bs)"

definition path_basename_cmp :: "bool \<Rightarrow> string option \<Rightarrow> string option \<Rightarrow> int" where
  "path_basename_cmp win a b =
     (case (a, b) of
        (Some x, Some y) \<Rightarrow> if win then strcmp (map tolower x) (map tolower y) else strcmp x y
      | (None, None) \<Rightarrow> 0
      | (Some _, None) \<Rightarrow> 1
      | (None, Some _) \<Rightarrow> -1)"

definition path_basename_has_prefix :: "bool \<Rightarrow> string option \<Rightarrow> string option \<Rightarrow> bool" where
  "path_basename_has_prefix win b pre =
     (case (b, pre) of
        (Some s, Some p) \<Rightarrow>
          if p = [] then True
          else if win then starts_with (map tolower p) (map tolower s)
          else starts_with p s
      | _ \<Rightarrow> False)"

section \<open>Lemmas\<close>

lemma char_code_inject [simp]: "char_code a = char_code b \<longleftrightarrow> a = b"
  by (simp add: char_code_def)

lemma strcmp_0 [c_str, simp]: "strcmp a b = 0 \<longleftrightarrow> a = b"
proof (induction a b rule: strcmp.induct)
  case (4 a as b bs)
  then show ?case
    using char_code_inject[of a b] by (auto simp del: char_code_inject)
qed auto

lemma strrchr_split_None: "strrchr_split x s = None \<longleftrightarrow> x \<notin> set s"
  by (induction s) (auto split: option.split)

lemma strrchr_split_Some:
  "strrchr_split x s = Some (a, b) \<longleftrightarrow> s = a @ x # b \<and> x \<notin> set b"
proof (induction s arbitrary: a)
  case (Cons c cs)
  show ?case
  proof (cases "strrchr_split x cs")
    case None
    then show ?thesis
      using strrchr_split_None[of x cs] by (cases a) auto
  next
    case (Some ab)
    obtain a0 b0 where ab: "ab = (a0, b0)" by (cases ab)
    with Some Cons.IH[of a0] have "x \<in> set cs"
      using strrchr_split_None[of x cs] by auto
    then show ?thesis
      using Some ab Cons.IH by (cases a) auto
  qed
qed simp

text \<open>The components of a path: the non-empty texts between slashes.\<close>

fun comps_from :: "string \<Rightarrow> string \<Rightarrow> string list" where
  "comps_from acc [] = (if acc = [] then [] else [acc])"
| "comps_from acc (c # cs) =
     (if c = SLASH then (if acc = [] then [] else [acc]) @ comps_from [] cs
      else comps_from (acc @ [c]) cs)"

definition components :: "string \<Rightarrow> string list" where
  "components s = comps_from [] s"

lemma comps_from_slash: "comps_from acc (s @ SLASH # t) = comps_from acc s @ comps_from [] t"
  by (induction s arbitrary: acc) auto

lemma comps_from_plain: "SLASH \<notin> set s \<Longrightarrow> comps_from acc s = (if acc @ s = [] then [] else [acc @ s])"
  by (induction s arbitrary: acc) auto

lemma components_slash: "components (s @ SLASH # t) = components s @ components t"
  by (simp add: components_def comps_from_slash)

lemma components_plain: "SLASH \<notin> set s \<Longrightarrow> components s = (if s = [] then [] else [s])"
  by (simp add: components_def comps_from_plain)

lemma comps_from_collapse: "comps_from acc (collapse s) = comps_from acc s"
proof (induction s arbitrary: acc)
  case (Cons c cs)
  show ?case
  proof (cases "c = SLASH \<and> peek cs = SLASH")
    case True
    then obtain ds where "cs = SLASH # ds"
      by (cases cs) auto
    with True Cons.IH show ?thesis by simp
  next
    case False
    with Cons.IH show ?thesis by auto
  qed
qed simp

lemma components_collapse [simp]: "components (collapse s) = components s"
  by (simp add: components_def comps_from_collapse)

lemma strip_trailing_eq:
  "\<exists>n. s = strip_trailing s @ replicate n SLASH \<and> (strip_trailing s = [] \<longrightarrow> s = []) \<and>
       (last (strip_trailing s) = SLASH \<longrightarrow> length (strip_trailing s) \<le> 1)"
proof (induction s rule: strip_trailing.induct)
  case (1 s)
  show ?case
  proof (cases "length s > 1 \<and> last s = SLASH")
    case True
    then obtain n where n: "butlast s = strip_trailing (butlast s) @ replicate n SLASH"
        "strip_trailing (butlast s) = [] \<longrightarrow> butlast s = []"
        "last (strip_trailing (butlast s)) = SLASH \<longrightarrow> length (strip_trailing (butlast s)) \<le> 1"
      using 1 by blast
    have s: "strip_trailing s = strip_trailing (butlast s)"
      using True by (subst strip_trailing.simps) simp
    have "s = butlast s @ [SLASH]"
      using True by (cases s rule: rev_cases) auto
    then have "s = strip_trailing (butlast s) @ replicate (Suc n) SLASH"
      using n(1) by (metis append_assoc replicate_Suc replicate_append_same)
    moreover have "strip_trailing (butlast s) \<noteq> []"
      using n(2) True by (cases s rule: rev_cases) auto
    ultimately show ?thesis
      using n(3) unfolding s by (intro exI[of _ "Suc n"]) blast
  next
    case False
    then have "strip_trailing s = s"
      by (subst strip_trailing.simps) (simp only: if_False)
    with False show ?thesis
      by (auto intro!: exI[of _ 0])
  qed
qed

lemma components_replicate_slash: "components (s @ replicate n SLASH) = components s"
proof (induction n)
  case (Suc n)
  have "s @ replicate (Suc n) SLASH = (s @ replicate n SLASH) @ SLASH # []"
    by (simp add: replicate_append_same[symmetric])
  then show ?case
    using Suc components_slash[of "s @ replicate n SLASH" "[]"] by (simp add: components_plain)
qed simp

lemma components_strip [simp]: "components (strip_trailing s) = components s"
  using strip_trailing_eq[of s] components_replicate_slash by metis

text \<open>A canonical path has no empty component: no double slash and no trailing one.\<close>

definition canonical :: "string \<Rightarrow> bool" where
  "canonical s \<longleftrightarrow> \<not> sublist [SLASH, SLASH] s \<and> (s \<noteq> [] \<and> last s = SLASH \<longrightarrow> s = [SLASH])"

lemma peek_collapse [simp]: "peek (collapse s) = peek s"
  by (induction s) auto

lemma collapse_no_double: "\<not> sublist [SLASH, SLASH] (collapse s)"
proof (induction s)
  case (Cons c cs)
  show ?case
  proof (cases "c = SLASH \<and> peek cs = SLASH")
    case False
    then have "\<not> (c = SLASH \<and> peek (collapse cs) = SLASH)" by simp
    then have "\<not> prefix [SLASH, SLASH] (c # collapse cs)"
      by (cases "collapse cs") auto
    with False Cons.IH show ?thesis
      by (auto simp: sublist_Cons_right)
  qed (use Cons.IH in auto)
qed simp

lemma collapse_id: "\<not> sublist [SLASH, SLASH] s \<Longrightarrow> collapse s = s"
proof (induction s)
  case (Cons c cs)
  then have "\<not> prefix [SLASH, SLASH] (c # cs)" "\<not> sublist [SLASH, SLASH] cs"
    by (auto simp: sublist_Cons_right)
  with Cons.IH show ?case
    by (cases cs) auto
qed simp

lemma collapse_Nil [simp]: "collapse s = [] \<longleftrightarrow> s = []"
  by (induction s) auto

lemma last_collapse: "s \<noteq> [] \<Longrightarrow> last (collapse s) = last s"
  by (induction s) auto

lemma collapse_single: "length s \<le> 1 \<Longrightarrow> collapse s = s"
  by (cases s) auto

lemma canonical_normal: "canonical (collapse (strip_trailing s))"
  using strip_trailing_eq[of s] collapse_no_double[of "strip_trailing s"]
    last_collapse[of "strip_trailing s"] collapse_single[of "strip_trailing s"]
  by (auto simp: canonical_def length_Suc_conv le_Suc_eq)

lemma canonical_fixed: "canonical s \<Longrightarrow> collapse (strip_trailing s) = s"
  by (subst strip_trailing.simps) (auto simp: canonical_def collapse_id)

lemma path_basename_append: "SLASH \<notin> set b \<Longrightarrow> path_basename (a @ SLASH # b) = b"
proof -
  assume "SLASH \<notin> set b"
  then have "strrchr_split SLASH (a @ SLASH # b) = Some (a, b)"
    by (simp add: strrchr_split_Some)
  then show ?thesis by (simp add: path_basename_def)
qed

lemma path_basename_components:
  assumes "canonical s" and "s \<noteq> []"
  shows "path_basename s = (if s = [SLASH] then [] else last (components s))"
proof (cases "strrchr_split SLASH s")
  case None
  then have n: "SLASH \<notin> set s"
    by (simp add: strrchr_split_None)
  then show ?thesis
    using None assms components_plain[OF n] by (auto simp: path_basename_def)
next
  case (Some ab)
  obtain a b where ab: "ab = (a, b)" by (cases ab)
  with Some have s: "s = a @ SLASH # b" "SLASH \<notin> set b"
    by (simp_all add: strrchr_split_Some)
  then have "b = [] \<longrightarrow> s = [SLASH]"
    using assms(1) by (auto simp: canonical_def)
  moreover have "components s = components a @ components b"
    unfolding s(1) by (rule components_slash)
  moreover have "s = [SLASH] \<longrightarrow> b = []"
    using s by (cases a) auto
  ultimately show ?thesis
    using Some ab components_plain[OF s(2)]
    by (cases "b = []") (simp_all add: path_basename_def)
qed

lemma components_root: "components [SLASH] = []"
  by (simp add: components_def)

lemma normalize_path_posix:
  assumes "ok 0" and "ok 1" and "c_string p" and "p \<noteq> []"
  shows "normalize_path False ok (Some p) =
    Some \<lparr>np_normalized = collapse (strip_trailing p),
          np_basename = path_basename (collapse (strip_trailing p)),
          np_is_absolute = (peek p = SLASH)\<rparr>"
proof -
  have "peek p \<noteq> NUL"
    using assms(3,4) by (cases p) (auto simp: c_string_def)
  with assms show ?thesis
    by (simp add: normalize_path_def Let_def)
qed

section \<open>Properties\<close>

text \<open>Normal form. A non-empty path always has a normal form when memory is available; it has
  the same components in the same order, no double slash and no trailing slash but the root's; it
  is absolute exactly when the path was; its basename is the last component (empty for the root);
  and normalising it again changes nothing.\<close>

theorem normalize_path_canonical:
  assumes "c_string p" and "p \<noteq> []"
  shows "\<exists>np. normalize_path False alloc_ok (Some p) = Some np \<and>
     components (np_normalized np) = components p \<and> canonical (np_normalized np) \<and>
     np_is_absolute np = (hd p = SLASH) \<and> (hd (np_normalized np) = SLASH) = (hd p = SLASH) \<and>
     np_basename np = (if np_normalized np = [SLASH] then [] else last (components p)) \<and>
     normalize_path False alloc_ok (Some (np_normalized np)) = Some np"
proof -
  define n where "n = collapse (strip_trailing p)"
  have n: "canonical n" "components n = components p"
    by (simp_all add: n_def canonical_normal)
  have ne: "n \<noteq> []"
    using strip_trailing_eq[of p] assms(2) by (auto simp: n_def)
  have pk: "peek n = peek p"
  proof -
    have "peek (strip_trailing p) = peek p"
      using strip_trailing_eq[of p] assms(2) by (metis append_Cons peek.cases peek.simps(2))
    then show ?thesis by (simp add: n_def)
  qed
  have hd: "peek s = hd s" if "s \<noteq> []" for s
    using that by (cases s) auto
  have "set n \<subseteq> set p"
  proof -
    have "set (collapse s) \<subseteq> set s" for s by (induction s) auto
    then show ?thesis
      using strip_trailing_eq[of p] unfolding n_def by (metis le_supI1 order_trans set_append subset_refl)
  qed
  then have cn: "c_string n"
    using assms(1) by (auto simp: c_string_def)
  show ?thesis
    using normalize_path_posix[of alloc_ok p] normalize_path_posix[of alloc_ok n] assms cn ne pk n
      path_basename_components[OF n(1) ne] canonical_fixed[OF n(1)] hd[OF ne] hd[OF assms(2)]
    by (simp add: n_def)
qed

theorem normalize_path_canonical_witness:
  "\<exists>np. normalize_path False alloc_ok (Some ''a//b/'') = Some np \<and> np_basename np = ''b'' \<and>
     components (np_normalized np) = [''a'', ''b'']"
proof -
  have "c_string ''a//b/''" and "''a//b/'' \<noteq> []" and "components ''a//b/'' = [''a'', ''b'']"
    by (simp_all add: c_string_def components_def)
  with normalize_path_canonical[of "''a//b/''"] show ?thesis
    by (auto simp: components_root)
qed

end
