(* ===== verification/App_Home.thy ===== *)
theory App_Home
  imports Path_Normalize
begin

text \<open>
  Model of \<^verbatim>\<open>lib/util/app_home.c\<close>: where the program keeps its files. The three file-scope variables
  are a record; the environment, the working directory and \<^verbatim>\<open>mkdir\<close> are arguments, \<open>mkdir p\<close> telling
  whether the call succeeds or finds the directory there. \<open>mkdir_recursive\<close> returns the calls it made.
\<close>

section \<open>State and operations\<close>

record app_home =
  g_app_home :: "string option"
  g_initialized :: bool
  g_app_name :: "string option"

record home_env =
  getenv :: "string \<Rightarrow> string option"
  getcwd :: "string option"

definition toupper :: "char \<Rightarrow> char" where
  "toupper c = (if 97 \<le> char_code c \<and> char_code c \<le> 122 then char_of (char_code c - 32) else c)"

text \<open>Site 0 is the copy or the buffer of the result.\<close>

definition resolve_to_absolute :: "alloc \<Rightarrow> home_env \<Rightarrow> string option \<Rightarrow> string option" where
  "resolve_to_absolute ok env path =
     (case path of
        None \<Rightarrow> None
      | Some p \<Rightarrow>
          if p = [] then None
          else if peek p = SLASH then (if ok 0 then Some p else None)
          else case getcwd env of
                 None \<Rightarrow> None
               | Some cwd \<Rightarrow>
                   let rel = (if peek p = CHR 0x2E \<and> peek (drop 1 p) = SLASH then drop 2 p else p)
                   in if ok 0 then Some (cwd @ ''/'' @ rel) else None)"

function mkdir_loop ::
    "(string \<Rightarrow> bool) \<Rightarrow> string \<Rightarrow> string \<Rightarrow> string list \<times> bool" where
  "mkdir_loop mkdir before rest =
     (if rest = [] then ([], True)
      else let path = before @ takeWhile (\<lambda>c. c \<noteq> SLASH) rest;
               after = dropWhile (\<lambda>c. c \<noteq> SLASH) rest
           in if \<not> mkdir path then ([path], False)
              else case after of
                     [] \<Rightarrow> ([path], True)
                   | c # cs \<Rightarrow>
                       (case mkdir_loop mkdir (path @ [c]) cs of (calls, res) \<Rightarrow> (path # calls, res)))"
  by pat_completeness auto
termination
proof (relation "measure (\<lambda>(m, b, rest). length rest)")
  show "wf (measure (\<lambda>(m, b, rest :: string). length rest))" by simp
next
  fix mkdir :: "string \<Rightarrow> bool" and before rest path after :: string and c cs
  assume "after = dropWhile (\<lambda>c. c \<noteq> SLASH) rest" and "after = c # cs"
  then have "length (c # cs) \<le> length rest"
    by (metis length_dropWhile_le)
  then show "((mkdir, path @ [c], cs), mkdir, before, rest) \<in> measure (\<lambda>(m, b, rest). length rest)"
    by simp
qed

declare mkdir_loop.simps [simp del]

definition mkdir_recursive ::
    "alloc \<Rightarrow> (string \<Rightarrow> bool) \<Rightarrow> string option \<Rightarrow> string list \<times> int" where
  "mkdir_recursive ok mkdir path =
     (case path of
        None \<Rightarrow> ([], -1)
      | Some p \<Rightarrow>
          if p = [] then ([], -1)
          else if \<not> ok 0 then ([], -1)
          else case (if peek p = SLASH then mkdir_loop mkdir [SLASH] (drop 1 p)
                     else mkdir_loop mkdir [] p) of
                 (calls, False) \<Rightarrow> (calls, -1)
               | (calls, True) \<Rightarrow> (calls @ [p], if mkdir p then 0 else -1))"

definition app_home_get_app_name :: "app_home \<Rightarrow> string" where
  "app_home_get_app_name g = (case g_app_name g of Some n \<Rightarrow> n | None \<Rightarrow> ''scaffold'')"

definition app_home_set_app_name :: "alloc \<Rightarrow> app_home \<Rightarrow> string option \<Rightarrow> app_home" where
  "app_home_set_app_name ok g name =
     g\<lparr>g_app_name := (case name of None \<Rightarrow> None | Some n \<Rightarrow> if ok 0 then Some n else None)\<rparr>"

text \<open>The explicit setting or the environment variable, if either is not empty. \<open>None\<close> when the
  variable's name cannot be allocated (site 1).\<close>

definition home_source :: "alloc \<Rightarrow> home_env \<Rightarrow> string \<Rightarrow> string option \<Rightarrow> string option option" where
  "home_source ok env app_name cli_override =
     (case cli_override of
        Some (c # cs) \<Rightarrow> Some (Some (c # cs))
      | _ \<Rightarrow>
          if \<not> ok 1 then None
          else case getenv env (map toupper app_name @ ''_HOME'') of
                 Some (c # cs) \<Rightarrow> Some (Some (c # cs))
               | _ \<Rightarrow> Some None)"

text \<open>Site 2 is the buffer of the default path.\<close>

definition app_home_init ::
    "alloc \<Rightarrow> home_env \<Rightarrow> string option \<Rightarrow> app_home \<Rightarrow> int \<times> app_home" where
  "app_home_init ok env cli_override g =
     (let g = g\<lparr>g_app_home := None, g_initialized := False\<rparr>;
          app_name = app_home_get_app_name g
      in case home_source ok env app_name cli_override of
           None \<Rightarrow> (-1, g)
         | Some (Some source) \<Rightarrow>
             (case resolve_to_absolute ok env (Some source) of
                None \<Rightarrow> (-1, g)
              | Some resolved \<Rightarrow> (0, g\<lparr>g_app_home := Some resolved, g_initialized := True\<rparr>))
         | Some None \<Rightarrow>
             (case getenv env ''HOME'' of
                None \<Rightarrow> (-1, g)
              | Some home \<Rightarrow>
                  if home = [] then (-1, g)
                  else if \<not> ok 2 then (-1, g)
                  else (0, g\<lparr>g_app_home := Some (home @ ''/.local/'' @ app_name),
                             g_initialized := True\<rparr>)))"

definition app_home_get :: "app_home \<Rightarrow> string option" where
  "app_home_get g = g_app_home g"

definition app_home_path :: "alloc \<Rightarrow> app_home \<Rightarrow> string option \<Rightarrow> string option" where
  "app_home_path ok g relative_path =
     (case (g_app_home g, relative_path) of
        (Some home, Some r) \<Rightarrow>
          let rel = (if peek r = SLASH then drop 1 r else r)
          in if ok 0 then Some (home @ ''/'' @ rel) else None
      | _ \<Rightarrow> None)"

definition app_home_ensure_exists ::
    "alloc \<Rightarrow> (string \<Rightarrow> bool) \<Rightarrow> app_home \<Rightarrow> string list \<times> int" where
  "app_home_ensure_exists ok mkdir g =
     (case g_app_home g of None \<Rightarrow> ([], -1) | Some h \<Rightarrow> mkdir_recursive ok mkdir (Some h))"

definition app_home_cleanup :: "app_home \<Rightarrow> app_home" where
  "app_home_cleanup g = g\<lparr>g_app_home := None, g_initialized := False, g_app_name := None\<rparr>"

definition app_home_is_initialized :: "app_home \<Rightarrow> bool" where
  "app_home_is_initialized g = g_initialized g"

section \<open>Lemmas\<close>

text \<open>The directories on the way from a prefix through a list of components.\<close>

fun ancestors :: "string \<Rightarrow> string list \<Rightarrow> string list" where
  "ancestors before [] = []"
| "ancestors before (c # cs) = (before @ c) # ancestors (before @ c @ [SLASH]) cs"

fun join_slash :: "string list \<Rightarrow> string" where
  "join_slash [] = []"
| "join_slash [c] = c"
| "join_slash (c # d # cs) = c @ SLASH # join_slash (d # cs)"

definition plain_component :: "string \<Rightarrow> bool" where
  "plain_component c \<longleftrightarrow> c \<noteq> [] \<and> SLASH \<notin> set c"

lemma takeWhile_no_slash [simp]:
  "SLASH \<notin> set c \<Longrightarrow> takeWhile (\<lambda>x. x \<noteq> SLASH) (c @ SLASH # r) = c"
  "SLASH \<notin> set c \<Longrightarrow> dropWhile (\<lambda>x. x \<noteq> SLASH) (c @ SLASH # r) = SLASH # r"
  "SLASH \<notin> set c \<Longrightarrow> takeWhile (\<lambda>x. x \<noteq> SLASH) c = c"
  "SLASH \<notin> set c \<Longrightarrow> dropWhile (\<lambda>x. x \<noteq> SLASH) c = []"
  by (induction c) auto

lemma mkdir_loop_ancestors:
  assumes "list_all plain_component cs"
  shows "mkdir_loop (\<lambda>_. True) before (join_slash cs) = (ancestors before cs, True)"
  using assms
proof (induction before cs rule: ancestors.induct)
  case (1 before)
  then show ?case by (subst mkdir_loop.simps) simp
next
  case (2 before c cs)
  show ?case
  proof (cases cs)
    case Nil
    with 2 show ?thesis
      by (subst mkdir_loop.simps) (simp add: plain_component_def)
  next
    case (Cons d ds)
    with 2 show ?thesis
      by (subst mkdir_loop.simps) (simp add: plain_component_def)
  qed
qed

lemma mkdir_recursive_absolute:
  assumes "list_all plain_component cs"
  shows "mkdir_recursive alloc_ok (\<lambda>_. True) (Some (SLASH # join_slash cs)) =
    (ancestors [SLASH] cs @ [SLASH # join_slash cs], 0)"
  using mkdir_loop_ancestors[OF assms] by (simp add: mkdir_recursive_def)

section \<open>Properties\<close>

definition absolute :: "string \<Rightarrow> bool" where
  "absolute p \<longleftrightarrow> peek p = SLASH"

lemma absolute_append: "absolute p \<Longrightarrow> absolute (p @ q)"
  by (cases p) (auto simp: absolute_def)

lemma resolve_absolute:
  assumes "\<And>d. getcwd env = Some d \<Longrightarrow> absolute d" and "resolve_to_absolute ok env (Some p) = Some r"
  shows "absolute r"
  using assms(2) absolute_append[OF assms(1)]
  unfolding resolve_to_absolute_def
  by (auto simp: absolute_def Let_def split: if_splits option.splits)

text \<open>The program's directory. If the working directory and \<^verbatim>\<open>HOME\<close> are absolute paths, then
  after an initialisation that returns 0 the directory is set and absolute, a path inside it is the
  directory, one slash and the relative path, with or without a leading slash, and creating it
  requests every ancestor from the root down before the directory itself; an initialisation that
  returns -1 leaves no directory set, not even an earlier one.\<close>

theorem app_home_located:
  assumes "\<And>d. getcwd env = Some d \<Longrightarrow> absolute d" and "\<And>h. getenv env ''HOME'' = Some h \<Longrightarrow> h = [] \<or> absolute h"
    and "app_home_init ok env cli g = (rc, g')" and "c_string r" and "peek r \<noteq> SLASH"
  shows "rc = 0 \<and> g_initialized g' \<and>
      (\<exists>h. app_home_get g' = Some h \<and> absolute h \<and>
         app_home_path alloc_ok g' (Some r) = Some (h @ SLASH # r) \<and>
         app_home_path alloc_ok g' (Some (SLASH # r)) = Some (h @ SLASH # r) \<and>
         (\<forall>cs. h = SLASH # join_slash cs \<and> list_all plain_component cs \<longrightarrow>
            app_home_ensure_exists alloc_ok (\<lambda>_. True) g' = (ancestors [SLASH] cs @ [h], 0))) \<or>
    rc = -1 \<and> \<not> g_initialized g' \<and> app_home_get g' = None \<and>
      app_home_path alloc_ok g' (Some r) = None"
proof -
  have located: "?thesis" if "rc = 0" "g_initialized g'" "g_app_home g' = Some h" "absolute h" for h
    using that assms(5) mkdir_recursive_absolute
    by (auto simp: app_home_get_def app_home_path_def Let_def app_home_ensure_exists_def)
  consider "rc = -1" "\<not> g_initialized g'" "g_app_home g' = None"
    | s h where "rc = 0" "g_initialized g'" "g_app_home g' = Some h"
        "resolve_to_absolute ok env (Some s) = Some h"
    | h n where "rc = 0" "g_initialized g'" "g_app_home g' = Some (h @ n)"
        "getenv env ''HOME'' = Some h" "h \<noteq> []"
    using assms(3) unfolding app_home_init_def Let_def
    by (auto split: option.splits if_splits)
  then show ?thesis
  proof cases
    case 1
    then show ?thesis by (simp add: app_home_get_def app_home_path_def)
  next
    case 2
    then show ?thesis using located resolve_absolute[OF assms(1) 2(4)] by blast
  next
    case 3
    then show ?thesis using located absolute_append assms(2)[OF 3(4)] by blast
  qed
qed

definition sample_env :: home_env where
  "sample_env = \<lparr>getenv = (\<lambda>v. if v = ''HOME'' then Some ''/h'' else None), getcwd = Some ''/w''\<rparr>"

theorem app_home_located_witness:
  "let g' = snd (app_home_init alloc_ok sample_env None
                   \<lparr>g_app_home = None, g_initialized = False, g_app_name = None\<rparr>)
   in g_initialized g' \<and> app_home_path alloc_ok g' (Some ''config.json'') = Some ''/h/.local/scaffold/config.json''"
proof -
  let ?g = "\<lparr>g_app_home = None, g_initialized = False, g_app_name = None\<rparr>"
  let ?g' = "\<lparr>g_app_home = Some ''/h/.local/scaffold'', g_initialized = True, g_app_name = None\<rparr>"
  have i: "app_home_init alloc_ok sample_env None ?g = (0, ?g')"
    by (simp add: app_home_init_def home_source_def app_home_get_app_name_def sample_env_def
        toupper_def char_code_def)
  have "\<And>d. getcwd sample_env = Some d \<Longrightarrow> absolute d"
    and "\<And>h. getenv sample_env ''HOME'' = Some h \<Longrightarrow> h = [] \<or> absolute h"
    by (auto simp: sample_env_def absolute_def)
  from app_home_located[OF this i, of "''config.json''"]
  show ?thesis
    by (auto simp: i c_string_def app_home_get_def)
qed

end
