(* ===== verification/Protected_Files.thy ===== *)
theory Protected_Files
  imports App_Home
begin

text \<open>
  Model of \<^verbatim>\<open>lib/policy/protected_files.c\<close> on POSIX systems: which files no tool may change, by
  name, by pattern and by inode, so that a hard link or a symbolic link to a configuration file is
  protected like the file itself. The file-scope cache and flag are a record. What the code asks
  the system is the argument \<open>fs\<close>: the clock, \<^verbatim>\<open>stat\<close> (device and inode, or failure), \<^verbatim>\<open>getcwd\<close>,
  the program's directory, and libc's \<^verbatim>\<open>fnmatch\<close> with a flag for \<^verbatim>\<open>FNM_PATHNAME\<close>.

  Allocation sites of one check: 0 and 1 those of \<open>normalize_path\<close>, 2 the path of the program's
  configuration, and \<open>3 + 2k\<close>, \<open>4 + 2k\<close> the array growth and the path copy for file number \<open>k\<close> of
  the scan.
\<close>

section \<open>State\<close>

record fs_env =
  fs_now :: int
  fs_stat :: "string \<Rightarrow> (nat \<times> nat) option"
  fs_getcwd :: "string option"
  fs_home :: app_home
  fs_fnmatch :: "string \<Rightarrow> string \<Rightarrow> bool \<Rightarrow> bool"

record ProtectedInode =
  pi_device :: nat
  pi_inode :: nat
  pi_original_path :: "string option"
  pi_discovered_at :: int

record ProtectedInodeCache =
  pc_inodes :: "ProtectedInode list"
  pc_capacity :: int
  pc_last_refresh :: int

record protected_state = ProtectedInodeCache +
  module_initialized :: bool

definition PROTECTED_PATH_BUFSIZE :: nat where
  "PROTECTED_PATH_BUFSIZE = 4096"

definition PROTECTED_INODE_REFRESH_INTERVAL :: int where
  "PROTECTED_INODE_REFRESH_INTERVAL = 30"

definition PROTECTED_INODE_SCAN_DEPTH :: nat where
  "PROTECTED_INODE_SCAN_DEPTH = 3"

definition PROTECTED_INODE_INITIAL_CAPACITY :: int where
  "PROTECTED_INODE_INITIAL_CAPACITY = 16"

definition PROTECTED_BASENAME_PATTERNS :: "string list" where
  "PROTECTED_BASENAME_PATTERNS = [''scaffold.config.json'', ''.env'']"

definition PROTECTED_PREFIX_PATTERNS :: "string list" where
  "PROTECTED_PREFIX_PATTERNS = [''.env.'']"

definition PROTECTED_GLOB_PATTERNS :: "string list" where
  "PROTECTED_GLOB_PATTERNS =
     [''**/scaffold.config.json'', ''**/.scaffold/config.json'', ''**/.env'', ''**/.env.*'']"

definition SCAN_FILENAMES :: "string list" where
  "SCAN_FILENAMES =
     [''scaffold.config.json'', ''.scaffold/config.json'', ''.env'', ''.env.local'',
      ''.env.development'', ''.env.production'', ''.env.test'']"

section \<open>The inode cache\<close>

definition ensure_cache_capacity :: "alloc \<Rightarrow> protected_state \<Rightarrow> int \<times> protected_state" where
  "ensure_cache_capacity ok st =
     (if int (length (pc_inodes st)) < pc_capacity st then (0, st)
      else if \<not> ok 0 then (-1, st)
      else (0, st\<lparr>pc_capacity := (if pc_capacity st \<noteq> 0 then wrap32 (pc_capacity st * 2)
                                 else PROTECTED_INODE_INITIAL_CAPACITY)\<rparr>))"

definition inode_in_cache :: "protected_state \<Rightarrow> nat \<Rightarrow> nat \<Rightarrow> bool" where
  "inode_in_cache st device inode =
     list_ex (\<lambda>e. pi_device e = device \<and> pi_inode e = inode) (pc_inodes st)"

definition build_path :: "string \<Rightarrow> string \<Rightarrow> nat \<Rightarrow> string option" where
  "build_path dir filename buffer_size =
     (let need_sep = (length dir > 0 \<and> last dir \<noteq> SLASH);
          total = length dir + (if need_sep then 1 else 0) + length filename + 1
      in if total > buffer_size then None
         else Some (dir @ (if need_sep then ''/'' else []) @ filename))"

definition add_protected_inode_if_exists ::
    "alloc \<Rightarrow> fs_env \<Rightarrow> string option \<Rightarrow> protected_state \<Rightarrow> protected_state" where
  "add_protected_inode_if_exists ok fs path st =
     (case path of
        None \<Rightarrow> st
      | Some p \<Rightarrow>
          if peek p = NUL then st
          else case fs_stat fs p of
                 None \<Rightarrow> st
               | Some (device, inode) \<Rightarrow>
                   if inode_in_cache st device inode then st
                   else case ensure_cache_capacity ok st of
                     (rc, st) \<Rightarrow>
                       if rc \<noteq> 0 then st
                       else if \<not> ok 1 then st
                       else st\<lparr>pc_inodes := pc_inodes st @
                              [\<lparr>pi_device = device, pi_inode = inode, pi_original_path = Some p,
                                pi_discovered_at = fs_now fs\<rparr>]\<rparr>)"

fun scan_files ::
    "alloc \<Rightarrow> fs_env \<Rightarrow> nat \<Rightarrow> string \<Rightarrow> string list \<Rightarrow> protected_state \<Rightarrow> protected_state" where
  "scan_files ok fs k base_dir [] st = st"
| "scan_files ok fs k base_dir (f # files) st =
     scan_files ok fs (Suc k) base_dir files
       (case build_path base_dir f PROTECTED_PATH_BUFSIZE of
          None \<Rightarrow> st
        | Some full_path \<Rightarrow>
            add_protected_inode_if_exists (\<lambda>s. ok (3 + 2 * k + s)) fs (Some full_path) st)"

text \<open>\<open>n\<close> is the number of directories scanned before.\<close>

definition scan_protected_paths_in_dir ::
    "alloc \<Rightarrow> fs_env \<Rightarrow> nat \<Rightarrow> string \<Rightarrow> protected_state \<Rightarrow> protected_state" where
  "scan_protected_paths_in_dir ok fs n base_dir st =
     scan_files ok fs (length SCAN_FILENAMES * n) base_dir SCAN_FILENAMES st"

text \<open>The loop over the parents of the working directory, at most \<open>depth\<close> of them.\<close>

fun scan_parents ::
    "alloc \<Rightarrow> fs_env \<Rightarrow> nat \<Rightarrow> nat \<Rightarrow> string \<Rightarrow> protected_state \<Rightarrow> nat \<times> protected_state" where
  "scan_parents ok fs n 0 dir st = (n, st)"
| "scan_parents ok fs n (Suc depth) dir st =
     (case strrchr_split SLASH dir of
        None \<Rightarrow> (n, st)
      | Some (parent, _) \<Rightarrow>
          if parent = [] then (n, st)
          else scan_parents ok fs (Suc n) depth parent
                 (scan_protected_paths_in_dir ok fs n parent st))"

definition clear_protected_inode_cache :: "protected_state \<Rightarrow> protected_state" where
  "clear_protected_inode_cache st = st\<lparr>pc_inodes := []\<rparr>"

definition cleanup_protected_inode_cache :: "protected_state \<Rightarrow> protected_state" where
  "cleanup_protected_inode_cache st =
     (clear_protected_inode_cache st)\<lparr>pc_capacity := 0, pc_last_refresh := 0\<rparr>"

definition refresh_protected_inodes ::
    "alloc \<Rightarrow> fs_env \<Rightarrow> protected_state \<Rightarrow> protected_state" where
  "refresh_protected_inodes ok fs st =
     (if fs_now fs - pc_last_refresh st < PROTECTED_INODE_REFRESH_INTERVAL then st
      else let st = clear_protected_inode_cache st
      in case fs_getcwd fs of
           None \<Rightarrow> st\<lparr>pc_last_refresh := fs_now fs\<rparr>
         | Some cwd \<Rightarrow>
             (let st = scan_protected_paths_in_dir ok fs 0 cwd st;
                  parent_dir = take (PROTECTED_PATH_BUFSIZE - 1) cwd
              in case scan_parents ok fs 1 PROTECTED_INODE_SCAN_DEPTH parent_dir st of
                   (n, st) \<Rightarrow>
                     let st = scan_protected_paths_in_dir ok fs n ''/'' st;
                         st = add_protected_inode_if_exists
                                (\<lambda>s. ok (3 + 2 * (length SCAN_FILENAMES * Suc n) + s)) fs
                                (app_home_path (\<lambda>_. ok 2) (fs_home fs) (Some ''config.json'')) st
                     in st\<lparr>pc_last_refresh := fs_now fs\<rparr>))"

definition force_protected_inode_refresh ::
    "alloc \<Rightarrow> fs_env \<Rightarrow> protected_state \<Rightarrow> protected_state" where
  "force_protected_inode_refresh ok fs st =
     refresh_protected_inodes ok fs (st\<lparr>pc_last_refresh := 0\<rparr>)"

section \<open>The checks\<close>

definition is_protected_basename :: "string option \<Rightarrow> bool" where
  "is_protected_basename b =
     (case b of
        None \<Rightarrow> False
      | Some s \<Rightarrow>
          if peek s = NUL then False
          else if list_ex (\<lambda>p. path_basename_cmp False (Some s) (Some p) = 0) PROTECTED_BASENAME_PATTERNS
          then True
          else list_ex (\<lambda>p. path_basename_has_prefix False (Some s) (Some p)) PROTECTED_PREFIX_PATTERNS)"

definition suffix_matches :: "fs_env \<Rightarrow> string \<Rightarrow> string \<Rightarrow> bool" where
  "suffix_matches fs path_component suffix_pattern =
     (if CHR 0x2A \<in> set suffix_pattern \<or> CHR 0x3F \<in> set suffix_pattern \<or> CHR 0x5B \<in> set suffix_pattern
      then fs_fnmatch fs suffix_pattern path_component False
      else strcmp path_component suffix_pattern = 0)"

definition path_matches_recursive_pattern :: "fs_env \<Rightarrow> string \<Rightarrow> string \<Rightarrow> bool" where
  "path_matches_recursive_pattern fs path suf =
     (if SLASH \<in> set suf then
        if length suf > length path then False
        else if length path = length suf then suffix_matches fs path suf
        else let k = length path - length suf
             in if path ! (k - 1) = SLASH then suffix_matches fs (drop k path) suf else False
      else suffix_matches fs (path_basename path) suf)"

definition matches_protected_glob :: "fs_env \<Rightarrow> string option \<Rightarrow> bool" where
  "matches_protected_glob fs path =
     (case path of
        None \<Rightarrow> False
      | Some p \<Rightarrow>
          if peek p = NUL then False
          else list_ex
                 (\<lambda>pattern. if starts_with ''**/'' pattern
                            then path_matches_recursive_pattern fs p (drop 3 pattern)
                            else fs_fnmatch fs pattern p True)
                 PROTECTED_GLOB_PATTERNS)"

definition is_protected_inode :: "fs_env \<Rightarrow> protected_state \<Rightarrow> string option \<Rightarrow> bool" where
  "is_protected_inode fs st path =
     (case path of
        None \<Rightarrow> False
      | Some p \<Rightarrow>
          if peek p = NUL then False
          else case fs_stat fs p of
                 None \<Rightarrow> False
               | Some (device, inode) \<Rightarrow>
                   list_ex (\<lambda>e. device = pi_device e \<and> inode = pi_inode e) (pc_inodes st))"

definition protected_files_init ::
    "alloc \<Rightarrow> fs_env \<Rightarrow> protected_state \<Rightarrow> protected_state" where
  "protected_files_init ok fs st =
     (if module_initialized st then st
      else force_protected_inode_refresh ok fs (st\<lparr>module_initialized := True\<rparr>))"

definition protected_files_cleanup :: "protected_state \<Rightarrow> protected_state" where
  "protected_files_cleanup st = (cleanup_protected_inode_cache st)\<lparr>module_initialized := False\<rparr>"

text \<open>Initialisation and refresh come first; the tests by name, pattern and inode follow. Two
  oracles, since the first check scans twice: \<open>ok0\<close> for the initialisation, \<open>ok\<close> for the rest.\<close>

definition prepare_protected ::
    "alloc \<Rightarrow> alloc \<Rightarrow> fs_env \<Rightarrow> protected_state \<Rightarrow> protected_state" where
  "prepare_protected ok0 ok fs st =
     refresh_protected_inodes ok fs
       (if \<not> module_initialized st then protected_files_init ok0 fs st else st)"

definition is_protected_file ::
    "alloc \<Rightarrow> alloc \<Rightarrow> fs_env \<Rightarrow> string option \<Rightarrow> protected_state \<Rightarrow> bool \<times> protected_state" where
  "is_protected_file ok0 ok fs path st =
     (case path of
        None \<Rightarrow> (False, st)
      | Some p \<Rightarrow>
          if peek p = NUL then (False, st)
          else let st = prepare_protected ok0 ok fs st
               in case normalize_path False ok (Some p) of
                    None \<Rightarrow> (is_protected_basename (Some (path_basename p)), st)
                  | Some np \<Rightarrow>
                      if is_protected_basename (Some (np_basename np)) then (True, st)
                      else if matches_protected_glob fs (Some (np_normalized np)) then (True, st)
                      else (is_protected_inode fs st (Some p), st))"


section \<open>Protection by name\<close>

text \<open>What the names and patterns stand for, by the components of the path.\<close>

definition protected_name :: "string \<Rightarrow> bool" where
  "protected_name b \<longleftrightarrow> b = ''scaffold.config.json'' \<or> b = ''.env'' \<or> prefix ''.env.'' b"

definition protected_components :: "string list \<Rightarrow> bool" where
  "protected_components cs \<longleftrightarrow>
     (\<exists>ds. cs = ds @ [''.scaffold'', ''config.json'']) \<or> (\<exists>ds b. cs = ds @ [b] \<and> protected_name b)"

lemma is_protected_basename_iff:
  "c_string b \<Longrightarrow> is_protected_basename (Some b) \<longleftrightarrow> protected_name b"
proof -
  assume "c_string b"
  then have "peek b = NUL \<longleftrightarrow> b = []"
    by (cases b) (auto simp: c_string_def)
  then show ?thesis
    by (auto simp: is_protected_basename_def PROTECTED_BASENAME_PATTERNS_def
        PROTECTED_PREFIX_PATTERNS_def path_basename_cmp_def path_basename_has_prefix_def
        starts_with_prefix protected_name_def)
qed

lemma join_slash_append:
  "xs \<noteq> [] \<Longrightarrow> ys \<noteq> [] \<Longrightarrow> join_slash (xs @ ys) = join_slash xs @ SLASH # join_slash ys"
proof (induction xs rule: join_slash.induct)
  case (2 c)
  then show ?case by (cases ys) auto
qed auto

lemma canonical_butlast:
  assumes "canonical (a @ SLASH # b)" and "a \<noteq> []"
  shows "canonical a" and "last a \<noteq> SLASH"
proof -
  have n: "\<not> sublist [SLASH, SLASH] (a @ SLASH # b)"
    using assms(1) by (simp add: canonical_def)
  show l: "last a \<noteq> SLASH"
  proof
    assume "last a = SLASH"
    then have "a @ SLASH # b = butlast a @ [SLASH, SLASH] @ b"
      using assms(2) by (metis append.assoc append_butlast_last_id append_Cons append_Nil)
    with n show False
      by (metis sublist_appendI)
  qed
  have "\<not> sublist [SLASH, SLASH] a"
    using n by (meson sublist_append_rightI sublist_order.order.trans)
  with l show "canonical a"
    by (simp add: canonical_def)
qed

lemma canonical_join:
  assumes "canonical s" and "s \<noteq> []"
  shows "s = (if peek s = SLASH then [SLASH] else []) @ join_slash (components s)"
  using assms
proof (induction "length s" arbitrary: s rule: less_induct)
  case less
  show ?case
  proof (cases "strrchr_split SLASH s")
    case None
    then have n: "SLASH \<notin> set s"
      by (simp add: strrchr_split_None)
    with less.prems(2) components_plain[OF n] show ?thesis
      by (cases s) auto
  next
    case (Some ab)
    obtain a b where ab: "ab = (a, b)" by (cases ab)
    with Some have s: "s = a @ SLASH # b" and b: "SLASH \<notin> set b"
      by (simp_all add: strrchr_split_Some)
    have cs: "components s = components a @ components b"
      unfolding s by (rule components_slash)
    show ?thesis
    proof (cases "a = []")
      case True
      then show ?thesis
        using s cs components_plain[OF b] by (simp add: components_def split: if_splits)
    next
      case False
      then have can: "canonical a" "last a \<noteq> SLASH"
        using canonical_butlast less.prems(1) s by blast+
      have a: "a = (if peek a = SLASH then [SLASH] else []) @ join_slash (components a)"
        using less.hyps[of a] s can(1) False by simp
      have "components a \<noteq> []"
      proof
        assume "components a = []"
        then have "a = [SLASH]"
          using a False by (simp split: if_splits)
        with can(2) show False by simp
      qed
      moreover have "b \<noteq> []"
        using less.prems(1) s False by (auto simp: canonical_def)
      ultimately have "join_slash (components s) = join_slash (components a) @ SLASH # b"
        using cs components_plain[OF b] join_slash_append by simp
      moreover have "peek s = peek a"
        using s False by (cases a) auto
      ultimately show ?thesis
        using a s by (metis append_assoc)
    qed
  qed
qed

lemma components_config_suffix:
  assumes "canonical s" and "s \<noteq> []"
  shows "(s = ''.scaffold/config.json'' \<or> (\<exists>u. s = u @ SLASH # ''.scaffold/config.json'')) \<longleftrightarrow>
    (\<exists>ds. components s = ds @ [''.scaffold'', ''config.json''])"
proof
  have c: "components ''.scaffold/config.json'' = [''.scaffold'', ''config.json'']"
    by (simp add: components_def)
  assume "s = ''.scaffold/config.json'' \<or> (\<exists>u. s = u @ SLASH # ''.scaffold/config.json'')"
  then show "\<exists>ds. components s = ds @ [''.scaffold'', ''config.json'']"
  proof
    assume "\<exists>u. s = u @ SLASH # ''.scaffold/config.json''"
    then show ?thesis
      using c components_slash by metis
  qed (use c in auto)
next
  assume "\<exists>ds. components s = ds @ [''.scaffold'', ''config.json'']"
  then obtain ds where ds: "components s = ds @ [''.scaffold'', ''config.json'']" by blast
  have j: "join_slash (ds @ [''.scaffold'', ''config.json'']) =
      (if ds = [] then [] else join_slash ds @ [SLASH]) @ ''.scaffold/config.json''"
    using join_slash_append[of ds "[''.scaffold'', ''config.json'']"] by simp
  show "s = ''.scaffold/config.json'' \<or> (\<exists>u. s = u @ SLASH # ''.scaffold/config.json'')"
  proof (cases "ds = []")
    case True
    then show ?thesis
      using canonical_join[OF assms] ds j by (cases "peek s = SLASH") auto
  next
    case False
    then have e: "join_slash (components s) = join_slash ds @ SLASH # ''.scaffold/config.json''"
      using ds j by simp
    let ?pre = "if peek s = SLASH then [SLASH] else []"
    have "s = ?pre @ join_slash (components s)"
      by (rule canonical_join[OF assms])
    also have "\<dots> = (?pre @ join_slash ds) @ SLASH # ''.scaffold/config.json''"
      unfolding e by simp
    finally show ?thesis by blast
  qed
qed

lemma drop_suffix_iff:
  assumes "length f < length s"
  shows "(s ! (length s - length f - 1) = x \<and> drop (length s - length f) s = f) \<longleftrightarrow>
    (\<exists>u. s = u @ x # f)"
proof
  let ?k = "length s - length f"
  assume a: "s ! (?k - 1) = x \<and> drop ?k s = f"
  have "s = take (?k - 1) s @ s ! (?k - 1) # drop (Suc (?k - 1)) s"
    using assms by (intro id_take_nth_drop) simp
  moreover have "Suc (?k - 1) = ?k"
    using assms by simp
  ultimately have "s = take (?k - 1) s @ x # f"
    using a by metis
  then show "\<exists>u. s = u @ x # f" by blast
next
  assume "\<exists>u. s = u @ x # f"
  then show "s ! (length s - length f - 1) = x \<and> drop (length s - length f) s = f"
    by (auto simp: nth_append)
qed

lemma recursive_pattern_config:
  assumes "canonical s" and "s \<noteq> []"
  shows "path_matches_recursive_pattern fs s ''.scaffold/config.json'' \<longleftrightarrow>
    (\<exists>ds. components s = ds @ [''.scaffold'', ''config.json''])"
proof -
  let ?f = "''.scaffold/config.json''"
  have m: "suffix_matches fs t ?f \<longleftrightarrow> t = ?f" for t
    by (simp add: suffix_matches_def)
  have "path_matches_recursive_pattern fs s ?f \<longleftrightarrow> s = ?f \<or> (\<exists>u. s = u @ SLASH # ?f)"
  proof (cases "length ?f < length s")
    case True
    then have "path_matches_recursive_pattern fs s ?f \<longleftrightarrow>
        s ! (length s - length ?f - 1) = SLASH \<and> drop (length s - length ?f) s = ?f"
      unfolding path_matches_recursive_pattern_def Let_def m by auto
    with True drop_suffix_iff[OF True, of SLASH] show ?thesis by auto
  next
    case False
    then show ?thesis
      unfolding path_matches_recursive_pattern_def Let_def m by auto
  qed
  with components_config_suffix[OF assms] show ?thesis by simp
qed

text \<open>The only wildcard among the patterns is \<^verbatim>\<open>.env.*\<close>, which \<^verbatim>\<open>fnmatch\<close> matches against texts that
  begin with \<^verbatim>\<open>.env.\<close>.\<close>

definition fnmatch_star :: "fs_env \<Rightarrow> bool" where
  "fnmatch_star fs \<longleftrightarrow> (\<forall>s. fs_fnmatch fs ''.env.*'' s False \<longleftrightarrow> prefix ''.env.'' s)"

lemma matches_protected_glob_iff:
  assumes "fnmatch_star fs" and "canonical s" and "s \<noteq> []" and "c_string s"
  shows "matches_protected_glob fs (Some s) \<longleftrightarrow>
    protected_name (path_basename s) \<or> (\<exists>ds. components s = ds @ [''.scaffold'', ''config.json''])"
proof -
  have pk: "peek s \<noteq> NUL"
    using assms(3,4) by (cases s) (auto simp: c_string_def)
  have m: "path_matches_recursive_pattern fs s ''scaffold.config.json'' \<longleftrightarrow>
        path_basename s = ''scaffold.config.json''"
    "path_matches_recursive_pattern fs s ''.env'' \<longleftrightarrow> path_basename s = ''.env''"
    "path_matches_recursive_pattern fs s ''.env.*'' \<longleftrightarrow> prefix ''.env.'' (path_basename s)"
    using assms(1)
    by (simp_all add: path_matches_recursive_pattern_def suffix_matches_def fnmatch_star_def)
  show ?thesis
    using m recursive_pattern_config[OF assms(2,3), of fs] pk
    by (auto simp: matches_protected_glob_def PROTECTED_GLOB_PATTERNS_def protected_name_def)
qed

lemma normalize_alloc:
  assumes "c_string p" and "p \<noteq> []" and "ok 0" and "ok 1"
  shows "normalize_path False ok (Some p) = normalize_path False alloc_ok (Some p)"
  using normalize_path_posix[OF assms(3,4,1,2)] normalize_path_posix[of alloc_ok p] assms(1,2) by simp

lemma set_normal: "set (collapse (strip_trailing p)) \<subseteq> set p"
proof -
  have "set (collapse s) \<subseteq> set s" for s by (induction s) auto
  then show ?thesis
    using strip_trailing_eq[of p] by (metis le_supI1 order_trans set_append subset_refl)
qed

text \<open>The whole test of a non-empty path, when memory is available for its normal form.\<close>

lemma is_protected_file_iff:
  assumes "fnmatch_star fs" and "c_string p" and "p \<noteq> []" and "ok 0" and "ok 1"
  shows "fst (is_protected_file ok0 ok fs (Some p) st) \<longleftrightarrow>
    protected_components (components p) \<or> is_protected_inode fs (prepare_protected ok0 ok fs st) (Some p)"
proof -
  define n where "n = collapse (strip_trailing p)"
  have n: "canonical n" "components n = components p"
    by (simp_all add: n_def canonical_normal)
  have ne: "n \<noteq> []"
    using strip_trailing_eq[of p] assms(3) by (auto simp: n_def)
  have cn: "c_string n"
    using set_normal[of p] assms(2) by (auto simp: c_string_def n_def)
  have cb: "c_string (path_basename n)"
    using cn strrchr_split_Some[of SLASH n]
    by (auto simp: path_basename_def c_string_def split: option.split)
  have pk: "peek p \<noteq> NUL"
    using assms(2,3) by (cases p) (auto simp: c_string_def)
  have r: "fst (is_protected_file ok0 ok fs (Some p) st) \<longleftrightarrow>
      is_protected_basename (Some (path_basename n)) \<or> matches_protected_glob fs (Some n) \<or>
      is_protected_inode fs (prepare_protected ok0 ok fs st) (Some p)"
    using normalize_path_posix[OF assms(4,5,2,3)] pk
    by (simp add: is_protected_file_def n_def Let_def)
  have root: "components p = []" if "n = [SLASH]"
    using that n(2) components_root by simp
  have "protected_name (path_basename n) \<or> (\<exists>ds. components n = ds @ [''.scaffold'', ''config.json'']) \<longleftrightarrow>
      protected_components (components p)"
  proof (cases "n = [SLASH]")
    case True
    then show ?thesis
      using path_basename_components[OF n(1) ne] root n(2)
      by (auto simp: protected_components_def protected_name_def)
  next
    case False
    have "components n \<noteq> []"
      using canonical_join[OF n(1) ne] False ne by (auto split: if_splits)
    then have "(\<exists>ds b. components p = ds @ [b] \<and> protected_name b) \<longleftrightarrow> protected_name (last (components p))"
      using n(2) by (metis append_butlast_last_id last_snoc)
    then show ?thesis
      using False path_basename_components[OF n(1) ne] n(2)
      by (auto simp: protected_components_def)
  qed
  with r is_protected_basename_iff[OF cb] matches_protected_glob_iff[OF assms(1) n(1) ne cn]
  show ?thesis by blast
qed


section \<open>Protection by inode\<close>

text \<open>The paths a scan looks at, and the files it finds.\<close>

fun parent_dirs :: "nat \<Rightarrow> string \<Rightarrow> string list" where
  "parent_dirs 0 dir = []"
| "parent_dirs (Suc depth) dir =
     (case strrchr_split SLASH dir of
        None \<Rightarrow> []
      | Some (parent, _) \<Rightarrow> if parent = [] then [] else parent # parent_dirs depth parent)"

definition dir_paths :: "string \<Rightarrow> string list" where
  "dir_paths dir =
     List.map_filter (\<lambda>f. build_path dir f PROTECTED_PATH_BUFSIZE) SCAN_FILENAMES"

definition scan_paths :: "fs_env \<Rightarrow> string \<Rightarrow> string list" where
  "scan_paths fs cwd =
     concat (map dir_paths
       ([cwd] @ parent_dirs PROTECTED_INODE_SCAN_DEPTH (take (PROTECTED_PATH_BUFSIZE - 1) cwd) @ [''/''])) @
     (case app_home_path alloc_ok (fs_home fs) (Some ''config.json'') of None \<Rightarrow> [] | Some p \<Rightarrow> [p])"

definition finds :: "fs_env \<Rightarrow> string list \<Rightarrow> nat \<times> nat \<Rightarrow> bool" where
  "finds fs ps di \<longleftrightarrow> (\<exists>q \<in> set ps. peek q \<noteq> NUL \<and> fs_stat fs q = Some di)"

lemma finds_simps [simp]:
  "\<not> finds fs [] di"
  "finds fs (p # ps) di \<longleftrightarrow> peek p \<noteq> NUL \<and> fs_stat fs p = Some di \<or> finds fs ps di"
  "finds fs (ps @ qs) di \<longleftrightarrow> finds fs ps di \<or> finds fs qs di"
  by (auto simp: finds_def)

definition cached :: "protected_state \<Rightarrow> nat \<times> nat \<Rightarrow> bool" where
  "cached st di \<longleftrightarrow> inode_in_cache st (fst di) (snd di)"

lemma cached_update [simp]:
  "cached (st\<lparr>pc_last_refresh := t\<rparr>) di = cached st di"
  "cached (st\<lparr>pc_capacity := c\<rparr>) di = cached st di"
  "cached (st\<lparr>module_initialized := b\<rparr>) di = cached st di"
  by (simp_all add: cached_def inode_in_cache_def)

lemma cached_add:
  "cached (add_protected_inode_if_exists alloc_ok fs (Some p) st) di \<longleftrightarrow>
     cached st di \<or> peek p \<noteq> NUL \<and> fs_stat fs p = Some di"
proof (cases "peek p \<noteq> NUL \<and> fs_stat fs p \<noteq> None")
  case True
  then obtain d i where s: "fs_stat fs p = Some (d, i)" by (cases "fs_stat fs p") auto
  obtain st' where e: "ensure_cache_capacity alloc_ok st = (0, st')" "pc_inodes st' = pc_inodes st"
  proof
    show "ensure_cache_capacity alloc_ok st = (0, snd (ensure_cache_capacity alloc_ok st))"
      and "pc_inodes (snd (ensure_cache_capacity alloc_ok st)) = pc_inodes st"
      by (simp_all add: ensure_cache_capacity_def)
  qed
  show ?thesis
    using True s e by (cases di) (auto simp: add_protected_inode_if_exists_def cached_def inode_in_cache_def)
next
  case False
  then show ?thesis by (auto simp: add_protected_inode_if_exists_def split: option.split)
qed

lemma cached_scan_files:
  "cached (scan_files alloc_ok fs k dir files st) di \<longleftrightarrow>
     cached st di \<or> finds fs (List.map_filter (\<lambda>f. build_path dir f PROTECTED_PATH_BUFSIZE) files) di"
  by (induction files arbitrary: k st)
    (auto simp: cached_add map_filter_simps split: option.split)

lemma cached_scan_dir:
  "cached (scan_protected_paths_in_dir alloc_ok fs n dir st) di \<longleftrightarrow> cached st di \<or> finds fs (dir_paths dir) di"
  by (simp add: scan_protected_paths_in_dir_def cached_scan_files dir_paths_def)

lemma cached_scan_parents:
  "cached (snd (scan_parents alloc_ok fs n depth dir st)) di \<longleftrightarrow>
     cached st di \<or> finds fs (concat (map dir_paths (parent_dirs depth dir))) di"
  by (induction depth arbitrary: n dir st) (auto simp: cached_scan_dir split: option.split)

lemma cached_refresh:
  assumes "PROTECTED_INODE_REFRESH_INTERVAL \<le> fs_now fs - pc_last_refresh st" and "fs_getcwd fs = Some cwd"
  shows "cached (refresh_protected_inodes alloc_ok fs st) di \<longleftrightarrow> finds fs (scan_paths fs cwd) di"
proof -
  let ?st0 = "clear_protected_inode_cache st"
  let ?st1 = "scan_protected_paths_in_dir alloc_ok fs 0 cwd ?st0"
  let ?r = "scan_parents alloc_ok fs 1 PROTECTED_INODE_SCAN_DEPTH (take (PROTECTED_PATH_BUFSIZE - 1) cwd) ?st1"
  have 0: "\<not> cached ?st0 di"
    by (simp add: cached_def clear_protected_inode_cache_def inode_in_cache_def)
  have r: "refresh_protected_inodes alloc_ok fs st =
      (add_protected_inode_if_exists alloc_ok fs (app_home_path alloc_ok (fs_home fs) (Some ''config.json''))
        (scan_protected_paths_in_dir alloc_ok fs (fst ?r) ''/'' (snd ?r)))\<lparr>pc_last_refresh := fs_now fs\<rparr>"
    using assms by (simp add: refresh_protected_inodes_def Let_def case_prod_beta)
  show ?thesis
  proof (cases "app_home_path alloc_ok (fs_home fs) (Some ''config.json'')")
    case None
    then show ?thesis
      using 0 unfolding r
      by (simp add: scan_paths_def add_protected_inode_if_exists_def cached_scan_dir cached_scan_parents)
  next
    case (Some q)
    then show ?thesis
      using 0 unfolding r
      by (simp add: scan_paths_def cached_add cached_scan_dir cached_scan_parents)
  qed
qed

lemma last_refresh_forced:
  assumes "PROTECTED_INODE_REFRESH_INTERVAL \<le> fs_now fs"
  shows "pc_last_refresh (force_protected_inode_refresh ok fs st) = fs_now fs"
  using assms
  by (auto simp: force_protected_inode_refresh_def refresh_protected_inodes_def Let_def
      split: option.split prod.split)

lemma cached_prepare:
  assumes "PROTECTED_INODE_REFRESH_INTERVAL \<le> fs_now fs" and "fs_getcwd fs = Some cwd"
    and "module_initialized st \<longrightarrow> PROTECTED_INODE_REFRESH_INTERVAL \<le> fs_now fs - pc_last_refresh st"
  shows "cached (prepare_protected alloc_ok alloc_ok fs st) di \<longleftrightarrow> finds fs (scan_paths fs cwd) di"
proof (cases "module_initialized st")
  case True
  then show ?thesis
    using assms cached_refresh by (simp add: prepare_protected_def)
next
  case False
  let ?f = "force_protected_inode_refresh alloc_ok fs (st\<lparr>module_initialized := True\<rparr>)"
  have "prepare_protected alloc_ok alloc_ok fs st = ?f"
    using False last_refresh_forced[OF assms(1), of alloc_ok "st\<lparr>module_initialized := True\<rparr>"]
    by (simp add: prepare_protected_def protected_files_init_def refresh_protected_inodes_def
        PROTECTED_INODE_REFRESH_INTERVAL_def)
  moreover have "cached ?f di \<longleftrightarrow> finds fs (scan_paths fs cwd) di"
    unfolding force_protected_inode_refresh_def using assms(1,2) by (intro cached_refresh) simp_all
  ultimately show ?thesis by simp
qed

lemma is_protected_inode_cached:
  assumes "peek p \<noteq> NUL"
  shows "is_protected_inode fs st (Some p) \<longleftrightarrow> (\<exists>di. fs_stat fs p = Some di \<and> cached st di)"
proof (cases "fs_stat fs p")
  case (Some di)
  obtain d i where "di = (d, i)" by (cases di)
  with Some assms show ?thesis
    by (auto simp: is_protected_inode_def cached_def inode_in_cache_def list_ex_iff)
qed (use assms in \<open>simp add: is_protected_inode_def\<close>)

section \<open>Properties\<close>

text \<open>Which files are protected by name. Whatever the state of the cache, the file system and
  the other allocations, a path whose last component is \<^verbatim>\<open>scaffold.config.json\<close>, \<^verbatim>\<open>.env\<close> or
  begins with \<^verbatim>\<open>.env.\<close>, or whose last two are \<^verbatim>\<open>.scaffold/config.json\<close>, is protected, however many
  slashes separate or follow its components.\<close>

theorem protected_by_name:
  assumes "fnmatch_star fs" and "c_string p" and "ok 0" and "ok 1"
    and "protected_components (components p)"
  shows "fst (is_protected_file ok0 ok fs (Some p) st)"
proof -
  have "p \<noteq> []"
    using assms(5) by (auto simp: protected_components_def components_def)
  with is_protected_file_iff[OF assms(1,2) _ assms(3,4)] assms(5) show ?thesis by blast
qed

definition sample_fs :: fs_env where
  "sample_fs = \<lparr>fs_now = 1000,
     fs_stat = (\<lambda>p. if p = ''/w/.env'' \<or> p = ''/w/link'' then Some (1, 7)
                    else if p = ''/w/x'' then Some (1, 8) else None),
     fs_getcwd = Some ''/w'',
     fs_home = \<lparr>g_app_home = Some ''/h'', g_initialized = True, g_app_name = None\<rparr>,
     fs_fnmatch = (\<lambda>pat s flag. prefix (takeWhile (\<lambda>c. c \<noteq> CHR 0x2A) pat) s)\<rparr>"

definition sample_protected :: protected_state where
  "sample_protected = \<lparr>pc_inodes = [], pc_capacity = 0, pc_last_refresh = 0, module_initialized = False\<rparr>"

lemma sample_fnmatch_star: "fnmatch_star sample_fs"
  by (simp add: fnmatch_star_def sample_fs_def)

theorem protected_by_name_witness:
  "fst (is_protected_file (\<lambda>_. False) (\<lambda>n. n < 2) sample_fs (Some ''a//.env.local/'') sample_protected)"
proof -
  have "c_string ''a//.env.local/''"
    by (simp add: c_string_def)
  moreover have "components ''a//.env.local/'' = [''a''] @ [''.env.local'']"
    by (simp add: components_def)
  then have "protected_components (components ''a//.env.local/'')"
    unfolding protected_components_def protected_name_def by (intro disjI2 exI conjI, assumption) simp
  ultimately show ?thesis
    using protected_by_name[OF sample_fnmatch_star] by simp
qed



end
