(* ===== verification/Tool_Args.thy ===== *)
theory Tool_Args
  imports Prelude
begin

text \<open>
  The tool calls of \<^verbatim>\<open>lib/types.h\<close>, the JSON library they are read with, and the argument accessors
  of \<^verbatim>\<open>lib/policy/tool_args.c\<close>.

  JSON comes from the external library cJSON. It is a record \<open>js\<close> of the functions the program calls
  on a parsed value of an unknown type \<open>'j\<close>; a \<^verbatim>\<open>NULL\<close> value is \<open>None\<close>, on which every type test is
  false. \<open>cJSON_valuedouble\<close> is the number without its fraction, all the program uses of it. Nothing
  is assumed of these functions unless a lemma says so.
\<close>

section \<open>The JSON library\<close>

datatype json_field = JStr string | JNum int

record 'j cjson =
  cJSON_Parse :: "string \<Rightarrow> 'j option"
  cJSON_GetObjectItem :: "'j \<Rightarrow> string \<Rightarrow> 'j option"
  cJSON_IsObject :: "'j \<Rightarrow> bool"
  cJSON_IsArray :: "'j \<Rightarrow> bool"
  cJSON_IsString :: "'j \<Rightarrow> bool"
  cJSON_IsNumber :: "'j \<Rightarrow> bool"
  cJSON_IsBool :: "'j \<Rightarrow> bool"
  cJSON_IsTrue :: "'j \<Rightarrow> bool"
  cJSON_elements :: "'j \<Rightarrow> 'j list"
  cJSON_string :: "'j \<Rightarrow> string option"
  cJSON_valuestring :: "'j \<Rightarrow> string option"
  cJSON_valueint :: "'j \<Rightarrow> int"
  cJSON_valuedouble :: "'j \<Rightarrow> int"
  cJSON_PrintObject :: "(string \<times> json_field) list \<Rightarrow> string option"

definition jtest :: "('j \<Rightarrow> bool) \<Rightarrow> 'j option \<Rightarrow> bool" where
  "jtest P j = (case j of None \<Rightarrow> False | Some v \<Rightarrow> P v)"

text \<open>The text of an item that is a string with a value.\<close>

definition jstring :: "'j cjson \<Rightarrow> 'j option \<Rightarrow> string option" where
  "jstring js j =
     (case j of None \<Rightarrow> None
      | Some v \<Rightarrow> if cJSON_IsString js v then cJSON_valuestring js v else None)"

section \<open>Tool calls and their arguments\<close>

record ToolCall =
  tc_id :: "string option"
  tc_name :: "string option"
  tc_arguments :: "string option"

definition parse_args :: "'j cjson \<Rightarrow> ToolCall option \<Rightarrow> 'j option" where
  "parse_args js tool_call =
     (case tool_call of
        None \<Rightarrow> None
      | Some tc \<Rightarrow> (case tc_arguments tc of None \<Rightarrow> None | Some a \<Rightarrow> cJSON_Parse js a))"

text \<open>Site 0 is the copy of the value.\<close>

definition tool_args_get_string ::
    "alloc \<Rightarrow> 'j cjson \<Rightarrow> ToolCall option \<Rightarrow> string option \<Rightarrow> string option" where
  "tool_args_get_string ok js tool_call key =
     (case key of
        None \<Rightarrow> None
      | Some k \<Rightarrow>
          (case parse_args js tool_call of
             None \<Rightarrow> None
           | Some args \<Rightarrow>
               (case jstring js (cJSON_GetObjectItem js args k) of
                  None \<Rightarrow> None
                | Some s \<Rightarrow> if ok 0 then Some s else None)))"

definition tool_args_get_command :: "alloc \<Rightarrow> 'j cjson \<Rightarrow> ToolCall option \<Rightarrow> string option" where
  "tool_args_get_command ok js tool_call = tool_args_get_string ok js tool_call (Some ''command'')"

definition path_keys :: "string list" where
  "path_keys = [''path'', ''file_path'', ''filepath'', ''filename'']"

fun first_string :: "'j cjson \<Rightarrow> 'j \<Rightarrow> string list \<Rightarrow> string option" where
  "first_string js args [] = None"
| "first_string js args (k # ks) =
     (case jstring js (cJSON_GetObjectItem js args k) of
        Some s \<Rightarrow> Some s
      | None \<Rightarrow> first_string js args ks)"

definition tool_args_get_path :: "alloc \<Rightarrow> 'j cjson \<Rightarrow> ToolCall option \<Rightarrow> string option" where
  "tool_args_get_path ok js tool_call =
     (case parse_args js tool_call of
        None \<Rightarrow> None
      | Some args \<Rightarrow>
          (case first_string js args path_keys of
             None \<Rightarrow> None
           | Some s \<Rightarrow> if ok 0 then Some s else None))"

definition tool_args_get_url :: "alloc \<Rightarrow> 'j cjson \<Rightarrow> ToolCall option \<Rightarrow> string option" where
  "tool_args_get_url ok js tool_call = tool_args_get_string ok js tool_call (Some ''url'')"

text \<open>The value stored through \<^verbatim>\<open>out_value\<close>; \<open>None\<close> when the function returns -1.\<close>

definition tool_args_get_int :: "'j cjson \<Rightarrow> ToolCall option \<Rightarrow> string option \<Rightarrow> int option" where
  "tool_args_get_int js tool_call key =
     (case key of
        None \<Rightarrow> None
      | Some k \<Rightarrow>
          (case parse_args js tool_call of
             None \<Rightarrow> None
           | Some args \<Rightarrow>
               (case cJSON_GetObjectItem js args k of
                  None \<Rightarrow> None
                | Some item \<Rightarrow> if cJSON_IsNumber js item then Some (cJSON_valueint js item) else None)))"

definition tool_args_get_bool :: "'j cjson \<Rightarrow> ToolCall option \<Rightarrow> string option \<Rightarrow> int option" where
  "tool_args_get_bool js tool_call key =
     (case key of
        None \<Rightarrow> None
      | Some k \<Rightarrow>
          (case parse_args js tool_call of
             None \<Rightarrow> None
           | Some args \<Rightarrow>
               (case cJSON_GetObjectItem js args k of
                  None \<Rightarrow> None
                | Some item \<Rightarrow>
                    if cJSON_IsBool js item then Some (if cJSON_IsTrue js item then 1 else 0)
                    else None)))"

section \<open>A JSON value for examples\<close>

text \<open>The library on a concrete type, with a parser given by a table: enough to evaluate the model.\<close>

datatype jvalue =
    VString string | VNumber int | VBool bool | VArray "jvalue list" | VObject "(string \<times> jvalue) list"
  | VItem string jvalue

fun plain :: "jvalue \<Rightarrow> jvalue" where
  "plain (VItem k v) = plain v"
| "plain v = v"

definition table_json :: "(string \<times> jvalue) list \<Rightarrow> jvalue cjson" where
  "table_json t = \<lparr>
     cJSON_Parse = map_of t,
     cJSON_GetObjectItem = (\<lambda>v k. case plain v of VObject fs \<Rightarrow> map_of fs k | _ \<Rightarrow> None),
     cJSON_IsObject = (\<lambda>v. case plain v of VObject _ \<Rightarrow> True | _ \<Rightarrow> False),
     cJSON_IsArray = (\<lambda>v. case plain v of VArray _ \<Rightarrow> True | _ \<Rightarrow> False),
     cJSON_IsString = (\<lambda>v. case plain v of VString _ \<Rightarrow> True | _ \<Rightarrow> False),
     cJSON_IsNumber = (\<lambda>v. case plain v of VNumber _ \<Rightarrow> True | _ \<Rightarrow> False),
     cJSON_IsBool = (\<lambda>v. case plain v of VBool _ \<Rightarrow> True | _ \<Rightarrow> False),
     cJSON_IsTrue = (\<lambda>v. plain v = VBool True),
     cJSON_elements = (\<lambda>v. case plain v of VArray vs \<Rightarrow> vs | VObject fs \<Rightarrow> map (\<lambda>(k, x). VItem k x) fs
                                          | _ \<Rightarrow> []),
     cJSON_string = (\<lambda>v. case v of VItem k _ \<Rightarrow> Some k | _ \<Rightarrow> None),
     cJSON_valuestring = (\<lambda>v. case plain v of VString s \<Rightarrow> Some s | _ \<Rightarrow> None),
     cJSON_valueint = (\<lambda>v. case plain v of VNumber n \<Rightarrow> n | _ \<Rightarrow> 0),
     cJSON_valuedouble = (\<lambda>v. case plain v of VNumber n \<Rightarrow> n | _ \<Rightarrow> 0),
     cJSON_PrintObject = (\<lambda>fs. Some ''{}'')\<rparr>"

end
