(* ===== verification/Gate_Config.thy ===== *)
theory Gate_Config
  imports Tool_Args Allowlist Rate_Limiter Shell_Parser App_Home
begin

text \<open>
  The configuration of the approval gate, from \<^verbatim>\<open>lib/policy/approval_gate.h\<close> and
  \<^verbatim>\<open>approval_gate.c\<close>: categories and actions, the two allowlists, how they are read from the
  configuration file, extended, and passed on to a child process.

  An array with its count is the list of its counted elements together with its capacity. The
  callbacks the program installs are a record of optional functions. Regular expressions, JSON and
  the environment are arguments.
\<close>

section \<open>Data\<close>

datatype GateAction = GATE_ACTION_ALLOW | GATE_ACTION_GATE | GATE_ACTION_DENY

datatype GateCategory =
    GATE_CATEGORY_FILE_WRITE | GATE_CATEGORY_FILE_READ | GATE_CATEGORY_SHELL | GATE_CATEGORY_NETWORK
  | GATE_CATEGORY_MEMORY | GATE_CATEGORY_SUBAGENT | GATE_CATEGORY_MCP | GATE_CATEGORY_PYTHON
  | GATE_CATEGORY_PLUGIN

datatype ApprovalResult =
    APPROVAL_ALLOWED | APPROVAL_DENIED | APPROVAL_ALLOWED_ALWAYS | APPROVAL_ABORTED
  | APPROVAL_RATE_LIMITED | APPROVAL_NON_INTERACTIVE_DENIED
  | APPROVAL_OTHER int

text \<open>\<open>APPROVAL_OTHER n\<close> is a number outside the enumeration, which a message between processes can
  put into a result.\<close>

record 'r AllowlistEntry =
  ae_tool :: "string option"
  ae_pattern :: "string option"
  ae_compiled :: "'r option"
  ae_valid :: bool

record ShellAllowEntry =
  sa_command_prefix :: "string list option"
  sa_prefix_len :: int
  sa_shell_type :: ShellType

record ApprovalChannel =
  request_fd :: int
  response_fd :: int
  subagent_pid :: int

record ApprovalGateCallbacks =
  cb_is_extension_tool :: "(string \<Rightarrow> bool) option"
  cb_get_gate_category :: "(string \<Rightarrow> string option) option"
  cb_get_match_arg :: "(string \<Rightarrow> string option) option"
  cb_get_approval_channel :: "ApprovalChannel option option"

record 'r ApprovalGateConfig =
  enabled :: bool
  is_interactive :: bool
  categories :: "GateCategory \<Rightarrow> GateAction"
  allowlist :: "'r AllowlistEntry list"
  allowlist_capacity :: int
  static_allowlist_count :: int
  shell_allowlist :: "ShellAllowEntry list"
  shell_allowlist_capacity :: int
  static_shell_allowlist_count :: int
  rate_limiter :: "RateLimiter option"
  approval_channel :: "ApprovalChannel option"

definition INITIAL_ALLOWLIST_CAPACITY :: int where
  "INITIAL_ALLOWLIST_CAPACITY = 16"

definition INITIAL_SHELL_ALLOWLIST_CAPACITY :: int where
  "INITIAL_SHELL_ALLOWLIST_CAPACITY = 16"

section \<open>Categories and actions\<close>

fun DEFAULT_CATEGORY_ACTIONS :: "GateCategory \<Rightarrow> GateAction" where
  "DEFAULT_CATEGORY_ACTIONS GATE_CATEGORY_FILE_WRITE = GATE_ACTION_GATE"
| "DEFAULT_CATEGORY_ACTIONS GATE_CATEGORY_FILE_READ = GATE_ACTION_ALLOW"
| "DEFAULT_CATEGORY_ACTIONS GATE_CATEGORY_SHELL = GATE_ACTION_GATE"
| "DEFAULT_CATEGORY_ACTIONS GATE_CATEGORY_NETWORK = GATE_ACTION_GATE"
| "DEFAULT_CATEGORY_ACTIONS GATE_CATEGORY_MEMORY = GATE_ACTION_ALLOW"
| "DEFAULT_CATEGORY_ACTIONS GATE_CATEGORY_SUBAGENT = GATE_ACTION_GATE"
| "DEFAULT_CATEGORY_ACTIONS GATE_CATEGORY_MCP = GATE_ACTION_GATE"
| "DEFAULT_CATEGORY_ACTIONS GATE_CATEGORY_PYTHON = GATE_ACTION_ALLOW"
| "DEFAULT_CATEGORY_ACTIONS GATE_CATEGORY_PLUGIN = GATE_ACTION_GATE"

definition GATE_CATEGORIES :: "GateCategory list" where
  "GATE_CATEGORIES =
     [GATE_CATEGORY_FILE_WRITE, GATE_CATEGORY_FILE_READ, GATE_CATEGORY_SHELL, GATE_CATEGORY_NETWORK,
      GATE_CATEGORY_MEMORY, GATE_CATEGORY_SUBAGENT, GATE_CATEGORY_MCP, GATE_CATEGORY_PYTHON,
      GATE_CATEGORY_PLUGIN]"

fun gate_category_name :: "GateCategory \<Rightarrow> string" where
  "gate_category_name GATE_CATEGORY_FILE_WRITE = ''file_write''"
| "gate_category_name GATE_CATEGORY_FILE_READ = ''file_read''"
| "gate_category_name GATE_CATEGORY_SHELL = ''shell''"
| "gate_category_name GATE_CATEGORY_NETWORK = ''network''"
| "gate_category_name GATE_CATEGORY_MEMORY = ''memory''"
| "gate_category_name GATE_CATEGORY_SUBAGENT = ''subagent''"
| "gate_category_name GATE_CATEGORY_MCP = ''mcp''"
| "gate_category_name GATE_CATEGORY_PYTHON = ''python''"
| "gate_category_name GATE_CATEGORY_PLUGIN = ''plugin''"

fun gate_action_name :: "GateAction \<Rightarrow> string" where
  "gate_action_name GATE_ACTION_ALLOW = ''allow''"
| "gate_action_name GATE_ACTION_GATE = ''gate''"
| "gate_action_name GATE_ACTION_DENY = ''deny''"

fun approval_result_name :: "ApprovalResult \<Rightarrow> string" where
  "approval_result_name APPROVAL_ALLOWED = ''allowed''"
| "approval_result_name APPROVAL_DENIED = ''denied''"
| "approval_result_name APPROVAL_ALLOWED_ALWAYS = ''allowed_always''"
| "approval_result_name APPROVAL_ABORTED = ''aborted''"
| "approval_result_name APPROVAL_RATE_LIMITED = ''rate_limited''"
| "approval_result_name APPROVAL_NON_INTERACTIVE_DENIED = ''non_interactive_denied''"
| "approval_result_name (APPROVAL_OTHER n) = ''unknown''"

definition parse_gate_action :: "string option \<Rightarrow> GateAction option" where
  "parse_gate_action str =
     (case str of
        None \<Rightarrow> None
      | Some s \<Rightarrow>
          if s = ''allow'' then Some GATE_ACTION_ALLOW
          else if s = ''gate'' then Some GATE_ACTION_GATE
          else if s = ''deny'' then Some GATE_ACTION_DENY
          else None)"

definition parse_gate_category :: "string option \<Rightarrow> GateCategory option" where
  "parse_gate_category str =
     (case str of
        None \<Rightarrow> None
      | Some s \<Rightarrow> find (\<lambda>c. s = gate_category_name c) GATE_CATEGORIES)"

definition get_tool_category :: "ApprovalGateCallbacks \<Rightarrow> string option \<Rightarrow> GateCategory" where
  "get_tool_category cbs tool_name =
     (case tool_name of
        None \<Rightarrow> GATE_CATEGORY_PYTHON
      | Some t \<Rightarrow>
          if t \<in> set [''remember'', ''recall_memories'', ''forget_memory'', ''switch_mode'', ''todo'']
          then GATE_CATEGORY_MEMORY
          else if t \<in> set [''vector_db'', ''messaging'', ''goap'', ''orchestrator'']
          then GATE_CATEGORY_MEMORY
          else if starts_with ''mcp_'' t then GATE_CATEGORY_MCP
          else if starts_with ''plugin_'' t then GATE_CATEGORY_PLUGIN
          else if t = ''process_pdf_document'' then GATE_CATEGORY_FILE_READ
          else if t = ''python'' then GATE_CATEGORY_PYTHON
          else if t = ''subagent'' \<or> t = ''subagent_status'' then GATE_CATEGORY_SUBAGENT
          else if t = ''shell'' then GATE_CATEGORY_SHELL
          else if t \<in> set [''read_file'', ''list_dir'', ''search_files''] then GATE_CATEGORY_FILE_READ
          else if t = ''write_file'' \<or> t = ''apply_patch'' then GATE_CATEGORY_FILE_WRITE
          else if t = ''web_fetch'' then GATE_CATEGORY_NETWORK
          else if (case cb_is_extension_tool cbs of None \<Rightarrow> False | Some f \<Rightarrow> f t)
          then (case parse_gate_category
                       (case cb_get_gate_category cbs of None \<Rightarrow> None | Some g \<Rightarrow> g t) of
                  Some c \<Rightarrow> c
                | None \<Rightarrow> GATE_CATEGORY_PYTHON)
          else GATE_CATEGORY_PYTHON)"

definition approval_gate_get_category_action ::
    "'r ApprovalGateConfig option \<Rightarrow> GateCategory \<Rightarrow> GateAction" where
  "approval_gate_get_category_action config category =
     (case config of None \<Rightarrow> GATE_ACTION_GATE | Some c \<Rightarrow> categories c category)"

section \<open>Rate limiting\<close>

definition is_rate_limited :: "int \<Rightarrow> 'r ApprovalGateConfig \<Rightarrow> ToolCall \<Rightarrow> bool" where
  "is_rate_limited now config tool_call =
     (case tc_name tool_call of
        None \<Rightarrow> False
      | Some n \<Rightarrow> rate_limiter_is_blocked now (rate_limiter config) (Some n))"

definition track_denial ::
    "alloc \<Rightarrow> int \<Rightarrow> 'r ApprovalGateConfig \<Rightarrow> ToolCall \<Rightarrow> 'r ApprovalGateConfig" where
  "track_denial ok now config tool_call =
     (case tc_name tool_call of
        None \<Rightarrow> config
      | Some n \<Rightarrow>
          config\<lparr>rate_limiter := rate_limiter_record_denial ok now (rate_limiter config) (Some n)\<rparr>)"

definition reset_denial_tracker ::
    "'r ApprovalGateConfig \<Rightarrow> string option \<Rightarrow> 'r ApprovalGateConfig" where
  "reset_denial_tracker config tool =
     (case tool of
        None \<Rightarrow> config
      | Some t \<Rightarrow> config\<lparr>rate_limiter := rate_limiter_reset (rate_limiter config) (Some t)\<rparr>)"

definition get_rate_limit_remaining :: "int \<Rightarrow> 'r ApprovalGateConfig \<Rightarrow> string option \<Rightarrow> int" where
  "get_rate_limit_remaining now config tool =
     (case tool of
        None \<Rightarrow> 0
      | Some t \<Rightarrow> rate_limiter_get_remaining now (rate_limiter config) (Some t))"

section \<open>Adding entries\<close>

text \<open>Sites: 0 the growth of the array, 1 and 2 the copies. A pattern that does not compile is kept
  as an entry that never matches.\<close>

definition approval_gate_add_allowlist ::
    "alloc \<Rightarrow> 'r regex_lib \<Rightarrow> 'r ApprovalGateConfig \<Rightarrow> string option \<Rightarrow> string option
     \<Rightarrow> int \<times> 'r ApprovalGateConfig" where
  "approval_gate_add_allowlist ok re config tool pattern =
     (case (tool, pattern) of
        (Some t, Some p) \<Rightarrow>
          (let full = int (length (allowlist config)) \<ge> allowlist_capacity config
           in if full \<and> \<not> ok 0 then (-1, config)
              else let config = (if full
                         then config\<lparr>allowlist_capacity := wrap32 (allowlist_capacity config * 2)\<rparr>
                         else config)
              in if \<not> ok 1 then (-1, config)
                 else if \<not> ok 2 then (-1, config)
                 else (0, config\<lparr>allowlist := allowlist config @
                         [\<lparr>ae_tool = Some t, ae_pattern = Some p, ae_compiled = regcomp re p,
                           ae_valid = (regcomp re p \<noteq> None)\<rparr>]\<rparr>))
      | _ \<Rightarrow> (-1, config))"

text \<open>Sites: 0 the growth of the array, 1 the prefix, \<open>2 + i\<close> its token \<open>i\<close>.\<close>

definition approval_gate_add_shell_allowlist ::
    "alloc \<Rightarrow> 'r ApprovalGateConfig \<Rightarrow> string list option \<Rightarrow> ShellType
     \<Rightarrow> int \<times> 'r ApprovalGateConfig" where
  "approval_gate_add_shell_allowlist ok config command_prefix stype =
     (case command_prefix of
        None \<Rightarrow> (-1, config)
      | Some ts \<Rightarrow>
          if int (length ts) \<le> 0 then (-1, config)
          else (let full = int (length (shell_allowlist config)) \<ge> shell_allowlist_capacity config
           in if full \<and> \<not> ok 0 then (-1, config)
              else let config = (if full
                         then config\<lparr>shell_allowlist_capacity := wrap32 (shell_allowlist_capacity config * 2)\<rparr>
                         else config)
              in if \<not> ok 1 then (-1, config)
                 else if \<not> list_all (\<lambda>i. ok (2 + i)) [0..<length ts] then (-1, config)
                 else (0, config\<lparr>shell_allowlist := shell_allowlist config @
                         [\<lparr>sa_command_prefix = Some ts, sa_prefix_len = int (length ts),
                           sa_shell_type = stype\<rparr>]\<rparr>)))"


section \<open>The configuration file\<close>

definition load_category :: "'j cjson \<Rightarrow> 'j \<Rightarrow> 'r ApprovalGateConfig \<Rightarrow> 'r ApprovalGateConfig" where
  "load_category js cat_item config =
     (if \<not> cJSON_IsString js cat_item then config
      else case parse_gate_category (cJSON_string js cat_item) of
             None \<Rightarrow> config
           | Some category \<Rightarrow>
               (case parse_gate_action (cJSON_valuestring js cat_item) of
                  None \<Rightarrow> config
                | Some action \<Rightarrow> config\<lparr>categories := (categories config)(category := action)\<rparr>))"

text \<open>The tokens of a command, if all of them are strings.\<close>

fun command_tokens :: "'j cjson \<Rightarrow> 'j list \<Rightarrow> string list option" where
  "command_tokens js [] = Some []"
| "command_tokens js (i # is) =
     (case jstring js (Some i) of
        None \<Rightarrow> None
      | Some t \<Rightarrow> map_option ((#) t) (command_tokens js is))"

text \<open>One entry of the allowlist; site 0 of \<open>ok\<close> is the array of tokens, the others those of the
  addition.\<close>

definition load_entry ::
    "alloc \<Rightarrow> 'j cjson \<Rightarrow> 'r regex_lib \<Rightarrow> 'j \<Rightarrow> 'r ApprovalGateConfig \<Rightarrow> 'r ApprovalGateConfig" where
  "load_entry ok js re entry config =
     (if \<not> cJSON_IsObject js entry then config
      else if \<not> jtest (cJSON_IsString js) (cJSON_GetObjectItem js entry ''tool'') then config
      else let tool_name = jstring js (cJSON_GetObjectItem js entry ''tool'')
      in if jtest (cJSON_IsArray js) (cJSON_GetObjectItem js entry ''command'')
         then let items = cJSON_elements js (the (cJSON_GetObjectItem js entry ''command''))
              in if int (length items) \<le> 0 then config
                 else if \<not> ok 0 then config
                 else (case command_tokens js items of
                         None \<Rightarrow> config
                       | Some command_prefix \<Rightarrow>
                           let stype = (case jstring js (cJSON_GetObjectItem js entry ''shell'') of
                                          None \<Rightarrow> SHELL_TYPE_UNKNOWN
                                        | Some s \<Rightarrow> (case parse_shell_type s of
                                                     None \<Rightarrow> SHELL_TYPE_UNKNOWN
                                                   | Some t \<Rightarrow> t))
                           in snd (approval_gate_add_shell_allowlist (\<lambda>n. ok (Suc n)) config
                                     (Some command_prefix) stype))
         else case jstring js (cJSON_GetObjectItem js entry ''pattern'') of
                None \<Rightarrow> config
              | Some pattern \<Rightarrow>
                  snd (approval_gate_add_allowlist (\<lambda>n. ok (Suc n)) re config tool_name (Some pattern)))"

fun load_entries ::
    "(nat \<Rightarrow> alloc) \<Rightarrow> 'j cjson \<Rightarrow> 'r regex_lib \<Rightarrow> nat \<Rightarrow> 'j list \<Rightarrow> 'r ApprovalGateConfig
     \<Rightarrow> 'r ApprovalGateConfig" where
  "load_entries oks js re i [] config = config"
| "load_entries oks js re i (e # es) config =
     load_entries oks js re (Suc i) es (load_entry (oks i) js re e config)"

definition approval_gate_load_from_json ::
    "(nat \<Rightarrow> alloc) \<Rightarrow> 'j cjson \<Rightarrow> 'r regex_lib \<Rightarrow> 'r ApprovalGateConfig \<Rightarrow> 'j
     \<Rightarrow> 'r ApprovalGateConfig" where
  "approval_gate_load_from_json oks js re config json =
     (case cJSON_GetObjectItem js json ''approval_gates'' of
        None \<Rightarrow> config
      | Some gates \<Rightarrow>
          if \<not> cJSON_IsObject js gates then config
          else
            let config =
                  (case cJSON_GetObjectItem js gates ''enabled'' of
                     Some e \<Rightarrow> if cJSON_IsBool js e then config\<lparr>enabled := cJSON_IsTrue js e\<rparr> else config
                   | None \<Rightarrow> config);
                config =
                  (case cJSON_GetObjectItem js gates ''categories'' of
                     Some cs \<Rightarrow> if cJSON_IsObject js cs
                                then fold (load_category js) (cJSON_elements js cs) config else config
                   | None \<Rightarrow> config)
            in case cJSON_GetObjectItem js gates ''allowlist'' of
                 Some al \<Rightarrow> if cJSON_IsArray js al
                            then load_entries oks js re 0 (cJSON_elements js al) config else config
               | None \<Rightarrow> config)"

text \<open>\<open>content\<close> is what the file holds, if it can be opened; site 0 is the buffer. \<open>None\<close> is the return
  value -1.\<close>

definition approval_gate_load_from_file ::
    "alloc \<Rightarrow> (nat \<Rightarrow> alloc) \<Rightarrow> 'j cjson \<Rightarrow> 'r regex_lib \<Rightarrow> 'r ApprovalGateConfig \<Rightarrow> string option
     \<Rightarrow> 'r ApprovalGateConfig option" where
  "approval_gate_load_from_file ok oks js re config content =
     (case content of
        None \<Rightarrow> None
      | Some text \<Rightarrow>
          if int (length text) \<le> 0 then None
          else if \<not> ok 0 then None
          else case cJSON_Parse js text of
                 None \<Rightarrow> None
               | Some json \<Rightarrow> Some (approval_gate_load_from_json oks js re config json))"

definition default_config :: "'r ApprovalGateConfig" where
  "default_config =
     \<lparr>enabled = True, is_interactive = False, categories = DEFAULT_CATEGORY_ACTIONS,
      allowlist = [], allowlist_capacity = INITIAL_ALLOWLIST_CAPACITY, static_allowlist_count = 0,
      shell_allowlist = [], shell_allowlist_capacity = INITIAL_SHELL_ALLOWLIST_CAPACITY,
      static_shell_allowlist_count = 0, rate_limiter = None, approval_channel = None\<rparr>"

text \<open>Sites: 0 and 1 the arrays, 2 and 3 the limiter, 4 the path, 5 the file buffer; \<open>files\<close> gives the
  content of a readable file. \<open>None\<close> is the return value -1.\<close>

definition approval_gate_init ::
    "alloc \<Rightarrow> (nat \<Rightarrow> alloc) \<Rightarrow> 'j cjson \<Rightarrow> 'r regex_lib \<Rightarrow> app_home \<Rightarrow> (string \<Rightarrow> string option)
     \<Rightarrow> 'r ApprovalGateConfig option" where
  "approval_gate_init ok oks js re home files =
     (if \<not> ok 0 then None
      else if \<not> ok 1 then None
      else case rate_limiter_create (\<lambda>n. ok (2 + n)) of
             None \<Rightarrow> None
           | Some rl \<Rightarrow>
               let config = default_config\<lparr>rate_limiter := Some rl\<rparr>;
                   config =
                     (case app_home_path (\<lambda>_. ok 4) home (Some ''config.json'') of
                        None \<Rightarrow> config
                      | Some path \<Rightarrow>
                          if files path = None then config
                          else (case approval_gate_load_from_file (\<lambda>_. ok 5) oks js re config (files path) of
                                  None \<Rightarrow> config
                                | Some c \<Rightarrow> c))
               in Some (config\<lparr>static_allowlist_count := int (length (allowlist config)),
                               static_shell_allowlist_count := int (length (shell_allowlist config))\<rparr>))"

section \<open>Passing the configuration to a child\<close>

text \<open>Site 0 copies the tool, site 1 the pattern, which is compiled again.\<close>

definition copy_entry ::
    "alloc \<Rightarrow> 'r regex_lib \<Rightarrow> 'r AllowlistEntry \<Rightarrow> 'r AllowlistEntry option" where
  "copy_entry ok re src =
     (if ae_tool src \<noteq> None \<and> \<not> ok 0 then None
      else case ae_pattern src of
             None \<Rightarrow> Some \<lparr>ae_tool = ae_tool src, ae_pattern = None, ae_compiled = None, ae_valid = False\<rparr>
           | Some p \<Rightarrow>
               if \<not> ok 1 then None
               else Some \<lparr>ae_tool = ae_tool src, ae_pattern = Some p, ae_compiled = regcomp re p,
                          ae_valid = (regcomp re p \<noteq> None)\<rparr>)"

text \<open>Site 0 is the array of the prefix, \<open>1 + j\<close> its token \<open>j\<close>.\<close>

definition copy_shell_entry :: "alloc \<Rightarrow> ShellAllowEntry \<Rightarrow> ShellAllowEntry option" where
  "copy_shell_entry ok src =
     (case sa_command_prefix src of
        Some ts \<Rightarrow>
          if sa_prefix_len src > 0
          then if \<not> ok 0 then None
               else if \<not> list_all (\<lambda>j. ok (1 + j)) [0..<length ts] then None
               else Some src
          else Some (src\<lparr>sa_command_prefix := None\<rparr>)
      | None \<Rightarrow> Some (src\<lparr>sa_command_prefix := None\<rparr>))"

fun copy_all :: "(nat \<Rightarrow> 'a \<Rightarrow> 'a option) \<Rightarrow> nat \<Rightarrow> 'a list \<Rightarrow> 'a list option" where
  "copy_all f i [] = Some []"
| "copy_all f i (x # xs) =
     (case f i x of
        None \<Rightarrow> None
      | Some y \<Rightarrow> map_option ((#) y) (copy_all f (Suc i) xs))"

text \<open>\<open>oks 0\<close> has the sites of the two arrays and of the limiter, \<open>oks (1 + 2i)\<close> and \<open>oks (2 + 2i)\<close>
  those of entry \<open>i\<close> of either list.\<close>

definition approval_gate_init_from_parent ::
    "(nat \<Rightarrow> alloc) \<Rightarrow> 'r regex_lib \<Rightarrow> 'r ApprovalGateConfig option \<Rightarrow> 'r ApprovalGateConfig option" where
  "approval_gate_init_from_parent oks re parent =
     (case parent of
        None \<Rightarrow> None
      | Some par \<Rightarrow>
          let static_count = (if static_allowlist_count par < 0 then 0 else static_allowlist_count par);
              static_shell_count =
                (if static_shell_allowlist_count par < 0 then 0 else static_shell_allowlist_count par)
          in if \<not> oks 0 0 then None
             else case copy_all (\<lambda>i. copy_entry (oks (1 + 2 * i)) re) 0
                         (take (nat static_count) (allowlist par)) of
               None \<Rightarrow> None
             | Some entries \<Rightarrow>
                 if \<not> oks 0 1 then None
                 else case copy_all (\<lambda>i. copy_shell_entry (oks (2 + 2 * i))) 0
                             (take (nat static_shell_count) (shell_allowlist par)) of
                   None \<Rightarrow> None
                 | Some copies \<Rightarrow>
                     (case rate_limiter_create (\<lambda>n. oks 0 (2 + n)) of
                        None \<Rightarrow> None
                      | Some rl \<Rightarrow>
                          Some \<lparr>enabled = enabled par, is_interactive = False,
                            categories = categories par,
                            allowlist = entries,
                            allowlist_capacity =
                              (if static_count > 0 then static_count else INITIAL_ALLOWLIST_CAPACITY),
                            static_allowlist_count = int (length entries),
                            shell_allowlist = copies,
                            shell_allowlist_capacity =
                              (if static_shell_count > 0 then static_shell_count
                               else INITIAL_SHELL_ALLOWLIST_CAPACITY),
                            static_shell_allowlist_count = int (length copies),
                            rate_limiter = Some rl, approval_channel = None\<rparr>))"

section \<open>Changes from the command line\<close>

definition approval_gate_enable_yolo :: "'r ApprovalGateConfig \<Rightarrow> 'r ApprovalGateConfig" where
  "approval_gate_enable_yolo config = config\<lparr>enabled := False\<rparr>"

definition approval_gate_set_category_action ::
    "'r ApprovalGateConfig \<Rightarrow> string option \<Rightarrow> GateAction \<Rightarrow> int \<times> 'r ApprovalGateConfig" where
  "approval_gate_set_category_action config category_name action =
     (case parse_gate_category category_name of
        None \<Rightarrow> (-1, config)
      | Some category \<Rightarrow> (0, config\<lparr>categories := (categories config)(category := action)\<rparr>))"

text \<open>\<^verbatim>\<open>strtok_r\<close> with a one-character separator: the non-empty texts between separators.\<close>

fun strtok_from :: "char \<Rightarrow> string \<Rightarrow> string \<Rightarrow> string list" where
  "strtok_from sep acc [] = (if acc = [] then [] else [acc])"
| "strtok_from sep acc (c # cs) =
     (if c = sep then (if acc = [] then [] else [acc]) @ strtok_from sep [] cs
      else strtok_from sep (acc @ [c]) cs)"

text \<open>Sites: 0 the tool name, 1 to 3 the token arrays and the copy, \<open>4 + i\<close> token \<open>i\<close>; \<open>ok'\<close> has those
  of the addition. The program never has more tokens than commas plus one, its array's size.\<close>

definition approval_gate_add_cli_allow ::
    "alloc \<Rightarrow> alloc \<Rightarrow> 'r regex_lib \<Rightarrow> 'r ApprovalGateConfig \<Rightarrow> string option
     \<Rightarrow> int \<times> 'r ApprovalGateConfig" where
  "approval_gate_add_cli_allow ok ok' re config allow_spec =
     (case allow_spec of
        None \<Rightarrow> (-1, config)
      | Some spec \<Rightarrow>
          (case strchr_split COLON spec of
             None \<Rightarrow> (-1, config)
           | Some (tool_name, args) \<Rightarrow>
               if tool_name = [] then (-1, config)
               else if \<not> ok 0 then (-1, config)
               else if args = [] then (-1, config)
               else if tool_name = ''shell'' then
                 (if \<not> (ok 1 \<and> ok 2 \<and> ok 3) then (-1, config)
                  else let toks = strtok_from (CHR 0x2C) [] args
                       in if \<not> list_all (\<lambda>i. ok (4 + i)) [0..<length toks] then (-1, config)
                          else approval_gate_add_shell_allowlist ok' config (Some toks) SHELL_TYPE_UNKNOWN)
               else approval_gate_add_allowlist ok' re config (Some tool_name) (Some args)))"

definition approval_gate_detect_interactive ::
    "bool \<Rightarrow> 'r ApprovalGateConfig \<Rightarrow> 'r ApprovalGateConfig" where
  "approval_gate_detect_interactive isatty config = config\<lparr>is_interactive := isatty\<rparr>"

definition approval_gate_is_interactive :: "'r ApprovalGateConfig option \<Rightarrow> bool" where
  "approval_gate_is_interactive config =
     (case config of None \<Rightarrow> False | Some c \<Rightarrow> is_interactive c)"

definition approval_gate_cleanup :: "'r ApprovalGateConfig \<Rightarrow> 'r ApprovalGateConfig" where
  "approval_gate_cleanup config =
     config\<lparr>allowlist := [], shell_allowlist := [], rate_limiter := None, approval_channel := None,
            allowlist_capacity := 0, shell_allowlist_capacity := 0\<rparr>"


section \<open>Invariant\<close>

text \<open>Every entry is one the program has built, and the entries from the configuration file come
  first.\<close>

definition gate_entry_ok :: "'r regex_lib \<Rightarrow> 'r AllowlistEntry \<Rightarrow> bool" where
  "gate_entry_ok re e \<longleftrightarrow>
     ae_tool e \<noteq> None \<and>
     (case ae_pattern e of None \<Rightarrow> False
      | Some p \<Rightarrow> ae_compiled e = regcomp re p \<and> ae_valid e = (regcomp re p \<noteq> None))"

definition gate_shell_entry_ok :: "ShellAllowEntry \<Rightarrow> bool" where
  "gate_shell_entry_ok e \<longleftrightarrow>
     (case sa_command_prefix e of None \<Rightarrow> False
      | Some ts \<Rightarrow> ts \<noteq> [] \<and> sa_prefix_len e = int (length ts))"

definition gate_inv :: "'r regex_lib \<Rightarrow> 'r ApprovalGateConfig \<Rightarrow> bool" where
  "gate_inv re c \<longleftrightarrow>
     list_all (gate_entry_ok re) (allowlist c) \<and> list_all gate_shell_entry_ok (shell_allowlist c) \<and>
     0 \<le> static_allowlist_count c \<and> static_allowlist_count c \<le> int (length (allowlist c)) \<and>
     0 \<le> static_shell_allowlist_count c \<and>
     static_shell_allowlist_count c \<le> int (length (shell_allowlist c)) \<and>
     (\<exists>rl. rate_limiter c = Some rl \<and> rl_inv rl)"

text \<open>How an operation that only adds entries changes a configuration.\<close>

definition extends :: "'r ApprovalGateConfig \<Rightarrow> 'r ApprovalGateConfig \<Rightarrow> bool" where
  "extends c c' \<longleftrightarrow>
     enabled c' = enabled c \<and> is_interactive c' = is_interactive c \<and> categories c' = categories c \<and>
     static_allowlist_count c' = static_allowlist_count c \<and>
     static_shell_allowlist_count c' = static_shell_allowlist_count c \<and>
     rate_limiter c' = rate_limiter c \<and> approval_channel c' = approval_channel c \<and>
     prefix (allowlist c) (allowlist c') \<and> prefix (shell_allowlist c) (shell_allowlist c')"

lemma extends_refl [simp]: "extends c c"
  by (simp add: extends_def)

lemma extends_trans: "extends a b \<Longrightarrow> extends b c \<Longrightarrow> extends a c"
  by (auto simp: extends_def intro: prefix_order.trans)

definition built_entry :: "'r regex_lib \<Rightarrow> string \<Rightarrow> string \<Rightarrow> 'r AllowlistEntry" where
  "built_entry re t p =
     \<lparr>ae_tool = Some t, ae_pattern = Some p, ae_compiled = regcomp re p, ae_valid = (regcomp re p \<noteq> None)\<rparr>"

definition built_shell_entry :: "string list \<Rightarrow> ShellType \<Rightarrow> ShellAllowEntry" where
  "built_shell_entry ts st =
     \<lparr>sa_command_prefix = Some ts, sa_prefix_len = int (length ts), sa_shell_type = st\<rparr>"

lemma built_entries_ok [simp]:
  "gate_entry_ok re (built_entry re t p)"
  "ts \<noteq> [] \<Longrightarrow> gate_shell_entry_ok (built_shell_entry ts st)"
  by (simp_all add: gate_entry_ok_def built_entry_def gate_shell_entry_ok_def built_shell_entry_def)

lemma capacity_same [simp]:
  "c\<lparr>allowlist_capacity := allowlist_capacity c\<rparr> = c"
  "c\<lparr>shell_allowlist_capacity := shell_allowlist_capacity c\<rparr> = c"
  by (cases c; simp)+

lemma add_allowlist_cases:
  obtains (failed) cap where "approval_gate_add_allowlist ok re c tool pat = (-1, c\<lparr>allowlist_capacity := cap\<rparr>)"
  | (added) cap t p where "tool = Some t" "pat = Some p" "ok 1" "ok 2"
      "approval_gate_add_allowlist ok re c tool pat =
         (0, c\<lparr>allowlist := allowlist c @ [built_entry re t p], allowlist_capacity := cap\<rparr>)"
proof (cases "tool = None \<or> pat = None")
  case True
  then have "approval_gate_add_allowlist ok re c tool pat = (-1, c\<lparr>allowlist_capacity := allowlist_capacity c\<rparr>)"
    by (auto simp: approval_gate_add_allowlist_def split: option.split)
  then show ?thesis by (rule failed)
next
  case False
  then obtain t p where tp: "tool = Some t" "pat = Some p" by auto
  define full where "full \<longleftrightarrow> allowlist_capacity c \<le> int (length (allowlist c))"
  define cap where "cap = (if full then wrap32 (allowlist_capacity c * 2) else allowlist_capacity c)"
  show ?thesis
  proof (cases "(full \<longrightarrow> ok 0) \<and> ok 1 \<and> ok 2")
    case True
    then have "approval_gate_add_allowlist ok re c tool pat =
         (0, c\<lparr>allowlist := allowlist c @ [built_entry re t p], allowlist_capacity := cap\<rparr>)"
      by (simp add: approval_gate_add_allowlist_def tp built_entry_def cap_def full_def)
    then show ?thesis using added tp True by blast
  next
    case False
    have "approval_gate_add_allowlist ok re c tool pat =
        (-1, c\<lparr>allowlist_capacity := (if full \<and> \<not> ok 0 then allowlist_capacity c else cap)\<rparr>)"
      using False by (auto simp: approval_gate_add_allowlist_def tp cap_def full_def)
    then show ?thesis by (rule failed)
  qed
qed

lemma add_shell_allowlist_cases:
  obtains (failed) cap where "approval_gate_add_shell_allowlist ok c pre st = (-1, c\<lparr>shell_allowlist_capacity := cap\<rparr>)"
  | (added) cap ts where "pre = Some ts" "ts \<noteq> []"
      "approval_gate_add_shell_allowlist ok c pre st =
         (0, c\<lparr>shell_allowlist := shell_allowlist c @ [built_shell_entry ts st], shell_allowlist_capacity := cap\<rparr>)"
proof (cases "pre = None \<or> pre = Some []")
  case True
  then have "approval_gate_add_shell_allowlist ok c pre st = (-1, c\<lparr>shell_allowlist_capacity := shell_allowlist_capacity c\<rparr>)"
    by (auto simp: approval_gate_add_shell_allowlist_def)
  then show ?thesis by (rule failed)
next
  case False
  then obtain ts where ts: "pre = Some ts" "ts \<noteq> []" by auto
  define full where "full \<longleftrightarrow> shell_allowlist_capacity c \<le> int (length (shell_allowlist c))"
  define cap where "cap = (if full then wrap32 (shell_allowlist_capacity c * 2) else shell_allowlist_capacity c)"
  show ?thesis
  proof (cases "(full \<longrightarrow> ok 0) \<and> ok 1 \<and> list_all (\<lambda>i. ok (2 + i)) [0..<length ts]")
    case True
    then have "approval_gate_add_shell_allowlist ok c pre st =
         (0, c\<lparr>shell_allowlist := shell_allowlist c @ [built_shell_entry ts st], shell_allowlist_capacity := cap\<rparr>)"
      using ts(2) by (simp add: approval_gate_add_shell_allowlist_def ts(1) built_shell_entry_def cap_def full_def)
    then show ?thesis using added ts by blast
  next
    case False
    have "approval_gate_add_shell_allowlist ok c pre st =
        (-1, c\<lparr>shell_allowlist_capacity := (if full \<and> \<not> ok 0 then shell_allowlist_capacity c else cap)\<rparr>)"
      using False ts(2) by (auto simp: approval_gate_add_shell_allowlist_def ts(1) cap_def full_def)
    then show ?thesis by (rule failed)
  qed
qed

lemma extends_add [simp]:
  "extends c (snd (approval_gate_add_allowlist ok re c tool pat))"
  "extends c (snd (approval_gate_add_shell_allowlist ok c pre st))"
  by (cases rule: add_allowlist_cases[of ok re c tool pat]; simp add: extends_def)
    (cases rule: add_shell_allowlist_cases[of ok c pre st]; simp add: extends_def)

lemma gate_inv_add [inv_intro]:
  assumes "gate_inv re c"
  shows "gate_inv re (snd (approval_gate_add_allowlist ok re c tool pat))"
    and "gate_inv re (snd (approval_gate_add_shell_allowlist ok c pre st))"
  using assms
  by (cases rule: add_allowlist_cases[of ok re c tool pat]; simp add: gate_inv_def)
    (cases rule: add_shell_allowlist_cases[of ok c pre st]; use assms in \<open>simp add: gate_inv_def\<close>)

lemma extends_add_cli [simp]:
  "extends c (snd (approval_gate_add_cli_allow ok ok' re c spec))"
  by (auto simp: approval_gate_add_cli_allow_def Let_def split: option.split)

lemma gate_inv_add_cli [inv_intro]:
  "gate_inv re c \<Longrightarrow> gate_inv re (snd (approval_gate_add_cli_allow ok ok' re c spec))"
  by (auto simp: approval_gate_add_cli_allow_def Let_def gate_inv_add split: option.split)


section \<open>Initialisation\<close>

lemma gate_inv_load_category: "gate_inv re c \<Longrightarrow> gate_inv re (load_category js item c)"
  by (auto simp: load_category_def gate_inv_def split: option.split)

lemma gate_inv_load_categories: "gate_inv re c \<Longrightarrow> gate_inv re (fold (load_category js) items c)"
  by (induction items arbitrary: c) (auto intro: gate_inv_load_category)

lemma gate_inv_load_entry: "gate_inv re c \<Longrightarrow> gate_inv re (load_entry ok js re e c)"
  by (auto simp: load_entry_def Let_def gate_inv_add split: option.split)

lemma gate_inv_load_entries: "gate_inv re c \<Longrightarrow> gate_inv re (load_entries oks js re i es c)"
  by (induction es arbitrary: i c) (auto intro: gate_inv_load_entry)

lemma gate_inv_enabled [simp]: "gate_inv re (c\<lparr>enabled := b\<rparr>) = gate_inv re c"
  by (simp add: gate_inv_def)

lemma gate_inv_load_json: "gate_inv re c \<Longrightarrow> gate_inv re (approval_gate_load_from_json oks js re c j)"
  by (auto simp: approval_gate_load_from_json_def Let_def split: option.split
      intro!: gate_inv_load_entries gate_inv_load_categories)

lemma gate_inv_load_file:
  "gate_inv re c \<Longrightarrow> approval_gate_load_from_file ok oks js re c content = Some c' \<Longrightarrow> gate_inv re c'"
  by (auto simp: approval_gate_load_from_file_def gate_inv_load_json split: option.splits if_splits)

lemma gate_inv_default: "rl_inv rl \<Longrightarrow> gate_inv re (default_config\<lparr>rate_limiter := Some rl\<rparr>)"
  by (simp add: gate_inv_def default_config_def)

lemma gate_inv_static:
  "gate_inv re c \<Longrightarrow> gate_inv re (c\<lparr>static_allowlist_count := int (length (allowlist c)),
     static_shell_allowlist_count := int (length (shell_allowlist c))\<rparr>)"
  by (simp add: gate_inv_def)

lemma gate_inv_init [inv_intro]:
  fixes re :: "'r regex_lib"
  assumes "approval_gate_init ok oks js re home files = Some c"
  shows "gate_inv re c" and "static_allowlist_count c = int (length (allowlist c))"
    and "static_shell_allowlist_count c = int (length (shell_allowlist c))"
proof -
  obtain rl where rl: "rate_limiter_create (\<lambda>n. ok (2 + n)) = Some rl"
    using assms by (auto simp: approval_gate_init_def split: if_splits option.splits)
  define c0 :: "'r ApprovalGateConfig" where "c0 = default_config\<lparr>rate_limiter := Some rl\<rparr>"
  define c1 where "c1 = (case app_home_path (\<lambda>_. ok 4) home (Some ''config.json'') of
                        None \<Rightarrow> c0
                      | Some path \<Rightarrow>
                          if files path = None then c0
                          else (case approval_gate_load_from_file (\<lambda>_. ok 5) oks js re c0 (files path) of
                                  None \<Rightarrow> c0
                                | Some c \<Rightarrow> c))"
  have c: "c = c1\<lparr>static_allowlist_count := int (length (allowlist c1)),
      static_shell_allowlist_count := int (length (shell_allowlist c1))\<rparr>"
    using assms rl unfolding approval_gate_init_def Let_def c1_def c0_def
    by (simp split: if_splits)
  have "gate_inv re c0"
    unfolding c0_def by (intro gate_inv_default rl_inv_create[OF rl])
  then have "gate_inv re c1"
    by (auto simp: c1_def split: option.split intro: gate_inv_load_file)
  then show "gate_inv re c"
    unfolding c by (rule gate_inv_static)
  show "static_allowlist_count c = int (length (allowlist c))"
    and "static_shell_allowlist_count c = int (length (shell_allowlist c))"
    by (simp_all add: c)
qed

section \<open>Inheritance\<close>

lemma copy_all_id:
  assumes "\<And>i x y. x \<in> set xs \<Longrightarrow> f i x = Some y \<Longrightarrow> y = x" and "copy_all f i xs = Some ys"
  shows "ys = xs"
  using assms
proof (induction xs arbitrary: i ys)
  case (Cons x xs)
  then obtain y zs where "f i x = Some y" "copy_all f (Suc i) xs = Some zs" "ys = y # zs"
    by (auto split: option.splits)
  with Cons show ?case
    by (metis list.set_intros)
qed simp

lemma copy_entry_id: "gate_entry_ok re e \<Longrightarrow> copy_entry ok re e = Some e' \<Longrightarrow> e' = e"
  by (cases e) (auto simp: gate_entry_ok_def copy_entry_def split: if_splits option.splits)

lemma copy_shell_entry_id: "gate_shell_entry_ok e \<Longrightarrow> copy_shell_entry ok e = Some e' \<Longrightarrow> e' = e"
  by (auto simp: gate_shell_entry_ok_def copy_shell_entry_def split: if_splits option.splits)

lemma init_from_parent_Some:
  assumes "gate_inv re par" and "approval_gate_init_from_parent oks re (Some par) = Some ch"
  shows "allowlist ch = take (nat (static_allowlist_count par)) (allowlist par)"
    and "shell_allowlist ch = take (nat (static_shell_allowlist_count par)) (shell_allowlist par)"
    and "categories ch = categories par" and "enabled ch = enabled par" and "\<not> is_interactive ch"
    and "\<exists>rl. rate_limiter ch = Some rl \<and> rl_entries rl = []" and "gate_inv re ch"
proof -
  let ?n = "nat (static_allowlist_count par)" and ?m = "nat (static_shell_allowlist_count par)"
  have nn: "\<not> static_allowlist_count par < 0" "\<not> static_shell_allowlist_count par < 0"
    using assms(1) by (auto simp: gate_inv_def)
  obtain es ss rl where
    es: "copy_all (\<lambda>i. copy_entry (oks (1 + 2 * i)) re) 0 (take ?n (allowlist par)) = Some es"
    and ss: "copy_all (\<lambda>i. copy_shell_entry (oks (2 + 2 * i))) 0 (take ?m (shell_allowlist par)) = Some ss"
    and rl: "rate_limiter_create (\<lambda>n. oks 0 (2 + n)) = Some rl"
    and ch: "allowlist ch = es" "shell_allowlist ch = ss" "rate_limiter ch = Some rl"
      "static_allowlist_count ch = int (length es)" "static_shell_allowlist_count ch = int (length ss)"
      "categories ch = categories par" "enabled ch = enabled par" "\<not> is_interactive ch"
    using assms(2) nn unfolding approval_gate_init_from_parent_def Let_def
    by (auto split: if_splits option.splits)
  have ok: "list_all (gate_entry_ok re) (take ?n (allowlist par))"
      "list_all gate_shell_entry_ok (take ?m (shell_allowlist par))"
    using assms(1) by (auto simp: gate_inv_def list_all_iff dest: in_set_takeD)
  have e: "es = take ?n (allowlist par)"
    using es ok(1) by (intro copy_all_id[OF _ es]) (auto simp: list_all_iff intro: copy_entry_id)
  have s: "ss = take ?m (shell_allowlist par)"
    using ss ok(2) by (intro copy_all_id[OF _ ss]) (auto simp: list_all_iff intro: copy_shell_entry_id)
  show "allowlist ch = take ?n (allowlist par)" "shell_allowlist ch = take ?m (shell_allowlist par)"
    "categories ch = categories par" "enabled ch = enabled par" "\<not> is_interactive ch"
    using ch e s by simp_all
  show "\<exists>rl. rate_limiter ch = Some rl \<and> rl_entries rl = []"
    using ch(3) rl by (auto simp: rate_limiter_create_def split: if_splits)
  show "gate_inv re ch"
    using ch e s ok rl_inv_create[OF rl] by (simp add: gate_inv_def)
qed

lemma init_from_parent_extends:
  assumes "gate_inv re par" and "extends par par'"
  shows "approval_gate_init_from_parent oks re (Some par') = approval_gate_init_from_parent oks re (Some par)"
proof -
  have same: "static_allowlist_count par' = static_allowlist_count par"
      "static_shell_allowlist_count par' = static_shell_allowlist_count par"
      "enabled par' = enabled par" "categories par' = categories par"
      "\<not> static_allowlist_count par < 0" "\<not> static_shell_allowlist_count par < 0"
    using assms by (auto simp: extends_def gate_inv_def)
  have t: "take (nat (static_allowlist_count par)) (allowlist par') = take (nat (static_allowlist_count par)) (allowlist par)"
    "take (nat (static_shell_allowlist_count par)) (shell_allowlist par') =
     take (nat (static_shell_allowlist_count par)) (shell_allowlist par)"
    using assms by (auto simp: extends_def gate_inv_def intro!: take_of_prefix)
  show ?thesis
    unfolding approval_gate_init_from_parent_def option.case Let_def same(1-4) if_not_P[OF same(5)]
      if_not_P[OF same(6)] t by (rule refl)
qed

text \<open>Entries a session adds: a pattern or a prefix approved for good, or an option of the command
  line.\<close>

datatype session_add =
    Add_regex "string option" "string option" | Add_shell "string list option" ShellType
  | Add_cli "string option"

fun session_step :: "'r regex_lib \<Rightarrow> alloc \<times> alloc \<times> session_add \<Rightarrow> 'r ApprovalGateConfig \<Rightarrow> 'r ApprovalGateConfig" where
  "session_step re (ok, ok', Add_regex t p) c = snd (approval_gate_add_allowlist ok re c t p)"
| "session_step re (ok, ok', Add_shell ts st) c = snd (approval_gate_add_shell_allowlist ok c ts st)"
| "session_step re (ok, ok', Add_cli spec) c = snd (approval_gate_add_cli_allow ok ok' re c spec)"

lemma session_step_keeps:
  "extends c (session_step re a c)"
  "gate_inv re c \<Longrightarrow> gate_inv re (session_step re a c)"
  by (cases "(re, a, c)" rule: session_step.cases; simp add: gate_inv_add gate_inv_add_cli)+

lemma session_keeps: "extends c (fold (session_step re) ops c)"
  by (induction ops arbitrary: c) (auto intro: extends_trans session_step_keeps)

text \<open>C25. Approvals for a session are not inherited. A configuration built by the initialisation,
  whatever the file held and whatever allocations failed, passes to a child exactly the entries
  from the file: the entries that the session adds later, in any number and with any failures,
  make no difference to the child. The child has the parent's categories, is never interactive
  and starts with an empty denial counter.\<close>

theorem child_inherits_static_only:
  assumes "approval_gate_init ok oks js re home files = Some par"
    and "approval_gate_init_from_parent oks' re (Some (fold (session_step re) ops par)) = Some ch"
  shows "allowlist ch = allowlist par \<and> shell_allowlist ch = shell_allowlist par \<and>
    categories ch = categories par \<and> enabled ch = enabled par \<and> \<not> is_interactive ch \<and>
    (\<exists>rl. rate_limiter ch = Some rl \<and> rl_entries rl = []) \<and> gate_inv re ch"
proof -
  note par = gate_inv_init[OF assms(1)]
  have "approval_gate_init_from_parent oks' re (Some par) = Some ch"
    using assms(2) init_from_parent_extends[OF par(1) session_keeps] by simp
  note ch = init_from_parent_Some[OF par(1) this]
  show ?thesis
    using ch par(2,3) by simp
qed

definition sample_json :: "jvalue cjson" where
  "sample_json = table_json
     [(''cfg'', VObject [(''approval_gates'', VObject
        [(''allowlist'', VArray [VObject [(''tool'', VString ''shell''),
                                         (''command'', VArray [VString ''ls''])]])])])]"

definition sample_home :: app_home where
  "sample_home = \<lparr>g_app_home = Some ''/h'', g_initialized = True, g_app_name = None\<rparr>"

theorem child_inherits_static_only_witness:
  "\<exists>par ch. approval_gate_init alloc_ok (\<lambda>_. alloc_ok) sample_json substring_regex sample_home
       (\<lambda>p. if p = ''/h/config.json'' then Some ''cfg'' else None) = Some par \<and>
     approval_gate_init_from_parent (\<lambda>_. alloc_ok) substring_regex
       (Some (fold (session_step substring_regex)
                [(alloc_ok, alloc_ok, Add_shell (Some [''git'']) SHELL_TYPE_UNKNOWN)] par)) = Some ch \<and>
     map sa_command_prefix (shell_allowlist ch) = [Some [''ls'']]"
proof -
  let ?files = "\<lambda>p. if p = ''/h/config.json'' then Some ''cfg'' else None"
  let ?par = "default_config\<lparr>rate_limiter := Some \<lparr>rl_entries = [], rl_capacity = 8\<rparr>,
      shell_allowlist := [built_shell_entry [''ls''] SHELL_TYPE_UNKNOWN],
      static_allowlist_count := 0, static_shell_allowlist_count := 1\<rparr> :: string ApprovalGateConfig"
  have i: "approval_gate_init alloc_ok (\<lambda>_. alloc_ok) sample_json substring_regex sample_home ?files = Some ?par"
    by (simp add: approval_gate_init_def rate_limiter_create_def INITIAL_CAPACITY_def app_home_path_def
        sample_home_def approval_gate_load_from_file_def approval_gate_load_from_json_def sample_json_def
        table_json_def load_entry_def jtest_def jstring_def default_config_def
        approval_gate_add_shell_allowlist_def INITIAL_SHELL_ALLOWLIST_CAPACITY_def built_shell_entry_def)
  have "approval_gate_init_from_parent (\<lambda>_. alloc_ok) substring_regex
       (Some (fold (session_step substring_regex)
                [(alloc_ok, alloc_ok, Add_shell (Some [''git'']) SHELL_TYPE_UNKNOWN)] ?par)) \<noteq> None"
    by (simp add: approval_gate_init_from_parent_def rate_limiter_create_def default_config_def
        approval_gate_add_shell_allowlist_def built_shell_entry_def copy_shell_entry_def)
  then obtain ch where c: "approval_gate_init_from_parent (\<lambda>_. alloc_ok) substring_regex
       (Some (fold (session_step substring_regex)
                [(alloc_ok, alloc_ok, Add_shell (Some [''git'']) SHELL_TYPE_UNKNOWN)] ?par)) = Some ch"
    by blast
  from child_inherits_static_only[OF i c] have m: "map sa_command_prefix (shell_allowlist ch) = [Some [''ls'']]"
    by (simp add: built_shell_entry_def)
  show ?thesis
    by (intro exI conjI, rule i, rule c, rule m)
qed

end
