(* ===== verification/Gate_Match.thy ===== *)
theory Gate_Match
  imports Gate_Config
begin

text \<open>
  How the approval gate decides whether a tool call needs approval, from
  \<^verbatim>\<open>lib/policy/approval_gate.c\<close>: the allowlists are matched, the category's action applies, and a
  call that is neither allowed nor denied is left to the user. \<open>SHELL\<close> is the environment variable
  that selects the shell whose rules a command is parsed by.
\<close>

section \<open>Matching\<close>

text \<open>Site 0 is the copy of the target.\<close>

definition extract_match_target ::
    "alloc \<Rightarrow> 'j cjson \<Rightarrow> ApprovalGateCallbacks \<Rightarrow> string option \<Rightarrow> string option \<Rightarrow> string option" where
  "extract_match_target ok js cbs tool_name arguments_json =
     (case (tool_name, arguments_json) of
        (Some t, Some a) \<Rightarrow>
          (let ext = (case cb_is_extension_tool cbs of None \<Rightarrow> False | Some f \<Rightarrow> f t);
               match_arg = (if ext then (case cb_get_match_arg cbs of None \<Rightarrow> None | Some g \<Rightarrow> g t) else None);
               whole = (if ok 0 then Some a else None)
           in case match_arg of
                None \<Rightarrow> whole
              | Some arg \<Rightarrow>
                  (case cJSON_Parse js a of
                     None \<Rightarrow> whole
                   | Some args \<Rightarrow>
                       (case jstring js (cJSON_GetObjectItem js args arg) of
                          None \<Rightarrow> None
                        | Some s \<Rightarrow> if ok 0 then Some s else None)))
      | _ \<Rightarrow> None)"

fun match_entries :: "'r regex_lib \<Rightarrow> string \<Rightarrow> string \<Rightarrow> 'r AllowlistEntry list \<Rightarrow> bool" where
  "match_entries re tool_name target [] = False"
| "match_entries re tool_name target (e # es) =
     (if \<not> ae_valid e then match_entries re tool_name target es
      else if ae_tool e \<noteq> Some tool_name then match_entries re tool_name target es
      else if (case ae_compiled e of Some r \<Rightarrow> regexec re r target | None \<Rightarrow> False) then True
      else match_entries re tool_name target es)"

definition match_regex_allowlist ::
    "'r regex_lib \<Rightarrow> 'r ApprovalGateConfig \<Rightarrow> string option \<Rightarrow> string option \<Rightarrow> bool" where
  "match_regex_allowlist re config tool_name match_target =
     (case (tool_name, match_target) of
        (Some t, Some s) \<Rightarrow> match_entries re t s (allowlist config)
      | _ \<Rightarrow> False)"

text \<open>The test of one entry: its tokens are a prefix of the command, or, for an entry of no
  particular shell, the first is an equivalent of the command and the others follow it.\<close>

definition shell_entry_matches :: "ParsedShellCommand \<Rightarrow> string \<Rightarrow> ShellAllowEntry \<Rightarrow> bool" where
  "shell_entry_matches parsed base_cmd entry =
     (case sa_command_prefix entry of
        None \<Rightarrow> False
      | Some pre \<Rightarrow>
          if sa_prefix_len entry \<le> 0 then False
          else if sa_shell_type entry \<noteq> SHELL_TYPE_UNKNOWN \<and> sa_shell_type entry \<noteq> shell_type parsed
          then False
          else if shell_command_matches_prefix (Some parsed) (Some pre) then True
          else if sa_shell_type entry = SHELL_TYPE_UNKNOWN \<and>
                  commands_are_equivalent (Some (hd pre)) (Some base_cmd)
          then if sa_prefix_len entry = 1 then True
               else if int (length (tokens parsed)) \<ge> sa_prefix_len entry
               then match_tokens (tl (tokens parsed)) (tl pre)
               else False
          else False)"

definition match_shell_command_allowlist ::
    "alloc \<Rightarrow> 'j cjson \<Rightarrow> string option \<Rightarrow> 'r ApprovalGateConfig \<Rightarrow> ToolCall \<Rightarrow> bool" where
  "match_shell_command_allowlist ok js SHELL config tool_call =
     (if shell_allowlist config = [] then False
      else case tc_arguments tool_call of
        None \<Rightarrow> False
      | Some arguments \<Rightarrow>
          (case cJSON_Parse js arguments of
             None \<Rightarrow> False
           | Some args \<Rightarrow>
               (case jstring js (cJSON_GetObjectItem js args ''command'') of
                  None \<Rightarrow> False
                | Some command_str \<Rightarrow>
                    (case parse_shell_command ok SHELL (Some command_str) of
                       None \<Rightarrow> False
                     | Some parsed \<Rightarrow>
                         if \<not> shell_command_is_safe_for_matching (Some parsed) then False
                         else case shell_command_get_base (Some parsed) of
                                None \<Rightarrow> False
                              | Some base_cmd \<Rightarrow>
                                  list_ex (shell_entry_matches parsed base_cmd) (shell_allowlist config)))))"

definition approval_gate_matches_allowlist ::
    "alloc \<Rightarrow> 'j cjson \<Rightarrow> 'r regex_lib \<Rightarrow> ApprovalGateCallbacks \<Rightarrow> string option \<Rightarrow> 'r ApprovalGateConfig
     \<Rightarrow> ToolCall \<Rightarrow> bool" where
  "approval_gate_matches_allowlist ok js re cbs SHELL config tool_call =
     (case tc_name tool_call of
        None \<Rightarrow> False
      | Some name \<Rightarrow>
          if get_tool_category cbs (Some name) = GATE_CATEGORY_SHELL
          then match_shell_command_allowlist ok js SHELL config tool_call
          else case tc_arguments tool_call of
                 None \<Rightarrow> False
               | Some a \<Rightarrow>
                   (case extract_match_target ok js cbs (Some name) (Some a) of
                      None \<Rightarrow> False
                    | Some target \<Rightarrow> match_regex_allowlist re config (Some name) (Some target)))"

text \<open>0: may run; 1: needs approval; -1: denied.\<close>

definition approval_gate_requires_check ::
    "alloc \<Rightarrow> 'j cjson \<Rightarrow> 'r regex_lib \<Rightarrow> ApprovalGateCallbacks \<Rightarrow> string option
     \<Rightarrow> 'r ApprovalGateConfig option \<Rightarrow> ToolCall option \<Rightarrow> int" where
  "approval_gate_requires_check ok js re cbs SHELL config tool_call =
     (case (config, tool_call) of
        (Some c, Some tc) \<Rightarrow>
          if \<not> enabled c then 0
          else (case approval_gate_get_category_action config (get_tool_category cbs (tc_name tc)) of
                  GATE_ACTION_ALLOW \<Rightarrow> 0
                | GATE_ACTION_DENY \<Rightarrow> -1
                | GATE_ACTION_GATE \<Rightarrow>
                    if approval_gate_matches_allowlist ok js re cbs SHELL c tc then 0 else 1)
      | _ \<Rightarrow> -1)"

section \<open>Lemmas\<close>

text \<open>What the list of entries allows, in the terms of the allowlist component.\<close>

definition gate_regex_rules :: "'r ApprovalGateConfig \<Rightarrow> (string \<times> string) list" where
  "gate_regex_rules c = map (\<lambda>e. (the (ae_tool e), the (ae_pattern e))) (allowlist c)"

definition gate_shell_rules :: "'r ApprovalGateConfig \<Rightarrow> (string list \<times> ShellType) list" where
  "gate_shell_rules c = map (\<lambda>e. (the (sa_command_prefix e), sa_shell_type e)) (shell_allowlist c)"

text \<open>A rule for no particular shell also allows the equivalents of its command on other systems.\<close>

definition rule_covers :: "string list \<times> ShellType \<Rightarrow> string list \<Rightarrow> ShellType \<Rightarrow> bool" where
  "rule_covers r toks st \<longleftrightarrow>
     (snd r = SHELL_TYPE_UNKNOWN \<or> snd r = st) \<and> prefix (fst r) toks \<or>
     snd r = SHELL_TYPE_UNKNOWN \<and> toks \<noteq> [] \<and>
       commands_are_equivalent (Some (hd (fst r))) (Some (hd toks)) \<and> prefix (tl (fst r)) (tl toks)"

lemma match_entries_allows:
  assumes "list_all (gate_entry_ok re) es"
  shows "match_entries re tool target es \<longleftrightarrow>
    regex_allows re (map (\<lambda>e. (the (ae_tool e), the (ae_pattern e))) es) tool target"
  using assms
  by (induction es) (auto simp: regex_allows_def gate_entry_ok_def split: option.splits)

lemma match_regex_rules:
  "gate_inv re c \<Longrightarrow>
     match_regex_allowlist re c (Some tool) (Some target) \<longleftrightarrow> regex_allows re (gate_regex_rules c) tool target"
  by (simp add: match_regex_allowlist_def match_entries_allows gate_inv_def gate_regex_rules_def)

lemma shell_entry_matches_covers:
  assumes "gate_shell_entry_ok e" and "shell_command_is_safe_for_matching (Some p)" and "tokens p = b # ts"
  shows "shell_entry_matches p b e \<longleftrightarrow>
    rule_covers (the (sa_command_prefix e), sa_shell_type e) (tokens p) (shell_type p)"
proof -
  obtain q qs where q: "sa_command_prefix e = Some (q # qs)" "sa_prefix_len e = int (length (q # qs))"
    using assms(1) by (auto simp: gate_shell_entry_ok_def neq_Nil_conv split: option.splits)
  have m: "shell_command_matches_prefix (Some p) (Some (q # qs)) \<longleftrightarrow> prefix (q # qs) (b # ts)"
    using assms(2,3) prefix_length_le[of "q # qs" "b # ts"]
    by (auto simp: shell_command_matches_prefix_def shell_command_is_safe_for_matching_def
        match_tokens_prefix)
  have "prefix qs ts \<Longrightarrow> length qs \<le> length ts"
    by (rule prefix_length_le)
  then show ?thesis
    using q m assms(3) by (auto simp: shell_entry_matches_def rule_covers_def match_tokens_prefix)
qed

text \<open>The command of a call, as the shell tool reads it.\<close>

definition call_command :: "'j cjson \<Rightarrow> ToolCall \<Rightarrow> string option" where
  "call_command js tc = tool_args_get_command alloc_ok js (Some tc)"

lemma match_shell_rules:
  assumes "gate_inv re c"
  shows "match_shell_command_allowlist ok js SHELL c tc \<longleftrightarrow>
    (\<exists>command p. call_command js tc = Some command \<and> parse_shell_command ok SHELL (Some command) = Some p \<and>
       shell_command_is_safe_for_matching (Some p) \<and> tokens p \<noteq> [] \<and>
       (\<exists>r \<in> set (gate_shell_rules c). rule_covers r (tokens p) (shell_type p)))"
proof (cases "shell_allowlist c = [] \<or> call_command js tc = None")
  case True
  then show ?thesis
    by (auto simp: match_shell_command_allowlist_def call_command_def tool_args_get_command_def
        tool_args_get_string_def parse_args_def gate_shell_rules_def split: option.splits)
next
  case False
  then obtain command where cmd: "call_command js tc = Some command" by auto
  then obtain a v where a: "tc_arguments tc = Some a" "cJSON_Parse js a = Some v"
      "jstring js (cJSON_GetObjectItem js v ''command'') = Some command"
    by (auto simp: call_command_def tool_args_get_command_def tool_args_get_string_def parse_args_def
        split: option.splits)
  have ok: "list_all gate_shell_entry_ok (shell_allowlist c)"
    using assms by (simp add: gate_inv_def)
  show ?thesis
  proof (cases "parse_shell_command ok SHELL (Some command)")
    case None
    then show ?thesis using a cmd by (simp add: match_shell_command_allowlist_def)
  next
    case (Some p)
    show ?thesis
    proof (cases "shell_command_is_safe_for_matching (Some p) \<and> tokens p \<noteq> []")
      case True
      then obtain b ts where bt: "tokens p = b # ts" by (auto simp: neq_Nil_conv)
      then have "match_shell_command_allowlist ok js SHELL c tc \<longleftrightarrow>
          list_ex (shell_entry_matches p b) (shell_allowlist c)"
        using a Some True False by (simp add: match_shell_command_allowlist_def shell_command_get_base_def)
      also have "\<dots> \<longleftrightarrow> (\<exists>r \<in> set (gate_shell_rules c). rule_covers r (tokens p) (shell_type p))"
        using ok shell_entry_matches_covers[OF _ _ bt] True
        by (auto simp: list_ex_iff gate_shell_rules_def list_all_iff)
      finally show ?thesis
        using cmd Some True by simp
    next
      case False
      then show ?thesis
        using a cmd Some
        by (auto simp: match_shell_command_allowlist_def shell_command_get_base_def)
    qed
  qed
qed

end
