(* ===== verification/Subagent_Channel.thy ===== *)
theory Subagent_Channel
  imports Gate_Config
begin

text \<open>
  The child's side of \<^verbatim>\<open>lib/policy/subagent_approval.c\<close>: the messages between a subagent and its
  parent, and the request a subagent makes instead of prompting.

  What the pipes do is the argument \<open>io\<close>: the outcome of each \<^verbatim>\<open>write\<close>, whether the first \<^verbatim>\<open>poll\<close> of
  the response finds data, and the outcome of each later round of \<^verbatim>\<open>poll\<close> and \<^verbatim>\<open>read\<close>. A list of
  outcomes that ends stands for an error of \<^verbatim>\<open>write\<close> and for no more data to read. The request
  counter is a 32-bit number that is passed along.
\<close>

section \<open>Messages\<close>

record ApprovalRequest =
  rq_tool_name :: "string option"
  rq_arguments_json :: "string option"
  rq_display_summary :: "string option"
  rq_request_id :: int

record ApprovalResponse =
  rs_request_id :: int
  rs_result :: ApprovalResult
  rs_pattern :: "string option"

definition APPROVAL_MSG_MAX_SIZE :: nat where
  "APPROVAL_MSG_MAX_SIZE = 65536"

definition uint32 :: "int \<Rightarrow> int" where
  "uint32 n = n mod 4294967296"

fun result_code :: "ApprovalResult \<Rightarrow> int" where
  "result_code APPROVAL_ALLOWED = 0"
| "result_code APPROVAL_DENIED = 1"
| "result_code APPROVAL_ALLOWED_ALWAYS = 2"
| "result_code APPROVAL_ABORTED = 3"
| "result_code APPROVAL_RATE_LIMITED = 4"
| "result_code APPROVAL_NON_INTERACTIVE_DENIED = 5"
| "result_code (APPROVAL_OTHER n) = n"

definition result_of_code :: "int \<Rightarrow> ApprovalResult" where
  "result_of_code n =
     (if n = 0 then APPROVAL_ALLOWED else if n = 1 then APPROVAL_DENIED
      else if n = 2 then APPROVAL_ALLOWED_ALWAYS else if n = 3 then APPROVAL_ABORTED
      else if n = 4 then APPROVAL_RATE_LIMITED else if n = 5 then APPROVAL_NON_INTERACTIVE_DENIED
      else APPROVAL_OTHER n)"

definition next_request_id :: "int \<Rightarrow> int \<times> int" where
  "next_request_id g = (g, uint32 (g + 1))"

text \<open>The argument that a summary shows, for the tools that have one. Site 0 is the formatted text,
  site 1 the copy of the bare name.\<close>

definition summary_key :: "string \<Rightarrow> string option" where
  "summary_key name =
     (if name = ''shell'' then Some ''command''
      else if name = ''write_file'' \<or> name = ''read_file'' then Some ''path''
      else if name = ''web_fetch'' then Some ''url''
      else None)"

definition format_tool_summary :: "alloc \<Rightarrow> 'j cjson \<Rightarrow> ToolCall \<Rightarrow> string option" where
  "format_tool_summary ok js tc =
     (case tc_name tc of
        None \<Rightarrow> if ok 1 then Some ''[unknown tool]'' else None
      | Some name \<Rightarrow>
          (let value =
             (case (summary_key name, tc_arguments tc) of
                (Some key, Some a) \<Rightarrow>
                  (case cJSON_Parse js a of
                     None \<Rightarrow> None
                   | Some args \<Rightarrow> jstring js (cJSON_GetObjectItem js args key))
              | _ \<Rightarrow> None)
           in case value of
                Some v \<Rightarrow> if ok 0 then Some (name @ '': '' @ v) else if ok 1 then Some name else None
              | None \<Rightarrow> if ok 1 then Some name else None))"

definition serialize_approval_request :: "'j cjson \<Rightarrow> ApprovalRequest \<Rightarrow> string option" where
  "serialize_approval_request js req =
     (let text = (\<lambda>s. JStr (case s of None \<Rightarrow> [] | Some t \<Rightarrow> t))
      in cJSON_PrintObject js
           [(''tool_name'', text (rq_tool_name req)),
            (''arguments_json'', text (rq_arguments_json req)),
            (''display_summary'', text (rq_display_summary req)),
            (''request_id'', JNum (rq_request_id req))])"

text \<open>Sites 0 to 2 copy the three texts; \<open>None\<close> is the return value -1.\<close>

definition deserialize_approval_request ::
    "alloc \<Rightarrow> 'j cjson \<Rightarrow> string option \<Rightarrow> ApprovalRequest option" where
  "deserialize_approval_request ok js json_str =
     (case json_str of
        None \<Rightarrow> None
      | Some s \<Rightarrow>
          (case cJSON_Parse js s of
             None \<Rightarrow> None
           | Some json \<Rightarrow>
               if \<not> jtest (cJSON_IsString js) (cJSON_GetObjectItem js json ''tool_name'')
                  \<or> \<not> jtest (cJSON_IsNumber js) (cJSON_GetObjectItem js json ''request_id'')
               then None
               else if \<not> (ok 0 \<and> ok 1 \<and> ok 2) then None
               else
                 let text = (\<lambda>k. case jstring js (cJSON_GetObjectItem js json k) of
                                   None \<Rightarrow> Some [] | Some t \<Rightarrow> Some t)
                 in Some \<lparr>rq_tool_name = jstring js (cJSON_GetObjectItem js json ''tool_name''),
                          rq_arguments_json = text ''arguments_json'',
                          rq_display_summary = text ''display_summary'',
                          rq_request_id =
                            uint32 (cJSON_valuedouble js (the (cJSON_GetObjectItem js json ''request_id'')))\<rparr>))"

definition serialize_approval_response :: "'j cjson \<Rightarrow> ApprovalResponse \<Rightarrow> string option" where
  "serialize_approval_response js resp =
     cJSON_PrintObject js
       [(''request_id'', JNum (rs_request_id resp)),
        (''result'', JNum (result_code (rs_result resp))),
        (''pattern'', JStr (case rs_pattern resp of None \<Rightarrow> [] | Some p \<Rightarrow> p))]"

text \<open>Site 0 copies the pattern.\<close>

definition deserialize_approval_response ::
    "alloc \<Rightarrow> 'j cjson \<Rightarrow> string option \<Rightarrow> ApprovalResponse option" where
  "deserialize_approval_response ok js json_str =
     (case json_str of
        None \<Rightarrow> None
      | Some s \<Rightarrow>
          (case cJSON_Parse js s of
             None \<Rightarrow> None
           | Some json \<Rightarrow>
               (case (cJSON_GetObjectItem js json ''request_id'', cJSON_GetObjectItem js json ''result'') of
                  (Some request_id, Some result) \<Rightarrow>
                    if \<not> cJSON_IsNumber js request_id \<or> \<not> cJSON_IsNumber js result then None
                    else Some \<lparr>rs_request_id = uint32 (cJSON_valuedouble js request_id),
                           rs_result = result_of_code (wrap32 (cJSON_valuedouble js result)),
                           rs_pattern =
                             (case jstring js (cJSON_GetObjectItem js json ''pattern'') of
                                None \<Rightarrow> None
                              | Some p \<Rightarrow> if p \<noteq> [] \<and> ok 0 then Some p else None)\<rparr>
                | _ \<Rightarrow> None)))"

section \<open>Pipes\<close>

datatype write_event = Wrote nat | Interrupted | Write_failed
datatype read_event = Not_ready | Read_failed | Got string

record channel_io =
  io_writes :: "write_event list"
  io_ready :: bool
  io_reads :: "read_event list"

fun write_loop :: "nat \<Rightarrow> write_event list \<Rightarrow> int" where
  "write_loop left [] = (if left = 0 then 0 else -1)"
| "write_loop left (e # es) =
     (if left = 0 then 0
      else case e of
             Wrote n \<Rightarrow> write_loop (left - n) es
           | Interrupted \<Rightarrow> write_loop left es
           | Write_failed \<Rightarrow> -1)"

definition write_message :: "write_event list \<Rightarrow> string option \<Rightarrow> int" where
  "write_message evs msg =
     (case msg of None \<Rightarrow> -1 | Some m \<Rightarrow> write_loop (length m + 1) evs)"

text \<open>The loop that fills the buffer, up to a NUL or the end of the buffer.\<close>

fun read_loop :: "string \<Rightarrow> read_event list \<Rightarrow> string option" where
  "read_loop buffer [] = Some buffer"
| "read_loop buffer (e # es) =
     (if length buffer \<ge> APPROVAL_MSG_MAX_SIZE - 1 then Some buffer
      else case e of
             Not_ready \<Rightarrow> Some buffer
           | Read_failed \<Rightarrow> if buffer = [] then None else Some buffer
           | Got bs \<Rightarrow>
               (let got = take (APPROVAL_MSG_MAX_SIZE - 1 - length buffer) bs
                in if NUL \<in> set got then Some (buffer @ takeWhile (\<lambda>c. c \<noteq> NUL) got)
                   else read_loop (buffer @ got) es))"

text \<open>Site 0 is the buffer.\<close>

definition read_message_with_timeout :: "alloc \<Rightarrow> bool \<Rightarrow> read_event list \<Rightarrow> string option" where
  "read_message_with_timeout ok ready evs =
     (if \<not> ready then None
      else if \<not> ok 0 then None
      else read_loop [] evs)"

section \<open>The request of a subagent\<close>

text \<open>Sites: 0 and 1 the summary, 2 its replacement, 3 the buffer, 4 the pattern of the response. The
  second result is the request counter.\<close>

definition subagent_request_approval ::
    "alloc \<Rightarrow> 'j cjson \<Rightarrow> channel_io \<Rightarrow> int \<Rightarrow> ApprovalChannel option \<Rightarrow> ToolCall option
     \<Rightarrow> ApprovalResult \<times> int" where
  "subagent_request_approval ok js io g channel tool_call =
     (case (channel, tool_call) of
        (Some ch, Some tc) \<Rightarrow>
          (let (rid, g) = next_request_id g;
               summary = (case format_tool_summary ok js tc of
                            None \<Rightarrow> if ok 2 then Some ''[unknown]'' else None
                          | Some s \<Rightarrow> Some s);
               req = \<lparr>rq_tool_name = tc_name tc, rq_arguments_json = tc_arguments tc,
                      rq_display_summary = summary, rq_request_id = rid\<rparr>
           in case serialize_approval_request js req of
                None \<Rightarrow> (APPROVAL_DENIED, g)
              | Some serialized \<Rightarrow>
                  if write_message (io_writes io) (Some serialized) < 0 then (APPROVAL_DENIED, g)
                  else case read_message_with_timeout (\<lambda>_. ok 3) (io_ready io) (io_reads io) of
                         None \<Rightarrow> (APPROVAL_DENIED, g)
                       | Some response_str \<Rightarrow>
                           (case deserialize_approval_response (\<lambda>_. ok 4) js (Some response_str) of
                              None \<Rightarrow> (APPROVAL_DENIED, g)
                            | Some resp \<Rightarrow>
                                if rs_request_id resp \<noteq> rid then (APPROVAL_DENIED, g)
                                else (rs_result resp, g)))
      | _ \<Rightarrow> (APPROVAL_DENIED, g))"

section \<open>Lemmas\<close>

lemma result_code_inverse: "(\<And>n. r \<noteq> APPROVAL_OTHER n) \<Longrightarrow> result_of_code (result_code r) = r"
  by (cases r) (simp_all add: result_of_code_def)

lemma read_loop_length:
  "length buffer \<le> APPROVAL_MSG_MAX_SIZE - 1 \<Longrightarrow> read_loop buffer evs = Some m \<Longrightarrow>
     length m \<le> APPROVAL_MSG_MAX_SIZE - 1"
proof (induction buffer evs rule: read_loop.induct)
  case (2 buffer e es)
  show ?case
  proof (cases "length buffer \<ge> APPROVAL_MSG_MAX_SIZE - 1")
    case True
    then show ?thesis using 2(3) "2.prems" by simp
  next
    case False
    show ?thesis
    proof (cases e)
      case (Got bs)
      let ?got = "take (APPROVAL_MSG_MAX_SIZE - 1 - length buffer) bs"
      have l: "length (buffer @ ?got) \<le> APPROVAL_MSG_MAX_SIZE - 1"
        using False by simp
      have t: "length (takeWhile (\<lambda>c. c \<noteq> NUL) ?got) \<le> length ?got"
        by (rule length_takeWhile_le)
      show ?thesis
      proof (cases "NUL \<in> set ?got")
        case True
        then have "m = buffer @ takeWhile (\<lambda>c. c \<noteq> NUL) ?got"
          using "2.prems"(2) False Got by (simp add: Let_def)
        then have "length m \<le> length buffer + length ?got"
          using t by (simp only: length_append add_left_mono)
        also have "\<dots> = length (buffer @ ?got)"
          by (simp only: length_append)
        also note l
        finally show ?thesis .
      next
        case nn: False
        then show ?thesis
          using "2.IH"[OF False Got refl nn l] "2.prems"(2) False Got by (simp add: Let_def)
      qed
    qed (use "2.prems" False in \<open>auto split: if_splits\<close>)
  qed
qed simp

lemma subagent_request_cases:
  assumes "subagent_request_approval ok js io g (Some ch) (Some tc) = (r, g')"
  obtains (denied) "r = APPROVAL_DENIED"
  | (answered) m resp where "read_message_with_timeout (\<lambda>_. ok 3) (io_ready io) (io_reads io) = Some m"
      "deserialize_approval_response (\<lambda>_. ok 4) js (Some m) = Some resp"
      "rs_request_id resp = g" "r = rs_result resp"
  using assms unfolding subagent_request_approval_def next_request_id_def Let_def
  by (auto split: option.splits if_splits)

section \<open>Properties\<close>

text \<open>The documented relation between printing and reading that the messages rely on: an object that
  was printed parses back with the same fields, of the same types and values.\<close>

definition json_roundtrip :: "'j cjson \<Rightarrow> bool" where
  "json_roundtrip js \<longleftrightarrow>
     (\<forall>fs s. distinct (map fst fs) \<longrightarrow> cJSON_PrintObject js fs = Some s \<longrightarrow>
        (\<exists>v. cJSON_Parse js s = Some v \<and>
           (\<forall>(k, f) \<in> set fs. \<exists>i. cJSON_GetObjectItem js v k = Some i \<and>
              (case f of
                 JStr t \<Rightarrow> cJSON_IsString js i \<and> cJSON_valuestring js i = Some t
               | JNum n \<Rightarrow> cJSON_IsNumber js i \<and> cJSON_valuedouble js i = n))))"

lemma response_roundtrip:
  assumes "json_roundtrip js" and "serialize_approval_response js resp = Some s"
    and "0 \<le> rs_request_id resp" and "rs_request_id resp < 4294967296"
    and "\<And>n. rs_result resp \<noteq> APPROVAL_OTHER n"
  shows "deserialize_approval_response alloc_ok js (Some s) =
    Some (resp\<lparr>rs_pattern := (case rs_pattern resp of Some [] \<Rightarrow> None | p \<Rightarrow> p)\<rparr>)"
proof -
  let ?pat = "case rs_pattern resp of None \<Rightarrow> [] | Some p \<Rightarrow> p"
  let ?fs = "[(''request_id'', JNum (rs_request_id resp)),
        (''result'', JNum (result_code (rs_result resp))), (''pattern'', JStr ?pat)]"
  have "distinct (map fst ?fs)" by simp
  then obtain v where v: "cJSON_Parse js s = Some v"
    and f: "\<forall>(k, f) \<in> set ?fs. \<exists>i. cJSON_GetObjectItem js v k = Some i \<and>
              (case f of
                 JStr t \<Rightarrow> cJSON_IsString js i \<and> cJSON_valuestring js i = Some t
               | JNum n \<Rightarrow> cJSON_IsNumber js i \<and> cJSON_valuedouble js i = n)"
    using assms(1,2) unfolding json_roundtrip_def serialize_approval_response_def by blast
  from f obtain i1 i2 i3 where i:
      "cJSON_GetObjectItem js v ''request_id'' = Some i1" "cJSON_IsNumber js i1"
      "cJSON_valuedouble js i1 = rs_request_id resp"
      "cJSON_GetObjectItem js v ''result'' = Some i2" "cJSON_IsNumber js i2"
      "cJSON_valuedouble js i2 = result_code (rs_result resp)"
      "cJSON_GetObjectItem js v ''pattern'' = Some i3" "cJSON_IsString js i3"
      "cJSON_valuestring js i3 = Some ?pat"
    by auto
  have c: "wrap32 (result_code (rs_result resp)) = result_code (rs_result resp)"
    using assms(5) by (cases "rs_result resp") auto
  have "uint32 (rs_request_id resp) = rs_request_id resp"
    using assms(3,4) by (simp add: uint32_def)
  then show ?thesis
    using v i c result_code_inverse[OF assms(5)]
    by (cases resp) (auto simp: deserialize_approval_response_def jstring_def split: option.split list.split)
qed

text \<open>C26. A subagent runs only what its parent answered. A request ends with a result other than
  denied only if a message of at most 65535 characters was read that parses to a response carrying
  the identifier of this very request, and the result is the one in that response: a failed write,
  a timeout, a closed pipe or a response to another request deny. Every request moves the counter
  on.\<close>

theorem subagent_result_from_parent:
  assumes "subagent_request_approval ok js io g (Some ch) (Some tc) = (r, g')" and "r \<noteq> APPROVAL_DENIED"
  shows "g' = (g + 1) mod 4294967296 \<and>
    (\<exists>m resp. read_message_with_timeout (\<lambda>_. ok 3) (io_ready io) (io_reads io) = Some m \<and>
       length m \<le> 65535 \<and> deserialize_approval_response (\<lambda>_. ok 4) js (Some m) = Some resp \<and>
       rs_request_id resp = g \<and> r = rs_result resp)"
proof -
  have g: "g' = (g + 1) mod 4294967296"
    using assms(1) unfolding subagent_request_approval_def next_request_id_def Let_def
    by (auto simp: uint32_def split: option.splits if_splits)
  obtain m resp where m: "read_message_with_timeout (\<lambda>_. ok 3) (io_ready io) (io_reads io) = Some m"
      "deserialize_approval_response (\<lambda>_. ok 4) js (Some m) = Some resp"
      "rs_request_id resp = g" "r = rs_result resp"
    using assms by (auto elim!: subagent_request_cases)
  have "length m \<le> 65535"
    using read_loop_length[of "[]" "io_reads io" m] m(1)
    by (auto simp: read_message_with_timeout_def APPROVAL_MSG_MAX_SIZE_def split: if_splits)
  with g m show ?thesis by blast
qed

text \<open>An answer arrives as it was given. When the response for a request is printed, written and
  read back whole, in any number of interrupted and partial writes, the subagent's result is the
  one its parent decided.\<close>

theorem approval_response_delivered:
  assumes "json_roundtrip js" and "serialize_approval_response js resp = Some s" and "rs_request_id resp = g"
    and "0 \<le> g" and "g < 4294967296" and "\<And>n. rs_result resp \<noteq> APPROVAL_OTHER n"
    and "c_string s" and "length s < 65535"
    and "serialize_approval_request js \<lparr>rq_tool_name = tc_name tc, rq_arguments_json = tc_arguments tc,
          rq_display_summary = format_tool_summary alloc_ok js tc, rq_request_id = g\<rparr> = Some q"
    and "write_message ws (Some q) = 0"
  shows "subagent_request_approval alloc_ok js
      \<lparr>io_writes = ws, io_ready = True, io_reads = [Got (s @ [NUL])]\<rparr> g (Some ch) (Some tc) =
      (rs_result resp, (g + 1) mod 4294967296)"
proof -
  have d: "deserialize_approval_response alloc_ok js (Some s) =
      Some (resp\<lparr>rs_pattern := (case rs_pattern resp of Some [] \<Rightarrow> None | p \<Rightarrow> p)\<rparr>)"
    using assms(3-6) by (intro response_roundtrip[OF assms(1,2)]) auto
  have s: "takeWhile (\<lambda>c. c \<noteq> NUL) (s @ [NUL]) = s"
    using assms(7) by (auto simp: c_string_def takeWhile_append)
  have "take (APPROVAL_MSG_MAX_SIZE - 1 - length ([] :: string)) (s @ [NUL]) = s @ [NUL]"
    using assms(8) by (simp add: APPROVAL_MSG_MAX_SIZE_def)
  then have r: "read_loop [] [Got (s @ [NUL])] = Some s"
    using s by (simp add: APPROVAL_MSG_MAX_SIZE_def Let_def)
  have "format_tool_summary alloc_ok js tc \<noteq> None"
    by (auto simp: format_tool_summary_def Let_def split: option.split)
  then obtain sm where sm: "format_tool_summary alloc_ok js tc = Some sm" by blast
  show ?thesis
    using assms(3,9,10) d r sm
    by (simp add: subagent_request_approval_def next_request_id_def Let_def uint32_def
        read_message_with_timeout_def del: read_loop.simps)
qed

definition read_call :: ToolCall where
  "read_call = \<lparr>tc_id = None, tc_name = Some ''todo'', tc_arguments = Some ''{}''\<rparr>"

definition sample_channel :: ApprovalChannel where
  "sample_channel = \<lparr>request_fd = 3, response_fd = 4, subagent_pid = 100\<rparr>"

theorem subagent_result_from_parent_witness:
  "\<exists>m resp. read_message_with_timeout alloc_ok True [Got (''r'' @ [NUL])] = Some m \<and>
     deserialize_approval_response alloc_ok (table_json
       [(''r'', VObject [(''request_id'', VNumber 7), (''result'', VNumber 0)])]) (Some m) = Some resp \<and>
     rs_request_id resp = 7 \<and> rs_result resp = APPROVAL_ALLOWED"
proof -
  let ?js = "table_json [(''r'', VObject [(''request_id'', VNumber 7), (''result'', VNumber 0)])]"
  let ?io = "\<lparr>io_writes = [Wrote 3], io_ready = True, io_reads = [Got (''r'' @ [NUL])]\<rparr>"
  have "subagent_request_approval alloc_ok ?js ?io 7 (Some sample_channel) (Some read_call) = (APPROVAL_ALLOWED, 8)"
    by (simp add: subagent_request_approval_def next_request_id_def table_json_def format_tool_summary_def
        read_call_def summary_key_def serialize_approval_request_def write_message_def
        read_message_with_timeout_def deserialize_approval_response_def uint32_def result_of_code_def
        wrap32_def APPROVAL_MSG_MAX_SIZE_def)
  from subagent_result_from_parent[OF this] show ?thesis
    by auto
qed


text \<open>A JSON library that can print one request and one response, and reads them back.\<close>

definition request_fields :: "(string \<times> json_field) list" where
  "request_fields = [(''tool_name'', JStr ''todo''), (''arguments_json'', JStr ''{}''),
     (''display_summary'', JStr ''todo''), (''request_id'', JNum 7)]"

definition response_fields :: "(string \<times> json_field) list" where
  "response_fields = [(''request_id'', JNum 7), (''result'', JNum 0), (''pattern'', JStr [])]"

definition field_value :: "string \<times> json_field \<Rightarrow> string \<times> jvalue" where
  "field_value kf = (fst kf, case snd kf of JStr s \<Rightarrow> VString s | JNum n \<Rightarrow> VNumber n)"

definition two_messages :: "jvalue cjson" where
  "two_messages = (table_json [(''q'', VObject (map field_value request_fields)),
                               (''r'', VObject (map field_value response_fields))])
     \<lparr>cJSON_PrintObject := (\<lambda>fs. if fs = request_fields then Some ''q''
                               else if fs = response_fields then Some ''r'' else None)\<rparr>"

lemma two_messages_roundtrip: "json_roundtrip two_messages"
  by (auto simp: json_roundtrip_def two_messages_def table_json_def request_fields_def response_fields_def
      field_value_def)

theorem approval_response_delivered_witness:
  "subagent_request_approval alloc_ok two_messages
      \<lparr>io_writes = [Interrupted, Wrote 1, Wrote 1], io_ready = True, io_reads = [Got (''r'' @ [NUL])]\<rparr> 7
      (Some sample_channel) (Some read_call) = (APPROVAL_ALLOWED, 8)"
proof -
  let ?resp = "\<lparr>rs_request_id = 7, rs_result = APPROVAL_ALLOWED, rs_pattern = None\<rparr>"
  have "serialize_approval_response two_messages ?resp = Some ''r''"
    by (simp add: serialize_approval_response_def two_messages_def response_fields_def request_fields_def)
  moreover have "serialize_approval_request two_messages \<lparr>rq_tool_name = tc_name read_call,
      rq_arguments_json = tc_arguments read_call,
      rq_display_summary = format_tool_summary alloc_ok two_messages read_call, rq_request_id = 7\<rparr> = Some ''q''"
    by (simp add: serialize_approval_request_def two_messages_def request_fields_def read_call_def
        format_tool_summary_def summary_key_def)
  moreover have "write_message [Interrupted, Wrote 1, Wrote 1] (Some ''q'') = 0"
    by (simp add: write_message_def)
  ultimately show ?thesis
    using approval_response_delivered[OF two_messages_roundtrip, of ?resp "''r''" 7 read_call "''q''"
        "[Interrupted, Wrote 1, Wrote 1]" sample_channel]
    by (simp add: c_string_def)
qed

end
