(* ===== verification/Approval_Gate.thy ===== *)
theory Approval_Gate
  imports Gate_Match Subagent_Channel
begin

text \<open>
  The decisions of the approval gate, from \<^verbatim>\<open>lib/policy/approval_gate.c\<close> and the key reader of
  \<^verbatim>\<open>gate_prompter.c\<close>: the check of one tool call, the prompt for it, and both for a batch.

  What the user types is a list of key codes, each with whether it comes within the half second a
  two-digit number may take; at the end of the list, and on an interrupt (-1), the reader returns
  -1. The rest of the outside world is the record \<open>gate_io\<close>. The text that is displayed is not
  modelled. A read through a pointer that is \<^verbatim>\<open>NULL\<close> or was never set makes the result \<open>None\<close>.
\<close>

section \<open>Keys\<close>

type_synonym keys = "(int \<times> bool) list"

record gate_io =
  gio_now :: int
  gio_isatty :: bool
  gio_keys :: keys
  gio_next_id :: int
  gio_channel :: channel_io

text \<open>Site 0 is the prompter itself.\<close>

definition gate_prompter_create :: "alloc \<Rightarrow> gate_io \<Rightarrow> bool" where
  "gate_prompter_create ok io = (if \<not> gio_isatty io then False else ok 0)"

fun gate_prompter_read_key :: "keys \<Rightarrow> int \<times> keys" where
  "gate_prompter_read_key [] = (-1, [])"
| "gate_prompter_read_key ((k, quick) # ks) = (k, ks)"

text \<open>The key that comes within the time allowed, if one does.\<close>

fun gate_prompter_read_key_timeout :: "keys \<Rightarrow> int option \<times> keys" where
  "gate_prompter_read_key_timeout [] = (None, [])"
| "gate_prompter_read_key_timeout ((k, quick) # ks) =
     (if quick \<and> k \<ge> 0 then (Some k, ks) else (None, (k, quick) # ks))"

definition lower_key :: "int \<Rightarrow> int" where
  "lower_key k = (if 65 \<le> k \<and> k \<le> 90 then k + 32 else k)"

abbreviation KEY_y :: int where "KEY_y \<equiv> 121"
abbreviation KEY_n :: int where "KEY_n \<equiv> 110"
abbreviation KEY_a :: int where "KEY_a \<equiv> 97"
abbreviation KEY_query :: int where "KEY_query \<equiv> 63"
abbreviation KEY_0 :: int where "KEY_0 \<equiv> 48"
abbreviation KEY_9 :: int where "KEY_9 \<equiv> 57"

section \<open>The prompt for one call\<close>

fun prompt_loop ::
    "'r ApprovalGateConfig \<Rightarrow> string option \<Rightarrow> keys \<Rightarrow> ApprovalResult \<times> 'r ApprovalGateConfig \<times> keys" where
  "prompt_loop config name [] = (APPROVAL_ABORTED, config, [])"
| "prompt_loop config name ((response, quick) # ks) =
     (if response < 0 then (APPROVAL_ABORTED, config, ks)
      else if lower_key response = KEY_y
      then (APPROVAL_ALLOWED, reset_denial_tracker config name, ks)
      else if lower_key response = KEY_n then (APPROVAL_DENIED, config, ks)
      else if lower_key response = KEY_a
      then (APPROVAL_ALLOWED_ALWAYS, reset_denial_tracker config name, ks)
      else if lower_key response = KEY_query
      then (case ks of [] \<Rightarrow> prompt_loop config name [] | _ # ks' \<Rightarrow> prompt_loop config name ks')
      else if lower_key response = 3 \<or> lower_key response = 4 then (APPROVAL_ABORTED, config, ks)
      else prompt_loop config name ks)"

definition approval_gate_prompt ::
    "alloc \<Rightarrow> gate_io \<Rightarrow> 'r ApprovalGateConfig \<Rightarrow> ToolCall
     \<Rightarrow> ApprovalResult \<times> 'r ApprovalGateConfig \<times> gate_io" where
  "approval_gate_prompt ok io config tool_call =
     (if \<not> gate_prompter_create ok io then (APPROVAL_NON_INTERACTIVE_DENIED, config, io)
      else case prompt_loop config (tc_name tool_call) (gio_keys io) of
             (result, config, ks) \<Rightarrow> (result, config, io\<lparr>gio_keys := ks\<rparr>))"

section \<open>The check of one call\<close>

text \<open>\<open>ok\<close> has the sites of the match, \<open>ok'\<close> those of the request to the parent or of the prompt.\<close>

definition check_approval_gate ::
    "alloc \<Rightarrow> alloc \<Rightarrow> 'j cjson \<Rightarrow> 'r regex_lib \<Rightarrow> ApprovalGateCallbacks \<Rightarrow> string option \<Rightarrow> gate_io
     \<Rightarrow> 'r ApprovalGateConfig \<Rightarrow> ToolCall \<Rightarrow> ApprovalResult \<times> 'r ApprovalGateConfig \<times> gate_io" where
  "check_approval_gate ok ok' js re cbs SHELL io config tool_call =
     (if is_rate_limited (gio_now io) config tool_call then (APPROVAL_RATE_LIMITED, config, io)
      else let check_result =
             approval_gate_requires_check ok js re cbs SHELL (Some config) (Some tool_call)
      in if check_result = 0 then (APPROVAL_ALLOWED, config, io)
         else if check_result = -1 then (APPROVAL_DENIED, config, io)
         else if check_result = 1 then
           (case Option.bind (cb_get_approval_channel cbs) id of
              Some channel \<Rightarrow>
                (case subagent_request_approval ok' js (gio_channel io) (gio_next_id io) (Some channel)
                        (Some tool_call) of
                   (result, g) \<Rightarrow> (result, config, io\<lparr>gio_next_id := g\<rparr>))
            | None \<Rightarrow>
                if \<not> is_interactive config then (APPROVAL_NON_INTERACTIVE_DENIED, config, io)
                else approval_gate_prompt ok' io config tool_call)
         else (APPROVAL_DENIED, config, io))"

section \<open>Batches\<close>

text \<open>The results of a batch; \<open>None\<close> after it was freed, when the pointer is \<^verbatim>\<open>NULL\<close>. The paths are
  zero throughout, as the gate never fills them.\<close>

record ApprovalBatchResult =
  br_results :: "ApprovalResult list option"
  br_count :: int

text \<open>Sites 0 and 1 are the two arrays.\<close>

definition init_batch_result :: "alloc \<Rightarrow> int \<Rightarrow> ApprovalBatchResult option" where
  "init_batch_result ok count =
     (if count \<le> 0 then None
      else if \<not> ok 0 then None
      else if \<not> ok 1 then None
      else Some \<lparr>br_results = Some (replicate (nat count) APPROVAL_DENIED), br_count = count\<rparr>)"

definition free_batch_result :: "ApprovalBatchResult \<Rightarrow> ApprovalBatchResult" where
  "free_batch_result batch = batch\<lparr>br_results := None, br_count := 0\<rparr>"

text \<open>The results after a pending entry was answered by one key for all.\<close>

definition answer_pending :: "ApprovalResult \<Rightarrow> bool list \<Rightarrow> ApprovalResult list \<Rightarrow> ApprovalResult list" where
  "answer_pending r pending results =
     map (\<lambda>(p, x). if p then r else x) (zip pending results)"

definition reset_pending ::
    "bool list \<Rightarrow> ToolCall list \<Rightarrow> 'r ApprovalGateConfig \<Rightarrow> 'r ApprovalGateConfig" where
  "reset_pending pending calls config =
     fold (\<lambda>(p, tc) c. if p then reset_denial_tracker c (tc_name tc) else c) (zip pending calls) config"

definition batch_verdict :: "ApprovalResult list \<Rightarrow> ApprovalResult" where
  "batch_verdict results =
     (if APPROVAL_DENIED \<in> set results then APPROVAL_DENIED
      else if \<forall>r \<in> set results. r = APPROVAL_ALLOWED_ALWAYS then APPROVAL_ALLOWED_ALWAYS
      else APPROVAL_ALLOWED)"

text \<open>The number a digit key starts, with the second digit if the batch is long enough and one
  comes in time.\<close>

definition operation_number :: "int \<Rightarrow> int \<Rightarrow> keys \<Rightarrow> int \<times> keys" where
  "operation_number count response ks =
     (let op_num = response - KEY_0
      in if count > 9
         then (case gate_prompter_read_key_timeout ks of
                 (Some next_key, ks') \<Rightarrow>
                   (if next_key \<ge> KEY_0 \<and> next_key \<le> KEY_9
                    then (op_num * 10 + (next_key - KEY_0), ks') else (op_num, ks'))
               | (None, ks') \<Rightarrow> (op_num, ks'))
         else (op_num, ks))"

lemma prompt_loop_consumes:
  "length (snd (snd (prompt_loop config name ks))) \<le> length ks"
proof (induction config name ks rule: prompt_loop.induct)
  case (2 config name response quick ks)
  consider "response < 0 \<or> lower_key response \<in> {KEY_y, KEY_n, KEY_a, 3, 4}"
    | "\<not> response < 0" "lower_key response = KEY_query"
    | "\<not> response < 0" "lower_key response \<notin> {KEY_y, KEY_n, KEY_a, KEY_query, 3, 4}"
    by auto
  then show ?case
  proof cases
    case 1
    then show ?thesis by auto
  next
    case c: 2
    show ?thesis
    proof (cases ks)
      case Nil
      with c show ?thesis by simp
    next
      case (Cons a ks')
      with c 2(2)[of a ks'] show ?thesis by simp
    qed
  next
    case c: 3
    with 2(3) show ?thesis by simp
  qed
qed simp

lemma read_key_timeout_consumes:
  "length (snd (gate_prompter_read_key_timeout ks)) \<le> length ks"
  by (cases ks rule: gate_prompter_read_key_timeout.cases) auto

lemma operation_number_consumes: "length (snd (operation_number count response ks)) \<le> length ks"
  using read_key_timeout_consumes[of ks]
  by (auto simp: operation_number_def Let_def split: option.split prod.split)

text \<open>The prompt for one call, on the keys alone: \<open>create\<close> tells whether the prompter can be made.\<close>

definition prompt_keys ::
    "bool \<Rightarrow> 'r ApprovalGateConfig \<Rightarrow> ToolCall \<Rightarrow> keys \<Rightarrow> ApprovalResult \<times> 'r ApprovalGateConfig \<times> keys" where
  "prompt_keys create config tc ks =
     (if create then prompt_loop config (tc_name tc) ks else (APPROVAL_NON_INTERACTIVE_DENIED, config, ks))"

lemma prompt_keys_consumes: "length (snd (snd (prompt_keys create config tc ks))) \<le> length ks"
  using prompt_loop_consumes[of config "tc_name tc" ks] by (simp add: prompt_keys_def)

text \<open>One round of the batch prompt: what is pending, the results so far, and the keys after the one
  that was read. \<open>creates i\<close> tells whether the prompter for call \<open>i\<close> alone can be made. \<open>Inl\<close> ends the
  loop, with results that are \<open>None\<close> where the code frees the batch; \<open>Inr\<close> goes on.\<close>

type_synonym 'r batch_end = "ApprovalResult \<times> ApprovalResult list option \<times> 'r ApprovalGateConfig \<times> keys"
type_synonym 'r batch_state = "'r ApprovalGateConfig \<times> bool list \<times> ApprovalResult list \<times> keys"

definition batch_single ::
    "(nat \<Rightarrow> bool) \<Rightarrow> ToolCall list \<Rightarrow> nat \<Rightarrow> 'r batch_state \<Rightarrow> 'r batch_end + 'r batch_state" where
  "batch_single creates calls idx st =
     (case st of (config, pending, results, ks) \<Rightarrow>
        case prompt_keys (creates idx) config (calls ! idx) ks of (single_result, config, ks) \<Rightarrow>
          if single_result = APPROVAL_ABORTED then Inl (APPROVAL_ABORTED, None, config, ks)
          else let results = results[idx := single_result];
                   pending = pending[idx := False]
               in if True \<notin> set pending then Inl (batch_verdict results, Some results, config, ks)
                  else Inr (config, pending, results, ks))"

definition batch_round ::
    "(nat \<Rightarrow> bool) \<Rightarrow> ToolCall list \<Rightarrow> int \<Rightarrow> 'r batch_state \<Rightarrow> 'r batch_end + 'r batch_state" where
  "batch_round creates calls response st =
     (case st of (config, pending, results, ks) \<Rightarrow>
        if response < 0 then Inl (APPROVAL_ABORTED, None, config, ks)
        else if lower_key response = KEY_y
        then Inl (APPROVAL_ALLOWED, Some (answer_pending APPROVAL_ALLOWED pending results),
                  reset_pending pending calls config, ks)
        else if lower_key response = KEY_n
        then Inl (APPROVAL_DENIED, Some (answer_pending APPROVAL_DENIED pending results), config, ks)
        else if KEY_0 < lower_key response \<and> lower_key response \<le> KEY_9
        then (case operation_number (int (length calls)) response ks of (op_num, ks) \<Rightarrow>
                if op_num < 1 \<or> op_num > int (length calls) then Inr (config, pending, results, ks)
                else if \<not> pending ! nat (op_num - 1) then Inr (config, pending, results, ks)
                else batch_single creates calls (nat (op_num - 1)) (config, pending, results, ks))
        else if lower_key response = 3 \<or> lower_key response = 4
        then Inl (APPROVAL_ABORTED, None, config, ks)
        else Inr (config, pending, results, ks))"

lemma batch_single_consumes:
  "batch_single creates calls idx (config, pending, results, ks) = Inr (c, p, r, ks') \<Longrightarrow> length ks' \<le> length ks"
  using prompt_keys_consumes[of "creates idx" config "calls ! idx" ks]
  by (auto simp: batch_single_def Let_def split: prod.splits if_splits)

lemma batch_round_consumes:
  assumes "batch_round creates calls response (config, pending, results, ks) = Inr (c, p, r, ks')"
  shows "length ks' \<le> length ks"
proof -
  obtain n ks1 where n: "operation_number (int (length calls)) response ks = (n, ks1)"
    by (cases "operation_number (int (length calls)) response ks")
  then have "length ks1 \<le> length ks"
    using operation_number_consumes[of "int (length calls)" response ks] by simp
  moreover have "ks' = ks \<or> ks' = ks1 \<or>
      batch_single creates calls (nat (n - 1)) (config, pending, results, ks1) = Inr (c, p, r, ks')"
    using assms n unfolding batch_round_def by (simp split: if_splits)
  ultimately show ?thesis
    using batch_single_consumes le_trans by blast
qed

function batch_loop ::
    "(nat \<Rightarrow> bool) \<Rightarrow> ToolCall list \<Rightarrow> 'r ApprovalGateConfig \<Rightarrow> bool list \<Rightarrow> ApprovalResult list \<Rightarrow> keys
     \<Rightarrow> 'r batch_end" where
  "batch_loop creates calls config pending results [] = (APPROVAL_ABORTED, None, config, [])"
| "batch_loop creates calls config pending results ((response, quick) # ks) =
     (case batch_round creates calls response (config, pending, results, ks) of
        Inl r \<Rightarrow> r
      | Inr (config', pending', results', ks') \<Rightarrow> batch_loop creates calls config' pending' results' ks')"
  by pat_completeness auto
termination
  by (relation "measure (\<lambda>(_, _, _, _, _, ks). length ks)") (auto dest: batch_round_consumes)

text \<open>Sites of the batch prompt: 0 the prompter, 1 and 2 the batch, 3 and 4 its working arrays,
  \<open>5 + i\<close> the prompter for call \<open>i\<close> alone. The batch that is returned is \<open>None\<close> when the code has
  not touched it, and its results are \<open>None\<close> when it was freed.\<close>

definition approval_gate_prompt_batch ::
    "alloc \<Rightarrow> gate_io \<Rightarrow> 'r ApprovalGateConfig \<Rightarrow> ToolCall list
     \<Rightarrow> ApprovalResult \<times> ApprovalBatchResult option \<times> 'r ApprovalGateConfig \<times> gate_io" where
  "approval_gate_prompt_batch ok io config tool_calls =
     (if int (length tool_calls) \<le> 0 then (APPROVAL_DENIED, None, config, io)
      else if \<not> gate_prompter_create ok io then (APPROVAL_NON_INTERACTIVE_DENIED, None, config, io)
      else case init_batch_result (\<lambda>n. ok (1 + n)) (int (length tool_calls)) of
             None \<Rightarrow> (APPROVAL_DENIED, Some \<lparr>br_results = None, br_count = 0\<rparr>, config, io)
           | Some batch \<Rightarrow>
               if \<not> (ok 3 \<and> ok 4) then (APPROVAL_DENIED, Some (free_batch_result batch), config, io)
               else case batch_loop (\<lambda>i. gio_isatty io \<and> ok (5 + i)) tool_calls config
                           (replicate (length tool_calls) True) (the (br_results batch)) (gio_keys io) of
                      (result, results, config, ks) \<Rightarrow>
                        (result,
                         Some (case results of
                                 None \<Rightarrow> free_batch_result batch
                               | Some rs \<Rightarrow> batch\<lparr>br_results := Some rs\<rparr>),
                         config, io\<lparr>gio_keys := ks\<rparr>))"

text \<open>The first pass over a batch: what each call is answered without the user; \<open>None\<close> for a call that
  needs approval. \<open>oks i\<close> has the sites of matching call \<open>i\<close>.\<close>

fun triage ::
    "(nat \<Rightarrow> alloc) \<Rightarrow> 'j cjson \<Rightarrow> 'r regex_lib \<Rightarrow> ApprovalGateCallbacks \<Rightarrow> string option \<Rightarrow> int
     \<Rightarrow> 'r ApprovalGateConfig \<Rightarrow> nat \<Rightarrow> ToolCall list \<Rightarrow> ApprovalResult option list" where
  "triage oks js re cbs SHELL now config i [] = []"
| "triage oks js re cbs SHELL now config i (tc # tcs) =
     (if is_rate_limited now config tc then Some APPROVAL_RATE_LIMITED
      else let check_result = approval_gate_requires_check (oks i) js re cbs SHELL (Some config) (Some tc)
           in if check_result = 0 then Some APPROVAL_ALLOWED
              else if check_result = -1 then Some APPROVAL_DENIED
              else if check_result = 1 then None
              else Some APPROVAL_DENIED)
     # triage oks js re cbs SHELL now config (Suc i) tcs"

text \<open>The results array after the first pass: entries that need approval keep their initial value.\<close>

definition triaged_results :: "ApprovalResult option list \<Rightarrow> ApprovalResult list" where
  "triaged_results t = map (\<lambda>r. case r of None \<Rightarrow> APPROVAL_DENIED | Some x \<Rightarrow> x) t"

definition needs_approval_indices :: "ApprovalResult option list \<Rightarrow> nat list" where
  "needs_approval_indices t = filter (\<lambda>i. t ! i = None) [0..<length t]"

definition any_rate_limited :: "ApprovalResult option list \<Rightarrow> bool" where
  "any_rate_limited t \<longleftrightarrow> Some APPROVAL_RATE_LIMITED \<in> set t"

definition any_denied :: "ApprovalResult option list \<Rightarrow> bool" where
  "any_denied t \<longleftrightarrow> Some APPROVAL_DENIED \<in> set t"

text \<open>The copy of the answers to the calls that needed one back to their places.\<close>

fun scatter :: "nat list \<Rightarrow> 'a list \<Rightarrow> 'a list \<Rightarrow> 'a list" where
  "scatter (i # is) (x # xs) ys = scatter is xs (ys[i := x])"
| "scatter _ _ ys = ys"

text \<open>Sites of \<open>ok\<close>: 0 and 1 the batch, 2 and 3 the working arrays, 4 the calls to prompt for; \<open>ok'\<close>
  has those of the prompts, \<open>oks i\<close> those of matching call \<open>i\<close>. The outer option is a read of
  results that were freed or never set.\<close>

definition check_approval_gate_batch ::
    "alloc \<Rightarrow> alloc \<Rightarrow> (nat \<Rightarrow> alloc) \<Rightarrow> 'j cjson \<Rightarrow> 'r regex_lib \<Rightarrow> ApprovalGateCallbacks \<Rightarrow> string option
     \<Rightarrow> gate_io \<Rightarrow> 'r ApprovalGateConfig \<Rightarrow> ToolCall list
     \<Rightarrow> (ApprovalResult \<times> ApprovalBatchResult option \<times> 'r ApprovalGateConfig \<times> gate_io) option" where
  "check_approval_gate_batch ok ok' oks js re cbs SHELL io config tool_calls =
     (if int (length tool_calls) \<le> 0 then Some (APPROVAL_DENIED, None, config, io)
      else case init_batch_result ok (int (length tool_calls)) of
        None \<Rightarrow> Some (APPROVAL_DENIED, None, config, io)
      | Some batch \<Rightarrow>
          if \<not> (ok 2 \<and> ok 3) then Some (APPROVAL_DENIED, Some (free_batch_result batch), config, io)
          else
            let t = triage oks js re cbs SHELL (gio_now io) config 0 tool_calls;
                idxs = needs_approval_indices t;
                results = triaged_results t
            in if idxs = []
               then Some (if any_rate_limited t then APPROVAL_RATE_LIMITED
                          else if any_denied t then APPROVAL_DENIED else APPROVAL_ALLOWED,
                          Some (batch\<lparr>br_results := Some results\<rparr>), config, io)
               else if \<not> is_interactive config
               then Some (APPROVAL_NON_INTERACTIVE_DENIED,
                          Some (batch\<lparr>br_results :=
                            Some (scatter idxs (map (\<lambda>_. APPROVAL_NON_INTERACTIVE_DENIED) idxs) results)\<rparr>),
                          config, io)
               else if length idxs = 1
               then (case approval_gate_prompt ok' io config (tool_calls ! hd idxs) of
                       (result, config, io) \<Rightarrow>
                         Some (if result = APPROVAL_ABORTED then APPROVAL_ABORTED
                               else if result = APPROVAL_DENIED \<or> any_denied t then APPROVAL_DENIED
                               else if any_rate_limited t then APPROVAL_RATE_LIMITED
                               else result,
                               Some (batch\<lparr>br_results := Some (results[hd idxs := result])\<rparr>), config, io))
               else if \<not> ok 4
               then Some (APPROVAL_DENIED, Some (free_batch_result batch), config, io)
               else (case approval_gate_prompt_batch ok' io config (map ((!) tool_calls) idxs) of
                       (batch_result, temp, config, io) \<Rightarrow>
                         (case Option.bind temp br_results of
                            None \<Rightarrow> None
                          | Some answers \<Rightarrow>
                              Some (if batch_result = APPROVAL_ABORTED then APPROVAL_ABORTED
                                    else if any_rate_limited t then APPROVAL_RATE_LIMITED
                                    else if any_denied t \<or> batch_result = APPROVAL_DENIED
                                    then APPROVAL_DENIED
                                    else batch_result,
                                    Some (batch\<lparr>br_results := Some (scatter idxs answers results)\<rparr>),
                                    config, io))))"


section \<open>Lemmas on the prompt\<close>

definition allows :: "ApprovalResult \<Rightarrow> bool" where
  "allows r \<longleftrightarrow> r = APPROVAL_ALLOWED \<or> r = APPROVAL_ALLOWED_ALWAYS"

definition pressed_yes :: "keys \<Rightarrow> bool" where
  "pressed_yes ks \<longleftrightarrow> (\<exists>(k, q) \<in> set ks. lower_key k = KEY_y \<or> lower_key k = KEY_a)"

text \<open>What the prompt can end in: an approval, with a key for it and the denials of the tool
  forgotten, or a refusal that changes nothing.\<close>

lemma prompt_loop_outcome:
  "case prompt_loop config name ks of (r, config', ks') \<Rightarrow>
     set ks' \<subseteq> set ks \<and>
     (allows r \<and> pressed_yes ks \<and> config' = reset_denial_tracker config name \<or>
      (r = APPROVAL_DENIED \<or> r = APPROVAL_ABORTED) \<and> config' = config)"
proof (induction config name ks rule: prompt_loop.induct)
  case (1 config name)
  then show ?case by simp
next
  case (2 config name response quick ks)
  consider "response < 0 \<or> lower_key response \<in> {KEY_n, 3, 4}"
    | "\<not> response < 0" "lower_key response = KEY_y \<or> lower_key response = KEY_a"
    | "\<not> response < 0" "lower_key response = KEY_query"
    | "\<not> response < 0" "lower_key response \<notin> {KEY_y, KEY_n, KEY_a, KEY_query, 3, 4}"
    by auto
  then show ?case
  proof cases
    case 1
    then show ?thesis by (auto simp: allows_def)
  next
    case c: 2
    then show ?thesis by (auto simp: allows_def pressed_yes_def)
  next
    case c: 3
    show ?thesis
    proof (cases ks)
      case Nil
      with c show ?thesis by simp
    next
      case (Cons a ks')
      with c 2(2)[of a ks'] show ?thesis
        by (auto simp: pressed_yes_def split: prod.splits)
    qed
  next
    case c: 4
    with 2(3) show ?thesis by (auto simp: pressed_yes_def split: prod.splits)
  qed
qed

lemma prompt_outcome:
  assumes "approval_gate_prompt ok io config tc = (r, config', io')"
  shows "allows r \<and> gio_isatty io \<and> pressed_yes (gio_keys io) \<and>
           config' = reset_denial_tracker config (tc_name tc) \<or>
         (r = APPROVAL_DENIED \<or> r = APPROVAL_ABORTED \<or> r = APPROVAL_NON_INTERACTIVE_DENIED) \<and> config' = config"
proof (cases "gate_prompter_create ok io")
  case True
  then show ?thesis
    using assms prompt_loop_outcome[where config = config and name = "tc_name tc" and ks = "gio_keys io"]
    by (auto simp: approval_gate_prompt_def gate_prompter_create_def split: prod.splits if_splits)
next
  case False
  then show ?thesis using assms by (simp add: approval_gate_prompt_def)
qed

lemma requires_check_values:
  "approval_gate_requires_check ok js re cbs SHELL (Some c) (Some tc) =
     (if \<not> enabled c then 0
      else case categories c (get_tool_category cbs (tc_name tc)) of
             GATE_ACTION_ALLOW \<Rightarrow> 0
           | GATE_ACTION_DENY \<Rightarrow> -1
           | GATE_ACTION_GATE \<Rightarrow> if approval_gate_matches_allowlist ok js re cbs SHELL c tc then 0 else 1)"
  by (simp add: approval_gate_requires_check_def approval_gate_get_category_action_def)

text \<open>The channel to a parent, in a subagent.\<close>

definition parent_channel :: "ApprovalGateCallbacks \<Rightarrow> ApprovalChannel option" where
  "parent_channel cbs = Option.bind (cb_get_approval_channel cbs) id"

definition action_for :: "ApprovalGateCallbacks \<Rightarrow> 'r ApprovalGateConfig \<Rightarrow> ToolCall \<Rightarrow> GateAction" where
  "action_for cbs c tc = categories c (get_tool_category cbs (tc_name tc))"

definition refuses :: "ApprovalResult \<Rightarrow> bool" where
  "refuses r \<longleftrightarrow> r \<in> {APPROVAL_DENIED, APPROVAL_ABORTED, APPROVAL_RATE_LIMITED, APPROVAL_NON_INTERACTIVE_DENIED}"

lemma allows_not_refuses: "allows r \<Longrightarrow> \<not> refuses r"
  by (auto simp: allows_def refuses_def)

text \<open>Why the check of a call can end in anything but a refusal.\<close>

lemma gate_not_refused:
  assumes "check_approval_gate ok ok' js re cbs SHELL io c tc = (r, c', io')" and "\<not> refuses r"
  shows "\<not> is_rate_limited (gio_now io) c tc \<and>
    (\<not> enabled c \<or> action_for cbs c tc = GATE_ACTION_ALLOW \<or>
     action_for cbs c tc = GATE_ACTION_GATE \<and>
      (approval_gate_matches_allowlist ok js re cbs SHELL c tc \<or>
       (\<exists>ch. parent_channel cbs = Some ch \<and>
          fst (subagent_request_approval ok' js (gio_channel io) (gio_next_id io) (Some ch) (Some tc)) = r) \<or>
       parent_channel cbs = None \<and> is_interactive c \<and> gio_isatty io \<and> pressed_yes (gio_keys io)))"
proof -
  have nl: "\<not> is_rate_limited (gio_now io) c tc"
    using assms by (auto simp: check_approval_gate_def refuses_def)
  show ?thesis
  proof (cases "approval_gate_requires_check ok js re cbs SHELL (Some c) (Some tc) = 1")
    case True
    then have g: "enabled c" "action_for cbs c tc = GATE_ACTION_GATE"
      by (auto simp: requires_check_values action_for_def split: if_splits GateAction.splits)
    show ?thesis
    proof (cases "parent_channel cbs")
      case None
      then have "is_interactive c" "approval_gate_prompt ok' io c tc = (r, c', io')"
        using assms nl True by (auto simp: check_approval_gate_def parent_channel_def refuses_def split: if_splits)
      with prompt_outcome[OF this(2)] assms(2) nl g None show ?thesis
        by (auto simp: refuses_def)
    next
      case (Some ch)
      then show ?thesis
        using assms nl True g
        by (auto simp: check_approval_gate_def parent_channel_def split: prod.splits)
    qed
  next
    case False
    then have "approval_gate_requires_check ok js re cbs SHELL (Some c) (Some tc) = 0"
      using assms nl by (auto simp: check_approval_gate_def refuses_def Let_def split: if_splits)
    then show ?thesis
      using nl by (auto simp: requires_check_values action_for_def split: if_splits GateAction.splits)
  qed
qed

section \<open>Properties of the check\<close>

text \<open>C3. A call is let through only for a reason. If the check allows a call, then its tool is not
  backing off after denials, and either the gate is switched off, or the category of the tool is
  not denied and: the category is allowed, or the call matches an allowlist, or in a subagent the
  parent answered so, or else the gate is interactive, on a terminal, and the user pressed the key
  for yes or for always. A call of a denied category never runs while the gate is on.\<close>

theorem gate_allows_only:
  assumes "check_approval_gate ok ok' js re cbs SHELL io c tc = (r, c', io')" and "allows r"
  shows "\<not> is_rate_limited (gio_now io) c tc \<and>
    (\<not> enabled c \<or> action_for cbs c tc = GATE_ACTION_ALLOW \<or>
     action_for cbs c tc = GATE_ACTION_GATE \<and>
      (approval_gate_matches_allowlist ok js re cbs SHELL c tc \<or>
       (\<exists>ch. parent_channel cbs = Some ch \<and>
          fst (subagent_request_approval ok' js (gio_channel io) (gio_next_id io) (Some ch) (Some tc)) = r) \<or>
       parent_channel cbs = None \<and> is_interactive c \<and> gio_isatty io \<and> pressed_yes (gio_keys io)))"
  using gate_not_refused[OF assms(1) allows_not_refuses[OF assms(2)]] .

definition no_callbacks :: ApprovalGateCallbacks where
  "no_callbacks = \<lparr>cb_is_extension_tool = None, cb_get_gate_category = None, cb_get_match_arg = None,
                   cb_get_approval_channel = None\<rparr>"

definition sample_config :: "string ApprovalGateConfig" where
  "sample_config = default_config\<lparr>rate_limiter := Some \<lparr>rl_entries = [], rl_capacity = 8\<rparr>, is_interactive := True\<rparr>"

definition keys_io :: "keys \<Rightarrow> gate_io" where
  "keys_io ks = \<lparr>gio_now = 1000, gio_isatty = True, gio_keys = ks, gio_next_id = 1,
                 gio_channel = \<lparr>io_writes = [], io_ready = False, io_reads = []\<rparr>\<rparr>"

definition write_call :: ToolCall where
  "write_call = \<lparr>tc_id = None, tc_name = Some ''write_file'', tc_arguments = Some ''{}''\<rparr>"

lemmas sample_defs = no_callbacks_def sample_config_def keys_io_def write_call_def default_config_def

lemma sample_write_check:
  "approval_gate_requires_check ok (table_json []) substring_regex no_callbacks None (Some sample_config)
     (Some write_call) = 1"
  by (simp add: requires_check_values sample_defs get_tool_category_def approval_gate_matches_allowlist_def
      extract_match_target_def match_regex_allowlist_def split: option.split)

theorem gate_allows_only_witness:
  "\<exists>c' io'. check_approval_gate alloc_ok alloc_ok (table_json []) substring_regex no_callbacks None
      (keys_io [(33, True), (89, True)]) sample_config write_call = (APPROVAL_ALLOWED, c', io') \<and>
    pressed_yes [(33, True), (89, True)]"
proof -
  let ?io = "keys_io [(33, True), (89, True)]"
  obtain c' io' where r: "check_approval_gate alloc_ok alloc_ok (table_json []) substring_regex no_callbacks None
      ?io sample_config write_call = (APPROVAL_ALLOWED, c', io')"
    using sample_write_check[of alloc_ok]
    by (simp add: check_approval_gate_def sample_defs is_rate_limited_def rate_limiter_is_blocked_def
        find_entry_def approval_gate_prompt_def gate_prompter_create_def lower_key_def)
  have "\<not> approval_gate_matches_allowlist alloc_ok (table_json []) substring_regex no_callbacks None
      sample_config write_call"
    by (simp add: sample_defs get_tool_category_def approval_gate_matches_allowlist_def
        extract_match_target_def match_regex_allowlist_def split: option.split)
  moreover have "action_for no_callbacks sample_config write_call = GATE_ACTION_GATE" "enabled sample_config"
      "parent_channel no_callbacks = None"
    by (simp_all add: action_for_def parent_channel_def sample_defs get_tool_category_def)
  ultimately have "pressed_yes (gio_keys ?io)"
    using gate_allows_only[OF r] by (simp add: allows_def)
  with r show ?thesis by (simp add: keys_io_def)
qed



text \<open>The effect of a prompt. The prompt always ends, whatever is typed. It ends in an approval
  only on a terminal and after the key for yes or always was pressed, and then the denials of the
  tool are forgotten: it is not rate limited at any later time. Every other end, by the key for no,
  an interrupt, the end of the input or a missing terminal, leaves the configuration as it was.\<close>

theorem prompt_effects:
  assumes "approval_gate_prompt ok io c tc = (r, c', io')" and "tc_name tc = Some tool" and "0 \<le> now"
  shows "(allows r \<longrightarrow> gio_isatty io \<and> pressed_yes (gio_keys io) \<and> \<not> is_rate_limited now c' tc) \<and>
    (\<not> allows r \<longrightarrow> c' = c \<and>
       r \<in> {APPROVAL_DENIED, APPROVAL_ABORTED, APPROVAL_NON_INTERACTIVE_DENIED})"
proof -
  have "\<not> is_rate_limited now (reset_denial_tracker c (tc_name tc)) tc"
  proof (cases "rate_limiter c")
    case None
    then show ?thesis
      using assms(2) by (simp add: is_rate_limited_def reset_denial_tracker_def rate_limiter_is_blocked_def
          rate_limiter_reset_def)
  next
    case (Some rl)
    moreover obtain rl' where "rate_limiter_reset (Some rl) (Some tool) = Some rl'"
      by (cases "find_entry (Some rl) (Some tool)") (auto simp: rate_limiter_reset_def)
    ultimately show ?thesis
      using assms(2,3) rl.not_blocked_forgive[of now rl tool]
      by (simp add: is_rate_limited_def reset_denial_tracker_def)
  qed
  then show ?thesis
    using prompt_outcome[OF assms(1)] by (auto simp: allows_def)
qed

theorem prompt_effects_witness:
  "\<exists>c' io'. approval_gate_prompt alloc_ok (keys_io [(65, False)]) sample_config write_call =
     (APPROVAL_ALLOWED_ALWAYS, c', io') \<and> \<not> is_rate_limited 2000 c' write_call"
proof -
  obtain c' io' where r: "approval_gate_prompt alloc_ok (keys_io [(65, False)]) sample_config write_call =
     (APPROVAL_ALLOWED_ALWAYS, c', io')"
    by (simp add: approval_gate_prompt_def gate_prompter_create_def keys_io_def lower_key_def)
  have "tc_name write_call = Some ''write_file''"
    by (simp add: write_call_def)
  from prompt_effects[OF r this, of 2000] r show ?thesis
    by (simp add: allows_def)
qed

end
