(* ===== verification/Gate_Batch.thy ===== *)
theory Gate_Batch
  imports Approval_Gate
begin

text \<open>
  What the check of a batch of tool calls guarantees, on the definitions of \<^verbatim>\<open>Approval_Gate\<close>: each
  call of the batch gets the result its own check would give it, and a call that needs the user's
  approval is allowed only after the user gave it.
\<close>

section \<open>The first pass\<close>

lemma length_triage [simp]: "length (triage oks js re cbs SHELL now c i tcs) = length tcs"
  by (induction tcs arbitrary: i) simp_all

lemma triage_nth:
  assumes "j < length tcs"
  shows "triage oks js re cbs SHELL now c i tcs ! j =
    (if is_rate_limited now c (tcs ! j) then Some APPROVAL_RATE_LIMITED
     else let k = approval_gate_requires_check (oks (i + j)) js re cbs SHELL (Some c) (Some (tcs ! j))
          in if k = 0 then Some APPROVAL_ALLOWED else if k = 1 then None else Some APPROVAL_DENIED)"
  using assms
proof (induction tcs arbitrary: i j)
  case (Cons tc tcs)
  show ?case
  proof (cases j)
    case 0
    then show ?thesis by (simp add: Let_def)
  next
    case (Suc m)
    with Cons show ?thesis by simp
  qed
qed simp

lemma needs_approval_indices_iff:
  "j \<in> set (needs_approval_indices t) \<longleftrightarrow> j < length t \<and> t ! j = None"
  by (auto simp: needs_approval_indices_def)

lemma distinct_needs_approval [simp]: "distinct (needs_approval_indices t)"
  by (simp add: needs_approval_indices_def)

lemma length_scatter [simp]: "length (scatter is xs ys) = length ys"
  by (induction "is" xs ys rule: scatter.induct) simp_all

lemma scatter_other: "j \<notin> set is \<Longrightarrow> scatter is xs ys ! j = ys ! j"
  by (induction "is" xs ys rule: scatter.induct) auto

lemma scatter_nth:
  assumes "distinct is" and "length is = length xs" and "m < length is" and "\<forall>i \<in> set is. i < length ys"
  shows "scatter is xs ys ! (is ! m) = xs ! m"
  using assms
proof (induction "is" xs ys arbitrary: m rule: scatter.induct)
  case (1 i "is" x xs ys)
  show ?case
  proof (cases m)
    case 0
    then show ?thesis
      using 1 scatter_other[of i "is" xs "ys[i := x]"] by simp
  next
    case (Suc k)
    then show ?thesis
      using 1 by simp
  qed
qed auto

section \<open>The prompt for a batch\<close>

lemma pressed_yes_mono: "set ks \<subseteq> set ks' \<Longrightarrow> pressed_yes ks \<Longrightarrow> pressed_yes ks'"
  by (auto simp: pressed_yes_def)

lemma read_key_timeout_set: "set (snd (gate_prompter_read_key_timeout ks)) \<subseteq> set ks"
  by (cases ks rule: gate_prompter_read_key_timeout.cases) auto

lemma operation_number_set: "set (snd (operation_number n response ks)) \<subseteq> set ks"
  using read_key_timeout_set[of ks]
  by (auto simp: operation_number_def Let_def split: option.split prod.split)

lemma prompt_keys_outcome:
  assumes "prompt_keys create c tc ks = (r, c', ks')"
  shows "set ks' \<subseteq> set ks \<and> (allows r \<longrightarrow> create \<and> pressed_yes ks)"
  using assms prompt_loop_outcome[where config = c and name = "tc_name tc" and ks = ks]
  by (auto simp: prompt_keys_def allows_def split: if_splits)

text \<open>The results a loop state leads to: as many, and allowed only where they were or where the user
  said yes.\<close>

definition results_from :: "ApprovalResult list \<Rightarrow> keys \<Rightarrow> ApprovalResult list \<Rightarrow> bool" where
  "results_from rs ks rs' \<longleftrightarrow>
     length rs' = length rs \<and> (\<forall>j < length rs. allows (rs' ! j) \<longrightarrow> allows (rs ! j) \<or> pressed_yes ks)"

lemma results_from_refl [simp]: "results_from rs ks rs"
  by (simp add: results_from_def)

lemma results_from_trans:
  "results_from rs ks rs1 \<Longrightarrow> results_from rs1 ks1 rs2 \<Longrightarrow> set ks1 \<subseteq> set ks \<Longrightarrow> results_from rs ks rs2"
  unfolding results_from_def using pressed_yes_mono by metis

lemma results_from_mono: "results_from rs ks rs1 \<Longrightarrow> set ks \<subseteq> set ks' \<Longrightarrow> results_from rs ks' rs1"
  unfolding results_from_def using pressed_yes_mono by metis

lemma results_from_update:
  assumes "allows r \<longrightarrow> pressed_yes ks"
  shows "results_from rs ks (rs[i := r])"
proof -
  have "allows (rs ! j) \<or> pressed_yes ks" if "j < length rs" "allows (rs[i := r] ! j)" for j
    using that assms by (cases "i = j") auto
  then show ?thesis by (simp add: results_from_def)
qed

lemma results_from_pending:
  "allows r \<longrightarrow> pressed_yes ks \<Longrightarrow> length p = length rs \<Longrightarrow> results_from rs ks (answer_pending r p rs)"
  by (auto simp: results_from_def answer_pending_def)

lemma batch_single_outcome:
  assumes "length p = length rs"
  shows "case batch_single creates calls i (c, p, rs, ks) of
      Inl (r, rs', c', ks') \<Rightarrow> (\<forall>xs. rs' = Some xs \<longrightarrow> results_from rs ks xs)
    | Inr (c', p', rs', ks') \<Rightarrow> results_from rs ks rs' \<and> length p' = length rs' \<and> set ks' \<subseteq> set ks"
proof -
  obtain r c1 ks1 where k: "prompt_keys (creates i) c (calls ! i) ks = (r, c1, ks1)"
    by (cases "prompt_keys (creates i) c (calls ! i) ks") auto
  from prompt_keys_outcome[OF k] have "allows r \<longrightarrow> pressed_yes ks" "set ks1 \<subseteq> set ks"
    by auto
  then show ?thesis
    using k assms results_from_update[of r ks rs i] by (simp add: batch_single_def Let_def)
qed

lemma batch_round_outcome:
  assumes "length p = length rs"
  shows "case batch_round creates calls response (c, p, rs, ks) of
      Inl (r, rs', c', ks') \<Rightarrow> (\<forall>xs. rs' = Some xs \<longrightarrow> results_from rs ((response, q) # ks) xs)
    | Inr (c', p', rs', ks') \<Rightarrow>
        results_from rs ((response, q) # ks) rs' \<and> length p' = length rs' \<and> set ks' \<subseteq> set ks"
proof -
  let ?ks = "(response, q) # ks"
  obtain n ks1 where n: "operation_number (int (length calls)) response ks = (n, ks1)"
    by (cases "operation_number (int (length calls)) response ks")
  then have ks1: "set ks1 \<subseteq> set ks"
    using operation_number_set[of "int (length calls)" response ks] by simp
  have m: "results_from rs ks1 xs \<Longrightarrow> results_from rs ?ks xs" for xs
    using results_from_mono[of rs ks1 xs ?ks] ks1 by auto
  have single: "case batch_single creates calls (nat (n - 1)) (c, p, rs, ks1) of
      Inl (r, rs', c', ks') \<Rightarrow> (\<forall>xs. rs' = Some xs \<longrightarrow> results_from rs ?ks xs)
    | Inr (c', p', rs', ks') \<Rightarrow>
        results_from rs ?ks rs' \<and> length p' = length rs' \<and> set ks' \<subseteq> set ks"
    using batch_single_outcome[OF assms, where creates = creates and calls = calls and i = "nat (n - 1)" and c = c
        and ks = ks1] m ks1
    by (auto split: sum.splits)
  have yes: "lower_key response = KEY_y \<Longrightarrow> pressed_yes ?ks"
    by (simp add: pressed_yes_def)
  have no: "\<not> allows APPROVAL_DENIED"
    by (simp add: allows_def)
  consider "response < 0" | "\<not> response < 0" "lower_key response = KEY_y"
    | "\<not> response < 0" "lower_key response = KEY_n"
    | "\<not> response < 0" "KEY_0 < lower_key response" "lower_key response \<le> KEY_9"
    | "\<not> response < 0" "lower_key response \<noteq> KEY_y" "lower_key response \<noteq> KEY_n"
        "\<not> (KEY_0 < lower_key response \<and> lower_key response \<le> KEY_9)"
    by linarith
  then show ?thesis
  proof cases
    case 2
    then show ?thesis
      using results_from_pending[of APPROVAL_ALLOWED ?ks p rs] yes assms by (simp add: batch_round_def)
  next
    case 3
    then show ?thesis
      using results_from_pending[of APPROVAL_DENIED ?ks p rs] no assms by (simp add: batch_round_def)
  next
    case 4
    then have "lower_key response \<noteq> KEY_y" "lower_key response \<noteq> KEY_n" by auto
    with 4 show ?thesis
      using single assms ks1 by (simp add: batch_round_def n)
  next
    case 5
    then show ?thesis
      using assms by (simp only: batch_round_def prod.case if_False) simp
  qed (use assms in \<open>simp add: batch_round_def\<close>)
qed

lemma batch_loop_outcome:
  assumes "length p = length rs" and "batch_loop creates calls c p rs ks = (r, Some rs', c', ks')"
  shows "results_from rs ks rs'"
  using assms
proof (induction creates calls c p rs ks rule: batch_loop.induct)
  case (2 creates calls c p rs response q ks)
  note o = batch_round_outcome[OF "2.prems"(1), where creates = creates and calls = calls
      and response = response and c = c and ks = ks and q = q]
  show ?case
  proof (cases "batch_round creates calls response (c, p, rs, ks)")
    case (Inl e)
    then show ?thesis
      using o "2.prems"(2) by auto
  next
    case (Inr st)
    obtain c1 p1 rs1 ks1 where st: "st = (c1, p1, rs1, ks1)" by (cases st)
    have s: "results_from rs ((response, q) # ks) rs1" "length p1 = length rs1" "set ks1 \<subseteq> set ks"
      using o Inr st by auto
    have "results_from rs1 ks1 rs'"
      using "2.IH"[OF Inr[unfolded st] refl refl refl s(2)] "2.prems"(2) Inr st by simp
    with s show ?thesis
      by (meson results_from_trans set_subset_Cons subset_trans)
  qed
qed simp

lemma prompt_batch_results:
  assumes "approval_gate_prompt_batch ok io c calls = (r, temp, c', io')"
    and "Option.bind temp br_results = Some rs"
  shows "length rs = length calls" and "\<forall>j < length calls. allows (rs ! j) \<longrightarrow> gio_isatty io \<and> pressed_yes (gio_keys io)"
proof -
  have tty: "gio_isatty io"
    using assms by (auto simp: approval_gate_prompt_batch_def gate_prompter_create_def split: if_splits)
  obtain b where b: "init_batch_result (\<lambda>n. ok (1 + n)) (int (length calls)) = Some b"
    using assms by (auto simp: approval_gate_prompt_batch_def split: if_splits option.splits)
  then have br: "br_results b = Some (replicate (length calls) APPROVAL_DENIED)"
    by (auto simp: init_batch_result_def split: if_splits)
  obtain r1 rs1 c1 ks1 where l: "batch_loop (\<lambda>i. gio_isatty io \<and> ok (5 + i)) calls c
      (replicate (length calls) True) (replicate (length calls) APPROVAL_DENIED) (gio_keys io) = (r1, rs1, c1, ks1)"
    by (metis prod.exhaust)
  have "rs1 = Some rs"
    using assms b br l tty
    by (auto simp: approval_gate_prompt_batch_def free_batch_result_def split: if_splits option.splits)
  with batch_loop_outcome[OF _ l[unfolded \<open>rs1 = Some rs\<close>]]
  have "results_from (replicate (length calls) APPROVAL_DENIED) (gio_keys io) rs"
    by simp
  with tty show "length rs = length calls"
    and "\<forall>j < length calls. allows (rs ! j) \<longrightarrow> gio_isatty io \<and> pressed_yes (gio_keys io)"
    by (auto simp: results_from_def allows_def)
qed


section \<open>The results of a batch\<close>

lemma scatter_member:
  assumes "distinct is" and "length is = length xs" and "\<forall>i \<in> set is. i < length ys" and "j \<in> set is"
  shows "scatter is xs ys ! j \<in> set xs"
proof -
  obtain m where "m < length is" "is ! m = j"
    using assms(4) by (auto simp: in_set_conv_nth)
  with scatter_nth[OF assms(1,2) _ assms(3), of m] assms(2) show ?thesis by simp
qed

lemma triage_index:
  "j \<in> set (needs_approval_indices (triage oks js re cbs SHELL now c 0 calls)) \<longleftrightarrow>
     j < length calls \<and> \<not> is_rate_limited now c (calls ! j) \<and>
     approval_gate_requires_check (oks j) js re cbs SHELL (Some c) (Some (calls ! j)) = 1"
  unfolding needs_approval_indices_iff by (auto simp: triage_nth Let_def split: if_splits)

lemma triage_allows:
  assumes "j < length calls" and "allows (triaged_results (triage oks js re cbs SHELL now c 0 calls) ! j)"
  shows "\<not> is_rate_limited now c (calls ! j) \<and>
    approval_gate_requires_check (oks j) js re cbs SHELL (Some c) (Some (calls ! j)) = 0"
  using assms unfolding triaged_results_def
  by (auto simp: triage_nth Let_def allows_def split: if_splits)

text \<open>Whatever the check of a batch does about the calls that need approval, it writes one answer for
  each of them into the results of the first pass.\<close>

definition batch_answers ::
    "'r ApprovalGateConfig \<Rightarrow> gate_io \<Rightarrow> nat list \<Rightarrow> ApprovalResult list \<Rightarrow> ApprovalResult list \<Rightarrow> bool" where
  "batch_answers c io idxs base rs \<longleftrightarrow>
     (\<exists>answers. rs = scatter idxs answers base \<and> length answers = length idxs \<and>
        (\<forall>a \<in> set answers. allows a \<longrightarrow> is_interactive c \<and> gio_isatty io \<and> pressed_yes (gio_keys io)))"

lemma batch_answers_single:
  assumes "is_interactive c" and "approval_gate_prompt ok' io c tc = (r1, c1, io1)"
  shows "batch_answers c io [i] base (base[i := r1])"
proof -
  have "allows r1 \<Longrightarrow> gio_isatty io \<and> pressed_yes (gio_keys io)"
    using prompt_outcome[OF assms(2)] by (auto simp: allows_def)
  with assms(1) show ?thesis
    unfolding batch_answers_def by (intro exI[of _ "[r1]"]) simp
qed

lemma batch_answers_prompted:
  assumes "is_interactive c" and "approval_gate_prompt_batch ok' io c (map ((!) calls) idxs) = (br, temp, c1, io1)"
    and "Option.bind temp br_results = Some answers"
  shows "batch_answers c io idxs base (scatter idxs answers base)"
  unfolding batch_answers_def
  using prompt_batch_results[OF assms(2,3)] assms(1)
  by (intro exI[of _ answers]) (auto simp: in_set_conv_nth)

lemma batch_results:
  assumes "check_approval_gate_batch ok ok' oks js re cbs SHELL io c calls = Some (r, Some b, c', io')"
    and "br_results b = Some rs"
    and t: "t = triage oks js re cbs SHELL (gio_now io) c 0 calls"
  shows "batch_answers c io (needs_approval_indices t) (triaged_results t) rs"
proof -
  define idxs where "idxs = needs_approval_indices t"
  obtain b0 where b0: "init_batch_result ok (int (length calls)) = Some b0"
    using assms(1) by (auto simp: check_approval_gate_batch_def split: if_splits option.splits)
  note unf = assms(1)[unfolded check_approval_gate_batch_def b0 option.case Let_def, folded t, folded idxs_def]
  have ok: "ok 2 \<and> ok 3" "\<not> int (length calls) \<le> 0"
    using unf assms(2) b0 by (auto simp: free_batch_result_def init_batch_result_def split: if_splits)
  consider "idxs = []" | "idxs \<noteq> []" "\<not> is_interactive c" | i where "is_interactive c" "idxs = [i]"
    | "idxs \<noteq> []" "is_interactive c" "length idxs \<noteq> 1"
    by (metis length_0_conv length_Suc_conv One_nat_def)
  then have "batch_answers c io idxs (triaged_results t) rs"
  proof cases
    case 1
    then show ?thesis
      using unf ok assms(2) by (auto simp: batch_answers_def)
  next
    case 2
    then show ?thesis
      using unf ok assms(2) unfolding batch_answers_def
      by (intro exI[of _ "map (\<lambda>_. APPROVAL_NON_INTERACTIVE_DENIED) idxs"]) (auto simp: allows_def)
  next
    case 3
    then show ?thesis
      using unf ok assms(2) batch_answers_single[OF 3(1), of ok' io "calls ! i"]
      by (auto split: prod.splits)
  next
    case 4
    then show ?thesis
      using unf ok assms(2) batch_answers_prompted[OF 4(2), of ok' io calls idxs]
      by (auto simp: free_batch_result_def split: if_splits option.splits prod.splits)
  qed
  then show ?thesis by (simp add: idxs_def)
qed


section \<open>Properties\<close>

text \<open>C9. What a batch lets through. The check of a batch gives one result for each call, and a call
  is allowed only if its tool is not backing off and either its own check needs no approval, or
  the gate is interactive, on a terminal, and the user pressed the key for yes or always; a call
  whose category is denied is never allowed.\<close>

theorem batch_allows_only:
  assumes "check_approval_gate_batch ok ok' oks js re cbs SHELL io c calls = Some (r, Some b, c', io')"
    and "br_results b = Some rs"
  shows "length rs = length calls \<and>
    (\<forall>j < length calls. allows (rs ! j) \<longrightarrow>
       \<not> is_rate_limited (gio_now io) c (calls ! j) \<and>
       (approval_gate_requires_check (oks j) js re cbs SHELL (Some c) (Some (calls ! j)) = 0 \<or>
        approval_gate_requires_check (oks j) js re cbs SHELL (Some c) (Some (calls ! j)) = 1 \<and>
        is_interactive c \<and> gio_isatty io \<and> pressed_yes (gio_keys io)))"
proof -
  define t where "t = triage oks js re cbs SHELL (gio_now io) c 0 calls"
  obtain answers where a: "rs = scatter (needs_approval_indices t) answers (triaged_results t)"
      "length answers = length (needs_approval_indices t)"
      "\<forall>a \<in> set answers. allows a \<longrightarrow> is_interactive c \<and> gio_isatty io \<and> pressed_yes (gio_keys io)"
    using batch_results[OF assms t_def] by (auto simp: batch_answers_def)
  have len: "length (triaged_results t) = length calls"
    by (simp add: t_def triaged_results_def)
  have answered: "rs ! j \<in> set answers" if "j \<in> set (needs_approval_indices t)" for j
    using scatter_member[of "needs_approval_indices t" answers "triaged_results t" j] that a(1,2) len
    by (simp add: t_def triage_index)
  show ?thesis
    using a len answered scatter_other[of _ "needs_approval_indices t" answers "triaged_results t"]
      triage_index[of _ oks js re cbs SHELL "gio_now io" c calls]
      triage_allows[of _ calls oks js re cbs SHELL "gio_now io" c]
    unfolding t_def by (metis length_scatter)
qed

theorem batch_allows_only_witness:
  "\<exists>r b c' io' rs. check_approval_gate_batch alloc_ok alloc_ok (\<lambda>_. alloc_ok) (table_json []) substring_regex
      no_callbacks None (keys_io [(121, False)]) sample_config [write_call, write_call] = Some (r, Some b, c', io') \<and>
    br_results b = Some rs \<and> length rs = 2"
proof -
  have l: "\<not> is_rate_limited (gio_now (keys_io [(121, False)])) sample_config write_call"
    by (simp add: sample_defs is_rate_limited_def rate_limiter_is_blocked_def find_entry_def)
  have t: "triage (\<lambda>_. alloc_ok) (table_json []) substring_regex no_callbacks None
      (gio_now (keys_io [(121, False)])) sample_config 0 [write_call, write_call] = [None, None]"
    using l sample_write_check by simp
  obtain r b c' io' rs where e: "check_approval_gate_batch alloc_ok alloc_ok (\<lambda>_. alloc_ok) (table_json [])
      substring_regex no_callbacks None (keys_io [(121, False)]) sample_config [write_call, write_call] =
      Some (r, Some b, c', io')" "br_results b = Some rs"
    unfolding check_approval_gate_batch_def t
    by (simp add: init_batch_result_def needs_approval_indices_def sample_config_def default_config_def
        approval_gate_prompt_batch_def gate_prompter_create_def keys_io_def batch_round_def lower_key_def
        upt_rec[of 0 2] upt_rec[of 1 2] Let_def)
  with batch_allows_only[OF e] show ?thesis by simp
qed

text \<open>An interrupted batch. When two or more calls of a batch need approval and the user
  interrupts the prompt, or its input ends, the check reads the results that the prompt has just
  freed; the same happens when the prompter cannot be created.\<close>

theorem batch_abort_reads_freed:
  assumes "length calls = 2" and "enabled c" and "is_interactive c"
    and "\<forall>tc \<in> set calls. \<not> is_rate_limited (gio_now io) c tc \<and>
      action_for cbs c tc = GATE_ACTION_GATE \<and> \<not> approval_gate_matches_allowlist alloc_ok js re cbs SHELL c tc"
    and "gio_keys io = [] \<or> \<not> gio_isatty io"
  shows "check_approval_gate_batch alloc_ok alloc_ok (\<lambda>_. alloc_ok) js re cbs SHELL io c calls = None"
proof -
  obtain a b where ab: "calls = [a, b]"
    using assms(1) by (auto simp: length_Suc_conv numeral_2_eq_2)
  have "approval_gate_requires_check alloc_ok js re cbs SHELL (Some c) (Some tc) = 1" if "tc \<in> set calls" for tc
    using assms(2,4) that by (simp add: requires_check_values action_for_def)
  then have t: "triage (\<lambda>_. alloc_ok) js re cbs SHELL (gio_now io) c 0 calls = [None, None]"
    using assms(4) by (simp add: ab)
  have i: "needs_approval_indices [None, None :: ApprovalResult option] = [0, 1]"
    by (simp add: needs_approval_indices_def upt_rec[of 0 2] upt_rec[of 1 2])
  have p: "Option.bind (fst (snd (approval_gate_prompt_batch alloc_ok io c (map ((!) calls) [0, 1])))) br_results = None"
    using assms(5) by (auto simp: approval_gate_prompt_batch_def gate_prompter_create_def init_batch_result_def
        free_batch_result_def)
  show ?thesis
    using assms(3) p unfolding check_approval_gate_batch_def t i Let_def
    by (auto simp: ab init_batch_result_def split: prod.splits)
qed

theorem batch_abort_reads_freed_witness:
  "check_approval_gate_batch alloc_ok alloc_ok (\<lambda>_. alloc_ok) (table_json []) substring_regex
      no_callbacks None (keys_io []) sample_config [write_call, write_call] = None"
proof -
  have "\<not> is_rate_limited (gio_now (keys_io [])) sample_config write_call"
    by (simp add: sample_defs is_rate_limited_def rate_limiter_is_blocked_def find_entry_def)
  moreover have "\<not> approval_gate_matches_allowlist alloc_ok (table_json []) substring_regex no_callbacks None
      sample_config write_call"
    by (simp add: sample_defs get_tool_category_def approval_gate_matches_allowlist_def
        extract_match_target_def match_regex_allowlist_def)
  moreover have "action_for no_callbacks sample_config write_call = GATE_ACTION_GATE" "enabled sample_config"
      "is_interactive sample_config" "gio_keys (keys_io []) = []"
    by (simp_all add: action_for_def sample_defs get_tool_category_def)
  ultimately show ?thesis
    by (intro batch_abort_reads_freed) simp_all
qed

end
