(* ===== verification/Pattern_Generator.thy ===== *)
theory Pattern_Generator
  imports Gate_Match Path_Normalize
begin

text \<open>
  The patterns that an approval for always is remembered by, from
  \<^verbatim>\<open>lib/policy/pattern_generator.c\<close>: a regular expression for a path, a URL or the arguments of a
  call, or the first words of a command.

  A function that returns -1 gives \<open>None\<close>; the structure it fills in is the value otherwise. Text made
  with \<^verbatim>\<open>asprintf\<close> is an allocation like any other.
\<close>

section \<open>Paths and escaping\<close>

definition regex_meta :: string where
  "regex_meta = [CHR 0x5C, CHR 0x5E, CHR ''$'', CHR ''.'', CHR ''|'', CHR ''?'', CHR ''*'', CHR ''+'',
                 CHR ''('', CHR '')'', CHR ''['', CHR '']'', CHR ''{'', CHR ''}'']"

definition escape_char :: "char \<Rightarrow> string" where
  "escape_char c = (if c \<in> set regex_meta then [CHR 0x5C, c] else [c])"

text \<open>Site 0 is the result.\<close>

definition regex_escape :: "alloc \<Rightarrow> string option \<Rightarrow> string option" where
  "regex_escape ok str =
     (if \<not> ok 0 then None
      else case str of None \<Rightarrow> Some [] | Some s \<Rightarrow> Some (concat (map escape_char s)))"

definition is_root_path :: "string \<Rightarrow> bool" where
  "is_root_path path =
     (let path = (if starts_with ''./'' path then drop 2 path else path)
      in SLASH \<notin> set path)"

definition is_tmp_path :: "string \<Rightarrow> bool" where
  "is_tmp_path path \<longleftrightarrow> starts_with ''/tmp/'' path \<or> starts_with ''/tmp'' path"

text \<open>Site 0 is the copy.\<close>

definition get_directory :: "alloc \<Rightarrow> string \<Rightarrow> string option" where
  "get_directory ok path =
     (if \<not> ok 0 then None
      else case strrchr_split SLASH path of
             None \<Rightarrow> Some ''.''
           | Some (dir, _) \<Rightarrow> if dir = [] then Some ''/'' else Some dir)"

definition get_basename_simple :: "string \<Rightarrow> string" where
  "get_basename_simple path =
     (case strrchr_split SLASH path of None \<Rightarrow> path | Some (_, base) \<Rightarrow> base)"

text \<open>The extension with its dot; a dot at the start of the name does not begin one.\<close>

definition get_extension :: "string \<Rightarrow> string option" where
  "get_extension path =
     (case strrchr_split CHR ''.'' (get_basename_simple path) of
        None \<Rightarrow> None
      | Some (stem, ext) \<Rightarrow> if stem = [] then None else Some (CHR ''.'' # ext))"

text \<open>The name up to and with its first underscore, if that comes before the extension.\<close>

definition underscore_prefix :: "string \<Rightarrow> string \<Rightarrow> string option" where
  "underscore_prefix base ext =
     (case strchr_split CHR ''_'' base of
        None \<Rightarrow> None
      | Some (a, _) \<Rightarrow> if length a < length base - length ext then Some (a @ ''_'') else None)"

section \<open>Generated patterns\<close>

record GeneratedPattern =
  gp_pattern :: "string option"
  gp_command_prefix :: "string list option"
  gp_prefix_len :: int
  gp_is_exact_match :: bool
  gp_needs_confirmation :: bool
  gp_example_matches :: "string option list option"
  gp_example_count :: int

definition zero_pattern :: GeneratedPattern where
  "zero_pattern =
     \<lparr>gp_pattern = None, gp_command_prefix = None, gp_prefix_len = 0, gp_is_exact_match = False,
      gp_needs_confirmation = False, gp_example_matches = None, gp_example_count = 0\<rparr>"

definition free_generated_pattern :: "GeneratedPattern \<Rightarrow> GeneratedPattern" where
  "free_generated_pattern p =
     p\<lparr>gp_pattern := None, gp_command_prefix := None, gp_prefix_len := 0, gp_example_matches := None,
       gp_example_count := 0\<rparr>"

text \<open>The pattern for one text only. Site 0 escapes it, site 1 prints the pattern.\<close>

definition exact_pattern :: "alloc \<Rightarrow> string \<Rightarrow> GeneratedPattern option" where
  "exact_pattern ok s =
     (case regex_escape ok (Some s) of
        None \<Rightarrow> None
      | Some escaped \<Rightarrow>
          if \<not> ok 1 then None
          else Some (zero_pattern\<lparr>gp_pattern := Some (''^'' @ escaped @ ''$''), gp_is_exact_match := True\<rparr>))"

text \<open>The examples of a path pattern: site 0 the array, 1 the directory, 2 to 4 the texts.\<close>

definition path_examples :: "alloc \<Rightarrow> string \<Rightarrow> string \<Rightarrow> GeneratedPattern \<Rightarrow> GeneratedPattern" where
  "path_examples ok path ext p =
     (if \<not> ok 0 then p
      else case get_directory (\<lambda>_. ok 1) path of
             None \<Rightarrow> p\<lparr>gp_example_matches := Some [None, None, None]\<rparr>
           | Some dir \<Rightarrow>
               p\<lparr>gp_example_matches := Some
                   [if ok 2 then Some (dir @ ''/foo'' @ ext) else None,
                    if ok 3 then Some (dir @ ''/bar'' @ ext) else None,
                    if ok 4 then Some (dir @ ''/other'' @ ext) else None],
                 gp_example_count := 3\<rparr>)"

text \<open>Sites: 0 and 1 the exact pattern, 2 the directory, 3 and 4 escape it and the extension, 5 and 6
  the prefix and its escape, 7 the pattern, from 8 the examples.\<close>

definition generate_file_path_pattern :: "alloc \<Rightarrow> string \<Rightarrow> GeneratedPattern option" where
  "generate_file_path_pattern ok path =
     (if is_root_path path then exact_pattern ok path
      else if is_tmp_path path then exact_pattern ok path
      else case get_directory (\<lambda>_. ok 2) path of
        None \<Rightarrow> None
      | Some dir \<Rightarrow>
          (case regex_escape (\<lambda>_. ok 3) (Some dir) of
             None \<Rightarrow> None
           | Some escaped_dir \<Rightarrow>
               (case get_extension path of
                  None \<Rightarrow> exact_pattern ok path
                | Some ext \<Rightarrow>
                    (case regex_escape (\<lambda>_. ok 4) (Some ext) of
                       None \<Rightarrow> None
                     | Some escaped_ext \<Rightarrow>
                         (case underscore_prefix (get_basename_simple path) ext of
                            Some pre \<Rightarrow>
                              if \<not> ok 5 then None
                              else (case regex_escape (\<lambda>_. ok 6) (Some pre) of
                                      None \<Rightarrow> None
                                    | Some escaped_prefix \<Rightarrow>
                                        if \<not> ok 7 then None
                                        else Some (path_examples (\<lambda>n. ok (8 + n)) path ext
                                          (zero_pattern\<lparr>gp_pattern := Some (''^'' @ escaped_dir @ ''/'' @
                                              escaped_prefix @ ''.*'' @ escaped_ext @ ''$''),
                                            gp_needs_confirmation := True\<rparr>)))
                          | None \<Rightarrow>
                              if \<not> ok 7 then None
                              else Some (path_examples (\<lambda>n. ok (8 + n)) path ext
                                (zero_pattern\<lparr>gp_pattern := Some (''^'' @ escaped_dir @ ''/'' @
                                    ''.*'' @ escaped_ext @ ''$''),
                                  gp_needs_confirmation := True\<rparr>)))))))"

text \<open>The first words of a command: at most two. \<open>okp\<close> has the sites of the parser; sites of \<open>ok\<close>: 0
  the array, 1 and 2 its words, 3 the examples, 4 to 6 their texts.\<close>

definition command_examples :: "alloc \<Rightarrow> string list \<Rightarrow> int \<Rightarrow> GeneratedPattern \<Rightarrow> GeneratedPattern" where
  "command_examples ok toks prefix_len p =
     (if \<not> ok 3 then p
      else
        let base = (if prefix_len = 1 then hd toks else hd toks @ '' '' @ toks ! 1);
            texts = (if prefix_len = 1 then ['' --help'', '' -v'', '' <any args>'']
                     else ['' <any args>'', '' -v'', '' --all''])
        in p\<lparr>gp_example_matches := Some (map (\<lambda>i. if ok (4 + i) then Some (base @ texts ! i) else None) [0, 1, 2]),
             gp_example_count := 3\<rparr>)"

definition generate_shell_command_pattern ::
    "alloc \<Rightarrow> alloc \<Rightarrow> string option \<Rightarrow> string \<Rightarrow> GeneratedPattern option" where
  "generate_shell_command_pattern okp ok SHELL command =
     (case parse_shell_command okp SHELL (Some command) of
        None \<Rightarrow> None
      | Some parsed \<Rightarrow>
          if \<not> shell_command_is_safe_for_matching (Some parsed)
          then Some (zero_pattern\<lparr>gp_is_exact_match := True\<rparr>)
          else
            let token_count = int (length (tokens parsed));
                prefix_len = (if token_count \<ge> 2 then 2 else token_count)
            in if prefix_len \<le> 0 then None
               else if \<not> ok 0 then None
               else if \<not> list_all (\<lambda>i. ok (1 + i)) [0..<nat prefix_len] then None
               else
                 let p = zero_pattern\<lparr>gp_command_prefix := Some (take (nat prefix_len) (tokens parsed)),
                                      gp_prefix_len := prefix_len\<rparr>
                 in if token_count > prefix_len
                    then Some (command_examples ok (tokens parsed) prefix_len
                                 (p\<lparr>gp_needs_confirmation := True\<rparr>))
                    else Some (p\<lparr>gp_is_exact_match := True\<rparr>))"

text \<open>The text before and after the first occurrence of another text.\<close>

fun strstr_split :: "string \<Rightarrow> string \<Rightarrow> (string \<times> string) option" where
  "strstr_split n [] = (if n = [] then Some ([], []) else None)"
| "strstr_split n (c # cs) =
     (if starts_with n (c # cs) then Some ([], drop (length n) (c # cs))
      else map_option (\<lambda>(a, b). (c # a, b)) (strstr_split n cs))"

definition host_char :: "char \<Rightarrow> bool" where
  "host_char c \<longleftrightarrow> c \<noteq> SLASH \<and> c \<noteq> CHR '':'' \<and> c \<noteq> CHR ''?''"

definition url_examples :: "alloc \<Rightarrow> string \<Rightarrow> GeneratedPattern \<Rightarrow> GeneratedPattern" where
  "url_examples ok base_url p =
     (if \<not> ok 7 then p
      else if \<not> ok 8 then p\<lparr>gp_example_matches := Some [None, None, None]\<rparr>
      else p\<lparr>gp_example_matches := Some
               [if ok 9 then Some (base_url @ ''/any/path'') else None,
                if ok 10 then Some (base_url @ ''/api/v1'') else None,
                if ok 11 then Some base_url else None],
             gp_example_count := 3\<rparr>)"

text \<open>Sites: 0 and 1 the exact pattern, 2 and 3 the scheme and host, 4 and 5 escape them, 6 the
  pattern, from 7 the examples.\<close>

definition generate_network_url_pattern :: "alloc \<Rightarrow> string \<Rightarrow> GeneratedPattern option" where
  "generate_network_url_pattern ok url =
     (case strstr_split ''://'' url of
        None \<Rightarrow> exact_pattern ok url
      | Some (scheme, after) \<Rightarrow>
          if \<not> ok 2 then None
          else
            let hostname = takeWhile host_char after
            in if hostname = [] then None
               else if \<not> ok 3 then None
               else case (regex_escape (\<lambda>_. ok 4) (Some scheme), regex_escape (\<lambda>_. ok 5) (Some hostname)) of
                      (Some escaped_scheme, Some escaped_hostname) \<Rightarrow>
                        if \<not> ok 6 then None
                        else Some (url_examples ok (scheme @ ''://'' @ hostname)
                               (zero_pattern\<lparr>gp_pattern := Some (''^'' @ escaped_scheme @ ''://'' @
                                   escaped_hostname @ ''(/|$)''),
                                 gp_needs_confirmation := True\<rparr>))
                    | _ \<Rightarrow> None)"

text \<open>\<open>oka\<close> has the site of the argument's copy.\<close>

definition generate_allowlist_pattern ::
    "alloc \<Rightarrow> alloc \<Rightarrow> alloc \<Rightarrow> 'j cjson \<Rightarrow> ApprovalGateCallbacks \<Rightarrow> string option \<Rightarrow> ToolCall
     \<Rightarrow> GeneratedPattern option" where
  "generate_allowlist_pattern oka okp ok js cbs SHELL tool_call =
     (case tc_name tool_call of
        None \<Rightarrow> None
      | Some name \<Rightarrow>
          let category = get_tool_category cbs (Some name)
          in if category = GATE_CATEGORY_SHELL
             then (case tool_args_get_command oka js (Some tool_call) of
                     None \<Rightarrow> None
                   | Some command \<Rightarrow> generate_shell_command_pattern okp ok SHELL command)
             else if category = GATE_CATEGORY_NETWORK
             then (case tool_args_get_url oka js (Some tool_call) of
                     None \<Rightarrow> None
                   | Some url \<Rightarrow> generate_network_url_pattern ok url)
             else if category = GATE_CATEGORY_FILE_WRITE \<or> category = GATE_CATEGORY_FILE_READ
             then (case tool_args_get_path oka js (Some tool_call) of
                     None \<Rightarrow> None
                   | Some path \<Rightarrow> generate_file_path_pattern ok path)
             else case tc_arguments tool_call of
                    None \<Rightarrow> Some (zero_pattern\<lparr>gp_is_exact_match := True\<rparr>)
                  | Some arguments \<Rightarrow> exact_pattern ok arguments)"

definition apply_generated_pattern ::
    "alloc \<Rightarrow> 'r regex_lib \<Rightarrow> 'r ApprovalGateConfig \<Rightarrow> string option \<Rightarrow> GeneratedPattern
     \<Rightarrow> int \<times> 'r ApprovalGateConfig" where
  "apply_generated_pattern ok re config tool_name p =
     (case tool_name of
        None \<Rightarrow> (-1, config)
      | Some name \<Rightarrow>
          let has_prefix = (gp_command_prefix p \<noteq> None \<and> gp_prefix_len p > 0);
              has_regex = (gp_pattern p \<noteq> None)
          in if \<not> has_prefix \<and> \<not> has_regex then (-1, config)
             else if has_prefix
             then approval_gate_add_shell_allowlist ok config (gp_command_prefix p) SHELL_TYPE_UNKNOWN
             else if has_regex
             then approval_gate_add_allowlist ok re config (Some name) (gp_pattern p)
             else (-1, config))"

section \<open>What a pattern matches\<close>

text \<open>The part of the POSIX syntax of extended regular expressions that the generator prints, after
  the anchor at the start: characters, any text, a slash or the end, and the end.\<close>

datatype ere = Chr char | Any_text | Slash_or_end | End_only

fun ere_piece :: "ere \<Rightarrow> string" where
  "ere_piece (Chr c) = escape_char c"
| "ere_piece Any_text = ''.*''"
| "ere_piece Slash_or_end = ''(/|$)''"
| "ere_piece End_only = ''$''"

definition ere_print :: "ere list \<Rightarrow> string" where
  "ere_print ps = ''^'' @ concat (map ere_piece ps)"

fun ere_matches :: "ere list \<Rightarrow> string \<Rightarrow> bool" where
  "ere_matches [] t = True"
| "ere_matches (Chr c # ps) [] = False"
| "ere_matches (Chr c # ps) (x # t) = (x = c \<and> ere_matches ps t)"
| "ere_matches (Any_text # ps) [] = ere_matches ps []"
| "ere_matches (Any_text # ps) (x # t) = (ere_matches ps (x # t) \<or> ere_matches (Any_text # ps) t)"
| "ere_matches (Slash_or_end # ps) [] = ere_matches ps []"
| "ere_matches (Slash_or_end # ps) (x # t) = (x = SLASH \<and> ere_matches ps t)"
| "ere_matches (End_only # ps) [] = ere_matches ps []"
| "ere_matches (End_only # ps) (x # t) = False"

text \<open>What is relied on of \<^verbatim>\<open>regcomp\<close> and \<^verbatim>\<open>regexec\<close>: an expression of this form compiles and
  matches what POSIX says.\<close>

definition posix_ere :: "'r regex_lib \<Rightarrow> bool" where
  "posix_ere re \<longleftrightarrow> (\<forall>ps. \<exists>r. regcomp re (ere_print ps) = Some r \<and> (\<forall>t. regexec re r t \<longleftrightarrow> ere_matches ps t))"

definition literal :: "string \<Rightarrow> ere list" where
  "literal s = map Chr s"

lemma escape_print: "concat (map escape_char s) = concat (map ere_piece (literal s))"
  by (induction s) (simp_all add: literal_def)

lemma plain_print:
  "s = ''/'' \<or> s = ''://'' \<Longrightarrow> s = concat (map ere_piece (literal s))"
  by (auto simp: literal_def escape_char_def regex_meta_def)

lemma ere_matches_literal:
  "ere_matches (literal s @ ps) t \<longleftrightarrow> (\<exists>u. t = s @ u \<and> ere_matches ps u)"
proof (induction s arbitrary: t)
  case (Cons c s)
  then show ?case by (cases t) (auto simp: literal_def)
qed (simp add: literal_def)

lemma ere_matches_any: "ere_matches (Any_text # ps) t \<longleftrightarrow> (\<exists>m u. t = m @ u \<and> ere_matches ps u)"
proof (induction t)
  case (Cons x t)
  have "(\<exists>m u. x # t = m @ u \<and> ere_matches ps u) \<longleftrightarrow>
      ere_matches ps (x # t) \<or> (\<exists>m u. t = m @ u \<and> ere_matches ps u)"
    by (metis Cons_eq_append_conv)
  with Cons show ?case by simp
qed simp

lemma ere_matches_ends [simp]:
  "ere_matches [End_only] t \<longleftrightarrow> t = []" "ere_matches [Slash_or_end] t \<longleftrightarrow> t = [] \<or> peek t = SLASH"
  by (cases t; simp)+

lemmas ere_match = ere_matches_literal ere_matches_any

lemma ere_print_append: "ere_print (literal s @ ps) = ''^'' @ concat (map escape_char s) @ concat (map ere_piece ps)"
  by (simp add: ere_print_def escape_print)

lemma regex_escape_Some: "regex_escape ok (Some s) = Some e \<longleftrightarrow> ok 0 \<and> e = concat (map escape_char s)"
  by (auto simp: regex_escape_def)

text \<open>A regular-expression library for this syntax: the parser of the printed form.\<close>

fun ere_parse :: "string \<Rightarrow> ere list option" where
  "ere_parse [] = Some []"
| "ere_parse (c # s) =
     (if c = CHR 0x5C
      then (case s of [] \<Rightarrow> None | d # s' \<Rightarrow> map_option ((#) (Chr d)) (ere_parse s'))
      else if c = CHR ''.''
      then (case s of [] \<Rightarrow> None
            | d # s' \<Rightarrow> if d = CHR ''*'' then map_option ((#) Any_text) (ere_parse s') else None)
      else if c = CHR ''(''
      then (if starts_with ''/|$)'' s then map_option ((#) Slash_or_end) (ere_parse (drop 4 s)) else None)
      else if c = CHR ''$'' then map_option ((#) End_only) (ere_parse s)
      else if c \<in> set regex_meta then None
      else map_option ((#) (Chr c)) (ere_parse s))"

definition ere_regex :: "ere list regex_lib" where
  "ere_regex = \<lparr>regcomp = (\<lambda>p. if peek p = CHR 0x5E then ere_parse (tl p) else None),
                regexec = ere_matches, sizeof_RegexEntry = 88\<rparr>"

lemma ere_parse_print: "ere_parse (concat (map ere_piece ps)) = Some ps"
proof (induction ps)
  case (Cons p ps)
  show ?case
  proof (cases p)
    case (Chr c)
    have "ere_parse (escape_char c @ s) = map_option ((#) (Chr c)) (ere_parse s)" for s
      by (cases "c \<in> set regex_meta") (auto simp: escape_char_def regex_meta_def)
    with Cons Chr show ?thesis by simp
  qed (use Cons in \<open>simp_all add: regex_meta_def\<close>)
qed simp

lemma posix_ere_regex: "posix_ere ere_regex"
  by (simp add: posix_ere_def ere_regex_def ere_print_def ere_parse_print)

lemma exact_pattern_Some:
  assumes "posix_ere re" and "exact_pattern ok s = Some p"
  shows "gp_is_exact_match p \<and> (\<exists>pat r. gp_pattern p = Some pat \<and> regcomp re pat = Some r \<and>
    (\<forall>t. regexec re r t \<longleftrightarrow> t = s))"
proof -
  have "gp_is_exact_match p" "gp_pattern p = Some (ere_print (literal s @ [End_only]))"
    using assms(2) by (auto simp: exact_pattern_def regex_escape_def ere_print_append zero_pattern_def split: if_splits)
  moreover obtain r where "regcomp re (ere_print (literal s @ [End_only])) = Some r"
      "\<forall>t. regexec re r t \<longleftrightarrow> t = s"
    using assms(1) unfolding posix_ere_def by (metis append.right_neutral ere_matches_ends(1) ere_matches_literal)
  ultimately show ?thesis by blast
qed

lemma strstr_split_Some:
  "strstr_split n s = Some (a, b) \<Longrightarrow> s = a @ n @ b"
proof (induction n s arbitrary: a rule: strstr_split.induct)
  case (2 n c cs)
  then show ?case
    by (cases "starts_with n (c # cs)") (auto simp: starts_with_prefix prefix_def)
qed (auto split: if_splits)

lemma path_examples_pattern [simp]:
  "gp_pattern (path_examples ok path ext p) = gp_pattern p"
  "gp_is_exact_match (path_examples ok path ext p) = gp_is_exact_match p"
  by (auto simp: path_examples_def split: option.split)

lemma command_examples_prefix [simp]:
  "gp_command_prefix (command_examples ok toks n p) = gp_command_prefix p"
  "gp_prefix_len (command_examples ok toks n p) = gp_prefix_len p"
  by (auto simp: command_examples_def Let_def)

lemma url_examples_pattern [simp]:
  "gp_pattern (url_examples ok url p) = gp_pattern p"
  "gp_is_exact_match (url_examples ok url p) = gp_is_exact_match p"
  by (auto simp: url_examples_def)

text \<open>The parts of a path with an extension.\<close>

lemma path_parts:
  assumes "\<not> is_root_path path" and "get_extension path = Some ext"
  obtains dir stem where "path = dir @ SLASH # stem @ ext" "SLASH \<notin> set (stem @ ext)" "peek ext = CHR ''.''"
    "get_basename_simple path = stem @ ext" "get_directory ok path = (if ok 0 then Some (if dir = [] then ''/'' else dir) else None)"
proof -
  have "SLASH \<in> set path"
    using assms(1) by (auto simp: is_root_path_def Let_def split: if_splits dest: in_set_dropD)
  then obtain dir base where d: "strrchr_split SLASH path = Some (dir, base)"
    using strrchr_split_None[of SLASH path] by (cases "strrchr_split SLASH path") auto
  then have b: "get_basename_simple path = base"
    by (simp add: get_basename_simple_def)
  from d have p: "path = dir @ SLASH # base" "SLASH \<notin> set base"
    by (simp_all add: strrchr_split_Some)
  obtain stem e where e: "strrchr_split CHR ''.'' base = Some (stem, e)" "ext = CHR ''.'' # e"
    using assms(2) b(1) by (auto simp: get_extension_def split: option.splits if_splits)
  then have "base = stem @ ext"
    by (simp add: strrchr_split_Some)
  then show ?thesis
    using that[of dir stem] b d e p by (simp add: get_directory_def)
qed

lemma underscore_prefix_Some:
  assumes "underscore_prefix (stem @ ext) ext = Some pre"
  shows "\<exists>m. stem = pre @ m"
proof -
  obtain a b where a: "strchr_split CHR ''_'' (stem @ ext) = Some (a, b)" "length a < length stem" "pre = a @ ''_''"
    using assms by (auto simp: underscore_prefix_def split: option.splits if_splits)
  then have "stem @ ext = (a @ ''_'') @ b"
    by (simp add: strchr_split_Some)
  then have "prefix (a @ ''_'') (stem @ ext)" "prefix stem (stem @ ext)"
    by (metis prefixI) simp
  then have "prefix (a @ ''_'') stem"
    by (rule prefix_length_prefix) (use a(2) in simp)
  with a(3) show ?thesis by (auto simp: prefix_def)
qed

text \<open>The expression for a path with an extension.\<close>

lemma file_pattern_form:
  assumes "generate_file_path_pattern ok path = Some p" and "\<not> is_root_path path" "\<not> is_tmp_path path"
    and "get_extension path = Some ext"
  obtains dir pre mid where "path = dir @ ''/'' @ pre @ mid @ ext" "SLASH \<notin> set (pre @ mid @ ext)"
    "peek ext = CHR ''.''" "\<not> gp_is_exact_match p"
    "gp_pattern p = Some (ere_print (literal (if dir = [] then ''/'' else dir) @ literal ''/'' @ literal pre @
       Any_text # literal ext @ [End_only]))"
proof -
  obtain dir stem where d: "path = dir @ SLASH # stem @ ext" "SLASH \<notin> set (stem @ ext)" "peek ext = CHR ''.''"
      "get_basename_simple path = stem @ ext"
      "get_directory (\<lambda>_. ok 2) path = (if ok 2 then Some (if dir = [] then ''/'' else dir) else None)"
    using path_parts[OF assms(2,4), where ok = "\<lambda>_. ok 2"] by blast
  note simps = generate_file_path_pattern_def regex_escape_def ere_print_append escape_print zero_pattern_def
    plain_print[symmetric]
  show ?thesis
  proof (cases "underscore_prefix (stem @ ext) ext")
    case None
    then show ?thesis
      using that[of dir "[]" stem] assms d
      by (simp add: simps split: if_splits) (auto simp: literal_def escape_char_def regex_meta_def)
  next
    case (Some pre)
    then obtain mid where "stem = pre @ mid"
      using underscore_prefix_Some by blast
    then show ?thesis
      using that[of dir pre mid] assms d Some
      by (simp add: simps split: if_splits) (auto simp: literal_def escape_char_def regex_meta_def)
  qed
qed

text \<open>The rule that an approval of a command adds.\<close>

lemma shell_rule_added:
  assumes "gate_inv re c" and "get_tool_category cbs (tc_name tc) = GATE_CATEGORY_SHELL"
    and "generate_allowlist_pattern oka okp ok js cbs SHELL tc = Some p"
    and "apply_generated_pattern ok' re c (tc_name tc) p = (0, c')"
  shows "gate_inv re c' \<and> match_shell_command_allowlist okp js SHELL c' tc \<and>
    (\<exists>command q. call_command js tc = Some command \<and> parse_shell_command okp SHELL (Some command) = Some q \<and>
      (\<forall>ok tc'. match_shell_command_allowlist ok js SHELL c' tc' \<longleftrightarrow>
         match_shell_command_allowlist ok js SHELL c tc' \<or>
         (\<exists>command' q'. call_command js tc' = Some command' \<and>
            parse_shell_command ok SHELL (Some command') = Some q' \<and>
            shell_command_is_safe_for_matching (Some q') \<and> tokens q' \<noteq> [] \<and>
            rule_covers (take 2 (tokens q), SHELL_TYPE_UNKNOWN) (tokens q') (shell_type q'))))"
proof -
  obtain name where name: "tc_name tc = Some name"
    using assms(3) by (auto simp: generate_allowlist_pattern_def split: option.splits)
  obtain command where cmd: "call_command js tc = Some command"
      "generate_shell_command_pattern okp ok SHELL command = Some p"
    using assms(2,3) name
    by (auto simp: generate_allowlist_pattern_def call_command_def tool_args_get_command_def
        tool_args_get_string_def split: option.splits if_splits)
  obtain q where q: "parse_shell_command okp SHELL (Some command) = Some q"
    using cmd(2) by (auto simp: generate_shell_command_pattern_def split: option.splits)
  have pre: "shell_command_is_safe_for_matching (Some q)" "tokens q \<noteq> []" "gp_command_prefix p = Some (take 2 (tokens q))"
    using cmd(2) q assms(4) name
    by (auto simp: generate_shell_command_pattern_def apply_generated_pattern_def zero_pattern_def Let_def
        split: if_splits)
  have "0 < gp_prefix_len p"
    using cmd(2) q pre by (auto simp: generate_shell_command_pattern_def zero_pattern_def Let_def split: if_splits)
  then have add: "approval_gate_add_shell_allowlist ok' c (Some (take 2 (tokens q))) SHELL_TYPE_UNKNOWN = (0, c')"
    using assms(4) name pre(3) by (simp add: apply_generated_pattern_def)
  then have inv: "gate_inv re c'"
    using gate_inv_add(2)[OF assms(1), of ok' "Some (take 2 (tokens q))" SHELL_TYPE_UNKNOWN] by simp
  have rules: "gate_shell_rules c' = gate_shell_rules c @ [(take 2 (tokens q), SHELL_TYPE_UNKNOWN)]"
    using add by (cases rule: add_shell_allowlist_cases[of ok' c "Some (take 2 (tokens q))" SHELL_TYPE_UNKNOWN])
      (auto simp: gate_shell_rules_def built_shell_entry_def)
  have "rule_covers (take 2 (tokens q), SHELL_TYPE_UNKNOWN) (tokens q) (shell_type q)"
    by (simp add: rule_covers_def take_is_prefix)
  then have "match_shell_command_allowlist okp js SHELL c' tc"
    unfolding match_shell_rules[OF inv] rules using cmd(1) q pre by auto
  moreover have "match_shell_command_allowlist ok js SHELL c' tc' \<longleftrightarrow>
         match_shell_command_allowlist ok js SHELL c tc' \<or>
         (\<exists>command' q'. call_command js tc' = Some command' \<and>
            parse_shell_command ok SHELL (Some command') = Some q' \<and>
            shell_command_is_safe_for_matching (Some q') \<and> tokens q' \<noteq> [] \<and>
            rule_covers (take 2 (tokens q), SHELL_TYPE_UNKNOWN) (tokens q') (shell_type q'))" for ok tc'
    unfolding match_shell_rules[OF inv] match_shell_rules[OF assms(1)] rules by auto
  ultimately show ?thesis
    using inv cmd(1) q by blast
qed

section \<open>Properties\<close>

text \<open>What an approval for always of a path covers. The generated expression compiles; it is
  either for the path alone, or it matches exactly the texts that begin with the path's directory, a
  slash and a beginning of its name, and end with its extension. The path itself is covered unless
  it is a file of the root directory, for which the directory's slash is doubled.\<close>

theorem file_pattern_language:
  assumes "posix_ere re" and "generate_file_path_pattern ok path = Some p"
  shows "\<exists>pat r. gp_pattern p = Some pat \<and> regcomp re pat = Some r \<and>
    (if gp_is_exact_match p then \<forall>t. regexec re r t \<longleftrightarrow> t = path
     else \<exists>dir pre mid ext. path = dir @ ''/'' @ pre @ mid @ ext \<and> SLASH \<notin> set (pre @ mid @ ext) \<and>
       peek ext = CHR ''.'' \<and>
       (\<forall>t. regexec re r t \<longleftrightarrow> (\<exists>m. t = (if dir = [] then ''/'' else dir) @ ''/'' @ pre @ m @ ext)) \<and>
       (regexec re r path \<longleftrightarrow> dir \<noteq> []))"
proof (cases "is_root_path path \<or> is_tmp_path path \<or> get_extension path = None")
  case True
  then have "exact_pattern ok path = Some p"
    using assms(2) by (auto simp: generate_file_path_pattern_def split: if_splits option.splits)
  from exact_pattern_Some[OF assms(1) this] show ?thesis by auto
next
  case False
  then obtain ext where ext: "get_extension path = Some ext" by auto
  obtain dir pre mid where d: "path = dir @ ''/'' @ pre @ mid @ ext" "SLASH \<notin> set (pre @ mid @ ext)"
      "peek ext = CHR ''.''" "\<not> gp_is_exact_match p"
    and pat: "gp_pattern p = Some (ere_print (literal (if dir = [] then ''/'' else dir) @ literal ''/'' @ literal pre @
       Any_text # literal ext @ [End_only]))" (is "_ = Some (ere_print ?ps)")
    using file_pattern_form[OF assms(2) _ _ ext] False by blast
  obtain r where r: "regcomp re (ere_print ?ps) = Some r" "\<And>t. regexec re r t \<longleftrightarrow> ere_matches ?ps t"
    using assms(1) unfolding posix_ere_def by blast
  have lang: "regexec re r t \<longleftrightarrow> (\<exists>m. t = (if dir = [] then ''/'' else dir) @ ''/'' @ pre @ m @ ext)" for t
    unfolding r(2) ere_match by auto
  have "regexec re r path \<longleftrightarrow> dir \<noteq> []"
  proof (cases "dir = []")
    case True
    have "pre @ mid \<noteq> SLASH # u" for u
    proof
      assume "pre @ mid = SLASH # u"
      then have "SLASH \<in> set (pre @ mid)" by (simp only: list.set_intros)
      with d(2) show False by simp
    qed
    then show ?thesis
      unfolding lang using d(1) True by auto
  qed (use lang d(1) in auto)
  with d pat r(1) lang show ?thesis
    by (intro exI[of _ "ere_print ?ps"] exI[of _ r]) auto
qed

definition sample_path :: string where
  "sample_path = ''src/test_a.c''"

theorem file_pattern_language_witness:
  "\<exists>p pat r. generate_file_path_pattern alloc_ok sample_path = Some p \<and> gp_pattern p = Some pat \<and>
     regcomp ere_regex pat = Some r \<and> regexec ere_regex r ''src/test_b.c'' \<and>
     \<not> regexec ere_regex r ''src/main.c'' \<and> regexec ere_regex r ''src/test_/../../x.c''"
proof -
  let ?pat = "[CHR 0x5E] @ ''src/test_.*'' @ [CHR 0x5C] @ ''.c$''"
  obtain p where p: "generate_file_path_pattern alloc_ok sample_path = Some p" "gp_pattern p = Some ?pat"
      "\<not> gp_is_exact_match p"
    by (simp add: sample_path_def generate_file_path_pattern_def is_root_path_def is_tmp_path_def
        get_directory_def get_extension_def get_basename_simple_def underscore_prefix_def regex_escape_def
        escape_char_def regex_meta_def zero_pattern_def)
  from file_pattern_language[OF posix_ere_regex p(1)] p(2)
  obtain r where "regcomp ere_regex ?pat = Some r" by auto
  moreover have "regcomp ere_regex ?pat = Some (literal ''src/test_'' @ Any_text # literal ''.c'' @ [End_only])"
    by (simp add: ere_regex_def literal_def regex_meta_def)
  ultimately show ?thesis
    using p by (auto simp: ere_regex_def literal_def)
qed

text \<open>What an approval for always of a URL covers. The expression is for the URL alone when it
  has no scheme; otherwise it matches exactly the scheme and host by themselves or followed by a
  slash, so never another host. The URL itself is covered unless its host is followed by a port or
  a query.\<close>

theorem url_pattern_language:
  assumes "posix_ere re" and "generate_network_url_pattern ok url = Some p"
  shows "\<exists>pat r. gp_pattern p = Some pat \<and> regcomp re pat = Some r \<and>
    (if gp_is_exact_match p then \<forall>t. regexec re r t \<longleftrightarrow> t = url
     else \<exists>scheme host rest. url = scheme @ ''://'' @ host @ rest \<and> host \<noteq> [] \<and> list_all host_char host \<and>
       (rest = [] \<or> \<not> host_char (hd rest)) \<and>
       (\<forall>t. regexec re r t \<longleftrightarrow>
          t = scheme @ ''://'' @ host \<or> (\<exists>u. t = scheme @ ''://'' @ host @ ''/'' @ u)) \<and>
       (regexec re r url \<longleftrightarrow> rest = [] \<or> hd rest = SLASH))"
proof (cases "strstr_split ''://'' url")
  case None
  then have "exact_pattern ok url = Some p"
    using assms(2) by (simp add: generate_network_url_pattern_def)
  from exact_pattern_Some[OF assms(1) this] show ?thesis by auto
next
  case (Some sa)
  obtain scheme after where sa: "sa = (scheme, after)" by (cases sa)
  let ?host = "takeWhile host_char after" and ?rest = "dropWhile host_char after"
  let ?ps = "literal scheme @ literal ''://'' @ literal ?host @ [Slash_or_end]"
  have url: "url = scheme @ ''://'' @ ?host @ ?rest"
    using strstr_split_Some[OF Some[unfolded sa]] by simp
  have "ere_print ?ps = ''^'' @ concat (map escape_char scheme) @ ''://'' @ concat (map escape_char ?host) @ ''(/|$)''"
    unfolding ere_print_append by (simp add: escape_print) (simp add: literal_def escape_char_def regex_meta_def)
  then have p: "?host \<noteq> []" "gp_pattern p = Some (ere_print ?ps)" "\<not> gp_is_exact_match p"
    using assms(2) Some sa
    by (simp_all add: generate_network_url_pattern_def Let_def regex_escape_def zero_pattern_def split: if_splits)
      auto
  obtain r where r: "regcomp re (ere_print ?ps) = Some r" "\<And>t. regexec re r t \<longleftrightarrow> ere_matches ?ps t"
    using assms(1) unfolding posix_ere_def by blast
  have slash: "peek u = SLASH \<longleftrightarrow> (\<exists>v. u = SLASH # v)" for u
    by (cases u) auto
  have lang: "regexec re r t \<longleftrightarrow>
      t = scheme @ ''://'' @ ?host \<or> (\<exists>u. t = scheme @ ''://'' @ ?host @ ''/'' @ u)" for t
    unfolding r(2) ere_match ere_matches_ends slash by auto
  have "regexec re r url \<longleftrightarrow> ?rest = [] \<or> hd ?rest = SLASH"
    unfolding lang using url by (cases ?rest) auto
  moreover have "list_all host_char ?host" "?rest = [] \<or> \<not> host_char (hd ?rest)"
    using hd_dropWhile[of host_char after] by (auto simp: list_all_iff dest: set_takeWhileD simp del: dropWhile_eq_Nil_conv)
  ultimately have "\<exists>scheme host rest. url = scheme @ ''://'' @ host @ rest \<and> host \<noteq> [] \<and> list_all host_char host \<and>
       (rest = [] \<or> \<not> host_char (hd rest)) \<and>
       (\<forall>t. regexec re r t \<longleftrightarrow>
          t = scheme @ ''://'' @ host \<or> (\<exists>u. t = scheme @ ''://'' @ host @ ''/'' @ u)) \<and>
       (regexec re r url \<longleftrightarrow> rest = [] \<or> hd rest = SLASH)"
    using p(1) lang url by blast
  with p(2,3) r(1) show ?thesis by simp
qed

theorem url_pattern_language_witness:
  "\<exists>p pat r. generate_network_url_pattern alloc_ok ''http://a.b/c'' = Some p \<and> gp_pattern p = Some pat \<and>
     regcomp ere_regex pat = Some r \<and> regexec ere_regex r ''http://a.b/d'' \<and>
     \<not> regexec ere_regex r ''http://a.b.evil/'' \<and> \<not> regexec ere_regex r ''http://a.b:80/c''"
proof -
  let ?pat = "[CHR 0x5E] @ ''http://a'' @ [CHR 0x5C] @ ''.b(/|$)''"
  obtain p where p: "generate_network_url_pattern alloc_ok ''http://a.b/c'' = Some p" "gp_pattern p = Some ?pat"
      "\<not> gp_is_exact_match p"
    by (simp add: generate_network_url_pattern_def host_char_def regex_escape_def
        escape_char_def regex_meta_def zero_pattern_def)
  from url_pattern_language[OF posix_ere_regex p(1)] p(2)
  obtain r where "regcomp ere_regex ?pat = Some r" by auto
  moreover have "regcomp ere_regex ?pat = Some (literal ''http://a.b'' @ [Slash_or_end])"
    by (simp add: ere_regex_def literal_def regex_meta_def)
  ultimately show ?thesis
    using p by (auto simp: ere_regex_def literal_def)
qed

text \<open>What an approval for always of a command covers. Once the pattern of a call has been added,
  the gate's command allowlist matches what it matched before and, beyond that, exactly the calls
  whose command is one simple command that begins with the first two words of the approved one, or
  with its only word, up to equivalent commands. So it matches the approved call from then on.\<close>

theorem shell_approval_remembered:
  assumes "gate_inv re c" and "get_tool_category cbs (tc_name tc) = GATE_CATEGORY_SHELL"
    and "generate_allowlist_pattern oka okp ok js cbs SHELL tc = Some p"
    and "apply_generated_pattern ok' re c (tc_name tc) p = (0, c')"
  shows "gate_inv re c' \<and> match_shell_command_allowlist okp js SHELL c' tc \<and>
    (\<exists>command q. call_command js tc = Some command \<and> parse_shell_command okp SHELL (Some command) = Some q \<and>
      (\<forall>ok tc'. match_shell_command_allowlist ok js SHELL c' tc' \<longleftrightarrow>
         match_shell_command_allowlist ok js SHELL c tc' \<or>
         (\<exists>command' q'. call_command js tc' = Some command' \<and>
            parse_shell_command ok SHELL (Some command') = Some q' \<and>
            shell_command_is_safe_for_matching (Some q') \<and> tokens q' \<noteq> [] \<and>
            rule_covers (take 2 (tokens q), SHELL_TYPE_UNKNOWN) (tokens q') (shell_type q'))))"
  using shell_rule_added[OF assms] .

definition make_call :: ToolCall where
  "make_call = \<lparr>tc_id = None, tc_name = Some ''shell'', tc_arguments = Some ''a''\<rparr>"

definition make_json :: "jvalue cjson" where
  "make_json = table_json [(''a'', VObject [(''command'', VString ''make'')])]"

definition quiet_callbacks :: ApprovalGateCallbacks where
  "quiet_callbacks = \<lparr>cb_is_extension_tool = None, cb_get_gate_category = None, cb_get_match_arg = None,
                      cb_get_approval_channel = None\<rparr>"

definition empty_gate :: "string ApprovalGateConfig" where
  "empty_gate = default_config\<lparr>rate_limiter := Some \<lparr>rl_entries = [], rl_capacity = 8\<rparr>\<rparr>"

theorem shell_approval_remembered_witness:
  "\<exists>p c'. generate_allowlist_pattern alloc_ok alloc_ok alloc_ok make_json quiet_callbacks None make_call = Some p \<and>
     apply_generated_pattern alloc_ok substring_regex empty_gate (tc_name make_call) p = (0, c') \<and>
     match_shell_command_allowlist alloc_ok make_json None c' make_call"
proof -
  have inv: "gate_inv substring_regex empty_gate"
    by (simp add: empty_gate_def gate_inv_default rl_inv_def)
  have q: "parse_shell_command alloc_ok None (Some ''make'') =
      Some \<lparr>tokens = [''make''], has_chain = False, has_pipe = False, has_subshell = False,
        has_redirect = False, is_dangerous = False, shell_type = SHELL_TYPE_POSIX\<rparr>"
    by code_simp
  have cat: "get_tool_category quiet_callbacks (tc_name make_call) = GATE_CATEGORY_SHELL"
    by (simp add: make_call_def get_tool_category_def)
  obtain p where p: "generate_allowlist_pattern alloc_ok alloc_ok alloc_ok make_json quiet_callbacks None make_call = Some p"
      "gp_command_prefix p = Some [''make'']" "gp_prefix_len p = 1"
    using cat by (simp add: generate_allowlist_pattern_def make_call_def make_json_def tool_args_get_command_def
        tool_args_get_string_def parse_args_def table_json_def jstring_def generate_shell_command_pattern_def q
        shell_command_is_safe_for_matching_def zero_pattern_def)
  obtain c' where a: "apply_generated_pattern alloc_ok substring_regex empty_gate (tc_name make_call) p = (0, c')"
    using p by (simp add: apply_generated_pattern_def make_call_def approval_gate_add_shell_allowlist_def Let_def)
  from shell_approval_remembered[OF inv cat p(1) a] p(1) a show ?thesis by blast
qed

end
