(* ===== verification/Approval_Errors.thy ===== *)
theory Approval_Errors
  imports Gate_Config Decimal
begin

text \<open>
  The error messages of the approval gate, from \<^verbatim>\<open>lib/policy/approval_errors.c\<close> and
  \<^verbatim>\<open>lib/util/json_escape.c\<close>. The printer of JSON strings belongs to cJSON and is the argument \<open>pr\<close>:
  the text of a string with its quotes, or \<open>None\<close> where it fails.
\<close>

type_synonym string_printer = "string \<Rightarrow> string option"

definition QUOTE :: char where
  "QUOTE = CHR 0x22"

text \<open>Site 0 is the copy of the empty text.\<close>

definition json_escape_string :: "alloc \<Rightarrow> string_printer \<Rightarrow> string option \<Rightarrow> string option" where
  "json_escape_string ok pr str =
     (case str of
        None \<Rightarrow> if ok 0 then Some [] else None
      | Some s \<Rightarrow>
          (case pr s of
             None \<Rightarrow> None
           | Some json \<Rightarrow>
               if length json \<ge> 2 \<and> hd json = QUOTE \<and> last json = QUOTE
               then Some (butlast (tl json)) else Some json))"

text \<open>Quoted pieces of the messages: \<open>''key'': ''text''\<close>.\<close>

definition quoted :: "string \<Rightarrow> string" where
  "quoted s = [QUOTE] @ s @ [QUOTE]"

definition field :: "string \<Rightarrow> string \<Rightarrow> string" where
  "field k v = quoted k @ '': '' @ quoted v"

definition tool_name_or_unknown :: "ToolCall \<Rightarrow> string" where
  "tool_name_or_unknown tc = (case tc_name tc of None \<Rightarrow> ''unknown'' | Some n \<Rightarrow> n)"

text \<open>Site 0 of every message is its text.\<close>

definition format_rate_limit_error ::
    "alloc \<Rightarrow> string_printer \<Rightarrow> int \<Rightarrow> 'r ApprovalGateConfig \<Rightarrow> ToolCall \<Rightarrow> string option" where
  "format_rate_limit_error ok pr now config tool_call =
     (let remaining = get_rate_limit_remaining now config (tc_name tool_call)
      in case json_escape_string ok pr (Some (tool_name_or_unknown tool_call)) of
           None \<Rightarrow> None
         | Some escaped_tool \<Rightarrow>
             if \<not> ok 0 then None
             else Some (''{'' @ field ''error'' ''rate_limited'' @ '', '' @
               field ''message'' (''Too many denied requests for '' @ escaped_tool @ '' tool. Wait '' @
                 decimal remaining @ '' seconds before retrying.'') @ '', '' @
               quoted ''retry_after'' @ '': '' @ decimal remaining @ '', '' @
               field ''tool'' escaped_tool @ ''}''))"

definition format_denial_error :: "alloc \<Rightarrow> string_printer \<Rightarrow> ToolCall \<Rightarrow> string option" where
  "format_denial_error ok pr tool_call =
     (case json_escape_string ok pr (Some (tool_name_or_unknown tool_call)) of
        None \<Rightarrow> None
      | Some escaped_tool \<Rightarrow>
          if \<not> ok 0 then None
          else Some (''{'' @ field ''error'' ''operation_denied'' @ '', '' @
            field ''message'' (''User denied permission to execute '' @ escaped_tool) @ '', '' @
            field ''tool'' escaped_tool @ '', '' @
            field ''suggestion'' (''Ask the user to perform this operation '' @
              ''manually, or request permission with explanation'') @ ''}''))"

definition format_protected_file_error :: "alloc \<Rightarrow> string_printer \<Rightarrow> string option \<Rightarrow> string option" where
  "format_protected_file_error ok pr path =
     (case json_escape_string ok pr (Some (case path of None \<Rightarrow> ''unknown'' | Some p \<Rightarrow> p)) of
        None \<Rightarrow> None
      | Some escaped_path \<Rightarrow>
          if \<not> ok 0 then None
          else Some (''{'' @ field ''error'' ''protected_file'' @ '', '' @
            field ''message'' ''Cannot modify protected configuration file'' @ '', '' @
            field ''path'' escaped_path @ ''}''))"

definition format_non_interactive_error ::
    "alloc \<Rightarrow> string_printer \<Rightarrow> ApprovalGateCallbacks \<Rightarrow> ToolCall \<Rightarrow> string option" where
  "format_non_interactive_error ok pr cbs tool_call =
     (let tool_name = tool_name_or_unknown tool_call;
          category_name = gate_category_name (get_tool_category cbs (Some tool_name))
      in case (json_escape_string ok pr (Some tool_name), json_escape_string ok pr (Some category_name)) of
           (Some escaped_tool, Some escaped_category) \<Rightarrow>
             if \<not> ok 0 then None
             else Some (''{'' @ field ''error'' ''non_interactive_gate'' @ '', '' @
               field ''message'' (''Cannot execute '' @ escaped_category @
                 '' operation without TTY for approval'') @ '', '' @
               field ''tool'' escaped_tool @ '', '' @ field ''category'' escaped_category @ '', '' @
               field ''suggestion'' (''Use --yolo to bypass gates, or '' @ ''--allow-category='' @
                 escaped_category @ '' to allow this category in non-interactive mode'') @ ''}'')
         | _ \<Rightarrow> None)"

end
