(* ===== verification/Atomic_File.thy ===== *)
theory Atomic_File
  imports Path_Normalize
begin

text \<open>
  File access that is checked against what the user approved, from \<^verbatim>\<open>lib/policy/atomic_file.c\<close> and
  \<^verbatim>\<open>lib/policy/verified_file_context.c\<close>, on POSIX systems.

  The operating system is a record \<open>os\<close> of the calls the code makes on a file system of an unknown
  type \<open>'f\<close>. A call takes the file system as it is at that moment and gives it back, so whatever other
  processes do between two calls is part of what the calls do. A file is identified by its inode and
  device numbers.
\<close>

section \<open>The operating system\<close>

datatype oflag =
    O_RDONLY | O_WRONLY | O_RDWR | O_CREAT | O_TRUNC | O_APPEND | O_NOFOLLOW | O_EXCL | O_DIRECTORY

datatype errno = ENOENT | ELOOP | EMLINK | EEXIST | Other_errno

record 'f os =
  os_stat :: "string \<Rightarrow> 'f \<Rightarrow> (errno + nat \<times> nat) \<times> 'f"
  os_realpath :: "string \<Rightarrow> 'f \<Rightarrow> string option \<times> 'f"
  os_mounts :: "'f \<Rightarrow> (string \<times> string) list option \<times> 'f"
  os_open :: "string \<Rightarrow> oflag list \<Rightarrow> int option \<Rightarrow> 'f \<Rightarrow> (errno + int) \<times> 'f"
  os_openat :: "int \<Rightarrow> string \<Rightarrow> oflag list \<Rightarrow> int \<Rightarrow> 'f \<Rightarrow> (errno + int) \<times> 'f"
  os_fstat :: "int \<Rightarrow> 'f \<Rightarrow> (nat \<times> nat) option \<times> 'f"
  os_close :: "int \<Rightarrow> 'f \<Rightarrow> 'f"

section \<open>Data\<close>

datatype VerifyResult =
    VERIFY_OK | VERIFY_ERR_SYMLINK | VERIFY_ERR_DELETED | VERIFY_ERR_OPEN | VERIFY_ERR_STAT
  | VERIFY_ERR_INODE_MISMATCH | VERIFY_ERR_PARENT | VERIFY_ERR_PARENT_CHANGED
  | VERIFY_ERR_ALREADY_EXISTS | VERIFY_ERR_CREATE | VERIFY_ERR_INVALID_PATH | VERIFY_ERR_RESOLVE
  | VERIFY_ERR_NETWORK_FS

record ApprovedPath =
  ap_user_path :: "string option"
  ap_resolved_path :: "string option"
  ap_inode :: nat
  ap_device :: nat
  ap_parent_inode :: nat
  ap_parent_device :: nat
  ap_parent_path :: "string option"
  ap_existed :: bool
  ap_is_network_fs :: bool

definition init_approved_path :: ApprovedPath where
  "init_approved_path =
     \<lparr>ap_user_path = None, ap_resolved_path = None, ap_inode = 0, ap_device = 0, ap_parent_inode = 0,
      ap_parent_device = 0, ap_parent_path = None, ap_existed = False, ap_is_network_fs = False\<rparr>"

definition free_approved_path :: "ApprovedPath \<Rightarrow> ApprovedPath" where
  "free_approved_path ap = ap\<lparr>ap_user_path := None, ap_resolved_path := None, ap_parent_path := None\<rparr>"

section \<open>Messages\<close>

fun verify_result_message :: "VerifyResult \<Rightarrow> string" where
  "verify_result_message VERIFY_OK = ''Path verified successfully''"
| "verify_result_message VERIFY_ERR_SYMLINK = ''Path is a symlink (not allowed for security)''"
| "verify_result_message VERIFY_ERR_DELETED = ''File was deleted after approval''"
| "verify_result_message VERIFY_ERR_OPEN = ''Failed to open file''"
| "verify_result_message VERIFY_ERR_STAT = ''Failed to get file information''"
| "verify_result_message VERIFY_ERR_INODE_MISMATCH = ''File changed since approval (inode mismatch)''"
| "verify_result_message VERIFY_ERR_PARENT = ''Cannot access parent directory''"
| "verify_result_message VERIFY_ERR_PARENT_CHANGED = ''Parent directory changed since approval''"
| "verify_result_message VERIFY_ERR_ALREADY_EXISTS = ''File already exists''"
| "verify_result_message VERIFY_ERR_CREATE = ''Failed to create file''"
| "verify_result_message VERIFY_ERR_INVALID_PATH = ''Invalid or malformed path''"
| "verify_result_message VERIFY_ERR_RESOLVE = ''Failed to resolve path''"
| "verify_result_message VERIFY_ERR_NETWORK_FS = ''Network filesystem detected, verification unreliable''"

fun verify_error_type :: "VerifyResult \<Rightarrow> string" where
  "verify_error_type VERIFY_ERR_SYMLINK = ''symlink_rejected''"
| "verify_error_type VERIFY_ERR_INODE_MISMATCH = ''path_changed''"
| "verify_error_type VERIFY_ERR_PARENT_CHANGED = ''path_changed''"
| "verify_error_type VERIFY_ERR_DELETED = ''file_deleted''"
| "verify_error_type VERIFY_ERR_ALREADY_EXISTS = ''file_exists''"
| "verify_error_type VERIFY_ERR_NETWORK_FS = ''network_fs_warning''"
| "verify_error_type _ = ''verification_failed''"

definition JSON_FORMAT_OVERHEAD :: nat where
  "JSON_FORMAT_OVERHEAD = 128"

abbreviation DQUOTE :: char where "DQUOTE \<equiv> CHR 0x22"
abbreviation BACKSLASH :: char where "BACKSLASH \<equiv> CHR 0x5C"

text \<open>The loop that escapes a path, up to two characters before the end of its buffer.\<close>

fun escape_loop :: "nat \<Rightarrow> string \<Rightarrow> string \<Rightarrow> string" where
  "escape_loop sz out [] = out"
| "escape_loop sz out (c # cs) =
     (if int (length out) < int sz - 2
      then escape_loop sz (out @ (if c = DQUOTE \<or> c = BACKSLASH then [BACKSLASH, c] else [c])) cs
      else out)"

text \<open>Site 0 is the escaped path, site 1 the message; \<^verbatim>\<open>snprintf\<close> keeps what fits the buffer.\<close>

definition format_verify_error :: "alloc \<Rightarrow> VerifyResult \<Rightarrow> string option \<Rightarrow> string option" where
  "format_verify_error ok result path =
     (let p = (case path of None \<Rightarrow> [] | Some s \<Rightarrow> s)
      in if \<not> ok 0 then None
         else
           let escaped_path = escape_loop (length p * 2 + 1) [] p;
               buf_size = length (verify_result_message result) + length escaped_path
                          + length (verify_error_type result) + JSON_FORMAT_OVERHEAD
           in if \<not> ok 1 then None
              else Some (take (buf_size - 1)
                (''{'' @ [DQUOTE] @ ''error'' @ [DQUOTE] @ '': '' @ [DQUOTE] @ verify_error_type result @ [DQUOTE] @
                 '', '' @ [DQUOTE] @ ''message'' @ [DQUOTE] @ '': '' @ [DQUOTE] @ verify_result_message result @
                 [DQUOTE] @ '', '' @ [DQUOTE] @ ''path'' @ [DQUOTE] @ '': '' @ [DQUOTE] @ escaped_path @
                 [DQUOTE] @ ''}'')))"

section \<open>Paths\<close>

definition is_sep :: "char \<Rightarrow> bool" where
  "is_sep c \<longleftrightarrow> c = SLASH \<or> c = BACKSLASH"

definition drop_seps :: "string \<Rightarrow> string" where
  "drop_seps s = rev (dropWhile is_sep (rev s))"

definition atomic_file_basename :: "string option \<Rightarrow> string" where
  "atomic_file_basename path =
     (case path of
        None \<Rightarrow> ''.''
      | Some p \<Rightarrow>
          if p = [] then ''.''
          else case strrchr_split SLASH p of
                 None \<Rightarrow> p
               | Some (before, after) \<Rightarrow>
                   if after \<noteq> [] then after
                   else let core = drop_seps before
                        in if core = [] then p
                           else let name = rev (takeWhile (\<lambda>c. \<not> is_sep c) (rev core))
                                in drop (length core - length name) p)"

text \<open>The loop stops at the first character of the path.\<close>

definition strip_seps :: "string \<Rightarrow> string" where
  "strip_seps p = (if p = [] then [] else hd p # drop_seps (tl p))"

text \<open>Site 0 copies the path, site 1 the name of the current directory.\<close>

definition atomic_file_dirname :: "alloc \<Rightarrow> string option \<Rightarrow> string option" where
  "atomic_file_dirname ok path =
     (case path of
        None \<Rightarrow> if ok 1 then Some ''.'' else None
      | Some p \<Rightarrow>
          if p = [] then (if ok 1 then Some ''.'' else None)
          else if \<not> ok 0 then None
          else case strrchr_split SLASH (strip_seps p) of
                 None \<Rightarrow> if ok 1 then Some ''.'' else None
               | Some (dir, _) \<Rightarrow> if dir = [] then Some ''/'' else Some dir)"

text \<open>Sites 0 and 1 of the directory, site 2 of the result.\<close>

definition atomic_file_resolve_path ::
    "alloc \<Rightarrow> 'f os \<Rightarrow> string option \<Rightarrow> bool \<Rightarrow> 'f \<Rightarrow> string option \<times> 'f" where
  "atomic_file_resolve_path ok os path must_exist f =
     (case path of
        None \<Rightarrow> (None, f)
      | Some p \<Rightarrow>
          if p = [] then (None, f)
          else if must_exist then os_realpath os p f
          else case atomic_file_dirname ok (Some p) of
                 None \<Rightarrow> (None, f)
               | Some parent \<Rightarrow>
                   (case os_realpath os parent f of
                      (None, f) \<Rightarrow> (None, f)
                    | (Some parent_resolved, f) \<Rightarrow>
                        if \<not> ok 2 then (None, f)
                        else (Some (parent_resolved @ ''/'' @ atomic_file_basename (Some p)), f)))"

definition NETWORK_FS_TYPES :: "string list" where
  "NETWORK_FS_TYPES =
     [''nfs'', ''nfs4'', ''cifs'', ''smbfs'', ''smb3'', ''afs'', ''fuse.sshfs'', ''fuse.rclone'']"

definition PATH_MAX :: nat where
  "PATH_MAX = 4096"

text \<open>The longest mount point that contains the path, with whether it is a network file system.\<close>

fun mount_loop :: "string \<Rightarrow> string \<Rightarrow> bool \<Rightarrow> (string \<times> string) list \<Rightarrow> bool" where
  "mount_loop resolved best is_network [] = is_network"
| "mount_loop resolved best is_network ((dir, type) # ms) =
     (if starts_with dir resolved
         \<and> (drop (length dir) resolved = [] \<or> hd (drop (length dir) resolved) = SLASH)
         \<and> length dir > length best
      then mount_loop resolved (take (PATH_MAX - 1) dir) (type \<in> set NETWORK_FS_TYPES) ms
      else mount_loop resolved best is_network ms)"

text \<open>Sites 0 and 1 of the directory.\<close>

definition is_network_filesystem :: "alloc \<Rightarrow> 'f os \<Rightarrow> string option \<Rightarrow> 'f \<Rightarrow> bool \<times> 'f" where
  "is_network_filesystem ok os path f =
     (case path of
        None \<Rightarrow> (False, f)
      | Some p \<Rightarrow>
          if p = [] then (False, f)
          else
            let (real, f) =
              (case os_realpath os p f of
                 (Some r, f) \<Rightarrow> (Some r, f)
               | (None, f) \<Rightarrow>
                   (case atomic_file_dirname ok (Some p) of
                      None \<Rightarrow> (None, f)
                    | Some parent \<Rightarrow> os_realpath os parent f))
            in case real of
                 None \<Rightarrow> (False, f)
               | Some resolved \<Rightarrow>
                   (case os_mounts os f of
                      (None, f) \<Rightarrow> (False, f)
                    | (Some ms, f) \<Rightarrow> (mount_loop resolved [] False ms, f)))"

section \<open>Approval and verification\<close>

text \<open>Site 0 copies the path; 1 and 2 of the parent; 3 to 5 of the resolved path; 6 and 7 of the test
  for a network file system. The path is returned also on an error, as the code leaves it.\<close>

definition capture_approved_path ::
    "alloc \<Rightarrow> 'f os \<Rightarrow> string option \<Rightarrow> 'f \<Rightarrow> VerifyResult \<times> ApprovedPath \<times> 'f" where
  "capture_approved_path ok os path f =
     (case path of
        None \<Rightarrow> (VERIFY_ERR_INVALID_PATH, init_approved_path, f)
      | Some p \<Rightarrow>
          if p = [] then (VERIFY_ERR_INVALID_PATH, init_approved_path, f)
          else if \<not> ok 0 then (VERIFY_ERR_RESOLVE, init_approved_path, f)
          else
            let out = init_approved_path\<lparr>ap_user_path := Some p\<rparr>
            in case os_stat os p f of
                 (Inr (ino, dev), f) \<Rightarrow>
                   (let out = out\<lparr>ap_existed := True, ap_inode := ino, ap_device := dev\<rparr>
                    in case atomic_file_resolve_path (\<lambda>n. ok (3 + n)) os (Some p) True f of
                         (None, f) \<Rightarrow> (VERIFY_ERR_RESOLVE, free_approved_path out, f)
                       | (Some resolved, f) \<Rightarrow>
                           (case is_network_filesystem (\<lambda>n. ok (6 + n)) os (Some p) f of
                              (net, f) \<Rightarrow>
                                (VERIFY_OK, out\<lparr>ap_resolved_path := Some resolved, ap_is_network_fs := net\<rparr>, f)))
               | (Inl _, f) \<Rightarrow>
                   (case atomic_file_dirname (\<lambda>n. ok (1 + n)) (Some p) of
                      None \<Rightarrow> (VERIFY_ERR_RESOLVE, free_approved_path out, f)
                    | Some parent \<Rightarrow>
                        (let out = out\<lparr>ap_parent_path := Some parent\<rparr>
                         in case os_stat os parent f of
                              (Inl _, f) \<Rightarrow> (VERIFY_ERR_PARENT, free_approved_path out, f)
                            | (Inr (ino, dev), f) \<Rightarrow>
                                (let out = out\<lparr>ap_parent_inode := ino, ap_parent_device := dev\<rparr>
                                 in case atomic_file_resolve_path (\<lambda>n. ok (3 + n)) os (Some p) False f of
                                      (None, f) \<Rightarrow> (VERIFY_ERR_RESOLVE, free_approved_path out, f)
                                    | (Some resolved, f) \<Rightarrow>
                                        (case is_network_filesystem (\<lambda>n. ok (6 + n)) os (Some p) f of
                                           (net, f) \<Rightarrow>
                                             (VERIFY_OK,
                                              out\<lparr>ap_resolved_path := Some resolved, ap_is_network_fs := net\<rparr>,
                                              f))))))"

definition verify_approved_path :: "'f os \<Rightarrow> ApprovedPath \<Rightarrow> 'f \<Rightarrow> VerifyResult \<times> 'f" where
  "verify_approved_path os approved f =
     (case ap_resolved_path approved of
        None \<Rightarrow> (VERIFY_ERR_INVALID_PATH, f)
      | Some resolved \<Rightarrow>
          if ap_existed approved
          then (case os_stat os resolved f of
                  (Inl e, f) \<Rightarrow> (if e = ENOENT then VERIFY_ERR_DELETED else VERIFY_ERR_STAT, f)
                | (Inr (ino, dev), f) \<Rightarrow>
                    if ino \<noteq> ap_inode approved \<or> dev \<noteq> ap_device approved
                    then (VERIFY_ERR_INODE_MISMATCH, f) else (VERIFY_OK, f))
          else (case ap_parent_path approved of
                  None \<Rightarrow> (VERIFY_ERR_INVALID_PATH, f)
                | Some parent \<Rightarrow>
                    (case os_stat os parent f of
                       (Inl e, f) \<Rightarrow> (VERIFY_ERR_PARENT, f)
                     | (Inr (ino, dev), f) \<Rightarrow>
                         if ino \<noteq> ap_parent_inode approved \<or> dev \<noteq> ap_parent_device approved
                         then (VERIFY_ERR_PARENT_CHANGED, f) else (VERIFY_OK, f))))"

text \<open>The functions that open a file give the descriptor they store through \<^verbatim>\<open>out_fd\<close>, -1 if none. The mode
  of a new file, \<^verbatim>\<open>0644\<close> in octal, is 420.\<close>

definition open_verified_parent :: "'f os \<Rightarrow> ApprovedPath \<Rightarrow> 'f \<Rightarrow> VerifyResult \<times> int \<times> 'f" where
  "open_verified_parent os approved f =
     (case ap_parent_path approved of
        None \<Rightarrow> (VERIFY_ERR_INVALID_PATH, -1, f)
      | Some parent \<Rightarrow>
          (case os_open os parent [O_RDONLY, O_DIRECTORY] None f of
             (Inl _, f) \<Rightarrow> (VERIFY_ERR_PARENT, -1, f)
           | (Inr fd, f) \<Rightarrow>
               (case os_fstat os fd f of
                  (None, f) \<Rightarrow> (VERIFY_ERR_STAT, -1, os_close os fd f)
                | (Some (ino, dev), f) \<Rightarrow>
                    if ino \<noteq> ap_parent_inode approved \<or> dev \<noteq> ap_parent_device approved
                    then (VERIFY_ERR_PARENT_CHANGED, -1, os_close os fd f)
                    else (VERIFY_OK, fd, f))))"

definition create_file_in_verified_parent ::
    "'f os \<Rightarrow> ApprovedPath \<Rightarrow> oflag list \<Rightarrow> int \<Rightarrow> 'f \<Rightarrow> VerifyResult \<times> int \<times> 'f" where
  "create_file_in_verified_parent os approved flags mode f =
     (if ap_existed approved then (VERIFY_ERR_ALREADY_EXISTS, -1, f)
      else case open_verified_parent os approved f of
             (parent_result, parent_fd, f) \<Rightarrow>
               if parent_result \<noteq> VERIFY_OK then (parent_result, -1, f)
               else
                 let base = atomic_file_basename (ap_user_path approved)
                 in if base = [] then (VERIFY_ERR_INVALID_PATH, -1, os_close os parent_fd f)
                    else case os_openat os parent_fd base (flags @ [O_CREAT, O_EXCL, O_NOFOLLOW]) mode f of
                           (r, f) \<Rightarrow>
                             let f = os_close os parent_fd f
                             in case r of
                                  Inl e \<Rightarrow> (if e = EEXIST then VERIFY_ERR_ALREADY_EXISTS else VERIFY_ERR_CREATE, -1, f)
                                | Inr fd \<Rightarrow> (VERIFY_OK, fd, f))"

definition verify_and_open_approved_path ::
    "'f os \<Rightarrow> ApprovedPath \<Rightarrow> oflag list \<Rightarrow> 'f \<Rightarrow> VerifyResult \<times> int \<times> 'f" where
  "verify_and_open_approved_path os approved flags f =
     (case ap_resolved_path approved of
        None \<Rightarrow> (VERIFY_ERR_INVALID_PATH, -1, f)
      | Some resolved \<Rightarrow>
          if ap_existed approved
          then
            let path_to_open = (case ap_user_path approved of None \<Rightarrow> resolved | Some p \<Rightarrow> p)
            in case os_open os path_to_open (flags @ [O_NOFOLLOW]) None f of
                 (Inl e, f) \<Rightarrow>
                   (if e = ELOOP \<or> e = EMLINK then VERIFY_ERR_SYMLINK
                    else if e = ENOENT then VERIFY_ERR_DELETED
                    else VERIFY_ERR_OPEN, -1, f)
               | (Inr fd, f) \<Rightarrow>
                   (case os_fstat os fd f of
                      (None, f) \<Rightarrow> (VERIFY_ERR_STAT, -1, os_close os fd f)
                    | (Some (ino, dev), f) \<Rightarrow>
                        if ino \<noteq> ap_inode approved \<or> dev \<noteq> ap_device approved
                        then (VERIFY_ERR_INODE_MISMATCH, -1, os_close os fd f)
                        else (VERIFY_OK, fd, f))
          else create_file_in_verified_parent os approved flags 420 f)"

section \<open>The verified file context\<close>

text \<open>The context of the current thread. Site 0 is the context, 1 to 3 the copies of its paths.\<close>

type_synonym file_context = "ApprovedPath option"

definition verified_file_context_clear :: "file_context \<Rightarrow> file_context" where
  "verified_file_context_clear ctx = None"

definition verified_file_context_set ::
    "alloc \<Rightarrow> ApprovedPath option \<Rightarrow> file_context \<Rightarrow> int \<times> file_context" where
  "verified_file_context_set ok approved ctx =
     (case approved of
        None \<Rightarrow> (-1, ctx)
      | Some ap \<Rightarrow>
          let ctx = verified_file_context_clear ctx
          in if \<not> ok 0 then (-1, ctx)
             else if ap_user_path ap \<noteq> None \<and> \<not> ok 1 then (-1, None)
             else if ap_resolved_path ap \<noteq> None \<and> \<not> ok 2 then (-1, None)
             else if ap_parent_path ap \<noteq> None \<and> \<not> ok 3 then (-1, None)
             else (0, Some ap))"

definition verified_file_context_is_set :: "file_context \<Rightarrow> bool" where
  "verified_file_context_is_set ctx \<longleftrightarrow> ctx \<noteq> None"

definition verified_file_context_get_resolved_path :: "file_context \<Rightarrow> string option" where
  "verified_file_context_get_resolved_path ctx = (case ctx of None \<Rightarrow> None | Some ap \<Rightarrow> ap_resolved_path ap)"

datatype VerifiedFileMode =
    VERIFIED_MODE_READ | VERIFIED_MODE_WRITE | VERIFIED_MODE_APPEND | VERIFIED_MODE_READWRITE

fun mode_to_flags :: "VerifiedFileMode \<Rightarrow> oflag list" where
  "mode_to_flags VERIFIED_MODE_READ = [O_RDONLY]"
| "mode_to_flags VERIFIED_MODE_WRITE = [O_WRONLY, O_CREAT, O_TRUNC]"
| "mode_to_flags VERIFIED_MODE_APPEND = [O_WRONLY, O_CREAT, O_APPEND]"
| "mode_to_flags VERIFIED_MODE_READWRITE = [O_RDWR]"

text \<open>Sites 0 to 2 of the resolved path.\<close>

definition verified_file_context_path_matches ::
    "alloc \<Rightarrow> 'f os \<Rightarrow> file_context \<Rightarrow> string option \<Rightarrow> 'f \<Rightarrow> bool \<times> 'f" where
  "verified_file_context_path_matches ok os ctx requested_path f =
     (case (requested_path, ctx) of
        (Some req, Some ap) \<Rightarrow>
          if ap_user_path ap = Some req then (True, f)
          else if ap_resolved_path ap = Some req then (True, f)
          else (case atomic_file_resolve_path ok os (Some req) False f of
                  (None, f) \<Rightarrow> (False, f)
                | (Some r, f) \<Rightarrow> (ap_resolved_path ap = Some r, f))
      | _ \<Rightarrow> (False, f))"

definition verified_file_context_get_fd ::
    "alloc \<Rightarrow> 'f os \<Rightarrow> file_context \<Rightarrow> string option \<Rightarrow> VerifiedFileMode \<Rightarrow> 'f \<Rightarrow> VerifyResult \<times> int \<times> 'f" where
  "verified_file_context_get_fd ok os ctx requested_path mode f =
     (case requested_path of
        None \<Rightarrow> (VERIFY_ERR_INVALID_PATH, -1, f)
      | Some req \<Rightarrow>
          (case ctx of
             None \<Rightarrow>
               (case os_open os req (mode_to_flags mode)
                       (if mode = VERIFIED_MODE_WRITE \<or> mode = VERIFIED_MODE_APPEND then Some 420 else None) f of
                  (Inl _, f) \<Rightarrow> (VERIFY_ERR_OPEN, -1, f)
                | (Inr fd, f) \<Rightarrow> (VERIFY_OK, fd, f))
           | Some ap \<Rightarrow>
               (case verified_file_context_path_matches ok os ctx (Some req) f of
                  (False, f) \<Rightarrow> (VERIFY_ERR_INODE_MISMATCH, -1, f)
                | (True, f) \<Rightarrow> verify_and_open_approved_path os ap (mode_to_flags mode) f)))"

section \<open>Lemmas\<close>

lemma length_escape_loop:
  "length (escape_loop sz out s) \<le> length out + 2 * length s"
  by (induction sz out s rule: escape_loop.induct) fastforce+

text \<open>The buffer of the escaped path is large enough for every path.\<close>

lemma escape_loop_complete:
  "length out + 2 * length s < sz \<Longrightarrow>
     escape_loop sz out s = out @ concat (map (\<lambda>c. if c = DQUOTE \<or> c = BACKSLASH then [BACKSLASH, c] else [c]) s)"
  by (induction sz out s rule: escape_loop.induct) auto

lemma capture_user_path:
  assumes "capture_approved_path ok os (Some path) f0 = (VERIFY_OK, ap, f1)"
  shows "ap_user_path ap = Some path \<and> ap_resolved_path ap \<noteq> None"
  using assms
  by (auto simp: capture_approved_path_def Let_def split: option.splits prod.splits sum.splits if_splits)

lemma capture_existed:
  assumes "capture_approved_path ok os (Some path) f0 = (VERIFY_OK, ap, f1)" and "ap_existed ap"
  shows "fst (os_stat os path f0) = Inr (ap_inode ap, ap_device ap)"
  using assms
  by (auto simp: capture_approved_path_def Let_def init_approved_path_def
      split: option.splits prod.splits sum.splits if_splits)

lemma capture_new:
  assumes "capture_approved_path ok os (Some path) f0 = (VERIFY_OK, ap, f1)" and "\<not> ap_existed ap"
  shows "\<exists>e f parent. os_stat os path f0 = (Inl e, f) \<and> ap_parent_path ap = Some parent \<and>
    atomic_file_dirname (\<lambda>n. ok (1 + n)) (Some path) = Some parent \<and>
    fst (os_stat os parent f) = Inr (ap_parent_inode ap, ap_parent_device ap)"
  using assms
  by (auto simp: capture_approved_path_def Let_def init_approved_path_def
      split: option.splits prod.splits sum.splits if_splits)

lemma open_verified_parent_ok:
  assumes "open_verified_parent os ap f = (VERIFY_OK, fd, f')"
  shows "\<exists>parent g. ap_parent_path ap = Some parent \<and>
    fst (os_open os parent [O_RDONLY, O_DIRECTORY] None f) = Inr fd \<and>
    fst (os_fstat os fd g) = Some (ap_parent_inode ap, ap_parent_device ap)"
  using assms
  by (auto simp: open_verified_parent_def split: option.splits prod.splits sum.splits if_splits) (metis fst_conv)

lemma create_in_parent_ok:
  assumes "create_file_in_verified_parent os ap flags mode f = (VERIFY_OK, fd, f')"
  shows "\<exists>dirfd g g'. fst (os_fstat os dirfd g) = Some (ap_parent_inode ap, ap_parent_device ap) \<and>
    fst (os_openat os dirfd (atomic_file_basename (ap_user_path ap)) (flags @ [O_CREAT, O_EXCL, O_NOFOLLOW]) mode g') = Inr fd"
proof -
  obtain r dirfd f1 where p: "open_verified_parent os ap f = (r, dirfd, f1)"
    by (cases "open_verified_parent os ap f") auto
  have "r = VERIFY_OK"
    using assms p by (auto simp: create_file_in_verified_parent_def split: if_splits)
  then obtain g where "fst (os_fstat os dirfd g) = Some (ap_parent_inode ap, ap_parent_device ap)"
    using open_verified_parent_ok[of os ap f dirfd f1] p by auto
  moreover have "fst (os_openat os dirfd (atomic_file_basename (ap_user_path ap))
      (flags @ [O_CREAT, O_EXCL, O_NOFOLLOW]) mode f1) = Inr fd"
    using assms p \<open>r = VERIFY_OK\<close>
    by (auto simp: create_file_in_verified_parent_def Let_def split: if_splits sum.splits prod.splits)
  ultimately show ?thesis by blast
qed

lemma verify_and_open_ok:
  assumes "verify_and_open_approved_path os ap flags f = (VERIFY_OK, fd, f')"
  shows "ap_existed ap \<and> (\<exists>path g g'. fst (os_open os path (flags @ [O_NOFOLLOW]) None g) = Inr fd \<and>
      fst (os_fstat os fd g') = Some (ap_inode ap, ap_device ap)) \<or>
    \<not> ap_existed ap \<and> create_file_in_verified_parent os ap flags 420 f = (VERIFY_OK, fd, f')"
  using assms
  by (auto simp: verify_and_open_approved_path_def Let_def split: option.splits prod.splits sum.splits if_splits)
    (metis fst_conv)+

section \<open>Properties\<close>

text \<open>C12. A verified descriptor is for the file that was approved. When a path was captured at the time
  of approval and the context was set to it, a descriptor that the context gives out later, however
  the file system has changed, is either for the same file, opened without following a link, or the
  file did not exist at approval and is one that was created exclusively, under the approved name,
  in a directory that is the same one that contained it then.\<close>

theorem verified_fd_is_approved:
  assumes "capture_approved_path ok os (Some path) f0 = (VERIFY_OK, ap, f1)"
    and "verified_file_context_set ok' (Some ap) ctx0 = (0, ctx)"
    and "verified_file_context_get_fd ok'' os ctx (Some req) mode f2 = (VERIFY_OK, fd, f3)"
  shows "(\<exists>file p g g'. fst (os_stat os path f0) = Inr file \<and>
      fst (os_open os p (mode_to_flags mode @ [O_NOFOLLOW]) None g) = Inr fd \<and>
      fst (os_fstat os fd g') = Some file) \<or>
    (\<exists>e f dir parent dirfd g g'. os_stat os path f0 = (Inl e, f) \<and>
      atomic_file_dirname (\<lambda>n. ok (1 + n)) (Some path) = Some parent \<and> fst (os_stat os parent f) = Inr dir \<and>
      fst (os_fstat os dirfd g) = Some dir \<and>
      fst (os_openat os dirfd (atomic_file_basename (Some path))
        (mode_to_flags mode @ [O_CREAT, O_EXCL, O_NOFOLLOW]) 420 g') = Inr fd)"
proof -
  have "ctx = Some ap"
    using assms(2) by (auto simp: verified_file_context_set_def Let_def split: if_splits)
  then obtain f where "verify_and_open_approved_path os ap (mode_to_flags mode) f = (VERIFY_OK, fd, f3)"
    using assms(3) by (auto simp: verified_file_context_get_fd_def split: prod.splits bool.splits)
  from verify_and_open_ok[OF this] show ?thesis
  proof (elim disjE conjE)
    assume "ap_existed ap"
    with capture_existed[OF assms(1)] show ?thesis
      if "\<exists>path g g'. fst (os_open os path (mode_to_flags mode @ [O_NOFOLLOW]) None g) = Inr fd \<and>
        fst (os_fstat os fd g') = Some (ap_inode ap, ap_device ap)"
      using that by blast
  next
    assume n: "\<not> ap_existed ap"
      and c: "create_file_in_verified_parent os ap (mode_to_flags mode) 420 f = (VERIFY_OK, fd, f3)"
    from capture_new[OF assms(1) n] create_in_parent_ok[OF c] capture_user_path[OF assms(1)]
    show ?thesis by metis
  qed
qed

text \<open>A file system for examples: a table of files by path, each with an inode number; a descriptor is
  the inode number of its file.\<close>

definition table_os :: "((string \<times> nat) list) os" where
  "table_os = \<lparr>
     os_stat = (\<lambda>p f. (case map_of f p of None \<Rightarrow> Inl ENOENT | Some i \<Rightarrow> Inr (i, 1), f)),
     os_realpath = (\<lambda>p f. (if map_of f p = None then None else Some p, f)),
     os_mounts = (\<lambda>f. (Some [], f)),
     os_open = (\<lambda>p fl m f. (case map_of f p of None \<Rightarrow> Inl ENOENT | Some i \<Rightarrow> Inr (int i), f)),
     os_openat = (\<lambda>d p fl m f. (Inl Other_errno, f)),
     os_fstat = (\<lambda>fd f. (Some (nat fd, 1), f)),
     os_close = (\<lambda>fd f. f)\<rparr>"

theorem verified_fd_is_approved_witness:
  "\<exists>ap ctx. capture_approved_path alloc_ok table_os (Some ''/a'') [(''/a'', 7)] = (VERIFY_OK, ap, [(''/a'', 7)]) \<and>
     verified_file_context_set alloc_ok (Some ap) None = (0, ctx) \<and>
     verified_file_context_get_fd alloc_ok table_os ctx (Some ''/a'') VERIFIED_MODE_READ [(''/a'', 7)] =
       (VERIFY_OK, 7, [(''/a'', 7)]) \<and>
     (\<exists>g'. fst (os_fstat table_os 7 g') = Some (7, 1))"
proof -
  let ?f = "[(''/a'', 7::nat)]"
  let ?ap = "init_approved_path\<lparr>ap_user_path := Some ''/a'', ap_existed := True, ap_inode := 7, ap_device := 1,
    ap_resolved_path := Some ''/a'', ap_is_network_fs := False\<rparr>"
  have c: "capture_approved_path alloc_ok table_os (Some ''/a'') ?f = (VERIFY_OK, ?ap, ?f)"
    by (simp add: capture_approved_path_def table_os_def atomic_file_resolve_path_def is_network_filesystem_def
        init_approved_path_def)
  have s: "verified_file_context_set alloc_ok (Some ?ap) None = (0, Some ?ap)"
    by (simp add: verified_file_context_set_def verified_file_context_clear_def)
  have g: "verified_file_context_get_fd alloc_ok table_os (Some ?ap) (Some ''/a'') VERIFIED_MODE_READ ?f =
      (VERIFY_OK, 7, ?f)"
    by (simp add: verified_file_context_get_fd_def verified_file_context_path_matches_def
        verify_and_open_approved_path_def table_os_def init_approved_path_def)
  have "\<exists>g'. fst (os_fstat table_os 7 g') = Some (7, 1)"
    using verified_fd_is_approved[OF c s g] by (auto simp: table_os_def)
  with c s g show ?thesis by blast
qed

text \<open>In the mode for writing, the identity of the file is looked at only after it was opened with
  \<^verbatim>\<open>O_CREAT\<close> and \<^verbatim>\<open>O_TRUNC\<close>: what \<^verbatim>\<open>open\<close> did to another file of that name is done when the
  mismatch is reported.\<close>

lemma mismatch_after_truncation:
  assumes "ap_existed ap" and "ap_user_path ap = Some path" and "ap_resolved_path ap \<noteq> None"
    and "os_open os path [O_WRONLY, O_CREAT, O_TRUNC, O_NOFOLLOW] None f = (Inr fd, f1)"
    and "os_fstat os fd f1 = (Some file, f2)" and "file \<noteq> (ap_inode ap, ap_device ap)"
  shows "verified_file_context_get_fd ok os (Some ap) (Some path) VERIFIED_MODE_WRITE f =
    (VERIFY_ERR_INODE_MISMATCH, -1, os_close os fd f2)"
  using assms
  by (auto simp: verified_file_context_get_fd_def verified_file_context_path_matches_def
      verify_and_open_approved_path_def split: prod.splits)

text \<open>A network file system that is mounted as the root directory is not recognised for any other
  path.\<close>

lemma root_mount_ignored: "c \<noteq> SLASH \<Longrightarrow> \<not> mount_loop (SLASH # c # s) [] False [(''/'', ''nfs'')]"
  by simp

end
