(* ===== verification/Tool_Orchestration.thy ===== *)
theory Tool_Orchestration
  imports Pattern_Generator Approval_Gate Protected_Files Approval_Errors Atomic_File
begin

text \<open>
  What stands between a tool call of the model and its execution, from
  \<^verbatim>\<open>lib/agent/tool_orchestration.c\<close>: protected files are refused, then the approval gate decides, and
  an approval for always is remembered. The component also remembers which calls were executed and
  whether the batch has spawned a subagent.

  The libraries the checks use are one record; the state they share, with the gate the context
  points to, another. An array is the list of its elements; whether a push finds memory is the
  oracle's answer. \<open>oks k\<close> has the allocation sites of the k-th call made.
\<close>

section \<open>State\<close>

record ToolResult =
  tr_tool_call_id :: "string option"
  tr_result :: "string option"
  tr_success :: bool
  tr_clear_history :: bool

definition zero_result :: ToolResult where
  "zero_result = \<lparr>tr_tool_call_id = None, tr_result = None, tr_success = False, tr_clear_history = False\<rparr>"

record 'r ToolOrchestrationContext =
  oc_gate_config :: "'r ApprovalGateConfig option"
  oc_subagent_spawned :: bool
  oc_executed_tracker :: "string list"

record ('j, 'r) orch_lib =
  ol_json :: "'j cjson"
  ol_regex :: "'r regex_lib"
  ol_callbacks :: ApprovalGateCallbacks
  ol_shell :: "string option"
  ol_print :: string_printer

record 'r orch_state =
  orch_ctx :: "'r ToolOrchestrationContext"
  orch_io :: gate_io
  orch_protected :: protected_state

section \<open>Operations\<close>

definition is_file_write_tool :: "string option \<Rightarrow> bool" where
  "is_file_write_tool tool_name \<longleftrightarrow>
     (case tool_name of None \<Rightarrow> False | Some t \<Rightarrow> t = ''write_file'' \<or> t = ''apply_patch'')"

definition is_file_tool :: "string option \<Rightarrow> bool" where
  "is_file_tool tool_name \<longleftrightarrow>
     (case tool_name of None \<Rightarrow> False
      | Some t \<Rightarrow> t = ''write_file'' \<or> t = ''apply_patch'' \<or> t = ''read_file'')"

text \<open>Site 0 is the array of executed calls.\<close>

definition tool_orchestration_init ::
    "alloc \<Rightarrow> 'r ApprovalGateConfig option \<Rightarrow> 'r ToolOrchestrationContext option" where
  "tool_orchestration_init ok gate_config =
     (if \<not> ok 0 then None
      else Some \<lparr>oc_gate_config = gate_config, oc_subagent_spawned = False, oc_executed_tracker = []\<rparr>)"

definition tool_orchestration_cleanup :: "'r ToolOrchestrationContext \<Rightarrow> 'r ToolOrchestrationContext" where
  "tool_orchestration_cleanup ctx =
     ctx\<lparr>oc_executed_tracker := [], oc_gate_config := None, oc_subagent_spawned := False\<rparr>"

text \<open>A result that reports an error; site 0 copies the identifier.\<close>

definition refused_result :: "alloc \<Rightarrow> ToolCall \<Rightarrow> string option \<Rightarrow> ToolResult \<Rightarrow> ToolResult" where
  "refused_result ok tc text result =
     result\<lparr>tr_tool_call_id := (case tc_id tc of None \<Rightarrow> None | Some i \<Rightarrow> if ok 0 then Some i else None),
            tr_result := text, tr_success := False\<rparr>"

text \<open>The path of a call that writes, if it is a protected file. \<open>oks 0\<close> copies the argument, \<open>oks 1\<close> and
  \<open>oks 2\<close> belong to the check.\<close>

definition check_protected ::
    "(nat \<Rightarrow> alloc) \<Rightarrow> 'j cjson \<Rightarrow> fs_env \<Rightarrow> ToolCall \<Rightarrow> protected_state \<Rightarrow> string option \<times> protected_state" where
  "check_protected oks js fs tc ps =
     (if is_file_write_tool (tc_name tc)
      then case tool_args_get_path (oks 0) js (Some tc) of
             None \<Rightarrow> (None, ps)
           | Some path \<Rightarrow>
               (case is_protected_file (oks 1) (oks 2) fs (Some path) ps of
                  (protected, ps) \<Rightarrow> (if protected then Some path else None, ps))
      else (None, ps))"

text \<open>What an approval for always adds to the gate. \<open>oks 5\<close> to \<open>oks 8\<close>.\<close>

definition remember_approval ::
    "(nat \<Rightarrow> alloc) \<Rightarrow> ('j, 'r) orch_lib \<Rightarrow> ToolCall \<Rightarrow> 'r ApprovalGateConfig \<Rightarrow> 'r ApprovalGateConfig" where
  "remember_approval oks lib tc config =
     (case generate_allowlist_pattern (oks 5) (oks 6) (oks 7) (ol_json lib) (ol_callbacks lib) (ol_shell lib) tc of
        None \<Rightarrow> config
      | Some gen_pattern \<Rightarrow>
          snd (apply_generated_pattern (oks 8) (ol_regex lib) config (tc_name tc) gen_pattern))"

text \<open>The check of one call: 0 to go on, -1 if it is refused with a result, -2 if the user aborted. The
  gate leaves the approved path as \<^verbatim>\<open>init_approved_path\<close> made it; it is handed to the caller, whose
  \<^verbatim>\<open>out_path\<close> is never \<^verbatim>\<open>NULL\<close>. \<open>oks 3\<close> and \<open>oks 4\<close> belong to the gate, \<open>oks 9\<close> to the
  rate limiter, \<open>oks 10\<close> to the messages and \<open>oks 11\<close> to the identifier.\<close>

definition tool_orchestration_check_approval ::
    "(nat \<Rightarrow> alloc) \<Rightarrow> ('j, 'r) orch_lib \<Rightarrow> fs_env \<Rightarrow> ToolCall \<Rightarrow> ToolResult \<Rightarrow> ApprovedPath \<Rightarrow> 'r orch_state
     \<Rightarrow> int \<times> ToolResult \<times> ApprovedPath \<times> 'r orch_state" where
  "tool_orchestration_check_approval oks lib fs tc result out_path st =
     (case check_protected oks (ol_json lib) fs tc (orch_protected st) of
        (Some path, ps) \<Rightarrow>
          (-1, refused_result (oks 11) tc (format_protected_file_error (oks 10) (ol_print lib) (Some path)) result,
           out_path, st\<lparr>orch_protected := ps\<rparr>)
      | (None, ps) \<Rightarrow>
          (let st = st\<lparr>orch_protected := ps\<rparr>
           in case oc_gate_config (orch_ctx st) of
                None \<Rightarrow> (0, result, out_path, st)
              | Some config \<Rightarrow>
                  if \<not> enabled config then (0, result, out_path, st)
                  else
                    case check_approval_gate (oks 3) (oks 4) (ol_json lib) (ol_regex lib) (ol_callbacks lib)
                           (ol_shell lib) (orch_io st) config tc of
                      (approval, config, io) \<Rightarrow>
                        (let approved_path = init_approved_path;
                             put = (\<lambda>c. st\<lparr>orch_ctx := (orch_ctx st)\<lparr>oc_gate_config := Some c\<rparr>, orch_io := io\<rparr>);
                             allowed = (\<lambda>c.
                               if ap_resolved_path approved_path \<noteq> None \<and> is_file_tool (tc_name tc)
                               then (0, result, approved_path, put c)
                               else (0, result, out_path, put c));
                             refused = (\<lambda>text c. (-1, refused_result (oks 11) tc text result, out_path, put c))
                         in case approval of
                              APPROVAL_ALLOWED_ALWAYS \<Rightarrow> allowed (remember_approval oks lib tc config)
                            | APPROVAL_ALLOWED \<Rightarrow> allowed config
                            | APPROVAL_DENIED \<Rightarrow>
                                refused (format_denial_error (oks 10) (ol_print lib) tc)
                                  (track_denial (oks 9) (gio_now io) config tc)
                            | APPROVAL_RATE_LIMITED \<Rightarrow>
                                refused (format_rate_limit_error (oks 10) (ol_print lib) (gio_now io) config tc) config
                            | APPROVAL_NON_INTERACTIVE_DENIED \<Rightarrow>
                                refused (format_non_interactive_error (oks 10) (ol_print lib) (ol_callbacks lib) tc)
                                  config
                            | APPROVAL_ABORTED \<Rightarrow> (-2, result, out_path, put config)
                            | APPROVAL_OTHER _ \<Rightarrow> (0, result, out_path, put config))))"

definition tool_orchestration_is_duplicate :: "'r ToolOrchestrationContext \<Rightarrow> string option \<Rightarrow> bool" where
  "tool_orchestration_is_duplicate ctx tool_call_id =
     (case tool_call_id of None \<Rightarrow> False | Some i \<Rightarrow> list_ex (\<lambda>x. x = i) (oc_executed_tracker ctx))"

text \<open>Site 0 copies the identifier, site 1 is the growth of the array.\<close>

definition tool_orchestration_mark_executed ::
    "alloc \<Rightarrow> 'r ToolOrchestrationContext \<Rightarrow> string option \<Rightarrow> int \<times> 'r ToolOrchestrationContext" where
  "tool_orchestration_mark_executed ok ctx tool_call_id =
     (case tool_call_id of
        None \<Rightarrow> (-1, ctx)
      | Some i \<Rightarrow>
          if \<not> ok 0 then (-1, ctx)
          else if \<not> ok 1 then (-1, ctx)
          else (0, ctx\<lparr>oc_executed_tracker := oc_executed_tracker ctx @ [i]\<rparr>))"

definition tool_orchestration_can_spawn_subagent ::
    "'r ToolOrchestrationContext \<Rightarrow> string option \<Rightarrow> bool \<times> 'r ToolOrchestrationContext" where
  "tool_orchestration_can_spawn_subagent ctx tool_name =
     (case tool_name of
        None \<Rightarrow> (True, ctx)
      | Some t \<Rightarrow>
          if t \<noteq> ''subagent'' then (True, ctx)
          else if oc_subagent_spawned ctx then (False, ctx)
          else (True, ctx\<lparr>oc_subagent_spawned := True\<rparr>))"

definition tool_orchestration_reset_batch :: "'r ToolOrchestrationContext \<Rightarrow> 'r ToolOrchestrationContext" where
  "tool_orchestration_reset_batch ctx = ctx\<lparr>oc_subagent_spawned := False\<rparr>"

section \<open>Lemmas\<close>

text \<open>Why the gate lets a call pass: its tool is not backing off, and its category or an allowlist
  allows it, or the parent or the user did.\<close>

definition gate_reason ::
    "alloc \<Rightarrow> alloc \<Rightarrow> ('j, 'r) orch_lib \<Rightarrow> gate_io \<Rightarrow> 'r ApprovalGateConfig \<Rightarrow> ToolCall \<Rightarrow> bool" where
  "gate_reason ok ok' lib io c tc \<longleftrightarrow>
     \<not> is_rate_limited (gio_now io) c tc \<and>
     (action_for (ol_callbacks lib) c tc = GATE_ACTION_ALLOW \<or>
      action_for (ol_callbacks lib) c tc = GATE_ACTION_GATE \<and>
       (approval_gate_matches_allowlist ok (ol_json lib) (ol_regex lib) (ol_callbacks lib) (ol_shell lib) c tc \<or>
        (\<exists>ch. parent_channel (ol_callbacks lib) = Some ch \<and>
           \<not> refuses (fst (subagent_request_approval ok' (ol_json lib) (gio_channel io) (gio_next_id io)
               (Some ch) (Some tc)))) \<or>
        parent_channel (ol_callbacks lib) = None \<and> is_interactive c \<and> gio_isatty io \<and> pressed_yes (gio_keys io)))"

lemma gate_reason_check:
  assumes "check_approval_gate ok ok' (ol_json lib) (ol_regex lib) (ol_callbacks lib) (ol_shell lib) io c tc = (r, c', io')"
    and "\<not> refuses r" and "enabled c"
  shows "gate_reason ok ok' lib io c tc"
  using gate_not_refused[OF assms(1,2)] assms(2,3) unfolding gate_reason_def by blast

text \<open>The check changes nothing of the gate but the denials of the tool.\<close>

lemma check_gate_config:
  assumes "check_approval_gate ok ok' js re cbs SHELL io c tc = (r, c', io')"
  shows "c' = c \<or> c' = reset_denial_tracker c (tc_name tc)"
proof (cases "approval_gate_prompt ok' io c tc")
  case (fields r1 c1 io1)
  with prompt_outcome[OF this] assms show ?thesis
    by (auto simp: check_approval_gate_def Let_def split: if_splits option.splits prod.splits)
qed

lemma gate_inv_reset: "gate_inv re c \<Longrightarrow> gate_inv re (reset_denial_tracker c t)"
proof -
  assume i: "gate_inv re c"
  then obtain rl where rl: "rate_limiter c = Some rl" "rl_inv rl"
    by (auto simp: gate_inv_def)
  have "rate_limiter_reset (Some rl) t \<noteq> None"
    by (auto simp: rate_limiter_reset_def split: option.split)
  then obtain rl' where "rate_limiter_reset (Some rl) t = Some rl'" by blast
  with rl rl_inv_reset[OF this rl(2)] i show ?thesis
    by (auto simp: reset_denial_tracker_def gate_inv_def split: option.splits)
qed

lemma reset_denial_fields [simp]:
  "enabled (reset_denial_tracker c t) = enabled c" "categories (reset_denial_tracker c t) = categories c"
  "allowlist (reset_denial_tracker c t) = allowlist c"
  "shell_allowlist (reset_denial_tracker c t) = shell_allowlist c"
  by (simp_all add: reset_denial_tracker_def split: option.split)

lemma check_protected_other: "\<not> is_file_write_tool (tc_name tc) \<Longrightarrow> check_protected oks js fs tc ps = (None, ps)"
  by (simp add: check_protected_def)

lemma check_approval_zero:
  assumes "tool_orchestration_check_approval oks lib fs tc result out st = (0, result', out', st')"
  shows "fst (check_protected oks (ol_json lib) fs tc (orch_protected st)) = None \<and>
    (\<forall>c. oc_gate_config (orch_ctx st) = Some c \<longrightarrow> enabled c \<longrightarrow> gate_reason (oks 3) (oks 4) lib (orch_io st) c tc)"
proof (cases "check_protected oks (ol_json lib) fs tc (orch_protected st)")
  case (Pair blocked ps)
  with assms have b: "blocked = None"
    by (auto simp: tool_orchestration_check_approval_def split: option.splits)
  have "gate_reason (oks 3) (oks 4) lib (orch_io st) c tc"
    if c: "oc_gate_config (orch_ctx st) = Some c" "enabled c" for c
  proof (cases "check_approval_gate (oks 3) (oks 4) (ol_json lib) (ol_regex lib) (ol_callbacks lib)
      (ol_shell lib) (orch_io st) c tc")
    case (fields r c1 io1)
    have "\<not> refuses r"
      using assms Pair b c fields
      by (cases r) (auto simp: tool_orchestration_check_approval_def Let_def refuses_def)
    with gate_reason_check[OF fields] c(2) show ?thesis by blast
  qed
  with Pair b show ?thesis by simp
qed

text \<open>A number from the parent that is not a result of the enumeration lets the call pass.\<close>

lemma unknown_result_allowed:
  assumes "check_protected oks (ol_json lib) fs tc (orch_protected st) = (None, ps)"
    and "oc_gate_config (orch_ctx st) = Some c" and "enabled c"
    and "fst (check_approval_gate (oks 3) (oks 4) (ol_json lib) (ol_regex lib) (ol_callbacks lib)
      (ol_shell lib) (orch_io st) c tc) = APPROVAL_OTHER n"
  shows "fst (tool_orchestration_check_approval oks lib fs tc result out st) = 0"
  using assms by (auto simp: tool_orchestration_check_approval_def Let_def split: prod.splits)

lemma shell_not_write:
  "get_tool_category cbs name = GATE_CATEGORY_SHELL \<Longrightarrow> \<not> is_file_write_tool name"
  by (auto simp: is_file_write_tool_def get_tool_category_def split: option.splits)

lemma shell_named: "get_tool_category cbs name = GATE_CATEGORY_SHELL \<Longrightarrow> name \<noteq> None"
  by (cases name) (simp_all add: get_tool_category_def)

lemma always_was_gated:
  assumes "fst (check_approval_gate ok ok' js re cbs SHELL io c tc) = APPROVAL_ALLOWED_ALWAYS"
  shows "categories c (get_tool_category cbs (tc_name tc)) = GATE_ACTION_GATE"
  using assms
  by (auto simp: check_approval_gate_def requires_check_values split: if_splits GateAction.splits)

text \<open>The rule that is added for a simple command, when memory suffices.\<close>

lemma add_shell_rule: "ts \<noteq> [] \<Longrightarrow> \<exists>c'. approval_gate_add_shell_allowlist alloc_ok c (Some ts) st = (0, c')"
  by (simp add: approval_gate_add_shell_allowlist_def Let_def list_all_iff)

lemma generate_simple_command:
  assumes "parse_shell_command okp SHELL (Some command) = Some q"
    and "shell_command_is_safe_for_matching (Some q)" and "tokens q \<noteq> []"
  shows "\<exists>p. generate_shell_command_pattern okp alloc_ok SHELL command = Some p \<and>
    gp_command_prefix p = Some (take 2 (tokens q)) \<and> 0 < gp_prefix_len p"
proof -
  let ?n = "length (tokens q)"
  have n: "0 < ?n" using assms(3) by simp
  have all: "list_all alloc_ok xs" for xs by (simp add: list_all_iff)
  show ?thesis
  proof (cases "2 \<le> ?n")
    case True
    with assms n all show ?thesis
      by (cases "?n = 2") (simp_all add: generate_shell_command_pattern_def zero_pattern_def)
  next
    case False
    with n have one: "?n = 1" by linarith
    with assms all show ?thesis
      by (simp add: generate_shell_command_pattern_def zero_pattern_def)
  qed
qed

lemma shell_approval_added:
  assumes "gate_inv re c" and "get_tool_category cbs (tc_name tc) = GATE_CATEGORY_SHELL"
    and "call_command js tc = Some command" and "parse_shell_command alloc_ok SHELL (Some command) = Some q"
    and "shell_command_is_safe_for_matching (Some q)" and "tokens q \<noteq> []"
  obtains p c' where "generate_allowlist_pattern alloc_ok alloc_ok alloc_ok js cbs SHELL tc = Some p"
    "apply_generated_pattern alloc_ok re c (tc_name tc) p = (0, c')" "extends c c'" "gate_inv re c'"
    "match_shell_command_allowlist alloc_ok js SHELL c' tc"
proof -
  have "tc_name tc \<noteq> None"
    using shell_named[OF assms(2)] .
  then obtain name where name: "tc_name tc = Some name" by blast
  obtain p where p: "generate_allowlist_pattern alloc_ok alloc_ok alloc_ok js cbs SHELL tc = Some p"
      "gp_command_prefix p = Some (take 2 (tokens q))" "0 < gp_prefix_len p"
    using assms(2,3) name generate_simple_command[OF assms(4-6)]
    by (auto simp: generate_allowlist_pattern_def call_command_def)
  have ne: "take 2 (tokens q) \<noteq> []"
    using assms(6) by simp
  obtain c' where a: "apply_generated_pattern alloc_ok re c (tc_name tc) p = (0, c')"
    using p(2,3) name add_shell_rule[OF ne, of c SHELL_TYPE_UNKNOWN]
    by (auto simp: apply_generated_pattern_def)
  moreover have "extends c c'"
    using a p(2,3) name extends_add(2)[of c alloc_ok "Some (take 2 (tokens q))" SHELL_TYPE_UNKNOWN]
    by (simp add: apply_generated_pattern_def)
  ultimately show ?thesis
    using that p(1) shell_rule_added[OF assms(1,2) p(1) a] by blast
qed

section \<open>Properties\<close>

text \<open>What passes the checks before execution. A call for which the check returns 0 is not a write
  to a protected file; and when a gate is configured and on, the tool is not backing off, and the
  call is allowed by its category or an allowlist, or by the parent in a subagent, or by the user who
  pressed yes or always on a terminal.\<close>

theorem orchestration_lets_through:
  assumes "tool_orchestration_check_approval oks lib fs tc result out st = (0, result', out', st')"
  shows "(\<forall>path. is_file_write_tool (tc_name tc) \<longrightarrow> tool_args_get_path (oks 0) (ol_json lib) (Some tc) = Some path \<longrightarrow>
      \<not> fst (is_protected_file (oks 1) (oks 2) fs (Some path) (orch_protected st))) \<and>
    (\<forall>c. oc_gate_config (orch_ctx st) = Some c \<longrightarrow> enabled c \<longrightarrow>
      gate_reason (oks 3) (oks 4) lib (orch_io st) c tc)"
  using check_approval_zero[OF assms] by (auto simp: check_protected_def split: prod.splits)

definition sample_lib :: "(jvalue, string) orch_lib" where
  "sample_lib = \<lparr>ol_json = table_json [], ol_regex = substring_regex, ol_callbacks = no_callbacks, ol_shell = None,
                 ol_print = Some\<rparr>"

definition empty_protected :: protected_state where
  "empty_protected = \<lparr>pc_inodes = [], pc_capacity = 0, pc_last_refresh = 0, module_initialized = False\<rparr>"

definition sample_fs :: fs_env where
  "sample_fs = \<lparr>fs_now = 0, fs_stat = (\<lambda>_. None), fs_getcwd = None,
     fs_home = \<lparr>g_app_home = None, g_initialized = False, g_app_name = None\<rparr>, fs_fnmatch = (\<lambda>_ _ _. False)\<rparr>"

definition sample_state :: "keys \<Rightarrow> string orch_state" where
  "sample_state ks = \<lparr>orch_ctx = \<lparr>oc_gate_config = Some sample_config, oc_subagent_spawned = False,
     oc_executed_tracker = []\<rparr>, orch_io = keys_io ks, orch_protected = empty_protected\<rparr>"

definition todo_call :: ToolCall where
  "todo_call = \<lparr>tc_id = Some ''1'', tc_name = Some ''todo'', tc_arguments = Some ''{}''\<rparr>"

theorem orchestration_lets_through_witness:
  "\<exists>result' out' st'. tool_orchestration_check_approval (\<lambda>_. alloc_ok) sample_lib sample_fs todo_call zero_result
       init_approved_path (sample_state []) = (0, result', out', st') \<and>
     gate_reason alloc_ok alloc_ok sample_lib (keys_io []) sample_config todo_call"
proof -
  have "approval_gate_requires_check alloc_ok (table_json []) substring_regex no_callbacks None (Some sample_config)
      (Some todo_call) = 0"
    by (simp add: requires_check_values todo_call_def get_tool_category_def sample_defs)
  then obtain result' out' st' where r: "tool_orchestration_check_approval (\<lambda>_. alloc_ok) sample_lib sample_fs todo_call
      zero_result init_approved_path (sample_state []) = (0, result', out', st')"
    by (simp add: tool_orchestration_check_approval_def check_protected_def is_file_write_tool_def
        sample_state_def sample_lib_def check_approval_gate_def init_approved_path_def Let_def is_rate_limited_def
        rate_limiter_is_blocked_def find_entry_def sample_defs todo_call_def)
  have "oc_gate_config (orch_ctx (sample_state [])) = Some sample_config" "enabled sample_config"
      "orch_io (sample_state []) = keys_io []"
    by (simp_all add: sample_state_def sample_defs)
  with orchestration_lets_through[OF r] r show ?thesis by auto
qed

text \<open>C11. An approval for always holds. When the user, or the parent, has answered always to the check
  of a command that is one simple command, and memory suffices, then the call passes, and from then
  on every check of the same call passes without asking anyone, as long as the tool is not backing
  off; the gate keeps its invariant.\<close>

theorem always_stays_allowed:
  assumes "gate_inv (ol_regex lib) c" and "oc_gate_config (orch_ctx st) = Some c" and "enabled c"
    and "get_tool_category (ol_callbacks lib) (tc_name tc) = GATE_CATEGORY_SHELL"
    and "call_command (ol_json lib) tc = Some command"
    and "parse_shell_command alloc_ok (ol_shell lib) (Some command) = Some q"
    and "shell_command_is_safe_for_matching (Some q)" and "tokens q \<noteq> []"
    and "fst (check_approval_gate alloc_ok alloc_ok (ol_json lib) (ol_regex lib) (ol_callbacks lib)
      (ol_shell lib) (orch_io st) c tc) = APPROVAL_ALLOWED_ALWAYS"
  shows "\<exists>c' st'. tool_orchestration_check_approval (\<lambda>_. alloc_ok) lib fs tc result out st = (0, result, out, st') \<and>
    oc_gate_config (orch_ctx st') = Some c' \<and> gate_inv (ol_regex lib) c' \<and>
    (\<forall>io fs' result' out'. \<not> is_rate_limited (gio_now io) c' tc \<longrightarrow>
       tool_orchestration_check_approval (\<lambda>_. alloc_ok) lib fs' tc result' out' (st'\<lparr>orch_io := io\<rparr>) =
         (0, result', out', st'\<lparr>orch_io := io\<rparr>))"
proof -
  obtain c1 io1 where chk: "check_approval_gate alloc_ok alloc_ok (ol_json lib) (ol_regex lib) (ol_callbacks lib)
      (ol_shell lib) (orch_io st) c tc = (APPROVAL_ALLOWED_ALWAYS, c1, io1)"
    using assms(9) by (cases "check_approval_gate alloc_ok alloc_ok (ol_json lib) (ol_regex lib) (ol_callbacks lib)
      (ol_shell lib) (orch_io st) c tc") auto
  have c1: "gate_inv (ol_regex lib) c1" "enabled c1" "categories c1 = categories c"
    using check_gate_config[OF chk] assms(1,3) gate_inv_reset by auto
  obtain p c' where p: "generate_allowlist_pattern alloc_ok alloc_ok alloc_ok (ol_json lib) (ol_callbacks lib)
      (ol_shell lib) tc = Some p" "apply_generated_pattern alloc_ok (ol_regex lib) c1 (tc_name tc) p = (0, c')"
    and ext: "extends c1 c'" and inv: "gate_inv (ol_regex lib) c'"
    and mat: "match_shell_command_allowlist alloc_ok (ol_json lib) (ol_shell lib) c' tc"
    using shell_approval_added[OF c1(1) assms(4-8)] by blast
  have prot: "check_protected oks (ol_json lib) fs tc ps = (None, ps)" for oks fs ps
    using shell_not_write[OF assms(4)] by (rule check_protected_other)
  let ?st = "st\<lparr>orch_ctx := (orch_ctx st)\<lparr>oc_gate_config := Some c'\<rparr>, orch_io := io1\<rparr>"
  have first: "tool_orchestration_check_approval (\<lambda>_. alloc_ok) lib fs tc result out st = (0, result, out, ?st)"
    using assms(2,3) chk p prot
    by (simp add: tool_orchestration_check_approval_def init_approved_path_def remember_approval_def)
  have e: "enabled c'"
    using ext c1(2) by (simp add: extends_def)
  have "tc_name tc \<noteq> None"
    using shell_named[OF assms(4)] .
  then have "approval_gate_requires_check alloc_ok (ol_json lib) (ol_regex lib) (ol_callbacks lib) (ol_shell lib)
      (Some c') (Some tc) = 0"
    using mat assms(4) always_was_gated[OF assms(9)] c1(3) ext
    by (auto simp: requires_check_values approval_gate_matches_allowlist_def extends_def)
  then have "tool_orchestration_check_approval (\<lambda>_. alloc_ok) lib fs' tc result' out' (?st\<lparr>orch_io := io\<rparr>) =
      (0, result', out', ?st\<lparr>orch_io := io\<rparr>)" if "\<not> is_rate_limited (gio_now io) c' tc" for io fs' result' out'
    using that e prot
    by (simp add: tool_orchestration_check_approval_def check_approval_gate_def init_approved_path_def)
  with first inv show ?thesis by auto
qed

definition make_lib :: "(jvalue, string) orch_lib" where
  "make_lib = sample_lib\<lparr>ol_json := make_json\<rparr>"

theorem always_stays_allowed_witness:
  "\<exists>c' st'. tool_orchestration_check_approval (\<lambda>_. alloc_ok) make_lib sample_fs make_call zero_result
       init_approved_path (sample_state [(97, False)]) = (0, zero_result, init_approved_path, st') \<and>
     oc_gate_config (orch_ctx st') = Some c' \<and>
     (\<not> is_rate_limited 0 c' make_call \<longrightarrow>
       tool_orchestration_check_approval (\<lambda>_. alloc_ok) make_lib sample_fs make_call zero_result init_approved_path
         (st'\<lparr>orch_io := (keys_io [])\<lparr>gio_now := 0\<rparr>\<rparr>) =
       (0, zero_result, init_approved_path, st'\<lparr>orch_io := (keys_io [])\<lparr>gio_now := 0\<rparr>\<rparr>))"
proof -
  let ?q = "\<lparr>tokens = [''make''], has_chain = False, has_pipe = False, has_subshell = False,
        has_redirect = False, is_dangerous = False, shell_type = SHELL_TYPE_POSIX\<rparr>"
  let ?st = "sample_state [(97, False)]"
  have inv: "gate_inv (ol_regex make_lib) sample_config"
    by (simp add: gate_inv_def sample_config_def default_config_def rl_inv_def)
  have st: "oc_gate_config (orch_ctx ?st) = Some sample_config" "orch_io ?st = keys_io [(97, False)]"
    by (simp_all add: sample_state_def)
  have lib: "ol_json make_lib = make_json" "ol_shell make_lib = None" "ol_callbacks make_lib = no_callbacks"
    by (simp_all add: make_lib_def sample_lib_def)
  have cat: "get_tool_category (ol_callbacks make_lib) (tc_name make_call) = GATE_CATEGORY_SHELL"
    by (simp add: make_call_def get_tool_category_def)
  have cmd: "call_command (ol_json make_lib) make_call = Some ''make''"
    by (simp add: lib call_command_def make_call_def make_json_def tool_args_get_command_def
        tool_args_get_string_def parse_args_def table_json_def jstring_def)
  have q: "parse_shell_command alloc_ok (ol_shell make_lib) (Some ''make'') = Some ?q"
    unfolding lib by code_simp
  have "approval_gate_requires_check alloc_ok make_json (ol_regex make_lib) no_callbacks None (Some sample_config)
      (Some make_call) = 1"
    by (simp add: requires_check_values sample_defs make_call_def get_tool_category_def
        approval_gate_matches_allowlist_def match_shell_command_allowlist_def)
  then have chk: "fst (check_approval_gate alloc_ok alloc_ok (ol_json make_lib) (ol_regex make_lib)
      (ol_callbacks make_lib) (ol_shell make_lib) (orch_io ?st) sample_config make_call) = APPROVAL_ALLOWED_ALWAYS"
    unfolding st lib
    by (simp add: check_approval_gate_def is_rate_limited_def rate_limiter_is_blocked_def find_entry_def
        approval_gate_prompt_def gate_prompter_create_def sample_defs make_call_def lower_key_def)
  have en: "enabled sample_config"
    by (simp add: sample_defs)
  show ?thesis
    using always_stays_allowed[OF inv st(1) en cat cmd q _ _ chk, where fs = sample_fs and result = zero_result
        and out = init_approved_path]
    by (fastforce simp: shell_command_is_safe_for_matching_def)
qed

end
