(* ===== verification/Hook_Dispatcher.thy ===== *)
theory Hook_Dispatcher
  imports Tool_Orchestration "HOL-Library.Multiset"
begin

text \<open>
  The hooks by which plugins take part in a turn, from \<^verbatim>\<open>lib/plugin/hook_dispatcher.c\<close>: the plugins
  that subscribe to a hook are asked in the order of their priority, and an answer can change the
  data of the hook, end the chain or discard the event.

  A plugin is another process. What it answers to an event is the argument \<open>exch\<close>: given the index of
  the plugin, the name of the hook and the fields of the event, the parsed response, or \<open>None\<close> where
  the exchange fails or the answer cannot be parsed; \<open>'w\<close> is whatever state the processes have.
\<close>

section \<open>Data\<close>

datatype HookAction = HOOK_CONTINUE | HOOK_STOP | HOOK_SKIP

record PluginManifest =
  mf_hooks :: "string list"
  mf_priority :: int

record PluginProcess =
  pp_initialized :: bool
  pp_manifest :: PluginManifest

record 'j HookResponse =
  hr_action :: HookAction
  hr_data :: "'j option"

datatype event_field = EStr string | EBool bool | ECalls "(string option \<times> string option) list"

type_synonym ('j, 'w) exchange =
  "nat \<Rightarrow> string \<Rightarrow> (string \<times> event_field) list \<Rightarrow> 'w \<Rightarrow> 'j HookResponse option \<times> 'w"

section \<open>Subscribers\<close>

definition plugin_has_hook :: "PluginProcess \<Rightarrow> string \<Rightarrow> bool" where
  "plugin_has_hook plugin hook_name = list_ex (\<lambda>h. h = hook_name) (mf_hooks (pp_manifest plugin))"

text \<open>One round of the insertion sort: the elements at the end of the sorted part that are greater than
  the key move up by one place.\<close>

definition insert_sub :: "(nat \<Rightarrow> int) \<Rightarrow> nat \<Rightarrow> nat list \<Rightarrow> nat list" where
  "insert_sub prio key front =
     (let moved = length (takeWhile (\<lambda>x. prio x > prio key) (rev front))
      in take (length front - moved) front @ [key] @ drop (length front - moved) front)"

fun sort_subs :: "(nat \<Rightarrow> int) \<Rightarrow> nat list \<Rightarrow> nat list \<Rightarrow> nat list" where
  "sort_subs prio front [] = front"
| "sort_subs prio front (key # rest) = sort_subs prio (insert_sub prio key front) rest"

text \<open>Site 0 is the array; \<open>None\<close> is \<^verbatim>\<open>NULL\<close>.\<close>

definition get_sorted_subscribers :: "alloc \<Rightarrow> PluginProcess list \<Rightarrow> string \<Rightarrow> nat list option" where
  "get_sorted_subscribers ok plugins hook_name =
     (if plugins = [] then None
      else if \<not> ok 0 then None
      else
        let indices = filter (\<lambda>i. pp_initialized (plugins ! i) \<and> plugin_has_hook (plugins ! i) hook_name)
                        [0..<length plugins]
        in if indices = [] then None
           else Some (sort_subs (\<lambda>i. mf_priority (pp_manifest (plugins ! i))) [] indices))"

section \<open>Dispatch\<close>

text \<open>The loop over the subscribers: \<open>build\<close> gives the fields of the event, \<open>app i\<close> takes over the answer of
  subscriber \<open>i\<close>.  \<open>ok i\<close> tells whether the event for subscriber \<open>i\<close> can be built.\<close>

fun dispatch_loop ::
    "alloc \<Rightarrow> ('j, 'w) exchange \<Rightarrow> string \<Rightarrow> ('c \<Rightarrow> (string \<times> event_field) list) \<Rightarrow> (nat \<Rightarrow> 'j HookResponse \<Rightarrow> 'c \<Rightarrow> 'c)
     \<Rightarrow> bool \<Rightarrow> nat \<Rightarrow> nat list \<Rightarrow> 'c \<Rightarrow> 'w \<Rightarrow> HookAction \<times> 'c \<times> 'w" where
  "dispatch_loop ok exch hook build app ignore i [] ctx w = (HOOK_CONTINUE, ctx, w)"
| "dispatch_loop ok exch hook build app ignore i (p # ps) ctx w =
     (if \<not> ok i then dispatch_loop ok exch hook build app ignore (Suc i) ps ctx w
      else case exch p hook (build ctx) w of
             (None, w) \<Rightarrow> dispatch_loop ok exch hook build app ignore (Suc i) ps ctx w
           | (Some hr, w) \<Rightarrow>
               if \<not> ignore \<and> hr_action hr = HOOK_SKIP then (HOOK_SKIP, ctx, w)
               else let ctx = app i hr ctx
                    in if \<not> ignore \<and> hr_action hr = HOOK_STOP then (HOOK_STOP, ctx, w)
                       else dispatch_loop ok exch hook build app ignore (Suc i) ps ctx w)"

text \<open>Site 0 is the array of subscribers, \<open>Suc i\<close> the event for subscriber \<open>i\<close>.\<close>

definition hook_dispatch_generic ::
    "alloc \<Rightarrow> ('j, 'w) exchange \<Rightarrow> PluginProcess list \<Rightarrow> string \<Rightarrow> ('c \<Rightarrow> (string \<times> event_field) list)
     \<Rightarrow> (nat \<Rightarrow> 'j HookResponse \<Rightarrow> 'c \<Rightarrow> 'c) \<Rightarrow> bool \<Rightarrow> 'c \<Rightarrow> 'w \<Rightarrow> HookAction \<times> 'c \<times> 'w" where
  "hook_dispatch_generic ok exch plugins hook build app ignore ctx w =
     (case get_sorted_subscribers ok plugins hook of
        None \<Rightarrow> (HOOK_CONTINUE, ctx, w)
      | Some subs \<Rightarrow> dispatch_loop (\<lambda>i. ok (Suc i)) exch hook build app ignore 0 subs ctx w)"

section \<open>The hooks\<close>

text \<open>A string of the answer, if it has one and the copy (site 0) succeeds.\<close>

definition answer_string :: "alloc \<Rightarrow> 'j cjson \<Rightarrow> string \<Rightarrow> 'j HookResponse \<Rightarrow> string option" where
  "answer_string ok js key hr =
     (case hr_data hr of
        None \<Rightarrow> None
      | Some d \<Rightarrow> (case jstring js (cJSON_GetObjectItem js d key) of
                    None \<Rightarrow> None
                  | Some s \<Rightarrow> if ok 0 then Some s else None))"

definition text_or_empty :: "string option \<Rightarrow> string" where
  "text_or_empty s = (case s of None \<Rightarrow> [] | Some t \<Rightarrow> t)"

definition post_user_input_build :: "string \<Rightarrow> (string \<times> event_field) list" where
  "post_user_input_build message = [(''message'', EStr message)]"

definition post_user_input_apply :: "alloc \<Rightarrow> 'j cjson \<Rightarrow> 'j HookResponse \<Rightarrow> string \<Rightarrow> string" where
  "post_user_input_apply ok js hr message =
     (case answer_string ok js ''message'' hr of None \<Rightarrow> message | Some s \<Rightarrow> s)"

definition hook_dispatch_post_user_input ::
    "alloc \<Rightarrow> (nat \<Rightarrow> alloc) \<Rightarrow> ('j, 'w) exchange \<Rightarrow> 'j cjson \<Rightarrow> PluginProcess list \<Rightarrow> string option \<Rightarrow> 'w
     \<Rightarrow> HookAction \<times> string option \<times> 'w" where
  "hook_dispatch_post_user_input ok oks' exch js plugins message w =
     (case message of
        None \<Rightarrow> (HOOK_CONTINUE, None, w)
      | Some m \<Rightarrow>
          (case hook_dispatch_generic ok exch plugins ''post_user_input'' post_user_input_build
                  (\<lambda>i. post_user_input_apply (oks' i) js) False m w of
             (a, m, w) \<Rightarrow> (a, Some m, w)))"

definition context_enhance_build :: "string option \<Rightarrow> string option \<Rightarrow> (string \<times> event_field) list" where
  "context_enhance_build user_message dynamic_context =
     (case user_message of None \<Rightarrow> [] | Some m \<Rightarrow> [(''user_message'', EStr m)]) @
     [(''dynamic_context'', EStr (text_or_empty dynamic_context))]"

definition context_enhance_apply ::
    "alloc \<Rightarrow> 'j cjson \<Rightarrow> 'j HookResponse \<Rightarrow> string option \<Rightarrow> string option" where
  "context_enhance_apply ok js hr dynamic_context =
     (case answer_string ok js ''dynamic_context'' hr of None \<Rightarrow> dynamic_context | Some s \<Rightarrow> Some s)"

definition hook_dispatch_context_enhance ::
    "alloc \<Rightarrow> (nat \<Rightarrow> alloc) \<Rightarrow> ('j, 'w) exchange \<Rightarrow> 'j cjson \<Rightarrow> PluginProcess list \<Rightarrow> string option \<Rightarrow> string option \<Rightarrow> 'w
     \<Rightarrow> HookAction \<times> string option \<times> 'w" where
  "hook_dispatch_context_enhance ok oks' exch js plugins user_message dynamic_context w =
     hook_dispatch_generic ok exch plugins ''context_enhance'' (context_enhance_build user_message)
       (\<lambda>i. context_enhance_apply (oks' i) js) True dynamic_context w"

text \<open>The two texts of \<^verbatim>\<open>pre_llm_send\<close>; the outer option is a pointer that may be \<^verbatim>\<open>NULL\<close>. The copies
  have the oracles \<open>ok'\<close> and \<open>ok''\<close>.\<close>

type_synonym prompt_texts = "string option option \<times> string option option"

definition pre_llm_send_build :: "prompt_texts \<Rightarrow> (string \<times> event_field) list" where
  "pre_llm_send_build ctx =
     [(''base_prompt'', EStr (text_or_empty (Option.bind (fst ctx) id))),
      (''dynamic_context'', EStr (text_or_empty (Option.bind (snd ctx) id)))]"

definition pre_llm_send_apply ::
    "alloc \<Rightarrow> alloc \<Rightarrow> 'j cjson \<Rightarrow> 'j HookResponse \<Rightarrow> prompt_texts \<Rightarrow> prompt_texts" where
  "pre_llm_send_apply ok' ok'' js hr ctx =
     (let put = (\<lambda>ok key old. case old of
                   None \<Rightarrow> None
                 | Some v \<Rightarrow> Some (case answer_string ok js key hr of None \<Rightarrow> v | Some s \<Rightarrow> Some s))
      in (put ok' ''base_prompt'' (fst ctx), put ok'' ''dynamic_context'' (snd ctx)))"

definition hook_dispatch_pre_llm_send ::
    "alloc \<Rightarrow> (nat \<Rightarrow> alloc) \<Rightarrow> (nat \<Rightarrow> alloc) \<Rightarrow> ('j, 'w) exchange \<Rightarrow> 'j cjson \<Rightarrow> PluginProcess list \<Rightarrow> prompt_texts \<Rightarrow> 'w
     \<Rightarrow> HookAction \<times> prompt_texts \<times> 'w" where
  "hook_dispatch_pre_llm_send ok oks' oks'' exch js plugins ctx w =
     hook_dispatch_generic ok exch plugins ''pre_llm_send'' pre_llm_send_build
       (\<lambda>i. pre_llm_send_apply (oks' i) (oks'' i) js) False ctx w"

definition post_llm_response_build ::
    "ToolCall list \<Rightarrow> string option option \<Rightarrow> (string \<times> event_field) list" where
  "post_llm_response_build tool_calls txt =
     [(''text'', EStr (text_or_empty (Option.bind txt id))),
      (''tool_calls'', ECalls (map (\<lambda>tc. (tc_name tc, tc_arguments tc)) tool_calls))]"

definition post_llm_response_apply ::
    "alloc \<Rightarrow> 'j cjson \<Rightarrow> 'j HookResponse \<Rightarrow> string option option \<Rightarrow> string option option" where
  "post_llm_response_apply ok js hr txt =
     (case txt of
        None \<Rightarrow> None
      | Some t \<Rightarrow> Some (case answer_string ok js ''text'' hr of None \<Rightarrow> t | Some s \<Rightarrow> Some s))"

definition hook_dispatch_post_llm_response ::
    "alloc \<Rightarrow> (nat \<Rightarrow> alloc) \<Rightarrow> ('j, 'w) exchange \<Rightarrow> 'j cjson \<Rightarrow> PluginProcess list \<Rightarrow> string option option \<Rightarrow> ToolCall list
     \<Rightarrow> 'w \<Rightarrow> HookAction \<times> string option option \<times> 'w" where
  "hook_dispatch_post_llm_response ok oks' exch js plugins txt tool_calls w =
     hook_dispatch_generic ok exch plugins ''post_llm_response'' (post_llm_response_build tool_calls)
       (\<lambda>i. post_llm_response_apply (oks' i) js) False txt w"

definition call_fields :: "ToolCall \<Rightarrow> (string \<times> event_field) list" where
  "call_fields call =
     (case tc_name call of None \<Rightarrow> [] | Some n \<Rightarrow> [(''tool_name'', EStr n)]) @
     (case tc_arguments call of None \<Rightarrow> [] | Some a \<Rightarrow> [(''arguments'', EStr a)])"

definition pre_tool_execute_build :: "ToolCall \<Rightarrow> ToolResult \<Rightarrow> (string \<times> event_field) list" where
  "pre_tool_execute_build call result = call_fields call"

definition blocked_text :: string where
  "blocked_text = ''{'' @ quoted ''blocked'' @ '':'' @ quoted ''Plugin blocked execution'' @ ''}''"

text \<open>Site 0 copies the identifier, site 1 the text.\<close>

definition pre_tool_execute_apply ::
    "alloc \<Rightarrow> 'j cjson \<Rightarrow> ToolCall \<Rightarrow> 'j HookResponse \<Rightarrow> ToolResult \<Rightarrow> ToolResult" where
  "pre_tool_execute_apply ok js call hr result =
     (if hr_action hr = HOOK_STOP
      then let txt = (case hr_data hr of None \<Rightarrow> None
                       | Some d \<Rightarrow> jstring js (cJSON_GetObjectItem js d ''result''))
           in result\<lparr>tr_tool_call_id := (case tc_id call of None \<Rightarrow> None | Some i \<Rightarrow> if ok 0 then Some i else None),
                     tr_result := (if ok 1 then Some (case txt of None \<Rightarrow> blocked_text | Some s \<Rightarrow> s) else None),
                     tr_success := False\<rparr>
      else result)"

definition hook_dispatch_pre_tool_execute ::
    "alloc \<Rightarrow> (nat \<Rightarrow> alloc) \<Rightarrow> ('j, 'w) exchange \<Rightarrow> 'j cjson \<Rightarrow> PluginProcess list \<Rightarrow> ToolCall \<Rightarrow> ToolResult \<Rightarrow> 'w
     \<Rightarrow> HookAction \<times> ToolResult \<times> 'w" where
  "hook_dispatch_pre_tool_execute ok oks' exch js plugins call result w =
     hook_dispatch_generic ok exch plugins ''pre_tool_execute'' (pre_tool_execute_build call)
       (\<lambda>i. pre_tool_execute_apply (oks' i) js call) False result w"

definition post_tool_execute_build :: "ToolCall \<Rightarrow> ToolResult \<Rightarrow> (string \<times> event_field) list" where
  "post_tool_execute_build call result =
     call_fields call @
     (case tr_result result of None \<Rightarrow> [] | Some r \<Rightarrow> [(''result'', EStr r)]) @
     [(''success'', EBool (tr_success result))]"

definition post_tool_execute_apply :: "alloc \<Rightarrow> 'j cjson \<Rightarrow> 'j HookResponse \<Rightarrow> ToolResult \<Rightarrow> ToolResult" where
  "post_tool_execute_apply ok js hr result =
     (case answer_string ok js ''result'' hr of None \<Rightarrow> result | Some s \<Rightarrow> result\<lparr>tr_result := Some s\<rparr>)"

definition hook_dispatch_post_tool_execute ::
    "alloc \<Rightarrow> (nat \<Rightarrow> alloc) \<Rightarrow> ('j, 'w) exchange \<Rightarrow> 'j cjson \<Rightarrow> PluginProcess list \<Rightarrow> ToolCall \<Rightarrow> ToolResult \<Rightarrow> 'w
     \<Rightarrow> HookAction \<times> ToolResult \<times> 'w" where
  "hook_dispatch_post_tool_execute ok oks' exch js plugins call result w =
     hook_dispatch_generic ok exch plugins ''post_tool_execute'' (post_tool_execute_build call)
       (\<lambda>i. post_tool_execute_apply (oks' i) js) False result w"

section \<open>Lemmas\<close>

lemma insert_sub_split:
  obtains a b where "front = a @ b" "insert_sub prio key front = a @ key # b"
    "\<forall>x \<in> set b. prio key < prio x" "a = [] \<or> prio (last a) \<le> prio key"
proof -
  let ?P = "\<lambda>x. prio x > prio key"
  let ?n = "length front - length (takeWhile ?P (rev front))"
  have b: "drop ?n front = rev (takeWhile ?P (rev front))"
    by (metis length_rev rev_rev_ident rev_take takeWhile_eq_take)
  have "rev front = takeWhile ?P (rev front) @ dropWhile ?P (rev front)" by simp
  then have a: "take ?n front = rev (dropWhile ?P (rev front))"
    by (metis append_eq_append_conv append_take_drop_id b rev_append rev_rev_ident)
  show ?thesis
  proof (rule that)
    show "front = take ?n front @ drop ?n front" by simp
    show "insert_sub prio key front = take ?n front @ key # drop ?n front"
      by (simp add: insert_sub_def Let_def)
    show "\<forall>x \<in> set (drop ?n front). prio key < prio x"
      unfolding b by (auto dest: set_takeWhileD)
    show "take ?n front = [] \<or> prio (last (take ?n front)) \<le> prio key"
      unfolding a using hd_dropWhile[of ?P "rev front"]
      by (cases "dropWhile ?P (rev front) = []") (simp_all add: last_rev linorder_not_less)
  qed
qed

text \<open>A round keeps the front sorted and adds the key behind those of the same priority.\<close>

lemma insert_sub_sorted:
  assumes "sorted (map prio front)"
  shows "sorted (map prio (insert_sub prio key front)) \<and> mset (insert_sub prio key front) = add_mset key (mset front) \<and>
    filter (\<lambda>x. prio k = prio x) (insert_sub prio key front) = filter (\<lambda>x. prio k = prio x) (front @ [key])"
proof -
  obtain a b where ab: "front = a @ b" "insert_sub prio key front = a @ key # b"
      "\<forall>x \<in> set b. prio key < prio x" "a = [] \<or> prio (last a) \<le> prio key"
    using insert_sub_split[of front prio key] by blast
  have "\<forall>x \<in> set a. prio x \<le> prio key"
  proof (cases "a = []")
    case False
    then have "a = butlast a @ [last a]" by simp
    moreover have "sorted (map prio a)"
      using assms ab(1) by (simp add: sorted_append)
    ultimately have "sorted (map prio (butlast a) @ [prio (last a)])"
      by (metis list.simps(8,9) map_append)
    then have "\<forall>x \<in> set (butlast a). prio x \<le> prio (last a)"
      by (simp add: sorted_append)
    then have "\<forall>x \<in> set a. prio x \<le> prio (last a)"
      by (metis \<open>a = butlast a @ [last a]\<close> order_refl set_ConsD Un_iff empty_iff empty_set set_append)
    with False ab(4) show ?thesis by force
  qed simp
  then have "sorted (map prio (a @ key # b))"
    using assms ab(1,3) by (auto simp: sorted_append less_imp_le)
  moreover have "filter (\<lambda>x. prio k = prio x) b = []" if "prio k = prio key"
    using that ab(3) by (auto simp: filter_empty_conv)
  ultimately show ?thesis
    using ab by (auto simp: filter_empty_conv)
qed

lemma sort_subs_invariant:
  assumes "sorted (map prio front)"
  shows "sorted (map prio (sort_subs prio front rest)) \<and> mset (sort_subs prio front rest) = mset (front @ rest) \<and>
    filter (\<lambda>x. prio k = prio x) (sort_subs prio front rest) = filter (\<lambda>x. prio k = prio x) (front @ rest)"
  using assms
proof (induction rest arbitrary: front)
  case (Cons key rest)
  note i = insert_sub_sorted[OF Cons.prems, of key k]
  with Cons.IH[of "insert_sub prio key front"] show ?case by auto
qed simp

lemma sort_subs_stable: "sort_subs prio [] xs = sort_key prio xs"
  using sort_subs_invariant[of prio "[]" xs] by (intro properties_for_sort_key[symmetric]) auto

text \<open>The subscribers are asked one after the other until one ends the chain.\<close>

lemma dispatch_append:
  "dispatch_loop ok exch hook build app ignore i (ps @ qs) ctx w =
     (case dispatch_loop ok exch hook build app ignore i ps ctx w of
        (a, ctx', w') \<Rightarrow>
          if a = HOOK_CONTINUE then dispatch_loop ok exch hook build app ignore (i + length ps) qs ctx' w'
          else (a, ctx', w'))"
  by (induction ps arbitrary: i ctx w) (auto simp: Let_def split: option.splits prod.splits)

lemma dispatch_ignore: "fst (dispatch_loop ok exch hook build app True i ps ctx w) = HOOK_CONTINUE"
  by (induction ps arbitrary: i ctx w) (auto simp: Let_def split: option.splits prod.splits)

section \<open>Properties\<close>

definition subscribes :: "PluginProcess list \<Rightarrow> string \<Rightarrow> nat \<Rightarrow> bool" where
  "subscribes plugins hook i \<longleftrightarrow>
     pp_initialized (plugins ! i) \<and> hook \<in> set (mf_hooks (pp_manifest (plugins ! i)))"

text \<open>The order of the hooks. The subscribers of a hook are the running plugins that name it in their
  manifest, stably sorted by priority; they are asked in this order, each with what the ones before
  have made of the data, and once one of them stops the chain or discards the event the rest are not
  asked.\<close>

theorem hooks_in_priority_order:
  assumes "get_sorted_subscribers ok plugins hook = Some subs"
  shows "subs = sort_key (\<lambda>i. mf_priority (pp_manifest (plugins ! i)))
      (filter (subscribes plugins hook) [0..<length plugins]) \<and>
    (\<forall>ps qs. subs = ps @ qs \<longrightarrow>
      hook_dispatch_generic ok exch plugins hook build app ignore ctx w =
        (case dispatch_loop (\<lambda>i. ok (Suc i)) exch hook build app ignore 0 ps ctx w of
           (a, ctx', w') \<Rightarrow>
             if a = HOOK_CONTINUE
             then dispatch_loop (\<lambda>i. ok (Suc i)) exch hook build app ignore (length ps) qs ctx' w'
             else (a, ctx', w')))"
proof -
  have "subscribes plugins hook = (\<lambda>i. pp_initialized (plugins ! i) \<and> plugin_has_hook (plugins ! i) hook)"
    by (auto simp: subscribes_def plugin_has_hook_def list_ex_iff)
  then have "subs = sort_key (\<lambda>i. mf_priority (pp_manifest (plugins ! i)))
      (filter (subscribes plugins hook) [0..<length plugins])"
    using assms by (auto simp: get_sorted_subscribers_def sort_subs_stable Let_def split: if_splits)
  moreover have "hook_dispatch_generic ok exch plugins hook build app ignore ctx w =
      dispatch_loop (\<lambda>i. ok (Suc i)) exch hook build app ignore 0 subs ctx w"
    using assms by (simp add: hook_dispatch_generic_def)
  ultimately show ?thesis
    by (auto simp: dispatch_append split: prod.split)
qed

definition sample_plugins :: "PluginProcess list" where
  "sample_plugins =
     [\<lparr>pp_initialized = True, pp_manifest = \<lparr>mf_hooks = [''h''], mf_priority = 5\<rparr>\<rparr>,
      \<lparr>pp_initialized = True, pp_manifest = \<lparr>mf_hooks = [''g'', ''h''], mf_priority = 1\<rparr>\<rparr>,
      \<lparr>pp_initialized = False, pp_manifest = \<lparr>mf_hooks = [''h''], mf_priority = 0\<rparr>\<rparr>]"

theorem hooks_in_priority_order_witness:
  "get_sorted_subscribers alloc_ok sample_plugins ''h'' = Some [1, 0] \<and>
   [1, 0] = sort_key (\<lambda>i. mf_priority (pp_manifest (sample_plugins ! i)))
      (filter (subscribes sample_plugins ''h'') [0..<length sample_plugins])"
proof -
  have "[0..<length sample_plugins] = [0, 1, 2]"
    by (simp add: sample_plugins_def upt_conv_Cons)
  then have "filter (\<lambda>i. pp_initialized (sample_plugins ! i) \<and> plugin_has_hook (sample_plugins ! i) ''h'')
      [0..<length sample_plugins] = [0, 1]"
    by (simp add: sample_plugins_def plugin_has_hook_def)
  moreover have "sort_subs (\<lambda>i. mf_priority (pp_manifest (sample_plugins ! i))) [] [0, 1] = [1, 0]"
    by (simp add: sample_plugins_def insert_sub_def)
  ultimately have "get_sorted_subscribers alloc_ok sample_plugins ''h'' = Some [1, 0]"
    by (simp add: get_sorted_subscribers_def Let_def sample_plugins_def)
  with conjunct1[OF hooks_in_priority_order[OF this, where exch = "\<lambda>_ _ _ w. (None, w)"
        and build = "\<lambda>_. []" and app = "\<lambda>_ _ c. c" and ignore = False and ctx = "()" and w = "()"]]
  show ?thesis by (intro conjI)
qed

end
