(* ===== verification/Tool_Batch.thy ===== *)
theory Tool_Batch
  imports Hook_Dispatcher
begin

text \<open>
  The execution of the tool calls of one turn, from \<^verbatim>\<open>lib/agent/tool_batch_executor.c\<close>: the calls are
  screened one by one, those that pass are executed, in threads when all of them are safe for it.

  The tools themselves, with the servers and plugins that provide some of them, are the record \<open>ex\<close>
  of functions on a world of an unknown type. Threads take turns in the order \<open>sched n\<close>, any order of
  \<open>n\<close> calls: each writes its own result only. An interrupt can be pending before each call and at the
  end. What is displayed is not modelled. A call without a name makes the screening undefined
  (\<open>None\<close>), since its name is compared through a null pointer.
\<close>

section \<open>State\<close>

record PreScreenEntry =
  pe_call_index :: nat
  pe_slot :: nat
  pe_is_mcp :: bool
  pe_is_plugin :: bool
  pe_approved :: bool
  pe_thread_safe :: bool
  pe_approved_path :: ApprovedPath
  pe_has_approved_path :: bool

text \<open>What surrounds a batch: \<open>be_oks i k\<close> has the allocation sites of step \<open>k\<close> for call \<open>i\<close>, \<open>be_fs i\<close> is
  the file system and \<open>be_interrupt i\<close> the interrupt flag when call \<open>i\<close> is reached; \<open>be_compact\<close> tells
  whether the caller wants the indices of the executed calls.\<close>

record ('j, 'r) batch_env =
  be_lib :: "('j, 'r) orch_lib"
  be_fs :: "nat \<Rightarrow> fs_env"
  be_oks :: "nat \<Rightarrow> nat \<Rightarrow> alloc"
  be_interrupt :: "nat \<Rightarrow> bool"
  be_compact :: bool
  be_tools :: "(string \<times> bool) list"

record 'r screen =
  sc_orch :: "'r orch_state"
  sc_results :: "ToolResult list"
  sc_indices :: "nat list"
  sc_count :: nat
  sc_approved :: "PreScreenEntry list"
  sc_status :: int

definition PLUGIN_TOOL_PREFIX :: string where
  "PLUGIN_TOOL_PREFIX = ''plugin_''"

section \<open>Error results\<close>

text \<open>Site 0 copies the identifier, site 1 the text.\<close>

definition fill_error_result :: "alloc \<Rightarrow> string option \<Rightarrow> string \<Rightarrow> ToolResult \<Rightarrow> ToolResult" where
  "fill_error_result ok call_id error_json result =
     result\<lparr>tr_tool_call_id := (case call_id of None \<Rightarrow> None | Some i \<Rightarrow> if ok 0 then Some i else None),
            tr_result := (if ok 1 then Some error_json else None), tr_success := False\<rparr>"

definition error_text :: "string \<Rightarrow> string \<Rightarrow> string" where
  "error_text kind message = ''{'' @ field ''error'' kind @ '', '' @ field ''message'' message @ ''}''"

definition interrupted_text :: string where
  "interrupted_text = error_text ''interrupted'' ''Cancelled by user''"

definition duplicate_subagent_text :: string where
  "duplicate_subagent_text = error_text ''duplicate_subagent''
     (''Only one subagent can be spawned per turn. '' @ ''A subagent was already spawned in this batch.'')"

definition aborted_text :: string where
  "aborted_text = error_text ''aborted'' ''Operation aborted by user''"

section \<open>Screening\<close>

definition slot_of :: "('j, 'r) batch_env \<Rightarrow> nat \<Rightarrow> 'r screen \<Rightarrow> nat" where
  "slot_of env i sc = (if be_compact env then sc_count sc else i)"

text \<open>The calls from \<open>j\<close> on after an interrupt.\<close>

fun fill_remaining_interrupted ::
    "('j, 'r) batch_env \<Rightarrow> nat \<Rightarrow> ToolCall list \<Rightarrow> 'r screen \<Rightarrow> 'r screen" where
  "fill_remaining_interrupted env j [] sc = sc"
| "fill_remaining_interrupted env j (tc # tcs) sc =
     (if be_compact env \<and> tool_orchestration_is_duplicate (orch_ctx (sc_orch sc)) (tc_id tc)
      then fill_remaining_interrupted env (Suc j) tcs sc
      else
        let s = slot_of env j sc;
            sc = (if be_compact env then sc\<lparr>sc_indices := (sc_indices sc)[sc_count sc := j]\<rparr> else sc)
        in fill_remaining_interrupted env (Suc j) tcs
             (sc\<lparr>sc_results := (sc_results sc)
                   [s := fill_error_result (be_oks env j 14) (tc_id tc) interrupted_text (sc_results sc ! s)],
                 sc_count := sc_count sc + 1\<rparr>))"

text \<open>The calls after one that the user aborted, when every call has its own slot.\<close>

fun fill_aborted :: "('j, 'r) batch_env \<Rightarrow> nat \<Rightarrow> ToolCall list \<Rightarrow> ToolResult list \<Rightarrow> ToolResult list" where
  "fill_aborted env j [] results = results"
| "fill_aborted env j (tc # tcs) results =
     fill_aborted env (Suc j) tcs
       (results[j := fill_error_result (be_oks env j 14) (tc_id tc) aborted_text (results ! j)])"

definition thread_safe_tool :: "(string \<times> bool) list \<Rightarrow> string \<Rightarrow> bool" where
  "thread_safe_tool tools name = (case map_of tools name of None \<Rightarrow> False | Some b \<Rightarrow> b)"

text \<open>The screening of one call after the checks for duplicates: \<open>Inl\<close> ends the loop. The orchestration
  context has been told of a subagent already.\<close>

definition screen_approval ::
    "('j, 'r) batch_env \<Rightarrow> nat \<Rightarrow> ToolCall \<Rightarrow> string \<Rightarrow> ToolCall list \<Rightarrow> 'r screen \<Rightarrow> 'r screen + 'r screen" where
  "screen_approval env i tc name rest sc =
     (let slot = slot_of env i sc
      in case tool_orchestration_check_approval (be_oks env i) (be_lib env) (be_fs env i) tc
                (sc_results sc ! slot) init_approved_path (sc_orch sc) of
           (approval, result, out_path, orch) \<Rightarrow>
             (let sc = sc\<lparr>sc_results := (sc_results sc)[slot := result], sc_orch := orch\<rparr>
              in if approval = -2
                 then
                   let results = (sc_results sc)
                         [slot := fill_error_result (be_oks env i 13) (tc_id tc) aborted_text (sc_results sc ! slot)];
                       sc = sc\<lparr>sc_status := -1, sc_results := results, sc_count := sc_count sc + 1\<rparr>
                   in Inl (if be_compact env then sc
                           else sc\<lparr>sc_results := fill_aborted env (Suc i) rest (sc_results sc),
                                   sc_count := i + 1 + length rest\<rparr>)
                 else if approval = -1 then Inr (sc\<lparr>sc_count := sc_count sc + 1\<rparr>)
                 else
                   Inr (sc\<lparr>sc_approved := sc_approved sc @
                             [\<lparr>pe_call_index = i, pe_slot = slot, pe_is_mcp = starts_with ''mcp_'' name,
                               pe_is_plugin = starts_with PLUGIN_TOOL_PREFIX name, pe_approved = True,
                               pe_thread_safe = thread_safe_tool (be_tools env) name,
                               pe_approved_path = (if ap_resolved_path out_path \<noteq> None then out_path
                                                   else init_approved_path),
                               pe_has_approved_path = (ap_resolved_path out_path \<noteq> None)\<rparr>],
                           sc_count := sc_count sc + 1\<rparr>)))"

text \<open>One round of the loop. \<open>rest\<close> are the calls after this one.\<close>

definition put_ctx :: "'r ToolOrchestrationContext \<Rightarrow> 'r screen \<Rightarrow> 'r screen" where
  "put_ctx ctx sc = sc\<lparr>sc_orch := (sc_orch sc)\<lparr>orch_ctx := ctx\<rparr>\<rparr>"

definition screen_spawn ::
    "('j, 'r) batch_env \<Rightarrow> nat \<Rightarrow> ToolCall \<Rightarrow> ToolCall list \<Rightarrow> 'r screen \<Rightarrow> ('r screen + 'r screen) option" where
  "screen_spawn env i tc rest sc =
     (let slot = slot_of env i sc
      in case tool_orchestration_can_spawn_subagent (orch_ctx (sc_orch sc)) (tc_name tc) of
           (False, ctx) \<Rightarrow>
             Some (Inr ((put_ctx ctx sc)\<lparr>sc_results := (sc_results sc)
                          [slot := fill_error_result (be_oks env i 13) (tc_id tc) duplicate_subagent_text
                                     (sc_results sc ! slot)],
                        sc_count := sc_count sc + 1\<rparr>))
         | (True, ctx) \<Rightarrow>
             (case tc_name tc of
                None \<Rightarrow> None
              | Some name \<Rightarrow> Some (screen_approval env i tc name rest (put_ctx ctx sc))))"

definition screen_call ::
    "('j, 'r) batch_env \<Rightarrow> nat \<Rightarrow> ToolCall \<Rightarrow> ToolCall list \<Rightarrow> 'r screen \<Rightarrow> ('r screen + 'r screen) option" where
  "screen_call env i tc rest sc =
     (if be_interrupt env i
      then Some (Inl (fill_remaining_interrupted env i (tc # rest) (sc\<lparr>sc_status := -2\<rparr>)))
      else if be_compact env
      then
        if tool_orchestration_is_duplicate (orch_ctx (sc_orch sc)) (tc_id tc) then Some (Inr sc)
        else case tool_orchestration_mark_executed (be_oks env i 12) (orch_ctx (sc_orch sc)) (tc_id tc) of
               (rc, ctx) \<Rightarrow>
                 if rc \<noteq> 0 then Some (Inr (put_ctx ctx sc))
                 else screen_spawn env i tc rest
                        ((put_ctx ctx sc)\<lparr>sc_indices := (sc_indices sc)[sc_count sc := i]\<rparr>)
      else screen_spawn env i tc rest sc)"

fun screen_loop :: "('j, 'r) batch_env \<Rightarrow> nat \<Rightarrow> ToolCall list \<Rightarrow> 'r screen \<Rightarrow> 'r screen option" where
  "screen_loop env i [] sc = Some sc"
| "screen_loop env i (tc # rest) sc =
     (case screen_call env i tc rest sc of
        None \<Rightarrow> None
      | Some (Inl sc) \<Rightarrow> Some sc
      | Some (Inr sc) \<Rightarrow> screen_loop env (Suc i) rest sc)"

section \<open>Execution\<close>

text \<open>The tools of the program, each with its return code, and the hooks of the plugins around them.\<close>

record ('j, 'w) executors =
  ex_mcp :: "file_context \<Rightarrow> ToolCall \<Rightarrow> ToolResult \<Rightarrow> 'w \<Rightarrow> int \<times> ToolResult \<times> 'w"
  ex_plugin :: "file_context \<Rightarrow> ToolCall \<Rightarrow> ToolResult \<Rightarrow> 'w \<Rightarrow> int \<times> ToolResult \<times> 'w"
  ex_tool :: "file_context \<Rightarrow> ToolCall \<Rightarrow> ToolResult \<Rightarrow> 'w \<Rightarrow> int \<times> ToolResult \<times> 'w"
  ex_exchange :: "('j, 'w) exchange"
  ex_plugins :: "PluginProcess list"

text \<open>Allocation sites: \<open>ok 0\<close> and \<open>oks 0\<close> belong to the first hook, \<open>ok 1\<close> to the error, \<open>ok 2\<close> and \<open>oks 1\<close>
  to the second hook, \<open>ok 3\<close> to the file context. The context belongs to the thread: it is empty when a
  call starts, and cleared when its tool has run.\<close>

definition execute_single_tool ::
    "(nat \<Rightarrow> alloc) \<Rightarrow> (nat \<Rightarrow> nat \<Rightarrow> alloc) \<Rightarrow> ('j, 'w) executors \<Rightarrow> 'j cjson \<Rightarrow> PreScreenEntry \<Rightarrow> ToolCall
     \<Rightarrow> ToolResult \<Rightarrow> 'w \<Rightarrow> ToolResult \<times> 'w" where
  "execute_single_tool ok oks ex js entry call result w =
     (case hook_dispatch_pre_tool_execute (ok 0) (oks 0) (ex_exchange ex) js (ex_plugins ex) call result w of
        (action, result, w) \<Rightarrow>
          if action = HOOK_STOP then (result, w)
          else
            let fc = (if pe_has_approved_path entry
                      then snd (verified_file_context_set (ok 3) (Some (pe_approved_path entry)) None) else None);
                (result, w) =
                  (if pe_is_mcp entry then snd (ex_mcp ex fc call result w)
                   else if pe_is_plugin entry then snd (ex_plugin ex fc call result w)
                   else case ex_tool ex fc call result w of
                          (rc, result, w) \<Rightarrow>
                            (if rc \<noteq> 0 then fill_error_result (ok 1) (tc_id call) ''Tool execution failed'' result
                             else result, w))
            in snd (hook_dispatch_post_tool_execute (ok 2) (oks 1) (ex_exchange ex) js (ex_plugins ex) call result w))"

text \<open>The entries one after the other; \<open>ok k\<close> and \<open>oks k\<close> have the sites of entry \<open>k\<close>.\<close>

fun execute_entries ::
    "(nat \<Rightarrow> nat \<Rightarrow> alloc) \<Rightarrow> (nat \<Rightarrow> nat \<Rightarrow> nat \<Rightarrow> alloc) \<Rightarrow> ('j, 'w) executors \<Rightarrow> 'j cjson \<Rightarrow> ToolCall list
     \<Rightarrow> (nat \<times> PreScreenEntry) list \<Rightarrow> ToolResult list \<Rightarrow> 'w \<Rightarrow> ToolResult list \<times> 'w" where
  "execute_entries ok oks ex js calls [] results w = (results, w)"
| "execute_entries ok oks ex js calls ((k, e) # es) results w =
     (case execute_single_tool (ok k) (oks k) ex js e (calls ! pe_call_index e) (results ! pe_slot e) w of
        (result, w) \<Rightarrow> execute_entries ok oks ex js calls es (results[pe_slot e := result]) w)"

definition use_parallel :: "PreScreenEntry list \<Rightarrow> bool" where
  "use_parallel approved \<longleftrightarrow> length approved \<ge> 2 \<and> list_all pe_thread_safe approved"

text \<open>The order of execution: that of the calls, or that in which the threads run.\<close>

definition execution_order :: "(nat \<Rightarrow> nat list) \<Rightarrow> PreScreenEntry list \<Rightarrow> (nat \<times> PreScreenEntry) list" where
  "execution_order sched approved =
     (if use_parallel approved then map (\<lambda>k. (k, approved ! k)) (sched (length approved))
      else map (\<lambda>k. (k, approved ! k)) [0..<length approved])"

text \<open>The result of a batch, with the entries that were executed.\<close>

record ('r, 'w) batch_result =
  bo_status :: int
  bo_results :: "ToolResult list"
  bo_indices :: "nat list"
  bo_count :: nat
  bo_orch :: "'r orch_state"
  bo_world :: 'w
  bo_executed :: "PreScreenEntry list"

text \<open>\<open>ok0\<close> has the sites of the refresh, \<open>ok1 0\<close> is the array of entries; \<open>late\<close> tells whether an interrupt
  is pending after execution. \<open>fs\<close> is the file system at the start.\<close>

definition tool_batch_execute ::
    "alloc \<Rightarrow> alloc \<Rightarrow> (nat \<Rightarrow> nat \<Rightarrow> alloc) \<Rightarrow> (nat \<Rightarrow> nat \<Rightarrow> nat \<Rightarrow> alloc) \<Rightarrow> ('j, 'r) batch_env \<Rightarrow> ('j, 'w) executors
     \<Rightarrow> (nat \<Rightarrow> nat list) \<Rightarrow> bool \<Rightarrow> fs_env \<Rightarrow> ToolCall list \<Rightarrow> ToolResult list \<Rightarrow> nat list \<Rightarrow> 'r orch_state \<Rightarrow> 'w
     \<Rightarrow> ('r, 'w) batch_result option" where
  "tool_batch_execute ok0 ok1 okx oksx env ex sched late fs calls results indices orch w =
     (let orch = orch\<lparr>orch_protected := force_protected_inode_refresh ok0 fs (orch_protected orch)\<rparr>
      in if \<not> ok1 0
         then Some \<lparr>bo_status = -1, bo_results = results, bo_indices = indices, bo_count = 0, bo_orch = orch,
                    bo_world = w, bo_executed = []\<rparr>
         else
           case screen_loop env 0 calls
                  \<lparr>sc_orch = orch, sc_results = results, sc_indices = indices, sc_count = 0, sc_approved = [],
                   sc_status = 0\<rparr> of
             None \<Rightarrow> None
           | Some sc \<Rightarrow>
               if sc_status sc \<noteq> 0 \<or> sc_approved sc = []
               then Some \<lparr>bo_status = sc_status sc, bo_results = sc_results sc, bo_indices = sc_indices sc,
                          bo_count = sc_count sc, bo_orch = sc_orch sc, bo_world = w, bo_executed = []\<rparr>
               else
                 let order = execution_order sched (sc_approved sc)
                 in case execute_entries okx oksx ex (ol_json (be_lib env)) calls order (sc_results sc) w of
                      (results, w) \<Rightarrow>
                        Some \<lparr>bo_status = (if late then -2 else sc_status sc), bo_results = results,
                              bo_indices = sc_indices sc, bo_count = sc_count sc, bo_orch = sc_orch sc,
                              bo_world = w, bo_executed = map snd order\<rparr>)"

section \<open>Lemmas\<close>

subsection \<open>The gate during a batch\<close>

text \<open>The switch and the categories of the gate stay what they are.\<close>

definition gate_kept :: "'r ApprovalGateConfig \<Rightarrow> 'r orch_state \<Rightarrow> bool" where
  "gate_kept c st \<longleftrightarrow>
     (\<exists>c'. oc_gate_config (orch_ctx st) = Some c' \<and> enabled c' = enabled c \<and> categories c' = categories c)"

lemma track_denial_fields [simp]:
  "enabled (track_denial ok now c tc) = enabled c" "categories (track_denial ok now c tc) = categories c"
  by (simp_all add: track_denial_def split: option.split)

lemma remember_approval_fields [simp]:
  "enabled (remember_approval oks lib tc c) = enabled c" "categories (remember_approval oks lib tc c) = categories c"
proof -
  have "extends c (remember_approval oks lib tc c)"
    by (auto simp: remember_approval_def apply_generated_pattern_def Let_def split: option.split)
  then show "enabled (remember_approval oks lib tc c) = enabled c"
    "categories (remember_approval oks lib tc c) = categories c"
    by (simp_all add: extends_def)
qed

lemma check_approval_keeps:
  assumes "tool_orchestration_check_approval oks lib fs tc result out st = (a, result', out', st')"
  shows "(gate_kept c st \<longrightarrow> gate_kept c st') \<and>
    oc_subagent_spawned (orch_ctx st') = oc_subagent_spawned (orch_ctx st) \<and>
    oc_executed_tracker (orch_ctx st') = oc_executed_tracker (orch_ctx st)"
proof (cases "check_protected oks (ol_json lib) fs tc (orch_protected st)")
  case prot: (Pair blocked ps)
  show ?thesis
  proof (cases "blocked \<noteq> None \<or> oc_gate_config (orch_ctx st) = None")
    case True
    with assms prot show ?thesis
      by (auto simp: tool_orchestration_check_approval_def gate_kept_def split: option.splits)
  next
    case False
    then obtain g where g: "blocked = None" "oc_gate_config (orch_ctx st) = Some g" by auto
    obtain r g' io where chk: "check_approval_gate (oks 3) (oks 4) (ol_json lib) (ol_regex lib) (ol_callbacks lib)
        (ol_shell lib) (orch_io st) g tc = (r, g', io)"
      by (rule prod_cases3)
    have "enabled g' = enabled g" "categories g' = categories g"
      using check_gate_config[OF chk] by auto
    with assms prot g chk show ?thesis
      by (cases r) (auto simp: tool_orchestration_check_approval_def gate_kept_def Let_def split: if_splits)
  qed
qed

lemma check_approval_values:
  assumes "tool_orchestration_check_approval oks lib fs tc result out st = (a, rest)"
  shows "a = 0 \<or> a = -1 \<or> a = -2"
proof (cases "check_protected oks (ol_json lib) fs tc (orch_protected st)")
  case prot: (Pair blocked ps)
  show ?thesis
  proof (cases "blocked \<noteq> None \<or> oc_gate_config (orch_ctx st) = None")
    case True
    with assms prot show ?thesis
      by (auto simp: tool_orchestration_check_approval_def split: option.splits if_splits)
  next
    case False
    then obtain g where g: "blocked = None" "oc_gate_config (orch_ctx st) = Some g" by auto
    obtain r g' io where chk: "check_approval_gate (oks 3) (oks 4) (ol_json lib) (ol_regex lib) (ol_callbacks lib)
        (ol_shell lib) (orch_io st) g tc = (r, g', io)"
      by (rule prod_cases3)
    with assms prot g show ?thesis
      by (cases r) (auto simp: tool_orchestration_check_approval_def Let_def split: if_splits)
  qed
qed

subsection \<open>One call\<close>

text \<open>A gate that was on, or absent, at the start still is; and that a call passed the check of the
  orchestration at such a state.\<close>

definition same_gate :: "'r ApprovalGateConfig option \<Rightarrow> 'r orch_state \<Rightarrow> bool" where
  "same_gate g st \<longleftrightarrow> (\<forall>c. g = Some c \<longrightarrow> gate_kept c st)"

definition cleared ::
    "('j, 'r) batch_env \<Rightarrow> 'r ApprovalGateConfig option \<Rightarrow> nat \<Rightarrow> ToolCall \<Rightarrow> bool" where
  "cleared env g i tc \<longleftrightarrow>
     (\<exists>result out st rest. same_gate g st \<and>
        tool_orchestration_check_approval (be_oks env i) (be_lib env) (be_fs env i) tc result out st = (0, rest))"

text \<open>What a round that does not end the loop does: it clears the call or leaves it out.\<close>

definition round_ok ::
    "('j, 'r) batch_env \<Rightarrow> 'r ApprovalGateConfig option \<Rightarrow> nat \<Rightarrow> ToolCall \<Rightarrow> 'r screen \<Rightarrow> 'r screen \<Rightarrow> bool" where
  "round_ok env g i tc sc sc' \<longleftrightarrow>
     sc_status sc' = sc_status sc \<and> (same_gate g (sc_orch sc) \<longrightarrow> same_gate g (sc_orch sc')) \<and>
     sc_count sc \<le> sc_count sc' \<and>
     (oc_subagent_spawned (orch_ctx (sc_orch sc)) \<longrightarrow> oc_subagent_spawned (orch_ctx (sc_orch sc'))) \<and>
     set (oc_executed_tracker (orch_ctx (sc_orch sc))) \<subseteq> set (oc_executed_tracker (orch_ctx (sc_orch sc'))) \<and>
     (sc_approved sc' = sc_approved sc \<or>
      (\<exists>e. sc_approved sc' = sc_approved sc @ [e] \<and> pe_call_index e = i \<and> pe_slot e = slot_of env i sc \<and>
         sc_count sc' = sc_count sc + 1 \<and> (same_gate g (sc_orch sc) \<longrightarrow> cleared env g i tc) \<and>
         (tc_name tc = Some ''subagent'' \<longrightarrow>
            \<not> oc_subagent_spawned (orch_ctx (sc_orch sc)) \<and> oc_subagent_spawned (orch_ctx (sc_orch sc'))) \<and>
         (be_compact env \<longrightarrow>
            (\<exists>d. tc_id tc = Some d \<and> d \<notin> set (oc_executed_tracker (orch_ctx (sc_orch sc))) \<and>
                 d \<in> set (oc_executed_tracker (orch_ctx (sc_orch sc')))))))"

text \<open>The same after the marking, where the name is checked only.\<close>

lemma screen_approval_cases:
  assumes "screen_approval env i tc name rest sc = x"
  shows "case x of
    Inl sc' \<Rightarrow> sc_status sc' = -1
  | Inr sc' \<Rightarrow> sc_status sc' = sc_status sc \<and> (same_gate g (sc_orch sc) \<longrightarrow> same_gate g (sc_orch sc')) \<and>
      sc_count sc' = sc_count sc + 1 \<and>
      oc_subagent_spawned (orch_ctx (sc_orch sc')) = oc_subagent_spawned (orch_ctx (sc_orch sc)) \<and>
      oc_executed_tracker (orch_ctx (sc_orch sc')) = oc_executed_tracker (orch_ctx (sc_orch sc)) \<and>
      (sc_approved sc' = sc_approved sc \<or>
       (\<exists>e. sc_approved sc' = sc_approved sc @ [e] \<and> pe_call_index e = i \<and> pe_slot e = slot_of env i sc \<and>
          (same_gate g (sc_orch sc) \<longrightarrow> cleared env g i tc)))"
proof -
  obtain a r out st' where chk: "tool_orchestration_check_approval (be_oks env i) (be_lib env) (be_fs env i) tc
      (sc_results sc ! slot_of env i sc) init_approved_path (sc_orch sc) = (a, r, out, st')"
    by (rule prod_cases4)
  note keeps = check_approval_keeps[OF chk]
  have gate: "same_gate g (sc_orch sc) \<longrightarrow> same_gate g st'"
    using keeps by (auto simp: same_gate_def)
  from check_approval_values[OF chk] consider "a = -2" | "a = -1" | "a = 0" by blast
  then show ?thesis
  proof cases
    case 3
    have "same_gate g (sc_orch sc) \<longrightarrow> cleared env g i tc"
      using chk 3 unfolding cleared_def by blast
    with 3 assms chk keeps gate show ?thesis
      by (auto simp: screen_approval_def Let_def)
  qed (use assms chk keeps gate in \<open>auto simp: screen_approval_def Let_def\<close>)
qed

lemma put_ctx_fields [simp]:
  "sc_status (put_ctx ctx sc) = sc_status sc" "sc_count (put_ctx ctx sc) = sc_count sc"
  "sc_approved (put_ctx ctx sc) = sc_approved sc" "sc_results (put_ctx ctx sc) = sc_results sc"
  "orch_ctx (sc_orch (put_ctx ctx sc)) = ctx" "slot_of env i (put_ctx ctx sc) = slot_of env i sc"
  by (simp_all add: put_ctx_def slot_of_def)

lemma same_gate_put_ctx [simp]:
  "oc_gate_config ctx = oc_gate_config (orch_ctx (sc_orch sc)) \<Longrightarrow>
    same_gate g (sc_orch (put_ctx ctx sc)) = same_gate g (sc_orch sc)"
  by (simp add: same_gate_def gate_kept_def put_ctx_def)

lemma can_spawn_cases:
  assumes "tool_orchestration_can_spawn_subagent ctx name = (b, ctx')"
  shows "oc_gate_config ctx' = oc_gate_config ctx \<and> oc_executed_tracker ctx' = oc_executed_tracker ctx \<and>
    (oc_subagent_spawned ctx \<longrightarrow> oc_subagent_spawned ctx') \<and>
    (b \<longrightarrow> name = Some ''subagent'' \<longrightarrow> \<not> oc_subagent_spawned ctx \<and> oc_subagent_spawned ctx')"
  using assms by (auto simp: tool_orchestration_can_spawn_subagent_def split: option.splits if_splits)

lemma mark_executed_cases:
  assumes "tool_orchestration_mark_executed ok ctx d = (rc, ctx')"
  shows "rc \<noteq> 0 \<and> ctx' = ctx \<or>
    rc = 0 \<and> (\<exists>i. d = Some i \<and> ctx' = ctx\<lparr>oc_executed_tracker := oc_executed_tracker ctx @ [i]\<rparr>)"
  using assms by (auto simp: tool_orchestration_mark_executed_def split: option.splits if_splits)

lemma screen_spawn_cases:
  assumes "screen_spawn env i tc rest sc = Some x"
  shows "case x of
    Inl sc' \<Rightarrow> sc_status sc' = -1
  | Inr sc' \<Rightarrow> sc_status sc' = sc_status sc \<and> (same_gate g (sc_orch sc) \<longrightarrow> same_gate g (sc_orch sc')) \<and>
      sc_count sc' = sc_count sc + 1 \<and>
      (oc_subagent_spawned (orch_ctx (sc_orch sc)) \<longrightarrow> oc_subagent_spawned (orch_ctx (sc_orch sc'))) \<and>
      oc_executed_tracker (orch_ctx (sc_orch sc')) = oc_executed_tracker (orch_ctx (sc_orch sc)) \<and>
      (sc_approved sc' = sc_approved sc \<or>
       (\<exists>e. sc_approved sc' = sc_approved sc @ [e] \<and> pe_call_index e = i \<and> pe_slot e = slot_of env i sc \<and>
          (same_gate g (sc_orch sc) \<longrightarrow> cleared env g i tc) \<and>
          (tc_name tc = Some ''subagent'' \<longrightarrow>
            \<not> oc_subagent_spawned (orch_ctx (sc_orch sc)) \<and> oc_subagent_spawned (orch_ctx (sc_orch sc')))))"
proof (cases "tool_orchestration_can_spawn_subagent (orch_ctx (sc_orch sc)) (tc_name tc)")
  case (Pair b ctx)
  note can = can_spawn_cases[OF Pair]
  show ?thesis
  proof (cases b)
    case False
    with assms Pair can show ?thesis by (auto simp: screen_spawn_def Let_def)
  next
    case True
    with assms Pair obtain name where x: "tc_name tc = Some name"
        "screen_approval env i tc name rest (put_ctx ctx sc) = x"
      by (auto simp: screen_spawn_def split: option.splits)
    from screen_approval_cases[OF x(2), of g] can True show ?thesis
      by (cases x) auto
  qed
qed

lemma fill_remaining_status [simp]:
  "sc_status (fill_remaining_interrupted env j tcs sc) = sc_status sc"
  by (induction env j tcs sc rule: fill_remaining_interrupted.induct) (simp_all add: Let_def)

lemma screen_call_cases:
  assumes "screen_call env i tc rest sc = Some x"
  shows "case x of Inl sc' \<Rightarrow> sc_status sc' \<noteq> 0 | Inr sc' \<Rightarrow> round_ok env g i tc sc sc'"
proof -
  let ?dup = "tool_orchestration_is_duplicate (orch_ctx (sc_orch sc)) (tc_id tc)"
  consider "be_interrupt env i" | "\<not> be_interrupt env i" "\<not> be_compact env"
    | "\<not> be_interrupt env i" "be_compact env" "?dup" | "\<not> be_interrupt env i" "be_compact env" "\<not> ?dup"
    by blast
  then show ?thesis
  proof cases
    case 2
    with assms have "screen_spawn env i tc rest sc = Some x" by (simp add: screen_call_def)
    from screen_spawn_cases[OF this, of g] 2 show ?thesis
      by (cases x) (auto simp: round_ok_def)
  next
    case 4
    obtain rc ctx where mk: "tool_orchestration_mark_executed (be_oks env i 12) (orch_ctx (sc_orch sc)) (tc_id tc) = (rc, ctx)"
      by (rule prod.exhaust)
    show ?thesis
    proof (cases "rc = 0")
      case False
      with mark_executed_cases[OF mk] assms 4 mk show ?thesis
        by (auto simp: screen_call_def round_ok_def)
    next
      case True
      with mark_executed_cases[OF mk] obtain d where d: "tc_id tc = Some d"
          "ctx = (orch_ctx (sc_orch sc))\<lparr>oc_executed_tracker := oc_executed_tracker (orch_ctx (sc_orch sc)) @ [d]\<rparr>"
        by auto
      from 4(3) d have new: "d \<notin> set (oc_executed_tracker (orch_ctx (sc_orch sc)))"
        by (auto simp: tool_orchestration_is_duplicate_def list_ex_iff)
      let ?sc = "(put_ctx ctx sc)\<lparr>sc_indices := (sc_indices sc)[sc_count sc := i]\<rparr>"
      have sp: "screen_spawn env i tc rest ?sc = Some x"
        using assms 4 mk True by (simp add: screen_call_def)
      have f: "same_gate g (sc_orch ?sc) = same_gate g (sc_orch sc)" "slot_of env i ?sc = slot_of env i sc"
          "orch_ctx (sc_orch ?sc) = ctx"
        using d by (simp_all add: slot_of_def)
      from screen_spawn_cases[OF sp, of g, unfolded f] d new show ?thesis
        by (cases x) (auto simp: round_ok_def)
    qed
  qed (use assms in \<open>auto simp: screen_call_def round_ok_def Let_def\<close>)
qed

subsection \<open>The loop\<close>

definition is_subagent :: "ToolCall list \<Rightarrow> PreScreenEntry \<Rightarrow> bool" where
  "is_subagent calls e \<longleftrightarrow> tc_name (calls ! pe_call_index e) = Some ''subagent''"

text \<open>What holds before call \<open>i\<close>, with the context the batch started with.\<close>

definition approved_ok ::
    "('j, 'r) batch_env \<Rightarrow> 'r ToolOrchestrationContext \<Rightarrow> ToolCall list \<Rightarrow> nat \<Rightarrow> 'r screen \<Rightarrow> PreScreenEntry \<Rightarrow> bool" where
  "approved_ok env ctx calls i sc e \<longleftrightarrow>
     pe_call_index e < i \<and> cleared env (oc_gate_config ctx) (pe_call_index e) (calls ! pe_call_index e) \<and>
     (if be_compact env
      then pe_slot e < sc_count sc \<and>
        (\<exists>d. tc_id (calls ! pe_call_index e) = Some d \<and> d \<notin> set (oc_executed_tracker ctx) \<and>
            d \<in> set (oc_executed_tracker (orch_ctx (sc_orch sc))))
      else pe_slot e = pe_call_index e)"

definition entries_distinct :: "bool \<Rightarrow> ToolCall list \<Rightarrow> PreScreenEntry list \<Rightarrow> bool" where
  "entries_distinct compact calls es \<longleftrightarrow>
     distinct (map pe_call_index es) \<and> distinct (map pe_slot es) \<and>
     (compact \<longrightarrow> distinct (map (\<lambda>e. tc_id (calls ! pe_call_index e)) es))"

definition screen_inv ::
    "('j, 'r) batch_env \<Rightarrow> 'r ToolOrchestrationContext \<Rightarrow> ToolCall list \<Rightarrow> nat \<Rightarrow> 'r screen \<Rightarrow> bool" where
  "screen_inv env ctx calls i sc \<longleftrightarrow>
     same_gate (oc_gate_config ctx) (sc_orch sc) \<and>
     (\<forall>e \<in> set (sc_approved sc). approved_ok env ctx calls i sc e) \<and>
     entries_distinct (be_compact env) calls (sc_approved sc) \<and>
     set (oc_executed_tracker ctx) \<subseteq> set (oc_executed_tracker (orch_ctx (sc_orch sc))) \<and>
     length (filter (is_subagent calls) (sc_approved sc)) + of_bool (oc_subagent_spawned ctx)
       \<le> (of_bool (oc_subagent_spawned (orch_ctx (sc_orch sc))) :: nat)"

lemma approved_ok_mono:
  assumes "round_ok env g i tc sc sc'" and "approved_ok env ctx calls i sc e"
  shows "approved_ok env ctx calls (Suc i) sc' e"
proof -
  have "sc_count sc \<le> sc_count sc'"
      "set (oc_executed_tracker (orch_ctx (sc_orch sc))) \<subseteq> set (oc_executed_tracker (orch_ctx (sc_orch sc')))"
    using assms(1) unfolding round_ok_def by blast+
  with assms(2) show ?thesis
    by (cases "be_compact env") (auto simp: approved_ok_def less_Suc_eq)
qed

lemma approved_ok_Suc: "approved_ok env ctx calls i sc e \<Longrightarrow> i \<le> j \<Longrightarrow> approved_ok env ctx calls j sc e"
  by (auto simp: approved_ok_def)

lemma screen_inv_round:
  assumes "screen_inv env ctx calls i sc" and "round_ok env (oc_gate_config ctx) i (calls ! i) sc sc'"
  shows "screen_inv env ctx calls (Suc i) sc'"
proof -
  have old: "\<forall>e \<in> set (sc_approved sc). approved_ok env ctx calls (Suc i) sc' e"
    using assms approved_ok_mono[OF assms(2)] by (simp add: screen_inv_def)
  have before: "entries_distinct (be_compact env) calls (sc_approved sc)"
      "\<forall>e \<in> set (sc_approved sc). approved_ok env ctx calls i sc e"
      "length (filter (is_subagent calls) (sc_approved sc)) + of_bool (oc_subagent_spawned ctx)
       \<le> (of_bool (oc_subagent_spawned (orch_ctx (sc_orch sc))) :: nat)"
      "same_gate (oc_gate_config ctx) (sc_orch sc)"
    using assms(1) unfolding screen_inv_def by blast+
  have rest: "same_gate (oc_gate_config ctx) (sc_orch sc')"
      "set (oc_executed_tracker ctx) \<subseteq> set (oc_executed_tracker (orch_ctx (sc_orch sc')))"
      "of_bool (oc_subagent_spawned (orch_ctx (sc_orch sc))) \<le> (of_bool (oc_subagent_spawned (orch_ctx (sc_orch sc'))) :: nat)"
    using assms unfolding round_ok_def screen_inv_def by auto
  show ?thesis
  proof (cases "sc_approved sc' = sc_approved sc")
    case True
    with old before rest(1,2) order_trans[OF before(3) rest(3)] show ?thesis
      unfolding screen_inv_def by simp
  next
    case False
    with assms(2) before(4) obtain e where e: "sc_approved sc' = sc_approved sc @ [e]" "pe_call_index e = i"
        "pe_slot e = slot_of env i sc" "sc_count sc' = sc_count sc + 1" "cleared env (oc_gate_config ctx) i (calls ! i)"
      and sub: "is_subagent calls e \<longrightarrow>
        \<not> oc_subagent_spawned (orch_ctx (sc_orch sc)) \<and> oc_subagent_spawned (orch_ctx (sc_orch sc'))"
      and d: "be_compact env \<longrightarrow> (\<exists>d. tc_id (calls ! i) = Some d \<and>
        d \<notin> set (oc_executed_tracker (orch_ctx (sc_orch sc))) \<and> d \<in> set (oc_executed_tracker (orch_ctx (sc_orch sc'))))"
      unfolding round_ok_def is_subagent_def by blast
    have tr: "set (oc_executed_tracker ctx) \<subseteq> set (oc_executed_tracker (orch_ctx (sc_orch sc)))"
      using assms(1) by (simp add: screen_inv_def)
    have "approved_ok env ctx calls (Suc i) sc' e"
      using e d tr by (auto simp: approved_ok_def slot_of_def)
    moreover have "entries_distinct (be_compact env) calls (sc_approved sc')"
      using before(1,2) e d by (cases "be_compact env") (fastforce simp: entries_distinct_def approved_ok_def slot_of_def)+
    moreover have "length (filter (is_subagent calls) (sc_approved sc')) + of_bool (oc_subagent_spawned ctx)
       \<le> (of_bool (oc_subagent_spawned (orch_ctx (sc_orch sc'))) :: nat)"
      using before(3) sub rest(3) e(1)
      by (cases "is_subagent calls e"; cases "oc_subagent_spawned (orch_ctx (sc_orch sc))";
          cases "oc_subagent_spawned ctx") auto
    ultimately show ?thesis
      using old rest(1,2) e(1) by (auto simp: screen_inv_def)
  qed
qed

lemma screen_loop_inv:
  assumes "screen_loop env i (drop i calls) sc = Some sc'" and "screen_inv env ctx calls i sc" and "sc_status sc = 0"
    and "i \<le> length calls" and "sc_status sc' = 0"
  shows "screen_inv env ctx calls (length calls) sc'"
  using assms
proof (induction "drop i calls" arbitrary: i sc)
  case Nil
  then show ?case by (auto simp: screen_inv_def Nil.hyps[symmetric] intro: approved_ok_Suc)
next
  case (Cons tc rest)
  then have i: "i < length calls" "tc = calls ! i" "rest = drop (Suc i) calls"
    by (metis drop_all linorder_not_le list.distinct(1), metis hd_drop_conv_nth drop_all linorder_not_le list.distinct(1) list.sel(1),
        metis drop_Suc list.sel(3) tl_drop)
  from Cons.prems(1) Cons.hyps(2)[symmetric] obtain x where x: "screen_call env i tc rest sc = Some x"
      "case x of Inl s \<Rightarrow> sc' = s | Inr s \<Rightarrow> screen_loop env (Suc i) rest s = Some sc'"
    by (auto split: option.splits sum.splits)
  note c = screen_call_cases[OF x(1), of "oc_gate_config ctx"]
  show ?case
  proof (cases x)
    case (Inl s)
    with c x(2) Cons.prems(5) show ?thesis by simp
  next
    case (Inr s)
    with c x(2) i Cons.prems screen_inv_round[of env ctx calls i sc s] show ?thesis
      by (intro Cons.hyps(1)[of "Suc i" s]) (auto simp: round_ok_def)
  qed
qed

subsection \<open>The batch\<close>

lemma mset_nth_map: "mset ks = mset [0..<length xs] \<Longrightarrow> mset (map ((!) xs) ks) = mset xs"
  by (metis map_nth mset_map)

lemma execution_order_mset:
  assumes "mset (sched (length es)) = mset [0..<length es]"
  shows "mset (map snd (execution_order sched es)) = mset es"
proof -
  have "map snd (execution_order sched es) =
      map ((!) es) (if use_parallel es then sched (length es) else [0..<length es])"
    by (simp add: execution_order_def)
  with mset_nth_map[OF assms] show ?thesis by (simp add: map_nth del: mset_map)
qed

lemma distinct_map_mset: "mset xs = mset ys \<Longrightarrow> distinct (map f xs) = distinct (map f ys)"
  by (metis mset_eq_imp_distinct_iff mset_map)

lemma screen_inv_start:
  "screen_inv env (orch_ctx orch) calls 0
     \<lparr>sc_orch = orch\<lparr>orch_protected := ps\<rparr>, sc_results = results, sc_indices = indices, sc_count = 0, sc_approved = [],
      sc_status = 0\<rparr>"
  by (simp add: screen_inv_def same_gate_def gate_kept_def entries_distinct_def)

text \<open>Either nothing was executed and the world is untouched, or all calls were screened.\<close>

lemma batch_executed:
  assumes "tool_batch_execute ok0 ok1 okx oksx env ex sched late fs calls results indices orch w = Some out"
    and "\<forall>n. mset (sched n) = mset [0..<n]"
  shows "bo_executed out = [] \<and> bo_world out = w \<or>
    (\<exists>sc. screen_inv env (orch_ctx orch) calls (length calls) sc \<and> mset (bo_executed out) = mset (sc_approved sc))"
proof -
  let ?orch = "orch\<lparr>orch_protected := force_protected_inode_refresh ok0 fs (orch_protected orch)\<rparr>"
  let ?sc = "\<lparr>sc_orch = ?orch, sc_results = results, sc_indices = indices, sc_count = 0, sc_approved = [],
     sc_status = 0\<rparr>"
  have start: "screen_inv env (orch_ctx orch) calls 0 ?sc"
    using screen_inv_start[of env orch calls] by simp
  show ?thesis
  proof (cases "bo_executed out = [] \<and> bo_world out = w")
    case False
    with assms(1) obtain sc where sc: "screen_loop env 0 calls ?sc = Some sc" "sc_status sc = 0"
        "bo_executed out = map snd (execution_order sched (sc_approved sc))"
      by (auto simp: tool_batch_execute_def Let_def split: if_splits option.splits prod.splits)
    have "screen_inv env (orch_ctx orch) calls (length calls) sc"
      using screen_loop_inv[OF _ start, of sc] sc by simp
    with sc(3) execution_order_mset[of sched "sc_approved sc"] assms(2) show ?thesis by auto
  qed blast
qed

lemma batch_idle:
  assumes "tool_batch_execute ok0 ok1 okx oksx env ex sched late fs calls results indices orch w = Some out"
    and "bo_executed out = []"
  shows "bo_world out = w"
  using assms
  by (auto simp: tool_batch_execute_def Let_def split: if_splits option.splits prod.splits)

subsection \<open>Threads\<close>

text \<open>The results alone, when no tool looks at the world.\<close>

definition put_result ::
    "(nat \<Rightarrow> nat \<Rightarrow> alloc) \<Rightarrow> (nat \<Rightarrow> nat \<Rightarrow> nat \<Rightarrow> alloc) \<Rightarrow> ('j, 'w) executors \<Rightarrow> 'j cjson \<Rightarrow> ToolCall list \<Rightarrow> 'w
     \<Rightarrow> nat \<times> PreScreenEntry \<Rightarrow> ToolResult list \<Rightarrow> ToolResult list" where
  "put_result ok oks ex js calls w ke rs =
     (let (k, e) = ke
      in rs[pe_slot e := fst (execute_single_tool (ok k) (oks k) ex js e (calls ! pe_call_index e) (rs ! pe_slot e) w)])"

definition worldless ::
    "(nat \<Rightarrow> nat \<Rightarrow> alloc) \<Rightarrow> (nat \<Rightarrow> nat \<Rightarrow> nat \<Rightarrow> alloc) \<Rightarrow> ('j, 'w) executors \<Rightarrow> 'j cjson \<Rightarrow> bool" where
  "worldless ok oks ex js \<longleftrightarrow>
     (\<forall>k e call r w w'. fst (execute_single_tool (ok k) (oks k) ex js e call r w) =
        fst (execute_single_tool (ok k) (oks k) ex js e call r w'))"

lemma execute_entries_fold:
  assumes "worldless ok oks ex js"
  shows "fst (execute_entries ok oks ex js calls kes rs w) = fold (put_result ok oks ex js calls w0) kes rs"
proof (induction kes arbitrary: rs w)
  case (Cons ke kes)
  obtain k e where ke: "ke = (k, e)" by (rule prod.exhaust)
  obtain r w' where x: "execute_single_tool (ok k) (oks k) ex js e (calls ! pe_call_index e) (rs ! pe_slot e) w = (r, w')"
    by (rule prod.exhaust)
  have "fst (execute_single_tool (ok k) (oks k) ex js e (calls ! pe_call_index e) (rs ! pe_slot e) w0) = r"
    using assms x unfolding worldless_def by (metis fst_conv)
  with Cons.IH[of "rs[pe_slot e := r]" w'] x show ?case by (simp add: ke put_result_def)
qed simp

lemma put_result_commute:
  assumes "pe_slot (snd x) \<noteq> pe_slot (snd y)"
  shows "put_result ok oks ex js calls w x \<circ> put_result ok oks ex js calls w y =
    put_result ok oks ex js calls w y \<circ> put_result ok oks ex js calls w x"
  using assms by (auto simp: put_result_def fun_eq_iff list_update_swap split: prod.split)

lemma execution_order_results:
  assumes "worldless ok oks ex js" and "mset (sched (length es)) = mset [0..<length es]" and "distinct (map pe_slot es)"
  shows "fst (execute_entries ok oks ex js calls (execution_order sched es) rs w) =
    fst (execute_entries ok oks ex js calls (execution_order (\<lambda>n. [0..<n]) es) rs w)"
proof -
  let ?o = "execution_order sched es" and ?o' = "execution_order (\<lambda>n. [0..<n]) es"
  have m: "mset ?o = mset ?o'"
    using assms(2) by (simp add: execution_order_def)
  have set: "set ?o' = (\<lambda>k. (k, es ! k)) ` {0..<length es}"
    by (auto simp: execution_order_def)
  have "put_result ok oks ex js calls w x \<circ> put_result ok oks ex js calls w y =
      put_result ok oks ex js calls w y \<circ> put_result ok oks ex js calls w x" if "x \<in> set ?o'" "y \<in> set ?o'" for x y
  proof (cases "x = y")
    case False
    from that set obtain i j where ij: "x = (i, es ! i)" "y = (j, es ! j)" "i < length es" "j < length es"
      by auto
    with False assms(3) have "pe_slot (snd x) \<noteq> pe_slot (snd y)"
      using nth_eq_iff_index_eq[of "map pe_slot es" i j] by auto
    then show ?thesis by (rule put_result_commute)
  qed simp
  then have "fold (put_result ok oks ex js calls w) ?o' = fold (put_result ok oks ex js calls w) ?o"
    using m by (intro fold_multiset_equiv) (auto dest: mset_eq_setD)
  then show ?thesis by (simp add: execute_entries_fold[OF assms(1), of _ _ _ _ w])
qed

text \<open>Why a call passed the check, with the gate of the start.\<close>

lemma cleared_reason:
  fixes env :: "('j, 'r) batch_env"
  assumes "cleared env g i tc"
  shows "\<exists>st :: 'r orch_state. fst (check_protected (be_oks env i) (ol_json (be_lib env)) (be_fs env i) tc (orch_protected st)) = None \<and>
      (\<forall>c. g = Some c \<longrightarrow> enabled c \<longrightarrow>
        categories c (get_tool_category (ol_callbacks (be_lib env)) (tc_name tc)) \<noteq> GATE_ACTION_DENY \<and>
        (\<exists>c'. oc_gate_config (orch_ctx st) = Some c' \<and> categories c' = categories c \<and>
           gate_reason (be_oks env i 3) (be_oks env i 4) (be_lib env) (orch_io st) c' tc))"
proof -
  from assms obtain result out st result' out' st' where st: "same_gate g st"
      "tool_orchestration_check_approval (be_oks env i) (be_lib env) (be_fs env i) tc result out st =
        (0, result', out', st')"
    by (auto simp: cleared_def)
  note z = check_approval_zero[OF st(2)]
  have "categories c (get_tool_category (ol_callbacks (be_lib env)) (tc_name tc)) \<noteq> GATE_ACTION_DENY \<and>
      (\<exists>c'. oc_gate_config (orch_ctx st) = Some c' \<and> categories c' = categories c \<and>
         gate_reason (be_oks env i 3) (be_oks env i 4) (be_lib env) (orch_io st) c' tc)"
    if c: "g = Some c" "enabled c" for c
  proof -
    from st(1) c obtain c' where c': "oc_gate_config (orch_ctx st) = Some c'" "enabled c'" "categories c' = categories c"
      by (auto simp: same_gate_def gate_kept_def)
    with z have "gate_reason (be_oks env i 3) (be_oks env i 4) (be_lib env) (orch_io st) c' tc" by blast
    with c' show ?thesis by (auto simp: gate_reason_def action_for_def)
  qed
  with z show ?thesis by blast
qed

text \<open>A batch that ends well has screened all calls.\<close>

lemma batch_completed:
  assumes "tool_batch_execute ok0 ok1 okx oksx env ex sched late fs calls results indices orch w = Some out"
    and "\<forall>n. mset (sched n) = mset [0..<n]" and "bo_status out = 0"
  shows "\<exists>sc. screen_inv env (orch_ctx orch) calls (length calls) sc \<and> mset (bo_executed out) = mset (sc_approved sc) \<and>
    bo_orch out = sc_orch sc"
proof -
  let ?orch = "orch\<lparr>orch_protected := force_protected_inode_refresh ok0 fs (orch_protected orch)\<rparr>"
  let ?sc = "\<lparr>sc_orch = ?orch, sc_results = results, sc_indices = indices, sc_count = 0, sc_approved = [],
     sc_status = 0\<rparr>"
  from assms(1,3) obtain sc where sc: "screen_loop env 0 calls ?sc = Some sc" "sc_status sc = 0" "bo_orch out = sc_orch sc"
      "sc_approved sc = [] \<and> bo_executed out = [] \<or> bo_executed out = map snd (execution_order sched (sc_approved sc))"
    by (auto simp: tool_batch_execute_def Let_def split: if_splits option.splits prod.splits)
  have "screen_inv env (orch_ctx orch) calls (length calls) sc"
    using screen_loop_inv[OF _ screen_inv_start[of env orch calls], of _ _ _ sc] sc by simp
  with sc(3,4) execution_order_mset[of sched "sc_approved sc"] assms(2) show ?thesis by auto
qed

section \<open>Properties\<close>

text \<open>Only what was approved is executed. If a call of the batch is executed, then it is a call of the
  batch that passed the check of the orchestration, at a state of the gate that is on or off as at the
  start and has the same categories: it is not a write to a protected file, and where a gate is on
  its category is not denied and there is a reason for the gate to let it pass. If nothing is
  executed, as when the user aborted or interrupted the screening, the world is untouched.\<close>

theorem batch_executes_only_approved:
  assumes "tool_batch_execute ok0 ok1 okx oksx env ex sched late fs calls results indices orch w = Some out"
    and "\<forall>n. mset (sched n) = mset [0..<n]"
  shows "(bo_executed out = [] \<longrightarrow> bo_world out = w) \<and>
    (\<forall>e \<in> set (bo_executed out). pe_call_index e < length calls \<and>
      (let i = pe_call_index e; tc = calls ! i in
        (\<exists>st :: 'r orch_state. fst (check_protected (be_oks env i) (ol_json (be_lib env)) (be_fs env i) tc (orch_protected st)) = None \<and>
           (\<forall>c. oc_gate_config (orch_ctx orch) = Some c \<longrightarrow> enabled c \<longrightarrow>
              categories c (get_tool_category (ol_callbacks (be_lib env)) (tc_name tc)) \<noteq> GATE_ACTION_DENY \<and>
              (\<exists>c'. oc_gate_config (orch_ctx st) = Some c' \<and> categories c' = categories c \<and>
                 gate_reason (be_oks env i 3) (be_oks env i 4) (be_lib env) (orch_io st) c' tc)))))"
proof -
  from batch_executed[OF assms] show ?thesis
  proof (elim disjE exE)
    fix sc assume sc: "screen_inv env (orch_ctx orch) calls (length calls) sc \<and> mset (bo_executed out) = mset (sc_approved sc)"
    then have "set (bo_executed out) = set (sc_approved sc)"
      by (metis set_mset_mset)
    then have ex: "\<forall>e \<in> set (bo_executed out). pe_call_index e < length calls \<and>
        cleared env (oc_gate_config (orch_ctx orch)) (pe_call_index e) (calls ! pe_call_index e)"
      using sc by (auto simp: screen_inv_def approved_ok_def)
    have "bo_executed out = [] \<longrightarrow> bo_world out = w"
      using batch_idle[OF assms(1)] by blast
    with ex cleared_reason show ?thesis unfolding Let_def by blast
  qed simp
qed

text \<open>No call twice. The calls that are executed are different calls with different places for their
  results; at most one of them spawns a subagent, and none if one was spawned before in this turn;
  and when the caller tracks what was executed, their identifiers differ from each other and from
  all that were executed before.\<close>

theorem batch_executes_once:
  assumes "tool_batch_execute ok0 ok1 okx oksx env ex sched late fs calls results indices orch w = Some out"
    and "\<forall>n. mset (sched n) = mset [0..<n]"
  shows "distinct (map pe_call_index (bo_executed out)) \<and> distinct (map pe_slot (bo_executed out)) \<and>
    length (filter (is_subagent calls) (bo_executed out)) + of_bool (oc_subagent_spawned (orch_ctx orch)) \<le> 1 \<and>
    (be_compact env \<longrightarrow>
       distinct (map (\<lambda>e. tc_id (calls ! pe_call_index e)) (bo_executed out)) \<and>
       (\<forall>e \<in> set (bo_executed out). \<exists>d. tc_id (calls ! pe_call_index e) = Some d \<and>
          d \<notin> set (oc_executed_tracker (orch_ctx orch))))"
proof -
  from batch_executed[OF assms] show ?thesis
  proof (elim disjE exE)
    fix sc assume sc: "screen_inv env (orch_ctx orch) calls (length calls) sc \<and> mset (bo_executed out) = mset (sc_approved sc)"
    then have set: "set (bo_executed out) = set (sc_approved sc)"
      by (metis set_mset_mset)
    have "length (filter (is_subagent calls) (bo_executed out)) = length (filter (is_subagent calls) (sc_approved sc))"
      using sc by (metis mset_filter size_mset)
    moreover have "length (filter (is_subagent calls) (sc_approved sc)) + of_bool (oc_subagent_spawned (orch_ctx orch)) \<le> 1"
      using sc unfolding screen_inv_def
      by (cases "oc_subagent_spawned (orch_ctx (sc_orch sc))") auto
    ultimately have "length (filter (is_subagent calls) (bo_executed out)) + of_bool (oc_subagent_spawned (orch_ctx orch)) \<le> 1"
      by simp
    moreover have "entries_distinct (be_compact env) calls (bo_executed out)"
      using sc by (simp add: screen_inv_def entries_distinct_def distinct_map_mset[of "bo_executed out" "sc_approved sc"])
    moreover have "be_compact env \<longrightarrow> (\<forall>e \<in> set (bo_executed out). \<exists>d. tc_id (calls ! pe_call_index e) = Some d \<and>
        d \<notin> set (oc_executed_tracker (orch_ctx orch)))"
      using sc set unfolding screen_inv_def approved_ok_def by metis
    ultimately show ?thesis by (simp add: entries_distinct_def)
  qed simp
qed

text \<open>C35. Threads make no difference to the results. When no tool looks at what the others do to the world,
  every order in which the threads run gives the results of executing the calls one after the other.\<close>

theorem parallel_like_serial:
  assumes "\<forall>n. mset (sched n) = mset [0..<n]" and "worldless okx oksx ex (ol_json (be_lib env))"
  shows "map_option bo_results (tool_batch_execute ok0 ok1 okx oksx env ex sched late fs calls results indices orch w) =
    map_option bo_results (tool_batch_execute ok0 ok1 okx oksx env ex (\<lambda>n. [0..<n]) late fs calls results indices orch w)"
proof -
  let ?orch = "orch\<lparr>orch_protected := force_protected_inode_refresh ok0 fs (orch_protected orch)\<rparr>"
  let ?sc = "\<lparr>sc_orch = ?orch, sc_results = results, sc_indices = indices, sc_count = 0, sc_approved = [],
     sc_status = 0\<rparr>"
  have same: "fst (execute_entries okx oksx ex (ol_json (be_lib env)) calls (execution_order sched (sc_approved sc)) rs w) =
      fst (execute_entries okx oksx ex (ol_json (be_lib env)) calls (execution_order (\<lambda>n. [0..<n]) (sc_approved sc)) rs w)"
    if "screen_loop env 0 calls ?sc = Some sc" "sc_status sc = 0" for sc rs
  proof -
    have "screen_inv env (orch_ctx orch) calls (length calls) sc"
      using screen_loop_inv[OF _ screen_inv_start[of env orch calls]] that by simp
    then have "distinct (map pe_slot (sc_approved sc))"
      by (simp add: screen_inv_def entries_distinct_def)
    with assms show ?thesis by (intro execution_order_results) auto
  qed
  show ?thesis
    using same by (auto simp: tool_batch_execute_def Let_def split: option.split prod.split) (metis fst_conv)+
qed

subsection \<open>Samples\<close>

text \<open>A call that needs no approval, and an executor that records the names of the calls it runs.\<close>

lemma todo_passes:
  assumes "oc_gate_config (orch_ctx st) = Some sample_config" and "tc_name tc = Some ''todo''"
  shows "tool_orchestration_check_approval (\<lambda>_. alloc_ok) sample_lib fs tc r out st = (0, r, out, st)"
proof -
  have "approval_gate_requires_check alloc_ok (table_json []) substring_regex no_callbacks None (Some sample_config)
      (Some tc) = 0"
    using assms(2) by (simp add: requires_check_values get_tool_category_def sample_defs)
  with assms show ?thesis
    by (simp add: tool_orchestration_check_approval_def check_protected_def is_file_write_tool_def
        sample_lib_def check_approval_gate_def init_approved_path_def Let_def is_rate_limited_def
        rate_limiter_is_blocked_def find_entry_def sample_defs)
qed

definition sample_env :: "(jvalue, string) batch_env" where
  "sample_env = \<lparr>be_lib = sample_lib, be_fs = (\<lambda>_. sample_fs), be_oks = (\<lambda>_ _. alloc_ok), be_interrupt = (\<lambda>_. False),
                 be_compact = True, be_tools = [(''todo'', True)]\<rparr>"

definition name_executors :: "(jvalue, string option list) executors" where
  "name_executors =
     (let run = (\<lambda>fc tc r w. (0, r\<lparr>tr_result := tc_name tc, tr_success := True\<rparr>, w @ [tc_name tc]))
      in \<lparr>ex_mcp = run, ex_plugin = run, ex_tool = run, ex_exchange = (\<lambda>_ _ _ w. (None, w)), ex_plugins = []\<rparr>)"

definition todo_entry :: "nat \<Rightarrow> PreScreenEntry" where
  "todo_entry i = \<lparr>pe_call_index = i, pe_slot = i, pe_is_mcp = False, pe_is_plugin = False, pe_approved = True,
     pe_thread_safe = True, pe_approved_path = init_approved_path, pe_has_approved_path = False\<rparr>"

definition todo_call2 :: ToolCall where
  "todo_call2 = todo_call\<lparr>tc_id := Some ''2''\<rparr>"

definition sample_batch :: "(nat \<Rightarrow> nat list) \<Rightarrow> (string, string option list) batch_result option" where
  "sample_batch sched =
     tool_batch_execute alloc_ok alloc_ok (\<lambda>_ _. alloc_ok) (\<lambda>_ _ _. alloc_ok) sample_env name_executors sched False
       sample_fs [todo_call, todo_call2] [zero_result, zero_result] [0, 0] (sample_state []) []"

lemma todo_executes:
  "execute_single_tool (\<lambda>_. alloc_ok) (\<lambda>_ _. alloc_ok) name_executors js (todo_entry i) tc r w =
     (r\<lparr>tr_result := tc_name tc, tr_success := True\<rparr>, w @ [tc_name tc])"
  by (simp add: execute_single_tool_def hook_dispatch_pre_tool_execute_def hook_dispatch_post_tool_execute_def
      hook_dispatch_generic_def get_sorted_subscribers_def name_executors_def todo_entry_def Let_def)

lemma sample_screening:
  "\<exists>sc. screen_loop sample_env 0 [todo_call, todo_call2]
     \<lparr>sc_orch = (sample_state [])\<lparr>orch_protected := ps\<rparr>, sc_results = rs, sc_indices = is, sc_count = 0,
      sc_approved = [], sc_status = 0\<rparr> = Some sc \<and>
     sc_approved sc = [todo_entry 0, todo_entry 1] \<and> sc_status sc = 0 \<and> length (sc_results sc) = length rs"
  by (simp add: screen_call_def screen_spawn_def screen_approval_def put_ctx_def slot_of_def Let_def
      tool_orchestration_is_duplicate_def tool_orchestration_mark_executed_def tool_orchestration_can_spawn_subagent_def
      todo_passes sample_env_def sample_state_def todo_call2_def todo_call_def todo_entry_def init_approved_path_def
      PLUGIN_TOOL_PREFIX_def thread_safe_tool_def)

lemma sample_batch_runs:
  "\<exists>out. sample_batch sched = Some out \<and> bo_executed out = map ((!) [todo_entry 0, todo_entry 1]) (sched 2)"
proof -
  obtain sc where sc: "screen_loop sample_env 0 [todo_call, todo_call2]
     \<lparr>sc_orch = (sample_state [])\<lparr>orch_protected := force_protected_inode_refresh alloc_ok sample_fs
        (orch_protected (sample_state []))\<rparr>, sc_results = [zero_result, zero_result], sc_indices = [0, 0], sc_count = 0,
      sc_approved = [], sc_status = 0\<rparr> = Some sc"
     "sc_approved sc = [todo_entry 0, todo_entry 1]" "sc_status sc = 0"
    using sample_screening by blast
  then show ?thesis
    by (auto simp: sample_batch_def tool_batch_execute_def Let_def execution_order_def use_parallel_def todo_entry_def
        numeral_2_eq_2 split: prod.split)
qed

lemma in_order: "\<forall>n. mset [0..<n] = mset [0..<n]" "\<forall>n. mset (rev [0..<n]) = mset [0..<n]"
  by simp_all

lemma name_worldless: "worldless okx oksx name_executors js"
  by (simp add: worldless_def execute_single_tool_def hook_dispatch_pre_tool_execute_def
      hook_dispatch_post_tool_execute_def hook_dispatch_generic_def get_sorted_subscribers_def name_executors_def Let_def)

theorem batch_executes_only_approved_witness:
  "\<exists>out. sample_batch (\<lambda>n. [0..<n]) = Some out \<and> bo_executed out = [todo_entry 0, todo_entry 1] \<and>
     categories sample_config (get_tool_category no_callbacks (tc_name todo_call2)) \<noteq> GATE_ACTION_DENY"
proof -
  obtain out where out: "sample_batch (\<lambda>n. [0..<n]) = Some out" "bo_executed out = [todo_entry 0, todo_entry 1]"
    using sample_batch_runs[of "\<lambda>n. [0..<n]"] by (auto simp: numeral_2_eq_2)
  have "oc_gate_config (orch_ctx (sample_state [])) = Some sample_config" "enabled sample_config"
      "pe_call_index (todo_entry 1) = 1" "ol_callbacks (be_lib sample_env) = no_callbacks"
    by (simp_all add: sample_state_def sample_defs todo_entry_def sample_env_def sample_lib_def)
  with batch_executes_only_approved[OF out(1)[unfolded sample_batch_def] in_order(1)] out show ?thesis
    by (auto simp: Let_def)
qed

theorem batch_executes_once_witness:
  "\<exists>out. sample_batch (\<lambda>n. rev [0..<n]) = Some out \<and> bo_executed out = [todo_entry 1, todo_entry 0] \<and>
     distinct (map (\<lambda>e. tc_id ([todo_call, todo_call2] ! pe_call_index e)) (bo_executed out))"
proof -
  obtain out where out: "sample_batch (\<lambda>n. rev [0..<n]) = Some out" "bo_executed out = [todo_entry 1, todo_entry 0]"
    using sample_batch_runs[of "\<lambda>n. rev [0..<n]"] by (auto simp: numeral_2_eq_2)
  have "be_compact sample_env" by (simp add: sample_env_def)
  with batch_executes_once[OF out(1)[unfolded sample_batch_def] in_order(2)] out show ?thesis by blast
qed

theorem parallel_like_serial_witness:
  "\<exists>out out'. sample_batch (\<lambda>n. rev [0..<n]) = Some out \<and> sample_batch (\<lambda>n. [0..<n]) = Some out' \<and>
     bo_executed out \<noteq> bo_executed out' \<and> bo_results out = bo_results out'"
proof -
  obtain out out' where out: "sample_batch (\<lambda>n. rev [0..<n]) = Some out" "bo_executed out = [todo_entry 1, todo_entry 0]"
      "sample_batch (\<lambda>n. [0..<n]) = Some out'" "bo_executed out' = [todo_entry 0, todo_entry 1]"
    using sample_batch_runs[of "\<lambda>n. rev [0..<n]"] sample_batch_runs[of "\<lambda>n. [0..<n]"] by (auto simp: numeral_2_eq_2)
  have "map_option bo_results (sample_batch (\<lambda>n. rev [0..<n])) = map_option bo_results (sample_batch (\<lambda>n. [0..<n]))"
    unfolding sample_batch_def by (rule parallel_like_serial[OF in_order(2) name_worldless])
  with out show ?thesis by (simp add: todo_entry_def)
qed

subsection \<open>An aborted batch\<close>

text \<open>When the user aborts at the second call, the first, which was approved, counts as having a result
  and has none.\<close>

definition write_call2 :: ToolCall where
  "write_call2 = write_call\<lparr>tc_id := Some ''2''\<rparr>"

lemma write_aborted:
  assumes "oc_gate_config (orch_ctx st) = Some sample_config" and "orch_io st = keys_io [(3, False)]"
  shows "\<exists>st'. tool_orchestration_check_approval (\<lambda>_. alloc_ok) sample_lib fs write_call2 r out st = (-2, r, out, st')"
proof -
  have "approval_gate_requires_check alloc_ok (table_json []) substring_regex no_callbacks None (Some sample_config)
      (Some write_call2) = 1"
    by (simp add: requires_check_values write_call2_def get_tool_category_def sample_defs
        approval_gate_matches_allowlist_def match_regex_allowlist_def split: option.split)
  moreover have "check_protected (\<lambda>_. alloc_ok) (table_json []) fs write_call2 ps = (None, ps)" for ps
    by (simp add: check_protected_def tool_args_get_path_def parse_args_def write_call2_def write_call_def table_json_def)
  ultimately show ?thesis
    using assms
    by (simp add: tool_orchestration_check_approval_def sample_lib_def check_approval_gate_def init_approved_path_def
        Let_def is_rate_limited_def rate_limiter_is_blocked_def find_entry_def sample_defs write_call2_def
        approval_gate_prompt_def gate_prompter_create_def lower_key_def)
qed

lemma abort_leaves_gap:
  "\<exists>out. tool_batch_execute alloc_ok alloc_ok (\<lambda>_ _. alloc_ok) (\<lambda>_ _ _. alloc_ok) sample_env name_executors
       (\<lambda>n. [0..<n]) False sample_fs [todo_call, write_call2] [zero_result, zero_result] [0, 0]
       (sample_state [(3, False)]) [] = Some out \<and>
     bo_status out = -1 \<and> bo_count out = 2 \<and> bo_results out ! 0 = zero_result \<and> bo_executed out = []"
proof -
  let ?st = "(sample_state [(3, False)])\<lparr>orch_ctx := \<lparr>oc_gate_config = Some sample_config,
     oc_subagent_spawned = False, oc_executed_tracker = [''1'', ''2'']\<rparr>,
     orch_protected := force_protected_inode_refresh alloc_ok sample_fs (orch_protected (sample_state [(3, False)]))\<rparr>"
  obtain st' where w: "tool_orchestration_check_approval (\<lambda>_. alloc_ok) sample_lib sample_fs write_call2 zero_result
      init_approved_path ?st = (-2, zero_result, init_approved_path, st')"
    using write_aborted[of ?st sample_fs zero_result init_approved_path] by (auto simp: sample_state_def)
  show ?thesis
    using w
    by (simp add: tool_batch_execute_def screen_call_def screen_spawn_def screen_approval_def put_ctx_def slot_of_def Let_def
      tool_orchestration_is_duplicate_def tool_orchestration_mark_executed_def tool_orchestration_can_spawn_subagent_def
      todo_passes sample_env_def sample_state_def write_call2_def write_call_def todo_call_def init_approved_path_def)
qed

end
