(* ===== verification/Streaming.thy ===== *)
theory Streaming
  imports Darray "HOL-Library.Monad_Syntax"
begin

text \<open>
  The reader of server-sent events that collects a streamed reply of the model, from
  \<^verbatim>\<open>lib/network/streaming.c\<close>.

  A growing text buffer is its contents and its capacity; a store outside the capacity is undefined
  (\<open>None\<close>). The context counts the allocations it has asked for: \<open>sx_ok n\<close> says whether the n-th
  succeeds, and \<open>sx_site\<close> is the next. The callback for a data line is the argument \<open>sink\<close>; it works
  on the context, whose \<open>user_data\<close> is the state of the provider. The calls of the other callbacks,
  which display what arrives, are recorded in \<open>sx_calls\<close>; whether each callback is set is a flag.
\<close>

section \<open>Data\<close>

definition SIZE_MAX :: nat where
  "SIZE_MAX = 18446744073709551615"

definition size_add :: "nat \<Rightarrow> nat \<Rightarrow> nat" where
  "size_add a b = (a + b) mod SIZE_MOD"

definition size_sub :: "nat \<Rightarrow> nat \<Rightarrow> nat" where
  "size_sub a b = (a + SIZE_MOD - b) mod SIZE_MOD"

definition INITIAL_LINE_BUFFER_CAPACITY :: nat where
  "INITIAL_LINE_BUFFER_CAPACITY = 1024"

definition INITIAL_TEXT_CAPACITY :: nat where
  "INITIAL_TEXT_CAPACITY = 4096"

definition INITIAL_THINKING_CAPACITY :: nat where
  "INITIAL_THINKING_CAPACITY = 2048"

definition INITIAL_TOOL_ARGS_CAPACITY :: nat where
  "INITIAL_TOOL_ARGS_CAPACITY = 1024"

definition BUFFER_GROWTH_FACTOR :: nat where
  "BUFFER_GROWTH_FACTOR = 2"

datatype StreamState =
  STREAM_STATE_IDLE | STREAM_STATE_READING_EVENT | STREAM_STATE_READING_DATA | STREAM_STATE_COMPLETE
| STREAM_STATE_ERROR

record StreamingToolUse =
  su_id :: string
  su_name :: string
  su_arguments_json :: string
  su_arguments_capacity :: nat

datatype callback =
  On_text_chunk string
| On_thinking_chunk string
| On_tool_use_start string string
| On_tool_use_delta string string
| On_stream_end "string option"
| On_error "string option"

record 'p StreamingContext =
  sx_state :: StreamState
  sx_line_buffer :: string
  sx_line_buffer_capacity :: nat
  sx_current_event_type :: "string option"
  sx_text_content :: string
  sx_text_capacity :: nat
  sx_thinking_content :: string
  sx_thinking_capacity :: nat
  sx_tool_uses :: "StreamingToolUse list"
  sx_current_tool_index :: int
  sx_input_tokens :: int
  sx_output_tokens :: int
  sx_stop_reason :: "string option"
  sx_error_message :: "string option"
  sx_set :: "callback \<Rightarrow> bool"
  sx_on_sse_data :: bool
  user_data :: 'p
  sx_calls :: "callback list"
  sx_ok :: alloc
  sx_site :: nat

text \<open>The text before the first NUL: what \<^verbatim>\<open>strlen\<close> and \<^verbatim>\<open>strdup\<close> see of a buffer.\<close>

definition c_text :: "string \<Rightarrow> string" where
  "c_text s = takeWhile (\<lambda>c. c \<noteq> NUL) s"

definition call :: "callback \<Rightarrow> 'p StreamingContext \<Rightarrow> 'p StreamingContext" where
  "call cb ctx = (if sx_set ctx cb then ctx\<lparr>sx_calls := sx_calls ctx @ [cb]\<rparr> else ctx)"

section \<open>Buffers\<close>

text \<open>The loop that doubles a capacity: \<open>Some None\<close> where the code gives up.\<close>

partial_function (option) grow_capacity :: "nat \<Rightarrow> nat \<Rightarrow> nat option option" where
  "grow_capacity capacity needed =
     (if capacity \<ge> needed then Some (Some capacity)
      else if capacity > SIZE_MAX div BUFFER_GROWTH_FACTOR then Some None
      else grow_capacity (capacity * BUFFER_GROWTH_FACTOR) needed)"

text \<open>The return code, the new capacity and the next allocation site.\<close>

definition ensure_capacity :: "alloc \<Rightarrow> nat \<Rightarrow> nat \<Rightarrow> nat \<Rightarrow> nat \<Rightarrow> (int \<times> nat \<times> nat) option" where
  "ensure_capacity ok site capacity current_len additional_len =
     (if additional_len > size_sub (size_sub SIZE_MAX current_len) 1 then Some (-1, capacity, site)
      else
        let needed = size_add (size_add current_len additional_len) 1
        in if needed \<le> capacity then Some (0, capacity, site)
           else do {
             grown \<leftarrow> grow_capacity capacity needed;
             case grown of
               None \<Rightarrow> Some (-1, capacity, site)
             | Some new_capacity \<Rightarrow>
                 if ok site \<and> new_capacity \<le> PTRDIFF_MAX then Some (0, new_capacity, Suc site)
                 else Some (-1, capacity, Suc site)
           })"

text \<open>Storing a text with its terminating NUL behind the contents.\<close>

definition store_text :: "nat \<Rightarrow> string \<Rightarrow> string \<Rightarrow> string option" where
  "store_text capacity content s = (if length content + length s + 1 \<le> capacity then Some (content @ s) else None)"

definition streaming_append_char :: "'p StreamingContext \<Rightarrow> char \<Rightarrow> (int \<times> 'p StreamingContext) option" where
  "streaming_append_char ctx c = do {
     (rc, capacity, site) \<leftarrow> ensure_capacity (sx_ok ctx) (sx_site ctx) (sx_line_buffer_capacity ctx)
                                (length (sx_line_buffer ctx)) 1;
     let ctx = ctx\<lparr>sx_line_buffer_capacity := capacity, sx_site := site\<rparr>;
     if rc \<noteq> 0 then Some (-1, ctx)
     else do {
       line \<leftarrow> store_text capacity (sx_line_buffer ctx) [c];
       Some (0, ctx\<lparr>sx_line_buffer := line\<rparr>)
     }
   }"

section \<open>Contexts\<close>

text \<open>Sites: the context, the three buffers and the array of tools.\<close>

definition streaming_context_create :: "alloc \<Rightarrow> 'p \<Rightarrow> 'p StreamingContext option" where
  "streaming_context_create ok p =
     (if ok 0 \<and> ok 1 \<and> ok 2 \<and> ok 3 \<and> ok 4
      then Some \<lparr>sx_state = STREAM_STATE_IDLE, sx_line_buffer = [],
             sx_line_buffer_capacity = INITIAL_LINE_BUFFER_CAPACITY, sx_current_event_type = None,
             sx_text_content = [], sx_text_capacity = INITIAL_TEXT_CAPACITY, sx_thinking_content = [],
             sx_thinking_capacity = INITIAL_THINKING_CAPACITY, sx_tool_uses = [], sx_current_tool_index = -1,
             sx_input_tokens = 0, sx_output_tokens = 0, sx_stop_reason = None, sx_error_message = None,
             sx_set = (\<lambda>_. False), sx_on_sse_data = False, user_data = p, sx_calls = [], sx_ok = ok, sx_site = 5\<rparr>
      else None)"

section \<open>Emission\<close>

definition streaming_emit_text :: "'p StreamingContext \<Rightarrow> string \<Rightarrow> 'p StreamingContext option" where
  "streaming_emit_text ctx txt =
     (if txt = [] then Some ctx
      else do {
        (rc, capacity, site) \<leftarrow> ensure_capacity (sx_ok ctx) (sx_site ctx) (sx_text_capacity ctx)
                                   (length (sx_text_content ctx)) (length txt);
        let ctx = ctx\<lparr>sx_text_capacity := capacity, sx_site := site\<rparr>;
        if rc \<noteq> 0 then Some (ctx\<lparr>sx_state := STREAM_STATE_ERROR\<rparr>)
        else do {
          content \<leftarrow> store_text capacity (sx_text_content ctx) txt;
          Some (call (On_text_chunk txt) (ctx\<lparr>sx_text_content := content\<rparr>))
        }
      })"

definition streaming_emit_thinking :: "'p StreamingContext \<Rightarrow> string \<Rightarrow> 'p StreamingContext option" where
  "streaming_emit_thinking ctx txt =
     (if txt = [] then Some ctx
      else do {
        (rc, capacity, site) \<leftarrow> ensure_capacity (sx_ok ctx) (sx_site ctx) (sx_thinking_capacity ctx)
                                   (length (sx_thinking_content ctx)) (length txt);
        let ctx = ctx\<lparr>sx_thinking_capacity := capacity, sx_site := site\<rparr>;
        if rc \<noteq> 0 then Some (ctx\<lparr>sx_state := STREAM_STATE_ERROR\<rparr>)
        else do {
          content \<leftarrow> store_text capacity (sx_thinking_content ctx) txt;
          Some (call (On_thinking_chunk txt) (ctx\<lparr>sx_thinking_content := content\<rparr>))
        }
      })"

text \<open>Sites: the two copies, the buffer for the arguments, and the growth of the array, which is the
  list of its elements.\<close>

definition streaming_emit_tool_start :: "'p StreamingContext \<Rightarrow> string \<Rightarrow> string \<Rightarrow> 'p StreamingContext" where
  "streaming_emit_tool_start ctx i name =
     (let s = sx_site ctx; ok = sx_ok ctx
      in if \<not> (ok s \<and> ok (s + 1) \<and> ok (s + 2)) then ctx\<lparr>sx_site := s + 3\<rparr>
         else if \<not> ok (s + 3) then ctx\<lparr>sx_site := s + 4\<rparr>
         else
           let new_tool = \<lparr>su_id = i, su_name = name, su_arguments_json = [],
                           su_arguments_capacity = INITIAL_TOOL_ARGS_CAPACITY\<rparr>;
               tools = sx_tool_uses ctx @ [new_tool]
           in call (On_tool_use_start i name)
                (ctx\<lparr>sx_site := s + 4, sx_tool_uses := tools, sx_current_tool_index := int (length tools) - 1\<rparr>))"

definition find_tool :: "StreamingToolUse list \<Rightarrow> string \<Rightarrow> nat option" where
  "find_tool tools i = find_index (\<lambda>t. su_id t = i) tools"

text \<open>Whether an index is outside the array.\<close>

definition no_tool :: "'p StreamingContext \<Rightarrow> int \<Rightarrow> bool" where
  "no_tool ctx idx \<longleftrightarrow> idx < 0 \<or> nat idx \<ge> length (sx_tool_uses ctx)"

definition streaming_emit_tool_delta ::
    "'p StreamingContext \<Rightarrow> string \<Rightarrow> string \<Rightarrow> 'p StreamingContext option" where
  "streaming_emit_tool_delta ctx i json_delta =
     (if json_delta = [] then Some ctx
      else
        let (idx, ctx) =
              (if no_tool ctx (sx_current_tool_index ctx)
               then case find_tool (sx_tool_uses ctx) i of
                      None \<Rightarrow> (sx_current_tool_index ctx, ctx)
                    | Some k \<Rightarrow> (int k, ctx\<lparr>sx_current_tool_index := int k\<rparr>)
               else (sx_current_tool_index ctx, ctx))
        in if no_tool ctx idx then Some ctx
           else
             let tool = sx_tool_uses ctx ! nat idx
             in if su_id tool \<noteq> i then Some ctx
                else
                  let current = c_text (su_arguments_json tool);
                      needed = size_add (size_add (length current) (length json_delta)) 1;
                      put = (\<lambda>ctx capacity. do {
                        arguments \<leftarrow> store_text capacity current json_delta;
                        Some (call (On_tool_use_delta i json_delta)
                          (ctx\<lparr>sx_tool_uses := (sx_tool_uses ctx)[nat idx := tool\<lparr>su_arguments_json := arguments,
                                su_arguments_capacity := capacity\<rparr>]\<rparr>))
                      })
                  in if needed \<le> su_arguments_capacity tool then put ctx (su_arguments_capacity tool)
                     else do {
                       grown \<leftarrow> grow_capacity (su_arguments_capacity tool) needed;
                       case grown of
                         None \<Rightarrow> Some (ctx\<lparr>sx_state := STREAM_STATE_ERROR\<rparr>)
                       | Some new_capacity \<Rightarrow>
                           if sx_ok ctx (sx_site ctx) \<and> new_capacity \<le> PTRDIFF_MAX
                           then put (ctx\<lparr>sx_site := Suc (sx_site ctx)\<rparr>) new_capacity
                           else Some (ctx\<lparr>sx_state := STREAM_STATE_ERROR, sx_site := Suc (sx_site ctx)\<rparr>)
                     })"

definition streaming_replace_tool_arguments ::
    "'p StreamingContext \<Rightarrow> string \<Rightarrow> string \<Rightarrow> 'p StreamingContext option" where
  "streaming_replace_tool_arguments ctx i arguments =
     (case find_tool (sx_tool_uses ctx) i of
        None \<Rightarrow> Some ctx
      | Some idx \<Rightarrow>
          let tool = sx_tool_uses ctx ! idx;
              needed = size_add (length arguments) 1;
              put = (\<lambda>ctx capacity. do {
                arguments \<leftarrow> store_text capacity [] arguments;
                Some (ctx\<lparr>sx_tool_uses := (sx_tool_uses ctx)[idx := tool\<lparr>su_arguments_json := arguments,
                        su_arguments_capacity := capacity\<rparr>]\<rparr>)
              })
          in if needed > su_arguments_capacity tool
             then if \<not> (sx_ok ctx (sx_site ctx) \<and> needed \<le> PTRDIFF_MAX)
                  then Some (ctx\<lparr>sx_site := Suc (sx_site ctx)\<rparr>)
                  else put (ctx\<lparr>sx_site := Suc (sx_site ctx)\<rparr>) needed
             else put ctx (su_arguments_capacity tool))"

text \<open>A pointer that \<^verbatim>\<open>streaming_emit_complete\<close> is called with: \<^verbatim>\<open>NULL\<close>, the field of the context itself, or
  another text. The field is freed before the text it points to is copied.\<close>

datatype reason = No_reason | Own_reason | Text_reason string

definition streaming_emit_complete :: "'p StreamingContext \<Rightarrow> reason \<Rightarrow> 'p StreamingContext option" where
  "streaming_emit_complete ctx reason =
     (let ctx = ctx\<lparr>sx_state := STREAM_STATE_COMPLETE\<rparr>
      in case reason of
           No_reason \<Rightarrow> Some (call (On_stream_end None) ctx)
         | Own_reason \<Rightarrow>
             (case sx_stop_reason ctx of
                None \<Rightarrow> Some (call (On_stream_end None) ctx)
              | Some _ \<Rightarrow> None)
         | Text_reason s \<Rightarrow>
             Some (call (On_stream_end (Some s))
               (ctx\<lparr>sx_stop_reason := (if sx_ok ctx (sx_site ctx) then Some s else None),
                    sx_site := Suc (sx_site ctx)\<rparr>)))"

definition streaming_emit_error :: "'p StreamingContext \<Rightarrow> string option \<Rightarrow> 'p StreamingContext" where
  "streaming_emit_error ctx err =
     (let ctx = ctx\<lparr>sx_state := STREAM_STATE_ERROR\<rparr>
      in case err of
           None \<Rightarrow> call (On_error None) ctx
         | Some e \<Rightarrow>
             call (On_error (Some e))
               (ctx\<lparr>sx_error_message := (if sx_ok ctx (sx_site ctx) then Some e else None),
                    sx_site := Suc (sx_site ctx)\<rparr>))"

text \<open>The pointer the callers pass: the stop reason, or a default.\<close>

definition reason_or :: "'p StreamingContext \<Rightarrow> string \<Rightarrow> reason" where
  "reason_or ctx s = (if sx_stop_reason ctx \<noteq> None then Own_reason else Text_reason s)"

section \<open>Lines\<close>

type_synonym 'p sink = "string \<Rightarrow> 'p StreamingContext \<Rightarrow> 'p StreamingContext option"

definition trim_event :: "string \<Rightarrow> string" where
  "trim_event s = rev (dropWhile (\<lambda>c. c = CHR '' '' \<or> c = CHR 0x09) (rev s))"

definition streaming_process_sse_line ::
    "'p sink \<Rightarrow> 'p StreamingContext \<Rightarrow> string \<Rightarrow> (int \<times> 'p StreamingContext) option" where
  "streaming_process_sse_line sink ctx line =
     (if line = [] then Some (0, ctx)
      else if starts_with ''data: '' line
      then
        let payload = drop 6 line
        in if payload = ''[DONE]''
           then do { ctx \<leftarrow> streaming_emit_complete ctx (reason_or ctx ''complete''); Some (0, ctx) }
           else
             let ctx = ctx\<lparr>sx_state := STREAM_STATE_READING_DATA\<rparr>
             in if sx_on_sse_data ctx \<and> payload \<noteq> []
                then do { ctx \<leftarrow> sink payload ctx; Some (0, ctx) }
                else Some (0, ctx)
      else if starts_with ''event: '' line
      then Some (0, ctx\<lparr>sx_state := STREAM_STATE_READING_EVENT,
             sx_current_event_type := (if sx_ok ctx (sx_site ctx) then Some (c_text (trim_event (drop 7 line))) else None),
             sx_site := Suc (sx_site ctx)\<rparr>)
      else Some (0, ctx))"

text \<open>The bytes of a chunk one after the other.\<close>

fun streaming_process_chunk ::
    "'p sink \<Rightarrow> 'p StreamingContext \<Rightarrow> string \<Rightarrow> (int \<times> 'p StreamingContext) option" where
  "streaming_process_chunk sink ctx [] = Some (0, ctx)"
| "streaming_process_chunk sink ctx (c # cs) =
     (if c = CHR 0x0A
      then do {
        (rc, ctx) \<leftarrow> (if sx_line_buffer ctx \<noteq> [] then streaming_process_sse_line sink ctx (sx_line_buffer ctx)
                       else Some (0, ctx));
        if rc \<noteq> 0 then Some (-1, ctx) else streaming_process_chunk sink (ctx\<lparr>sx_line_buffer := []\<rparr>) cs
      }
      else if c \<noteq> CHR 0x0D
      then do {
        (rc, ctx) \<leftarrow> streaming_append_char ctx c;
        if rc \<noteq> 0 then Some (-1, ctx) else streaming_process_chunk sink ctx cs
      }
      else streaming_process_chunk sink ctx cs)"

section \<open>Buffers stay inside their capacity\<close>

lemma size_mod_defs: "SIZE_MOD = SIZE_MAX + 1" "2 * PTRDIFF_MAX < SIZE_MAX"
  by (simp_all add: SIZE_MOD_def SIZE_MAX_def PTRDIFF_MAX_def)

lemma size_add_small [simp]: "a + b \<le> SIZE_MAX \<Longrightarrow> size_add a b = a + b"
  by (simp add: size_add_def size_mod_defs)

lemma size_sub_small [simp]: "b \<le> a \<Longrightarrow> a \<le> SIZE_MAX \<Longrightarrow> size_sub a b = a - b"
  by (simp add: size_sub_def size_mod_defs) (simp add: mod_if)

text \<open>The doubling ends, for any capacity but 0, with room for what is needed and less than twice as
  much, or gives up when half the address space is not enough.\<close>

lemma grow_capacity_ends:
  assumes "0 < capacity"
  shows "\<exists>r. grow_capacity capacity needed = Some r \<and>
    (case r of None \<Rightarrow> needed > SIZE_MAX div 2
     | Some c \<Rightarrow> needed \<le> c \<and> capacity \<le> c \<and> (c = capacity \<or> c < 2 * needed))"
  using assms
proof (induction "needed - capacity" arbitrary: capacity rule: less_induct)
  case less
  show ?case
  proof (cases "needed \<le> capacity \<or> capacity > SIZE_MAX div 2")
    case True
    with less.prems show ?thesis
      by (subst grow_capacity.simps) (auto simp: BUFFER_GROWTH_FACTOR_def)
  next
    case False
    then have "needed - capacity * 2 < needed - capacity"
      using less.prems by linarith
    from less.hyps[OF this] less.prems obtain r where r: "grow_capacity (capacity * 2) needed = Some r"
      "case r of None \<Rightarrow> needed > SIZE_MAX div 2
       | Some c \<Rightarrow> needed \<le> c \<and> capacity * 2 \<le> c \<and> (c = capacity * 2 \<or> c < 2 * needed)"
      by auto
    from False r(1) have "grow_capacity capacity needed = Some r"
      by (subst grow_capacity.simps) (simp add: BUFFER_GROWTH_FACTOR_def)
    with r(2) False show ?thesis by (auto split: option.splits)
  qed
qed

lemma ensure_capacity_returns:
  assumes "len < capacity" and "capacity \<le> PTRDIFF_MAX" and "add \<le> PTRDIFF_MAX"
  shows "\<exists>rc c s. ensure_capacity ok site capacity len add = Some (rc, c, s) \<and> capacity \<le> c \<and> c \<le> PTRDIFF_MAX \<and>
    (rc = 0 \<longrightarrow> len + add + 1 \<le> c) \<and>
    ((\<forall>n. ok n) \<longrightarrow> 2 * (len + add + 1) \<le> PTRDIFF_MAX \<longrightarrow> rc = 0)"
proof -
  have n: "size_add (size_add len add) 1 = len + add + 1"
    and m: "\<not> add > size_sub (size_sub SIZE_MAX len) 1"
    using assms by (simp_all add: SIZE_MAX_def PTRDIFF_MAX_def)
  have cap: "0 < capacity" using assms(1) by simp
  obtain r where r: "grow_capacity capacity (len + add + 1) = Some r"
    "case r of None \<Rightarrow> len + add + 1 > SIZE_MAX div 2
     | Some c \<Rightarrow> len + add + 1 \<le> c \<and> capacity \<le> c \<and> (c = capacity \<or> c < 2 * (len + add + 1))"
    using grow_capacity_ends[OF cap] by blast
  have big: "PTRDIFF_MAX \<le> SIZE_MAX div 2"
    by (simp add: SIZE_MAX_def PTRDIFF_MAX_def)
  show ?thesis
  proof (cases r)
    case None
    with assms m n r big show ?thesis
      by (auto simp: ensure_capacity_def)
  next
    case (Some c)
    with assms m n r show ?thesis
      by (auto simp: ensure_capacity_def)
  qed
qed

definition buffer_ok :: "string \<Rightarrow> nat \<Rightarrow> bool" where
  "buffer_ok content capacity \<longleftrightarrow> length content < capacity \<and> capacity \<le> PTRDIFF_MAX"

definition tool_ok :: "StreamingToolUse \<Rightarrow> bool" where
  "tool_ok t \<longleftrightarrow> buffer_ok (su_arguments_json t) (su_arguments_capacity t) \<and> c_string (su_arguments_json t)"

definition stream_inv :: "'p StreamingContext \<Rightarrow> bool" where
  "stream_inv ctx \<longleftrightarrow>
     buffer_ok (sx_line_buffer ctx) (sx_line_buffer_capacity ctx) \<and>
     buffer_ok (sx_text_content ctx) (sx_text_capacity ctx) \<and>
     buffer_ok (sx_thinking_content ctx) (sx_thinking_capacity ctx) \<and>
     list_all tool_ok (sx_tool_uses ctx) \<and>
     -1 \<le> sx_current_tool_index ctx \<and> sx_current_tool_index ctx < int (length (sx_tool_uses ctx))"

text \<open>What a reader has collected, without its buffers.\<close>

record 'p reply =
  r_state :: StreamState
  r_event :: "string option"
  r_text :: string
  r_thinking :: string
  r_tools :: "(string \<times> string \<times> string) list"
  r_current :: int
  r_tokens :: "int \<times> int"
  r_stop :: "string option"
  r_error :: "string option"
  r_provider :: 'p

definition tool_of :: "StreamingToolUse \<Rightarrow> string \<times> string \<times> string" where
  "tool_of t = (su_id t, su_name t, su_arguments_json t)"

definition reply_of :: "'p StreamingContext \<Rightarrow> 'p reply" where
  "reply_of ctx = \<lparr>r_state = sx_state ctx, r_event = sx_current_event_type ctx, r_text = sx_text_content ctx,
     r_thinking = sx_thinking_content ctx, r_tools = map tool_of (sx_tool_uses ctx),
     r_current = sx_current_tool_index ctx, r_tokens = (sx_input_tokens ctx, sx_output_tokens ctx),
     r_stop = sx_stop_reason ctx, r_error = sx_error_message ctx, r_provider = user_data ctx\<rparr>"

definition roomy :: "'p StreamingContext \<Rightarrow> bool" where
  "roomy ctx \<longleftrightarrow> stream_inv ctx \<and> (\<forall>n. sx_ok ctx n) \<and> sx_on_sse_data ctx"

text \<open>Texts short enough for a capacity that is at most twice as large.\<close>

definition fits :: "nat \<Rightarrow> bool" where
  "fits n \<longleftrightarrow> 2 * (n + 1) \<le> PTRDIFF_MAX"

lemma fits_mono: "fits n \<Longrightarrow> m \<le> n \<Longrightarrow> fits m"
  by (simp add: fits_def)

lemma call_fields [simp]:
  "sx_state (call cb ctx) = sx_state ctx" "sx_line_buffer (call cb ctx) = sx_line_buffer ctx"
  "sx_line_buffer_capacity (call cb ctx) = sx_line_buffer_capacity ctx"
  "sx_current_event_type (call cb ctx) = sx_current_event_type ctx"
  "sx_text_content (call cb ctx) = sx_text_content ctx" "sx_text_capacity (call cb ctx) = sx_text_capacity ctx"
  "sx_thinking_content (call cb ctx) = sx_thinking_content ctx"
  "sx_thinking_capacity (call cb ctx) = sx_thinking_capacity ctx"
  "sx_tool_uses (call cb ctx) = sx_tool_uses ctx" "sx_current_tool_index (call cb ctx) = sx_current_tool_index ctx"
  "sx_input_tokens (call cb ctx) = sx_input_tokens ctx" "sx_output_tokens (call cb ctx) = sx_output_tokens ctx"
  "sx_stop_reason (call cb ctx) = sx_stop_reason ctx" "sx_error_message (call cb ctx) = sx_error_message ctx"
  "sx_on_sse_data (call cb ctx) = sx_on_sse_data ctx" "user_data (call cb ctx) = user_data ctx"
  "sx_ok (call cb ctx) = sx_ok ctx"
  by (simp_all add: call_def)

text \<open>An operation that returns, keeps the invariant and the pending line, and, where memory suffices,
  has the given effect on the reply.\<close>

definition effect ::
    "'p StreamingContext \<Rightarrow> nat \<Rightarrow> ('p reply \<Rightarrow> 'p reply) \<Rightarrow> 'p StreamingContext option \<Rightarrow> bool" where
  "effect ctx n f r \<longleftrightarrow>
     (\<exists>ctx'. r = Some ctx' \<and> stream_inv ctx' \<and> sx_line_buffer ctx' = sx_line_buffer ctx \<and>
        (roomy ctx \<longrightarrow> fits n \<longrightarrow> roomy ctx' \<and> reply_of ctx' = f (reply_of ctx)))"

lemmas stream_defs = stream_inv_def roomy_def reply_of_def buffer_ok_def

lemma append_char_effect:
  assumes "stream_inv ctx"
  shows "\<exists>rc ctx'. streaming_append_char ctx c = Some (rc, ctx') \<and> stream_inv ctx' \<and>
    (roomy ctx \<longrightarrow> fits (length (sx_line_buffer ctx) + 1) \<longrightarrow>
      rc = 0 \<and> roomy ctx' \<and> reply_of ctx' = reply_of ctx \<and> sx_line_buffer ctx' = sx_line_buffer ctx @ [c])"
proof -
  have b: "length (sx_line_buffer ctx) < sx_line_buffer_capacity ctx" "sx_line_buffer_capacity ctx \<le> PTRDIFF_MAX"
    "(1::nat) \<le> PTRDIFF_MAX"
    using assms by (auto simp: stream_defs PTRDIFF_MAX_def)
  obtain rc cap site where e: "ensure_capacity (sx_ok ctx) (sx_site ctx) (sx_line_buffer_capacity ctx)
      (length (sx_line_buffer ctx)) 1 = Some (rc, cap, site)" "sx_line_buffer_capacity ctx \<le> cap" "cap \<le> PTRDIFF_MAX"
      "rc = 0 \<longrightarrow> length (sx_line_buffer ctx) + 1 + 1 \<le> cap"
      "(\<forall>n. sx_ok ctx n) \<longrightarrow> fits (length (sx_line_buffer ctx) + 1) \<longrightarrow> rc = 0"
    using ensure_capacity_returns[OF b, of "sx_ok ctx" "sx_site ctx"] by (auto simp: fits_def)
  show ?thesis
  proof (cases "rc = 0")
    case True
    with e assms show ?thesis
      by (auto simp: streaming_append_char_def store_text_def stream_defs Let_def)
  next
    case False
    with e assms b(1) show ?thesis
      by (auto simp: streaming_append_char_def stream_defs Let_def)
  qed
qed

lemma emit_text_effect:
  assumes "stream_inv ctx" and "length txt \<le> PTRDIFF_MAX"
  shows "effect ctx (length (sx_text_content ctx) + length txt) (\<lambda>r. r\<lparr>r_text := r_text r @ txt\<rparr>) (streaming_emit_text ctx txt)"
proof -
  have b: "length (sx_text_content ctx) < sx_text_capacity ctx" "sx_text_capacity ctx \<le> PTRDIFF_MAX"
    using assms by (auto simp: stream_defs)
  from ensure_capacity_returns[OF b assms(2), of "sx_ok ctx" "sx_site ctx"] assms(1) b(1) show ?thesis
    by (auto simp: streaming_emit_text_def store_text_def stream_defs fits_def effect_def Let_def)
qed

lemma emit_thinking_effect:
  assumes "stream_inv ctx" and "length txt \<le> PTRDIFF_MAX"
  shows "effect ctx (length (sx_thinking_content ctx) + length txt) (\<lambda>r. r\<lparr>r_thinking := r_thinking r @ txt\<rparr>)
    (streaming_emit_thinking ctx txt)"
proof -
  have b: "length (sx_thinking_content ctx) < sx_thinking_capacity ctx" "sx_thinking_capacity ctx \<le> PTRDIFF_MAX"
    using assms by (auto simp: stream_defs)
  from ensure_capacity_returns[OF b assms(2), of "sx_ok ctx" "sx_site ctx"] assms(1) b(1) show ?thesis
    by (auto simp: streaming_emit_thinking_def store_text_def stream_defs fits_def effect_def Let_def)
qed

lemma emit_tool_start_effect:
  assumes "stream_inv ctx"
  shows "effect ctx 0 (\<lambda>r. r\<lparr>r_tools := r_tools r @ [(i, name, [])], r_current := int (length (r_tools r))\<rparr>)
    (Some (streaming_emit_tool_start ctx i name))"
  using assms
  by (auto simp: streaming_emit_tool_start_def effect_def stream_defs Let_def tool_ok_def c_string_def tool_of_def
      INITIAL_TOOL_ARGS_CAPACITY_def PTRDIFF_MAX_def)

text \<open>Deltas for a tool go to the current one if its identifier is right, and are dropped otherwise.\<close>

definition reply_delta :: "string \<Rightarrow> string \<Rightarrow> 'p reply \<Rightarrow> 'p reply" where
  "reply_delta i d r =
     (if d = [] then r
      else case (if r_current r < 0 then find_index (\<lambda>t. fst t = i) (r_tools r) else Some (nat (r_current r))) of
             None \<Rightarrow> r
           | Some k \<Rightarrow>
               let (i', name, args) = r_tools r ! k
               in if i' \<noteq> i then r\<lparr>r_current := int k\<rparr>
                  else r\<lparr>r_current := int k, r_tools := (r_tools r)[k := (i', name, args @ d)]\<rparr>)"

definition tools_size :: "'p reply \<Rightarrow> nat" where
  "tools_size r = sum_list (map (\<lambda>t. length (snd (snd t))) (r_tools r))"

lemma tools_size_nth: "k < length (r_tools r) \<Longrightarrow> length (snd (snd (r_tools r ! k))) \<le> tools_size r"
  unfolding tools_size_def by (rule member_le_sum_list) auto

lemma c_text_id [simp]: "c_string s \<Longrightarrow> c_text s = s"
  by (auto simp: c_string_def c_text_def takeWhile_eq_all_conv)

lemma no_tool_iff: "stream_inv ctx \<Longrightarrow> no_tool ctx (sx_current_tool_index ctx) \<longleftrightarrow> sx_current_tool_index ctx < 0"
  by (auto simp: no_tool_def stream_inv_def)

lemma find_tool_of:
  "find_index (\<lambda>t. fst t = i) (map tool_of tools) = find_tool tools i"
  unfolding find_tool_def by (induction tools) (simp_all add: tool_of_def)

text \<open>The part of a delta behind the choice of the tool.\<close>

lemma delta_at:
  assumes "stream_inv ctx" and "k < length (sx_tool_uses ctx)" and "su_id (sx_tool_uses ctx ! k) = i"
    and "length d \<le> PTRDIFF_MAX" and "c_string d" and "d \<noteq> []" and "sx_current_tool_index ctx = int k"
  shows "effect ctx (tools_size (reply_of ctx) + length d) (reply_delta i d) (streaming_emit_tool_delta ctx i d)"
proof -
  let ?t = "sx_tool_uses ctx ! k"
  let ?args = "su_arguments_json ?t" and ?cap = "su_arguments_capacity ?t"
  let ?n = "length ?args + length d + 1"
  have t: "tool_ok ?t" using assms(1,2) by (simp add: stream_inv_def list_all_length)
  have sum: "size_add (size_add (length ?args) (length d)) 1 = ?n"
    using t assms(4) by (simp add: tool_ok_def buffer_ok_def SIZE_MAX_def PTRDIFF_MAX_def)
  have cur: "c_text ?args = ?args" using t by (simp add: tool_ok_def)
  obtain g where g: "grow_capacity ?cap ?n = Some g"
    "case g of None \<Rightarrow> ?n > SIZE_MAX div 2 | Some c \<Rightarrow> ?n \<le> c \<and> ?cap \<le> c \<and> (c = ?cap \<or> c < 2 * ?n)"
    using grow_capacity_ends[of ?cap ?n] t by (auto simp: tool_ok_def buffer_ok_def)
  have le: "length ?args \<le> tools_size (reply_of ctx)"
    using tools_size_nth[of k "reply_of ctx"] assms(2) by (simp add: reply_of_def tool_of_def)
  have room: "fits (tools_size (reply_of ctx) + length d) \<Longrightarrow> 2 * ?n \<le> PTRDIFF_MAX"
    using le by (simp add: fits_def)
  have put: "effect ctx (tools_size (reply_of ctx) + length d) (reply_delta i d)
      (Some (call cb (ctx\<lparr>sx_site := site, sx_tool_uses := (sx_tool_uses ctx)
         [k := ?t\<lparr>su_arguments_json := ?args @ d, su_arguments_capacity := c\<rparr>]\<rparr>)))"
    if "?n \<le> c" "c \<le> PTRDIFF_MAX" for c site cb
    using assms t that
    by (auto simp: effect_def stream_defs tool_ok_def c_string_def list_all_length nth_list_update reply_delta_def
        map_update tool_of_def)
  show ?thesis
  proof (cases "?n \<le> ?cap")
    case True
    with put[of ?cap "On_tool_use_delta i d" "sx_site ctx"] t assms cur sum show ?thesis
      by (simp add: streaming_emit_tool_delta_def no_tool_def Let_def store_text_def tool_ok_def buffer_ok_def)
  next
    case False
    show ?thesis
    proof (cases "\<exists>c. g = Some c \<and> sx_ok ctx (sx_site ctx) \<and> c \<le> PTRDIFF_MAX")
      case True
      then obtain c where c: "g = Some c" "sx_ok ctx (sx_site ctx)" "c \<le> PTRDIFF_MAX" "?n \<le> c"
        using g(2) by auto
      with put[of c "On_tool_use_delta i d" "Suc (sx_site ctx)"] False assms cur sum g(1) show ?thesis
        by (simp add: streaming_emit_tool_delta_def no_tool_def Let_def store_text_def)
    next
      case fail: False
      have no: "\<not> (roomy ctx \<and> fits (tools_size (reply_of ctx) + length d))"
      proof (rule notI)
        assume r: "roomy ctx \<and> fits (tools_size (reply_of ctx) + length d)"
        have small: "PTRDIFF_MAX \<le> SIZE_MAX div 2" by (simp add: SIZE_MAX_def PTRDIFF_MAX_def)
        from r room have n: "2 * ?n \<le> PTRDIFF_MAX" by blast
        with g(2) small obtain c where "g = Some c" "c = ?cap \<or> c < 2 * ?n" "?n \<le> c"
          by (cases g) simp_all
        with n t r fail show False by (auto simp: roomy_def tool_ok_def buffer_ok_def)
      qed
      have "streaming_emit_tool_delta ctx i d = Some (ctx\<lparr>sx_state := STREAM_STATE_ERROR,
          sx_site := (if g = None then sx_site ctx else Suc (sx_site ctx))\<rparr>)"
      proof (cases g)
        case None
        with False assms cur sum g(1) show ?thesis
          by (simp add: streaming_emit_tool_delta_def no_tool_def Let_def)
      next
        case (Some c)
        with fail have "\<not> (sx_ok ctx (sx_site ctx) \<and> c \<le> PTRDIFF_MAX)" by blast
        with Some False assms cur sum g(1) show ?thesis
          by (simp add: streaming_emit_tool_delta_def no_tool_def Let_def) blast
      qed
      with no assms(1) show ?thesis
        by (auto simp: effect_def stream_inv_def)
    qed
  qed
qed

lemma emit_tool_delta_effect:
  assumes "stream_inv ctx" and "length d \<le> PTRDIFF_MAX" and "c_string d"
  shows "effect ctx (tools_size (reply_of ctx) + length d) (reply_delta i d) (streaming_emit_tool_delta ctx i d)"
proof -
  let ?tools = "sx_tool_uses ctx"
  have same: "effect ctx n (reply_delta i d) (Some ctx)"
    if "k < length ?tools" "su_id (?tools ! k) \<noteq> i" "sx_current_tool_index ctx = int k" "d \<noteq> []" for k n
    using assms(1) that by (auto simp: effect_def stream_defs reply_delta_def tool_of_def)
  show ?thesis
  proof (cases "d = []")
    case True
    with assms(1) show ?thesis
      by (simp add: streaming_emit_tool_delta_def effect_def reply_delta_def)
  next
    case d: False
    show ?thesis
    proof (cases "sx_current_tool_index ctx < 0")
      case True
      show ?thesis
      proof (cases "find_tool ?tools i")
        case None
        with True d assms(1) show ?thesis
          by (auto simp: streaming_emit_tool_delta_def effect_def reply_delta_def no_tool_iff reply_of_def
              find_tool_of Let_def)
      next
        case (Some k)
        let ?ctx = "ctx\<lparr>sx_current_tool_index := int k\<rparr>"
        from Some have k: "k < length ?tools" "su_id (?tools ! k) = i"
          unfolding find_tool_def by (auto dest: find_index_SomeD)
        then have inv: "stream_inv ?ctx" using assms(1) by (simp add: stream_inv_def)
        have "streaming_emit_tool_delta ctx i d = streaming_emit_tool_delta ?ctx i d"
          using Some True d assms(1) k
          by (simp add: streaming_emit_tool_delta_def no_tool_iff no_tool_def[of ?ctx] Let_def)
        moreover have "reply_delta i d (reply_of ctx) = reply_delta i d (reply_of ?ctx)"
          using Some True d k by (simp add: reply_delta_def reply_of_def find_tool_of tool_of_def)
        moreover have "tools_size (reply_of ?ctx) = tools_size (reply_of ctx)" "roomy ctx \<longrightarrow> roomy ?ctx"
          using inv by (auto simp: tools_size_def reply_of_def roomy_def)
        ultimately show ?thesis
          using delta_at[OF inv _ _ assms(2,3) d, of k i] k by (auto simp: effect_def)
      qed
    next
      case False
      then obtain k where k: "sx_current_tool_index ctx = int k" "k < length ?tools"
        using assms(1) by (metis linorder_not_le nat_0_le not_less of_nat_less_iff stream_inv_def)
      show ?thesis
      proof (cases "su_id (?tools ! k) = i")
        case True
        with delta_at[OF assms(1) k(2) _ assms(2,3) d k(1)] show ?thesis by blast
      next
        case other: False
        with k d assms(1) same[OF k(2) other k(1) d] show ?thesis
          by (simp add: streaming_emit_tool_delta_def no_tool_def Let_def)
      qed
    qed
  qed
qed

lemma replace_arguments_inv:
  assumes "stream_inv ctx" and "length a \<le> PTRDIFF_MAX" and "c_string a"
  shows "\<exists>ctx'. streaming_replace_tool_arguments ctx i a = Some ctx' \<and> stream_inv ctx'"
proof (cases "find_tool (sx_tool_uses ctx) i")
  case (Some k)
  then have k: "k < length (sx_tool_uses ctx)"
    unfolding find_tool_def by (auto dest: find_index_SomeD)
  with assms(1) have t: "tool_ok (sx_tool_uses ctx ! k)" by (simp add: stream_inv_def list_all_length)
  have n: "size_add (length a) 1 = length a + 1"
    using assms(2) by (simp add: SIZE_MAX_def PTRDIFF_MAX_def)
  show ?thesis
    using Some k t n assms
    by (auto simp: streaming_replace_tool_arguments_def Let_def store_text_def stream_inv_def list_all_length
        nth_list_update tool_ok_def buffer_ok_def)
qed (use assms in \<open>simp add: streaming_replace_tool_arguments_def\<close>)

section \<open>Lines of a stream\<close>

text \<open>The lines of a text: what stands between the line feeds. The last one is not ended yet.\<close>

fun split_lines :: "string \<Rightarrow> string list" where
  "split_lines [] = [[]]"
| "split_lines (c # cs) =
     (if c = CHR 0x0A then [] # split_lines cs
      else case split_lines cs of [] \<Rightarrow> [[c]] | l # ls \<Rightarrow> (c # l) # ls)"

definition strip_cr :: "string \<Rightarrow> string" where
  "strip_cr s = filter (\<lambda>c. c \<noteq> CHR 0x0D) s"

lemma split_lines_ne [simp]: "split_lines s \<noteq> []"
  by (induction s) (auto split: list.split)

lemma split_lines_feed: "CHR 0x0A \<notin> set p \<Longrightarrow> split_lines (p @ CHR 0x0A # s) = p # split_lines s"
  by (induction p) auto

lemma split_lines_plain: "CHR 0x0A \<notin> set p \<Longrightarrow> split_lines p = [p]"
  by (induction p) auto

text \<open>What a line means for the reply, given what a data line means to the provider.\<close>

definition reply_line :: "(string \<Rightarrow> 'p reply \<Rightarrow> 'p reply option) \<Rightarrow> string \<Rightarrow> 'p reply \<Rightarrow> 'p reply option" where
  "reply_line spec line r =
     (if line = [] then Some r
      else if starts_with ''data: '' line
      then let payload = drop 6 line
           in if payload = ''[DONE]''
              then if r_stop r = None
                   then Some (r\<lparr>r_state := STREAM_STATE_COMPLETE, r_stop := Some ''complete''\<rparr>) else None
              else if payload = [] then Some (r\<lparr>r_state := STREAM_STATE_READING_DATA\<rparr>)
              else spec payload (r\<lparr>r_state := STREAM_STATE_READING_DATA\<rparr>)
      else if starts_with ''event: '' line
      then Some (r\<lparr>r_state := STREAM_STATE_READING_EVENT, r_event := Some (c_text (trim_event (drop 7 line)))\<rparr>)
      else Some r)"

section \<open>The HTTP callback\<close>

text \<open>The client gives every piece of the body to the callback and stops when it does not take all.\<close>

definition stream_http_callback ::
    "'p sink \<Rightarrow> 'p StreamingContext \<Rightarrow> string \<Rightarrow> (nat \<times> 'p StreamingContext) option" where
  "stream_http_callback sink ctx data =
     (if data = [] then Some (0, ctx)
      else do {
        (rc, ctx) \<leftarrow> streaming_process_chunk sink ctx data;
        Some (if rc \<noteq> 0 then 0 else length data, ctx)
      })"

fun receive :: "'p sink \<Rightarrow> string list \<Rightarrow> 'p StreamingContext \<Rightarrow> (bool \<times> 'p StreamingContext) option" where
  "receive sink [] ctx = Some (True, ctx)"
| "receive sink (d # ds) ctx = do {
     (n, ctx) \<leftarrow> stream_http_callback sink ctx d;
     if n \<noteq> length d then Some (False, ctx) else receive sink ds ctx
   }"

text \<open>Where the body is cut into pieces makes no difference.\<close>

lemma process_chunk_append:
  "streaming_process_chunk sink ctx (a @ b) = do {
     (rc, ctx) \<leftarrow> streaming_process_chunk sink ctx a;
     if rc \<noteq> 0 then Some (-1, ctx) else streaming_process_chunk sink ctx b
   }"
proof (induction a arbitrary: ctx)
  case (Cons c a)
  show ?case
  proof (cases "c = CHR 0x0A")
    case True
    then show ?thesis by (auto simp: Cons.IH bind_assoc split: Option.bind_split prod.splits)
  next
    case False
    then show ?thesis
      by (cases "c = CHR 0x0D") (auto simp: Cons.IH bind_assoc split: Option.bind_split prod.splits)
  qed
qed simp

lemma receive_concat:
  assumes "streaming_process_chunk sink ctx (concat ds) = Some (0, ctx')"
  shows "receive sink ds ctx = Some (True, ctx')"
  using assms
proof (induction ds arbitrary: ctx)
  case (Cons d ds)
  then obtain c1 where c1: "streaming_process_chunk sink ctx d = Some (0, c1)"
      "streaming_process_chunk sink c1 (concat ds) = Some (0, ctx')"
    by (auto simp: process_chunk_append bind_eq_Some_conv split: if_splits)
  with Cons.IH[OF c1(2)] show ?case
    by (auto simp: stream_http_callback_def)
qed simp

section \<open>Providers\<close>

text \<open>A provider gives data lines a meaning; \<open>spec\<close> is undefined where the meaning is not the concern of
  the contract: for texts too long for memory and for uses of freed memory.\<close>

locale stream_provider =
  fixes sink :: "'p sink" and spec :: "string \<Rightarrow> 'p reply \<Rightarrow> 'p reply option"
  assumes sink_refines: "roomy ctx \<Longrightarrow> spec payload (reply_of ctx) = Some r \<Longrightarrow>
    \<exists>ctx'. sink payload ctx = Some ctx' \<and> roomy ctx' \<and> sx_line_buffer ctx' = sx_line_buffer ctx \<and> reply_of ctx' = r"
begin

lemma sse_line_refines:
  assumes "roomy ctx" and "reply_line spec line (reply_of ctx) = Some r"
  shows "\<exists>ctx'. streaming_process_sse_line sink ctx line = Some (0, ctx') \<and> roomy ctx' \<and>
    sx_line_buffer ctx' = sx_line_buffer ctx \<and> reply_of ctx' = r"
proof -
  let ?data = "starts_with ''data: '' line" and ?payload = "drop 6 line"
  let ?ctx = "ctx\<lparr>sx_state := STREAM_STATE_READING_DATA\<rparr>"
  consider "line = []" | "line \<noteq> []" "?data" "?payload = ''[DONE]''" | "line \<noteq> []" "?data" "?payload = []"
    | "line \<noteq> []" "?data" "?payload \<noteq> ''[DONE]''" "?payload \<noteq> []"
    | "line \<noteq> []" "\<not> ?data" "starts_with ''event: '' line" | "line \<noteq> []" "\<not> ?data" "\<not> starts_with ''event: '' line"
    by blast
  then show ?thesis
  proof cases
    case 2
    with assms show ?thesis
      by (auto simp: streaming_process_sse_line_def reply_line_def streaming_emit_complete_def reason_or_def Let_def
          stream_defs split: if_splits)
  next
    case 3
    with assms show ?thesis
      by (auto simp: streaming_process_sse_line_def reply_line_def Let_def stream_defs)
  next
    case 4
    have "roomy ?ctx" using assms(1) by (simp add: stream_defs)
    moreover have "spec ?payload (reply_of ?ctx) = Some r"
      using 4 assms(2) by (simp add: reply_line_def Let_def reply_of_def)
    ultimately obtain ctx' where "sink ?payload ?ctx = Some ctx'" "roomy ctx'"
        "sx_line_buffer ctx' = sx_line_buffer ctx" "reply_of ctx' = r"
      using sink_refines by fastforce
    with 4 assms(1) show ?thesis
      by (auto simp: streaming_process_sse_line_def Let_def roomy_def)
  next
    case 5
    with assms show ?thesis
      by (auto simp: streaming_process_sse_line_def reply_line_def stream_defs)
  qed (use assms in \<open>simp_all add: streaming_process_sse_line_def reply_line_def\<close>)
qed

lemma chunk_refines:
  assumes "roomy ctx" and "CHR 0x0A \<notin> set (sx_line_buffer ctx)"
    and "fits (length (sx_line_buffer ctx) + length data)"
    and "opt_fold (reply_line spec) (butlast (split_lines (sx_line_buffer ctx @ strip_cr data))) (reply_of ctx) = Some r"
  shows "\<exists>ctx'. streaming_process_chunk sink ctx data = Some (0, ctx') \<and> roomy ctx' \<and> reply_of ctx' = r \<and>
    sx_line_buffer ctx' = last (split_lines (sx_line_buffer ctx @ strip_cr data))"
  using assms
proof (induction data arbitrary: ctx)
  case Nil
  then show ?case by (simp add: strip_cr_def split_lines_plain)
next
  case (Cons c cs)
  let ?line = "sx_line_buffer ctx"
  consider "c = CHR 0x0A" | "c = CHR 0x0D" | "c \<noteq> CHR 0x0A" "c \<noteq> CHR 0x0D" by blast
  then show ?case
  proof cases
    case 1
    then have ls: "split_lines (?line @ strip_cr (c # cs)) = ?line # split_lines (strip_cr cs)"
      using Cons.prems(2) by (simp add: strip_cr_def split_lines_feed)
    with Cons.prems(4) obtain r1 where r1: "reply_line spec ?line (reply_of ctx) = Some r1"
        "opt_fold (reply_line spec) (butlast (split_lines (strip_cr cs))) r1 = Some r"
      by (auto split: option.splits)
    obtain ctx1 where c1: "streaming_process_sse_line sink ctx ?line = Some (0, ctx1)" "roomy ctx1" "reply_of ctx1 = r1"
      using sse_line_refines[OF Cons.prems(1) r1(1)] by blast
    let ?ctx = "ctx1\<lparr>sx_line_buffer := []\<rparr>"
    have "roomy ?ctx" "reply_of ?ctx = r1" "fits (length cs)"
      using c1(2,3) Cons.prems(3) by (auto simp: stream_defs fits_def)
    with Cons.IH[of ?ctx] r1(2) obtain ctx' where "streaming_process_chunk sink ?ctx cs = Some (0, ctx')"
        "roomy ctx'" "reply_of ctx' = r" "sx_line_buffer ctx' = last (split_lines (strip_cr cs))"
      by auto
    moreover have "streaming_process_sse_line sink ctx [] = Some (0, ctx)"
      by (simp add: streaming_process_sse_line_def)
    ultimately show ?thesis
      using 1 c1(1) ls by auto
  next
    case 2
    with Cons.IH[OF Cons.prems(1,2)] Cons.prems(3,4) show ?thesis
      by (simp add: strip_cr_def fits_mono)
  next
    case 3
    have inv: "stream_inv ctx" using Cons.prems(1) by (simp add: roomy_def)
    have "fits (length ?line + 1)" using Cons.prems(3) by (rule fits_mono) simp
    then obtain ctx1 where c1: "streaming_append_char ctx c = Some (0, ctx1)" "roomy ctx1" "reply_of ctx1 = reply_of ctx"
        "sx_line_buffer ctx1 = ?line @ [c]"
      using append_char_effect[OF inv, of c] Cons.prems(1) by blast
    with Cons.IH[of ctx1] Cons.prems(2-4) 3 show ?thesis
      by (simp add: strip_cr_def)
  qed
qed

text \<open>A body that arrives in any pieces gives the reply that its lines mean.\<close>

lemma receive_refines:
  assumes "roomy ctx" and "sx_line_buffer ctx = []" and "fits (length (concat ds))"
    and "opt_fold (reply_line spec) (butlast (split_lines (strip_cr (concat ds)))) (reply_of ctx) = Some r"
  shows "\<exists>ctx'. receive sink ds ctx = Some (True, ctx') \<and> roomy ctx' \<and> reply_of ctx' = r \<and>
    sx_line_buffer ctx' = last (split_lines (strip_cr (concat ds)))"
  using chunk_refines[of ctx "concat ds" r] assms receive_concat by force

end

section \<open>Properties\<close>

lemma receive_concat_iff:
  "receive sink ds ctx = Some (True, ctx') \<longleftrightarrow> streaming_process_chunk sink ctx (concat ds) = Some (0, ctx')"
proof
  assume "receive sink ds ctx = Some (True, ctx')"
  then show "streaming_process_chunk sink ctx (concat ds) = Some (0, ctx')"
  proof (induction ds arbitrary: ctx)
    case (Cons d ds)
    then obtain n c1 where n: "stream_http_callback sink ctx d = Some (n, c1)" "n = length d"
        "receive sink ds c1 = Some (True, ctx')"
      by (auto simp: bind_eq_Some_conv split: if_splits)
    then have "streaming_process_chunk sink ctx d = Some (0, c1)"
      by (auto simp: stream_http_callback_def bind_eq_Some_conv split: if_splits)
    with Cons.IH[OF n(3)] show ?case by (simp add: process_chunk_append)
  qed simp
qed (rule receive_concat)

text \<open>C30. Chunk boundaries do not matter. Whatever the provider does with data lines: two ways to cut the
  same body into pieces lead to the same context, or both fail.\<close>

theorem chunk_boundaries_irrelevant:
  assumes "concat ds = concat ds'"
  shows "receive sink ds ctx = Some (True, ctx') \<longleftrightarrow> receive sink ds' ctx = Some (True, ctx')"
  by (simp add: receive_concat_iff assms)

definition sample_stream :: "unit StreamingContext" where
  "sample_stream = the (streaming_context_create alloc_ok ())"

theorem chunk_boundaries_irrelevant_witness:
  "concat [''event'', '': a'', [CHR 0x0A]] = concat [''e'', ''vent: a'' @ [CHR 0x0A]] \<and>
   (\<forall>ctx'. receive (\<lambda>_. Some) [''event'', '': a'', [CHR 0x0A]] sample_stream = Some (True, ctx') \<longleftrightarrow>
      receive (\<lambda>_. Some) [''e'', ''vent: a'' @ [CHR 0x0A]] sample_stream = Some (True, ctx'))"
proof -
  have c: "concat [''event'', '': a'', [CHR 0x0A]] = concat [''e'', ''vent: a'' @ [CHR 0x0A]]" by simp
  with chunk_boundaries_irrelevant[OF c] show ?thesis by blast
qed

text \<open>C21. The buffers of a stream are never overrun. A context that was created satisfies the invariant
  that every buffer has room for its contents and the terminating NUL. Every operation that adds to
  a buffer returns, so the loop that doubles its capacity ends, stores inside the capacity, and
  keeps the invariant, whether or not memory runs out.\<close>

theorem stream_buffers_safe:
  "(streaming_context_create ok p = Some ctx0 \<longrightarrow> stream_inv ctx0) \<and>
   (stream_inv ctx \<longrightarrow> length s \<le> PTRDIFF_MAX \<longrightarrow> c_string s \<longrightarrow>
      (\<exists>rc ctx'. streaming_append_char ctx c = Some (rc, ctx') \<and> stream_inv ctx') \<and>
      (\<exists>ctx'. streaming_emit_text ctx s = Some ctx' \<and> stream_inv ctx') \<and>
      (\<exists>ctx'. streaming_emit_thinking ctx s = Some ctx' \<and> stream_inv ctx') \<and>
      stream_inv (streaming_emit_tool_start ctx i name) \<and>
      (\<exists>ctx'. streaming_emit_tool_delta ctx i s = Some ctx' \<and> stream_inv ctx') \<and>
      (\<exists>ctx'. streaming_replace_tool_arguments ctx i s = Some ctx' \<and> stream_inv ctx'))"
proof -
  have "stream_inv ctx0" if "streaming_context_create ok p = Some ctx0"
    using that by (auto simp: streaming_context_create_def stream_inv_def buffer_ok_def INITIAL_LINE_BUFFER_CAPACITY_def
        INITIAL_TEXT_CAPACITY_def INITIAL_THINKING_CAPACITY_def PTRDIFF_MAX_def split: if_splits)
  moreover have "stream_inv (streaming_emit_tool_start ctx i name)" if "stream_inv ctx"
    using emit_tool_start_effect[OF that, of i name] by (simp add: effect_def)
  ultimately show ?thesis
    using append_char_effect[of ctx c] emit_text_effect[of ctx s] emit_thinking_effect[of ctx s]
      emit_tool_delta_effect[of ctx s i] replace_arguments_inv[of ctx s i]
    unfolding effect_def by blast
qed

theorem stream_buffers_safe_witness:
  "stream_inv sample_stream \<and> (\<exists>ctx'. streaming_emit_text sample_stream ''abc'' = Some ctx' \<and> stream_inv ctx')"
proof -
  have "streaming_context_create alloc_ok () = Some sample_stream"
    by (simp add: sample_stream_def streaming_context_create_def)
  moreover have "length ''abc'' \<le> PTRDIFF_MAX" "c_string ''abc''"
    by (simp_all add: PTRDIFF_MAX_def c_string_def)
  ultimately show ?thesis
    using stream_buffers_safe[of alloc_ok "()" sample_stream sample_stream "''abc''"] by blast
qed

text \<open>The growth loop does not end for a capacity of 0, which no buffer has.\<close>

lemma grow_capacity_zero: "grow_capacity 0 needed = Some r \<Longrightarrow> needed = 0"
proof -
  have "capacity = 0 \<longrightarrow> needed = 0" if "grow_capacity capacity needed = Some r" for capacity
    by (rule grow_capacity.raw_induct[where P = "\<lambda>capacity needed r. capacity = 0 \<longrightarrow> needed = 0", OF _ that])
      (fastforce split: if_splits)
  then show "grow_capacity 0 needed = Some r \<Longrightarrow> needed = 0" by blast
qed

end
