(* ===== verification/Stream_Providers.thy ===== *)
theory Stream_Providers
  imports Streaming Tool_Args
begin

text \<open>
  What the providers make of the data lines of a stream, from \<^verbatim>\<open>anthropic_provider.c\<close>,
  \<^verbatim>\<open>openai_provider.c\<close> and \<^verbatim>\<open>local_ai_provider.c\<close> in \<^verbatim>\<open>lib/llm/providers\<close>, and the callback of
  \<^verbatim>\<open>lib/agent/streaming_handler.c\<close> that hands them the lines.

  JSON is the argument \<open>js\<close>, with \<open>pwl\<close> for \<^verbatim>\<open>cJSON_ParseWithLength\<close>. The variables of a thread that
  the Anthropic provider keeps between events are the \<open>user_data\<close> of the context.
\<close>

section \<open>Anthropic\<close>

record anthropic_tls =
  current_block_type :: "string option"
  current_tool_id :: "string option"

definition anthropic_cleanup_stream_state_internal ::
    "anthropic_tls StreamingContext \<Rightarrow> anthropic_tls StreamingContext" where
  "anthropic_cleanup_stream_state_internal ctx =
     ctx\<lparr>user_data := \<lparr>current_block_type = None, current_tool_id = None\<rparr>\<rparr>"

text \<open>A member of an object that may be missing.\<close>

definition jitem :: "'j cjson \<Rightarrow> 'j option \<Rightarrow> string \<Rightarrow> 'j option" where
  "jitem js j key = Option.bind j (\<lambda>v. cJSON_GetObjectItem js v key)"

definition jint :: "'j cjson \<Rightarrow> 'j option \<Rightarrow> int option" where
  "jint js j = (case j of None \<Rightarrow> None | Some v \<Rightarrow> if cJSON_IsNumber js v then Some (cJSON_valueint js v) else None)"

definition on_message_start :: "'j cjson \<Rightarrow> 'j \<Rightarrow> anthropic_tls StreamingContext \<Rightarrow> anthropic_tls StreamingContext" where
  "on_message_start js root ctx =
     (let ctx = anthropic_cleanup_stream_state_internal ctx
      in case jint js (jitem js (jitem js (jitem js (Some root) ''message'') ''usage'') ''input_tokens'') of
           None \<Rightarrow> ctx
         | Some n \<Rightarrow> ctx\<lparr>sx_input_tokens := n\<rparr>)"

text \<open>Sites: the type of the block, and the identifier of its tool.\<close>

definition on_content_block_start ::
    "'j cjson \<Rightarrow> 'j \<Rightarrow> anthropic_tls StreamingContext \<Rightarrow> anthropic_tls StreamingContext" where
  "on_content_block_start js root ctx =
     (let content_block = jitem js (Some root) ''content_block''
      in case jstring js (jitem js content_block ''type'') of
           None \<Rightarrow> ctx
         | Some block_type \<Rightarrow>
             (let s = sx_site ctx; ok = sx_ok ctx;
                  ctx = ctx\<lparr>user_data := (user_data ctx)\<lparr>current_block_type := (if ok s then Some block_type else None)\<rparr>,
                            sx_site := s + 1\<rparr>
              in if block_type = ''tool_use''
                 then case (jstring js (jitem js content_block ''id''), jstring js (jitem js content_block ''name'')) of
                        (Some i, Some name) \<Rightarrow>
                          streaming_emit_tool_start
                            (ctx\<lparr>user_data := (user_data ctx)\<lparr>current_tool_id := (if ok (s + 1) then Some i else None)\<rparr>,
                                 sx_site := s + 2\<rparr>) i name
                      | _ \<Rightarrow> ctx
                 else ctx))"

definition on_content_block_delta ::
    "'j cjson \<Rightarrow> 'j \<Rightarrow> anthropic_tls StreamingContext \<Rightarrow> anthropic_tls StreamingContext option" where
  "on_content_block_delta js root ctx =
     (let delta = jitem js (Some root) ''delta''
      in case jstring js (jitem js delta ''type'') of
           None \<Rightarrow> Some ctx
         | Some delta_type \<Rightarrow>
             if delta_type = ''text_delta''
             then (case jstring js (jitem js delta ''text'') of
                     None \<Rightarrow> Some ctx | Some txt \<Rightarrow> streaming_emit_text ctx txt)
             else if delta_type = ''thinking_delta''
             then (case jstring js (jitem js delta ''thinking'') of
                     None \<Rightarrow> Some ctx | Some txt \<Rightarrow> streaming_emit_thinking ctx txt)
             else if delta_type = ''input_json_delta''
             then (case (jstring js (jitem js delta ''partial_json''), current_tool_id (user_data ctx)) of
                     (Some d, Some i) \<Rightarrow> streaming_emit_tool_delta ctx i d
                   | _ \<Rightarrow> Some ctx)
             else Some ctx)"

definition on_message_delta :: "'j cjson \<Rightarrow> 'j \<Rightarrow> anthropic_tls StreamingContext \<Rightarrow> anthropic_tls StreamingContext" where
  "on_message_delta js root ctx =
     (let ctx = (case jstring js (jitem js (jitem js (Some root) ''delta'') ''stop_reason'') of
                   None \<Rightarrow> ctx
                 | Some s \<Rightarrow> ctx\<lparr>sx_stop_reason := (if sx_ok ctx (sx_site ctx) then Some s else None),
                                 sx_site := Suc (sx_site ctx)\<rparr>)
      in case jint js (jitem js (jitem js (Some root) ''usage'') ''output_tokens'') of
           None \<Rightarrow> ctx
         | Some n \<Rightarrow> ctx\<lparr>sx_output_tokens := n\<rparr>)"

definition on_error_event :: "'j cjson \<Rightarrow> 'j \<Rightarrow> anthropic_tls StreamingContext \<Rightarrow> anthropic_tls StreamingContext" where
  "on_error_event js root ctx =
     anthropic_cleanup_stream_state_internal
       (case jstring js (jitem js (jitem js (Some root) ''error'') ''message'') of
          None \<Rightarrow> ctx
        | Some m \<Rightarrow> streaming_emit_error ctx (Some m))"

definition anthropic_parse_stream_event ::
    "(string \<Rightarrow> 'j option) \<Rightarrow> 'j cjson \<Rightarrow> string \<Rightarrow> anthropic_tls StreamingContext
     \<Rightarrow> (int \<times> anthropic_tls StreamingContext) option" where
  "anthropic_parse_stream_event pwl js json_data ctx =
     (if json_data = [] then Some (-1, ctx)
      else case pwl json_data of
        None \<Rightarrow> Some (-1, ctx)
      | Some root \<Rightarrow>
          (case jstring js (cJSON_GetObjectItem js root ''type'') of
             None \<Rightarrow> Some (-1, ctx)
           | Some type_str \<Rightarrow>
               map_option (\<lambda>ctx. (0, ctx))
                 (if type_str = ''message_start'' then Some (on_message_start js root ctx)
                  else if type_str = ''content_block_start'' then Some (on_content_block_start js root ctx)
                  else if type_str = ''content_block_delta'' then on_content_block_delta js root ctx
                  else if type_str = ''content_block_stop''
                  then Some (ctx\<lparr>user_data := (user_data ctx)\<lparr>current_block_type := None\<rparr>\<rparr>)
                  else if type_str = ''message_delta'' then Some (on_message_delta js root ctx)
                  else if type_str = ''message_stop''
                  then map_option anthropic_cleanup_stream_state_internal
                         (streaming_emit_complete ctx (reason_or ctx ''end_turn''))
                  else if type_str = ''error'' then Some (on_error_event js root ctx)
                  else Some ctx)))"

section \<open>OpenAI\<close>

text \<open>One element of the array of tool calls. \<^verbatim>\<open>(size_t)index\<close> of a negative index is beyond any array.\<close>

definition delta_target :: "'p StreamingContext \<Rightarrow> int \<Rightarrow> string option" where
  "delta_target ctx index =
     (if 0 \<le> index \<and> nat index < length (sx_tool_uses ctx) then Some (su_id (sx_tool_uses ctx ! nat index))
      else if 0 \<le> sx_current_tool_index ctx \<and> nat (sx_current_tool_index ctx) < length (sx_tool_uses ctx)
      then Some (su_id (sx_tool_uses ctx ! nat (sx_current_tool_index ctx)))
      else None)"

definition openai_tool_call :: "'j cjson \<Rightarrow> 'j \<Rightarrow> 'p StreamingContext \<Rightarrow> 'p StreamingContext option" where
  "openai_tool_call js tool_call ctx =
     (let index = (case jint js (cJSON_GetObjectItem js tool_call ''index'') of None \<Rightarrow> 0 | Some n \<Rightarrow> n);
          ident = cJSON_GetObjectItem js tool_call ''id''
      in case cJSON_GetObjectItem js tool_call ''function'' of
           None \<Rightarrow> Some ctx
         | Some fun_obj \<Rightarrow>
             let name = cJSON_GetObjectItem js fun_obj ''name'';
                 ctx = (case (jstring js ident, jstring js name) of
                          (Some i, Some n) \<Rightarrow> streaming_emit_tool_start ctx i n
                        | _ \<Rightarrow> ctx)
             in case jstring js (cJSON_GetObjectItem js fun_obj ''arguments'') of
                  None \<Rightarrow> Some ctx
                | Some arguments \<Rightarrow>
                    if arguments = [] then Some ctx
                    else case delta_target ctx index of
                           None \<Rightarrow> Some ctx
                         | Some tool_id \<Rightarrow> streaming_emit_tool_delta ctx tool_id arguments)"

definition openai_parse_tool_call_delta :: "'j cjson \<Rightarrow> 'j \<Rightarrow> 'p StreamingContext \<Rightarrow> 'p StreamingContext option" where
  "openai_parse_tool_call_delta js tool_calls ctx =
     (if \<not> cJSON_IsArray js tool_calls then Some ctx
      else opt_fold (openai_tool_call js) (cJSON_elements js tool_calls) ctx)"

text \<open>The first choice of a chunk, and the numbers of tokens.\<close>

definition openai_delta :: "'j cjson \<Rightarrow> 'j option \<Rightarrow> 'p StreamingContext \<Rightarrow> 'p StreamingContext option" where
  "openai_delta js delta ctx =
     (case delta of
        None \<Rightarrow> Some ctx
      | Some d \<Rightarrow> do {
          ctx \<leftarrow> (case jstring js (cJSON_GetObjectItem js d ''content'') of
                    None \<Rightarrow> Some ctx | Some txt \<Rightarrow> streaming_emit_text ctx txt);
          case cJSON_GetObjectItem js d ''tool_calls'' of
            None \<Rightarrow> Some ctx
          | Some tool_calls \<Rightarrow> openai_parse_tool_call_delta js tool_calls ctx
        })"

definition openai_finish :: "'j cjson \<Rightarrow> 'j \<Rightarrow> 'p StreamingContext \<Rightarrow> 'p StreamingContext" where
  "openai_finish js choice ctx =
     (case jstring js (cJSON_GetObjectItem js choice ''finish_reason'') of
        None \<Rightarrow> ctx
      | Some s \<Rightarrow> ctx\<lparr>sx_stop_reason := (if sx_ok ctx (sx_site ctx) then Some s else None), sx_site := Suc (sx_site ctx)\<rparr>)"

definition openai_usage :: "'j cjson \<Rightarrow> 'j \<Rightarrow> 'p StreamingContext \<Rightarrow> 'p StreamingContext" where
  "openai_usage js root ctx =
     (let usage = cJSON_GetObjectItem js root ''usage'';
          ctx = (case jint js (jitem js usage ''prompt_tokens'') of None \<Rightarrow> ctx | Some n \<Rightarrow> ctx\<lparr>sx_input_tokens := n\<rparr>)
      in case jint js (jitem js usage ''completion_tokens'') of None \<Rightarrow> ctx | Some n \<Rightarrow> ctx\<lparr>sx_output_tokens := n\<rparr>)"

definition first_choice :: "'j cjson \<Rightarrow> 'j \<Rightarrow> 'j option" where
  "first_choice js root =
     (case cJSON_GetObjectItem js root ''choices'' of
        None \<Rightarrow> None
      | Some choices \<Rightarrow>
          if cJSON_IsArray js choices \<and> cJSON_elements js choices \<noteq> [] then Some (hd (cJSON_elements js choices)) else None)"

definition openai_parse_stream_event ::
    "(string \<Rightarrow> 'j option) \<Rightarrow> 'j cjson \<Rightarrow> string \<Rightarrow> 'p StreamingContext \<Rightarrow> (int \<times> 'p StreamingContext) option" where
  "openai_parse_stream_event pwl js json_data ctx =
     (if json_data = [] then Some (-1, ctx)
      else if json_data = ''[DONE]'' then Some (0, ctx)
      else case pwl json_data of
        None \<Rightarrow> Some (-1, ctx)
      | Some root \<Rightarrow> do {
          ctx \<leftarrow> (case first_choice js root of
                    None \<Rightarrow> Some ctx
                  | Some choice \<Rightarrow>
                      map_option (openai_finish js choice) (openai_delta js (cJSON_GetObjectItem js choice ''delta'') ctx));
          Some (0, openai_usage js root ctx)
        })"

section \<open>Local servers\<close>

text \<open>The same format, in code of its own: here a stop reason that cannot be copied leaves the old one.\<close>

definition local_ai_tool_call :: "'j cjson \<Rightarrow> 'j \<Rightarrow> 'p StreamingContext \<Rightarrow> 'p StreamingContext option" where
  "local_ai_tool_call js tool_call ctx =
     (let index = (case jint js (cJSON_GetObjectItem js tool_call ''index'') of None \<Rightarrow> 0 | Some n \<Rightarrow> n)
      in case cJSON_GetObjectItem js tool_call ''function'' of
           None \<Rightarrow> Some ctx
         | Some fun_obj \<Rightarrow>
             let ctx = (case (jstring js (cJSON_GetObjectItem js tool_call ''id''),
                              jstring js (cJSON_GetObjectItem js fun_obj ''name'')) of
                          (Some i, Some n) \<Rightarrow> streaming_emit_tool_start ctx i n
                        | _ \<Rightarrow> ctx)
             in case jstring js (cJSON_GetObjectItem js fun_obj ''arguments'') of
                  None \<Rightarrow> Some ctx
                | Some arguments \<Rightarrow>
                    if arguments = [] then Some ctx
                    else case delta_target ctx index of
                           None \<Rightarrow> Some ctx
                         | Some tool_id \<Rightarrow> streaming_emit_tool_delta ctx tool_id arguments)"

definition local_ai_parse_tool_call_delta :: "'j cjson \<Rightarrow> 'j \<Rightarrow> 'p StreamingContext \<Rightarrow> 'p StreamingContext option" where
  "local_ai_parse_tool_call_delta js tool_calls ctx =
     (if \<not> cJSON_IsArray js tool_calls then Some ctx
      else opt_fold (local_ai_tool_call js) (cJSON_elements js tool_calls) ctx)"

definition local_ai_choice :: "'j cjson \<Rightarrow> 'j \<Rightarrow> 'p StreamingContext \<Rightarrow> 'p StreamingContext option" where
  "local_ai_choice js choice ctx = do {
     ctx \<leftarrow> (case cJSON_GetObjectItem js choice ''delta'' of
               None \<Rightarrow> Some ctx
             | Some d \<Rightarrow> do {
                 ctx \<leftarrow> (case jstring js (cJSON_GetObjectItem js d ''content'') of
                           None \<Rightarrow> Some ctx | Some txt \<Rightarrow> streaming_emit_text ctx txt);
                 case cJSON_GetObjectItem js d ''tool_calls'' of
                   None \<Rightarrow> Some ctx
                 | Some tool_calls \<Rightarrow> local_ai_parse_tool_call_delta js tool_calls ctx
               });
     Some (case jstring js (cJSON_GetObjectItem js choice ''finish_reason'') of
             None \<Rightarrow> ctx
           | Some s \<Rightarrow> if sx_ok ctx (sx_site ctx)
                       then ctx\<lparr>sx_stop_reason := Some s, sx_site := Suc (sx_site ctx)\<rparr>
                       else ctx\<lparr>sx_site := Suc (sx_site ctx)\<rparr>)
   }"

definition local_ai_parse_stream_event ::
    "(string \<Rightarrow> 'j option) \<Rightarrow> 'j cjson \<Rightarrow> string \<Rightarrow> 'p StreamingContext \<Rightarrow> (int \<times> 'p StreamingContext) option" where
  "local_ai_parse_stream_event pwl js json_data ctx =
     (if json_data = [] then Some (-1, ctx)
      else if json_data = ''[DONE]'' then Some (0, ctx)
      else case pwl json_data of
        None \<Rightarrow> Some (-1, ctx)
      | Some root \<Rightarrow> do {
          ctx \<leftarrow> (case first_choice js root of None \<Rightarrow> Some ctx | Some choice \<Rightarrow> local_ai_choice js choice ctx);
          Some (0, openai_usage js root ctx)
        })"

section \<open>The callback\<close>

text \<open>Data lines are dropped once an interrupt is pending, and the return code is ignored.\<close>

definition streaming_sse_data_callback ::
    "bool \<Rightarrow> (string \<Rightarrow> 'p StreamingContext \<Rightarrow> (int \<times> 'p StreamingContext) option) \<Rightarrow> 'p sink" where
  "streaming_sse_data_callback interrupted parse_stream_event data ctx =
     (if data = [] then Some ctx
      else if interrupted then Some ctx
      else map_option snd (parse_stream_event data ctx))"

section \<open>What Anthropic events mean\<close>

datatype aevent =
  Message_start "int option"
| Block_start string
| Tool_use string string
| Text_delta string
| Thinking_delta string
| Json_delta string
| Block_stop
| Message_delta "string option" "int option"
| Message_stop
| Error_event "string option"
| Ignored

definition delta_event :: "'j cjson \<Rightarrow> 'j option \<Rightarrow> aevent" where
  "delta_event js delta =
     (let txt = (\<lambda>key mk. case jstring js (jitem js delta key) of None \<Rightarrow> Ignored | Some s \<Rightarrow> mk s)
      in case jstring js (jitem js delta ''type'') of
           None \<Rightarrow> Ignored
         | Some t \<Rightarrow>
             if t = ''text_delta'' then txt ''text'' Text_delta
             else if t = ''thinking_delta'' then txt ''thinking'' Thinking_delta
             else if t = ''input_json_delta'' then txt ''partial_json'' Json_delta
             else Ignored)"

definition block_event :: "'j cjson \<Rightarrow> 'j option \<Rightarrow> aevent" where
  "block_event js block =
     (case jstring js (jitem js block ''type'') of
        None \<Rightarrow> Ignored
      | Some t \<Rightarrow>
          (case (jstring js (jitem js block ''id''), jstring js (jitem js block ''name'')) of
             (Some i, Some n) \<Rightarrow> if t = ''tool_use'' then Tool_use i n else Block_start t
           | _ \<Rightarrow> Block_start t))"

definition anthropic_event :: "'j cjson \<Rightarrow> 'j \<Rightarrow> aevent" where
  "anthropic_event js root =
     (let item = jitem js (Some root)
      in case jstring js (item ''type'') of
           None \<Rightarrow> Ignored
         | Some t \<Rightarrow>
             if t = ''message_start''
             then Message_start (jint js (jitem js (jitem js (item ''message'') ''usage'') ''input_tokens''))
             else if t = ''content_block_start'' then block_event js (item ''content_block'')
             else if t = ''content_block_delta'' then delta_event js (item ''delta'')
             else if t = ''content_block_stop'' then Block_stop
             else if t = ''message_delta''
             then Message_delta (jstring js (jitem js (item ''delta'') ''stop_reason''))
                    (jint js (jitem js (item ''usage'') ''output_tokens''))
             else if t = ''message_stop'' then Message_stop
             else if t = ''error'' then Error_event (jstring js (jitem js (item ''error'') ''message''))
             else Ignored)"

definition fresh_tls :: anthropic_tls where
  "fresh_tls = \<lparr>current_block_type = None, current_tool_id = None\<rparr>"

fun reply_event :: "aevent \<Rightarrow> anthropic_tls reply \<Rightarrow> anthropic_tls reply option" where
  "reply_event (Message_start n) r =
     Some (r\<lparr>r_provider := fresh_tls,
             r_tokens := (case n of None \<Rightarrow> fst (r_tokens r) | Some k \<Rightarrow> k, snd (r_tokens r))\<rparr>)"
| "reply_event (Block_start t) r = Some (r\<lparr>r_provider := (r_provider r)\<lparr>current_block_type := Some t\<rparr>\<rparr>)"
| "reply_event (Tool_use i n) r =
     Some (r\<lparr>r_provider := \<lparr>current_block_type = Some ''tool_use'', current_tool_id = Some i\<rparr>,
             r_tools := r_tools r @ [(i, n, [])], r_current := int (length (r_tools r))\<rparr>)"
| "reply_event (Text_delta s) r =
     (if fits (length (r_text r) + length s) then Some (r\<lparr>r_text := r_text r @ s\<rparr>) else None)"
| "reply_event (Thinking_delta s) r =
     (if fits (length (r_thinking r) + length s) then Some (r\<lparr>r_thinking := r_thinking r @ s\<rparr>) else None)"
| "reply_event (Json_delta d) r =
     (case current_tool_id (r_provider r) of
        None \<Rightarrow> Some r
      | Some i \<Rightarrow> if fits (tools_size r + length d) \<and> c_string d then Some (reply_delta i d r) else None)"
| "reply_event Block_stop r = Some (r\<lparr>r_provider := (r_provider r)\<lparr>current_block_type := None\<rparr>\<rparr>)"
| "reply_event (Message_delta stop n) r =
     Some (r\<lparr>r_stop := (case stop of None \<Rightarrow> r_stop r | Some s \<Rightarrow> Some s),
             r_tokens := (fst (r_tokens r), case n of None \<Rightarrow> snd (r_tokens r) | Some k \<Rightarrow> k)\<rparr>)"
| "reply_event Message_stop r =
     (if r_stop r = None
      then Some (r\<lparr>r_state := STREAM_STATE_COMPLETE, r_stop := Some ''end_turn'', r_provider := fresh_tls\<rparr>) else None)"
| "reply_event (Error_event m) r =
     Some (case m of
             None \<Rightarrow> r\<lparr>r_provider := fresh_tls\<rparr>
           | Some e \<Rightarrow> r\<lparr>r_state := STREAM_STATE_ERROR, r_error := Some e, r_provider := fresh_tls\<rparr>)"
| "reply_event Ignored r = Some r"

definition payload_event :: "(string \<Rightarrow> 'j option) \<Rightarrow> 'j cjson \<Rightarrow> string \<Rightarrow> aevent" where
  "payload_event pwl js payload = (case pwl payload of None \<Rightarrow> Ignored | Some root \<Rightarrow> anthropic_event js root)"

definition anthropic_spec ::
    "(string \<Rightarrow> 'j option) \<Rightarrow> 'j cjson \<Rightarrow> string \<Rightarrow> anthropic_tls reply \<Rightarrow> anthropic_tls reply option" where
  "anthropic_spec pwl js payload r = (if payload = [] then Some r else reply_event (payload_event pwl js payload) r)"

text \<open>An operation with an effect refines the event, if the pending line is kept.\<close>

definition refines ::
    "'p StreamingContext \<Rightarrow> 'p reply \<Rightarrow> 'p StreamingContext option \<Rightarrow> bool" where
  "refines ctx r x \<longleftrightarrow>
     (\<exists>ctx'. x = Some ctx' \<and> roomy ctx' \<and> sx_line_buffer ctx' = sx_line_buffer ctx \<and> reply_of ctx' = r)"

lemma refines_effect: "effect ctx n f x \<Longrightarrow> roomy ctx \<Longrightarrow> fits n \<Longrightarrow> refines ctx (f (reply_of ctx)) x"
  by (auto simp: effect_def refines_def)

lemma fits_bound: "fits n \<Longrightarrow> n \<le> PTRDIFF_MAX"
  by (simp add: fits_def)

lemma reply_of_fields [simp]:
  "r_text (reply_of ctx) = sx_text_content ctx" "r_thinking (reply_of ctx) = sx_thinking_content ctx"
  "r_provider (reply_of ctx) = user_data ctx" "r_stop (reply_of ctx) = sx_stop_reason ctx"
  "r_tokens (reply_of ctx) = (sx_input_tokens ctx, sx_output_tokens ctx)"
  "r_tools (reply_of ctx) = map tool_of (sx_tool_uses ctx)"
  by (simp_all add: reply_of_def)

lemma delta_refines:
  assumes "roomy ctx" and "reply_event (delta_event js (jitem js (Some root) ''delta'')) (reply_of ctx) = Some r"
  shows "refines ctx r (on_content_block_delta js root ctx)"
proof -
  let ?delta = "jitem js (Some root) ''delta''"
  have inv: "stream_inv ctx" using assms(1) by (simp add: roomy_def)
  have tex: "refines ctx r (streaming_emit_text ctx s)" if "reply_event (Text_delta s) (reply_of ctx) = Some r" for s
    using that refines_effect[OF emit_text_effect[OF inv, of s] assms(1)]
    by (auto split: if_splits dest: fits_bound)
  have think: "refines ctx r (streaming_emit_thinking ctx s)"
    if "reply_event (Thinking_delta s) (reply_of ctx) = Some r" for s
    using that refines_effect[OF emit_thinking_effect[OF inv, of s] assms(1)]
    by (auto split: if_splits dest: fits_bound)
  have json: "refines ctx r (case current_tool_id (user_data ctx) of None \<Rightarrow> Some ctx
      | Some i \<Rightarrow> streaming_emit_tool_delta ctx i s)"
    if "reply_event (Json_delta s) (reply_of ctx) = Some r" for s
    using that refines_effect[OF emit_tool_delta_effect[OF inv, of s] assms(1)] assms(1)
    by (auto simp: refines_def split: if_splits option.splits dest: fits_bound)
  have idle: "refines ctx r (Some ctx)" if "reply_event Ignored (reply_of ctx) = Some r"
    using that assms(1) by (simp add: refines_def)
  show ?thesis
    using assms(2) tex think json idle
    by (auto simp: on_content_block_delta_def delta_event_def Let_def split: option.splits if_splits)
qed

lemma roomy_update [simp]:
  "roomy (ctx\<lparr>user_data := u\<rparr>) = roomy ctx" "roomy (ctx\<lparr>sx_site := n\<rparr>) = roomy ctx"
  "roomy (ctx\<lparr>sx_state := st\<rparr>) = roomy ctx" "roomy (ctx\<lparr>sx_input_tokens := i\<rparr>) = roomy ctx"
  "roomy (ctx\<lparr>sx_output_tokens := i\<rparr>) = roomy ctx" "roomy (ctx\<lparr>sx_stop_reason := so\<rparr>) = roomy ctx"
  "roomy (ctx\<lparr>sx_error_message := so\<rparr>) = roomy ctx" "roomy (call cb ctx) = roomy ctx"
  by (simp_all add: roomy_def stream_inv_def)

lemma anthropic_tls_updates [simp]:
  "(u::anthropic_tls)\<lparr>current_block_type := a, current_tool_id := b\<rparr> = \<lparr>current_block_type = a, current_tool_id = b\<rparr>"
  by (cases u) simp

lemma block_refines:
  assumes "roomy ctx" and "reply_event (block_event js (jitem js (Some root) ''content_block'')) (reply_of ctx) = Some r"
  shows "refines ctx r (Some (on_content_block_start js root ctx))"
proof -
  let ?block = "jitem js (Some root) ''content_block''"
  have ok: "sx_ok ctx n" for n using assms(1) by (simp add: roomy_def)
  have start: "refines ctx r (Some (streaming_emit_tool_start
      (ctx\<lparr>user_data := \<lparr>current_block_type = Some ''tool_use'', current_tool_id = Some i\<rparr>, sx_site := n\<rparr>) i name))"
    if "reply_event (Tool_use i name) (reply_of ctx) = Some r" for i name n
  proof -
    let ?ctx = "ctx\<lparr>user_data := \<lparr>current_block_type = Some ''tool_use'', current_tool_id = Some i\<rparr>, sx_site := n\<rparr>"
    have "roomy ?ctx" using assms(1) by simp
    moreover have "fits 0" by (simp add: fits_def PTRDIFF_MAX_def)
    ultimately have "refines ?ctx ((\<lambda>r. r\<lparr>r_tools := r_tools r @ [(i, name, [])], r_current := int (length (r_tools r))\<rparr>)
        (reply_of ?ctx)) (Some (streaming_emit_tool_start ?ctx i name))"
      by (intro refines_effect[OF emit_tool_start_effect]) (auto simp: roomy_def)
    moreover have "(\<lambda>r. r\<lparr>r_tools := r_tools r @ [(i, name, [])], r_current := int (length (r_tools r))\<rparr>) (reply_of ?ctx) = r"
      using that by (simp add: reply_of_def)
    ultimately show ?thesis by (simp add: refines_def)
  qed
  have other: "refines ctx r (Some (ctx\<lparr>user_data := (user_data ctx)\<lparr>current_block_type := Some t\<rparr>, sx_site := n\<rparr>))"
    if "reply_event (Block_start t) (reply_of ctx) = Some r" for t n
    using that assms(1) by (auto simp: refines_def reply_of_def)
  have idle: "refines ctx r (Some ctx)" if "reply_event Ignored (reply_of ctx) = Some r"
    using that assms(1) by (simp add: refines_def)
  show ?thesis
    using assms(2) start other idle ok
    by (auto simp: on_content_block_start_def block_event_def Let_def split: option.splits if_splits)
qed

lemma message_refines:
  assumes "roomy ctx"
  shows "reply_event (Message_start (jint js (jitem js (jitem js (jitem js (Some root) ''message'') ''usage'') ''input_tokens'')))
      (reply_of ctx) = Some r \<Longrightarrow> refines ctx r (Some (on_message_start js root ctx))"
    and "reply_event (Message_delta (jstring js (jitem js (jitem js (Some root) ''delta'') ''stop_reason''))
        (jint js (jitem js (jitem js (Some root) ''usage'') ''output_tokens''))) (reply_of ctx) = Some r \<Longrightarrow>
      refines ctx r (Some (on_message_delta js root ctx))"
    and "reply_event (Error_event (jstring js (jitem js (jitem js (Some root) ''error'') ''message''))) (reply_of ctx) = Some r \<Longrightarrow>
      refines ctx r (Some (on_error_event js root ctx))"
    and "reply_event Message_stop (reply_of ctx) = Some r \<Longrightarrow>
      refines ctx r (map_option anthropic_cleanup_stream_state_internal
        (streaming_emit_complete ctx (reason_or ctx ''end_turn'')))"
    and "reply_event Block_stop (reply_of ctx) = Some r \<Longrightarrow>
      refines ctx r (Some (ctx\<lparr>user_data := (user_data ctx)\<lparr>current_block_type := None\<rparr>\<rparr>))"
proof -
  have ok: "sx_ok ctx n" for n using assms by (simp add: roomy_def)
  note defs = refines_def reply_of_def fresh_tls_def anthropic_cleanup_stream_state_internal_def Let_def ok
  show "reply_event (Message_start (jint js (jitem js (jitem js (jitem js (Some root) ''message'') ''usage'') ''input_tokens'')))
      (reply_of ctx) = Some r \<Longrightarrow> refines ctx r (Some (on_message_start js root ctx))"
    by (auto simp: on_message_start_def defs assms split: option.splits)
  show "reply_event (Message_delta (jstring js (jitem js (jitem js (Some root) ''delta'') ''stop_reason''))
        (jint js (jitem js (jitem js (Some root) ''usage'') ''output_tokens''))) (reply_of ctx) = Some r \<Longrightarrow>
      refines ctx r (Some (on_message_delta js root ctx))"
    by (auto simp: on_message_delta_def defs assms split: option.splits)
  show "reply_event (Error_event (jstring js (jitem js (jitem js (Some root) ''error'') ''message''))) (reply_of ctx) = Some r \<Longrightarrow>
      refines ctx r (Some (on_error_event js root ctx))"
    by (auto simp: on_error_event_def streaming_emit_error_def defs assms split: option.splits)
  show "reply_event Message_stop (reply_of ctx) = Some r \<Longrightarrow>
      refines ctx r (map_option anthropic_cleanup_stream_state_internal
        (streaming_emit_complete ctx (reason_or ctx ''end_turn'')))"
    by (auto simp: streaming_emit_complete_def reason_or_def defs assms split: if_splits)
  show "reply_event Block_stop (reply_of ctx) = Some r \<Longrightarrow>
      refines ctx r (Some (ctx\<lparr>user_data := (user_data ctx)\<lparr>current_block_type := None\<rparr>\<rparr>))"
    by (auto simp: defs assms)
qed

lemma anthropic_refines:
  assumes "roomy ctx" and "anthropic_spec pwl js payload (reply_of ctx) = Some r"
  shows "refines ctx r (streaming_sse_data_callback False (anthropic_parse_stream_event pwl js) payload ctx)"
proof (cases "payload = [] \<or> pwl payload = None")
  case True
  with assms show ?thesis
    by (auto simp: anthropic_spec_def payload_event_def streaming_sse_data_callback_def anthropic_parse_stream_event_def
        refines_def)
next
  case False
  then obtain root where root: "pwl payload = Some root" "payload \<noteq> []" by blast
  then have e: "reply_event (anthropic_event js root) (reply_of ctx) = Some r"
    using assms(2) by (simp add: anthropic_spec_def payload_event_def)
  have idle: "refines ctx r (Some ctx)" if "reply_event Ignored (reply_of ctx) = Some r"
    using that assms(1) by (simp add: refines_def)
  have item: "jitem js (Some root) k = cJSON_GetObjectItem js root k" for k
    by (simp add: jitem_def)
  note parts = message_refines(1-3)[OF assms(1), where js = js and root = root and r = r]
    message_refines(4-5)[OF assms(1), where r = r] delta_refines[OF assms(1), where js = js and root = root and r = r]
    block_refines[OF assms(1), where js = js and root = root and r = r] idle
  have cb: "streaming_sse_data_callback False (anthropic_parse_stream_event pwl js) payload ctx =
      map_option snd (anthropic_parse_stream_event pwl js payload ctx)"
    using root(2) by (simp add: streaming_sse_data_callback_def)
  have snd: "map_option snd (map_option (\<lambda>c. (0::int, c)) x) = x" for x :: "anthropic_tls StreamingContext option"
    by (cases x) simp_all
  show ?thesis
  proof (cases "jstring js (cJSON_GetObjectItem js root ''type'')")
    case None
    with e idle root cb show ?thesis
      by (simp add: anthropic_event_def anthropic_parse_stream_event_def item Let_def)
  next
    case (Some t)
    show ?thesis
      unfolding cb anthropic_parse_stream_event_def
      using e parts root Some
      by (simp add: snd anthropic_event_def Let_def item[symmetric] del: reply_event.simps split: if_splits)
  qed
qed

interpretation anthropic: stream_provider
  "streaming_sse_data_callback False (anthropic_parse_stream_event pwl js)" "anthropic_spec pwl js" for pwl js
  by unfold_locales (use anthropic_refines in \<open>auto simp: refines_def\<close>)

section \<open>Replies put together from events\<close>

definition text_of :: "aevent list \<Rightarrow> string" where
  "text_of es = concat (map (\<lambda>e. case e of Text_delta s \<Rightarrow> s | _ \<Rightarrow> []) es)"

definition thinking_of :: "aevent list \<Rightarrow> string" where
  "thinking_of es = concat (map (\<lambda>e. case e of Thinking_delta s \<Rightarrow> s | _ \<Rightarrow> []) es)"

definition json_of :: "aevent list \<Rightarrow> string" where
  "json_of es = concat (map (\<lambda>e. case e of Json_delta s \<Rightarrow> s | _ \<Rightarrow> []) es)"

text \<open>The tool calls: a new one for every block that uses a tool, and the parts of its arguments in order.\<close>

fun add_tool :: "aevent \<Rightarrow> (string \<times> string \<times> string) list \<Rightarrow> (string \<times> string \<times> string) list" where
  "add_tool (Tool_use i n) ts = ts @ [(i, n, [])]"
| "add_tool (Json_delta d) ts =
     (if ts = [] then [] else butlast ts @ [(fst (last ts), fst (snd (last ts)), snd (snd (last ts)) @ d)])"
| "add_tool _ ts = ts"

definition tools_of :: "aevent list \<Rightarrow> (string \<times> string \<times> string) list" where
  "tools_of es = fold add_tool es []"

text \<open>The events between the start and the end of a message.\<close>

fun inner_event :: "aevent \<Rightarrow> bool" where
  "inner_event (Message_start _) = False"
| "inner_event Message_stop = False"
| "inner_event (Error_event _) = False"
| "inner_event (Json_delta d) = c_string d"
| "inner_event _ = True"

text \<open>The provider's tool is the last of the reply.\<close>

definition in_step :: "anthropic_tls reply \<Rightarrow> bool" where
  "in_step r \<longleftrightarrow>
     current_tool_id (r_provider r) = (if r_tools r = [] then None else Some (fst (last (r_tools r)))) \<and>
     (r_tools r \<noteq> [] \<longrightarrow> r_current r = int (length (r_tools r)) - 1)"

lemma delta_in_step:
  assumes "in_step r" and "r_tools r \<noteq> []"
  shows "reply_delta (fst (last (r_tools r))) d r = r\<lparr>r_tools := add_tool (Json_delta d) (r_tools r)\<rparr>"
proof -
  obtain ts i n a where ts: "r_tools r = ts @ [(i, n, a)]"
    using assms(2) by (metis append_butlast_last_id prod_cases3)
  have c: "r_current r = int (length ts)"
    using assms ts by (simp add: in_step_def)
  then have "r\<lparr>r_current := int (length ts)\<rparr> = r" by simp
  with ts c show ?thesis by (auto simp: reply_delta_def nth_append)
qed

lemma add_tool_size:
  "sum_list (map (\<lambda>t. length (snd (snd t))) (add_tool e ts)) \<le>
     sum_list (map (\<lambda>t. length (snd (snd t))) ts) + length (json_of [e])"
proof (cases e)
  case (Json_delta d)
  show ?thesis
  proof (cases ts rule: rev_cases)
    case (snoc us t)
    then show ?thesis by (simp add: Json_delta json_of_def)
  qed (simp add: Json_delta)
qed (simp_all add: json_of_def)

lemma inner_event_step:
  assumes "in_step r" and "inner_event e" and "fits (length (r_text r) + length (text_of [e]))"
    and "fits (length (r_thinking r) + length (thinking_of [e]))" and "fits (tools_size r + length (json_of [e]))"
  shows "\<exists>r'. reply_event e r = Some r' \<and> in_step r' \<and> r_text r' = r_text r @ text_of [e] \<and>
    r_thinking r' = r_thinking r @ thinking_of [e] \<and> r_tools r' = add_tool e (r_tools r) \<and> r_state r' = r_state r"
proof (cases e)
  case (Json_delta d)
  show ?thesis
  proof (cases "r_tools r = []")
    case True
    with assms(1) Json_delta show ?thesis by (simp add: in_step_def text_of_def thinking_of_def)
  next
    case False
    then have "current_tool_id (r_provider r) = Some (fst (last (r_tools r)))"
      using assms(1) by (simp add: in_step_def)
    with False assms Json_delta delta_in_step[OF assms(1) False, of d] show ?thesis
      by (simp add: in_step_def text_of_def thinking_of_def json_of_def)
  qed
qed (use assms in \<open>auto simp: in_step_def text_of_def thinking_of_def json_of_def\<close>)

text \<open>The events of the lines of a body.\<close>

definition line_events :: "(string \<Rightarrow> 'j option) \<Rightarrow> 'j cjson \<Rightarrow> string \<Rightarrow> aevent list" where
  "line_events pwl js line =
     (if starts_with ''data: '' line \<and> drop 6 line \<noteq> [] \<and> drop 6 line \<noteq> ''[DONE]''
      then [payload_event pwl js (drop 6 line)] else [])"

definition body_lines :: "string \<Rightarrow> string list" where
  "body_lines body = butlast (split_lines (strip_cr body))"

definition body_events :: "(string \<Rightarrow> 'j option) \<Rightarrow> 'j cjson \<Rightarrow> string \<Rightarrow> aevent list" where
  "body_events pwl js body = concat (map (line_events pwl js) (body_lines body))"

definition is_done :: "string \<Rightarrow> bool" where
  "is_done line \<longleftrightarrow> starts_with ''data: '' line \<and> drop 6 line = ''[DONE]''"

text \<open>A line without an event changes only what the reader remembers of the lines.\<close>

lemma reply_line_events:
  assumes "\<not> is_done line"
  shows "line_events pwl js line = [] \<and> (\<exists>st ev. reply_line (anthropic_spec pwl js) line r = Some (r\<lparr>r_state := st, r_event := ev\<rparr>)) \<or>
    (\<exists>e. line_events pwl js line = [e] \<and>
       reply_line (anthropic_spec pwl js) line r = reply_event e (r\<lparr>r_state := STREAM_STATE_READING_DATA\<rparr>))"
proof -
  have id: "\<exists>st ev. r = r\<lparr>r_state := st, r_event := ev\<rparr>"
    by (rule exI[of _ "r_state r"], rule exI[of _ "r_event r"]) simp
  have mark: "\<exists>st ev. r\<lparr>r_state := st'\<rparr> = r\<lparr>r_state := st, r_event := ev\<rparr>" for st'
    by (rule exI[of _ st'], rule exI[of _ "r_event r"]) simp
  show ?thesis
    using assms id mark
    by (cases "starts_with ''data: '' line"; cases "starts_with ''event: '' line"; cases "drop 6 line = []")
      (auto simp: is_done_def line_events_def reply_line_def anthropic_spec_def Let_def)
qed

lemma of_append [simp]:
  "text_of (a @ b) = text_of a @ text_of b" "thinking_of (a @ b) = thinking_of a @ thinking_of b"
  "json_of (a @ b) = json_of a @ json_of b" "text_of [] = []" "thinking_of [] = []" "json_of [] = []"
  by (simp_all add: text_of_def thinking_of_def json_of_def)

lemma in_step_marks [simp]: "in_step (r\<lparr>r_state := st\<rparr>) = in_step r" "in_step (r\<lparr>r_event := ev\<rparr>) = in_step r"
  by (simp_all add: in_step_def)

lemma tools_size_marks [simp]: "tools_size (r\<lparr>r_state := st\<rparr>) = tools_size r" "tools_size (r\<lparr>r_event := ev\<rparr>) = tools_size r"
  by (simp_all add: tools_size_def)

lemma lines_step:
  assumes "in_step r" and "list_all inner_event (concat (map (line_events pwl js) ls))" and "\<not> list_ex is_done ls"
    and "fits (length (r_text r) + length (text_of (concat (map (line_events pwl js) ls))))"
    and "fits (length (r_thinking r) + length (thinking_of (concat (map (line_events pwl js) ls))))"
    and "fits (tools_size r + length (json_of (concat (map (line_events pwl js) ls))))"
  shows "\<exists>r'. opt_fold (reply_line (anthropic_spec pwl js)) ls r = Some r' \<and>
    r_text r' = r_text r @ text_of (concat (map (line_events pwl js) ls)) \<and>
    r_thinking r' = r_thinking r @ thinking_of (concat (map (line_events pwl js) ls)) \<and>
    r_tools r' = fold add_tool (concat (map (line_events pwl js) ls)) (r_tools r)"
  using assms
proof (induction ls arbitrary: r)
  case (Cons l ls)
  let ?es = "concat (map (line_events pwl js) ls)"
  from Cons.prems(3) have d: "\<not> is_done l" "\<not> list_ex is_done ls" by auto
  from reply_line_events[OF d(1), of pwl js r] show ?case
  proof (elim disjE conjE exE)
    fix st ev assume l: "line_events pwl js l = []"
      "reply_line (anthropic_spec pwl js) l r = Some (r\<lparr>r_state := st, r_event := ev\<rparr>)"
    with Cons.IH[of "r\<lparr>r_state := st, r_event := ev\<rparr>"] Cons.prems d show ?thesis by simp
  next
    fix e assume l: "line_events pwl js l = [e]"
      "reply_line (anthropic_spec pwl js) l r = reply_event e (r\<lparr>r_state := STREAM_STATE_READING_DATA\<rparr>)"
    let ?r = "r\<lparr>r_state := STREAM_STATE_READING_DATA\<rparr>"
    have app: "concat (map (line_events pwl js) (l # ls)) = [e] @ ?es" using l(1) by simp
    obtain r1 where r1: "reply_event e ?r = Some r1" "in_step r1" "r_text r1 = r_text r @ text_of [e]"
        "r_thinking r1 = r_thinking r @ thinking_of [e]" "r_tools r1 = add_tool e (r_tools r)"
    proof -
      have "fits (length (r_text ?r) + length (text_of [e]))"
        by (rule fits_mono[OF Cons.prems(4)[unfolded app of_append]]) simp
      moreover have "fits (length (r_thinking ?r) + length (thinking_of [e]))"
        by (rule fits_mono[OF Cons.prems(5)[unfolded app of_append]]) simp
      moreover have "fits (tools_size ?r + length (json_of [e]))"
        by (rule fits_mono[OF Cons.prems(6)[unfolded app of_append]]) simp
      ultimately show thesis
        using inner_event_step[of ?r e] that Cons.prems(1,2) unfolding app by auto
    qed
    have "tools_size r1 \<le> tools_size r + length (json_of [e])"
      using add_tool_size[of e "r_tools r"] by (simp add: tools_size_def r1(5))
    then have f3: "fits (tools_size r1 + length (json_of ?es))"
      by (intro fits_mono[OF Cons.prems(6)[unfolded app of_append]]) simp
    have f1: "fits (length (r_text r1) + length (text_of ?es))"
      using Cons.prems(4)[unfolded app of_append] r1(3) by (simp add: add.assoc)
    have f2: "fits (length (r_thinking r1) + length (thinking_of ?es))"
      using Cons.prems(5)[unfolded app of_append] r1(4) by (simp add: add.assoc)
    have "list_all inner_event ?es" using Cons.prems(2) unfolding app by simp
    from Cons.IH[OF r1(2) this d(2) f1 f2 f3] obtain r' where
        "opt_fold (reply_line (anthropic_spec pwl js)) ls r1 = Some r'" "r_text r' = r_text r1 @ text_of ?es"
        "r_thinking r' = r_thinking r1 @ thinking_of ?es" "r_tools r' = fold add_tool ?es (r_tools r1)"
      by blast
    with l(2) r1 show ?thesis unfolding app of_append by simp
  qed
qed simp

lemma lines_message:
  assumes "concat (map (line_events pwl js) ls) = Message_start n # es" and "list_all inner_event es"
    and "\<not> list_ex is_done ls" and "r_tools r = []" and "r_text r = []" and "r_thinking r = []"
    and "fits (length (text_of es))" and "fits (length (thinking_of es))" and "fits (length (json_of es))"
  shows "\<exists>r'. opt_fold (reply_line (anthropic_spec pwl js)) ls r = Some r' \<and>
    r_text r' = text_of es \<and> r_thinking r' = thinking_of es \<and> r_tools r' = tools_of es"
  using assms
proof (induction ls arbitrary: r)
  case (Cons l ls)
  from Cons.prems(3) have d: "\<not> is_done l" "\<not> list_ex is_done ls" by auto
  from reply_line_events[OF d(1), of pwl js r] show ?case
  proof (elim disjE conjE exE)
    fix st ev assume l: "line_events pwl js l = []"
      "reply_line (anthropic_spec pwl js) l r = Some (r\<lparr>r_state := st, r_event := ev\<rparr>)"
    with Cons.IH[of "r\<lparr>r_state := st, r_event := ev\<rparr>"] Cons.prems d show ?thesis by simp
  next
    fix e assume l: "line_events pwl js l = [e]"
      "reply_line (anthropic_spec pwl js) l r = reply_event e (r\<lparr>r_state := STREAM_STATE_READING_DATA\<rparr>)"
    with Cons.prems(1) have e: "e = Message_start n" "concat (map (line_events pwl js) ls) = es" by simp_all
    let ?r = "r\<lparr>r_state := STREAM_STATE_READING_DATA, r_provider := fresh_tls,
      r_tokens := (case n of None \<Rightarrow> fst (r_tokens r) | Some k \<Rightarrow> k, snd (r_tokens r))\<rparr>"
    have "reply_line (anthropic_spec pwl js) l r = Some ?r" using l(2) e(1) by (simp split: option.split)
    moreover have "in_step ?r" using Cons.prems(4) by (simp add: in_step_def fresh_tls_def)
    ultimately show ?thesis
      using lines_step[of ?r pwl js ls] e(2) Cons.prems d(2) by (simp add: tools_size_def tools_of_def)
  qed
qed simp

lemma message_stop_type:
  assumes "anthropic_event js root = Message_stop"
  shows "jstring js (cJSON_GetObjectItem js root ''type'') = Some ''message_stop''"
proof -
  have no: "delta_event js d \<noteq> Message_stop" "block_event js d \<noteq> Message_stop" for d
    by (auto simp: delta_event_def block_event_def Let_def split: option.splits if_splits)
  with assms show ?thesis
    by (auto simp: anthropic_event_def jitem_def Let_def split: option.splits if_splits)
qed

text \<open>The oracle of allocations is never changed.\<close>

lemma emit_ok:
  "streaming_emit_text ctx s = Some ctx' \<Longrightarrow> sx_ok ctx' = sx_ok ctx"
  "sx_ok (streaming_emit_tool_start ctx i n) = sx_ok ctx"
  by (auto simp: streaming_emit_text_def streaming_emit_tool_start_def bind_eq_Some_conv Let_def split: if_splits)

lemma emit_delta_ok: "streaming_emit_tool_delta ctx i d = Some ctx' \<Longrightarrow> sx_ok ctx' = sx_ok ctx"
  by (auto simp: streaming_emit_tool_delta_def bind_eq_Some_conv Let_def split: if_splits option.splits)

lemma openai_tool_call_ok: "openai_tool_call js t ctx = Some ctx' \<Longrightarrow> sx_ok ctx' = sx_ok ctx"
  by (auto simp: openai_tool_call_def Let_def emit_ok dest!: emit_delta_ok split: if_splits option.splits)

lemma openai_tool_calls_ok: "opt_fold (openai_tool_call js) ts ctx = Some ctx' \<Longrightarrow> sx_ok ctx' = sx_ok ctx"
  by (induction ts arbitrary: ctx) (auto split: option.splits dest: openai_tool_call_ok)

lemma openai_parse_ok: "openai_parse_tool_call_delta js t ctx = Some ctx' \<Longrightarrow> sx_ok ctx' = sx_ok ctx"
  by (auto simp: openai_parse_tool_call_delta_def dest: openai_tool_calls_ok split: if_splits)

lemma openai_delta_ok:
  assumes "openai_delta js delta ctx = Some ctx'"
  shows "sx_ok ctx' = sx_ok ctx"
proof (cases delta)
  case (Some d)
  with assms obtain c1 where c1: "(case jstring js (cJSON_GetObjectItem js d ''content'') of
        None \<Rightarrow> Some ctx | Some t \<Rightarrow> streaming_emit_text ctx t) = Some c1"
      "(case cJSON_GetObjectItem js d ''tool_calls'' of None \<Rightarrow> Some c1
        | Some tool_calls \<Rightarrow> openai_parse_tool_call_delta js tool_calls c1) = Some ctx'"
    by (auto simp: openai_delta_def bind_eq_Some_conv)
  then have "sx_ok c1 = sx_ok ctx" by (auto split: option.splits dest: emit_ok(1))
  with c1(2) show ?thesis by (auto split: option.splits dest: openai_parse_ok)
qed (use assms in \<open>simp add: openai_delta_def\<close>)

section \<open>Properties\<close>

text \<open>The context with which a request is sent.\<close>

definition request_context :: "(callback \<Rightarrow> bool) \<Rightarrow> 'p \<Rightarrow> 'p StreamingContext" where
  "request_context cbs p =
     (the (streaming_context_create alloc_ok p))\<lparr>sx_set := cbs, sx_on_sse_data := True\<rparr>"

lemma request_context_roomy: "roomy (request_context cbs p)"
  by (simp add: request_context_def streaming_context_create_def roomy_def stream_inv_def buffer_ok_def
      INITIAL_LINE_BUFFER_CAPACITY_def INITIAL_TEXT_CAPACITY_def INITIAL_THINKING_CAPACITY_def PTRDIFF_MAX_def)


text \<open>The end of a stream reads freed memory. When a stop reason has arrived, the line that ends the
  stream, \<^verbatim>\<open>[DONE]\<close> for any provider or \<^verbatim>\<open>message_stop\<close> for Anthropic, makes the reader copy
  the stop reason after freeing it: the behaviour is undefined.\<close>

theorem stream_end_reads_freed:
  assumes "roomy ctx" and "sx_line_buffer ctx = []" and "sx_stop_reason ctx \<noteq> None"
    and "CHR 0x0A \<notin> set l" and "CHR 0x0D \<notin> set l" and "fits (length l)"
    and "is_done l \<or> line_events pwl js l = [Message_stop]"
  shows "stream_http_callback (streaming_sse_data_callback False (anthropic_parse_stream_event pwl js)) ctx (l @ [CHR 0x0A]) = None"
proof -
  let ?sink = "streaming_sse_data_callback False (anthropic_parse_stream_event pwl js)"
  have plain: "strip_cr l = l" "split_lines l = [l]"
    using assms(4,5) by (auto simp: strip_cr_def split_lines_plain intro: filter_True)
  obtain ctx1 where c: "streaming_process_chunk ?sink ctx l = Some (0, ctx1)" "roomy ctx1" "sx_line_buffer ctx1 = l"
      "reply_of ctx1 = reply_of ctx"
    using anthropic.chunk_refines[OF assms(1), of l pwl js "reply_of ctx"] assms(2,6) plain by auto
  then have stop: "sx_stop_reason ctx1 \<noteq> None"
    using assms(3) by (metis reply_of_fields(4))
  have data: "starts_with ''data: '' l" "drop 6 l \<noteq> []"
    using assms(7) by (auto simp: is_done_def line_events_def split: if_splits)
  then have ne: "l \<noteq> []" by auto
  have "streaming_process_sse_line ?sink ctx1 l = None"
  proof (cases "is_done l")
    case True
    with stop ne show ?thesis
      by (auto simp: streaming_process_sse_line_def is_done_def streaming_emit_complete_def reason_or_def Let_def)
  next
    case False
    with assms(7) data have "payload_event pwl js (drop 6 l) = Message_stop"
      by (auto simp: line_events_def is_done_def)
    then obtain root where root: "pwl (drop 6 l) = Some root" "jstring js (cJSON_GetObjectItem js root ''type'') = Some ''message_stop''"
      by (auto simp: payload_event_def dest: message_stop_type split: option.splits)
    have "?sink (drop 6 l) (ctx1\<lparr>sx_state := STREAM_STATE_READING_DATA\<rparr>) = None"
      using root stop data
      by (auto simp: streaming_sse_data_callback_def anthropic_parse_stream_event_def streaming_emit_complete_def
          reason_or_def Let_def)
    with False data ne c(2) show ?thesis
      by (simp add: streaming_process_sse_line_def is_done_def Let_def roomy_def)
  qed
  with c ne show ?thesis
    by (simp add: stream_http_callback_def process_chunk_append)
qed

lemma local_ai_tool_call_eq: "local_ai_tool_call = openai_tool_call"
  by (intro ext) (simp only: local_ai_tool_call_def openai_tool_call_def Let_def)

lemma local_ai_parse_eq: "local_ai_parse_tool_call_delta = openai_parse_tool_call_delta"
  by (intro ext) (simp only: local_ai_parse_tool_call_delta_def openai_parse_tool_call_delta_def local_ai_tool_call_eq)

text \<open>Local servers are read like OpenAI. When memory suffices, the two parsers of the OpenAI format do
  the same on every data line.\<close>

theorem local_ai_like_openai:
  assumes "\<forall>n. sx_ok ctx n"
  shows "local_ai_parse_stream_event pwl js data ctx = openai_parse_stream_event pwl js data ctx"
proof -
  have "local_ai_choice js choice ctx = map_option (openai_finish js choice)
      (openai_delta js (cJSON_GetObjectItem js choice ''delta'') ctx)" for choice
  proof -
    let ?d = "openai_delta js (cJSON_GetObjectItem js choice ''delta'') ctx"
    have "\<forall>n. sx_ok c n" if "?d = Some c" for c
      using openai_delta_ok[OF that] assms by simp
    moreover have "local_ai_choice js choice ctx = do { ctx \<leftarrow> ?d;
        Some (case jstring js (cJSON_GetObjectItem js choice ''finish_reason'') of
             None \<Rightarrow> ctx
           | Some s \<Rightarrow> if sx_ok ctx (sx_site ctx)
                       then ctx\<lparr>sx_stop_reason := Some s, sx_site := Suc (sx_site ctx)\<rparr>
                       else ctx\<lparr>sx_site := Suc (sx_site ctx)\<rparr>) }"
      by (simp add: local_ai_choice_def openai_delta_def local_ai_parse_eq split: option.split)
    ultimately show ?thesis
      by (cases ?d) (simp_all add: openai_finish_def split: option.split)
  qed
  then show ?thesis
    by (simp add: local_ai_parse_stream_event_def openai_parse_stream_event_def split: option.split)
qed

section \<open>Samples\<close>

definition sample_events :: "(string \<times> jvalue) list" where
  "sample_events = [
     (''s'', VObject [(''type'', VString ''message_start'')]),
     (''u'', VObject [(''type'', VString ''content_block_start''),
               (''content_block'', VObject [(''type'', VString ''tool_use''), (''id'', VString ''7''), (''name'', VString ''todo'')])]),
     (''j'', VObject [(''type'', VString ''content_block_delta''),
               (''delta'', VObject [(''type'', VString ''input_json_delta''), (''partial_json'', VString ''{}'')])]),
     (''d'', VObject [(''type'', VString ''message_delta''), (''delta'', VObject [(''stop_reason'', VString ''tool_use'')])]),
     (''e'', VObject [(''type'', VString ''message_stop'')])]"

definition sample_body :: "string list" where
  "sample_body = [''data: s'', [CHR 0x0D, CHR 0x0A], ''data: u'' @ [CHR 0x0A] @ ''da'', ''ta: j'' @ [CHR 0x0A],
                  ''data: d'' @ [CHR 0x0A]]"

lemma sample_body_events:
  "body_lines (concat sample_body) = [''data: s'', ''data: u'', ''data: j'', ''data: d'']"
  "body_events (map_of sample_events) (table_json []) (concat sample_body) =
     [Message_start None, Tool_use ''7'' ''todo'', Json_delta ''{}'', Message_delta (Some ''tool_use'') None]"
proof -
  show lines: "body_lines (concat sample_body) = [''data: s'', ''data: u'', ''data: j'', ''data: d'']"
    by (simp add: body_lines_def sample_body_def strip_cr_def)
  show "body_events (map_of sample_events) (table_json []) (concat sample_body) =
     [Message_start None, Tool_use ''7'' ''todo'', Json_delta ''{}'', Message_delta (Some ''tool_use'') None]"
    unfolding body_events_def lines
    by (simp add: line_events_def payload_event_def sample_events_def anthropic_event_def block_event_def delta_event_def
        jitem_def jstring_def jint_def table_json_def Let_def)
qed


theorem stream_end_reads_freed_witness:
  "stream_http_callback (streaming_sse_data_callback False (anthropic_parse_stream_event (map_of sample_events) (table_json [])))
     ((request_context (\<lambda>_. True) fresh_tls)\<lparr>sx_stop_reason := Some ''tool_use''\<rparr>) (''data: e'' @ [CHR 0x0A]) = None"
proof (rule stream_end_reads_freed)
  show "roomy ((request_context (\<lambda>_. True) fresh_tls)\<lparr>sx_stop_reason := Some ''tool_use''\<rparr>)"
    using request_context_roomy by simp
  show "is_done ''data: e'' \<or> line_events (map_of sample_events) (table_json []) ''data: e'' = [Message_stop]"
    by (simp add: line_events_def payload_event_def sample_events_def anthropic_event_def jitem_def jstring_def
        table_json_def Let_def)
qed (simp_all add: request_context_def streaming_context_create_def fits_def PTRDIFF_MAX_def)

theorem local_ai_like_openai_witness:
  "local_ai_parse_stream_event (map_of sample_events) (table_json []) ''s'' (request_context (\<lambda>_. True) ()) =
   openai_parse_stream_event (map_of sample_events) (table_json []) ''s'' (request_context (\<lambda>_. True) ())"
proof -
  have "\<forall>n. sx_ok (request_context (\<lambda>_. True) ()) n"
    using request_context_roomy[of "\<lambda>_. True" "()"] by (simp add: roomy_def)
  then show ?thesis by (rule local_ai_like_openai)
qed

text \<open>A part of the arguments of an earlier tool is dropped once a later tool has started, although the tool
  is found by its index.\<close>

definition two_tools :: "unit StreamingContext" where
  "two_tools = streaming_emit_tool_start (streaming_emit_tool_start (request_context (\<lambda>_. False) ()) ''a'' ''x'') ''b'' ''y''"

definition late_delta :: jvalue where
  "late_delta = VObject [(''index'', VNumber 0), (''function'', VObject [(''arguments'', VString ''{}'')])]"

lemma earlier_tool_delta_dropped:
  "delta_target two_tools 0 = Some ''a'' \<and> openai_tool_call (table_json []) late_delta two_tools = Some two_tools"
  by (simp add: two_tools_def late_delta_def delta_target_def openai_tool_call_def streaming_emit_tool_delta_def
      streaming_emit_tool_start_def request_context_def streaming_context_create_def call_def no_tool_def Let_def
      jint_def jstring_def table_json_def)

end
