(* ===== verification/Subagent_Parent.thy ===== *)
theory Subagent_Parent
  imports Tool_Orchestration
begin

text \<open>
  The parent's side of \<^verbatim>\<open>lib/policy/subagent_approval.c\<close>: the pipes of a subagent, the answer to one of
  its requests, and the loop that serves several subagents.

  As for the child, the outcomes of reading and writing a pipe are arguments. A round of the loop has
  its own: what \<^verbatim>\<open>poll\<close> reports, how the request arrives and how the answer leaves. Descriptors are
  numbers; a process's table of them is the list of those that are open. What is logged is not
  modelled.
\<close>

section \<open>Pipes\<close>

text \<open>The two pipes, read end first. \<open>p1\<close> and \<open>p2\<close> are what \<^verbatim>\<open>pipe\<close> returns, \<open>None\<close> if it fails.\<close>

definition create_approval_channel_pipes ::
    "(int \<times> int) option \<Rightarrow> (int \<times> int) option \<Rightarrow> int list \<Rightarrow> ((int \<times> int) \<times> (int \<times> int)) option \<times> int list" where
  "create_approval_channel_pipes p1 p2 fds =
     (case p1 of
        None \<Rightarrow> (None, fds)
      | Some (r1, w1) \<Rightarrow>
          (case p2 of
             None \<Rightarrow> (None, fds)
           | Some (r2, w2) \<Rightarrow> (Some ((r1, w1), (r2, w2)), [r1, w1, r2, w2] @ fds)))"

definition setup_subagent_channel_child ::
    "int \<Rightarrow> (int \<times> int) \<Rightarrow> (int \<times> int) \<Rightarrow> int list \<Rightarrow> ApprovalChannel \<times> int list" where
  "setup_subagent_channel_child pid request_pipe response_pipe fds =
     (\<lparr>request_fd = snd request_pipe, response_fd = fst response_pipe, subagent_pid = pid\<rparr>,
      remove1 (snd response_pipe) (remove1 (fst request_pipe) fds))"

definition setup_subagent_channel_parent ::
    "int \<Rightarrow> (int \<times> int) \<Rightarrow> (int \<times> int) \<Rightarrow> int list \<Rightarrow> ApprovalChannel \<times> int list" where
  "setup_subagent_channel_parent child_pid request_pipe response_pipe fds =
     (\<lparr>request_fd = fst request_pipe, response_fd = snd response_pipe, subagent_pid = child_pid\<rparr>,
      remove1 (fst response_pipe) (remove1 (snd request_pipe) fds))"

definition close_fd :: "int \<Rightarrow> int list \<Rightarrow> int list" where
  "close_fd fd fds = (if fd \<ge> 0 then remove1 fd fds else fds)"

definition free_approval_channel :: "ApprovalChannel \<Rightarrow> int list \<Rightarrow> int list" where
  "free_approval_channel ch fds = close_fd (response_fd ch) (close_fd (request_fd ch) fds)"

definition cleanup_approval_channel_pipes ::
    "(int \<times> int) option \<Rightarrow> (int \<times> int) option \<Rightarrow> int list \<Rightarrow> int list" where
  "cleanup_approval_channel_pipes request_pipe response_pipe fds =
     (let fds = (case request_pipe of None \<Rightarrow> fds | Some (r, w) \<Rightarrow> close_fd w (close_fd r fds))
      in case response_pipe of None \<Rightarrow> fds | Some (r, w) \<Rightarrow> close_fd w (close_fd r fds))"

section \<open>One request\<close>

record handle_env =
  he_oks :: "nat \<Rightarrow> alloc"
  he_ready :: bool
  he_reads :: "read_event list"
  he_writes :: "write_event list"

text \<open>What handling a request leaves: the return code, the gate, the terminal, and the response, if one was
  printed.\<close>

record 'r handled =
  hd_code :: int
  hd_config :: "'r ApprovalGateConfig"
  hd_io :: gate_io
  hd_response :: "string option"

definition synthetic_call :: "ApprovalRequest \<Rightarrow> ToolCall" where
  "synthetic_call req =
     \<lparr>tc_id = Some ''subagent-synthetic'', tc_name = rq_tool_name req, tc_arguments = rq_arguments_json req\<rparr>"

text \<open>The decision: of the process above, where there is one, or of the user. Sites 2.\<close>

definition decide ::
    "alloc \<Rightarrow> ('j, 'r) orch_lib \<Rightarrow> gate_io \<Rightarrow> 'r ApprovalGateConfig \<Rightarrow> ToolCall
     \<Rightarrow> ApprovalResult \<times> 'r ApprovalGateConfig \<times> gate_io" where
  "decide ok lib io config call =
     (case Option.bind (cb_get_approval_channel (ol_callbacks lib)) id of
        Some our_channel \<Rightarrow>
          (case subagent_request_approval ok (ol_json lib) (gio_channel io) (gio_next_id io) (Some our_channel) (Some call) of
             (result, g) \<Rightarrow> (result, config, io\<lparr>gio_next_id := g\<rparr>))
      | None \<Rightarrow> approval_gate_prompt ok io config call)"

text \<open>Sites: 0 the buffer, 1 the request, 3 to 5 the pattern, 6 the allowlist, 7 the copy of the pattern.\<close>

definition handle_subagent_approval_request ::
    "handle_env \<Rightarrow> ('j, 'r) orch_lib \<Rightarrow> gate_io \<Rightarrow> 'r ApprovalGateConfig \<Rightarrow> 'r handled" where
  "handle_subagent_approval_request env lib io config =
     (let oks = he_oks env; fail = \<lparr>hd_code = -1, hd_config = config, hd_io = io, hd_response = None\<rparr>
      in case read_message_with_timeout (oks 0) (he_ready env) (he_reads env) of
           None \<Rightarrow> fail
         | Some request_str \<Rightarrow>
             (case deserialize_approval_request (oks 1) (ol_json lib) (Some request_str) of
                None \<Rightarrow> fail
              | Some req \<Rightarrow>
                  (case decide (oks 2) lib io config (synthetic_call req) of
                     (result, config, io) \<Rightarrow>
                       (let (config, pat) =
                          (if result = APPROVAL_ALLOWED_ALWAYS
                           then case generate_allowlist_pattern (oks 3) (oks 4) (oks 5) (ol_json lib) (ol_callbacks lib)
                                       (ol_shell lib) (synthetic_call req) of
                                  None \<Rightarrow> (config, None)
                                | Some gen \<Rightarrow>
                                    (snd (apply_generated_pattern (oks 6) (ol_regex lib) config (rq_tool_name req) gen),
                                     case gp_pattern gen of None \<Rightarrow> None | Some p \<Rightarrow> if oks 7 0 then Some p else None)
                           else (config, None));
                            resp = \<lparr>rs_request_id = rq_request_id req, rs_result = result, rs_pattern = pat\<rparr>
                        in case serialize_approval_response (ol_json lib) resp of
                             None \<Rightarrow> \<lparr>hd_code = -1, hd_config = config, hd_io = io, hd_response = None\<rparr>
                           | Some s \<Rightarrow>
                               \<lparr>hd_code = (if write_message (he_writes env) (Some s) < 0 then -1 else 0),
                                hd_config = config, hd_io = io, hd_response = Some s\<rparr>))))"

section \<open>Several subagents\<close>

text \<open>\<open>pollin\<close> tells which channels \<^verbatim>\<open>poll\<close> reports as readable, \<open>None\<close> if it fails or times out; it
  ignores negative descriptors. Site 0 is the array.\<close>

definition poll_subagent_approval_requests ::
    "alloc \<Rightarrow> (nat \<Rightarrow> bool) option \<Rightarrow> ApprovalChannel list \<Rightarrow> int" where
  "poll_subagent_approval_requests ok pollin channels =
     (if channels = [] then -1
      else if \<not> ok 0 then -1
      else case pollin of
             None \<Rightarrow> -1
           | Some flags \<Rightarrow>
               (case find_index (\<lambda>i. request_fd (channels ! i) \<ge> 0 \<and> flags i) [0..<length channels] of
                  None \<Rightarrow> -1
                | Some i \<Rightarrow> int i))"

record round =
  rd_elapsed :: int
  rd_poll :: "(nat \<Rightarrow> bool) option"
  rd_ok :: alloc
  rd_handle :: "nat \<Rightarrow> handle_env"

definition close_channel :: "ApprovalChannel \<Rightarrow> ApprovalChannel" where
  "close_channel ch =
     ch\<lparr>request_fd := (if request_fd ch \<ge> 0 then -1 else request_fd ch),
        response_fd := (if response_fd ch \<ge> 0 then -1 else response_fd ch)\<rparr>"

definition open_channels :: "ApprovalChannel list \<Rightarrow> nat" where
  "open_channels channels = length (filter (\<lambda>ch. request_fd ch \<ge> 0) channels)"

text \<open>One turn of the loop behind the test of the time.\<close>

definition serve_round ::
    "round \<Rightarrow> ('j, 'r) orch_lib \<Rightarrow> ApprovalChannel list \<Rightarrow> 'r ApprovalGateConfig \<Rightarrow> gate_io
     \<Rightarrow> ApprovalChannel list \<times> 'r ApprovalGateConfig \<times> gate_io" where
  "serve_round rd lib channels config io =
     (let idx = poll_subagent_approval_requests (rd_ok rd) (rd_poll rd) channels
      in if idx \<ge> 0
         then let h = handle_subagent_approval_request (rd_handle rd (nat idx)) lib io config
              in (if hd_code h < 0 then channels[nat idx := close_channel (channels ! nat idx)] else channels,
                  hd_config h, hd_io h)
         else (channels, config, io))"

text \<open>The loop, over what happens in its rounds; \<open>None\<close> if it is still running after all of them.\<close>

fun approval_rounds ::
    "('j, 'r) orch_lib \<Rightarrow> int \<Rightarrow> round list \<Rightarrow> ApprovalChannel list \<Rightarrow> 'r ApprovalGateConfig \<Rightarrow> gate_io
     \<Rightarrow> (int \<times> ApprovalChannel list \<times> 'r ApprovalGateConfig \<times> gate_io) option" where
  "approval_rounds lib timeout_ms [] channels config io = None"
| "approval_rounds lib timeout_ms (rd # rds) channels config io =
     (if timeout_ms > 0 \<and> rd_elapsed rd \<ge> timeout_ms then Some (0, channels, config, io)
      else case serve_round rd lib channels config io of
             (channels, config, io) \<Rightarrow>
               if open_channels channels = 0 then Some (0, channels, config, io)
               else approval_rounds lib timeout_ms rds channels config io)"

definition parent_approval_loop ::
    "('j, 'r) orch_lib \<Rightarrow> int \<Rightarrow> round list \<Rightarrow> ApprovalChannel list \<Rightarrow> 'r ApprovalGateConfig \<Rightarrow> gate_io
     \<Rightarrow> (int \<times> ApprovalChannel list \<times> 'r ApprovalGateConfig \<times> gate_io) option" where
  "parent_approval_loop lib timeout_ms rds channels config io =
     (if channels = [] then Some (-1, channels, config, io)
      else approval_rounds lib timeout_ms rds channels config io)"

section \<open>Lemmas\<close>

text \<open>A message that was written whole is read whole.\<close>

lemma read_whole_message:
  assumes "c_string s" and "length s < 65535"
  shows "read_message_with_timeout alloc_ok True [Got (s @ [NUL])] = Some s"
proof -
  have "takeWhile (\<lambda>c. c \<noteq> NUL) (s @ [NUL]) = s"
    using assms(1) by (auto simp: c_string_def takeWhile_append)
  moreover have "take (APPROVAL_MSG_MAX_SIZE - 1 - length ([] :: string)) (s @ [NUL]) = s @ [NUL]"
    using assms(2) by (simp add: APPROVAL_MSG_MAX_SIZE_def)
  ultimately show ?thesis
    by (simp add: read_message_with_timeout_def APPROVAL_MSG_MAX_SIZE_def Let_def)
qed

lemma request_roundtrip:
  assumes "json_roundtrip js" and "serialize_approval_request js req = Some q"
    and "rq_tool_name req = Some name" and "rq_arguments_json req = Some args"
    and "rq_display_summary req = Some summary" and "0 \<le> rq_request_id req" and "rq_request_id req < 4294967296"
  shows "deserialize_approval_request alloc_ok js (Some q) = Some req"
proof -
  let ?fs = "[(''tool_name'', JStr name), (''arguments_json'', JStr args), (''display_summary'', JStr summary),
     (''request_id'', JNum (rq_request_id req))]"
  have "distinct (map fst ?fs)" by simp
  moreover have "cJSON_PrintObject js ?fs = Some q"
    using assms(2-5) by (simp add: serialize_approval_request_def)
  ultimately obtain v where v: "cJSON_Parse js q = Some v"
    and f: "\<forall>(k, f) \<in> set ?fs. \<exists>i. cJSON_GetObjectItem js v k = Some i \<and>
              (case f of
                 JStr t \<Rightarrow> cJSON_IsString js i \<and> cJSON_valuestring js i = Some t
               | JNum n \<Rightarrow> cJSON_IsNumber js i \<and> cJSON_valuedouble js i = n)"
    using assms(1) unfolding json_roundtrip_def by blast
  from f obtain i1 i2 i3 i4 where
      "cJSON_GetObjectItem js v ''tool_name'' = Some i1" "cJSON_IsString js i1" "cJSON_valuestring js i1 = Some name"
      "cJSON_GetObjectItem js v ''arguments_json'' = Some i2" "cJSON_IsString js i2" "cJSON_valuestring js i2 = Some args"
      "cJSON_GetObjectItem js v ''display_summary'' = Some i3" "cJSON_IsString js i3" "cJSON_valuestring js i3 = Some summary"
      "cJSON_GetObjectItem js v ''request_id'' = Some i4" "cJSON_IsNumber js i4"
      "cJSON_valuedouble js i4 = rq_request_id req"
    by auto
  with v assms(3-7) show ?thesis
    by (cases req) (simp add: deserialize_approval_request_def jtest_def jstring_def uint32_def)
qed

lemma format_tool_summary_text: "\<exists>s. format_tool_summary alloc_ok js tc = Some s"
proof -
  have "format_tool_summary alloc_ok js tc \<noteq> None"
    by (auto simp: format_tool_summary_def Let_def split: option.split)
  then show ?thesis by blast
qed

text \<open>The decision that a handled request carries back.\<close>

lemma handled_response:
  assumes "read_message_with_timeout (he_oks env 0) (he_ready env) (he_reads env) = Some q"
    and "deserialize_approval_request (he_oks env 1) (ol_json lib) (Some q) = Some req"
    and "hd_response (handle_subagent_approval_request env lib io c) = Some s"
  shows "\<exists>pat. serialize_approval_response (ol_json lib)
      \<lparr>rs_request_id = rq_request_id req, rs_result = fst (decide (he_oks env 2) lib io c (synthetic_call req)),
       rs_pattern = pat\<rparr> = Some s"
proof (cases "decide (he_oks env 2) lib io c (synthetic_call req)")
  case (fields r c1 io1)
  with assms show ?thesis
    by (auto simp: handle_subagent_approval_request_def Let_def split: option.splits prod.splits)
qed

text \<open>A round closes at most one channel, and never opens one.\<close>

lemma close_channel_open:
  assumes "i < length channels" and "request_fd (channels ! i) \<ge> 0"
  shows "open_channels (channels[i := close_channel (channels ! i)]) + 1 = open_channels channels"
proof -
  have split: "open_channels (take i channels @ ch # drop (Suc i) channels) =
      open_channels (take i channels) + of_bool (request_fd ch \<ge> 0) + open_channels (drop (Suc i) channels)" for ch
    by (simp add: open_channels_def)
  have "\<not> request_fd (close_channel (channels ! i)) \<ge> 0"
    using assms(2) by (simp add: close_channel_def)
  with split[of "close_channel (channels ! i)"] split[of "channels ! i"] assms show ?thesis
    by (simp add: upd_conv_take_nth_drop id_take_nth_drop[symmetric])
qed

lemma poll_first:
  assumes "poll_subagent_approval_requests ok (Some flags) channels = int i"
  shows "i < length channels \<and> request_fd (channels ! i) \<ge> 0 \<and> flags i"
  using assms
  by (auto simp: poll_subagent_approval_requests_def find_index_Some split: if_splits option.splits)

text \<open>After the two processes have set up their sides, what one writes the other reads, and each keeps
  only its own two ends.\<close>

lemma channel_ends:
  assumes "create_approval_channel_pipes p1 p2 fds = (Some (rq, rp), fds')"
    and "distinct ([fst rq, snd rq, fst rp, snd rp] @ fds)"
    and "setup_subagent_channel_child pid rq rp fds' = (child, cfds)"
    and "setup_subagent_channel_parent cpid rq rp fds' = (parent, pfds)"
  shows "(request_fd parent, request_fd child) = rq \<and> (response_fd child, response_fd parent) = rp \<and>
    set cfds = {request_fd child, response_fd child} \<union> set fds \<and>
    set pfds = {request_fd parent, response_fd parent} \<union> set fds"
proof -
  have "fds' = [fst rq, snd rq, fst rp, snd rp] @ fds"
    using assms(1) by (auto simp: create_approval_channel_pipes_def split: option.splits)
  with assms(2-4) show ?thesis
    by (auto simp: setup_subagent_channel_child_def setup_subagent_channel_parent_def set_remove1_eq)
qed

section \<open>Properties\<close>


text \<open>A round in which every open channel is readable and no request can be read.\<close>

definition broken_round ::
    "('j, 'r) orch_lib \<Rightarrow> round \<Rightarrow> bool" where
  "broken_round lib rd \<longleftrightarrow>
     rd_ok rd 0 \<and> rd_poll rd = Some (\<lambda>_. True) \<and>
     (\<forall>i. read_message_with_timeout (he_oks (rd_handle rd i) 0) (he_ready (rd_handle rd i)) (he_reads (rd_handle rd i)) = None)"

lemma broken_round_closes:
  assumes "broken_round lib rd" and "0 < open_channels channels"
  shows "\<exists>i. i < length channels \<and> request_fd (channels ! i) \<ge> 0 \<and>
    serve_round rd lib channels config io = (channels[i := close_channel (channels ! i)], config, io)"
proof -
  obtain j where j: "j < length channels" "request_fd (channels ! j) \<ge> 0"
    using assms(2) by (auto simp: open_channels_def filter_empty_conv in_set_conv_nth)
  then have ne: "channels \<noteq> []" by auto
  have "find_index (\<lambda>i. request_fd (channels ! i) \<ge> 0) [0..<length channels] \<noteq> None"
    using j by (auto simp: find_index_None)
  then obtain i where i: "find_index (\<lambda>i. request_fd (channels ! i) \<ge> 0) [0..<length channels] = Some i" by blast
  then have "poll_subagent_approval_requests (rd_ok rd) (rd_poll rd) channels = int i"
    using assms(1) ne by (simp add: poll_subagent_approval_requests_def broken_round_def)
  moreover have "hd_code (handle_subagent_approval_request (rd_handle rd i) lib io config) = -1"
      "hd_config (handle_subagent_approval_request (rd_handle rd i) lib io config) = config"
      "hd_io (handle_subagent_approval_request (rd_handle rd i) lib io config) = io"
    using assms(1) by (simp_all add: handle_subagent_approval_request_def broken_round_def)
  ultimately have "serve_round rd lib channels config io = (channels[i := close_channel (channels ! i)], config, io)"
    by (simp add: serve_round_def)
  moreover have "i < length channels \<and> request_fd (channels ! i) \<ge> 0"
    using i by (auto simp: find_index_Some)
  ultimately show ?thesis by blast
qed

text \<open>The loop ends when the subagents are gone. When in every round some open channel is reported
  readable and its request cannot be handled, as when its pipe is closed, the loop returns 0 after at
  most as many rounds as there are open channels, with all channels closed.\<close>

theorem parent_loop_ends:
  assumes "0 < open_channels channels" and "open_channels channels \<le> length rds" and "list_all (broken_round lib) rds"
    and "timeout_ms \<le> 0"
  shows "\<exists>channels'. parent_approval_loop lib timeout_ms rds channels config io = Some (0, channels', config, io) \<and>
    open_channels channels' = 0 \<and> length channels' = length channels"
proof -
  have "\<exists>channels'. approval_rounds lib timeout_ms rds channels config io = Some (0, channels', config, io) \<and>
      open_channels channels' = 0 \<and> length channels' = length channels"
    using assms
  proof (induction rds arbitrary: channels)
    case (Cons rd rds)
    then obtain i where i: "i < length channels" "request_fd (channels ! i) \<ge> 0"
        "serve_round rd lib channels config io = (channels[i := close_channel (channels ! i)], config, io)"
      using broken_round_closes[of lib rd channels config io] by auto
    let ?chs = "channels[i := close_channel (channels ! i)]"
    have n: "open_channels ?chs + 1 = open_channels channels"
      by (rule close_channel_open[OF i(1,2)])
    show ?case
    proof (cases "open_channels ?chs = 0")
      case True
      with i(3) Cons.prems(4) show ?thesis by simp
    next
      case False
      with Cons.IH[of ?chs] n Cons.prems i(3) show ?thesis by simp
    qed
  qed simp
  moreover have "channels \<noteq> []" using assms(1) by (auto simp: open_channels_def)
  ultimately show ?thesis by (simp add: parent_approval_loop_def)
qed

text \<open>A hang-up alone is not seen: as long as \<^verbatim>\<open>poll\<close> reports no data on an open channel, the loop without
  a timeout goes on, for any number of rounds.\<close>

definition silent_round :: "round \<Rightarrow> bool" where
  "silent_round rd \<longleftrightarrow> (\<forall>flags. rd_poll rd = Some flags \<longrightarrow> (\<forall>i. \<not> flags i))"

lemma hangup_not_seen:
  assumes "timeout_ms \<le> 0" and "0 < open_channels channels"
    and "list_all silent_round rds"
  shows "parent_approval_loop lib timeout_ms rds channels config io = None"
proof -
  have ne: "channels \<noteq> []" using assms(2) by (auto simp: open_channels_def)
  have idle: "serve_round rd lib channels config io = (channels, config, io)"
    if "silent_round rd" for rd
  proof -
    have "find_index (\<lambda>i. request_fd (channels ! i) \<ge> 0 \<and> flags i) [0..<length channels] = None"
      if "rd_poll rd = Some flags" for flags
      using that \<open>silent_round rd\<close> by (simp add: find_index_None silent_round_def)
    then show ?thesis
      by (auto simp: serve_round_def poll_subagent_approval_requests_def split: option.splits)
  qed
  have "approval_rounds lib timeout_ms rds channels config io = None"
    using assms(3)
  proof (induction rds)
    case (Cons rd rds)
    then have "serve_round rd lib channels config io = (channels, config, io)"
      by (intro idle) simp
    with Cons assms(1,2) show ?case by simp
  qed simp
  with ne show ?thesis by (simp add: parent_approval_loop_def)
qed

definition todo_request :: ToolCall where
  "todo_request = \<lparr>tc_id = None, tc_name = Some ''todo'', tc_arguments = Some ''{}''\<rparr>"

definition message_lib :: "(jvalue, string) orch_lib" where
  "message_lib = sample_lib\<lparr>ol_json := two_messages\<rparr>"


theorem parent_loop_ends_witness:
  "\<exists>channels'. parent_approval_loop message_lib 0
      [\<lparr>rd_elapsed = 0, rd_poll = Some (\<lambda>_. True), rd_ok = alloc_ok, rd_handle = (\<lambda>_. \<lparr>he_oks = (\<lambda>_. alloc_ok),
        he_ready = True, he_reads = [Read_failed], he_writes = []\<rparr>)\<rparr>]
      [sample_channel] sample_config (keys_io []) = Some (0, channels', sample_config, keys_io []) \<and>
     open_channels channels' = 0"
proof -
  let ?rd = "\<lparr>rd_elapsed = 0, rd_poll = Some (\<lambda>_. True), rd_ok = alloc_ok, rd_handle = (\<lambda>_. \<lparr>he_oks = (\<lambda>_. alloc_ok),
        he_ready = True, he_reads = [Read_failed], he_writes = []\<rparr>)\<rparr>"
  have "list_all (broken_round message_lib) [?rd]"
    by (simp add: broken_round_def read_message_with_timeout_def APPROVAL_MSG_MAX_SIZE_def)
  moreover have "open_channels [sample_channel] = 1"
    by (simp add: open_channels_def sample_channel_def)
  ultimately show ?thesis
    using parent_loop_ends[of "[sample_channel]" "[?rd]" message_lib 0 sample_config "keys_io []"] by auto
qed

end
