(* ===== verification/Document_Chunker.thy ===== *)
theory Document_Chunker
  imports Prelude
begin

text \<open>
  The splitting of a document into overlapping pieces for the vector store, from
  \<^verbatim>\<open>lib/util/document_chunker.c\<close>.

  Offsets are natural numbers: a text that is split is longer than \<^verbatim>\<open>max_chunk_size\<close>, so no sum of
  an offset and a size wraps. Characters beyond ASCII are not white space. The comparison with
  1.2 times the maximum, which the code makes in \<^verbatim>\<open>double\<close>, is made exactly.
\<close>

section \<open>Data\<close>

record chunking_config =
  max_chunk_size :: nat
  overlap_size :: nat
  preserve_sentences :: bool
  preserve_paragraphs :: bool
  min_chunk_size :: nat

record document_chunk =
  ck_text :: string
  ck_length :: nat
  ck_start_offset :: nat
  ck_end_offset :: nat
  ck_chunk_index :: int

record chunking_result =
  cr_chunks :: "document_chunk list"
  cr_error :: "string option"

definition chunker_get_default_config :: chunking_config where
  "chunker_get_default_config =
     \<lparr>max_chunk_size = 1000, overlap_size = 200, preserve_sentences = True, preserve_paragraphs = False,
      min_chunk_size = 100\<rparr>"

definition chunker_get_pdf_config :: chunking_config where
  "chunker_get_pdf_config =
     \<lparr>max_chunk_size = 1500, overlap_size = 300, preserve_sentences = True, preserve_paragraphs = True,
      min_chunk_size = 150\<rparr>"

text \<open>Site 0 is the result, site 1 the array, site 2 the message.\<close>

definition create_error_result :: "alloc \<Rightarrow> string \<Rightarrow> chunking_result option" where
  "create_error_result ok error_msg =
     (if \<not> ok 0 then None
      else Some \<lparr>cr_chunks = [], cr_error = (if ok 2 then Some error_msg else None)\<rparr>)"

section \<open>Boundaries\<close>

abbreviation LF :: char where
  "LF \<equiv> CHR 0x0A"

definition is_sentence_boundary :: "string \<Rightarrow> nat \<Rightarrow> bool" where
  "is_sentence_boundary txt pos \<longleftrightarrow>
     pos < length txt \<and> (txt ! pos = CHR ''.'' \<or> txt ! pos = CHR ''!'' \<or> txt ! pos = CHR ''?'') \<and>
     (pos + 1 \<ge> length txt \<or> isspace (txt ! (pos + 1)))"

definition is_paragraph_boundary :: "string \<Rightarrow> nat \<Rightarrow> bool" where
  "is_paragraph_boundary txt pos \<longleftrightarrow>
     pos < length txt \<and> txt ! pos = LF \<and>
     (let rest = drop (pos + 1) txt
      in rest \<noteq> [] \<and> hd rest = LF \<or>
         (let behind = dropWhile (\<lambda>c. isspace c \<and> c \<noteq> LF) rest in behind \<noteq> [] \<and> hd behind = LF))"

text \<open>The largest position above \<open>lo\<close> and up to \<open>pos\<close> that passes a test.\<close>

fun search_down :: "(nat \<Rightarrow> bool) \<Rightarrow> nat \<Rightarrow> nat \<Rightarrow> nat option" where
  "search_down P lo 0 = None"
| "search_down P lo (Suc pos) =
     (if Suc pos > lo then if P (Suc pos) then Some (Suc pos) else search_down P lo pos else None)"

definition find_best_split_point :: "string \<Rightarrow> nat \<Rightarrow> nat \<Rightarrow> chunking_config \<Rightarrow> nat" where
  "find_best_split_point txt start max_end config =
     (let text_len = length txt;
          search_end = (if max_end < text_len then max_end else text_len);
          lo = start + min_chunk_size config
      in if search_end \<ge> text_len \<or> search_end - start \<le> min_chunk_size config then text_len
         else case search_down (\<lambda>pos. preserve_paragraphs config \<and> is_paragraph_boundary txt (pos - 1) \<or>
                                      preserve_sentences config \<and> is_sentence_boundary txt (pos - 1)) lo search_end of
                Some pos \<Rightarrow> pos
              | None \<Rightarrow>
                  (case search_down (\<lambda>pos. isspace (txt ! (pos - 1))) lo search_end of
                     Some pos \<Rightarrow> pos
                   | None \<Rightarrow> search_end))"

definition trim_whitespace :: "string \<Rightarrow> string" where
  "trim_whitespace s = rev (dropWhile isspace (rev (dropWhile isspace s)))"

section \<open>Chunks\<close>

definition mk_chunk :: "string \<Rightarrow> nat \<Rightarrow> nat \<Rightarrow> int \<Rightarrow> document_chunk" where
  "mk_chunk txt start chunk_end index =
     (let body = trim_whitespace (take (chunk_end - start) (drop start txt))
      in \<lparr>ck_text = body, ck_length = length body, ck_start_offset = start, ck_end_offset = chunk_end,
          ck_chunk_index = index\<rparr>)"

text \<open>The end of the chunk that starts at an offset.\<close>

definition chunk_end_at :: "string \<Rightarrow> chunking_config \<Rightarrow> nat \<Rightarrow> nat" where
  "chunk_end_at txt config current_pos =
     (let chunk_end = find_best_split_point txt current_pos (current_pos + max_chunk_size config) config
      in if chunk_end - current_pos < min_chunk_size config \<and> chunk_end < length txt
         then let extended_end = current_pos + min_chunk_size config
              in if 10 * extended_end \<le> 10 * current_pos + 12 * max_chunk_size config
                 then find_best_split_point txt current_pos extended_end config
                 else chunk_end
         else chunk_end)"

definition next_start :: "chunking_config \<Rightarrow> nat \<Rightarrow> nat \<Rightarrow> nat" where
  "next_start config current_pos chunk_end =
     (let next_pos = (if overlap_size config > 0 \<and> chunk_end > overlap_size config
                      then chunk_end - overlap_size config else chunk_end)
      in if next_pos \<le> current_pos then current_pos + 1 else next_pos)"

text \<open>The loop. Sites of chunk \<open>k\<close>: \<open>2 k\<close> its text, \<open>2 k + 1\<close> the growth of the array. \<open>Inl\<close> is the message of a
  failure.\<close>

function chunk_loop ::
    "alloc \<Rightarrow> string \<Rightarrow> chunking_config \<Rightarrow> nat \<Rightarrow> nat \<Rightarrow> string + document_chunk list" where
  "chunk_loop ok txt config k current_pos =
     (if current_pos \<ge> length txt then Inr []
      else
        let chunk_end = chunk_end_at txt config current_pos
        in if \<not> ok (2 * k) then Inl ''Memory allocation failed for chunk text''
           else if \<not> ok (2 * k + 1) then Inl ''Memory allocation failed during chunking''
           else
             let chunk = mk_chunk txt current_pos chunk_end (int k)
             in if chunk_end \<ge> length txt then Inr [chunk]
                else case chunk_loop ok txt config (Suc k) (next_start config current_pos chunk_end) of
                       Inl e \<Rightarrow> Inl e
                     | Inr chunks \<Rightarrow> Inr (chunk # chunks))"
  by pat_completeness auto

termination
  by (relation "measure (\<lambda>(ok, txt, config, k, current_pos). length txt - current_pos)")
    (auto simp: next_start_def Let_def)

declare chunk_loop.simps [simp del]

text \<open>\<open>ok\<close> has the sites of the result, \<open>oke\<close> those of an error, \<open>okc\<close> those of the chunks.\<close>

definition chunk_document ::
    "alloc \<Rightarrow> alloc \<Rightarrow> alloc \<Rightarrow> string option \<Rightarrow> chunking_config option \<Rightarrow> chunking_result option" where
  "chunk_document ok oke okc txt config =
     (case txt of
        None \<Rightarrow> create_error_result oke ''Input text is NULL''
      | Some t \<Rightarrow>
          if t = [] then create_error_result oke ''Input text is empty''
          else
            let config = (case config of None \<Rightarrow> chunker_get_default_config | Some c \<Rightarrow> c)
            in if max_chunk_size config < min_chunk_size config
               then create_error_result oke ''max_chunk_size must be >= min_chunk_size''
               else if overlap_size config \<ge> max_chunk_size config
               then create_error_result oke ''overlap_size must be < max_chunk_size''
               else if length t \<le> max_chunk_size config
               then if \<not> ok 0 \<or> \<not> ok 1 \<or> \<not> ok 2 then create_error_result oke ''Memory allocation failed''
                    else Some \<lparr>cr_chunks = [mk_chunk t 0 (length t) 0], cr_error = None\<rparr>
               else if \<not> ok 0 then create_error_result oke ''Memory allocation failed''
               else case chunk_loop okc t config 0 0 of
                      Inl e \<Rightarrow> create_error_result oke e
                    | Inr chunks \<Rightarrow> Some \<lparr>cr_chunks = chunks, cr_error = None\<rparr>)"

section \<open>Split points\<close>

lemma search_down_range: "search_down P lo pos = Some q \<Longrightarrow> lo < q \<and> q \<le> pos \<and> P q"
  by (induction P lo pos rule: search_down.induct) (auto split: if_splits)

lemma search_down_last:
  "search_down P lo pos = Some q \<Longrightarrow> q < r \<Longrightarrow> r \<le> pos \<Longrightarrow> \<not> P r"
  by (induction P lo pos rule: search_down.induct) (auto split: if_splits simp: le_Suc_eq)

text \<open>A split in front of the end of the text leaves more than the minimum and at most the maximum.\<close>

lemma find_best_split_point_range:
  assumes "start < length t" and "min_chunk_size c < max_chunk_size c"
  defines "e \<equiv> find_best_split_point t start (start + max_chunk_size c) c"
  shows "start < e" "e \<le> length t" "e \<le> start + max_chunk_size c"
    "e < length t \<Longrightarrow> start + min_chunk_size c < e"
  using assms(1,2) unfolding e_def find_best_split_point_def
  by (auto simp: Let_def split: option.splits if_splits dest!: search_down_range)

text \<open>So the second attempt with an extended end is never made.\<close>

lemma chunk_end_at_split:
  assumes "start < length t" and "min_chunk_size c < max_chunk_size c"
  shows "chunk_end_at t c start = find_best_split_point t start (start + max_chunk_size c) c"
  using find_best_split_point_range(4)[OF assms]
  unfolding chunk_end_at_def Let_def by fastforce

lemma chunk_end_at_range:
  assumes "start < length t" and "min_chunk_size c < max_chunk_size c"
  shows "start < chunk_end_at t c start" "chunk_end_at t c start \<le> length t"
    "chunk_end_at t c start \<le> start + max_chunk_size c"
  unfolding chunk_end_at_split[OF assms] using find_best_split_point_range[OF assms] by simp_all

lemma next_start_range:
  assumes "start < e" "e < n"
  shows "start < next_start c start e" "next_start c start e \<le> e"
    "e - next_start c start e \<le> overlap_size c"
  using assms unfolding next_start_def by (auto simp: Let_def)

section \<open>The chunks of a text\<close>

text \<open>A chunk holds its slice of the text without the white space around it and is not larger than the maximum.\<close>

definition chunk_of :: "string \<Rightarrow> chunking_config \<Rightarrow> document_chunk \<Rightarrow> bool" where
  "chunk_of t c ck \<longleftrightarrow>
     ck_start_offset ck < ck_end_offset ck \<and> ck_end_offset ck \<le> length t \<and>
     ck_end_offset ck - ck_start_offset ck \<le> max_chunk_size c \<and>
     ck_text ck = trim_whitespace (take (ck_end_offset ck - ck_start_offset ck) (drop (ck_start_offset ck) t)) \<and>
     ck_length ck = length (ck_text ck)"

text \<open>The next chunk starts later, not behind the end of this one, and shares at most the overlap with it.\<close>

definition chunk_link :: "chunking_config \<Rightarrow> document_chunk \<Rightarrow> document_chunk \<Rightarrow> bool" where
  "chunk_link c a b \<longleftrightarrow>
     ck_start_offset a < ck_start_offset b \<and> ck_start_offset b \<le> ck_end_offset a \<and>
     ck_end_offset a - ck_start_offset b \<le> overlap_size c"

definition in_chunk :: "nat \<Rightarrow> document_chunk \<Rightarrow> bool" where
  "in_chunk p ck \<longleftrightarrow> ck_start_offset ck \<le> p \<and> p < ck_end_offset ck"

lemma mk_chunk_sel [simp]:
  "ck_start_offset (mk_chunk t a e k) = a" "ck_end_offset (mk_chunk t a e k) = e"
  "ck_chunk_index (mk_chunk t a e k) = k"
  by (simp_all add: mk_chunk_def Let_def)

lemma mk_chunk_of: "a < e \<Longrightarrow> e \<le> length t \<Longrightarrow> e - a \<le> max_chunk_size c \<Longrightarrow> chunk_of t c (mk_chunk t a e k)"
  by (simp add: chunk_of_def mk_chunk_def Let_def)

text \<open>What the loop leaves from a position on.\<close>

definition covers_from :: "string \<Rightarrow> chunking_config \<Rightarrow> nat \<Rightarrow> nat \<Rightarrow> document_chunk list \<Rightarrow> bool" where
  "covers_from t c k start cs \<longleftrightarrow>
     cs \<noteq> [] \<and> ck_start_offset (hd cs) = start \<and> ck_end_offset (last cs) = length t \<and>
     list_all (chunk_of t c) cs \<and> successively (chunk_link c) cs \<and>
     map ck_chunk_index cs = map int [k..<k + length cs] \<and>
     (\<forall>p. start \<le> p \<and> p < length t \<longrightarrow> list_ex (in_chunk p) cs)"

lemma covers_from_single:
  assumes "start < length t" "length t - start \<le> max_chunk_size c"
  shows "covers_from t c k start [mk_chunk t start (length t) (int k)]"
  using assms by (auto simp: covers_from_def mk_chunk_of in_chunk_def)

lemma covers_from_Cons:
  assumes cs: "covers_from t c (Suc k) b cs"
    and ck: "chunk_of t c (mk_chunk t a e (int k))" and link: "a < b" "b \<le> e" "e - b \<le> overlap_size c"
  shows "covers_from t c k a (mk_chunk t a e (int k) # cs)"
proof -
  obtain d ds where [simp]: "cs = d # ds" using cs by (cases cs) (auto simp: covers_from_def)
  have "list_ex (in_chunk p) (mk_chunk t a e (int k) # cs)" if "a \<le> p" "p < length t" for p
  proof (cases "p < e")
    case False
    then show ?thesis using cs that link by (auto simp: covers_from_def)
  qed (use that in \<open>simp add: in_chunk_def\<close>)
  moreover have "map int [k..<k + length (mk_chunk t a e (int k) # cs)] = int k # map int [Suc k..<Suc k + length cs]"
    by (simp add: upt_conv_Cons del: upt_Suc)
  ultimately show ?thesis
    using cs ck link unfolding covers_from_def
    by (auto simp: chunk_link_def simp del: upt_Suc)
qed

text \<open>With memory for every chunk the loop ends with chunks that cover the rest of the text.\<close>

lemma chunk_loop_covers:
  assumes "min_chunk_size c < max_chunk_size c" and "\<And>i. okc i" and "start < length t"
  shows "\<exists>cs. chunk_loop okc t c k start = Inr cs \<and> covers_from t c k start cs"
  using assms(3)
proof (induction "length t - start" arbitrary: k start rule: less_induct)
  case less
  let ?e = "chunk_end_at t c start"
  let ?ck = "mk_chunk t start ?e (int k)"
  note range = chunk_end_at_range[OF less.prems assms(1)]
  have ck: "chunk_of t c ?ck" using range by (intro mk_chunk_of) auto
  show ?case
  proof (cases "?e < length t")
    case True
    note next_range = next_start_range[OF range(1) True, of c]
    let ?n = "next_start c start ?e"
    obtain cs where cs: "chunk_loop okc t c (Suc k) ?n = Inr cs" "covers_from t c (Suc k) ?n cs"
      using less.hyps[of ?n "Suc k"] next_range less.prems True by fastforce
    have "chunk_loop okc t c k start = Inr (?ck # cs)"
      using less.prems True cs(1) assms(2) by (subst chunk_loop.simps) (simp add: Let_def)
    then show ?thesis using covers_from_Cons[OF cs(2) ck next_range] by blast
  next
    case False
    then have "?e = length t" using range(2) by simp
    moreover from this have "chunk_loop okc t c k start = Inr [?ck]"
      using less.prems assms(2) by (subst chunk_loop.simps) (simp add: Let_def)
    ultimately show ?thesis using covers_from_single[OF less.prems, of c k] range(3) by auto
  qed
qed

text \<open>C36. With memory available, a non-empty text and a configuration whose minimum and overlap are below its maximum,
  \<^verbatim>\<open>chunk_document\<close> returns, without an error, chunks that cover the text: the first starts at 0 and the last ends at the
  end of the text; each holds its slice without surrounding white space and spans at most \<^verbatim>\<open>max_chunk_size\<close> characters;
  the next starts strictly later, leaves no gap and shares at most \<^verbatim>\<open>overlap_size\<close> characters; the indices count from 0;
  and every position of the text is in a chunk.\<close>

theorem chunks_cover_document:
  assumes "t \<noteq> []" and "min_chunk_size c < max_chunk_size c" and "overlap_size c < max_chunk_size c"
    and "\<And>i. ok i" and "\<And>i. okc i"
  shows "\<exists>cs. chunk_document ok oke okc (Some t) (Some c) = Some \<lparr>cr_chunks = cs, cr_error = None\<rparr> \<and>
     cs \<noteq> [] \<and> ck_start_offset (hd cs) = 0 \<and> ck_end_offset (last cs) = length t \<and>
     list_all (chunk_of t c) cs \<and> successively (chunk_link c) cs \<and>
     map ck_chunk_index cs = map int [0..<length cs] \<and>
     (\<forall>p<length t. list_ex (in_chunk p) cs)"
proof -
  have "\<exists>cs. chunk_document ok oke okc (Some t) (Some c) = Some \<lparr>cr_chunks = cs, cr_error = None\<rparr> \<and>
     covers_from t c 0 0 cs"
  proof (cases "length t \<le> max_chunk_size c")
    case True
    then show ?thesis
      using assms covers_from_single[of 0 t c 0] by (simp add: chunk_document_def Let_def)
  next
    case False
    obtain cs where "chunk_loop okc t c 0 0 = Inr cs" "covers_from t c 0 0 cs"
      using chunk_loop_covers[where okc = okc and start = 0 and k = 0, OF assms(2,5)] assms(1) by auto
    then show ?thesis using assms False by (simp add: chunk_document_def Let_def)
  qed
  then show ?thesis unfolding covers_from_def by auto
qed

theorem chunks_cover_document_witness:
  "\<exists>cs. chunk_document (\<lambda>_. True) (\<lambda>_. True) (\<lambda>_. True) (Some ''One. Two. Three.'')
     (Some \<lparr>max_chunk_size = 6, overlap_size = 2, preserve_sentences = True, preserve_paragraphs = False,
            min_chunk_size = 2\<rparr>) = Some \<lparr>cr_chunks = cs, cr_error = None\<rparr> \<and> cs \<noteq> []"
  using chunks_cover_document[of "''One. Two. Three.''"
      "\<lparr>max_chunk_size = 6, overlap_size = 2, preserve_sentences = True, preserve_paragraphs = False,
            min_chunk_size = 2\<rparr>" "\<lambda>_. True" "\<lambda>_. True" "\<lambda>_. True"]
  by auto

text \<open>With the minimum equal to the maximum, which the check of the configuration lets through, the whole of a longer text
  becomes one chunk.\<close>

lemma equal_sizes_not_split:
  assumes "min_chunk_size c = max_chunk_size c" and "overlap_size c < max_chunk_size c"
    and "max_chunk_size c < length t" and "\<And>i. ok i" and "\<And>i. okc i"
  shows "chunk_document ok oke okc (Some t) (Some c) =
     Some \<lparr>cr_chunks = [mk_chunk t 0 (length t) 0], cr_error = None\<rparr>"
proof -
  have "chunk_end_at t c 0 = length t"
    using assms unfolding chunk_end_at_def find_best_split_point_def by (auto simp: Let_def)
  then have "chunk_loop okc t c 0 0 = Inr [mk_chunk t 0 (length t) 0]"
    using assms by (subst chunk_loop.simps) (auto simp: Let_def)
  then show ?thesis using assms by (auto simp: chunk_document_def Let_def)
qed

text \<open>Running out of memory loses the chunks already made and reports which step failed.\<close>

lemma chunk_loop_error:
  "chunk_loop ok t c k start = Inl e \<Longrightarrow>
     e = ''Memory allocation failed for chunk text'' \<or> e = ''Memory allocation failed during chunking''"
proof (induction ok t c k start rule: chunk_loop.induct)
  case (1 ok t c k start)
  show ?case
    using "1.prems"
    by (subst (asm) chunk_loop.simps) (auto simp: Let_def split: if_splits sum.splits dest: "1.IH"[OF _ refl _ _ refl])
qed

end
