(* ===== verification/Conversation.thy ===== *)
theory Conversation
  imports Tool_Orchestration
begin

text \<open>
  The history of a conversation: the operations of \<^verbatim>\<open>lib/session/conversation_tracker.c\<close> that add to it
  and those of \<^verbatim>\<open>lib/agent/conversation_state.c\<close> that add the replies of the model and the results of
  tools.

  The array of messages is a list, whose growth may fail. What is handed to the vector database for
  long-term memory is a second list of roles and texts; the database itself is not modelled. The
  library functions are one record: \<open>cv_format\<close> is \<^verbatim>\<open>format_model_assistant_tool_message\<close> of the
  model in use, which may fail.
\<close>

section \<open>State\<close>

record ConversationMessage =
  cm_role :: "string option"
  cm_content :: "string option"
  cm_tool_call_id :: "string option"
  cm_tool_name :: "string option"
  cm_has_tool_calls :: bool

record ConversationHistory =
  ch_messages :: "ConversationMessage list"
  ch_memory :: "(string \<times> string option) list"

record 'j conv_lib =
  cv_json :: "'j cjson"
  cv_IsNull :: "'j \<Rightarrow> bool"
  cv_format :: "string option \<Rightarrow> ToolCall list \<Rightarrow> string option"
  cv_store :: bool

definition init_conversation_history :: "ConversationHistory \<Rightarrow> ConversationHistory" where
  "init_conversation_history h = h\<lparr>ch_messages := []\<rparr>"

definition cleanup_conversation_history :: "ConversationHistory \<Rightarrow> ConversationHistory" where
  "cleanup_conversation_history h = h\<lparr>ch_messages := []\<rparr>"

section \<open>Messages\<close>

text \<open>The object a message holds when it is one with an array of tool calls.\<close>

definition tool_call_object :: "'j cjson \<Rightarrow> string \<Rightarrow> 'j option" where
  "tool_call_object js content =
     (case cJSON_Parse js content of
        None \<Rightarrow> None
      | Some json \<Rightarrow> if jtest (cJSON_IsArray js) (cJSON_GetObjectItem js json ''tool_calls'') then Some json else None)"

text \<open>What of a message is kept for long-term memory: \<open>None\<close> when it is skipped. Site 5 copies the text.\<close>

definition content_to_store :: "alloc \<Rightarrow> 'j conv_lib \<Rightarrow> string \<Rightarrow> string \<Rightarrow> string option option" where
  "content_to_store ok lib role content =
     (let js = cv_json lib
      in if role \<noteq> ''assistant'' then Some (Some content)
         else case tool_call_object js content of
                None \<Rightarrow> Some (Some content)
              | Some json \<Rightarrow>
                  (case cJSON_GetObjectItem js json ''content'' of
                     None \<Rightarrow> None
                   | Some item \<Rightarrow>
                       if cJSON_IsString js item
                       then (case cJSON_valuestring js item of
                               None \<Rightarrow> None
                             | Some s \<Rightarrow> if s = [] then None else Some (if ok 5 then Some s else None))
                       else if cv_IsNull lib item then None
                       else Some (Some content)))"

definition remember_message :: "alloc \<Rightarrow> 'j conv_lib \<Rightarrow> string \<Rightarrow> string \<Rightarrow> ConversationHistory \<Rightarrow> ConversationHistory" where
  "remember_message ok lib role content h =
     (case content_to_store ok lib role content of
        None \<Rightarrow> h
      | Some s \<Rightarrow>
          if cv_store lib \<and> cJSON_PrintObject (cv_json lib) [(''role'', JStr role)] \<noteq> None
          then h\<lparr>ch_memory := ch_memory h @ [(role, s)]\<rparr> else h)"

text \<open>Sites 0 to 3 are the copies, site 4 the growth of the array.\<close>

definition add_message_to_history ::
    "alloc \<Rightarrow> 'j conv_lib \<Rightarrow> string \<Rightarrow> string option \<Rightarrow> string option \<Rightarrow> string option \<Rightarrow> ConversationHistory
     \<Rightarrow> int \<times> ConversationHistory" where
  "add_message_to_history ok lib role content tool_call_id tool_name h =
     (case content of
        None \<Rightarrow> (-1, h)
      | Some c \<Rightarrow>
          if \<not> ok 0 \<or> \<not> ok 1 then (-1, h)
          else if tool_call_id \<noteq> None \<and> \<not> ok 2 then (-1, h)
          else if tool_name \<noteq> None \<and> \<not> ok 3 then (-1, h)
          else if \<not> ok 4 then (-1, h)
          else
            let has_calls = (role = ''assistant'' \<and> tool_call_object (cv_json lib) c \<noteq> None);
                msg = \<lparr>cm_role = Some role, cm_content = Some c, cm_tool_call_id = tool_call_id,
                       cm_tool_name = tool_name, cm_has_tool_calls = has_calls\<rparr>;
                h = h\<lparr>ch_messages := ch_messages h @ [msg]\<rparr>
            in (0, if role \<noteq> ''tool'' then remember_message ok lib role c h else h))"

definition append_conversation_message ::
    "alloc \<Rightarrow> 'j conv_lib \<Rightarrow> string \<Rightarrow> string option \<Rightarrow> ConversationHistory \<Rightarrow> int \<times> ConversationHistory" where
  "append_conversation_message ok lib role content h =
     (if content = None then (-1, h) else add_message_to_history ok lib role content None None h)"

definition append_tool_message ::
    "alloc \<Rightarrow> 'j conv_lib \<Rightarrow> string option \<Rightarrow> string option \<Rightarrow> string option \<Rightarrow> ConversationHistory
     \<Rightarrow> int \<times> ConversationHistory" where
  "append_tool_message ok lib content tool_call_id tool_name h =
     (if content = None \<or> tool_call_id = None \<or> tool_name = None then (-1, h)
      else add_message_to_history ok lib ''tool'' content tool_call_id tool_name h)"

section \<open>Replies and results\<close>

text \<open>\<^verbatim>\<open>strncat\<close> to a buffer that holds \<open>n\<close> bytes.\<close>

definition strncat_to :: "nat \<Rightarrow> string \<Rightarrow> string \<Rightarrow> string" where
  "strncat_to n s t = s @ take (n - length s - 1) t"

fun append_names :: "nat \<Rightarrow> ToolCall list \<Rightarrow> string \<Rightarrow> string" where
  "append_names i [] summary = summary"
| "append_names i (tc # tcs) summary =
     (let summary = (if i > 0 then strncat_to 256 summary '', '' else summary)
      in append_names (Suc i) tcs
           (strncat_to 256 summary (case tc_name tc of Some n \<Rightarrow> n | None \<Rightarrow> ''unknown'')))"

definition used_tools :: "ToolCall list \<Rightarrow> string" where
  "used_tools calls = append_names 0 calls ''Used tools: ''"

text \<open>Without calls \<open>calls\<close> is empty.\<close>

definition conversation_append_assistant ::
    "alloc \<Rightarrow> 'j conv_lib \<Rightarrow> string option \<Rightarrow> ToolCall list \<Rightarrow> ConversationHistory \<Rightarrow> int \<times> ConversationHistory" where
  "conversation_append_assistant ok lib content calls h =
     (if calls \<noteq> []
      then let txt = (case cv_format lib content calls of Some f \<Rightarrow> f | None \<Rightarrow> used_tools calls)
           in case append_conversation_message ok lib ''assistant'' (Some txt) h of
                (rc, h) \<Rightarrow> (if rc \<noteq> 0 then -1 else 0, h)
      else if content \<noteq> None
      then case append_conversation_message ok lib ''assistant'' content h of
             (rc, h) \<Rightarrow> (if rc \<noteq> 0 then -1 else 0, h)
      else (0, h))"

text \<open>Result \<open>i\<close> belongs to call \<open>ci i\<close>. A message that cannot be added is left out with a warning. \<open>oks i\<close> has the
  sites of message \<open>i\<close>.\<close>

fun append_results ::
    "(nat \<Rightarrow> alloc) \<Rightarrow> 'j conv_lib \<Rightarrow> (nat \<Rightarrow> nat) \<Rightarrow> ToolCall list \<Rightarrow> nat \<Rightarrow> ToolResult list \<Rightarrow> ConversationHistory
     \<Rightarrow> ConversationHistory" where
  "append_results oks lib ci calls i [] h = h"
| "append_results oks lib ci calls i (r # rs) h =
     append_results oks lib ci calls (Suc i) rs
       (snd (append_tool_message (oks i) lib (tr_result r) (tc_id (calls ! ci i)) (tc_name (calls ! ci i)) h))"

definition conversation_append_tool_results ::
    "(nat \<Rightarrow> alloc) \<Rightarrow> 'j conv_lib \<Rightarrow> ToolResult list \<Rightarrow> nat \<Rightarrow> ToolCall list \<Rightarrow> nat list option \<Rightarrow> ConversationHistory
     \<Rightarrow> ConversationHistory" where
  "conversation_append_tool_results oks lib results result_count source_calls call_indices h =
     append_results oks lib (case call_indices of None \<Rightarrow> id | Some ix \<Rightarrow> (\<lambda>i. ix ! i)) source_calls 0
       (take result_count results) h"

section \<open>Lemmas\<close>

text \<open>The summary of a reply whose calls cannot be formatted fits its buffer, and is the list of names as far as
  it fits.\<close>

lemma strncat_to_take: "s = take 255 u \<Longrightarrow> strncat_to 256 s t = take 255 (u @ t)"
  by (simp add: strncat_to_def min_def)

lemma append_names_take:
  "\<exists>names. append_names i calls (take 255 u) = take 255 (u @ names) \<and>
     names = concat (map (\<lambda>k. (if i + k > 0 then '', '' else []) @
       (case tc_name (calls ! k) of Some n \<Rightarrow> n | None \<Rightarrow> ''unknown'')) [0..<length calls])"
proof (induction calls arbitrary: i u)
  case (Cons tc tcs)
  let ?sep = "if i > 0 then '', '' else []"
  let ?name = "case tc_name tc of Some n \<Rightarrow> n | None \<Rightarrow> ''unknown''"
  have step: "append_names i (tc # tcs) (take 255 u) = append_names (Suc i) tcs (take 255 (u @ ?sep @ ?name))"
    by (simp add: Let_def strncat_to_take[OF refl] del: take_append)
  show ?case
    unfolding step using Cons.IH[of "Suc i" "u @ ?sep @ ?name"]
    by (simp add: map_upt_Suc del: upt_Suc)
qed simp

lemma used_tools_length: "length (used_tools calls) < 256"
  using append_names_take[of 0 calls "''Used tools: ''"] by (auto simp: used_tools_def)

text \<open>An addition that returns 0 adds one message, and otherwise none.\<close>

lemma remember_message_messages [simp]: "ch_messages (remember_message ok lib role c h) = ch_messages h"
  by (simp add: remember_message_def split: option.split)

lemma add_message_messages:
  assumes "add_message_to_history ok lib role content i n h = (rc, h')"
  shows "(rc = 0 \<and> (\<exists>b. ch_messages h' = ch_messages h @
            [\<lparr>cm_role = Some role, cm_content = content, cm_tool_call_id = i, cm_tool_name = n,
              cm_has_tool_calls = b\<rparr>])) \<or> rc = -1 \<and> h' = h"
  using assms by (auto simp: add_message_to_history_def Let_def split: option.splits if_splits)

lemma append_conversation_messages:
  assumes "append_conversation_message ok lib role content h = (rc, h')"
  shows "(rc = 0 \<and> (\<exists>b. ch_messages h' = ch_messages h @
            [\<lparr>cm_role = Some role, cm_content = content, cm_tool_call_id = None, cm_tool_name = None,
              cm_has_tool_calls = b\<rparr>])) \<or> rc = -1 \<and> h' = h"
  using assms add_message_messages
  by (fastforce simp: append_conversation_message_def split: if_splits)

text \<open>The message for a result.\<close>

definition result_message :: "ToolCall \<Rightarrow> ToolResult \<Rightarrow> ConversationMessage" where
  "result_message tc r =
     \<lparr>cm_role = Some ''tool'', cm_content = tr_result r, cm_tool_call_id = tc_id tc, cm_tool_name = tc_name tc,
      cm_has_tool_calls = False\<rparr>"

lemma append_tool_message_ok:
  assumes "tr_result r \<noteq> None" "tc_id tc \<noteq> None" "tc_name tc \<noteq> None" "\<And>n. ok n"
  shows "append_tool_message ok lib (tr_result r) (tc_id tc) (tc_name tc) h =
     (0, h\<lparr>ch_messages := ch_messages h @ [result_message tc r]\<rparr>)"
  using assms by (auto simp: append_tool_message_def add_message_to_history_def result_message_def Let_def)

text \<open>A result without a text is left out.\<close>

lemma append_tool_message_null:
  "append_tool_message ok lib None i n h = (-1, h)"
  by (simp add: append_tool_message_def)

text \<open>When memory suffices the results are added in order, each with the identifier and the name of its call,
  except those that have no text.\<close>

lemma append_results_messages:
  assumes "\<And>i n. oks i n" and "\<And>k. k < length rs \<Longrightarrow> tc_id (calls ! ci (i + k)) \<noteq> None \<and> tc_name (calls ! ci (i + k)) \<noteq> None"
  shows "append_results oks lib ci calls i rs h =
     h\<lparr>ch_messages := ch_messages h @
         map (\<lambda>(k, r). result_message (calls ! ci k) r) (filter (\<lambda>(k, r). tr_result r \<noteq> None) (zip [i..<i + length rs] rs))\<rparr>"
  using assms(2)
proof (induction rs arbitrary: i h)
  case (Cons r rs)
  have z: "zip [i..<i + length (r # rs)] (r # rs) = (i, r) # zip [Suc i..<Suc i + length rs] rs"
    by (simp add: upt_conv_Cons del: upt_Suc)
  have ids: "tc_id (calls ! ci i) \<noteq> None" "tc_name (calls ! ci i) \<noteq> None"
    using Cons.prems[of 0] by simp_all
  have tail: "tc_id (calls ! ci (Suc i + k)) \<noteq> None \<and> tc_name (calls ! ci (Suc i + k)) \<noteq> None" if "k < length rs" for k
    using Cons.prems[of "Suc k"] that by simp
  show ?case
  proof (cases "tr_result r = None")
    case True
    then show ?thesis
      unfolding z using Cons.IH[of "Suc i" h] tail by (simp add: append_tool_message_null del: upt_Suc)
  next
    case False
    let ?h = "h\<lparr>ch_messages := ch_messages h @ [result_message (calls ! ci i) r]\<rparr>"
    have "append_tool_message (oks i) lib (tr_result r) (tc_id (calls ! ci i)) (tc_name (calls ! ci i)) h = (0, ?h)"
      by (rule append_tool_message_ok[OF False ids assms(1)])
    then show ?thesis
      unfolding z using Cons.IH[of "Suc i" ?h] tail False by (simp del: upt_Suc)
  qed
qed simp

end
