(* ===== verification/C_Float.thy ===== *)
theory C_Float
  imports Complex_Main "HOL-Library.Log_Nat"
begin

text \<open>
  Floating-point arithmetic as the program uses it: the result of an operation on \<^verbatim>\<open>float\<close> or
  \<^verbatim>\<open>double\<close> is the exact rational result rounded to the nearest number with 24 or 53 binary digits, a
  tie to the even one. Overflow and subnormal numbers are left out: the program computes with
  fractions and multiples of token counts.
\<close>

text \<open>The largest \<open>k\<close> with \<open>2 ^ k \<le> x\<close>, for a positive number.\<close>

definition exponent :: "rat \<Rightarrow> int" where
  "exponent x =
     (case quotient_of x of (n, d) \<Rightarrow>
        let k = bitlen n - bitlen d in if 2 powi k \<le> x then k else k - 1)"

definition round_even :: "rat \<Rightarrow> int" where
  "round_even y =
     (let f = \<lfloor>y\<rfloor>; r = y - of_int f
      in if r < 1 / 2 then f else if r > 1 / 2 then f + 1 else if even f then f else f + 1)"

definition round_pos :: "nat \<Rightarrow> rat \<Rightarrow> rat" where
  "round_pos p x = (let u = 2 powi (exponent x - int p + 1) in of_int (round_even (x / u)) * u)"

definition to_float :: "nat \<Rightarrow> rat \<Rightarrow> rat" where
  "to_float p x = (if x > 0 then round_pos p x else if x < 0 then - round_pos p (- x) else 0)"

abbreviation f32 :: "rat \<Rightarrow> rat" where
  "f32 \<equiv> to_float 24"

abbreviation f64 :: "rat \<Rightarrow> rat" where
  "f64 \<equiv> to_float 53"

text \<open>The conversion to \<^verbatim>\<open>int\<close>, towards zero.\<close>

definition to_int :: "rat \<Rightarrow> int" where
  "to_int x = (if x \<ge> 0 then \<lfloor>x\<rfloor> else \<lceil>x\<rceil>)"

section \<open>Lemmas\<close>

lemma round_even_bounds: "y - 1 / 2 \<le> of_int (round_even y)" "of_int (round_even y) \<le> y + 1 / 2"
  unfolding round_even_def Let_def by (auto simp: not_less; linarith)+

lemma round_even_nonneg: "0 \<le> y \<Longrightarrow> 0 \<le> round_even y"
  unfolding round_even_def Let_def by (auto intro: order.trans[of 0 "\<lfloor>y\<rfloor>"])

lemma round_even_int [simp]: "round_even (of_int n) = n"
  by (simp add: round_even_def)

lemma to_float_nonneg: "0 \<le> x \<Longrightarrow> 0 \<le> to_float p x"
  by (auto simp: to_float_def round_pos_def Let_def intro!: mult_nonneg_nonneg round_even_nonneg)

lemma to_float_0 [simp]: "to_float p 0 = 0"
  by (simp add: to_float_def)

text \<open>The error is at most half a unit in the last place.\<close>

lemma round_pos_error: "\<bar>round_pos p x - x\<bar> \<le> 2 powi (exponent x - int p + 1) / 2"
proof -
  define u :: rat where "u = 2 powi (exponent x - int p + 1)"
  have u: "u > 0" by (simp add: u_def)
  have "\<bar>of_int (round_even (x / u)) - x / u\<bar> \<le> 1 / 2"
    using round_even_bounds[of "x / u"] by linarith
  then have "\<bar>of_int (round_even (x / u)) - x / u\<bar> * u \<le> u / 2"
    using u by (simp add: mult_right_mono)
  moreover have "\<bar>of_int (round_even (x / u)) - x / u\<bar> * u = \<bar>(of_int (round_even (x / u)) - x / u) * u\<bar>"
    using u by (simp add: abs_mult)
  moreover have "(of_int (round_even (x / u)) - x / u) * u = round_pos p x - x"
    using u unfolding round_pos_def Let_def u_def[symmetric] by (simp add: left_diff_distrib)
  ultimately have "\<bar>round_pos p x - x\<bar> \<le> u / 2" by metis
  then show ?thesis by (simp add: u_def)
qed

lemma to_int_nonneg: "0 \<le> x \<Longrightarrow> 0 \<le> to_int x"
  by (simp add: to_int_def)

end
