(* ===== verification/Token_Manager.thy ===== *)
theory Token_Manager
  imports Conversation C_Float
begin

text \<open>
  The budget of tokens of a conversation: the estimates and the trimming of
  \<^verbatim>\<open>lib/session/token_manager.c\<close>, the compaction of \<^verbatim>\<open>lib/session/conversation_compactor.c\<close>, and
  \<^verbatim>\<open>manage_conversation_tokens\<close> of \<^verbatim>\<open>lib/agent/session.c\<close>, which runs them before every request.

  Sums of tokens are integers that do not wrap; the length of a single text is cut to 32 bits as the
  code does. The summary of messages that are about to be removed comes from a request to the model
  and is the argument \<open>summarise\<close>. Trimming that reads behind the messages is \<open>None\<close>.
\<close>

section \<open>Configuration\<close>

record TokenConfig =
  tk_context_window :: int
  tk_min_response_tokens :: int
  tk_safety_buffer_base :: int
  tk_safety_buffer_ratio :: rat
  tk_chars_per_token :: rat

record TokenUsage =
  tu_total_prompt_tokens :: int
  tu_available_response_tokens :: int
  tu_safety_buffer_used :: int
  tu_context_window_used :: int

record RollingSummary =
  rs_summary_text :: "string option"
  rs_estimated_tokens :: int
  rs_messages_summarized :: int

record SessionData =
  sd_api_url :: "string option"
  sd_model :: "string option"
  sd_system_prompt :: "string option"
  sd_context_window :: int
  sd_conversation :: ConversationHistory
  sd_tool_count :: int
  sd_rolling_summary :: RollingSummary

definition DEFAULT_SAFETY_BUFFER_BASE :: int where
  "DEFAULT_SAFETY_BUFFER_BASE = 50"

definition TOKEN_OVERHEAD_PER_MESSAGE :: int where
  "TOKEN_OVERHEAD_PER_MESSAGE = 10"

definition TOKEN_OVERHEAD_PER_TOOL :: int where
  "TOKEN_OVERHEAD_PER_TOOL = 50"

definition TOKEN_OVERHEAD_JSON_STRUCTURE :: int where
  "TOKEN_OVERHEAD_JSON_STRUCTURE = 50"

definition token_config_init :: "int \<Rightarrow> TokenConfig" where
  "token_config_init context_window =
     \<lparr>tk_context_window = (if context_window > 0 then context_window else 8192), tk_min_response_tokens = 150,
      tk_safety_buffer_base = DEFAULT_SAFETY_BUFFER_BASE, tk_safety_buffer_ratio = f32 (2 / 100),
      tk_chars_per_token = 11 / 2\<rparr>"

section \<open>Estimates\<close>

text \<open>The length of a text, over the average length of a token for texts of its kind.\<close>

definition looks_like_code :: "string \<Rightarrow> bool" where
  "looks_like_code t \<longleftrightarrow>
     strstr t ''```'' \<or> strstr t ''function '' \<or> strstr t ''#include'' \<or> strstr t ''def ''"

definition estimate_token_count :: "string option \<Rightarrow> TokenConfig \<Rightarrow> int" where
  "estimate_token_count body config =
     (case body of
        None \<Rightarrow> 0
      | Some t \<Rightarrow>
          let char_count = wrap32 (int (length t));
              chars_per_token = tk_chars_per_token config;
              chars_per_token = (if looks_like_code t then f32 (chars_per_token * f32 (12 / 10)) else chars_per_token);
              chars_per_token = (if peek t = CHR ''{'' \<or> strstr t (quoted ''role'' @ '':'')
                                 then f32 (chars_per_token * f32 (13 / 10)) else chars_per_token);
              estimated_tokens = \<lceil>f32 (f32 (of_int char_count) / chars_per_token)\<rceil>;
              estimated_tokens = (if strstr t (quoted ''tools'') then estimated_tokens + 50 else estimated_tokens)
          in if strstr t (quoted ''system'') then estimated_tokens + 10 else estimated_tokens)"

definition get_dynamic_safety_buffer :: "TokenConfig \<Rightarrow> int \<Rightarrow> int" where
  "get_dynamic_safety_buffer config estimated_prompt_tokens =
     (let buffer = tk_safety_buffer_base config;
          ratio_buffer = to_int (f32 (f32 (of_int (tk_context_window config)) * tk_safety_buffer_ratio config));
          buffer = buffer + ratio_buffer;
          buffer = (if of_int estimated_prompt_tokens > f64 (of_int (tk_context_window config) * f64 (7 / 10))
                    then buffer + 50 else buffer)
      in if buffer < tk_safety_buffer_base config then tk_safety_buffer_base config else buffer)"

definition validate_token_config :: "TokenConfig \<Rightarrow> int" where
  "validate_token_config config =
     (if tk_context_window config \<le> 0 then -1
      else if tk_min_response_tokens config \<le> 0 \<or> tk_min_response_tokens config \<ge> tk_context_window config then -1
      else if tk_chars_per_token config \<le> 0 then -1
      else 0)"

text \<open>The estimate for one message, and for all.\<close>

definition message_tokens :: "TokenConfig \<Rightarrow> ConversationMessage \<Rightarrow> int" where
  "message_tokens config msg = estimate_token_count (cm_content msg) config + TOKEN_OVERHEAD_PER_MESSAGE"

definition history_tokens :: "TokenConfig \<Rightarrow> ConversationMessage list \<Rightarrow> int" where
  "history_tokens config conv = (\<Sum>msg \<leftarrow> conv. message_tokens config msg)"

definition zero_usage :: TokenUsage where
  "zero_usage = \<lparr>tu_total_prompt_tokens = 0, tu_available_response_tokens = 0, tu_safety_buffer_used = 0,
     tu_context_window_used = 0\<rparr>"

definition calculate_token_allocation :: "SessionData \<Rightarrow> string option \<Rightarrow> TokenConfig \<Rightarrow> int \<times> TokenUsage" where
  "calculate_token_allocation session user_message config =
     (if validate_token_config config \<noteq> 0 then (-1, zero_usage)
      else
        let effective_context_window = tk_context_window config;
            system_tokens = estimate_token_count (sd_system_prompt session) config;
            user_tokens = estimate_token_count user_message config;
            tool_tokens = (if sd_tool_count session > 0 then sd_tool_count session * TOKEN_OVERHEAD_PER_TOOL else 0);
            total_prompt_tokens = system_tokens + user_tokens +
              history_tokens config (ch_messages (sd_conversation session)) + tool_tokens +
              TOKEN_OVERHEAD_JSON_STRUCTURE;
            safety_buffer = get_dynamic_safety_buffer config total_prompt_tokens
        in (0, \<lparr>tu_total_prompt_tokens = total_prompt_tokens,
                tu_available_response_tokens = effective_context_window - total_prompt_tokens - safety_buffer,
                tu_safety_buffer_used = safety_buffer, tu_context_window_used = effective_context_window\<rparr>))"

section \<open>Trimming\<close>

definition no_tool_message :: "ConversationMessage \<Rightarrow> bool" where
  "no_tool_message msg \<longleftrightarrow> cm_role msg \<noteq> None \<and> cm_role msg \<noteq> Some ''tool''"

text \<open>The message to remove from a conversation that is not empty. The search stops two messages before the end, an
  unsigned difference: with a single message it does not stop, and reads behind the messages (\<open>None\<close>) unless that
  one can be removed. So the search always finds a message or the first one is taken.\<close>

definition remove_index :: "ConversationMessage list \<Rightarrow> nat option" where
  "remove_index conv =
     (if length conv = 1
      then if no_tool_message (hd conv) then Some 0 else None
      else case find_index no_tool_message (take (length conv - 2) conv) of
             Some i \<Rightarrow> Some i
           | None \<Rightarrow> Some 0)"

definition remove_nth :: "nat \<Rightarrow> 'a list \<Rightarrow> 'a list" where
  "remove_nth i xs = take i xs @ drop (Suc i) xs"

lemma remove_nth_length: "i < length xs \<Longrightarrow> length (remove_nth i xs) = length xs - 1"
  by (simp add: remove_nth_def)

lemma remove_index_less: "remove_index conv = Some i \<Longrightarrow> conv \<noteq> [] \<Longrightarrow> i < length conv"
  by (cases conv) (auto simp: remove_index_def split: if_splits option.splits dest!: find_index_SomeD(1))

function trim_loop ::
    "TokenConfig \<Rightarrow> int \<Rightarrow> int \<Rightarrow> int \<Rightarrow> ConversationMessage list \<Rightarrow> (int \<times> ConversationMessage list) option" where
  "trim_loop config max_prompt_tokens current_tokens trimmed_count conv =
     (if current_tokens > max_prompt_tokens \<and> conv \<noteq> []
      then case remove_index conv of
             None \<Rightarrow> None
           | Some i \<Rightarrow>
               trim_loop config max_prompt_tokens (current_tokens - message_tokens config (conv ! i))
                 (trimmed_count + 1) (remove_nth i conv)
      else Some (trimmed_count, conv))"
  by pat_completeness auto

termination
  by (relation "measure (\<lambda>(config, m, c, t, conv). length conv)")
    (auto simp: remove_nth_length dest!: remove_index_less)

declare trim_loop.simps [simp del]

definition trim_conversation_for_tokens ::
    "ConversationHistory \<Rightarrow> TokenConfig \<Rightarrow> int \<Rightarrow> string option \<Rightarrow> (int \<times> ConversationHistory) option" where
  "trim_conversation_for_tokens h config max_prompt_tokens system_prompt =
     map_option (\<lambda>(n, conv). (n, h\<lparr>ch_messages := conv\<rparr>))
       (trim_loop config max_prompt_tokens
          (estimate_token_count system_prompt config + history_tokens config (ch_messages h)) 0 (ch_messages h))"

section \<open>Compaction\<close>

definition COMPACT_SUCCESS_NO_WORK :: int where
  "COMPACT_SUCCESS_NO_WORK = 0"

definition COMPACT_SUCCESS_TRIMMED :: int where
  "COMPACT_SUCCESS_TRIMMED = 1"

definition COMPACTION_TRIGGER_THRESHOLD :: rat where
  "COMPACTION_TRIGGER_THRESHOLD = f32 (75 / 100)"

definition COMPACTION_TARGET_THRESHOLD :: rat where
  "COMPACTION_TARGET_THRESHOLD = f32 (35 / 100)"

definition CONTEXT_FULL_THRESHOLD :: rat where
  "CONTEXT_FULL_THRESHOLD = f32 (92 / 100)"

definition SESSION_CONTEXT_FULL :: int where
  "SESSION_CONTEXT_FULL = -3"

record CompactionConfig =
  cp_preserve_recent_messages :: int
  cp_background_threshold :: int

record CompactionResult =
  cp_messages_trimmed :: int
  cp_messages_after_trimming :: int
  cp_tokens_saved :: int

definition compaction_config_init :: CompactionConfig where
  "compaction_config_init =
     \<lparr>cp_preserve_recent_messages = 10,
      cp_background_threshold = to_int (f32 (8192 * COMPACTION_TRIGGER_THRESHOLD))\<rparr>"

definition no_compaction :: CompactionResult where
  "no_compaction = \<lparr>cp_messages_trimmed = 0, cp_messages_after_trimming = 0, cp_tokens_saved = 0\<rparr>"

definition should_background_compact :: "ConversationHistory \<Rightarrow> CompactionConfig \<Rightarrow> int \<Rightarrow> bool" where
  "should_background_compact conversation config current_token_count \<longleftrightarrow>
     \<not> int (length (ch_messages conversation)) \<le> cp_preserve_recent_messages config + 5 \<and>
     current_token_count \<ge> cp_background_threshold config"

text \<open>The contents alone, without the overhead of messages.\<close>

definition content_tokens :: "TokenConfig \<Rightarrow> ConversationMessage list \<Rightarrow> int" where
  "content_tokens config conv = (\<Sum>msg \<leftarrow> conv. estimate_token_count (cm_content msg) config)"

fun count_to_trim :: "TokenConfig \<Rightarrow> int \<Rightarrow> int \<Rightarrow> int \<Rightarrow> ConversationMessage list \<Rightarrow> int" where
  "count_to_trim config tokens_to_remove running_tokens messages_to_trim [] = messages_to_trim"
| "count_to_trim config tokens_to_remove running_tokens messages_to_trim (msg # conv) =
     (if running_tokens < tokens_to_remove
      then if no_tool_message msg
           then count_to_trim config tokens_to_remove
                  (running_tokens + estimate_token_count (cm_content msg) config + 10) (messages_to_trim + 1) conv
           else count_to_trim config tokens_to_remove running_tokens messages_to_trim conv
      else messages_to_trim)"

definition estimate_messages_to_trim ::
    "ConversationHistory \<Rightarrow> TokenConfig \<Rightarrow> int \<Rightarrow> int \<Rightarrow> string option \<Rightarrow> int" where
  "estimate_messages_to_trim conversation token_config current_tokens target_tokens system_prompt =
     (if current_tokens \<le> target_tokens then 0
      else count_to_trim token_config (current_tokens - target_tokens)
             (estimate_token_count system_prompt token_config) 0 (ch_messages conversation))"

text \<open>The result of trimming and its code, for both kinds of compaction.\<close>

definition trim_session ::
    "SessionData \<Rightarrow> TokenConfig \<Rightarrow> int \<Rightarrow> (int \<times> CompactionResult \<times> SessionData) option" where
  "trim_session session token_config target_tokens =
     (case trim_conversation_for_tokens (sd_conversation session) token_config target_tokens (sd_system_prompt session) of
        None \<Rightarrow> None
      | Some (messages_trimmed, conv) \<Rightarrow>
          let session = session\<lparr>sd_conversation := conv\<rparr>
          in if messages_trimmed > 0
             then Some (COMPACT_SUCCESS_TRIMMED,
                        \<lparr>cp_messages_trimmed = messages_trimmed,
                         cp_messages_after_trimming = int (length (ch_messages conv)),
                         cp_tokens_saved = messages_trimmed * 50\<rparr>, session)
             else Some (COMPACT_SUCCESS_NO_WORK, no_compaction, session))"

type_synonym summariser = "ConversationMessage list \<Rightarrow> string option \<Rightarrow> string option"

definition update_summary :: "summariser \<Rightarrow> int \<Rightarrow> SessionData \<Rightarrow> SessionData" where
  "update_summary summarise messages_to_trim session =
     (if messages_to_trim \<ge> 3 \<and> sd_api_url session \<noteq> None \<and> sd_model session \<noteq> None
      then let old = sd_rolling_summary session
           in case summarise (take (nat messages_to_trim) (ch_messages (sd_conversation session))) (rs_summary_text old) of
                None \<Rightarrow> session
              | Some new_summary \<Rightarrow>
                  session\<lparr>sd_rolling_summary :=
                    \<lparr>rs_summary_text = Some new_summary,
                     rs_estimated_tokens =
                       estimate_token_count (Some new_summary) (token_config_init (sd_context_window session)),
                     rs_messages_summarized = rs_messages_summarized old + messages_to_trim\<rparr>\<rparr>
      else session)"

definition background_compact_conversation ::
    "summariser \<Rightarrow> SessionData \<Rightarrow> CompactionConfig \<Rightarrow> (int \<times> CompactionResult \<times> SessionData) option" where
  "background_compact_conversation summarise session config =
     (let token_config = token_config_init (sd_context_window session);
          current_tokens = content_tokens token_config (ch_messages (sd_conversation session))
      in if \<not> should_background_compact (sd_conversation session) config current_tokens
         then Some (COMPACT_SUCCESS_NO_WORK, no_compaction, session)
         else
           let target_tokens = to_int (f32 (f32 (of_int (sd_context_window session)) * COMPACTION_TARGET_THRESHOLD));
               messages_to_trim = estimate_messages_to_trim (sd_conversation session) token_config current_tokens
                 target_tokens (sd_system_prompt session)
           in trim_session (update_summary summarise messages_to_trim session) token_config target_tokens)"

definition compact_conversation ::
    "SessionData \<Rightarrow> int \<Rightarrow> (int \<times> CompactionResult \<times> SessionData) option" where
  "compact_conversation session target_token_count =
     (let token_config = token_config_init (sd_context_window session);
          current_tokens = content_tokens token_config (ch_messages (sd_conversation session))
      in if current_tokens \<le> target_token_count then Some (COMPACT_SUCCESS_NO_WORK, no_compaction, session)
         else trim_session session token_config target_token_count)"

section \<open>Before a request\<close>

definition context_full :: "TokenConfig \<Rightarrow> TokenUsage \<Rightarrow> bool" where
  "context_full config usage \<longleftrightarrow>
     tk_context_window config > 0 \<and>
     f32 (f32 (of_int (tu_total_prompt_tokens usage)) / f32 (of_int (tk_context_window config))) \<ge> CONTEXT_FULL_THRESHOLD"

text \<open>The end of the function, with the usage it has computed last.\<close>

definition final_check :: "TokenConfig \<Rightarrow> TokenUsage \<Rightarrow> SessionData \<Rightarrow> int \<times> TokenUsage \<times> SessionData" where
  "final_check config usage session = (if context_full config usage then SESSION_CONTEXT_FULL else 0, usage, session)"

definition emergency ::
    "string option \<Rightarrow> TokenConfig \<Rightarrow> TokenUsage \<Rightarrow> SessionData \<Rightarrow> (int \<times> TokenUsage \<times> SessionData) option" where
  "emergency user_message config usage session =
     (if tu_available_response_tokens usage < tk_min_response_tokens config * 2
      then
        let target_tokens = to_int (f64 (of_int (tk_context_window config) * f64 (7 / 10)))
        in case compact_conversation session target_tokens of
             None \<Rightarrow> None
           | Some (compact_status, compact_result, session) \<Rightarrow>
               if compact_status = 0 \<and> cp_tokens_saved compact_result > 0
               then case calculate_token_allocation session user_message config of
                      (result, usage) \<Rightarrow>
                        Some (if result = 0 \<and> context_full config usage then SESSION_CONTEXT_FULL else result, usage, session)
               else Some (final_check config usage session)
      else Some (final_check config usage session))"

definition manage_conversation_tokens ::
    "summariser \<Rightarrow> int \<Rightarrow> SessionData \<Rightarrow> string option \<Rightarrow> TokenConfig \<Rightarrow> (int \<times> TokenUsage \<times> SessionData) option" where
  "manage_conversation_tokens summarise tools session user_message config =
     (let session = session\<lparr>sd_tool_count := tools\<rparr>
      in case calculate_token_allocation session user_message config of
           (result, usage) \<Rightarrow>
             if result \<noteq> 0 then Some (result, usage, session)
             else
               let compact_config = compaction_config_init
                     \<lparr>cp_background_threshold :=
                        to_int (f32 (f32 (of_int (tk_context_window config)) * COMPACTION_TRIGGER_THRESHOLD))\<rparr>
               in case background_compact_conversation summarise session compact_config of
                    None \<Rightarrow> None
                  | Some (background_status, background_result, session) \<Rightarrow>
                      if background_status = 0 \<and> cp_tokens_saved background_result > 0
                      then case calculate_token_allocation session user_message config of
                             (result, usage) \<Rightarrow>
                               if result \<noteq> 0 then Some (result, usage, session)
                               else emergency user_message config usage session
                      else emergency user_message config usage session)"

section \<open>What trimming leaves\<close>

lemma remove_nth_split:
  assumes "i < length xs"
  obtains a b where "xs = a @ (xs ! i) # b" "remove_nth i xs = a @ b" "length a = i"
  using id_take_nth_drop[OF assms] assms by (intro that[of "take i xs" "drop (Suc i) xs"]) (auto simp: remove_nth_def)

lemma history_tokens_remove:
  assumes "i < length conv"
  shows "history_tokens c (remove_nth i conv) = history_tokens c conv - message_tokens c (conv ! i)"
proof -
  obtain a b where conv: "conv = a @ (conv ! i) # b" and rest: "remove_nth i conv = a @ b"
    using remove_nth_split[OF assms] by metis
  have "history_tokens c conv = history_tokens c (a @ (conv ! i) # b)" using conv by simp
  then show ?thesis unfolding rest by (simp add: history_tokens_def)
qed

lemma subseq_remove_nth:
  assumes "i < length xs"
  shows "subseq (remove_nth i xs) xs"
proof -
  obtain a b where xs: "xs = a @ (xs ! i) # b" and rest: "remove_nth i xs = a @ b"
    using remove_nth_split[OF assms] by metis
  have "subseq (a @ b) (a @ (xs ! i) # b)" by (intro list_emb_append_mono) auto
  then show ?thesis unfolding rest using xs by metis
qed

text \<open>Where a message is removed from a conversation of two or more: never at the end, and in front of the last two
  when there are more.\<close>

lemma remove_index_front:
  assumes "remove_index conv = Some i" "2 \<le> length conv"
  shows "i < length conv - 1" and "3 \<le> length conv \<Longrightarrow> i < length conv - 2"
  using assms by (auto simp: remove_index_def split: if_splits option.splits dest!: find_index_SomeD(1))

lemma drop_remove_nth: "i < n \<Longrightarrow> n \<le> length xs \<Longrightarrow> drop (n - 1) (remove_nth i xs) = drop n xs"
  by (simp add: remove_nth_def min_def)

lemma last_remove_nth: "i < length xs - 1 \<Longrightarrow> last (remove_nth i xs) = last xs"
  by (simp add: remove_nth_def last_append)

lemma remove_index_exists: "length conv = 1 \<longrightarrow> no_tool_message (hd conv) \<Longrightarrow> \<exists>i. remove_index conv = Some i"
  by (auto simp: remove_index_def split: option.split)

text \<open>What is left of a conversation that has to fit.\<close>

definition trimmed :: "TokenConfig \<Rightarrow> int \<Rightarrow> int \<Rightarrow> ConversationMessage list \<Rightarrow> ConversationMessage list \<Rightarrow> bool" where
  "trimmed config limit base conv conv' \<longleftrightarrow>
     subseq conv' conv \<and>
     (base + history_tokens config conv' \<le> limit \<or> conv' = []) \<and>
     (base + history_tokens config conv \<le> limit \<longrightarrow> conv' = conv) \<and>
     (2 \<le> length conv' \<longrightarrow> drop (length conv' - 2) conv' = drop (length conv - 2) conv) \<and>
     (conv' \<noteq> [] \<longrightarrow> last conv' = last conv)"

lemma trimmed_refl: "base + history_tokens config conv \<le> limit \<or> conv = [] \<Longrightarrow> trimmed config limit base conv conv"
  by (auto simp: trimmed_def)

lemma trimmed_step:
  assumes "limit < base + history_tokens config conv" and i: "remove_index conv = Some i" and "2 \<le> length conv"
    and rest: "trimmed config limit base (remove_nth i conv) conv'"
  shows "trimmed config limit base conv conv'"
proof -
  let ?r = "remove_nth i conv"
  note front = remove_index_front[OF i assms(3)]
  have il: "i < length conv" using front assms(3) by simp
  have len: "length ?r = length conv - 1" by (rule remove_nth_length[OF il])
  have sub: "subseq conv' conv"
    using rest subseq_remove_nth[OF il] subseq_order.trans unfolding trimmed_def by blast
  have short: "length conv' \<le> length conv - 1"
    using rest len list_emb_length unfolding trimmed_def by metis
  have lst: "last ?r = last conv"
    by (rule last_remove_nth[OF front(1)])
  have two: "drop (length ?r - 2) ?r = drop (length conv - 2) conv" if "2 \<le> length conv'"
  proof -
    have "3 \<le> length conv" using that short by simp
    then show ?thesis using drop_remove_nth[of i "length conv - 2" conv] front(2) len by (simp add: numeral_eq_Suc)
  qed
  show ?thesis
    using rest sub two lst assms(1) unfolding trimmed_def by (auto simp: lst)
qed

lemma trim_loop_trimmed:
  assumes "conv = [] \<or> no_tool_message (last conv)"
  shows "\<exists>k conv'. trim_loop config limit (base + history_tokens config conv) n conv = Some (n + int k, conv') \<and>
     length conv' + k = length conv \<and> trimmed config limit base conv conv'"
  using assms
proof (induction "length conv" arbitrary: conv n rule: less_induct)
  case less
  show ?case
  proof (cases "base + history_tokens config conv > limit \<and> conv \<noteq> []")
    case False
    then have "trim_loop config limit (base + history_tokens config conv) n conv = Some (n + int 0, conv)"
      by (subst trim_loop.simps) auto
    moreover have "trimmed config limit base conv conv" using False by (intro trimmed_refl) auto
    ultimately show ?thesis by (metis add.right_neutral)
  next
    case True
    have last: "no_tool_message (last conv)" using less.prems True by blast
    have "length conv = 1 \<longrightarrow> no_tool_message (hd conv)" using last by (cases conv) auto
    then obtain i where i: "remove_index conv = Some i" using remove_index_exists by blast
    have il: "i < length conv" using remove_index_less[OF i] True by blast
    let ?r = "remove_nth i conv"
    have step: "trim_loop config limit (base + history_tokens config conv) n conv =
        trim_loop config limit (base + history_tokens config ?r) (n + 1) ?r"
      using True i history_tokens_remove[OF il, of config]
      by (subst trim_loop.simps) (simp add: add_diff_eq)
    show ?thesis
    proof (cases "length conv = 1")
      case one: True
      then have "?r = []" using il by (simp add: remove_nth_def)
      then have "trim_loop config limit (base + history_tokens config conv) n conv = Some (n + int 1, [])"
        unfolding step by (simp add: trim_loop.simps)
      moreover have "trimmed config limit base conv []" using True by (simp add: trimmed_def)
      ultimately show ?thesis using one by (intro exI[of _ 1] exI[of _ "[]"]) simp
    next
      case False
      then have two: "2 \<le> length conv" using il by linarith
      have shorter: "length ?r < length conv" using remove_nth_length[OF il] two by simp
      have "no_tool_message (last ?r)"
        using last last_remove_nth[OF remove_index_front(1)[OF i two]] by simp
      then obtain k conv' where "trim_loop config limit (base + history_tokens config ?r) (n + 1) ?r =
          Some (n + 1 + int k, conv')" "length conv' + k = length ?r" "trimmed config limit base ?r conv'"
        using less.hyps[OF shorter, of "n + 1"] by blast
      moreover from this(3) have "trimmed config limit base conv conv'"
        using trimmed_step[OF _ i two] True by blast
      ultimately show ?thesis
        unfolding step using remove_nth_length[OF il] two by (intro exI[of _ "Suc k"] exI[of _ conv']) auto
    qed
  qed
qed


definition short_message :: "string \<Rightarrow> string \<Rightarrow> ConversationMessage" where
  "short_message role content =
     \<lparr>cm_role = Some role, cm_content = Some content, cm_tool_call_id = None, cm_tool_name = None,
      cm_has_tool_calls = False\<rparr>"

definition short_history :: ConversationHistory where
  "short_history = \<lparr>ch_messages = [short_message ''user'' ''one'', short_message ''assistant'' ''two'',
      short_message ''user'' ''three''], ch_memory = []\<rparr>"


section \<open>A tool result that is too large\<close>

lemma f32_product_nonneg: "0 \<le> x \<Longrightarrow> 0 \<le> y \<Longrightarrow> 0 \<le> f32 (x * f32 y)"
  by (intro to_float_nonneg mult_nonneg_nonneg)

lemma estimate_nonneg:
  assumes "0 \<le> tk_chars_per_token config" and "\<And>t. body = Some t \<Longrightarrow> int (length t) \<le> INT_MAX"
  shows "0 \<le> estimate_token_count body config"
proof (cases body)
  case (Some t)
  have count: "0 \<le> f32 (of_int (wrap32 (int (length t))))"
    using assms(2)[OF Some] by (intro to_float_nonneg) simp
  have quot: "0 \<le> \<lceil>f32 (f32 (of_int (wrap32 (int (length t)))) / c)\<rceil>" if "0 \<le> c" for c
  proof -
    have "0 \<le> f32 (f32 (of_int (wrap32 (int (length t)))) / c)"
      by (intro to_float_nonneg divide_nonneg_nonneg count that)
    then show ?thesis by linarith
  qed
  define c1 where "c1 = (if looks_like_code t then f32 (tk_chars_per_token config * f32 (12 / 10))
    else tk_chars_per_token config)"
  define c2 where "c2 = (if peek t = CHR ''{'' \<or> strstr t (quoted ''role'' @ '':'') then f32 (c1 * f32 (13 / 10)) else c1)"
  have "0 \<le> c1" using assms(1) f32_product_nonneg[of "tk_chars_per_token config" "12 / 10"] by (simp add: c1_def)
  then have "0 \<le> c2" using f32_product_nonneg[of c1 "13 / 10"] by (simp add: c2_def)
  from quot[OF this] show ?thesis
    unfolding Some estimate_token_count_def option.case Let_def c1_def[symmetric] c2_def[symmetric] by simp
qed (simp add: estimate_token_count_def)

lemma trim_loop_tool_result:
  assumes "conv \<noteq> []" and "\<not> no_tool_message (last conv)"
    and "limit < base + message_tokens config (last conv)" and "list_all (\<lambda>m. 0 \<le> message_tokens config m) conv"
  shows "trim_loop config limit (base + history_tokens config conv) n conv = None"
  using assms
proof (induction "length conv" arbitrary: conv n rule: less_induct)
  case less
  obtain front where conv: "conv = front @ [last conv]" using less.prems(1) append_butlast_last_id by metis
  have "0 \<le> history_tokens config front"
    using less.prems(4) by (subst (asm) conv) (auto simp: history_tokens_def list_all_iff intro!: sum_list_nonneg)
  moreover have "history_tokens config conv = history_tokens config front + message_tokens config (last conv)"
    by (subst conv) (simp add: history_tokens_def)
  ultimately have over: "base + history_tokens config conv > limit" using less.prems(3) by simp
  show ?case
  proof (cases "length conv = 1")
    case True
    then have "remove_index conv = None"
      using less.prems(2) by (cases conv) (auto simp: remove_index_def)
    then show ?thesis using over less.prems(1) by (subst trim_loop.simps) simp
  next
    case False
    then have two: "2 \<le> length conv" using less.prems(1) by (cases conv) (auto simp: Suc_le_eq)
    obtain i where i: "remove_index conv = Some i" using remove_index_exists[of conv] False by blast
    have il: "i < length conv" by (rule remove_index_less[OF i less.prems(1)])
    let ?r = "remove_nth i conv"
    have r: "last ?r = last conv" "length ?r < length conv" "?r \<noteq> []"
      using last_remove_nth[OF remove_index_front(1)[OF i two]] remove_nth_length[OF il] two by auto
    have "set ?r \<subseteq> set conv"
      unfolding remove_nth_def by (auto dest: in_set_takeD in_set_dropD)
    then have "list_all (\<lambda>m. 0 \<le> message_tokens config m) ?r" using less.prems(4) by (auto simp: list_all_iff)
    then have "trim_loop config limit (base + history_tokens config ?r) (n + 1) ?r = None"
      using less.hyps[OF r(2)] r less.prems by metis
    then show ?thesis
      using over less.prems(1) i history_tokens_remove[OF il, of config]
      by (subst trim_loop.simps) (simp add: add_diff_eq)
  qed
qed

text \<open>C40. A tool result that alone exceeds the limit. When the last message is the result of a tool and with the system prompt
  takes more tokens than the limit, trimming removes every other message and then reads behind the array: its search
  stops at the number of messages less two, an unsigned difference that is huge for a single message.\<close>

theorem trim_reads_behind_messages:
  assumes "ch_messages h \<noteq> []" and "cm_role (last (ch_messages h)) = Some ''tool''"
    and "limit < estimate_token_count prompt config + message_tokens config (last (ch_messages h))"
    and "0 \<le> tk_chars_per_token config"
    and "\<forall>m \<in> set (ch_messages h). \<forall>t. cm_content m = Some t \<longrightarrow> int (length t) \<le> INT_MAX"
  shows "trim_conversation_for_tokens h config limit prompt = None"
proof -
  have "list_all (\<lambda>m. 0 \<le> message_tokens config m) (ch_messages h)"
    using assms(4,5) estimate_nonneg by (fastforce simp: list_all_iff message_tokens_def TOKEN_OVERHEAD_PER_MESSAGE_def)
  from trim_loop_tool_result[OF assms(1) _ assms(3) this] show ?thesis
    using assms(2) by (simp add: trim_conversation_for_tokens_def no_tool_message_def)
qed

theorem trim_reads_behind_messages_witness:
  "trim_conversation_for_tokens
     \<lparr>ch_messages = [short_message ''user'' ''one'', short_message ''tool'' ''result''], ch_memory = []\<rparr>
     (token_config_init 8192) 5 None = None"
proof (rule trim_reads_behind_messages)
  show "5 < estimate_token_count None (token_config_init 8192) +
      message_tokens (token_config_init 8192) (last (ch_messages
        \<lparr>ch_messages = [short_message ''user'' ''one'', short_message ''tool'' ''result''], ch_memory = []\<rparr>))"
    by code_simp
qed (auto simp: short_message_def token_config_init_def)

section \<open>The allocation\<close>

lemma trim_session_status:
  "trim_session s config target = Some (st, res, s') \<Longrightarrow> st = 0 \<Longrightarrow> cp_tokens_saved res = 0"
  by (auto simp: trim_session_def Let_def no_compaction_def COMPACT_SUCCESS_TRIMMED_def split: option.splits if_splits)

lemma background_compact_status:
  "background_compact_conversation f s config = Some (st, res, s') \<Longrightarrow> st = 0 \<Longrightarrow> cp_tokens_saved res = 0"
  by (auto simp: background_compact_conversation_def Let_def no_compaction_def split: if_splits dest: trim_session_status)

lemma compact_status:
  "compact_conversation s target = Some (st, res, s') \<Longrightarrow> st = 0 \<Longrightarrow> cp_tokens_saved res = 0"
  by (auto simp: compact_conversation_def Let_def no_compaction_def split: if_splits dest: trim_session_status)

lemma emergency_result:
  "emergency um config usage s = Some (rc, usage', s') \<Longrightarrow>
     usage' = usage \<and> rc = (if context_full config usage then SESSION_CONTEXT_FULL else 0)"
  by (auto simp: emergency_def Let_def final_check_def split: if_splits option.splits dest: compact_status)

text \<open>The allocation is not computed again after trimming. The functions that compact report with 1 that they removed
  messages, while \<^verbatim>\<open>manage_conversation_tokens\<close> takes 0 for that: whatever was removed, the usage it returns, the number
  of tokens it leaves for the response, and whether it reports that the context is full are those of the
  conversation before.\<close>

theorem allocation_before_trimming:
  assumes "manage_conversation_tokens summarise tools session user_message config = Some (rc, usage, session')"
  shows "\<exists>r. calculate_token_allocation (session\<lparr>sd_tool_count := tools\<rparr>) user_message config = (r, usage) \<and>
     rc = (if r \<noteq> 0 then r else if context_full config usage then SESSION_CONTEXT_FULL else 0)"
proof -
  obtain r u where alloc: "calculate_token_allocation (session\<lparr>sd_tool_count := tools\<rparr>) user_message config = (r, u)"
    by fastforce
  show ?thesis
  proof (cases "r = 0")
    case True
    let ?bg = "background_compact_conversation summarise (session\<lparr>sd_tool_count := tools\<rparr>)
      (compaction_config_init\<lparr>cp_background_threshold :=
         to_int (f32 (f32 (of_int (tk_context_window config)) * COMPACTION_TRIGGER_THRESHOLD))\<rparr>)"
    obtain st res s where bg: "?bg = Some (st, res, s)"
      using assms alloc True by (cases ?bg) (auto simp: manage_conversation_tokens_def Let_def)
    have "\<not> (st = 0 \<and> cp_tokens_saved res > 0)" using background_compact_status[OF bg] by auto
    then have "emergency user_message config u s = Some (rc, usage, session')"
      using assms alloc True bg by (simp add: manage_conversation_tokens_def Let_def split: if_splits)
    from emergency_result[OF this] show ?thesis using alloc True by auto
  qed (use assms alloc in \<open>auto simp: manage_conversation_tokens_def Let_def\<close>)
qed

text \<open>Three messages in a window of 200 tokens: two are removed and what remains would fill half of it, but the context
  is reported as full.\<close>

definition crowded_session :: SessionData where
  "crowded_session =
     \<lparr>sd_api_url = None, sd_model = None, sd_system_prompt = None, sd_context_window = 200,
      sd_conversation = \<lparr>ch_messages = replicate 3 (short_message ''user'' (quoted ''tools'')), ch_memory = []\<rparr>,
      sd_tool_count = 0,
      sd_rolling_summary = \<lparr>rs_summary_text = None, rs_estimated_tokens = 0, rs_messages_summarized = 0\<rparr>\<rparr>"

definition crowded_config :: TokenConfig where
  "crowded_config = token_config_init 200"

definition crowded_result :: "(int \<times> TokenUsage \<times> SessionData) option" where
  "crowded_result = manage_conversation_tokens (\<lambda>_ _. None) 0 crowded_session None crowded_config"

theorem allocation_before_trimming_witness:
  "\<exists>usage session'. crowded_result = Some (SESSION_CONTEXT_FULL, usage, session') \<and>
     length (ch_messages (sd_conversation session')) = 2 \<and>
     \<not> context_full crowded_config (snd (calculate_token_allocation session' None crowded_config)) \<and>
     snd (calculate_token_allocation (crowded_session\<lparr>sd_tool_count := 0\<rparr>) None crowded_config) = usage"
proof -
  have "(case crowded_result of None \<Rightarrow> False
     | Some (rc, usage, s) \<Rightarrow> rc = SESSION_CONTEXT_FULL \<and> length (ch_messages (sd_conversation s)) = 2 \<and>
         \<not> context_full crowded_config (snd (calculate_token_allocation s None crowded_config)))"
    by code_simp
  then obtain usage s where r: "crowded_result = Some (SESSION_CONTEXT_FULL, usage, s)"
      "length (ch_messages (sd_conversation s)) = 2"
      "\<not> context_full crowded_config (snd (calculate_token_allocation s None crowded_config))"
    by (auto split: option.splits)
  have "snd (calculate_token_allocation (crowded_session\<lparr>sd_tool_count := 0\<rparr>) None crowded_config) = usage"
    using allocation_before_trimming[OF r(1)[unfolded crowded_result_def]] by auto
  with r show ?thesis by blast
qed

text \<open>Trimming removes a reply with tool calls before the results of these calls, although the search is meant to keep them
  together.\<close>

lemma trim_separates_results:
  assumes "ch_messages h = m # rest" "no_tool_message m" "2 \<le> length rest"
    and "limit < estimate_token_count prompt config + history_tokens config (m # rest)"
    and "estimate_token_count prompt config + history_tokens config rest \<le> limit"
  shows "trim_conversation_for_tokens h config limit prompt = Some (1, h\<lparr>ch_messages := rest\<rparr>)"
proof -
  have "remove_index (m # rest) = Some 0"
    using assms(2,3) by (cases rest) (auto simp: remove_index_def take_Cons')
  then show ?thesis
    using assms unfolding trim_conversation_for_tokens_def
    by (subst trim_loop.simps, subst trim_loop.simps) (auto simp: remove_nth_def history_tokens_def)
qed

end
