(* ===== verification/Agent_Loop.thy ===== *)
theory Agent_Loop
  imports Tool_Batch Token_Manager
begin

text \<open>
  The loop of the agent: \<^verbatim>\<open>tool_executor_run_workflow\<close> of \<^verbatim>\<open>lib/agent/tool_executor.c\<close>, which
  executes the tool calls of a reply, and \<^verbatim>\<open>iterative_loop_run\<close> of \<^verbatim>\<open>lib/agent/iterative_loop.c\<close>,
  which asks the model again with their results until it replies without calls.

  What comes from outside in iteration \<open>n\<close> is the record \<open>turns n\<close>: the reply of the model, as the
  round trip delivers it (\<open>None\<close> if the request fails), the file system, interrupts and failing
  allocations. \<open>ag\<close> has what does not change: the libraries, the tools, and the order in which
  threads run. The calls that were executed and the number of requests are recorded in the state. The
  waiting between requests and what is displayed are not modelled. \<open>None\<close> stands for undefined
  behaviour, of trimming or of a call without a name.
\<close>

section \<open>State\<close>

definition ITERATIVE_LOOP_MAX_ITERATIONS :: nat where
  "ITERATIVE_LOOP_MAX_ITERATIONS = 200"

definition ITERATIVE_LOOP_MAX_NUDGES :: int where
  "ITERATIVE_LOOP_MAX_NUDGES = 3"

definition STREAM_RETRY_MAX :: nat where
  "STREAM_RETRY_MAX = 3"

record LoopWorkflowState =
  has_patched :: bool
  has_tested_since_patch :: bool
  last_test_failed :: bool
  has_used_tools :: bool
  nudge_count :: int

record LLMRoundTripResult =
  rt_response_content :: "string option"
  rt_thinking_content :: "string option"
  rt_tool_calls :: "ToolCall list"

record ('j, 'r, 'w) agent =
  ag_conv :: "'j conv_lib"
  ag_lib :: "('j, 'r) orch_lib"
  ag_tools :: "(string \<times> bool) list"
  ag_ex :: "('j, 'w) executors"
  ag_sched :: "nat \<Rightarrow> nat list"
  ag_summarise :: summariser

record turn =
  tn_reply :: "SessionData \<Rightarrow> int \<Rightarrow> LLMRoundTripResult option"
  tn_fs :: "nat \<Rightarrow> fs_env"
  tn_fs0 :: fs_env
  tn_oks :: "nat \<Rightarrow> nat \<Rightarrow> alloc"
  tn_interrupt :: "nat \<Rightarrow> bool"
  tn_late :: bool
  tn_refresh :: alloc
  tn_entries :: alloc
  tn_okx :: "nat \<Rightarrow> nat \<Rightarrow> alloc"
  tn_oksx :: "nat \<Rightarrow> nat \<Rightarrow> nat \<Rightarrow> alloc"
  tn_alloc :: alloc
  tn_reply_alloc :: alloc
  tn_nudge_alloc :: alloc
  tn_result_alloc :: "nat \<Rightarrow> alloc"

record ('r, 'w) agent_state =
  as_session :: SessionData
  as_orch :: "'r orch_state"
  as_wf :: LoopWorkflowState
  as_world :: 'w
  as_executed :: "ToolCall list"
  as_requests :: nat

text \<open>A batch of one turn. The results start as zeroes, the indices are not set.\<close>

definition turn_env :: "('j, 'r, 'w) agent \<Rightarrow> turn \<Rightarrow> bool \<Rightarrow> ('j, 'r) batch_env" where
  "turn_env ag t track =
     \<lparr>be_lib = ag_lib ag, be_fs = tn_fs t, be_oks = tn_oks t, be_interrupt = tn_interrupt t, be_compact = track,
      be_tools = ag_tools ag\<rparr>"

definition run_batch ::
    "('j, 'r, 'w) agent \<Rightarrow> turn \<Rightarrow> bool \<Rightarrow> ToolCall list \<Rightarrow> 'r orch_state \<Rightarrow> 'w \<Rightarrow> ('r, 'w) batch_result option" where
  "run_batch ag t track calls orch w =
     tool_batch_execute (tn_refresh t) (tn_entries t) (tn_okx t) (tn_oksx t) (turn_env ag t track) (ag_ex ag)
       (ag_sched ag) (tn_late t) (tn_fs0 t) calls (replicate (length calls) zero_result) (replicate (length calls) 0)
       orch w"

definition executed_calls :: "ToolCall list \<Rightarrow> ('r, 'w) batch_result \<Rightarrow> ToolCall list" where
  "executed_calls calls out = map (\<lambda>e. calls ! pe_call_index e) (bo_executed out)"

definition map_conversation ::
    "(ConversationHistory \<Rightarrow> ConversationHistory) \<Rightarrow> ('r, 'w) agent_state \<Rightarrow> ('r, 'w) agent_state" where
  "map_conversation f st =
     st\<lparr>as_session := (as_session st)\<lparr>sd_conversation := f (sd_conversation (as_session st))\<rparr>\<rparr>"

section \<open>The state of the work\<close>

text \<open>\<^verbatim>\<open>atoi\<close>, for numbers that fit an \<^verbatim>\<open>int\<close>.\<close>

definition atoi :: "string \<Rightarrow> int" where
  "atoi s =
     (let s = dropWhile isspace s; number = (\<lambda>s. int (undigits (takeWhile is_digit s)))
      in if peek s = CHR ''-'' then - number (drop 1 s) else if peek s = CHR ''+'' then number (drop 1 s) else number s)"

text \<open>The first result for call \<open>i\<close> that has a text.\<close>

definition result_for :: "('r, 'w) batch_result \<Rightarrow> nat \<Rightarrow> string option" where
  "result_for out i =
     (case find (\<lambda>j. bo_indices out ! j = i \<and> tr_result (bo_results out ! j) \<noteq> None) [0..<bo_count out] of
        None \<Rightarrow> None
      | Some j \<Rightarrow> tr_result (bo_results out ! j))"

definition patch_succeeded :: "string option \<Rightarrow> bool" where
  "patch_succeeded result =
     (case result of
        None \<Rightarrow> False
      | Some r \<Rightarrow> \<not> strstr r (quoted ''success'' @ '': false'') \<and> \<not> strstr r (quoted ''success'' @ '':false''))"

definition exit_code_nonzero :: "string option \<Rightarrow> bool" where
  "exit_code_nonzero result =
     (case result of
        None \<Rightarrow> False
      | Some r \<Rightarrow>
          (case strstr_split (quoted ''exit_code'' @ '':'') r of
             None \<Rightarrow> False
           | Some (_, ec) \<Rightarrow> atoi (dropWhile (\<lambda>c. c = CHR '' '') ec) \<noteq> 0))"

definition is_patch_tool :: "string option \<Rightarrow> bool" where
  "is_patch_tool name \<longleftrightarrow> name = Some ''apply_patch'' \<or> name = Some ''write_file''"

fun track_calls ::
    "('r, 'w) batch_result \<Rightarrow> nat \<Rightarrow> ToolCall list \<Rightarrow> LoopWorkflowState \<Rightarrow> LoopWorkflowState" where
  "track_calls out i [] ws = ws"
| "track_calls out i (tc # tcs) ws =
     track_calls out (Suc i) tcs
       (if is_patch_tool (tc_name tc)
        then if patch_succeeded (result_for out i)
             then ws\<lparr>has_patched := True, has_tested_since_patch := False, last_test_failed := False\<rparr> else ws
        else if tc_name tc = Some ''shell''
        then ws\<lparr>has_tested_since_patch := True, last_test_failed := exit_code_nonzero (result_for out i)\<rparr>
        else ws)"

text \<open>The message that sends the model back to work, if there is one to send.\<close>

definition nudge :: "LoopWorkflowState \<Rightarrow> string option" where
  "nudge ws =
     (if has_used_tools ws \<and> \<not> has_patched ws \<and> nudge_count ws < ITERATIVE_LOOP_MAX_NUDGES
      then Some (''You described changes but didn't apply them. '' @
                 ''Use the apply_patch tool to make your changes to '' @
                 ''the actual files, then run tests to verify.'')
      else if has_patched ws \<and> \<not> has_tested_since_patch ws \<and> nudge_count ws < ITERATIVE_LOOP_MAX_NUDGES
      then Some (''You applied a patch but haven't verified it. '' @
                 ''Run the relevant tests to confirm your fix works '' @
                 ''and doesn't break existing behavior.'')
      else if has_patched ws \<and> last_test_failed ws \<and> nudge_count ws < ITERATIVE_LOOP_MAX_NUDGES
      then Some (''Tests are still failing. Your fix is not complete. '' @
                 ''Read the test failures carefully, identify what your '' @
                 ''patch got wrong, and apply a corrected patch. Do not '' @
                 ''stop until the relevant tests pass.'')
      else None)"

section \<open>One iteration\<close>

text \<open>How an iteration ends: the function returns, or the loop goes on with a number of failed requests in a row.\<close>

datatype 's outcome = Return int 's | Continue nat 's

definition assistant_content :: "LLMRoundTripResult \<Rightarrow> string option" where
  "assistant_content rt =
     (case rt_response_content rt of Some c \<Rightarrow> Some c | None \<Rightarrow> rt_thinking_content rt)"

definition finish_or_nudge ::
    "('j, 'r, 'w) agent \<Rightarrow> turn \<Rightarrow> ('r, 'w) agent_state \<Rightarrow> ('r, 'w) agent_state outcome" where
  "finish_or_nudge ag t st =
     (case nudge (as_wf st) of
        None \<Rightarrow> Return 0 st
      | Some msg \<Rightarrow>
          Continue 0
            ((map_conversation (\<lambda>h. snd (append_conversation_message (tn_nudge_alloc t) (ag_conv ag) ''user'' (Some msg) h)) st)
               \<lparr>as_wf := (as_wf st)\<lparr>nudge_count := nudge_count (as_wf st) + 1\<rparr>\<rparr>))"

definition new_tool_calls :: "'r ToolOrchestrationContext \<Rightarrow> ToolCall list \<Rightarrow> nat" where
  "new_tool_calls ctx calls = length (filter (\<lambda>tc. \<not> tool_orchestration_is_duplicate ctx (tc_id tc)) calls)"

text \<open>Sites of \<open>tn_alloc\<close>: 0 the results, 1 the indices.\<close>

definition execute_calls ::
    "('j, 'r, 'w) agent \<Rightarrow> turn \<Rightarrow> ToolCall list \<Rightarrow> ('r, 'w) agent_state \<Rightarrow> ('r, 'w) agent_state outcome option" where
  "execute_calls ag t calls st =
     (if new_tool_calls (orch_ctx (as_orch st)) calls = 0 then Some (Return 0 st)
      else if \<not> tn_alloc t 0 then Some (Return (-1) st)
      else if \<not> tn_alloc t 1 then Some (Return (-1) st)
      else case run_batch ag t True calls (as_orch st) (as_world st) of
             None \<Rightarrow> None
           | Some out \<Rightarrow>
               let st = map_conversation
                          (conversation_append_tool_results (tn_result_alloc t) (ag_conv ag) (bo_results out) (bo_count out)
                             calls (Some (bo_indices out))) st;
                   st = st\<lparr>as_orch := bo_orch out, as_world := bo_world out,
                           as_executed := as_executed st @ executed_calls calls out,
                           as_wf := track_calls out 0 calls ((as_wf st)\<lparr>has_used_tools := True\<rparr>)\<rparr>
               in Some (if bo_status out \<noteq> 0 then Return (bo_status out) st else Continue 0 st))"

definition handle_reply ::
    "('j, 'r, 'w) agent \<Rightarrow> turn \<Rightarrow> LLMRoundTripResult \<Rightarrow> ('r, 'w) agent_state \<Rightarrow> ('r, 'w) agent_state outcome option" where
  "handle_reply ag t rt st =
     (let calls = rt_tool_calls rt;
          st = map_conversation (\<lambda>h. snd (conversation_append_assistant (tn_reply_alloc t) (ag_conv ag)
                 (assistant_content rt) calls h)) st
      in if calls = [] then Some (finish_or_nudge ag t st) else execute_calls ag t calls st)"

definition loop_iteration ::
    "('j, 'r, 'w) agent \<Rightarrow> turn \<Rightarrow> nat \<Rightarrow> ('r, 'w) agent_state \<Rightarrow> ('r, 'w) agent_state outcome option" where
  "loop_iteration ag t stream_retries st =
     (let st = st\<lparr>as_orch := (as_orch st)\<lparr>orch_ctx := tool_orchestration_reset_batch (orch_ctx (as_orch st))\<rparr>\<rparr>;
          token_config = token_config_init (sd_context_window (as_session st))
      in case manage_conversation_tokens (ag_summarise ag) (int (length (ag_tools ag))) (as_session st) (Some []) token_config of
           None \<Rightarrow> None
         | Some (token_rc, usage, session) \<Rightarrow>
             let st = st\<lparr>as_session := session\<rparr>
             in if token_rc = SESSION_CONTEXT_FULL then Some (Return SESSION_CONTEXT_FULL st)
                else if token_rc \<noteq> 0 then Some (Return (-1) st)
                else
                  let st = st\<lparr>as_requests := as_requests st + 1\<rparr>
                  in case tn_reply t session (tu_available_response_tokens usage) of
                       None \<Rightarrow>
                         let stream_retries = stream_retries + 1
                         in Some (if stream_retries \<le> STREAM_RETRY_MAX then Continue stream_retries st else Return (-1) st)
                     | Some rt \<Rightarrow> handle_reply ag t rt st)"

section \<open>The loop\<close>

function iterative_loop ::
    "('j, 'r, 'w) agent \<Rightarrow> (nat \<Rightarrow> turn) \<Rightarrow> nat \<Rightarrow> nat \<Rightarrow> ('r, 'w) agent_state
     \<Rightarrow> (int \<times> ('r, 'w) agent_state) option" where
  "iterative_loop ag turns loop_count stream_retries st =
     (if Suc loop_count > ITERATIVE_LOOP_MAX_ITERATIONS then Some (-1, st)
      else case loop_iteration ag (turns (Suc loop_count)) stream_retries st of
             None \<Rightarrow> None
           | Some (Return rc st) \<Rightarrow> Some (rc, st)
           | Some (Continue stream_retries st) \<Rightarrow> iterative_loop ag turns (Suc loop_count) stream_retries st)"
  by pat_completeness auto

termination
  by (relation "measure (\<lambda>(ag, turns, loop_count, r, st). ITERATIVE_LOOP_MAX_ITERATIONS - loop_count)") auto

declare iterative_loop.simps [simp del]

definition iterative_loop_run ::
    "('j, 'r, 'w) agent \<Rightarrow> (nat \<Rightarrow> turn) \<Rightarrow> ('r, 'w) agent_state \<Rightarrow> (int \<times> ('r, 'w) agent_state) option" where
  "iterative_loop_run ag turns st = iterative_loop ag turns 0 0 st"

section \<open>The workflow\<close>

text \<open>The identifiers of the first batch; \<open>oks i\<close> has the sites of call \<open>i\<close>.\<close>

fun seed_tracker ::
    "(nat \<Rightarrow> alloc) \<Rightarrow> nat \<Rightarrow> ToolCall list \<Rightarrow> 'r ToolOrchestrationContext \<Rightarrow> 'r ToolOrchestrationContext" where
  "seed_tracker oks i [] ctx = ctx"
| "seed_tracker oks i (tc # tcs) ctx =
     seed_tracker oks (Suc i) tcs (snd (tool_orchestration_mark_executed (oks i) ctx (tc_id tc)))"

definition initial_wf :: LoopWorkflowState where
  "initial_wf = \<lparr>has_patched = False, has_tested_since_patch = False, last_test_failed = False, has_used_tools = True,
                 nudge_count = 0\<rparr>"

fun track_first :: "ToolCall list \<Rightarrow> LoopWorkflowState \<Rightarrow> LoopWorkflowState" where
  "track_first [] ws = ws"
| "track_first (tc # tcs) ws =
     track_first tcs
       (if is_patch_tool (tc_name tc) then ws\<lparr>has_patched := True, has_tested_since_patch := False\<rparr>
        else if tc_name tc = Some ''shell'' then ws\<lparr>has_tested_since_patch := True\<rparr> else ws)"

text \<open>A tool may ask for the conversation to be cleared.\<close>

definition clear_if_asked ::
    "('j, 'r, 'w) agent \<Rightarrow> turn \<Rightarrow> ToolCall list \<Rightarrow> ToolResult list \<Rightarrow> ConversationHistory \<Rightarrow> ConversationHistory" where
  "clear_if_asked ag t calls results h =
     (if list_ex tr_clear_history results
      then snd (conversation_append_assistant (tn_reply_alloc t) (ag_conv ag) None calls
                  (init_conversation_history (cleanup_conversation_history h)))
      else h)"

text \<open>What the first batch leaves, and the state the loop starts in; \<open>seed i\<close> has the sites of entry \<open>i\<close> of the tracker.\<close>

definition record_first ::
    "('j, 'r, 'w) agent \<Rightarrow> turn \<Rightarrow> ToolCall list \<Rightarrow> ('r, 'w) batch_result \<Rightarrow> ('r, 'w) agent_state \<Rightarrow> ('r, 'w) agent_state" where
  "record_first ag t calls out st =
     (map_conversation
        (\<lambda>h. conversation_append_tool_results (tn_result_alloc t) (ag_conv ag) (bo_results out) (length calls) calls None
               (clear_if_asked ag t calls (bo_results out) h)) st)
       \<lparr>as_orch := bo_orch out, as_world := bo_world out, as_executed := as_executed st @ executed_calls calls out\<rparr>"

definition start_loop ::
    "(nat \<Rightarrow> alloc) \<Rightarrow> ToolCall list \<Rightarrow> ('r, 'w) agent_state \<Rightarrow> ('r, 'w) agent_state" where
  "start_loop seed calls st =
     st\<lparr>as_orch := (as_orch st)\<lparr>orch_ctx := seed_tracker seed 0 calls (orch_ctx (as_orch st))\<rparr>,
        as_wf := track_first calls initial_wf\<rparr>"

text \<open>The first batch is turn 0. \<open>ok\<close> has the sites of the tracker. The gate is the one of the session: the context that is
  given up at the end only points to it.\<close>

definition tool_executor_run_workflow ::
    "alloc \<Rightarrow> (nat \<Rightarrow> alloc) \<Rightarrow> ('j, 'r, 'w) agent \<Rightarrow> (nat \<Rightarrow> turn) \<Rightarrow> ToolCall list \<Rightarrow> ('r, 'w) agent_state
     \<Rightarrow> (int \<times> ('r, 'w) agent_state) option" where
  "tool_executor_run_workflow ok seed ag turns calls st =
     (if calls = [] then Some (-1, st)
      else case tool_orchestration_init ok (oc_gate_config (orch_ctx (as_orch st))) of
             None \<Rightarrow> Some (-1, st)
           | Some ctx \<Rightarrow>
               if \<not> tn_alloc (turns 0) 0 then Some (-1, st)
               else case run_batch ag (turns 0) False calls ((as_orch st)\<lparr>orch_ctx := ctx\<rparr>) (as_world st) of
                      None \<Rightarrow> None
                    | Some out \<Rightarrow>
                        let st = record_first ag (turns 0) calls out st
                        in if bo_status out \<noteq> 0 then Some (-2, st)
                           else case iterative_loop_run ag turns (start_loop seed calls st) of
                                  None \<Rightarrow> None
                                | Some (result, st) \<Rightarrow>
                                    Some (if result = SESSION_CONTEXT_FULL then SESSION_CONTEXT_FULL else 0, st))"

section \<open>Contracts of the loop\<close>

lemma iterative_loop_cases:
  assumes "iterative_loop ag turns n r st = Some (rc, st')"
  obtains (limit) "ITERATIVE_LOOP_MAX_ITERATIONS \<le> n" "rc = -1" "st' = st"
  | (returns) "n < ITERATIVE_LOOP_MAX_ITERATIONS" "loop_iteration ag (turns (Suc n)) r st = Some (Return rc st')"
  | (goes_on) r' s where "n < ITERATIVE_LOOP_MAX_ITERATIONS"
      "loop_iteration ag (turns (Suc n)) r st = Some (Continue r' s)" "iterative_loop ag turns (Suc n) r' s = Some (rc, st')"
  using assms by (subst (asm) iterative_loop.simps) (auto split: if_splits option.splits outcome.splits)

lemma iterative_loop_induct:
  assumes "iterative_loop ag turns n r st = Some (rc, st')"
    and limit: "\<And>n r st. ITERATIVE_LOOP_MAX_ITERATIONS \<le> n \<Longrightarrow> S n r st (-1) st"
    and returns: "\<And>n r st rc st'. n < ITERATIVE_LOOP_MAX_ITERATIONS \<Longrightarrow>
      loop_iteration ag (turns (Suc n)) r st = Some (Return rc st') \<Longrightarrow> S n r st rc st'"
    and goes_on: "\<And>n r st r' s rc st'. n < ITERATIVE_LOOP_MAX_ITERATIONS \<Longrightarrow>
      loop_iteration ag (turns (Suc n)) r st = Some (Continue r' s) \<Longrightarrow> S (Suc n) r' s rc st' \<Longrightarrow> S n r st rc st'"
  shows "S n r st rc st'"
  using assms(1)
proof (induction "ITERATIVE_LOOP_MAX_ITERATIONS - n" arbitrary: n r st rule: less_induct)
  case less
  from less.prems show ?case
  proof (cases rule: iterative_loop_cases)
    case (goes_on r' s)
    have "S (Suc n) r' s rc st'" using less.hyps[OF _ goes_on(3)] goes_on(1) by simp
    then show ?thesis using goes_on(1,2) assms(4) by blast
  qed (use limit returns in auto)
qed

text \<open>What iterations establish: \<open>P\<close> relates the states around one after which the loop goes on, \<open>Q\<close> those around the
  loop.\<close>

locale loop_contract =
  fixes ag :: "('j, 'r, 'w) agent"
    and P Q :: "('r, 'w) agent_state \<Rightarrow> ('r, 'w) agent_state \<Rightarrow> bool"
  assumes Q_refl: "Q st st"
    and P_Q: "P a b \<Longrightarrow> Q b c \<Longrightarrow> Q a c"
    and goes_on: "loop_iteration ag t r st = Some (Continue r' st') \<Longrightarrow> P st st'"
    and returns: "loop_iteration ag t r st = Some (Return rc st') \<Longrightarrow> Q st st'"
begin

lemma run_contract: "iterative_loop_run ag turns st = Some (rc, st') \<Longrightarrow> Q st st'"
  unfolding iterative_loop_run_def
  by (erule iterative_loop_induct) (blast intro: Q_refl P_Q goes_on returns)+

end

section \<open>What is executed\<close>

text \<open>A call that passed the check of the orchestration at some point, with the gate \<open>g\<close> in force.\<close>

definition approved_call :: "('j, 'r) orch_lib \<Rightarrow> 'r ApprovalGateConfig option \<Rightarrow> ToolCall \<Rightarrow> bool" where
  "approved_call lib g tc \<longleftrightarrow>
     (\<exists>oks fs (st :: 'r orch_state). fst (check_protected oks (ol_json lib) fs tc (orch_protected st)) = None \<and>
        (\<forall>c. g = Some c \<longrightarrow> enabled c \<longrightarrow>
           categories c (get_tool_category (ol_callbacks lib) (tc_name tc)) \<noteq> GATE_ACTION_DENY \<and>
           (\<exists>c'. oc_gate_config (orch_ctx st) = Some c' \<and> categories c' = categories c \<and>
              gate_reason (oks 3) (oks 4) lib (orch_io st) c' tc)))"

definition gate_of :: "('r, 'w) agent_state \<Rightarrow> 'r ApprovalGateConfig option" where
  "gate_of st = oc_gate_config (orch_ctx (as_orch st))"

definition tracked :: "('r, 'w) agent_state \<Rightarrow> string set" where
  "tracked st = set (oc_executed_tracker (orch_ctx (as_orch st)))"

text \<open>The gate may learn patterns and count denials, but is on or off as before and has the same categories.\<close>

definition gate_stays :: "'r ApprovalGateConfig option \<Rightarrow> 'r ApprovalGateConfig option \<Rightarrow> bool" where
  "gate_stays g g' \<longleftrightarrow>
     (\<forall>c. g = Some c \<longrightarrow> (\<exists>c'. g' = Some c' \<and> enabled c' = enabled c \<and> categories c' = categories c))"

lemma same_gate_stays: "same_gate g st \<longleftrightarrow> gate_stays g (oc_gate_config (orch_ctx st))"
  by (simp add: same_gate_def gate_kept_def gate_stays_def)

lemma gate_stays_refl [simp]: "gate_stays g g"
  by (simp add: gate_stays_def)

lemma gate_stays_trans: "gate_stays g g' \<Longrightarrow> gate_stays g' g'' \<Longrightarrow> gate_stays g g''"
  by (fastforce simp: gate_stays_def)

lemma approved_call_earlier:
  fixes lib :: "('j, 'r) orch_lib"
  assumes "approved_call lib g' tc" and "gate_stays g g'"
  shows "approved_call lib g tc"
proof -
  obtain oks fs and st :: "'r orch_state"
    where st: "fst (check_protected oks (ol_json lib) fs tc (orch_protected st)) = None"
      "\<And>c. g' = Some c \<Longrightarrow> enabled c \<Longrightarrow>
           categories c (get_tool_category (ol_callbacks lib) (tc_name tc)) \<noteq> GATE_ACTION_DENY \<and>
           (\<exists>c'. oc_gate_config (orch_ctx st) = Some c' \<and> categories c' = categories c \<and>
              gate_reason (oks 3) (oks 4) lib (orch_io st) c' tc)"
    using assms(1) unfolding approved_call_def by blast
  have "categories c (get_tool_category (ol_callbacks lib) (tc_name tc)) \<noteq> GATE_ACTION_DENY \<and>
      (\<exists>c'. oc_gate_config (orch_ctx st) = Some c' \<and> categories c' = categories c \<and>
         gate_reason (oks 3) (oks 4) lib (orch_io st) c' tc)" if "g = Some c" "enabled c" for c
  proof -
    obtain c1 where "g' = Some c1" "enabled c1" "categories c1 = categories c"
      using assms(2) \<open>g = Some c\<close> \<open>enabled c\<close> by (auto simp: gate_stays_def)
    with st(2)[of c1] show ?thesis by simp
  qed
  with st(1) show ?thesis unfolding approved_call_def by blast
qed

text \<open>New calls in the log: all approved, with identifiers that are new and differ.\<close>

definition fresh_calls :: "string set \<Rightarrow> ToolCall list \<Rightarrow> bool" where
  "fresh_calls known new \<longleftrightarrow>
     distinct (map tc_id new) \<and> (\<forall>tc \<in> set new. \<exists>d. tc_id tc = Some d \<and> d \<notin> known)"

definition logs ::
    "('j, 'r, 'w) agent \<Rightarrow> ('r, 'w) agent_state \<Rightarrow> ('r, 'w) agent_state \<Rightarrow> ToolCall list \<Rightarrow> bool" where
  "logs ag st st' new \<longleftrightarrow>
     as_executed st' = as_executed st @ new \<and> (\<forall>tc \<in> set new. approved_call (ag_lib ag) (gate_of st) tc) \<and>
     fresh_calls (tracked st) new"

definition ends_well :: "('j, 'r, 'w) agent \<Rightarrow> ('r, 'w) agent_state \<Rightarrow> ('r, 'w) agent_state \<Rightarrow> bool" where
  "ends_well ag st st' \<longleftrightarrow> ((\<forall>n. mset (ag_sched ag n) = mset [0..<n]) \<longrightarrow> (\<exists>new. logs ag st st' new))"

definition goes_well :: "('j, 'r, 'w) agent \<Rightarrow> ('r, 'w) agent_state \<Rightarrow> ('r, 'w) agent_state \<Rightarrow> bool" where
  "goes_well ag st st' \<longleftrightarrow>
     ((\<forall>n. mset (ag_sched ag n) = mset [0..<n]) \<longrightarrow>
      (\<exists>new. logs ag st st' new \<and> gate_stays (gate_of st) (gate_of st') \<and> tracked st \<subseteq> tracked st' \<and>
         Some ` tracked st' \<supseteq> tc_id ` set new))"

lemma logs_append:
  assumes "logs ag a b new" "gate_stays (gate_of a) (gate_of b)" "tracked a \<subseteq> tracked b"
    "tc_id ` set new \<subseteq> Some ` tracked b" "logs ag b c new'"
  shows "logs ag a c (new @ new')"
proof -
  have "approved_call (ag_lib ag) (gate_of a) tc" if "tc \<in> set new'" for tc
    using assms(2,5) that approved_call_earlier unfolding logs_def by blast
  moreover have "distinct (map tc_id (new @ new'))"
    using assms(1,4,5) unfolding logs_def fresh_calls_def by (fastforce simp: image_iff)
  moreover have "\<exists>d. tc_id tc = Some d \<and> d \<notin> tracked a" if "tc \<in> set new'" for tc
    using assms(3,5) that unfolding logs_def fresh_calls_def by blast
  ultimately show ?thesis
    using assms(1,5) unfolding logs_def fresh_calls_def by auto
qed

text \<open>One batch.\<close>

lemma screened_calls:
  fixes orch :: "'r orch_state"
  assumes inv: "screen_inv (turn_env ag t b) (orch_ctx orch) calls n sc" and m: "mset es = mset (sc_approved sc)"
  defines "new \<equiv> map (\<lambda>e. calls ! pe_call_index e) es"
  shows "\<forall>tc \<in> set new. approved_call (ag_lib ag) (oc_gate_config (orch_ctx orch)) tc"
    and "b \<Longrightarrow> fresh_calls (set (oc_executed_tracker (orch_ctx orch))) new"
    and "b \<Longrightarrow> tc_id ` set new \<subseteq> Some ` set (oc_executed_tracker (orch_ctx (sc_orch sc)))"
proof -
  let ?env = "turn_env ag t b"
  have set: "set es = set (sc_approved sc)" using m by (metis set_mset_mset)
  have ok: "approved_ok ?env (orch_ctx orch) calls n sc e" if "e \<in> set es" for e
    using inv that set unfolding screen_inv_def by blast
  have env: "be_lib ?env = ag_lib ag" "be_compact ?env = b" by (simp_all add: turn_env_def)
  have "approved_call (ag_lib ag) (oc_gate_config (orch_ctx orch)) (calls ! pe_call_index e)" if "e \<in> set es" for e
    using ok[OF that] cleared_reason[of ?env "oc_gate_config (orch_ctx orch)" "pe_call_index e" "calls ! pe_call_index e"]
    unfolding approved_ok_def approved_call_def env by blast
  then show "\<forall>tc \<in> set new. approved_call (ag_lib ag) (oc_gate_config (orch_ctx orch)) tc"
    by (auto simp: new_def)
  assume b: b
  have "distinct (map (\<lambda>e. tc_id (calls ! pe_call_index e)) es)"
    using inv b m distinct_map_mset[OF m] unfolding screen_inv_def entries_distinct_def env by metis
  then show "fresh_calls (set (oc_executed_tracker (orch_ctx orch))) new"
    using ok b unfolding fresh_calls_def approved_ok_def env new_def by (auto simp: o_def)
  show "tc_id ` set new \<subseteq> Some ` set (oc_executed_tracker (orch_ctx (sc_orch sc)))"
    using ok b unfolding approved_ok_def env new_def by fastforce
qed

lemma run_batch_log:
  fixes orch :: "'r orch_state"
  assumes run: "run_batch ag t b calls orch w = Some out" and sched: "\<forall>n. mset (ag_sched ag n) = mset [0..<n]"
  shows "\<forall>tc \<in> set (executed_calls calls out). approved_call (ag_lib ag) (oc_gate_config (orch_ctx orch)) tc"
    and "b \<Longrightarrow> fresh_calls (set (oc_executed_tracker (orch_ctx orch))) (executed_calls calls out)"
    and "bo_status out = 0 \<Longrightarrow> gate_stays (oc_gate_config (orch_ctx orch)) (oc_gate_config (orch_ctx (bo_orch out)))"
    and "bo_status out = 0 \<Longrightarrow>
      set (oc_executed_tracker (orch_ctx orch)) \<subseteq> set (oc_executed_tracker (orch_ctx (bo_orch out)))"
    and "bo_status out = 0 \<Longrightarrow> b \<Longrightarrow>
      tc_id ` set (executed_calls calls out) \<subseteq> Some ` set (oc_executed_tracker (orch_ctx (bo_orch out)))"
proof -
  note run = run[unfolded run_batch_def]
  show "\<forall>tc \<in> set (executed_calls calls out). approved_call (ag_lib ag) (oc_gate_config (orch_ctx orch)) tc"
    using batch_executed[OF run sched] screened_calls(1) unfolding executed_calls_def by (metis list.simps(8) empty_iff list.set(1))
  show "fresh_calls (set (oc_executed_tracker (orch_ctx orch))) (executed_calls calls out)" if b
    using batch_executed[OF run sched] screened_calls(2)[OF _ _ that] unfolding executed_calls_def
    by (metis (no_types, lifting) fresh_calls_def list.simps(8) empty_iff list.set(1) distinct.simps(1))
  assume "bo_status out = 0"
  from batch_completed[OF run sched this] obtain sc where sc: "screen_inv (turn_env ag t b) (orch_ctx orch) calls (length calls) sc"
      "mset (bo_executed out) = mset (sc_approved sc)" "bo_orch out = sc_orch sc" by blast
  show "gate_stays (oc_gate_config (orch_ctx orch)) (oc_gate_config (orch_ctx (bo_orch out)))"
    using sc unfolding screen_inv_def same_gate_stays by simp
  show "set (oc_executed_tracker (orch_ctx orch)) \<subseteq> set (oc_executed_tracker (orch_ctx (bo_orch out)))"
    using sc unfolding screen_inv_def by simp
  show "tc_id ` set (executed_calls calls out) \<subseteq> Some ` set (oc_executed_tracker (orch_ctx (bo_orch out)))" if b
    using screened_calls(3)[OF sc(1,2) that] sc(3) unfolding executed_calls_def by simp
qed

text \<open>One iteration.\<close>

lemma map_conversation_fields [simp]:
  "as_orch (map_conversation f st) = as_orch st" "as_executed (map_conversation f st) = as_executed st"
  "as_world (map_conversation f st) = as_world st" "as_wf (map_conversation f st) = as_wf st"
  "as_requests (map_conversation f st) = as_requests st"
  by (simp_all add: map_conversation_def)

fun outcome_state :: "'s outcome \<Rightarrow> 's" where
  "outcome_state (Return rc st) = st"
| "outcome_state (Continue r st) = st"

text \<open>An iteration either leaves the log, the gate and the tracker alone, or runs a batch.\<close>

lemma loop_iteration_cases:
  assumes "loop_iteration ag t r st = Some res"
  obtains (idle) "as_executed (outcome_state res) = as_executed st" "gate_of (outcome_state res) = gate_of st"
      "tracked (outcome_state res) = tracked st"
  | (batch) calls out orch w where "run_batch ag t True calls orch w = Some out"
      "oc_gate_config (orch_ctx orch) = gate_of st" "set (oc_executed_tracker (orch_ctx orch)) = tracked st"
      "as_executed (outcome_state res) = as_executed st @ executed_calls calls out" "as_orch (outcome_state res) = bo_orch out"
      "bo_status out = 0 \<or> (\<exists>rc st'. res = Return rc st')"
  using assms
  by (auto simp: loop_iteration_def handle_reply_def execute_calls_def finish_or_nudge_def Let_def gate_of_def tracked_def
      tool_orchestration_reset_batch_def split: option.splits if_splits)

interpretation calls: loop_contract ag "goes_well ag" "ends_well ag" for ag
proof
  show "ends_well ag st st" for st
    by (auto simp: ends_well_def logs_def fresh_calls_def intro!: exI[of _ "[]"])
  show "ends_well ag a c" if ab: "goes_well ag a b" and bc: "ends_well ag b c" for a b c
    unfolding ends_well_def
  proof
    assume sched: "\<forall>n. mset (ag_sched ag n) = mset [0..<n]"
    obtain new where new: "logs ag a b new" "gate_stays (gate_of a) (gate_of b)" "tracked a \<subseteq> tracked b"
        "tc_id ` set new \<subseteq> Some ` tracked b"
      using ab sched unfolding goes_well_def by blast
    obtain new' where "logs ag b c new'"
      using bc sched unfolding ends_well_def by blast
    from logs_append[OF new this] show "\<exists>new. logs ag a c new" ..
  qed
  show "goes_well ag st st'" if it: "loop_iteration ag t r st = Some (Continue r' st')" for t r st r' st'
    unfolding goes_well_def
  proof
    assume sched: "\<forall>n. mset (ag_sched ag n) = mset [0..<n]"
    from it show "\<exists>new. logs ag st st' new \<and> gate_stays (gate_of st) (gate_of st') \<and> tracked st \<subseteq> tracked st' \<and>
         Some ` tracked st' \<supseteq> tc_id ` set new"
    proof (cases rule: loop_iteration_cases)
      case idle
      then show ?thesis by (intro exI[of _ "[]"]) (simp add: logs_def fresh_calls_def)
    next
      case (batch calls out orch w)
      note log = run_batch_log[OF batch(1) sched]
      show ?thesis
        using batch log
        by (intro exI[of _ "executed_calls calls out"]) (auto simp: logs_def gate_of_def tracked_def)
    qed
  qed
  show "ends_well ag st st'" if it: "loop_iteration ag t r st = Some (Return rc st')" for t r st rc st'
    unfolding ends_well_def
  proof
    assume sched: "\<forall>n. mset (ag_sched ag n) = mset [0..<n]"
    from it show "\<exists>new. logs ag st st' new"
    proof (cases rule: loop_iteration_cases)
      case idle
      then show ?thesis by (intro exI[of _ "[]"]) (simp add: logs_def fresh_calls_def)
    next
      case (batch calls out orch w)
      then show ?thesis
        using run_batch_log(1,2)[OF batch(1) sched]
        by (intro exI[of _ "executed_calls calls out"]) (simp add: logs_def)
    qed
  qed
qed

section \<open>The workflow\<close>

lemma seed_tracker_set:
  assumes "\<And>i n. oks i n"
  shows "set (oc_executed_tracker (seed_tracker oks i calls ctx)) =
      set (oc_executed_tracker ctx) \<union> {d. Some d \<in> tc_id ` set calls}"
    and "oc_gate_config (seed_tracker oks i calls ctx) = oc_gate_config ctx"
  using assms
  by (induction calls arbitrary: i ctx) (auto simp: tool_orchestration_mark_executed_def split: option.splits)

lemma seed_tracker_gate [simp]: "oc_gate_config (seed_tracker oks i calls ctx) = oc_gate_config ctx"
  by (induction calls arbitrary: i ctx) (auto simp: tool_orchestration_mark_executed_def split: option.splits)

text \<open>Either nothing is executed, or the first batch and, if it ends well, the loop.\<close>

lemma workflow_cases:
  assumes "tool_executor_run_workflow ok seed ag turns calls st = Some (rc, st')"
  obtains (none) "st' = st" "rc = -1"
  | (first) out orch where "run_batch ag (turns 0) False calls orch (as_world st) = Some out"
      "oc_gate_config (orch_ctx orch) = gate_of st" "st' = record_first ag (turns 0) calls out st" "rc = -2"
  | (loop) out orch rc' where "run_batch ag (turns 0) False calls orch (as_world st) = Some out"
      "oc_gate_config (orch_ctx orch) = gate_of st" "bo_status out = 0"
      "iterative_loop_run ag turns (start_loop seed calls (record_first ag (turns 0) calls out st)) = Some (rc', st')"
      "rc = (if rc' = SESSION_CONTEXT_FULL then SESSION_CONTEXT_FULL else 0)"
proof -
  show thesis
  proof (cases "calls = [] \<or> \<not> ok 0 \<or> \<not> tn_alloc (turns 0) 0")
    case True
    then show ?thesis
      using assms none by (auto simp: tool_executor_run_workflow_def tool_orchestration_init_def split: if_splits)
  next
    case False
    let ?orch = "(as_orch st)\<lparr>orch_ctx := \<lparr>oc_gate_config = gate_of st, oc_subagent_spawned = False,
      oc_executed_tracker = []\<rparr>\<rparr>"
    obtain out where out: "run_batch ag (turns 0) False calls ?orch (as_world st) = Some out"
      using assms False by (auto simp: tool_executor_run_workflow_def tool_orchestration_init_def gate_of_def split: option.splits)
    have gate: "oc_gate_config (orch_ctx ?orch) = gate_of st" by simp
    have rest: "(if bo_status out \<noteq> 0 then Some (-2, record_first ag (turns 0) calls out st)
       else case iterative_loop_run ag turns (start_loop seed calls (record_first ag (turns 0) calls out st)) of
              None \<Rightarrow> None
            | Some (result, st) \<Rightarrow> Some (if result = SESSION_CONTEXT_FULL then SESSION_CONTEXT_FULL else 0, st)) = Some (rc, st')"
      using assms False out
      by (simp add: tool_executor_run_workflow_def tool_orchestration_init_def gate_of_def Let_def)
    show ?thesis
    proof (cases "bo_status out = 0")
      case True
      with rest obtain rc' where "iterative_loop_run ag turns (start_loop seed calls (record_first ag (turns 0) calls out st)) =
          Some (rc', st')" "rc = (if rc' = SESSION_CONTEXT_FULL then SESSION_CONTEXT_FULL else 0)"
        by (auto split: option.splits)
      then show ?thesis using loop[OF out gate True] by blast
    qed (use rest first[OF out gate] in simp)
  qed
qed

lemma start_loop_fields [simp]:
  "as_executed (start_loop seed calls st) = as_executed st" "as_requests (start_loop seed calls st) = as_requests st"
  "orch_ctx (as_orch (start_loop seed calls st)) = seed_tracker seed 0 calls (orch_ctx (as_orch st))"
  "as_executed (record_first ag t calls out st) = as_executed st @ executed_calls calls out"
  "as_orch (record_first ag t calls out st) = bo_orch out" "as_requests (record_first ag t calls out st) = as_requests st"
  by (simp_all add: start_loop_def record_first_def)

lemma executed_calls_subset:
  assumes "run_batch ag t b calls orch w = Some out" and "\<forall>n. mset (ag_sched ag n) = mset [0..<n]"
  shows "set (executed_calls calls out) \<subseteq> set calls"
  using batch_executed[OF assms(1)[unfolded run_batch_def] assms(2)]
  by (auto simp: executed_calls_def screen_inv_def approved_ok_def dest!: mset_eq_setD)


text \<open>C4. No call is executed again in later turns. When the identifiers of the first batch can be recorded, the calls that
  later turns execute have identifiers, all different, and none of them is one of the first batch.\<close>

theorem workflow_executes_once:
  assumes "tool_executor_run_workflow ok seed ag turns calls st = Some (rc, st')"
    and "\<forall>n. mset (ag_sched ag n) = mset [0..<n]" and "\<forall>i n. seed i n"
  shows "\<exists>first later. as_executed st' = as_executed st @ first @ later \<and> set first \<subseteq> set calls \<and>
     distinct (map tc_id later) \<and> (\<forall>tc \<in> set later. tc_id tc \<noteq> None \<and> tc_id tc \<notin> tc_id ` set calls)"
  using assms(1)
proof (cases rule: workflow_cases)
  case none
  then show ?thesis by (intro exI[of _ "[]"]) simp
next
  case (first out orch)
  then show ?thesis
    using executed_calls_subset[OF first(1) assms(2)]
    by (intro exI[of _ "executed_calls calls out"] exI[of _ "[]"]) simp
next
  case (loop out orch rc')
  let ?s = "start_loop seed calls (record_first ag (turns 0) calls out st)"
  obtain later where later: "logs ag ?s st' later"
    using calls.run_contract[OF loop(4)] assms(2) unfolding ends_well_def by blast
  have "{d. Some d \<in> tc_id ` set calls} \<subseteq> tracked ?s"
    using seed_tracker_set(1)[of seed 0 calls "orch_ctx (bo_orch out)"] assms(3) by (simp add: tracked_def)
  then have "distinct (map tc_id later) \<and> (\<forall>tc \<in> set later. tc_id tc \<noteq> None \<and> tc_id tc \<notin> tc_id ` set calls)"
    using later unfolding logs_def fresh_calls_def by fastforce
  then show ?thesis
    using later executed_calls_subset[OF loop(1) assms(2)]
    by (intro exI[of _ "executed_calls calls out"] exI[of _ later]) (auto simp: logs_def)
qed

section \<open>How long it takes\<close>

text \<open>The codes of a batch.\<close>

lemma screen_approval_status: "screen_approval env i tc name rest sc = Inl sc' \<Longrightarrow> sc_status sc' = -1"
  using screen_approval_cases[of env i tc name rest sc "Inl sc'"] by simp

lemma screen_loop_status:
  "screen_loop env i calls sc = Some sc' \<Longrightarrow> sc_status sc = 0 \<Longrightarrow> sc_status sc' \<in> {0, -1, -2}"
proof (induction calls arbitrary: i sc)
  case (Cons tc rest)
  from Cons.prems(1) obtain x where x: "screen_call env i tc rest sc = Some x"
      "case x of Inl s \<Rightarrow> sc' = s | Inr s \<Rightarrow> screen_loop env (Suc i) rest s = Some sc'"
    by (auto split: option.splits sum.splits)
  show ?case
  proof (cases x)
    case (Inl s)
    have "sc_status s = -1 \<or> sc_status s = -2"
    proof (cases "be_interrupt env i")
      case True
      then show ?thesis using x(1) Inl by (auto simp: screen_call_def simp del: fill_remaining_interrupted.simps)
    next
      case False
      then show ?thesis
        using x(1) Inl screen_approval_status
        by (auto simp: screen_call_def screen_spawn_def Let_def split: if_splits option.splits prod.splits bool.splits)
    qed
    then show ?thesis using x(2) Inl by auto
  next
    case (Inr s)
    have "sc_status s = 0"
      using screen_call_cases[OF x(1), of None] Inr Cons.prems(2) by (simp add: round_ok_def)
    then show ?thesis using Cons.IH x(2) Inr by auto
  qed
qed simp

lemma run_batch_status: "run_batch ag t b calls orch w = Some out \<Longrightarrow> bo_status out \<in> {0, -1, -2}"
  unfolding run_batch_def tool_batch_execute_def Let_def
  by (auto split: if_splits option.splits prod.splits dest!: screen_loop_status)

text \<open>The counters of an iteration.\<close>

lemma track_calls_nudges [simp]: "nudge_count (track_calls out i calls ws) = nudge_count ws"
  by (induction out i calls ws rule: track_calls.induct) (simp_all)

lemma track_first_nudges [simp]: "nudge_count (track_first calls ws) = nudge_count ws"
  by (induction calls ws rule: track_first.induct) simp_all

lemma nudge_limit: "nudge ws = Some msg \<Longrightarrow> nudge_count ws < ITERATIVE_LOOP_MAX_NUDGES"
  by (auto simp: nudge_def split: if_splits)

lemma loop_iteration_counters:
  assumes "loop_iteration ag t r st = Some res"
  shows "as_requests (outcome_state res) \<le> as_requests st + 1"
    and "nudge_count (as_wf (outcome_state res)) \<le> max (nudge_count (as_wf st)) ITERATIVE_LOOP_MAX_NUDGES"
    and "\<And>rc st'. res = Return rc st' \<Longrightarrow> rc \<in> {0, -1, -2, SESSION_CONTEXT_FULL}"
    and "\<And>rc st'. (\<forall>s m. tn_reply t s m = None) \<Longrightarrow> res = Return rc st' \<Longrightarrow> rc \<noteq> 0"
    and "\<And>r' st'. (\<forall>s m. tn_reply t s m = None) \<Longrightarrow> res = Continue r' st' \<Longrightarrow> r' = r + 1 \<and> r' \<le> STREAM_RETRY_MAX"
  using assms run_batch_status nudge_limit
  by (fastforce simp: loop_iteration_def handle_reply_def execute_calls_def finish_or_nudge_def Let_def
      SESSION_CONTEXT_FULL_def split: option.splits if_splits)+

lemma iterative_loop_bounds:
  assumes "iterative_loop ag turns n r st = Some (rc, st')"
  shows "as_requests st' \<le> as_requests st + (ITERATIVE_LOOP_MAX_ITERATIONS - n) \<and>
    nudge_count (as_wf st') \<le> max (nudge_count (as_wf st)) ITERATIVE_LOOP_MAX_NUDGES \<and>
    rc \<in> {0, -1, -2, SESSION_CONTEXT_FULL}"
  using assms
proof (rule iterative_loop_induct)
  fix n r st rc st'
  assume "n < ITERATIVE_LOOP_MAX_ITERATIONS" and it: "loop_iteration ag (turns (Suc n)) r st = Some (Return rc st')"
  then show "as_requests st' \<le> as_requests st + (ITERATIVE_LOOP_MAX_ITERATIONS - n) \<and>
    nudge_count (as_wf st') \<le> max (nudge_count (as_wf st)) ITERATIVE_LOOP_MAX_NUDGES \<and> rc \<in> {0, -1, -2, SESSION_CONTEXT_FULL}"
    using loop_iteration_counters(1,2)[OF it] loop_iteration_counters(3)[OF it refl] by simp
next
  fix n r st r' s rc st'
  assume "n < ITERATIVE_LOOP_MAX_ITERATIONS" and it: "loop_iteration ag (turns (Suc n)) r st = Some (Continue r' s)"
    and "as_requests st' \<le> as_requests s + (ITERATIVE_LOOP_MAX_ITERATIONS - Suc n) \<and>
      nudge_count (as_wf st') \<le> max (nudge_count (as_wf s)) ITERATIVE_LOOP_MAX_NUDGES \<and> rc \<in> {0, -1, -2, SESSION_CONTEXT_FULL}"
  then show "as_requests st' \<le> as_requests st + (ITERATIVE_LOOP_MAX_ITERATIONS - n) \<and>
    nudge_count (as_wf st') \<le> max (nudge_count (as_wf st)) ITERATIVE_LOOP_MAX_NUDGES \<and> rc \<in> {0, -1, -2, SESSION_CONTEXT_FULL}"
    using loop_iteration_counters(1,2)[OF it] by auto
qed simp

lemma iterative_loop_gives_up:
  assumes "iterative_loop ag turns n r st = Some (rc, st')" and dead: "\<And>k s m. tn_reply (turns k) s m = None"
  shows "r \<le> STREAM_RETRY_MAX \<longrightarrow> as_requests st' \<le> as_requests st + (STREAM_RETRY_MAX + 1 - r) \<and> rc \<noteq> 0"
  using assms(1)
proof (rule iterative_loop_induct)
  fix n r st rc st'
  assume it: "loop_iteration ag (turns (Suc n)) r st = Some (Return rc st')"
  then show "r \<le> STREAM_RETRY_MAX \<longrightarrow> as_requests st' \<le> as_requests st + (STREAM_RETRY_MAX + 1 - r) \<and> rc \<noteq> 0"
    using loop_iteration_counters(1)[OF it] loop_iteration_counters(4)[OF it _ refl] dead by auto
next
  fix n r st r' s rc st'
  assume it: "loop_iteration ag (turns (Suc n)) r st = Some (Continue r' s)"
    and "r' \<le> STREAM_RETRY_MAX \<longrightarrow> as_requests st' \<le> as_requests s + (STREAM_RETRY_MAX + 1 - r') \<and> rc \<noteq> 0"
  then show "r \<le> STREAM_RETRY_MAX \<longrightarrow> as_requests st' \<le> as_requests st + (STREAM_RETRY_MAX + 1 - r) \<and> rc \<noteq> 0"
    using loop_iteration_counters(1)[OF it] loop_iteration_counters(5)[OF it _ refl] dead by auto
qed auto


section \<open>Repeated calls\<close>

text \<open>When the model repeats calls that were executed before, the loop ends after the reply with the calls is added to the
  conversation, and no result follows it.\<close>

lemma repeated_calls_unanswered:
  assumes "rt_tool_calls rt = calls" "calls \<noteq> []" "new_tool_calls (orch_ctx (as_orch st)) calls = 0" "\<And>n. tn_reply_alloc t n"
  shows "\<exists>st' msg. handle_reply ag t rt st = Some (Return 0 st') \<and> cm_role msg = Some ''assistant'' \<and>
     ch_messages (sd_conversation (as_session st')) = ch_messages (sd_conversation (as_session st)) @ [msg] \<and>
     cm_content msg = Some (case cv_format (ag_conv ag) (assistant_content rt) calls of Some f \<Rightarrow> f | None \<Rightarrow> used_tools calls)"
proof -
  let ?h = "sd_conversation (as_session st)"
  let ?txt = "case cv_format (ag_conv ag) (assistant_content rt) calls of Some f \<Rightarrow> f | None \<Rightarrow> used_tools calls"
  obtain rc h where h: "append_conversation_message (tn_reply_alloc t) (ag_conv ag) ''assistant'' (Some ?txt) ?h = (rc, h)"
    by (rule prod.exhaust)
  have "rc = 0" using h assms(4) by (auto simp: append_conversation_message_def add_message_to_history_def Let_def)
  with append_conversation_messages[OF h] obtain b where "ch_messages h = ch_messages ?h @
      [\<lparr>cm_role = Some ''assistant'', cm_content = Some ?txt, cm_tool_call_id = None, cm_tool_name = None,
        cm_has_tool_calls = b\<rparr>]" by auto
  then show ?thesis
    using assms h by (auto simp: handle_reply_def execute_calls_def Let_def conversation_append_assistant_def map_conversation_def)
qed

section \<open>Samples\<close>

text \<open>A workflow of one call that needs no approval. The window of the session is too small for a request, so the loop ends
  at once.\<close>

definition sample_agent :: "(jvalue, string, string option list) agent" where
  "sample_agent =
     \<lparr>ag_conv = \<lparr>cv_json = table_json [], cv_IsNull = (\<lambda>_. False), cv_format = (\<lambda>_ _. None), cv_store = False\<rparr>,
      ag_lib = sample_lib, ag_tools = [(''todo'', True)], ag_ex = name_executors, ag_sched = (\<lambda>n. [0..<n]),
      ag_summarise = (\<lambda>_ _. None)\<rparr>"

definition sample_turn :: turn where
  "sample_turn =
     \<lparr>tn_reply = (\<lambda>_ _. None), tn_fs = (\<lambda>_. sample_fs), tn_fs0 = sample_fs, tn_oks = (\<lambda>_ _. alloc_ok),
      tn_interrupt = (\<lambda>_. False), tn_late = False, tn_refresh = alloc_ok, tn_entries = alloc_ok, tn_okx = (\<lambda>_ _. alloc_ok),
      tn_oksx = (\<lambda>_ _ _. alloc_ok), tn_alloc = alloc_ok, tn_reply_alloc = alloc_ok, tn_nudge_alloc = alloc_ok,
      tn_result_alloc = (\<lambda>_. alloc_ok)\<rparr>"

definition sample_agent_state :: "(string, string option list) agent_state" where
  "sample_agent_state =
     \<lparr>as_session = crowded_session\<lparr>sd_context_window := 100\<rparr>, as_orch = sample_state [], as_wf = initial_wf, as_world = [],
      as_executed = [], as_requests = 0\<rparr>"

lemma sample_first_batch:
  "\<exists>out. run_batch sample_agent sample_turn False [todo_call] (sample_state []) [] = Some out \<and>
     executed_calls [todo_call] out = [todo_call] \<and> bo_status out = 0"
  by (simp add: run_batch_def tool_batch_execute_def turn_env_def sample_agent_def sample_turn_def screen_call_def
      screen_spawn_def screen_approval_def put_ctx_def slot_of_def Let_def tool_orchestration_can_spawn_subagent_def
      todo_passes sample_state_def todo_call_def init_approved_path_def PLUGIN_TOOL_PREFIX_def thread_safe_tool_def
      execution_order_def use_parallel_def executed_calls_def split: prod.split)

lemma small_window:
  assumes "sd_context_window (as_session st) = 100"
  shows "\<exists>st'. loop_iteration ag t r st = Some (Return (-1) st') \<and> as_executed st' = as_executed st"
  using assms
  by (simp add: loop_iteration_def Let_def manage_conversation_tokens_def calculate_token_allocation_def
      validate_token_config_def token_config_init_def SESSION_CONTEXT_FULL_def)

lemma sample_workflow:
  "\<exists>st'. tool_executor_run_workflow alloc_ok (\<lambda>_. alloc_ok) sample_agent (\<lambda>_. sample_turn) [todo_call] sample_agent_state =
     Some (0, st') \<and> as_executed st' = [todo_call]"
proof -
  obtain out where out: "run_batch sample_agent sample_turn False [todo_call] (sample_state []) [] = Some out"
      "executed_calls [todo_call] out = [todo_call]" "bo_status out = 0"
    using sample_first_batch by blast
  let ?s = "start_loop (\<lambda>_. alloc_ok) [todo_call] (record_first sample_agent sample_turn [todo_call] out sample_agent_state)"
  have "sd_context_window (as_session ?s) = 100"
    by (simp add: start_loop_def record_first_def map_conversation_def sample_agent_state_def)
  then obtain st' where st': "loop_iteration sample_agent sample_turn 0 ?s = Some (Return (-1) st')"
      "as_executed st' = as_executed ?s"
    using small_window by blast
  have "iterative_loop_run sample_agent (\<lambda>_. sample_turn) ?s = Some (-1, st')"
    using st'(1) unfolding iterative_loop_run_def
    by (subst iterative_loop.simps) (simp add: ITERATIVE_LOOP_MAX_ITERATIONS_def)
  moreover have "(as_orch sample_agent_state)\<lparr>orch_ctx := \<lparr>oc_gate_config = Some sample_config, oc_subagent_spawned = False,
      oc_executed_tracker = []\<rparr>\<rparr> = sample_state []" "as_world sample_agent_state = []"
      "oc_gate_config (orch_ctx (as_orch sample_agent_state)) = Some sample_config" "tn_alloc sample_turn 0"
    by (simp_all add: sample_agent_state_def sample_state_def sample_turn_def)
  ultimately show ?thesis
    using out st'(2) by (simp add: tool_executor_run_workflow_def tool_orchestration_init_def SESSION_CONTEXT_FULL_def Let_def
        sample_agent_state_def)
qed

lemma sample_sched: "\<forall>n. mset (ag_sched sample_agent n) = mset [0..<n]"
  by (simp add: sample_agent_def)


theorem workflow_executes_once_witness:
  "\<exists>st' later. tool_executor_run_workflow alloc_ok (\<lambda>_. alloc_ok) sample_agent (\<lambda>_. sample_turn) [todo_call] sample_agent_state =
     Some (0, st') \<and> (\<exists>first. as_executed st' = first @ later \<and> set first \<subseteq> {todo_call}) \<and>
     (\<forall>tc \<in> set later. tc_id tc \<noteq> tc_id todo_call)"
proof -
  obtain st' where st': "tool_executor_run_workflow alloc_ok (\<lambda>_. alloc_ok) sample_agent (\<lambda>_. sample_turn) [todo_call]
      sample_agent_state = Some (0, st')"
    using sample_workflow by blast
  have "as_executed sample_agent_state = []" by (simp add: sample_agent_state_def)
  then show ?thesis
    using workflow_executes_once[OF st' sample_sched] st' by auto
qed


end
