(* ===== verification/Tool_Params.thy ===== *)
theory Tool_Params
  imports Approval_Errors Pattern_Generator
begin

text \<open>
  The reader of string parameters that the tools written in C use, \<^verbatim>\<open>extract_string_param\<close> of
  \<^verbatim>\<open>lib/util/common_utils.c\<close>, and the dispatch of a call by its operation of
  \<^verbatim>\<open>lib/tools/tool_param_dsl.c\<close>. The reader does not parse JSON: it looks for the quoted name and a
  colon in the text of the arguments. The roundtrip shows on which texts it reads the value that was
  written; \<open>param_readers_differ\<close> is a text on which it does not read what the approval gate reads.
\<close>

section \<open>Reading a string parameter\<close>

definition ESC :: char where
  "ESC = CHR 0x5C"

text \<open>The buffer for the name holds 255 characters.\<close>

definition search_key :: "string \<Rightarrow> string" where
  "search_key param_name = take 255 (quoted param_name @ '':'')"

definition is_blank :: "char \<Rightarrow> bool" where
  "is_blank c \<longleftrightarrow> c = CHR '' '' \<or> c = CHR 0x09"

text \<open>The characters up to the closing quote, with their escapes, and the rest.\<close>

fun value_end :: "string \<Rightarrow> (string \<times> string) option" where
  "value_end [] = None"
| "value_end [c] = (if c = QUOTE then Some ([], []) else None)"
| "value_end (c # d # cs) =
     (if c = QUOTE then Some ([], d # cs)
      else if c = ESC then map_option (\<lambda>(a, b). (c # d # a, b)) (value_end cs)
      else map_option (\<lambda>(a, b). (c # a, b)) (value_end (d # cs)))"

definition unescaped :: "char \<Rightarrow> char option" where
  "unescaped c =
     (if c = CHR ''n'' then Some (CHR 0x0A)
      else if c = CHR ''t'' then Some (CHR 0x09)
      else if c = CHR ''r'' then Some (CHR 0x0D)
      else if c = QUOTE then Some QUOTE
      else if c = ESC then Some ESC
      else None)"

fun unescape :: "string \<Rightarrow> string" where
  "unescape [] = []"
| "unescape [c] = [c]"
| "unescape (c # d # cs) =
     (if c = ESC
      then case unescaped d of
             Some x \<Rightarrow> x # unescape cs
           | None \<Rightarrow> c # unescape (d # cs)
      else c # unescape (d # cs))"

text \<open>Site 0 is the copy of the value.\<close>

definition extract_string_param :: "alloc \<Rightarrow> string option \<Rightarrow> string \<Rightarrow> string option" where
  "extract_string_param ok json param_name =
     (case json of
        None \<Rightarrow> None
      | Some text \<Rightarrow>
          (case strstr_split (search_key param_name) text of
             None \<Rightarrow> None
           | Some (_, start) \<Rightarrow>
               (case dropWhile is_blank start of
                  [] \<Rightarrow> None
                | c # cs \<Rightarrow>
                    if c \<noteq> QUOTE then None
                    else case value_end cs of
                           None \<Rightarrow> None
                         | Some (v, _) \<Rightarrow> if ok 0 then Some (unescape v) else None)))"

section \<open>Dispatch by operation\<close>

text \<open>What a handler leaves in \<^verbatim>\<open>result\<close>: the text of an error or a success with its answer. The answer is
  a value of the handler's own type, what the JSON printer writes of it being outside the model.\<close>

datatype 'a tool_answer = ToolError string | ToolSuccess 'a

text \<open>The table of handlers is searched by name; the text of the error is cut to the buffer.\<close>

definition dispatch_by_operation ::
    "alloc \<Rightarrow> (string \<times> ('s \<Rightarrow> 'a tool_answer \<times> 's)) list \<Rightarrow> ToolCall \<Rightarrow> 's \<Rightarrow> 'a tool_answer \<times> 's" where
  "dispatch_by_operation ok table tc s =
     (case extract_string_param ok (tc_arguments tc) ''operation'' of
        None \<Rightarrow> (ToolError ''Missing required parameter: operation'', s)
      | Some operation \<Rightarrow>
          (case map_of table operation of
             Some handler \<Rightarrow> handler s
           | None \<Rightarrow> (ToolError (take 255 (''Unknown operation: '' @ operation)), s)))"

section \<open>Texts that are read back\<close>

text \<open>A string as the JSON printer writes it between quotes, when it has no control character except
  line breaks, tabs and carriage returns.\<close>

definition json_escape_char :: "char \<Rightarrow> string" where
  "json_escape_char c =
     (if c = CHR 0x0A then [ESC, CHR ''n'']
      else if c = CHR 0x09 then [ESC, CHR ''t'']
      else if c = CHR 0x0D then [ESC, CHR ''r'']
      else if c = QUOTE \<or> c = ESC then [ESC, c]
      else [c])"

definition json_escape_text :: "string \<Rightarrow> string" where
  "json_escape_text s = concat (map json_escape_char s)"

lemma json_escape_char_cases:
  obtains (plain) "json_escape_char c = [c]" and "c \<noteq> QUOTE" and "c \<noteq> ESC"
  | (escaped) d where "json_escape_char c = [ESC, d]" and "unescaped d = Some c"
proof -
  consider "c = CHR 0x0A" | "c = CHR 0x09" | "c = CHR 0x0D" | "c = QUOTE" | "c = ESC"
    | "c \<noteq> CHR 0x0A" "c \<noteq> CHR 0x09" "c \<noteq> CHR 0x0D" "c \<noteq> QUOTE" "c \<noteq> ESC"
    by blast
  then show thesis
  proof cases
    case 1
    then show thesis using escaped[of "CHR ''n''"] by (simp add: json_escape_char_def unescaped_def)
  next
    case 2
    then show thesis using escaped[of "CHR ''t''"] by (simp add: json_escape_char_def unescaped_def)
  next
    case 3
    then show thesis using escaped[of "CHR ''r''"] by (simp add: json_escape_char_def unescaped_def)
  next
    case 4
    then show thesis using escaped[of QUOTE] by (simp add: json_escape_char_def unescaped_def QUOTE_def)
  next
    case 5
    then show thesis using escaped[of ESC] by (simp add: json_escape_char_def unescaped_def QUOTE_def ESC_def)
  next
    case 6
    then show thesis using plain by (simp add: json_escape_char_def)
  qed
qed

lemma value_end_plain:
  "c \<noteq> QUOTE \<Longrightarrow> c \<noteq> ESC \<Longrightarrow> value_end (c # cs) = map_option (\<lambda>(a, b). (c # a, b)) (value_end cs)"
  by (cases cs) simp_all

lemma ESC_not_QUOTE [simp]: "ESC \<noteq> QUOTE"
  by (simp add: QUOTE_def ESC_def)

lemma value_end_escaped:
  "value_end (ESC # d # cs) = map_option (\<lambda>(a, b). (ESC # d # a, b)) (value_end cs)"
  by (simp add: QUOTE_def ESC_def)

lemma unescape_plain: "c \<noteq> ESC \<Longrightarrow> unescape (c # cs) = c # unescape cs"
  by (cases cs) simp_all

lemma value_end_quote: "value_end (QUOTE # cs) = Some ([], cs)"
  by (cases cs) simp_all

lemma value_end_escape: "value_end (json_escape_text s @ QUOTE # rest) = Some (json_escape_text s, rest)"
proof (induction s)
  case Nil
  then show ?case by (simp add: json_escape_text_def value_end_quote)
next
  case (Cons c s)
  then show ?case
    by (cases c rule: json_escape_char_cases) (simp_all add: json_escape_text_def value_end_plain value_end_escaped)
qed

lemma unescape_escape: "unescape (json_escape_text s) = s"
proof (induction s)
  case Nil
  then show ?case by (simp add: json_escape_text_def)
next
  case (Cons c s)
  then show ?case
    by (cases c rule: json_escape_char_cases) (simp_all add: json_escape_text_def unescape_plain)
qed

text \<open>The first occurrence of a text is found where no earlier one overlaps it.\<close>

lemma strstr_split_first:
  assumes "\<not> strstr (pre @ butlast n) n"
  shows "strstr_split n (pre @ n @ post) = Some (pre, post)"
  using assms
proof (induction pre)
  case Nil
  then show ?case by (cases "n @ post") (simp_all add: starts_with_prefix, metis append_eq_conv_conj prefixI)
next
  case (Cons c pre)
  have "\<not> prefix n (c # pre @ n @ post)"
  proof
    assume p: "prefix n (c # pre @ n @ post)"
    have "n \<noteq> []" using Cons.prems by (auto simp: strstr_sublist)
    then have "prefix (c # pre @ butlast n) (c # pre @ n @ post)" and "length n \<le> length (c # pre @ butlast n)"
      by (auto simp: prefix_def) (metis append_assoc append_butlast_last_id)
    then have "prefix n (c # pre @ butlast n)"
      using p prefix_length_prefix by blast
    then have "strstr (c # pre @ butlast n) n"
      by (simp add: starts_with_prefix)
    with Cons.prems show False by simp
  qed
  with Cons show ?case by (auto simp: starts_with_prefix)
qed

lemma extract_first:
  assumes "\<not> strstr (pre @ butlast (search_key name)) (search_key name)" and "\<forall>c \<in> set ws. is_blank c" and "ok 0"
  shows "extract_string_param ok (Some (pre @ search_key name @ ws @ quoted (json_escape_text s) @ post)) name = Some s"
proof -
  have "dropWhile is_blank (ws @ quoted (json_escape_text s) @ post) = quoted (json_escape_text s) @ post"
    using assms(2) by (simp add: dropWhile_append2 quoted_def QUOTE_def is_blank_def)
  with assms(3) show ?thesis
    by (simp add: extract_string_param_def strstr_split_first[OF assms(1)] quoted_def value_end_escape unescape_escape)
qed

text \<open>C32. The parameter that is read is the one that was written. When the arguments hold a member with the
  name of the parameter, the colon directly after the name, and a string as the JSON printer writes
  it, and the quoted name with the colon does not occur earlier in the text, then the reader returns
  that string, for every string whose only control characters are line breaks, tabs and carriage
  returns.\<close>

theorem string_param_roundtrip:
  assumes "length name \<le> 252" and "\<forall>c \<in> set ws. is_blank c"
    and "\<not> strstr (pre @ quoted name) (quoted name @ '':'')" and "ok 0"
  shows "extract_string_param ok (Some (pre @ quoted name @ '':'' @ ws @ quoted (json_escape_text s) @ post)) name = Some s"
proof -
  have key: "search_key name = quoted name @ '':''"
    using assms(1) by (simp add: search_key_def quoted_def)
  show ?thesis
    using extract_first[of pre name ws ok s post] assms by (simp add: key butlast_append)
qed

text \<open>The arguments \<^verbatim>\<open>{"a": 1, "goal_id": "x\"y\n"}\<close>.\<close>

definition sample_arguments :: string where
  "sample_arguments = ''{'' @ quoted ''a'' @ '': 1, '' @ quoted ''goal_id'' @ '': '' @
     quoted [CHR ''x'', ESC, QUOTE, CHR ''y'', ESC, CHR ''n''] @ ''}''"

theorem string_param_roundtrip_witness:
  "extract_string_param alloc_ok (Some sample_arguments) ''goal_id'' = Some [CHR ''x'', QUOTE, CHR ''y'', CHR 0x0A]"
proof -
  have "\<not> strstr ((''{'' @ quoted ''a'' @ '': 1, '') @ quoted ''goal_id'') (quoted ''goal_id'' @ '':'')"
    by code_simp
  from string_param_roundtrip[of "''goal_id''" "'' ''", OF _ _ this, of alloc_ok "[CHR ''x'', QUOTE, CHR ''y'', CHR 0x0A]" "''}''"]
  show ?thesis
    by (simp add: sample_arguments_def json_escape_text_def json_escape_char_def is_blank_def QUOTE_def ESC_def)
qed

section \<open>Two readers of one text\<close>

text \<open>The arguments \<^verbatim>\<open>{"options":{"file_path":"a"},"file_path":"b"}\<close>.\<close>

definition nested_arguments :: "string \<Rightarrow> string \<Rightarrow> string" where
  "nested_arguments a b = ''{'' @ quoted ''options'' @ '':{'' @ quoted ''file_path'' @ '':'' @ quoted (json_escape_text a) @
     ''},'' @ quoted ''file_path'' @ '':'' @ quoted (json_escape_text b) @ ''}''"

text \<open>The approval gate and the check of protected files read the member of the arguments, a tool in C the
  member of the object before it. The hypotheses say what the JSON library returns on this text.\<close>

lemma param_readers_differ:
  assumes "cJSON_Parse js (nested_arguments a b) = Some args" and "ok 0"
    and "cJSON_GetObjectItem js args ''path'' = None"
    and "jstring js (cJSON_GetObjectItem js args ''file_path'') = Some b"
    and "tc_arguments tc = Some (nested_arguments a b)"
  shows "tool_args_get_path ok js (Some tc) = Some b"
    and "extract_string_param ok (tc_arguments tc) ''file_path'' = Some a"
proof -
  show "tool_args_get_path ok js (Some tc) = Some b"
    using assms by (simp add: tool_args_get_path_def parse_args_def path_keys_def jstring_def)
  have "\<not> strstr ((''{'' @ quoted ''options'' @ '':{'') @ butlast (search_key ''file_path'')) (search_key ''file_path'')"
    by code_simp
  from extract_first[OF this, of "[]" ok a] assms(2,5)
  show "extract_string_param ok (tc_arguments tc) ''file_path'' = Some a"
    by (simp add: nested_arguments_def search_key_def quoted_def)
qed

end
