(* ===== verification/Sqlite_Stores.thy ===== *)
theory Sqlite_Stores
  imports Tool_Params
begin

text \<open>
  The stores of goals, actions and work items: \<^verbatim>\<open>lib/db/goal_store.c\<close>, \<^verbatim>\<open>lib/db/action_store.c\<close> and the work
  queues of \<^verbatim>\<open>lib/workflow/workflow.c\<close>, on the access functions of \<^verbatim>\<open>lib/db/sqlite_dal.c\<close>.

  A table is the list of its rows in the order in which they were inserted, and a statement of SQL is
  what it says of these rows: a query is a filter, sorted by the time of creation where the statement
  orders by it, with rows of the same second in the order of insertion, an update maps the rows that it selects. Everything that may fail, be it a statement
  or an allocation, is a site of an oracle \<open>ok\<close>, whose sites are lists of numbers so that a function
  hands the sites below one of its own to a function it calls. A statement that fails changes nothing.
  Every statement holds the lock of the database, so statements are atomic.

  The rows keep texts in full; the structures that are read from them cut identifiers to the size of
  their fields. Stores that are \<^verbatim>\<open>NULL\<close> are treated by the callers.
\<close>

type_synonym sites = "nat list \<Rightarrow> bool"

abbreviation all_ok :: sites where
  "all_ok \<equiv> (\<lambda>_. True)"

definition below :: "sites \<Rightarrow> nat \<Rightarrow> sites" where
  "below ok n = (\<lambda>p. ok (n # p))"

lemma below_all_ok [simp]: "below all_ok n = all_ok"
  by (simp add: below_def fun_eq_iff)

section \<open>Access to a table\<close>

definition sql_update :: "('r \<Rightarrow> bool) \<Rightarrow> ('r \<Rightarrow> 'r) \<Rightarrow> 'r list \<Rightarrow> 'r list" where
  "sql_update P f rows = map (\<lambda>r. if P r then f r else r) rows"

definition sql_count :: "('r \<Rightarrow> bool) \<Rightarrow> 'r list \<Rightarrow> int" where
  "sql_count P rows = int (length (filter P rows))"

text \<open>Site 0 is the preparation of the statement, site 1 its execution; the result is the number of rows
  that changed.\<close>

definition sqlite_dal_exec_p :: "sites \<Rightarrow> ('r \<Rightarrow> bool) \<Rightarrow> ('r \<Rightarrow> 'r) \<Rightarrow> 'r list \<Rightarrow> int \<times> 'r list" where
  "sqlite_dal_exec_p ok P f rows =
     (if ok [0] \<and> ok [1] then (sql_count P rows, sql_update P f rows) else (-1, rows))"

definition sqlite_dal_exists_p :: "sites \<Rightarrow> ('r \<Rightarrow> bool) \<Rightarrow> 'r list \<Rightarrow> int" where
  "sqlite_dal_exists_p ok P rows = (if \<not> ok [0] then -1 else if ok [1] \<and> (\<exists>r \<in> set rows. P r) then 1 else 0)"

definition sqlite_dal_query_one_p :: "sites \<Rightarrow> (sites \<Rightarrow> 'r \<Rightarrow> 'a option) \<Rightarrow> 'r list \<Rightarrow> 'a option" where
  "sqlite_dal_query_one_p ok mapper rows =
     (if \<not> ok [0] then None
      else case rows of
             [] \<Rightarrow> None
           | r # _ \<Rightarrow> if ok [1] then mapper (below ok 2) r else None)"

text \<open>The loop over the rows of a query. A step that fails ends it like the end of the rows, a row that is
  not mapped is left out, and only an array that cannot grow makes the query fail.\<close>

fun fetch_rows ::
    "sites \<Rightarrow> (sites \<Rightarrow> 'r \<Rightarrow> 'a option) \<Rightarrow> nat \<Rightarrow> nat \<Rightarrow> 'a list \<Rightarrow> 'r list \<Rightarrow> 'a list option" where
  "fetch_rows ok mapper i capacity items [] = Some items"
| "fetch_rows ok mapper i capacity items (r # rs) =
     (if \<not> ok [i, 0] then Some items
      else case mapper (below (below ok i) 1) r of
             None \<Rightarrow> fetch_rows ok mapper (Suc i) capacity items rs
           | Some item \<Rightarrow>
               if length items < capacity then fetch_rows ok mapper (Suc i) capacity (items @ [item]) rs
               else if ok [i, 2] then fetch_rows ok mapper (Suc i) (capacity * 2) (items @ [item]) rs
               else None)"

text \<open>Sites 0 and 1 are the preparation and the array.\<close>

definition sqlite_dal_query_list_p :: "sites \<Rightarrow> (sites \<Rightarrow> 'r \<Rightarrow> 'a option) \<Rightarrow> 'r list \<Rightarrow> 'a list option" where
  "sqlite_dal_query_list_p ok mapper rows =
     (if ok [0] \<and> ok [1] then fetch_rows (below ok 2) mapper 0 16 [] rows else None)"

section \<open>Goals\<close>

datatype GoalStatus =
  GOAL_STATUS_PLANNING | GOAL_STATUS_ACTIVE | GOAL_STATUS_PAUSED | GOAL_STATUS_COMPLETED | GOAL_STATUS_FAILED

record Goal =
  g_id :: string
  g_name :: string
  g_description :: "string option"
  g_goal_state :: "string option"
  g_world_state :: "string option"
  g_summary :: "string option"
  g_plan_document :: "string option"
  g_status :: GoalStatus
  g_queue_name :: string
  g_supervisor_pid :: int
  g_supervisor_started_at :: int
  g_created_at :: int
  g_updated_at :: int

text \<open>A row has the columns of the structure.\<close>

type_synonym goal_row = Goal

definition copied :: "sites \<Rightarrow> nat \<Rightarrow> string option \<Rightarrow> bool" where
  "copied ok n text \<longleftrightarrow> text = None \<or> ok [n]"

definition map_goal :: "sites \<Rightarrow> goal_row \<Rightarrow> Goal option" where
  "map_goal ok r =
     (if ok [0] \<and> copied ok 1 (g_description r) \<and> copied ok 2 (g_goal_state r) \<and> copied ok 3 (g_world_state r)
         \<and> copied ok 4 (g_summary r) \<and> copied ok 5 (g_plan_document r)
      then Some (r\<lparr>g_id := take 39 (g_id r), g_name := take 127 (g_name r), g_queue_name := take 63 (g_queue_name r)\<rparr>)
      else None)"

text \<open>Here and below \<open>uuid\<close> is the identifier that \<^verbatim>\<open>uuid_generate_v4\<close> makes, \<open>None\<close> when it fails. The
  result is the identifier of the new row, \<open>None\<close> for -1; the identifier is the primary key.\<close>

definition goal_store_insert ::
    "sites \<Rightarrow> int \<Rightarrow> string option \<Rightarrow> string \<Rightarrow> string option \<Rightarrow> string option \<Rightarrow> string \<Rightarrow> goal_row list
     \<Rightarrow> string option \<times> goal_row list" where
  "goal_store_insert ok now uuid name description goal_state_json queue_name rows =
     (case uuid of
        None \<Rightarrow> (None, rows)
      | Some goal_id \<Rightarrow>
          if \<not> ok [0] \<or> \<not> ok [1] \<or> goal_id \<in> g_id ` set rows then (None, rows)
          else (Some goal_id, rows @
            [\<lparr>g_id = goal_id, g_name = name, g_description = description,
              g_goal_state = Some (case goal_state_json of Some j \<Rightarrow> j | None \<Rightarrow> ''{}''),
              g_world_state = Some ''{}'', g_summary = None, g_plan_document = None,
              g_status = GOAL_STATUS_PLANNING, g_queue_name = queue_name, g_supervisor_pid = 0,
              g_supervisor_started_at = 0, g_created_at = now, g_updated_at = now\<rparr>]))"

definition goal_store_get :: "sites \<Rightarrow> string \<Rightarrow> goal_row list \<Rightarrow> Goal option" where
  "goal_store_get ok i rows = sqlite_dal_query_one_p ok map_goal (filter (\<lambda>r. g_id r = i) rows)"

definition goal_update :: "sites \<Rightarrow> (goal_row \<Rightarrow> goal_row) \<Rightarrow> string \<Rightarrow> goal_row list \<Rightarrow> int \<times> goal_row list" where
  "goal_update ok f i rows =
     (let (changes, rows') = sqlite_dal_exec_p ok (\<lambda>r. g_id r = i) f rows
      in (if changes > 0 then 0 else -1, rows'))"

definition goal_store_update_status :: "sites \<Rightarrow> int \<Rightarrow> string \<Rightarrow> GoalStatus \<Rightarrow> goal_row list \<Rightarrow> int \<times> goal_row list" where
  "goal_store_update_status ok now i status rows = goal_update ok (\<lambda>r. r\<lparr>g_status := status, g_updated_at := now\<rparr>) i rows"

definition goal_store_update_world_state :: "sites \<Rightarrow> int \<Rightarrow> string \<Rightarrow> string option \<Rightarrow> goal_row list \<Rightarrow> int \<times> goal_row list" where
  "goal_store_update_world_state ok now i world_state_json rows =
     (case world_state_json of
        None \<Rightarrow> (-1, rows)
      | Some j \<Rightarrow> goal_update ok (\<lambda>r. r\<lparr>g_world_state := Some j, g_updated_at := now\<rparr>) i rows)"

definition goal_store_update_summary :: "sites \<Rightarrow> int \<Rightarrow> string \<Rightarrow> string \<Rightarrow> goal_row list \<Rightarrow> int \<times> goal_row list" where
  "goal_store_update_summary ok now i summary rows = goal_update ok (\<lambda>r. r\<lparr>g_summary := Some summary, g_updated_at := now\<rparr>) i rows"

definition goal_store_update_plan_document :: "sites \<Rightarrow> int \<Rightarrow> string \<Rightarrow> string \<Rightarrow> goal_row list \<Rightarrow> int \<times> goal_row list" where
  "goal_store_update_plan_document ok now i doc rows =
     goal_update ok (\<lambda>r. r\<lparr>g_plan_document := Some doc, g_updated_at := now\<rparr>) i rows"

definition goal_store_update_supervisor :: "sites \<Rightarrow> int \<Rightarrow> string \<Rightarrow> int \<Rightarrow> int \<Rightarrow> goal_row list \<Rightarrow> int \<times> goal_row list" where
  "goal_store_update_supervisor ok now i pid started_at rows =
     goal_update ok (\<lambda>r. r\<lparr>g_supervisor_pid := pid, g_supervisor_started_at := started_at, g_updated_at := now\<rparr>) i rows"

definition goal_store_has_active_goals :: "sites \<Rightarrow> goal_row list \<Rightarrow> int" where
  "goal_store_has_active_goals ok rows = sqlite_dal_exists_p ok (\<lambda>r. g_status r = GOAL_STATUS_ACTIVE) rows"

text \<open>A list of results is empty when the query failed or selected nothing.\<close>

definition results :: "'a list option \<Rightarrow> 'a list" where
  "results q = (case q of None \<Rightarrow> [] | Some xs \<Rightarrow> xs)"

definition goal_store_list_all :: "sites \<Rightarrow> goal_row list \<Rightarrow> Goal list" where
  "goal_store_list_all ok rows = results (sqlite_dal_query_list_p ok map_goal (sort_key g_created_at rows))"

definition goal_store_list_by_status :: "sites \<Rightarrow> GoalStatus \<Rightarrow> goal_row list \<Rightarrow> Goal list" where
  "goal_store_list_by_status ok status rows =
     results (sqlite_dal_query_list_p ok map_goal (sort_key g_created_at (filter (\<lambda>r. g_status r = status) rows)))"

definition goal_status_to_string :: "GoalStatus \<Rightarrow> string" where
  "goal_status_to_string status =
     (case status of
        GOAL_STATUS_PLANNING \<Rightarrow> ''planning'' | GOAL_STATUS_ACTIVE \<Rightarrow> ''active'' | GOAL_STATUS_PAUSED \<Rightarrow> ''paused''
      | GOAL_STATUS_COMPLETED \<Rightarrow> ''completed'' | GOAL_STATUS_FAILED \<Rightarrow> ''failed'')"

definition goal_status_from_string :: "string option \<Rightarrow> GoalStatus" where
  "goal_status_from_string s =
     (if s = Some ''active'' then GOAL_STATUS_ACTIVE
      else if s = Some ''paused'' then GOAL_STATUS_PAUSED
      else if s = Some ''completed'' then GOAL_STATUS_COMPLETED
      else if s = Some ''failed'' then GOAL_STATUS_FAILED
      else GOAL_STATUS_PLANNING)"

section \<open>Actions\<close>

datatype ActionStatus =
  ACTION_STATUS_PENDING | ACTION_STATUS_RUNNING | ACTION_STATUS_COMPLETED | ACTION_STATUS_FAILED | ACTION_STATUS_SKIPPED

text \<open>A row; a missing parent or work item is \<^verbatim>\<open>NULL\<close>, which the structure holds as the empty text.\<close>

record action_row =
  ar_id :: string
  ar_goal_id :: string
  ar_parent :: "string option"
  ar_work_item :: "string option"
  ar_description :: string
  ar_preconditions :: string
  ar_effects :: string
  ar_is_compound :: bool
  ar_status :: ActionStatus
  ar_role :: string
  ar_result :: "string option"
  ar_attempt_count :: int
  ar_created_at :: int
  ar_updated_at :: int

record Action =
  a_id :: string
  a_goal_id :: string
  a_parent_action_id :: string
  a_work_item_id :: string
  a_description :: string
  a_preconditions :: string
  a_effects :: string
  a_is_compound :: bool
  a_status :: ActionStatus
  a_role :: string
  a_result :: "string option"
  a_attempt_count :: int
  a_created_at :: int
  a_updated_at :: int

definition or_empty :: "string option \<Rightarrow> string" where
  "or_empty t = (case t of None \<Rightarrow> [] | Some s \<Rightarrow> s)"

definition map_action :: "sites \<Rightarrow> action_row \<Rightarrow> Action option" where
  "map_action ok r =
     (if ok [0] \<and> ok [1] \<and> ok [2] \<and> ok [3] \<and> copied ok 4 (ar_result r)
      then Some \<lparr>a_id = take 39 (ar_id r), a_goal_id = take 39 (ar_goal_id r),
        a_parent_action_id = take 39 (or_empty (ar_parent r)), a_work_item_id = take 39 (or_empty (ar_work_item r)),
        a_description = ar_description r, a_preconditions = ar_preconditions r, a_effects = ar_effects r,
        a_is_compound = ar_is_compound r, a_status = ar_status r, a_role = take 31 (ar_role r),
        a_result = ar_result r, a_attempt_count = ar_attempt_count r, a_created_at = ar_created_at r,
        a_updated_at = ar_updated_at r\<rparr>
      else None)"

text \<open>The parent is a foreign key.\<close>

definition action_store_insert ::
    "sites \<Rightarrow> int \<Rightarrow> string option \<Rightarrow> string \<Rightarrow> string option \<Rightarrow> string \<Rightarrow> string option \<Rightarrow> string option \<Rightarrow> bool
     \<Rightarrow> string option \<Rightarrow> action_row list \<Rightarrow> string option \<times> action_row list" where
  "action_store_insert ok now uuid goal_id parent_action_id description preconditions_json effects_json is_compound role rows =
     (let parent = (if parent_action_id = Some [] then None else parent_action_id)
      in case uuid of
           None \<Rightarrow> (None, rows)
         | Some action_id \<Rightarrow>
             if \<not> ok [0] \<or> \<not> ok [1] \<or> action_id \<in> ar_id ` set rows
                \<or> (case parent of None \<Rightarrow> False | Some p \<Rightarrow> p \<notin> insert action_id (ar_id ` set rows))
             then (None, rows)
             else (Some action_id, rows @
               [\<lparr>ar_id = action_id, ar_goal_id = goal_id, ar_parent = parent, ar_work_item = None,
                 ar_description = description,
                 ar_preconditions = (case preconditions_json of Some j \<Rightarrow> j | None \<Rightarrow> ''[]''),
                 ar_effects = (case effects_json of Some j \<Rightarrow> j | None \<Rightarrow> ''[]''),
                 ar_is_compound = is_compound, ar_status = ACTION_STATUS_PENDING,
                 ar_role = (case role of Some x \<Rightarrow> x | None \<Rightarrow> ''implementation''), ar_result = None,
                 ar_attempt_count = 0, ar_created_at = now, ar_updated_at = now\<rparr>]))"

definition action_store_get :: "sites \<Rightarrow> string \<Rightarrow> action_row list \<Rightarrow> Action option" where
  "action_store_get ok i rows = sqlite_dal_query_one_p ok map_action (filter (\<lambda>r. ar_id r = i) rows)"

definition action_store_update_status ::
    "sites \<Rightarrow> int \<Rightarrow> string \<Rightarrow> ActionStatus \<Rightarrow> string option \<Rightarrow> action_row list \<Rightarrow> int \<times> action_row list" where
  "action_store_update_status ok now i status result rows =
     (if ok [0] \<and> ok [1]
      then (if sql_count (\<lambda>r. ar_id r = i) rows > 0 then 0 else -1,
            sql_update (\<lambda>r. ar_id r = i) (\<lambda>r. r\<lparr>ar_status := status, ar_updated_at := now, ar_result := result\<rparr>) rows)
      else (-1, rows))"

definition action_store_update_work_item ::
    "sites \<Rightarrow> int \<Rightarrow> string \<Rightarrow> string \<Rightarrow> action_row list \<Rightarrow> int \<times> action_row list" where
  "action_store_update_work_item ok now i work_item_id rows =
     sqlite_dal_exec_p ok (\<lambda>r. ar_id r = i) (\<lambda>r. r\<lparr>ar_work_item := Some work_item_id, ar_updated_at := now\<rparr>) rows"

definition action_query :: "sites \<Rightarrow> (action_row \<Rightarrow> bool) \<Rightarrow> action_row list \<Rightarrow> Action list" where
  "action_query ok P rows = results (sqlite_dal_query_list_p ok map_action (sort_key ar_created_at (filter P rows)))"

definition action_store_list_running :: "sites \<Rightarrow> string \<Rightarrow> action_row list \<Rightarrow> Action list" where
  "action_store_list_running ok goal_id rows =
     action_query ok (\<lambda>r. ar_goal_id r = goal_id \<and> ar_status r = ACTION_STATUS_RUNNING) rows"

text \<open>\<open>met\<close> is \<^verbatim>\<open>goap_preconditions_met\<close>; site 1 is the array of the actions that are ready.\<close>

definition action_store_list_ready ::
    "sites \<Rightarrow> (string option \<Rightarrow> string \<Rightarrow> bool) \<Rightarrow> string \<Rightarrow> string option \<Rightarrow> action_row list \<Rightarrow> Action list" where
  "action_store_list_ready ok met goal_id world_state_json rows =
     (let items = action_query (below ok 0) (\<lambda>r. ar_goal_id r = goal_id \<and> ar_status r = ACTION_STATUS_PENDING) rows;
          ws = (case world_state_json of Some w \<Rightarrow> w | None \<Rightarrow> ''{}'')
      in if ok [1] then filter (\<lambda>a. met (Some (a_preconditions a)) ws) items else [])"

definition action_store_list_by_goal :: "sites \<Rightarrow> string \<Rightarrow> action_row list \<Rightarrow> Action list" where
  "action_store_list_by_goal ok goal_id rows = action_query ok (\<lambda>r. ar_goal_id r = goal_id) rows"

definition action_store_list_children :: "sites \<Rightarrow> string \<Rightarrow> action_row list \<Rightarrow> Action list" where
  "action_store_list_children ok parent_action_id rows = action_query ok (\<lambda>r. ar_parent r = Some parent_action_id) rows"

definition action_store_count_by_status :: "sites \<Rightarrow> string \<Rightarrow> ActionStatus \<Rightarrow> action_row list \<Rightarrow> int" where
  "action_store_count_by_status ok goal_id status rows =
     (if ok [0] \<and> ok [1] then sql_count (\<lambda>r. ar_goal_id r = goal_id \<and> ar_status r = status) rows else -1)"

definition action_store_skip_pending :: "sites \<Rightarrow> int \<Rightarrow> string \<Rightarrow> action_row list \<Rightarrow> int \<times> action_row list" where
  "action_store_skip_pending ok now goal_id rows =
     sqlite_dal_exec_p ok (\<lambda>r. ar_goal_id r = goal_id \<and> ar_status r = ACTION_STATUS_PENDING)
       (\<lambda>r. r\<lparr>ar_status := ACTION_STATUS_SKIPPED, ar_updated_at := now\<rparr>) rows"

definition action_status_to_string :: "ActionStatus \<Rightarrow> string" where
  "action_status_to_string status =
     (case status of
        ACTION_STATUS_PENDING \<Rightarrow> ''pending'' | ACTION_STATUS_RUNNING \<Rightarrow> ''running''
      | ACTION_STATUS_COMPLETED \<Rightarrow> ''completed'' | ACTION_STATUS_FAILED \<Rightarrow> ''failed'' | ACTION_STATUS_SKIPPED \<Rightarrow> ''skipped'')"

definition action_status_from_string :: "string option \<Rightarrow> ActionStatus" where
  "action_status_from_string s =
     (if s = Some ''running'' then ACTION_STATUS_RUNNING
      else if s = Some ''completed'' then ACTION_STATUS_COMPLETED
      else if s = Some ''failed'' then ACTION_STATUS_FAILED
      else if s = Some ''skipped'' then ACTION_STATUS_SKIPPED
      else ACTION_STATUS_PENDING)"

section \<open>Work queues\<close>

datatype WorkItemStatus = WORK_ITEM_PENDING | WORK_ITEM_ASSIGNED | WORK_ITEM_COMPLETED | WORK_ITEM_FAILED

record WorkItem =
  wi_id :: string
  wi_queue_name :: string
  wi_task_description :: string
  wi_context :: "string option"
  wi_assigned_to :: "string option"
  wi_status :: WorkItemStatus
  wi_attempt_count :: int
  wi_max_attempts :: int
  wi_created_at :: int
  wi_assigned_at :: "int option"
  wi_completed_at :: "int option"
  wi_result :: "string option"
  wi_error :: "string option"

text \<open>The handle of a queue is its name; the sites are the handle, the database and its schema.\<close>

definition work_queue_create :: "sites \<Rightarrow> string \<Rightarrow> string option" where
  "work_queue_create ok name =
     (if name = [] \<or> length name \<ge> 64 \<or> \<not> ok [0] \<or> \<not> ok [1] \<or> \<not> ok [2] then None else Some name)"

definition work_queue_enqueue ::
    "sites \<Rightarrow> int \<Rightarrow> string option \<Rightarrow> string \<Rightarrow> string \<Rightarrow> string option \<Rightarrow> int \<Rightarrow> WorkItem list
     \<Rightarrow> string option \<times> WorkItem list" where
  "work_queue_enqueue ok now uuid queue task_description context max_attempts rows =
     (let max_attempts = (if max_attempts \<le> 0 then 3 else max_attempts)
      in case uuid of
           None \<Rightarrow> (None, rows)
         | Some u \<Rightarrow>
             if \<not> ok [0] \<or> \<not> ok [1] \<or> u \<in> wi_id ` set rows then (None, rows)
             else (Some (take 39 u), rows @
               [\<lparr>wi_id = u, wi_queue_name = queue, wi_task_description = task_description, wi_context = context,
                 wi_assigned_to = None, wi_status = WORK_ITEM_PENDING, wi_attempt_count = 0,
                 wi_max_attempts = max_attempts, wi_created_at = now, wi_assigned_at = None,
                 wi_completed_at = None, wi_result = None, wi_error = None\<rparr>]))"

definition map_work_item :: "WorkItem \<Rightarrow> WorkItem" where
  "map_work_item r = r\<lparr>wi_id := take 39 (wi_id r), wi_queue_name := take 63 (wi_queue_name r),
     wi_assigned_to := map_option (take 63) (wi_assigned_to r)\<rparr>"

text \<open>The pending item of the queue that was created first.\<close>

definition oldest_pending :: "string \<Rightarrow> WorkItem list \<Rightarrow> WorkItem option" where
  "oldest_pending queue rows =
     (case sort_key wi_created_at (filter (\<lambda>r. wi_queue_name r = queue \<and> wi_status r = WORK_ITEM_PENDING) rows) of
        [] \<Rightarrow> None
      | r # _ \<Rightarrow> Some r)"

text \<open>The update happens in the first step of the statement; sites 2 to 4 are the structure and its texts.
  The result has no outcome, which a claim does not read.\<close>

definition work_queue_claim :: "sites \<Rightarrow> int \<Rightarrow> string \<Rightarrow> string \<Rightarrow> WorkItem list \<Rightarrow> WorkItem option \<times> WorkItem list" where
  "work_queue_claim ok now queue worker_id rows =
     (if \<not> ok [0] \<or> \<not> ok [1] then (None, rows)
      else case oldest_pending queue rows of
             None \<Rightarrow> (None, rows)
           | Some r \<Rightarrow>
               (let claimed = (\<lambda>x. x\<lparr>wi_assigned_to := Some worker_id, wi_status := WORK_ITEM_ASSIGNED,
                                   wi_attempt_count := wi_attempt_count x + 1, wi_assigned_at := Some now\<rparr>);
                    rows' = sql_update (\<lambda>x. wi_id x = wi_id r) claimed rows
                in if ok [2] \<and> ok [3] \<and> copied ok 4 (wi_context r)
                   then (Some ((map_work_item (claimed r))\<lparr>wi_completed_at := None, wi_result := None, wi_error := None\<rparr>), rows')
                   else (None, rows')))"

definition in_queue :: "string \<Rightarrow> string \<Rightarrow> WorkItem \<Rightarrow> bool" where
  "in_queue queue item_id r \<longleftrightarrow> wi_id r = item_id \<and> wi_queue_name r = queue"

definition work_queue_complete :: "sites \<Rightarrow> int \<Rightarrow> string \<Rightarrow> string \<Rightarrow> string option \<Rightarrow> WorkItem list \<Rightarrow> int \<times> WorkItem list" where
  "work_queue_complete ok now queue item_id result rows =
     (if ok [0] \<and> ok [1]
      then (if sql_count (in_queue queue item_id) rows > 0 then 0 else -1,
            sql_update (in_queue queue item_id)
              (\<lambda>r. r\<lparr>wi_status := WORK_ITEM_COMPLETED, wi_completed_at := Some now, wi_result := result\<rparr>) rows)
      else (-1, rows))"

text \<open>The first two sites are the query, the others the update.\<close>

definition work_queue_fail :: "sites \<Rightarrow> string \<Rightarrow> string \<Rightarrow> string option \<Rightarrow> WorkItem list \<Rightarrow> int \<times> WorkItem list" where
  "work_queue_fail ok queue item_id error rows =
     (if \<not> ok [0] \<or> \<not> ok [1] then (-1, rows)
      else case find (in_queue queue item_id) rows of
             None \<Rightarrow> (-1, rows)
           | Some item \<Rightarrow>
               (let new_status = (if wi_attempt_count item < wi_max_attempts item then WORK_ITEM_PENDING else WORK_ITEM_FAILED)
                in if ok [2] \<and> ok [3]
                   then (0, sql_update (in_queue queue item_id)
                             (\<lambda>r. r\<lparr>wi_status := new_status, wi_assigned_to := None, wi_error := error\<rparr>) rows)
                   else (-1, rows)))"

definition work_queue_pending_count :: "sites \<Rightarrow> string \<Rightarrow> WorkItem list \<Rightarrow> int" where
  "work_queue_pending_count ok queue rows =
     (if ok [0] \<and> ok [1] then sql_count (\<lambda>r. wi_queue_name r = queue \<and> wi_status r = WORK_ITEM_PENDING) rows else -1)"

definition work_queue_remove :: "sites \<Rightarrow> string \<Rightarrow> string \<Rightarrow> WorkItem list \<Rightarrow> int \<times> WorkItem list" where
  "work_queue_remove ok queue item_id rows =
     (if ok [0] \<and> ok [1]
      then (if sql_count (in_queue queue item_id) rows > 0 then 0 else -1, filter (\<lambda>r. \<not> in_queue queue item_id r) rows)
      else (-1, rows))"

text \<open>A text that cannot be copied is left out, unlike in a claim: sites 4 to 6. The description, which no
  caller reads, is always there.\<close>

definition kept :: "sites \<Rightarrow> nat \<Rightarrow> string option \<Rightarrow> string option" where
  "kept ok n text = (if ok [n] then text else None)"

definition work_queue_get_item :: "sites \<Rightarrow> string \<Rightarrow> string \<Rightarrow> WorkItem list \<Rightarrow> WorkItem option" where
  "work_queue_get_item ok queue item_id rows =
     (if \<not> ok [0] \<or> \<not> ok [1] then None
      else case find (in_queue queue item_id) rows of
             None \<Rightarrow> None
           | Some r \<Rightarrow>
               if ok [2]
               then Some ((map_work_item r)\<lparr>wi_context := kept ok 4 (wi_context r), wi_result := kept ok 5 (wi_result r),
                            wi_error := kept ok 6 (wi_error r)\<rparr>)
               else None)"


section \<open>Operations on a work queue\<close>

text \<open>One call of the interface of the queues, by the supervisor or a worker, with the answers of its
  oracle. The log holds the identifiers of the items that \<^verbatim>\<open>work_queue_claim\<close> has handed out.\<close>

datatype queue_op =
    Enqueue sites int string string string "string option" int
  | Claim sites int string string
  | Complete sites int string string "string option"
  | Fail sites string string "string option"
  | Remove sites string string

fun queue_step :: "queue_op \<Rightarrow> string list \<times> WorkItem list \<Rightarrow> string list \<times> WorkItem list" where
  "queue_step (Enqueue ok now uuid queue task context max_attempts) (log, rows) =
     (log, snd (work_queue_enqueue ok now (Some uuid) queue task context max_attempts rows))"
| "queue_step (Claim ok now queue worker) (log, rows) =
     (case work_queue_claim ok now queue worker rows of
        (None, rows') \<Rightarrow> (log, rows')
      | (Some item, rows') \<Rightarrow> (log @ [wi_id item], rows'))"
| "queue_step (Complete ok now queue item_id result) (log, rows) =
     (log, snd (work_queue_complete ok now queue item_id result rows))"
| "queue_step (Fail ok queue item_id error) (log, rows) = (log, snd (work_queue_fail ok queue item_id error rows))"
| "queue_step (Remove ok queue item_id) (log, rows) = (log, snd (work_queue_remove ok queue item_id rows))"

fun new_id :: "queue_op \<Rightarrow> string list" where
  "new_id (Enqueue ok now uuid queue task context max_attempts) = [uuid]"
| "new_id _ = []"

definition queue_run :: "queue_op list \<Rightarrow> string list \<times> WorkItem list \<Rightarrow> string list \<times> WorkItem list" where
  "queue_run = fold queue_step"

text \<open>An identifier is a UUID of 36 characters, which the fields of 40 characters hold.\<close>

definition short_id :: "string \<Rightarrow> bool" where
  "short_id i \<longleftrightarrow> length i \<le> 39"

section \<open>Rows with a key\<close>

lemma set_sql_update: "set (sql_update P f rows) = f ` {r \<in> set rows. P r} \<union> {r \<in> set rows. \<not> P r}"
  by (auto simp: sql_update_def)

text \<open>What the updates of a table promise: they keep the key of every row.\<close>

locale keyed_table =
  fixes key :: "'r \<Rightarrow> string" and allowed :: "('r \<Rightarrow> 'r) \<Rightarrow> bool"
  assumes keeps_key: "allowed f \<Longrightarrow> key (f r) = key r"
begin

lemma update_keys: "allowed f \<Longrightarrow> map key (sql_update P f rows) = map key rows"
  by (simp add: sql_update_def keeps_key)

lemma update_lookup:
  assumes "allowed f"
  shows "find (\<lambda>r. key r = i) (sql_update (\<lambda>r. key r = j) f rows) =
    (if i = j then map_option f (find (\<lambda>r. key r = i) rows) else find (\<lambda>r. key r = i) rows)"
  by (induction rows) (use assms in \<open>auto simp: sql_update_def keeps_key\<close>)

lemma lookup_member:
  assumes "distinct (map key rows)"
  shows "find (\<lambda>r. key r = i) rows = Some r \<longleftrightarrow> r \<in> set rows \<and> key r = i"
  using assms by (induction rows) (auto simp: image_iff)

end

definition keeps :: "('r \<Rightarrow> string) \<Rightarrow> ('r \<Rightarrow> 'r) \<Rightarrow> bool" where
  "keeps key f \<longleftrightarrow> (\<forall>r. key (f r) = key r)"

interpretation goals: keyed_table g_id "keeps g_id"
  by unfold_locales (simp add: keeps_def)

interpretation actions: keyed_table ar_id "keeps ar_id"
  by unfold_locales (simp add: keeps_def)

interpretation items: keyed_table wi_id "keeps wi_id"
  by unfold_locales (simp add: keeps_def)

section \<open>Attempts at a work item\<close>

text \<open>The invariant of the queues: identifiers are unique, every item has been claimed at most as often as
  it may be, and one that is pending less often.\<close>

definition item_ok :: "WorkItem \<Rightarrow> bool" where
  "item_ok r \<longleftrightarrow> 0 \<le> wi_attempt_count r \<and> wi_attempt_count r \<le> wi_max_attempts r \<and>
     (wi_status r = WORK_ITEM_PENDING \<longrightarrow> wi_attempt_count r < wi_max_attempts r)"

definition queue_inv :: "string set \<Rightarrow> string list \<times> WorkItem list \<Rightarrow> bool" where
  "queue_inv used s \<longleftrightarrow> (case s of (log, rows) \<Rightarrow>
     distinct (map wi_id rows) \<and> wi_id ` set rows \<subseteq> used \<and> set log \<subseteq> used \<and> (\<forall>i \<in> used. short_id i) \<and>
     (\<forall>r \<in> set rows. item_ok r \<and> int (count_list log (wi_id r)) \<le> wi_attempt_count r))"

lemma oldest_pending_Some:
  assumes "oldest_pending queue rows = Some r"
  shows "r \<in> set rows" "wi_queue_name r = queue" "wi_status r = WORK_ITEM_PENDING"
    "\<forall>x \<in> set rows. wi_queue_name x = queue \<and> wi_status x = WORK_ITEM_PENDING \<longrightarrow> wi_created_at r \<le> wi_created_at x"
proof -
  let ?q = "sort_key wi_created_at (filter (\<lambda>r. wi_queue_name r = queue \<and> wi_status r = WORK_ITEM_PENDING) rows)"
  obtain rs where q: "?q = r # rs"
    using assms by (auto simp: oldest_pending_def split: list.splits)
  have s: "set ?q = {x \<in> set rows. wi_queue_name x = queue \<and> wi_status x = WORK_ITEM_PENDING}"
    by simp
  have "sorted (map wi_created_at ?q)"
    by simp
  with q have "\<forall>x \<in> set ?q. wi_created_at r \<le> wi_created_at x"
    by auto
  moreover have "r \<in> set ?q" using q by simp
  ultimately show "r \<in> set rows" "wi_queue_name r = queue" "wi_status r = WORK_ITEM_PENDING"
    "\<forall>x \<in> set rows. wi_queue_name x = queue \<and> wi_status x = WORK_ITEM_PENDING \<longrightarrow> wi_created_at r \<le> wi_created_at x"
    unfolding s by auto
qed

text \<open>An update that keeps the identifiers and the bounds keeps the invariant.\<close>

lemma queue_inv_update:
  assumes "queue_inv used (log, rows)" and "keeps wi_id f"
    and "\<And>r. r \<in> set rows \<Longrightarrow> P r \<Longrightarrow> item_ok r \<Longrightarrow> item_ok (f r) \<and> wi_attempt_count r \<le> wi_attempt_count (f r)"
  shows "queue_inv used (log, sql_update P f rows)"
proof -
  have ids: "map wi_id (sql_update P f rows) = map wi_id rows"
    by (rule items.update_keys[OF assms(2)])
  then have "wi_id ` set (sql_update P f rows) = wi_id ` set rows"
    by (metis list.set_map)
  with assms ids show ?thesis
    by (fastforce simp: queue_inv_def set_sql_update keeps_def)
qed

lemma queue_inv_log:
  assumes "queue_inv used (log, rows)" and "r \<in> set rows" and "int (count_list log (wi_id r)) < wi_attempt_count r"
  shows "queue_inv used (log @ [wi_id r], rows)"
proof -
  have "inj_on wi_id (set rows)"
    using assms(1) by (simp add: queue_inv_def distinct_map)
  then have "int (count_list (log @ [wi_id r]) (wi_id x)) \<le> wi_attempt_count x" if "x \<in> set rows" for x
    using assms that by (cases "wi_id x = wi_id r") (auto simp: queue_inv_def dest: inj_onD)
  with assms(1,2) show ?thesis by (auto simp: queue_inv_def)
qed

lemma queue_inv_enqueue:
  assumes "queue_inv used (log, rows)" and "uuid \<notin> used" and "short_id uuid"
  shows "queue_inv (insert uuid used) (log, snd (work_queue_enqueue ok now (Some uuid) queue task context max_attempts rows))"
proof -
  have "count_list log uuid = 0"
    using assms(1,2) by (auto simp: queue_inv_def count_list_0_iff)
  with assms show ?thesis
    by (auto simp: queue_inv_def work_queue_enqueue_def item_ok_def)
qed

lemma queue_inv_claim:
  assumes "queue_inv used (log, rows)"
  shows "queue_inv used (queue_step (Claim ok now queue worker) (log, rows))"
proof (cases "ok [0] \<and> ok [1] \<and> oldest_pending queue rows \<noteq> None")
  case False
  then show ?thesis
    using assms by (auto simp: work_queue_claim_def split: option.splits)
next
  case True
  then obtain r where r: "oldest_pending queue rows = Some r" by auto
  define claimed :: "WorkItem \<Rightarrow> WorkItem" where "claimed = (\<lambda>x. x\<lparr>wi_assigned_to := Some worker, wi_status := WORK_ITEM_ASSIGNED,
    wi_attempt_count := wi_attempt_count x + 1, wi_assigned_at := Some now\<rparr>)"
  define rows' where "rows' = sql_update (\<lambda>x. wi_id x = wi_id r) claimed rows"
  note old = oldest_pending_Some[OF r]
  have inj: "inj_on wi_id (set rows)" and ok: "item_ok r" and
      c: "int (count_list log (wi_id r)) \<le> wi_attempt_count r" and short: "short_id (wi_id r)"
    using assms old(1) by (auto simp: queue_inv_def distinct_map)
  have inv: "queue_inv used (log, rows')"
    unfolding rows'_def
    by (rule queue_inv_update[OF assms])
      (use inj old ok in \<open>auto simp: keeps_def claimed_def item_ok_def dest: inj_onD\<close>)
  have "claimed r \<in> set rows'"
    using old(1) by (auto simp: rows'_def set_sql_update)
  from queue_inv_log[OF inv this] c have "queue_inv used (log @ [wi_id r], rows')"
    by (simp add: claimed_def)
  with inv True r short show ?thesis
    by (simp add: work_queue_claim_def map_work_item_def short_id_def Let_def rows'_def claimed_def)
qed

lemma queue_inv_step:
  assumes "queue_inv used (log, rows)" and "set (new_id x) \<inter> used = {}" and "\<forall>i \<in> set (new_id x). short_id i"
  shows "queue_inv (used \<union> set (new_id x)) (queue_step x (log, rows))"
proof (cases x)
  case (Enqueue ok now uuid queue task ctx max_attempts)
  then show ?thesis using queue_inv_enqueue assms by simp
next
  case (Claim ok now queue worker)
  then show ?thesis using queue_inv_claim[OF assms(1)] by simp
next
  case (Complete ok now queue item_id result)
  then show ?thesis
    using assms(1) queue_inv_update[OF assms(1)] by (auto simp: work_queue_complete_def keeps_def item_ok_def)
next
  case (Fail ok queue item_id error)
  show ?thesis
  proof (cases "find (in_queue queue item_id) rows")
    case None
    then show ?thesis using assms(1) Fail by (simp add: work_queue_fail_def)
  next
    case (Some item)
    have "item \<in> set rows" "in_queue queue item_id item"
      using Some by (auto simp: find_Some_iff)
    then have "item' = item" if "item' \<in> set rows" "in_queue queue item_id item'" for item'
      using assms(1) that by (auto simp: queue_inv_def distinct_map in_queue_def dest: inj_onD)
    with Some Fail assms(1) show ?thesis
      by (auto simp: work_queue_fail_def Let_def keeps_def item_ok_def intro!: queue_inv_update)
  qed
next
  case (Remove ok queue item_id)
  then show ?thesis
    using assms(1) by (auto simp: queue_inv_def work_queue_remove_def distinct_map_filter)
qed

lemma queue_inv_run:
  assumes "queue_inv used s" and "distinct (concat (map new_id ops))" and "set (concat (map new_id ops)) \<inter> used = {}"
    and "\<forall>i \<in> set (concat (map new_id ops)). short_id i"
  shows "queue_inv (used \<union> set (concat (map new_id ops))) (queue_run ops s)"
  using assms
proof (induction ops arbitrary: used s)
  case (Cons x ops)
  obtain log rows where s: "s = (log, rows)" by (cases s)
  have "queue_inv (used \<union> set (new_id x)) (queue_step x s)"
    using queue_inv_step[of used log rows x] Cons.prems by (auto simp: s)
  from Cons.IH[OF this] Cons.prems show ?case
    by (auto simp: queue_run_def Un_assoc)
qed (simp add: queue_run_def)

text \<open>C18. A work item is handed to workers at most as often as it may be attempted. Whatever the supervisor and
  the workers do with the queues from the start, with new identifiers for new items and whatever
  statements fail, every item that is in a queue has been claimed at most \<^verbatim>\<open>max_attempts\<close> times, and
  one that waits to be claimed has been claimed less often.\<close>

theorem work_item_attempts_bounded:
  assumes "queue_run ops ([], []) = (log, rows)" and "distinct (concat (map new_id ops))"
    and "\<forall>i \<in> set (concat (map new_id ops)). length i \<le> 39" and "r \<in> set rows"
  shows "int (count_list log (wi_id r)) \<le> wi_attempt_count r \<and> wi_attempt_count r \<le> wi_max_attempts r \<and>
    (wi_status r = WORK_ITEM_PENDING \<longrightarrow> wi_attempt_count r < wi_max_attempts r)"
proof -
  have "queue_inv {} ([], [])" by (simp add: queue_inv_def)
  from queue_inv_run[OF this assms(2)] assms(1,3,4) show ?thesis
    by (auto simp: queue_inv_def item_ok_def short_id_def)
qed

text \<open>An item that may be attempted twice, fails twice and is not claimed again.\<close>

definition queue_sample :: "queue_op list" where
  "queue_sample = [Enqueue all_ok 10 ''u'' ''q'' ''build'' None 2, Claim all_ok 11 ''q'' ''w1'', Fail all_ok ''q'' ''u'' None,
     Claim all_ok 12 ''q'' ''w2'', Fail all_ok ''q'' ''u'' (Some ''no''), Claim all_ok 13 ''q'' ''w3'']"

definition sample_item :: WorkItem where
  "sample_item = \<lparr>wi_id = ''u'', wi_queue_name = ''q'', wi_task_description = ''build'', wi_context = None,
     wi_assigned_to = None, wi_status = WORK_ITEM_FAILED, wi_attempt_count = 2, wi_max_attempts = 2, wi_created_at = 10,
     wi_assigned_at = Some 12, wi_completed_at = None, wi_result = None, wi_error = Some ''no''\<rparr>"

theorem work_item_attempts_bounded_witness:
  "queue_run queue_sample ([], []) = ([''u'', ''u''], [sample_item]) \<and>
   int (count_list [''u'', ''u''] (wi_id sample_item)) \<le> wi_max_attempts sample_item"
proof -
  have "queue_run queue_sample ([], []) = ([''u'', ''u''], [sample_item])"
    by (simp add: queue_run_def queue_sample_def sample_item_def work_queue_enqueue_def work_queue_claim_def
        work_queue_fail_def oldest_pending_def sql_update_def copied_def map_work_item_def in_queue_def Let_def)
  with work_item_attempts_bounded[OF this, of sample_item] show ?thesis
    by (simp add: queue_sample_def)
qed

section \<open>Queries that do not fail\<close>

definition goal_of :: "goal_row \<Rightarrow> Goal" where
  "goal_of r = r\<lparr>g_id := take 39 (g_id r), g_name := take 127 (g_name r), g_queue_name := take 63 (g_queue_name r)\<rparr>"

definition action_of :: "action_row \<Rightarrow> Action" where
  "action_of r = \<lparr>a_id = take 39 (ar_id r), a_goal_id = take 39 (ar_goal_id r),
     a_parent_action_id = take 39 (or_empty (ar_parent r)), a_work_item_id = take 39 (or_empty (ar_work_item r)),
     a_description = ar_description r, a_preconditions = ar_preconditions r, a_effects = ar_effects r,
     a_is_compound = ar_is_compound r, a_status = ar_status r, a_role = take 31 (ar_role r),
     a_result = ar_result r, a_attempt_count = ar_attempt_count r, a_created_at = ar_created_at r,
     a_updated_at = ar_updated_at r\<rparr>"

lemma map_goal_Some: "map_goal ok r = Some g \<Longrightarrow> g = goal_of r"
  by (auto simp: map_goal_def goal_of_def split: if_splits)

lemma map_action_Some: "map_action ok r = Some a \<Longrightarrow> a = action_of r"
  by (auto simp: map_action_def action_of_def split: if_splits)

lemma map_goal_ok [simp]: "map_goal all_ok r = Some (goal_of r)"
  by (simp add: map_goal_def goal_of_def copied_def)

lemma map_action_ok [simp]: "map_action all_ok r = Some (action_of r)"
  by (simp add: map_action_def action_of_def copied_def)

lemma fetch_rows_ok:
  assumes "\<And>r. mapper all_ok r = Some (m r)"
  shows "fetch_rows all_ok mapper i capacity items rows = Some (items @ map m rows)"
  by (induction rows arbitrary: i capacity items) (simp_all add: assms)

lemma fetch_rows_subset:
  assumes "\<And>ok r a. mapper ok r = Some a \<Longrightarrow> a = m r" and "fetch_rows ok mapper i capacity items rows = Some xs"
  shows "set xs \<subseteq> set items \<union> m ` set rows"
  using assms(2)
proof (induction rows arbitrary: i capacity items)
  case (Cons r rows)
  show ?case
  proof (cases "mapper (below (below ok i) 1) r")
    case None
    with Cons show ?thesis by (fastforce split: if_splits)
  next
    case (Some a)
    with assms(1) have "a = m r" by blast
    with Cons Some show ?thesis by (fastforce split: if_splits)
  qed
qed simp

lemma action_query_ok: "action_query all_ok P rows = map action_of (sort_key ar_created_at (filter P rows))"
  by (simp add: action_query_def sqlite_dal_query_list_p_def results_def fetch_rows_ok[where m = action_of])

lemma action_query_subset: "set (action_query ok P rows) \<subseteq> action_of ` {r \<in> set rows. P r}"
proof (cases "sqlite_dal_query_list_p ok map_action (sort_key ar_created_at (filter P rows))")
  case (Some xs)
  then show ?thesis
    using fetch_rows_subset[of map_action action_of, OF map_action_Some]
    by (fastforce simp: action_query_def results_def sqlite_dal_query_list_p_def split: if_splits)
qed (simp add: action_query_def results_def)

lemma goal_list_ok: "goal_store_list_by_status all_ok st rows = map goal_of (sort_key g_created_at (filter (\<lambda>r. g_status r = st) rows))"
  "goal_store_list_all all_ok rows = map goal_of (sort_key g_created_at rows)"
  by (simp_all add: goal_store_list_by_status_def goal_store_list_all_def sqlite_dal_query_list_p_def results_def
      fetch_rows_ok[where m = goal_of])

lemma filter_key_find: "(case filter P rows of [] \<Rightarrow> None | r # _ \<Rightarrow> Some r) = find P rows"
  by (induction rows) auto

lemma query_one_Some:
  assumes "sqlite_dal_query_one_p ok mapper (filter P rows) = Some a" and "\<And>ok r a. mapper ok r = Some a \<Longrightarrow> a = m r"
  shows "\<exists>r. find P rows = Some r \<and> a = m r"
proof (cases "filter P rows")
  case (Cons r rs)
  then have "find P rows = Some r" using filter_key_find[of P rows] by simp
  with assms Cons show ?thesis by (auto simp: sqlite_dal_query_one_p_def split: if_splits)
qed (use assms in \<open>simp add: sqlite_dal_query_one_p_def split: if_splits\<close>)

lemma goal_store_get_Some:
  assumes "goal_store_get ok i rows = Some g"
  obtains r where "find (\<lambda>r. g_id r = i) rows = Some r" and "g = goal_of r"
  using query_one_Some[OF assms[unfolded goal_store_get_def], of goal_of] map_goal_Some by blast

lemma action_store_get_Some:
  assumes "action_store_get ok i rows = Some a"
  obtains r where "find (\<lambda>r. ar_id r = i) rows = Some r" and "a = action_of r"
  using query_one_Some[OF assms[unfolded action_store_get_def], of action_of] map_action_Some by blast

lemma goal_store_get_ok: "goal_store_get all_ok i rows = map_option goal_of (find (\<lambda>r. g_id r = i) rows)"
  by (cases "filter (\<lambda>r. g_id r = i) rows")
    (simp_all add: goal_store_get_def sqlite_dal_query_one_p_def filter_key_find[symmetric])

lemma action_store_get_ok: "action_store_get all_ok i rows = map_option action_of (find (\<lambda>r. ar_id r = i) rows)"
  by (cases "filter (\<lambda>r. ar_id r = i) rows")
    (simp_all add: action_store_get_def sqlite_dal_query_one_p_def filter_key_find[symmetric])

lemma action_status_roundtrip: "action_status_from_string (Some (action_status_to_string s)) = s"
  by (cases s) (simp_all add: action_status_from_string_def action_status_to_string_def)

lemma goal_status_roundtrip: "goal_status_from_string (Some (goal_status_to_string s)) = s"
  by (cases s) (simp_all add: goal_status_from_string_def goal_status_to_string_def)

text \<open>The work item that is read is a row of the queue.\<close>

lemma work_queue_get_item_Some:
  assumes "work_queue_get_item ok queue item_id rows = Some w"
  obtains r where "find (in_queue queue item_id) rows = Some r" and "wi_status w = wi_status r"
  using assms by (auto simp: work_queue_get_item_def map_work_item_def split: if_splits option.splits)

end
