(* ===== verification/Goap.thy ===== *)
theory Goap
  imports Sqlite_Stores
begin

text \<open>
  Planning with goals and actions: the state of a goal in \<^verbatim>\<open>lib/orchestrator/goap_state.c\<close> and the
  operations of the tool \<^verbatim>\<open>goap\<close> in \<^verbatim>\<open>lib/tools/goap_tools.c\<close>, with which a supervisor creates goals and
  actions, hands actions to workers and records what has been achieved.

  A goal keeps the names of its assertions and their truth as two texts in JSON. The functions of the
  JSON library that change a value are the record \<open>ed\<close>; what they do, in terms of the named members of
  an object, is the hypothesis \<open>json_objects\<close>.
\<close>

section \<open>The JSON library\<close>

record 'j cjson_edit =
  cJSON_GetObjectItemCaseSensitive :: "'j \<Rightarrow> string \<Rightarrow> 'j option"
  cJSON_CreateObject :: 'j
  cJSON_DeleteItemFromObject :: "string \<Rightarrow> 'j \<Rightarrow> 'j"
  cJSON_AddBoolToObject :: "string \<Rightarrow> bool \<Rightarrow> 'j \<Rightarrow> 'j"
  cJSON_PrintUnformatted :: "'j \<Rightarrow> string option"

section \<open>Assertions of a goal\<close>

text \<open>\<^verbatim>\<open>goap_preconditions_met\<close>: the texts that are not a list of names count as met.\<close>

definition goap_preconditions_met :: "'j cjson \<Rightarrow> 'j cjson_edit \<Rightarrow> string option \<Rightarrow> string \<Rightarrow> bool" where
  "goap_preconditions_met js ed preconditions_json world_state_json =
     (case preconditions_json of
        None \<Rightarrow> True
      | Some text \<Rightarrow>
          if text = ''[]'' then True
          else case cJSON_Parse js text of
                 None \<Rightarrow> True
               | Some preconditions \<Rightarrow>
                   if \<not> cJSON_IsArray js preconditions then True
                   else if cJSON_elements js preconditions = [] then True
                   else case cJSON_Parse js world_state_json of
                          None \<Rightarrow> False
                        | Some world_state \<Rightarrow>
                            list_all (\<lambda>item. case jstring js (Some item) of
                                 None \<Rightarrow> True
                               | Some k \<Rightarrow> jtest (cJSON_IsTrue js) (cJSON_GetObjectItemCaseSensitive ed world_state k))
                              (cJSON_elements js preconditions))"

record GoapProgress =
  gp_complete :: bool
  gp_satisfied :: int
  gp_total :: int

text \<open>Whether the member of the goal is true in the world.\<close>

definition assertion_holds :: "'j cjson \<Rightarrow> 'j option \<Rightarrow> 'j \<Rightarrow> bool" where
  "assertion_holds js world_state item =
     (case world_state of
        None \<Rightarrow> False
      | Some w \<Rightarrow> (case cJSON_string js item of
                     None \<Rightarrow> False
                   | Some k \<Rightarrow> jtest (cJSON_IsTrue js) (cJSON_GetObjectItem js w k)))"

definition parse_text :: "'j cjson \<Rightarrow> string option \<Rightarrow> 'j option" where
  "parse_text js text = (case text of None \<Rightarrow> None | Some t \<Rightarrow> cJSON_Parse js t)"

text \<open>The assertions of a goal: \<open>None\<close> when its text is not an object.\<close>

definition goal_items :: "'j cjson \<Rightarrow> string option \<Rightarrow> 'j list option" where
  "goal_items js goal_state_json =
     (case parse_text js goal_state_json of
        None \<Rightarrow> None
      | Some g \<Rightarrow> if cJSON_IsObject js g then Some (cJSON_elements js g) else None)"

definition goap_check_progress :: "'j cjson \<Rightarrow> string option \<Rightarrow> string option \<Rightarrow> GoapProgress" where
  "goap_check_progress js goal_state_json world_state_json =
     (case goal_items js goal_state_json of
        None \<Rightarrow> \<lparr>gp_complete = False, gp_satisfied = 0, gp_total = 0\<rparr>
      | Some items \<Rightarrow>
          (let world_state = parse_text js world_state_json;
               total = int (length items);
               satisfied = int (length (filter (assertion_holds js world_state) items))
           in \<lparr>gp_complete = (total > 0 \<and> satisfied = total), gp_satisfied = satisfied, gp_total = total\<rparr>))"

section \<open>Operations of the tool\<close>

text \<open>The stores that are open, and the database of the work queues.\<close>

record stores =
  st_goals :: "goal_row list option"
  st_actions :: "action_row list option"
  st_items :: "WorkItem list"

datatype goap_answer =
    GoalAnswer Goal
  | ActionsAnswer "Action list"
  | CreatedGoal string string string
  | CreatedActions "string list" int
  | UpdatedAction string ActionStatus
  | Dispatched string string string
  | UpdatedWorld
  | ProgressAnswer GoapProgress "string list"
  | ResultsAnswer "(string \<times> string \<times> string \<times> string \<times> bool) list"
  | SavedPlan string

text \<open>The parameter of a call; \<open>n\<close> is the site of its copy.\<close>

definition param :: "sites \<Rightarrow> nat \<Rightarrow> ToolCall \<Rightarrow> string \<Rightarrow> string option" where
  "param ok n tc name = extract_string_param (\<lambda>_. ok [n]) (tc_arguments tc) name"

definition is_valid_action_status :: "string \<Rightarrow> bool" where
  "is_valid_action_status s \<longleftrightarrow> s = ''pending'' \<or> s = ''running'' \<or> s = ''completed'' \<or> s = ''failed'' \<or> s = ''skipped''"

text \<open>The answer of the first operation holds the goal; its texts that are JSON are put in as such.\<close>

definition execute_goap_get_goal :: "sites \<Rightarrow> ToolCall \<Rightarrow> stores \<Rightarrow> goap_answer tool_answer" where
  "execute_goap_get_goal ok tc st =
     (case param ok 0 tc ''goal_id'' of
        None \<Rightarrow> ToolError ''Missing required parameter: goal_id''
      | Some goal_id \<Rightarrow>
          (case st_goals st of
             None \<Rightarrow> ToolError ''Goal store not available''
           | Some rows \<Rightarrow>
               (case goal_store_get (below ok 1) goal_id rows of
                  None \<Rightarrow> ToolError ''Goal not found''
                | Some goal \<Rightarrow> ToolSuccess (GoalAnswer goal))))"

definition execute_goap_list_actions :: "sites \<Rightarrow> ToolCall \<Rightarrow> stores \<Rightarrow> goap_answer tool_answer" where
  "execute_goap_list_actions ok tc st =
     (case param ok 0 tc ''goal_id'' of
        None \<Rightarrow> ToolError ''Missing required parameter: goal_id''
      | Some goal_id \<Rightarrow>
          (let status_str = param ok 1 tc ''status'';
               parent_id = param ok 2 tc ''parent_action_id''
           in if (case status_str of None \<Rightarrow> False | Some s \<Rightarrow> \<not> is_valid_action_status s)
              then ToolError ''Invalid status filter (must be: pending, running, completed, failed, skipped)''
              else case st_actions st of
                     None \<Rightarrow> ToolError ''Action store not available''
                   | Some rows \<Rightarrow>
                       (let actions = (case parent_id of
                              Some p \<Rightarrow> action_store_list_children (below ok 3) p rows
                            | None \<Rightarrow> action_store_list_by_goal (below ok 3) goal_id rows)
                        in ToolSuccess (ActionsAnswer
                             (filter (\<lambda>a. status_str = None \<or> a_status a = action_status_from_string status_str) actions)))))"

text \<open>Two identifiers are made: \<open>queue_uuid\<close> is what the buffer holds that the name of the queue is made from,
  whether or not one could be made, and \<open>uuid\<close> that of the goal.\<close>

definition execute_goap_create_goal ::
    "sites \<Rightarrow> 'j cjson \<Rightarrow> 'j cjson_edit \<Rightarrow> int \<Rightarrow> string \<Rightarrow> string option \<Rightarrow> ToolCall \<Rightarrow> stores
     \<Rightarrow> goap_answer tool_answer \<times> stores" where
  "execute_goap_create_goal ok js ed now queue_uuid uuid tc st =
     (case parse_args js (Some tc) of
        None \<Rightarrow> (ToolError ''Invalid JSON arguments'', st)
      | Some args \<Rightarrow>
          (let get = (\<lambda>k. jstring js (cJSON_GetObjectItem js args k));
               gs_item = cJSON_GetObjectItem js args ''goal_state'';
               goal_state_str = (if jtest (cJSON_IsObject js) gs_item
                                 then (case gs_item of None \<Rightarrow> None | Some v \<Rightarrow> cJSON_PrintUnformatted ed v)
                                 else if ok [0] then jstring js gs_item else None);
               queue_name = (case get ''queue_name'' of Some q \<Rightarrow> q | None \<Rightarrow> ''goal_'' @ take 32 queue_uuid)
           in case (get ''name'', get ''description'', st_goals st) of
                (Some name, Some description, Some rows) \<Rightarrow>
                  (case goal_store_insert (below ok 1) now uuid name (Some description) goal_state_str queue_name rows of
                     (None, rows') \<Rightarrow> (ToolError ''Failed to create goal'', st\<lparr>st_goals := Some rows'\<rparr>)
                   | (Some goal_id, rows') \<Rightarrow>
                       if jtest (cJSON_IsTrue js) (cJSON_GetObjectItem js args ''persistent'')
                       then (case goal_store_update_status (below ok 2) now goal_id GOAL_STATUS_ACTIVE rows' of
                               (rc, rows'') \<Rightarrow>
                                 (if rc \<noteq> 0 then ToolError ''Goal created but failed to set active status''
                                  else ToolSuccess (CreatedGoal goal_id queue_name ''active''), st\<lparr>st_goals := Some rows''\<rparr>))
                       else (ToolSuccess (CreatedGoal goal_id queue_name ''planning''), st\<lparr>st_goals := Some rows'\<rparr>))
              | (Some name, Some description, None) \<Rightarrow> (ToolError ''Goal store not available'', st)
              | _ \<Rightarrow> (ToolError ''Missing required parameters: name, description'', st)))"

text \<open>The text of a list in an action object.\<close>

definition list_text :: "sites \<Rightarrow> nat \<Rightarrow> 'j cjson \<Rightarrow> 'j cjson_edit \<Rightarrow> 'j \<Rightarrow> string \<Rightarrow> string option" where
  "list_text ok n js ed action_obj k =
     (case cJSON_GetObjectItem js action_obj k of
        Some v \<Rightarrow> if cJSON_IsArray js v then cJSON_PrintUnformatted ed v else if ok [n] then Some ''[]'' else None
      | None \<Rightarrow> if ok [n] then Some ''[]'' else None)"

text \<open>The loop over the objects: the identifiers that were created, the number that failed and the rows.\<close>

fun create_actions ::
    "sites \<Rightarrow> 'j cjson \<Rightarrow> 'j cjson_edit \<Rightarrow> int \<Rightarrow> (nat \<Rightarrow> string option) \<Rightarrow> string \<Rightarrow> nat \<Rightarrow> 'j list
     \<Rightarrow> string list \<times> int \<times> action_row list \<Rightarrow> string list \<times> int \<times> action_row list" where
  "create_actions ok js ed now uuid goal_id i [] acc = acc"
| "create_actions ok js ed now uuid goal_id i (action_obj # objs) (ids, failed, rows) =
     (let get = (\<lambda>k. jstring js (cJSON_GetObjectItem js action_obj k));
          precond_str = list_text (below ok i) 0 js ed action_obj ''preconditions'';
          effects_str = list_text (below ok i) 1 js ed action_obj ''effects'';
          is_compound = jtest (cJSON_IsTrue js) (cJSON_GetObjectItem js action_obj ''is_compound'')
      in create_actions ok js ed now uuid goal_id (Suc i) objs
           (case get ''description'' of
              None \<Rightarrow> (ids, failed + 1, rows)
            | Some desc \<Rightarrow>
                (case action_store_insert (below (below ok i) 2) now (uuid i) goal_id (get ''parent_action_id'') desc
                        precond_str effects_str is_compound (get ''role'') rows of
                   (None, rows') \<Rightarrow> (ids, failed + 1, rows')
                 | (Some out_id, rows') \<Rightarrow> (ids @ [out_id], failed, rows'))))"

text \<open>The answer is a success unless every object failed, and says what it created either way.\<close>

definition execute_goap_create_actions ::
    "sites \<Rightarrow> 'j cjson \<Rightarrow> 'j cjson_edit \<Rightarrow> int \<Rightarrow> (nat \<Rightarrow> string option) \<Rightarrow> ToolCall \<Rightarrow> stores
     \<Rightarrow> bool \<times> goap_answer tool_answer \<times> stores" where
  "execute_goap_create_actions ok js ed now uuid tc st =
     (case parse_args js (Some tc) of
        None \<Rightarrow> (False, ToolError ''Invalid JSON arguments'', st)
      | Some args \<Rightarrow>
          (case (jstring js (cJSON_GetObjectItem js args ''goal_id''), cJSON_GetObjectItem js args ''actions'') of
             (Some goal_id, Some arr) \<Rightarrow>
               if \<not> cJSON_IsArray js arr then (False, ToolError ''Missing required parameters: goal_id, actions (array)'', st)
               else (case st_actions st of
                       None \<Rightarrow> (False, ToolError ''Action store not available'', st)
                     | Some rows \<Rightarrow>
                         (case create_actions ok js ed now uuid goal_id 0 (cJSON_elements js arr) ([], 0, rows) of
                            (ids, failed, rows') \<Rightarrow>
                              (ids \<noteq> [] \<or> failed = 0, ToolSuccess (CreatedActions ids failed), st\<lparr>st_actions := Some rows'\<rparr>)))
           | _ \<Rightarrow> (False, ToolError ''Missing required parameters: goal_id, actions (array)'', st)))"

definition execute_goap_update_action :: "sites \<Rightarrow> int \<Rightarrow> ToolCall \<Rightarrow> stores \<Rightarrow> goap_answer tool_answer \<times> stores" where
  "execute_goap_update_action ok now tc st =
     (case (param ok 0 tc ''action_id'', param ok 1 tc ''status'') of
        (Some action_id, Some status_str) \<Rightarrow>
          if \<not> is_valid_action_status status_str
          then (ToolError ''Invalid status (must be: pending, running, completed, failed, skipped)'', st)
          else (case st_actions st of
                  None \<Rightarrow> (ToolError ''Action store not available'', st)
                | Some rows \<Rightarrow>
                    (let status = action_status_from_string (Some status_str);
                         (rc, rows') = action_store_update_status (below ok 3) now action_id status (param ok 2 tc ''result'') rows
                     in (if rc = 0 then ToolSuccess (UpdatedAction action_id status) else ToolError ''Failed to update action'',
                         st\<lparr>st_actions := Some rows'\<rparr>)))
      | _ \<Rightarrow> (ToolError ''Missing required parameters: action_id, status'', st))"

text \<open>A text that may be too long for the worker; site \<open>n\<close> is the buffer for the shortened one.\<close>

definition MAX_RESULT_PREVIEW :: nat where
  "MAX_RESULT_PREVIEW = 4000"

definition preview :: "sites \<Rightarrow> nat \<Rightarrow> string \<Rightarrow> string option" where
  "preview ok n text =
     (if length text > MAX_RESULT_PREVIEW
      then if ok [n] then Some (take MAX_RESULT_PREVIEW text @ ''...[truncated]'') else None
      else Some text)"

text \<open>What a worker is told of its action: the text of the goal, the action, the role, the world, the plan and the
  results of completed actions that have an effect the action needs. How it is printed is an argument.\<close>

record 'j work_context =
  wc_goal :: string
  wc_action :: string
  wc_role :: string
  wc_world_state :: "'j option"
  wc_plan_guidance :: "string option"
  wc_prerequisite_results :: "(string \<times> string) list"

definition string_items :: "'j cjson \<Rightarrow> 'j \<Rightarrow> string list" where
  "string_items js arr = List.map_filter (\<lambda>e. jstring js (Some e)) (cJSON_elements js arr)"

definition effects_overlap :: "'j cjson \<Rightarrow> 'j \<Rightarrow> Action \<Rightarrow> bool" where
  "effects_overlap js prereqs a =
     (case cJSON_Parse js (a_effects a) of
        None \<Rightarrow> False
      | Some effects \<Rightarrow>
          cJSON_IsArray js effects \<and> list_ex (\<lambda>e. List.member (string_items js prereqs) e) (string_items js effects))"

fun prerequisite_results :: "sites \<Rightarrow> 'j cjson \<Rightarrow> 'j \<Rightarrow> nat \<Rightarrow> Action list \<Rightarrow> (string \<times> string) list" where
  "prerequisite_results ok js prereqs i [] = []"
| "prerequisite_results ok js prereqs i (a # as) =
     (case a_result a of
        Some r \<Rightarrow>
          if a_status a = ACTION_STATUS_COMPLETED \<and> effects_overlap js prereqs a
          then (case preview ok i r of None \<Rightarrow> [] | Some t \<Rightarrow> [(a_id a, t)])
          else []
      | None \<Rightarrow> []) @ prerequisite_results ok js prereqs (Suc i) as"

definition role_or_default :: "string \<Rightarrow> string" where
  "role_or_default role = (if role = [] then ''implementation'' else role)"

definition build_work_context :: "sites \<Rightarrow> 'j cjson \<Rightarrow> Goal \<Rightarrow> action_row list \<Rightarrow> Action \<Rightarrow> 'j work_context" where
  "build_work_context ok js goal rows action =
     \<lparr>wc_goal = (case g_description goal of Some d \<Rightarrow> d | None \<Rightarrow> g_name goal),
      wc_action = a_description action,
      wc_role = role_or_default (a_role action),
      wc_world_state = parse_text js (g_world_state goal),
      wc_plan_guidance = (case g_plan_document goal of None \<Rightarrow> None | Some p \<Rightarrow> preview ok 0 p),
      wc_prerequisite_results =
        (case cJSON_Parse js (a_preconditions action) of
           None \<Rightarrow> []
         | Some prereqs \<Rightarrow>
             if cJSON_IsArray js prereqs \<and> cJSON_elements js prereqs \<noteq> []
             then prerequisite_results (below ok 2) js prereqs 0 (action_store_list_by_goal (below ok 1) (a_goal_id action) rows)
             else [])\<rparr>"

text \<open>What handing an action to a worker needs of its surroundings: the limit in the configuration, whether
  the path of the program is known, and the subagent that is started, \<open>None\<close> when that fails. The file
  with the prompt of the role is not modelled.\<close>

record 'j dispatch_env =
  de_max_workers :: int
  de_exe_path :: bool
  de_spawn :: "string option"
  de_print :: "'j work_context \<Rightarrow> string option"

definition execute_goap_dispatch_action ::
    "sites \<Rightarrow> 'j cjson \<Rightarrow> 'j dispatch_env \<Rightarrow> int \<Rightarrow> string option \<Rightarrow> ToolCall \<Rightarrow> stores
     \<Rightarrow> goap_answer tool_answer \<times> stores" where
  "execute_goap_dispatch_action ok js env now uuid tc st =
     (case param ok 0 tc ''action_id'' of
        None \<Rightarrow> (ToolError ''Missing required parameter: action_id'', st)
      | Some action_id \<Rightarrow>
     (case (st_actions st, st_goals st) of
        (Some rows, Some goals) \<Rightarrow>
     (case action_store_get (below ok 1) action_id rows of
        None \<Rightarrow> (ToolError ''Action not found'', st)
      | Some action \<Rightarrow>
     if a_is_compound action then (ToolError ''Cannot dispatch compound action - decompose it first'', st)
     else if a_status action \<noteq> ACTION_STATUS_PENDING then (ToolError ''Action is not pending'', st)
     else if action_store_count_by_status (below ok 2) (a_goal_id action) ACTION_STATUS_RUNNING rows \<ge> de_max_workers env
     then (ToolError ''Worker capacity reached for this goal'', st)
     else
     (case goal_store_get (below ok 3) (a_goal_id action) goals of
        None \<Rightarrow> (ToolError ''Goal not found for action'', st)
      | Some goal \<Rightarrow>
     (let work = de_print env (build_work_context (below ok 4) js goal rows action)
      in case work_queue_create (below ok 5) (g_queue_name goal) of
        None \<Rightarrow> (ToolError ''Failed to create work queue'', st)
      | Some wq \<Rightarrow>
     (case work_queue_enqueue (below ok 6) now uuid wq (a_description action) work 3 (st_items st) of
        (None, items) \<Rightarrow> (ToolError ''Failed to enqueue work item'', st\<lparr>st_items := items\<rparr>)
      | (Some work_item_id, items) \<Rightarrow>
     if \<not> de_exe_path env
     then (ToolError ''Failed to get executable path'', st\<lparr>st_items := snd (work_queue_remove (below ok 7) wq work_item_id items)\<rparr>)
     else (case de_spawn env of
        None \<Rightarrow> (ToolError ''Failed to spawn worker'', st\<lparr>st_items := snd (work_queue_remove (below ok 7) wq work_item_id items)\<rparr>)
      | Some subagent_id \<Rightarrow>
          (let rows1 = snd (action_store_update_status (below ok 8) now action_id ACTION_STATUS_RUNNING None rows);
               rows2 = snd (action_store_update_work_item (below ok 9) now action_id work_item_id rows1)
           in (ToolSuccess (Dispatched action_id subagent_id work_item_id),
               st\<lparr>st_actions := Some rows2, st_items := items\<rparr>)))))))
      | _ \<Rightarrow> (ToolError ''Stores not available'', st)))"

text \<open>The world after an assertion; the members of an assertion that are not true or false are left out.\<close>

definition assert_item :: "'j cjson \<Rightarrow> 'j cjson_edit \<Rightarrow> 'j \<Rightarrow> 'j \<Rightarrow> 'j" where
  "assert_item js ed item world_state =
     (case cJSON_string js item of
        Some k \<Rightarrow>
          if cJSON_IsBool js item
          then cJSON_AddBoolToObject ed k (cJSON_IsTrue js item) (cJSON_DeleteItemFromObject ed k world_state)
          else world_state
      | None \<Rightarrow> world_state)"

definition updated_world :: "'j cjson \<Rightarrow> 'j cjson_edit \<Rightarrow> 'j \<Rightarrow> string option \<Rightarrow> 'j" where
  "updated_world js ed assertions world_state_json =
     fold (assert_item js ed) (cJSON_elements js assertions)
       (case parse_text js world_state_json of Some w \<Rightarrow> w | None \<Rightarrow> cJSON_CreateObject ed)"

definition execute_goap_update_world_state ::
    "sites \<Rightarrow> 'j cjson \<Rightarrow> 'j cjson_edit \<Rightarrow> int \<Rightarrow> ToolCall \<Rightarrow> stores \<Rightarrow> goap_answer tool_answer \<times> stores" where
  "execute_goap_update_world_state ok js ed now tc st =
     (case param ok 0 tc ''goal_id'' of
        None \<Rightarrow> (ToolError ''Missing required parameter: goal_id'', st)
      | Some goal_id \<Rightarrow>
     (case parse_args js (Some tc) of
        None \<Rightarrow> (ToolError ''Invalid JSON arguments'', st)
      | Some args \<Rightarrow>
     (case cJSON_GetObjectItem js args ''assertions'' of
        None \<Rightarrow> (ToolError ''Missing required parameter: assertions (object)'', st)
      | Some assertions \<Rightarrow>
     if \<not> cJSON_IsObject js assertions then (ToolError ''Missing required parameter: assertions (object)'', st)
     else (case st_goals st of
        None \<Rightarrow> (ToolError ''Goal store not available'', st)
      | Some rows \<Rightarrow>
     (case goal_store_get (below ok 1) goal_id rows of
        None \<Rightarrow> (ToolError ''Goal not found'', st)
      | Some goal \<Rightarrow>
     (let new_ws = cJSON_PrintUnformatted ed (updated_world js ed assertions (g_world_state goal));
          (rc, rows1) = goal_store_update_world_state (below ok 2) now goal_id new_ws rows
      in if rc \<noteq> 0 then (ToolError ''Failed to update world state'', st\<lparr>st_goals := Some rows1\<rparr>)
         else case jstring js (cJSON_GetObjectItem js args ''summary'') of
                None \<Rightarrow> (ToolSuccess UpdatedWorld, st\<lparr>st_goals := Some rows1\<rparr>)
              | Some summary \<Rightarrow>
                  (case goal_store_update_summary (below ok 3) now goal_id summary rows1 of
                     (rc2, rows2) \<Rightarrow>
                       (if rc2 = 0 then ToolSuccess UpdatedWorld
                        else ToolError ''World state updated but failed to save summary'',
                        st\<lparr>st_goals := Some rows2\<rparr>))))))))"

definition missing_assertions :: "'j cjson \<Rightarrow> Goal \<Rightarrow> string list" where
  "missing_assertions js goal =
     (case goal_items js (g_goal_state goal) of
        None \<Rightarrow> []
      | Some items \<Rightarrow>
          List.map_filter (cJSON_string js)
            (filter (\<lambda>item. \<not> assertion_holds js (parse_text js (g_world_state goal)) item) items))"

definition execute_goap_check_complete :: "sites \<Rightarrow> 'j cjson \<Rightarrow> ToolCall \<Rightarrow> stores \<Rightarrow> goap_answer tool_answer" where
  "execute_goap_check_complete ok js tc st =
     (case param ok 0 tc ''goal_id'' of
        None \<Rightarrow> ToolError ''Missing required parameter: goal_id''
      | Some goal_id \<Rightarrow>
          (case st_goals st of
             None \<Rightarrow> ToolError ''Goal store not available''
           | Some rows \<Rightarrow>
               (case goal_store_get (below ok 1) goal_id rows of
                  None \<Rightarrow> ToolError ''Goal not found''
                | Some goal \<Rightarrow>
                    (let progress = goap_check_progress js (g_goal_state goal) (g_world_state goal)
                     in ToolSuccess (ProgressAnswer progress
                          (if gp_complete progress then [] else missing_assertions js goal))))))"

text \<open>The results of the completed actions, those of the list of identifiers when there is one. A result that
  is too long and cannot be shortened is left out of its entry, here an empty text.\<close>

fun action_results ::
    "sites \<Rightarrow> string list option \<Rightarrow> nat \<Rightarrow> Action list \<Rightarrow> (string \<times> string \<times> string \<times> string \<times> bool) list" where
  "action_results ok ids i [] = []"
| "action_results ok ids i (a # as) =
     (case a_result a of
        Some r \<Rightarrow>
          if a_status a = ACTION_STATUS_COMPLETED \<and> (case ids of None \<Rightarrow> True | Some l \<Rightarrow> List.member l (a_id a))
          then [(a_id a, a_description a, a_role a, or_empty (preview ok i r), length r > MAX_RESULT_PREVIEW)]
          else []
      | None \<Rightarrow> []) @ action_results ok ids (Suc i) as"

definition execute_goap_get_action_results :: "sites \<Rightarrow> 'j cjson \<Rightarrow> ToolCall \<Rightarrow> stores \<Rightarrow> goap_answer tool_answer" where
  "execute_goap_get_action_results ok js tc st =
     (case param ok 0 tc ''goal_id'' of
        None \<Rightarrow> ToolError ''Missing required parameter: goal_id''
      | Some goal_id \<Rightarrow>
          (case st_actions st of
             None \<Rightarrow> ToolError ''Action store not available''
           | Some rows \<Rightarrow>
               (let filter_ids = (case parse_args js (Some tc) of
                      None \<Rightarrow> None
                    | Some args \<Rightarrow>
                        (case cJSON_GetObjectItem js args ''action_ids'' of
                           Some v \<Rightarrow> if cJSON_IsArray js v then Some (string_items js v) else None
                         | None \<Rightarrow> None))
                in ToolSuccess (ResultsAnswer
                     (action_results (below ok 2) filter_ids 0 (action_store_list_by_goal (below ok 1) goal_id rows))))))"

definition execute_goap_save_plan_document :: "sites \<Rightarrow> int \<Rightarrow> ToolCall \<Rightarrow> stores \<Rightarrow> goap_answer tool_answer \<times> stores" where
  "execute_goap_save_plan_document ok now tc st =
     (case (param ok 0 tc ''goal_id'', param ok 1 tc ''plan_document'') of
        (Some goal_id, Some plan_doc) \<Rightarrow>
          (case st_goals st of
             None \<Rightarrow> (ToolError ''Goal store not available'', st)
           | Some rows \<Rightarrow>
               (let (rc, rows') = goal_store_update_plan_document (below ok 2) now goal_id plan_doc rows
                in (if rc = 0 then ToolSuccess (SavedPlan goal_id) else ToolError ''Failed to save plan document'',
                    st\<lparr>st_goals := Some rows'\<rparr>)))
      | _ \<Rightarrow> (ToolError ''Missing required parameters: goal_id, plan_document'', st))"

section \<open>Objects of the JSON library\<close>

text \<open>The members of a value: their names and whether they are true. Names are compared without case except
  where the function says otherwise.\<close>

definition members :: "'j cjson \<Rightarrow> 'j \<Rightarrow> (string option \<times> bool) list" where
  "members js v = map (\<lambda>e. (cJSON_string js e, cJSON_IsTrue js e)) (cJSON_elements js v)"

definition lower :: "string \<Rightarrow> string" where
  "lower = map tolower"

fun remove_member :: "string \<Rightarrow> (string option \<times> bool) list \<Rightarrow> (string option \<times> bool) list" where
  "remove_member k [] = []"
| "remove_member k ((n, b) # ms) = (if map_option lower n = Some (lower k) then ms else (n, b) # remove_member k ms)"

text \<open>What the functions do with an object: an item is found by its name, the first one is removed and a new
  one added at the end, and a text that was printed is read back as the same members.\<close>

definition json_objects :: "'j cjson \<Rightarrow> 'j cjson_edit \<Rightarrow> bool" where
  "json_objects js ed \<longleftrightarrow>
     (\<forall>v k. cJSON_GetObjectItem js v k =
        find (\<lambda>e. map_option lower (cJSON_string js e) = Some (lower k)) (cJSON_elements js v)) \<and>
     (\<forall>v k. cJSON_GetObjectItemCaseSensitive ed v k = find (\<lambda>e. cJSON_string js e = Some k) (cJSON_elements js v)) \<and>
     (\<forall>v k. cJSON_IsObject js v \<longrightarrow> cJSON_IsObject js (cJSON_DeleteItemFromObject ed k v) \<and>
        members js (cJSON_DeleteItemFromObject ed k v) = remove_member k (members js v)) \<and>
     (\<forall>v k b. cJSON_IsObject js v \<longrightarrow> cJSON_IsObject js (cJSON_AddBoolToObject ed k b v) \<and>
        members js (cJSON_AddBoolToObject ed k b v) = members js v @ [(Some k, b)]) \<and>
     cJSON_IsObject js (cJSON_CreateObject ed) \<and> members js (cJSON_CreateObject ed) = [] \<and>
     (\<forall>v t. cJSON_IsObject js v \<and> cJSON_PrintUnformatted ed v = Some t \<longrightarrow>
        (\<exists>w. cJSON_Parse js t = Some w \<and> cJSON_IsObject js w \<and> members js w = members js v))"

section \<open>The world as a map\<close>

text \<open>The abstract world: the truth of a name in lower case. No two members of a world that the tool keeps
  have the same name.\<close>

definition named :: "(string option \<times> bool) list \<Rightarrow> (string \<times> bool) list" where
  "named ms = List.map_filter (\<lambda>(n, b). map_option (\<lambda>x. (lower x, b)) n) ms"

definition world :: "'j cjson \<Rightarrow> string option \<Rightarrow> string \<rightharpoonup> bool" where
  "world js text = (case parse_text js text of None \<Rightarrow> Map.empty | Some v \<Rightarrow> map_of (named (members js v)))"

definition world_object :: "'j cjson \<Rightarrow> 'j \<Rightarrow> bool" where
  "world_object js v \<longleftrightarrow> cJSON_IsObject js v \<and> distinct (map fst (named (members js v)))"

definition world_ok :: "'j cjson \<Rightarrow> string option \<Rightarrow> bool" where
  "world_ok js text \<longleftrightarrow> (case parse_text js text of None \<Rightarrow> True | Some v \<Rightarrow> world_object js v)"

text \<open>The names an update gives a truth, in the order in which they are given.\<close>

definition asserted :: "'j cjson \<Rightarrow> 'j list \<Rightarrow> (string \<times> bool) list" where
  "asserted js items = named (map (\<lambda>e. (cJSON_string js e, cJSON_IsTrue js e)) (filter (cJSON_IsBool js) items))"

lemma named_simps [simp]:
  "named [] = []" "named ((None, b) # ms) = named ms" "named ((Some n, b) # ms) = (lower n, b) # named ms"
  "named (ms @ ns) = named ms @ named ns"
  by (simp_all add: named_def List.map_filter_def)

lemma remove_member_named:
  assumes "distinct (map fst (named ms))"
  shows "named (remove_member k ms) = filter (\<lambda>(n, _). n \<noteq> lower k) (named ms)"
  using assms
proof (induction ms)
  case (Cons m ms)
  obtain n b where m: "m = (n, b)" by (cases m)
  show ?case
  proof (cases n)
    case None
    with Cons m show ?thesis by simp
  next
    case (Some x)
    show ?thesis
    proof (cases "lower x = lower k")
      case True
      with Cons.prems have "filter (\<lambda>(n, _). n \<noteq> lower k) (named ms) = named ms"
        using m Some by (force intro: filter_True)
      with True m Some show ?thesis by simp
    next
      case False
      with Cons m Some show ?thesis by simp
    qed
  qed
qed simp

lemma map_of_filter_ne: "map_of (filter (\<lambda>(n, _). n \<noteq> k) xs) = (map_of xs)(k := None)"
  by (induction xs) (auto simp: fun_eq_iff)

lemma assert_named:
  assumes "distinct (map fst (named ms))"
  shows "distinct (map fst (named (remove_member k ms @ [(Some k, b)])))"
    and "map_of (named (remove_member k ms @ [(Some k, b)])) = (map_of (named ms))(lower k \<mapsto> b)"
proof -
  have "distinct (map fst (filter (\<lambda>(n, _). n \<noteq> lower k) (named ms)))"
    using assms by (simp add: distinct_map_filter)
  then show "distinct (map fst (named (remove_member k ms @ [(Some k, b)])))"
    by (auto simp: remove_member_named[OF assms])
  show "map_of (named (remove_member k ms @ [(Some k, b)])) = (map_of (named ms))(lower k \<mapsto> b)"
    by (simp add: remove_member_named[OF assms] map_of_filter_ne map_add_def fun_eq_iff split: option.split)
qed

lemma assert_item_world:
  assumes "json_objects js ed" and "world_object js v"
  shows "world_object js (assert_item js ed item v) \<and>
    map_of (named (members js (assert_item js ed item v))) = map_of (named (members js v)) ++ map_of (rev (asserted js [item]))"
  using assms assert_named[of "members js v"]
  by (auto simp: assert_item_def asserted_def world_object_def json_objects_def split: option.split)

lemma asserted_Cons: "asserted js (item # items) = asserted js [item] @ asserted js items"
  by (cases "cJSON_string js item") (simp_all add: asserted_def)

lemma assert_items_world:
  assumes "json_objects js ed" and "world_object js v"
  shows "world_object js (fold (assert_item js ed) items v) \<and>
    map_of (named (members js (fold (assert_item js ed) items v))) = map_of (named (members js v)) ++ map_of (rev (asserted js items))"
  using assms(2)
proof (induction items arbitrary: v)
  case (Cons item items)
  have "world_object js (assert_item js ed item v)"
    using assert_item_world[OF assms(1) Cons.prems] by blast
  from Cons.IH[OF this] assert_item_world[OF assms(1) Cons.prems, of item] show ?case
    by (simp add: asserted_Cons[of js item items])
qed (simp add: asserted_def)

lemma update_world_object:
  assumes "json_objects js ed" and "world_ok js text"
  shows "world_object js (updated_world js ed assertions text)"
    and "map_of (named (members js (updated_world js ed assertions text))) =
      world js text ++ map_of (rev (asserted js (cJSON_elements js assertions)))"
proof -
  define v where "v = (case parse_text js text of Some w \<Rightarrow> w | None \<Rightarrow> cJSON_CreateObject ed)"
  have "cJSON_IsObject js (cJSON_CreateObject ed)" "members js (cJSON_CreateObject ed) = []"
    using assms(1) by (auto simp: json_objects_def)
  with assms(2) have v: "world_object js v" "map_of (named (members js v)) = world js text"
    by (auto simp: v_def world_ok_def world_def world_object_def split: option.splits)
  then show "world_object js (updated_world js ed assertions text)"
    and "map_of (named (members js (updated_world js ed assertions text))) =
      world js text ++ map_of (rev (asserted js (cJSON_elements js assertions)))"
    using assert_items_world[OF assms(1) v(1), of "cJSON_elements js assertions"]
    by (auto simp: updated_world_def v_def)
qed

text \<open>Looking up a name in an object is looking it up in the map.\<close>

lemma lookup_named:
  assumes "json_objects js ed"
  shows "map_option (cJSON_IsTrue js) (cJSON_GetObjectItem js v k) = map_of (named (members js v)) (lower k)"
proof -
  have "map_option (cJSON_IsTrue js) (find (\<lambda>e. map_option lower (cJSON_string js e) = Some (lower k)) es) =
      map_of (named (map (\<lambda>e. (cJSON_string js e, cJSON_IsTrue js e)) es)) (lower k)" for es
  proof (induction es)
    case (Cons e es)
    then show ?case by (cases "cJSON_string js e") auto
  qed simp
  moreover have "cJSON_GetObjectItem js v k =
      find (\<lambda>e. map_option lower (cJSON_string js e) = Some (lower k)) (cJSON_elements js v)"
    using assms by (simp add: json_objects_def)
  ultimately show ?thesis by (simp add: members_def)
qed

lemma assertion_holds_world:
  assumes "json_objects js ed"
  shows "assertion_holds js (parse_text js text) item \<longleftrightarrow>
    (\<exists>k. cJSON_string js item = Some k \<and> world js text (lower k) = Some True)"
proof (cases "parse_text js text")
  case (Some w)
  have "jtest (cJSON_IsTrue js) (cJSON_GetObjectItem js w k) \<longleftrightarrow> world js text (lower k) = Some True" for k
    using lookup_named[OF assms, of w k] Some
    by (cases "cJSON_GetObjectItem js w k") (auto simp: jtest_def world_def)
  with Some show ?thesis by (auto simp: assertion_holds_def split: option.split)
qed (simp add: assertion_holds_def world_def)

text \<open>A goal is complete when it has assertions and all of them are true in the world.\<close>

lemma progress_complete:
  assumes "json_objects js ed"
  shows "gp_complete (goap_check_progress js gs text) \<longleftrightarrow>
    (\<exists>items. goal_items js gs = Some items \<and> items \<noteq> [] \<and>
      (\<forall>item \<in> set items. \<exists>k. cJSON_string js item = Some k \<and> world js text (lower k) = Some True))"
proof (cases "goal_items js gs")
  case (Some items)
  have "length (filter P xs) = length xs \<longleftrightarrow> (\<forall>x \<in> set xs. P x)" for P and xs :: "'a list"
    by (metis filter_id_conv filter_True length_filter_less less_irrefl)
  with Some show ?thesis
    by (simp add: goap_check_progress_def Let_def assertion_holds_world[OF assms])
qed (simp add: goap_check_progress_def)

text \<open>What a successful update of the world does to the table.\<close>

lemma goal_update_lookup:
  assumes "goal_update ok f i rows = (0, rows')" and "keeps g_id f"
  shows "find (\<lambda>r. g_id r = j) rows' = (if j = i then map_option f (find (\<lambda>r. g_id r = j) rows) else find (\<lambda>r. g_id r = j) rows)"
  using assms goals.update_lookup[OF assms(2)]
  by (auto simp: goal_update_def sqlite_dal_exec_p_def Let_def split: if_splits)

lemma update_world_Success:
  assumes "execute_goap_update_world_state ok js ed now tc st = (ToolSuccess ans, st')"
    and "st_goals st = Some rows" and "param ok 0 tc ''goal_id'' = Some i" and "find (\<lambda>r. g_id r = i) rows = Some r"
  obtains args assertions rows' r' t where "parse_args js (Some tc) = Some args"
    and "cJSON_GetObjectItem js args ''assertions'' = Some assertions"
    and "st' = st\<lparr>st_goals := Some rows'\<rparr>" and "find (\<lambda>r. g_id r = i) rows' = Some r'"
    and "\<forall>j. j \<noteq> i \<longrightarrow> find (\<lambda>r. g_id r = j) rows' = find (\<lambda>r. g_id r = j) rows"
    and "g_goal_state r' = g_goal_state r" and "g_status r' = g_status r" and "g_world_state r' = Some t"
    and "cJSON_PrintUnformatted ed (updated_world js ed assertions (g_world_state r)) = Some t"
proof -
  obtain args assertions goal where a: "parse_args js (Some tc) = Some args"
      "cJSON_GetObjectItem js args ''assertions'' = Some assertions" "cJSON_IsObject js assertions"
      and g: "goal_store_get (below ok 1) i rows = Some goal"
    using assms(1-3) by (auto simp: execute_goap_update_world_state_def split: option.splits if_splits)
  have ws: "g_world_state goal = g_world_state r"
    using g assms(4) by (auto elim!: goal_store_get_Some simp: goal_of_def)
  define new_ws where "new_ws = cJSON_PrintUnformatted ed (updated_world js ed assertions (g_world_state r))"
  obtain rc rows1 where u: "goal_store_update_world_state (below ok 2) now i new_ws rows = (rc, rows1)"
    by (cases "goal_store_update_world_state (below ok 2) now i new_ws rows")
  have rc: "rc = 0"
    using assms(1) a g ws u
    by (simp add: execute_goap_update_world_state_def assms(2,3) Let_def new_ws_def split: if_splits)
  then obtain t where t: "new_ws = Some t"
    using u by (cases new_ws) (simp_all add: goal_store_update_world_state_def)
  have keep1: "keeps g_id (\<lambda>r::goal_row. r\<lparr>g_world_state := Some t, g_updated_at := now\<rparr>)" by (simp add: keeps_def)
  have l1: "find (\<lambda>r. g_id r = j) rows1 = (if j = i then Some (r\<lparr>g_world_state := Some t, g_updated_at := now\<rparr>)
      else find (\<lambda>r. g_id r = j) rows)" for j
    using goal_update_lookup[OF _ keep1, of "below ok 2" i rows rows1 j] u t rc assms(4)
    by (auto simp: goal_store_update_world_state_def)
  show thesis
  proof (cases "jstring js (cJSON_GetObjectItem js args ''summary'')")
    case None
    then have "st' = st\<lparr>st_goals := Some rows1\<rparr>"
      using assms(1) a g ws u rc by (simp add: execute_goap_update_world_state_def assms(2,3) Let_def new_ws_def)
    from that[OF a(1,2) this] l1 t show thesis by (simp add: new_ws_def)
  next
    case (Some s)
    obtain rows2 where "goal_store_update_summary (below ok 3) now i s rows1 = (0, rows2)" and s': "st' = st\<lparr>st_goals := Some rows2\<rparr>"
      using assms(1) a g ws u rc Some
      by (auto simp: execute_goap_update_world_state_def assms(2,3) Let_def new_ws_def split: prod.splits if_splits)
    then have "find (\<lambda>r. g_id r = j) rows2 = (if j = i
        then Some (r\<lparr>g_world_state := Some t, g_summary := Some s, g_updated_at := now\<rparr>) else find (\<lambda>r. g_id r = j) rows)" for j
      using goal_update_lookup[of "below ok 3" _ i rows1 rows2 j] l1
      by (auto simp: goal_store_update_summary_def keeps_def)
    from that[OF a(1,2) s'] this t show thesis by (simp add: new_ws_def)
  qed
qed

text \<open>C15. The world is a map that assertions update. When the tool reports that it updated the world of a goal,
  then the new world maps every name that was asserted to the truth asserted last, without regard to
  case, and all other names to what they were; the texts of the goal still hold an object without two
  members of the same name; no other goal changes; and the goal counts as complete exactly if it has
  assertions and the new world makes all of them true.\<close>

theorem world_state_refines_map:
  assumes "json_objects js ed"
    and "execute_goap_update_world_state ok js ed now tc st = (ToolSuccess ans, st')"
    and "st_goals st = Some rows" and "param ok 0 tc ''goal_id'' = Some i" and "find (\<lambda>r. g_id r = i) rows = Some r"
    and "world_ok js (g_world_state r)"
  shows "\<exists>args assertions rows' r'. parse_args js (Some tc) = Some args \<and>
    cJSON_GetObjectItem js args ''assertions'' = Some assertions \<and>
    st' = st\<lparr>st_goals := Some rows'\<rparr> \<and> find (\<lambda>r. g_id r = i) rows' = Some r' \<and>
    (\<forall>j. j \<noteq> i \<longrightarrow> find (\<lambda>r. g_id r = j) rows' = find (\<lambda>r. g_id r = j) rows) \<and>
    world js (g_world_state r') = world js (g_world_state r) ++ map_of (rev (asserted js (cJSON_elements js assertions))) \<and>
    world_ok js (g_world_state r') \<and>
    (gp_complete (goap_check_progress js (g_goal_state r') (g_world_state r')) \<longleftrightarrow>
      (\<exists>items. goal_items js (g_goal_state r) = Some items \<and> items \<noteq> [] \<and>
        (\<forall>item \<in> set items. \<exists>k. cJSON_string js item = Some k \<and> world js (g_world_state r') (lower k) = Some True)))"
proof -
  obtain args assertions rows' r' t where u: "parse_args js (Some tc) = Some args"
      "cJSON_GetObjectItem js args ''assertions'' = Some assertions"
      "st' = st\<lparr>st_goals := Some rows'\<rparr>" "find (\<lambda>r. g_id r = i) rows' = Some r'"
      "\<forall>j. j \<noteq> i \<longrightarrow> find (\<lambda>r. g_id r = j) rows' = find (\<lambda>r. g_id r = j) rows"
      "g_goal_state r' = g_goal_state r" "g_world_state r' = Some t"
      "cJSON_PrintUnformatted ed (updated_world js ed assertions (g_world_state r)) = Some t"
    using update_world_Success[OF assms(2-5)] by metis
  note w = update_world_object[OF assms(1,6), of assertions]
  obtain v where "cJSON_Parse js t = Some v" "cJSON_IsObject js v"
      "members js v = members js (updated_world js ed assertions (g_world_state r))"
    using assms(1) w(1) u(8) unfolding json_objects_def world_object_def by metis
  with w u(7) have "world js (g_world_state r') = world js (g_world_state r) ++ map_of (rev (asserted js (cJSON_elements js assertions)))"
      "world_ok js (g_world_state r')"
    by (simp_all add: world_def world_ok_def world_object_def parse_text_def)
  with u progress_complete[OF assms(1), of "g_goal_state r'"] show ?thesis by auto
qed

section \<open>Handing an action to a worker\<close>

definition running_count :: "string \<Rightarrow> action_row list \<Rightarrow> int" where
  "running_count goal_id rows = sql_count (\<lambda>r. ar_goal_id r = goal_id \<and> ar_status r = ACTION_STATUS_RUNNING) rows"

text \<open>Identifiers fit their fields and are unique.\<close>

definition action_table :: "action_row list \<Rightarrow> bool" where
  "action_table rows \<longleftrightarrow> distinct (map ar_id rows) \<and>
     (\<forall>r \<in> set rows. short_id (ar_id r) \<and> short_id (ar_goal_id r) \<and> short_id (or_empty (ar_work_item r)))"

definition dispatched_row :: "int \<Rightarrow> string \<Rightarrow> action_row \<Rightarrow> action_row" where
  "dispatched_row now work_item_id r =
     r\<lparr>ar_status := ACTION_STATUS_RUNNING, ar_result := None, ar_work_item := Some work_item_id, ar_updated_at := now\<rparr>"

lemma sql_count_update:
  assumes "distinct (map key rows)" and "r \<in> set rows" and "\<not> P r" and "P (f r)"
  shows "sql_count P (sql_update (\<lambda>x. key x = key r) f rows) = sql_count P rows + 1"
  using assms
proof (induction rows)
  case (Cons x rows)
  show ?case
  proof (cases "key x = key r")
    case True
    then have "x = r" and "\<forall>y \<in> set rows. key y \<noteq> key r"
      using Cons.prems by (auto simp: image_iff)
    moreover from this have "sql_update (\<lambda>x. key x = key r) f rows = rows"
      by (simp add: sql_update_def map_idI)
    ultimately show ?thesis
      using Cons.prems by (simp add: sql_count_def sql_update_def)
  next
    case False
    then show ?thesis
      using Cons by (auto simp: sql_count_def sql_update_def)
  qed
qed simp

lemma dispatch_updates:
  assumes "ok [8, 0]" "ok [8, 1]" "ok [9, 0]" "ok [9, 1]"
  shows "snd (action_store_update_work_item (below ok 9) now i w
      (snd (action_store_update_status (below ok 8) now i ACTION_STATUS_RUNNING None rows))) =
    sql_update (\<lambda>r. ar_id r = i) (dispatched_row now w) rows"
  using assms
  by (auto simp: action_store_update_work_item_def action_store_update_status_def sqlite_dal_exec_p_def below_def
      sql_update_def dispatched_row_def)

text \<open>The guards that a dispatch has passed when it reports success.\<close>

lemma dispatch_Success:
  assumes "execute_goap_dispatch_action ok js env now uuid tc st = (ToolSuccess ans, st')"
    and "st_actions st = Some rows"
  obtains action_id r action goals goal subagent_id work_item_id items where "param ok 0 tc ''action_id'' = Some action_id"
    and "find (\<lambda>r. ar_id r = action_id) rows = Some r" and "action = action_of r"
    and "st_goals st = Some goals" and "goal_store_get (below ok 3) (a_goal_id action) goals = Some goal"
    and "ans = Dispatched action_id subagent_id work_item_id" and "\<not> ar_is_compound r" and "ar_status r = ACTION_STATUS_PENDING"
    and "action_store_count_by_status (below ok 2) (a_goal_id action) ACTION_STATUS_RUNNING rows < de_max_workers env"
    and "work_queue_create (below ok 5) (g_queue_name goal) = Some (g_queue_name goal)"
    and "work_queue_enqueue (below ok 6) now uuid (g_queue_name goal) (a_description action)
      (de_print env (build_work_context (below ok 4) js goal rows action)) 3 (st_items st) = (Some work_item_id, items)"
    and "st' = st\<lparr>st_actions := Some (snd (action_store_update_work_item (below ok 9) now action_id work_item_id
      (snd (action_store_update_status (below ok 8) now action_id ACTION_STATUS_RUNNING None rows)))), st_items := items\<rparr>"
proof -
  obtain action_id goals action where a: "param ok 0 tc ''action_id'' = Some action_id" "st_goals st = Some goals"
      "action_store_get (below ok 1) action_id rows = Some action"
      "\<not> a_is_compound action" "a_status action = ACTION_STATUS_PENDING"
      "action_store_count_by_status (below ok 2) (a_goal_id action) ACTION_STATUS_RUNNING rows < de_max_workers env"
    using assms by (auto simp: execute_goap_dispatch_action_def split: option.splits if_splits)
  obtain goal wq where g: "goal_store_get (below ok 3) (a_goal_id action) goals = Some goal"
      "work_queue_create (below ok 5) (g_queue_name goal) = Some wq"
    using assms a by (auto simp: execute_goap_dispatch_action_def Let_def split: option.splits)
  obtain w items where e: "work_queue_enqueue (below ok 6) now uuid wq (a_description action)
      (de_print env (build_work_context (below ok 4) js goal rows action)) 3 (st_items st) = (Some w, items)"
    using assms a g by (auto simp: execute_goap_dispatch_action_def Let_def split: option.splits prod.splits)
  obtain s where s: "de_exe_path env" "de_spawn env = Some s"
    using assms a g e by (auto simp: execute_goap_dispatch_action_def Let_def split: option.splits if_splits)
  have wq: "wq = g_queue_name goal"
    using g(2) by (auto simp: work_queue_create_def split: if_splits)
  obtain r where r: "find (\<lambda>r. ar_id r = action_id) rows = Some r" "action = action_of r"
    using a(3) by (rule action_store_get_Some)
  have "ans = Dispatched action_id s w" and "st' = st\<lparr>st_actions := Some (snd (action_store_update_work_item (below ok 9) now action_id w
      (snd (action_store_update_status (below ok 8) now action_id ACTION_STATUS_RUNNING None rows)))), st_items := items\<rparr>"
    using assms a g e s by (auto simp: execute_goap_dispatch_action_def Let_def)
  from that[OF a(1) r(1,2) a(2) g(1) this(1) _ _ a(6) _ _ this(2)] a(4,5) g e wq r(2) show thesis
    by (simp add: action_of_def)
qed


text \<open>A work item that could be enqueued and is removed again leaves the queues as they were.\<close>

lemma enqueue_remove:
  assumes "work_queue_enqueue ok now (Some uuid) queue task ctx n rows = (Some w, items)" and "length uuid \<le> 39"
    and "ok' [0]" and "ok' [1]"
  shows "snd (work_queue_remove ok' queue w items) = rows"
proof -
  have "uuid \<notin> wi_id ` set rows"
    using assms(1) by (auto simp: work_queue_enqueue_def Let_def split: if_splits)
  then have "filter (\<lambda>r. \<not> in_queue queue uuid r) rows = rows"
    by (auto simp: in_queue_def intro: filter_True)
  with assms show ?thesis
    by (auto simp: work_queue_enqueue_def work_queue_remove_def in_queue_def Let_def split: if_splits)
qed

lemma enqueue_None: "work_queue_enqueue ok now uuid queue task ctx n rows = (None, items) \<Longrightarrow> items = rows"
  by (auto simp: work_queue_enqueue_def Let_def split: option.splits if_splits)

text \<open>A dispatch that reports an error has changed nothing.\<close>

lemma dispatch_error_unchanged:
  assumes "execute_goap_dispatch_action ok js env now (Some uuid) tc st = (ToolError e, st')"
    and "length uuid \<le> 39" and "ok [7, 0]" and "ok [7, 1]"
  shows "st' = st"
proof -
  have rm: "snd (work_queue_remove (below ok 7) queue w items) = st_items st"
    if "work_queue_enqueue ok' now (Some uuid) queue task ctx n (st_items st) = (Some w, items)" for ok' queue task ctx n w items
    using enqueue_remove[OF that assms(2), of "below ok 7"] assms(3,4) by (simp add: below_def)
  have none: "items = st_items st"
    if "work_queue_enqueue ok' now (Some uuid) queue task ctx n (st_items st) = (None, items)" for ok' queue task ctx n items
    using enqueue_None that .
  show ?thesis
    using assms(1)
    by (auto simp: execute_goap_dispatch_action_def Let_def dest: rm none split: option.splits prod.splits if_splits)
qed

section \<open>An example\<close>

text \<open>A JSON library on the values of \<open>Tool_Args\<close> whose parser and printer are a table of texts.\<close>

definition object_fields :: "jvalue \<Rightarrow> (string \<times> jvalue) list" where
  "object_fields v = (case plain v of VObject fs \<Rightarrow> fs | _ \<Rightarrow> [])"

fun remove_field :: "string \<Rightarrow> (string \<times> jvalue) list \<Rightarrow> (string \<times> jvalue) list" where
  "remove_field k [] = []"
| "remove_field k ((n, x) # fs) = (if lower n = lower k then fs else (n, x) # remove_field k fs)"

definition object_json :: "(string \<times> jvalue) list \<Rightarrow> jvalue cjson" where
  "object_json t = (table_json t)\<lparr>
     cJSON_GetObjectItem := (\<lambda>v k. find (\<lambda>e. map_option lower (cJSON_string (table_json t) e) = Some (lower k))
       (cJSON_elements (table_json t) v))\<rparr>"

definition object_edit :: "(string \<times> jvalue) list \<Rightarrow> jvalue cjson_edit" where
  "object_edit t = \<lparr>
     cJSON_GetObjectItemCaseSensitive = (\<lambda>v k. find (\<lambda>e. cJSON_string (table_json t) e = Some k) (cJSON_elements (table_json t) v)),
     cJSON_CreateObject = VObject [],
     cJSON_DeleteItemFromObject = (\<lambda>k v. VObject (remove_field k (object_fields v))),
     cJSON_AddBoolToObject = (\<lambda>k b v. VObject (object_fields v @ [(k, VBool b)])),
     cJSON_PrintUnformatted = (\<lambda>v. map_option fst (find (\<lambda>(_, x). x = plain v) t))\<rparr>"

lemma object_members:
  "cJSON_IsObject (object_json t) v \<Longrightarrow> members (object_json t) v = map (\<lambda>(k, x). (Some k, plain x = VBool True)) (object_fields v)"
  by (auto simp: members_def object_json_def table_json_def object_fields_def split: jvalue.splits)

lemma remove_field_members:
  "map (\<lambda>(k, x). (Some k, plain x = VBool True)) (remove_field k fs) = remove_member k (map (\<lambda>(k, x). (Some k, plain x = VBool True)) fs)"
  by (induction fs) auto

lemma plain_idem [simp]: "plain (plain v) = plain v"
  by (induction v) simp_all

lemma object_json_objects:
  assumes "distinct (map fst t)"
  shows "json_objects (object_json t) (object_edit t)"
proof -
  have obj: "cJSON_IsObject (object_json t) v \<longleftrightarrow> (\<exists>fs. plain v = VObject fs)" for v
    by (simp add: object_json_def table_json_def split: jvalue.splits)
  have same: "members (object_json t) (plain v) = members (object_json t) v" for v
    by (simp add: members_def object_json_def table_json_def)
  have "\<exists>w. cJSON_Parse (object_json t) s = Some w \<and> cJSON_IsObject (object_json t) w \<and> members (object_json t) w = members (object_json t) v"
    if "cJSON_IsObject (object_json t) v" and "cJSON_PrintUnformatted (object_edit t) v = Some s" for v s
  proof -
    have "(s, plain v) \<in> set t"
      using that(2) by (auto simp: object_edit_def find_Some_iff in_set_conv_nth)
    then have "cJSON_Parse (object_json t) s = Some (plain v)"
      using assms by (simp add: object_json_def table_json_def)
    with that(1) same show ?thesis by (auto simp: obj)
  qed
  moreover have "cJSON_IsObject (object_json t) (VObject fs)" for fs
    by (simp add: obj)
  ultimately show ?thesis
    unfolding json_objects_def
    by (auto simp: object_members remove_field_members object_edit_def object_fields_def)
      (simp_all add: object_json_def)
qed

definition sample_update :: string where
  "sample_update = ''{'' @ quoted ''goal_id'' @ '':'' @ quoted ''g1'' @ '','' @ quoted ''assertions'' @ '':{'' @ quoted ''Routes'' @ '':true}}''"

definition sample_done :: string where
  "sample_done = ''{'' @ quoted ''Routes'' @ '':true}''"

definition sample_open :: string where
  "sample_open = ''{'' @ quoted ''routes'' @ '':false}''"

definition sample_needs :: string where
  "sample_needs = ''['' @ quoted ''routes'' @ '']''"

definition sample_texts :: "(string \<times> jvalue) list" where
  "sample_texts =
     [(sample_update, VObject [(''goal_id'', VString ''g1''), (''assertions'', VObject [(''Routes'', VBool True)])]),
      (sample_done, VObject [(''Routes'', VBool True)]), (sample_open, VObject [(''routes'', VBool False)]),
      (sample_needs, VArray [VString ''routes''])]"

abbreviation "goap_js \<equiv> object_json sample_texts"
abbreviation "goap_ed \<equiv> object_edit sample_texts"

definition sample_goal :: "string \<Rightarrow> goal_row" where
  "sample_goal ws = \<lparr>g_id = ''g1'', g_name = ''api'', g_description = None, g_goal_state = Some sample_done,
     g_world_state = Some ws, g_summary = None, g_plan_document = None, g_status = GOAL_STATUS_ACTIVE,
     g_queue_name = ''q'', g_supervisor_pid = 0, g_supervisor_started_at = 0, g_created_at = 1, g_updated_at = 5\<rparr>"

definition sample_action :: action_row where
  "sample_action = \<lparr>ar_id = ''a1'', ar_goal_id = ''g1'', ar_parent = None, ar_work_item = None, ar_description = ''build'',
     ar_preconditions = sample_needs, ar_effects = ''[]'', ar_is_compound = False, ar_status = ACTION_STATUS_PENDING,
     ar_role = ''implementation'', ar_result = None, ar_attempt_count = 0, ar_created_at = 2, ar_updated_at = 2\<rparr>"

definition sample_stores :: "string \<Rightarrow> stores" where
  "sample_stores ws = \<lparr>st_goals = Some [sample_goal ws], st_actions = Some [sample_action], st_items = []\<rparr>"

definition call_of :: "string \<Rightarrow> ToolCall" where
  "call_of args = \<lparr>tc_id = Some ''c'', tc_name = Some ''goap'', tc_arguments = Some args\<rparr>"

lemma sample_texts_objects: "json_objects goap_js goap_ed"
  by (rule object_json_objects)
    (simp add: sample_texts_def sample_update_def sample_done_def sample_open_def sample_needs_def quoted_def QUOTE_def)

lemma sample_param:
  "param all_ok 0 (call_of sample_update) ''goal_id'' = Some ''g1''"
  by code_simp

lemma sample_update_runs:
  "execute_goap_update_world_state all_ok goap_js goap_ed 5 (call_of sample_update) (sample_stores sample_open) =
     (ToolSuccess UpdatedWorld, sample_stores sample_done)"
  by code_simp

theorem world_state_refines_map_witness:
  "world goap_js (Some sample_done) (lower ''ROUTES'') = Some True \<and>
   gp_complete (goap_check_progress goap_js (Some sample_done) (Some sample_done))"
proof -
  let ?r = "sample_goal sample_open" and ?s = "sample_goal sample_done"
  have st: "st_goals (sample_stores sample_open) = Some [?r]" "st_goals (sample_stores sample_done) = Some [?s]"
      "g_id ?s = ''g1''" "g_world_state ?s = Some sample_done" "g_goal_state ?s = Some sample_done" "g_goal_state ?r = Some sample_done"
    by (simp_all add: sample_stores_def sample_goal_def)
  have find: "find (\<lambda>r. g_id r = ''g1'') [?r] = Some ?r"
    by (simp add: sample_goal_def)
  have ok: "world_ok goap_js (g_world_state ?r)"
    by code_simp
  have items: "goal_items goap_js (Some sample_done) = Some [VItem ''Routes'' (VBool True)]"
      "cJSON_string goap_js (VItem ''Routes'' (VBool True)) = Some ''Routes''"
      "world goap_js (Some sample_done) (lower ''Routes'') = Some True" "lower ''ROUTES'' = lower ''Routes''"
    by code_simp+
  obtain rows' r' where u: "sample_stores sample_done = (sample_stores sample_open)\<lparr>st_goals := Some rows'\<rparr>"
      "find (\<lambda>r. g_id r = ''g1'') rows' = Some r'"
      "gp_complete (goap_check_progress goap_js (g_goal_state r') (g_world_state r')) \<longleftrightarrow>
        (\<exists>items. goal_items goap_js (g_goal_state ?r) = Some items \<and> items \<noteq> [] \<and>
          (\<forall>item \<in> set items. \<exists>k. cJSON_string goap_js item = Some k \<and> world goap_js (g_world_state r') (lower k) = Some True))"
    using world_state_refines_map[OF sample_texts_objects sample_update_runs st(1) sample_param find ok] by blast
  from u(1) st(2) have "rows' = [?s]" by (metis option.inject stores.select_convs(1) stores.surjective stores.update_convs(1))
  with u(2) st(3) have "r' = ?s" by simp
  with u(3) st items show ?thesis by simp
qed

section \<open>Preconditions\<close>

definition sample_dispatch :: string where
  "sample_dispatch = ''{'' @ quoted ''action_id'' @ '':'' @ quoted ''a1'' @ ''}''"

definition dispatch_sample :: "jvalue dispatch_env" where
  "dispatch_sample = \<lparr>de_max_workers = 3, de_exe_path = True, de_spawn = Some ''s1'', de_print = (\<lambda>_. None)\<rparr>"

definition sample_dispatched :: stores where
  "sample_dispatched = snd (execute_goap_dispatch_action all_ok goap_js dispatch_sample 7 (Some ''w1'') (call_of sample_dispatch) (sample_stores sample_open))"

lemma sample_dispatch_runs:
  "execute_goap_dispatch_action all_ok goap_js dispatch_sample 7 (Some ''w1'') (call_of sample_dispatch) (sample_stores sample_open) =
     (ToolSuccess (Dispatched ''a1'' ''s1'' ''w1''), sample_dispatched)"
proof -
  have "fst (execute_goap_dispatch_action all_ok goap_js dispatch_sample 7 (Some ''w1'') (call_of sample_dispatch) (sample_stores sample_open)) =
     ToolSuccess (Dispatched ''a1'' ''s1'' ''w1'')"
    by code_simp
  then show ?thesis by (simp add: sample_dispatched_def prod_eq_iff)
qed


text \<open>The preconditions of an action are not looked at: an action is handed to a worker although what it needs
  is not true in the world.\<close>

lemma dispatch_ignores_preconditions:
  "\<not> goap_preconditions_met goap_js goap_ed (Some (ar_preconditions sample_action)) sample_open"
  "fst (execute_goap_dispatch_action all_ok goap_js dispatch_sample 7 (Some ''w1'') (call_of sample_dispatch) (sample_stores sample_open)) =
     ToolSuccess (Dispatched ''a1'' ''s1'' ''w1'')"
  by code_simp+

text \<open>Names are compared with case in preconditions and without it in the assertions of a goal.\<close>

lemma preconditions_compare_case:
  "gp_complete (goap_check_progress goap_js (Some sample_done) (Some sample_done))"
  "\<not> goap_preconditions_met goap_js goap_ed (Some sample_needs) sample_done"
  "world goap_js (Some sample_done) (lower ''routes'') = Some True"
  by code_simp+

end
