(* ===== verification/Supervisor.thy ===== *)
theory Supervisor
  imports Goap Token_Manager
begin

text \<open>
  The supervisor of a goal, \<^verbatim>\<open>lib/orchestrator/supervisor.c\<close>: the recovery of actions that a crash left
  running, the tests that end a phase, and the loop around the session.

  What the language model does in the session is an argument: a call of \<^verbatim>\<open>session_process_message\<close> or
  \<^verbatim>\<open>session_continue\<close> gives a code and changes the stores in any way, and so do other processes between two
  rounds. A round of the loop is one return of \<^verbatim>\<open>select\<close>; the end of the list of rounds is the signal that
  stops the loop. Approval requests of subagents, which the loop also answers, are those of
  \<open>Subagent_Parent\<close>.
\<close>

section \<open>Recovery\<close>

text \<open>What becomes of a running action: \<open>None\<close> when a worker is at it.\<close>

definition orphan_status ::
    "sites \<Rightarrow> string \<Rightarrow> WorkItem list \<Rightarrow> Action \<Rightarrow> (ActionStatus \<times> string option) option" where
  "orphan_status ok wq items a =
     (if a_work_item_id a = [] then Some (ACTION_STATUS_PENDING, None)
      else case work_queue_get_item ok wq (a_work_item_id a) items of
             None \<Rightarrow> Some (ACTION_STATUS_PENDING, None)
           | Some wi \<Rightarrow>
               (case wi_status wi of
                  WORK_ITEM_COMPLETED \<Rightarrow> Some (ACTION_STATUS_COMPLETED, wi_result wi)
                | WORK_ITEM_FAILED \<Rightarrow> Some (ACTION_STATUS_FAILED, wi_error wi)
                | WORK_ITEM_ASSIGNED \<Rightarrow> None
                | WORK_ITEM_PENDING \<Rightarrow> Some (ACTION_STATUS_PENDING, None)))"

fun recover_loop ::
    "sites \<Rightarrow> int \<Rightarrow> string \<Rightarrow> WorkItem list \<Rightarrow> nat \<Rightarrow> Action list \<Rightarrow> int \<times> action_row list \<Rightarrow> int \<times> action_row list" where
  "recover_loop ok now wq items i [] acc = acc"
| "recover_loop ok now wq items i (a # as) (recovered, rows) =
     (case orphan_status (below (below ok i) 0) wq items a of
        None \<Rightarrow> recover_loop ok now wq items (Suc i) as (recovered, rows)
      | Some (status, result) \<Rightarrow>
          recover_loop ok now wq items (Suc i) as
            (recovered + 1, snd (action_store_update_status (below (below ok i) 1) now (a_id a) status result rows)))"

definition supervisor_recover_orphaned_actions :: "sites \<Rightarrow> int \<Rightarrow> string \<Rightarrow> stores \<Rightarrow> int \<times> stores" where
  "supervisor_recover_orphaned_actions ok now goal_id st =
     (case (st_actions st, st_goals st) of
        (Some rows, Some goals) \<Rightarrow>
          (case goal_store_get (below ok 0) goal_id goals of
             None \<Rightarrow> (-1, st)
           | Some goal \<Rightarrow>
               (let running = action_store_list_running (below ok 1) goal_id rows
                in if running = [] then (0, st)
                   else case work_queue_create (below ok 2) (g_queue_name goal) of
                          None \<Rightarrow> (-1, st)
                        | Some wq \<Rightarrow>
                            (case recover_loop (below ok 3) now wq (st_items st) 0 running (0, rows) of
                               (recovered, rows') \<Rightarrow> (recovered, st\<lparr>st_actions := Some rows'\<rparr>))))
      | _ \<Rightarrow> (-1, st))"

section \<open>The end of a phase\<close>

datatype SupervisorPhase = SUPERVISOR_PHASE_PLAN | SUPERVISOR_PHASE_EXECUTE

definition SUPERVISOR_EXIT_COMPLETE :: int where "SUPERVISOR_EXIT_COMPLETE = 0"
definition SUPERVISOR_EXIT_ERROR :: int where "SUPERVISOR_EXIT_ERROR = -1"
definition SUPERVISOR_EXIT_CONTEXT :: int where "SUPERVISOR_EXIT_CONTEXT = -3"

definition plan_is_complete :: "sites \<Rightarrow> string \<Rightarrow> stores \<Rightarrow> bool" where
  "plan_is_complete ok goal_id st =
     (case (st_goals st, st_actions st) of
        (Some goals, Some rows) \<Rightarrow>
          (case goal_store_get (below ok 0) goal_id goals of
             None \<Rightarrow> False
           | Some goal \<Rightarrow>
               g_plan_document goal \<noteq> None \<and> g_plan_document goal \<noteq> Some [] \<and>
               action_store_list_by_goal (below ok 1) goal_id rows \<noteq> [])
      | _ \<Rightarrow> False)"

definition goal_is_complete :: "sites \<Rightarrow> 'j cjson \<Rightarrow> string \<Rightarrow> stores \<Rightarrow> bool" where
  "goal_is_complete ok js goal_id st =
     (case st_goals st of
        None \<Rightarrow> False
      | Some goals \<Rightarrow>
          (case goal_store_get ok goal_id goals of
             None \<Rightarrow> False
           | Some goal \<Rightarrow>
               g_status goal = GOAL_STATUS_COMPLETED \<or>
               gp_complete (goap_check_progress js (g_goal_state goal) (g_world_state goal))))"

definition set_status :: "sites \<Rightarrow> int \<Rightarrow> string \<Rightarrow> GoalStatus \<Rightarrow> stores \<Rightarrow> stores" where
  "set_status ok now goal_id status st =
     (case st_goals st of
        None \<Rightarrow> st
      | Some goals \<Rightarrow> st\<lparr>st_goals := Some (snd (goal_store_update_status ok now goal_id status goals))\<rparr>)"

text \<open>The result says whether the phase is complete.\<close>

definition check_phase_completion ::
    "sites \<Rightarrow> 'j cjson \<Rightarrow> int \<Rightarrow> string \<Rightarrow> SupervisorPhase \<Rightarrow> stores \<Rightarrow> bool \<times> stores" where
  "check_phase_completion ok js now goal_id phase st =
     (case phase of
        SUPERVISOR_PHASE_PLAN \<Rightarrow>
          if plan_is_complete (below ok 0) goal_id st
          then (True, set_status (below ok 1) now goal_id GOAL_STATUS_ACTIVE st) else (False, st)
      | SUPERVISOR_PHASE_EXECUTE \<Rightarrow>
          if goal_is_complete (below ok 0) js goal_id st
          then (True, set_status (below ok 1) now goal_id GOAL_STATUS_COMPLETED st) else (False, st))"

definition handle_context_full_exit :: "sites \<Rightarrow> int \<Rightarrow> string \<Rightarrow> SupervisorPhase \<Rightarrow> stores \<Rightarrow> int \<times> stores" where
  "handle_context_full_exit ok now goal_id phase st =
     (let phase_name = (if phase = SUPERVISOR_PHASE_PLAN then ''planning'' else ''execution'');
          summary = ''Context full during '' @ phase_name @ '', respawn needed''
      in (SUPERVISOR_EXIT_CONTEXT,
          case st_goals st of
            None \<Rightarrow> st
          | Some goals \<Rightarrow> st\<lparr>st_goals := Some (snd (goal_store_update_summary ok now goal_id summary goals))\<rparr>))"

section \<open>The loop\<close>

text \<open>A round: what others did to the stores before, the result of \<^verbatim>\<open>select\<close>, whether the poller of messages is
  ready, the number of subagents that changed, the messages that wait (\<open>None\<close> when they cannot be read),
  whether they can be formatted, and the answer of the session to them.\<close>

record sup_round =
  sr_outside :: "stores \<Rightarrow> stores"
  sr_ready :: int
  sr_notified :: bool
  sr_changes :: int
  sr_messages :: "int option"
  sr_text :: bool
  sr_continue :: "stores \<Rightarrow> int \<times> stores"

definition process_notifications :: "sup_round \<Rightarrow> stores \<Rightarrow> int \<times> stores" where
  "process_notifications r st =
     (case sr_messages r of
        None \<Rightarrow> (0, st)
      | Some total_count \<Rightarrow>
          if total_count > 0 \<and> sr_text r
          then (case sr_continue r st of
                  (rc, st') \<Rightarrow> (if rc = SESSION_CONTEXT_FULL then SUPERVISOR_EXIT_CONTEXT
                               else if rc \<noteq> 0 then SUPERVISOR_EXIT_ERROR else 0, st'))
          else (0, st))"

text \<open>The messages are read when the poller is ready or a subagent has changed.\<close>

definition round_notifications :: "sup_round \<Rightarrow> stores \<Rightarrow> int \<times> stores" where
  "round_notifications r st =
     (let notified = (sr_ready r > 0 \<and> sr_notified r)
      in if notified \<or> sr_changes r > 0 then process_notifications r st else (0, st))"

definition max_consecutive_errors :: nat where
  "max_consecutive_errors = 3"

fun supervisor_loop ::
    "sites \<Rightarrow> 'j cjson \<Rightarrow> int \<Rightarrow> string \<Rightarrow> SupervisorPhase \<Rightarrow> nat \<Rightarrow> nat \<Rightarrow> sup_round list \<Rightarrow> stores \<Rightarrow> int \<times> stores" where
  "supervisor_loop ok js now goal_id phase i errors [] st = (SUPERVISOR_EXIT_ERROR, st)"
| "supervisor_loop ok js now goal_id phase i errors (r # rs) st =
     (let st0 = sr_outside r st
      in if sr_ready r < 0 then supervisor_loop ok js now goal_id phase (Suc i) errors rs st0
         else case round_notifications r st0 of
                (rc, st1) \<Rightarrow>
                  if rc = SUPERVISOR_EXIT_CONTEXT then handle_context_full_exit (below (below ok i) 0) now goal_id phase st1
                  else if rc \<noteq> 0 \<and> Suc errors \<ge> max_consecutive_errors then (SUPERVISOR_EXIT_ERROR, st1)
                  else case check_phase_completion (below (below ok i) 1) js now goal_id phase st1 of
                         (completion, st2) \<Rightarrow>
                           if completion then (SUPERVISOR_EXIT_COMPLETE, st2)
                           else supervisor_loop ok js now goal_id phase (Suc i) (if rc \<noteq> 0 then Suc errors else 0) rs st2)"

text \<open>The first message needs the goal, in the phase of execution also the actions; site 0 is its buffer.\<close>

definition initial_message :: "sites \<Rightarrow> string \<Rightarrow> SupervisorPhase \<Rightarrow> stores \<Rightarrow> bool" where
  "initial_message ok goal_id phase st =
     (case st_goals st of
        None \<Rightarrow> False
      | Some goals \<Rightarrow>
          (phase = SUPERVISOR_PHASE_PLAN \<or> st_actions st \<noteq> None) \<and>
          goal_store_get (below ok 1) goal_id goals \<noteq> None \<and> ok [0])"

definition supervisor_run ::
    "sites \<Rightarrow> 'j cjson \<Rightarrow> int \<Rightarrow> string \<Rightarrow> SupervisorPhase \<Rightarrow> (stores \<Rightarrow> int \<times> stores) \<Rightarrow> sup_round list \<Rightarrow> stores \<Rightarrow> int \<times> stores" where
  "supervisor_run ok js now goal_id phase process rounds st =
     (let st0 = (if phase = SUPERVISOR_PHASE_EXECUTE
                 then snd (supervisor_recover_orphaned_actions (below ok 0) now goal_id st) else st)
      in if \<not> initial_message (below ok 1) goal_id phase st0 then (SUPERVISOR_EXIT_ERROR, st0)
         else case process st0 of
                (rc, st1) \<Rightarrow>
                  if rc = SESSION_CONTEXT_FULL then handle_context_full_exit (below ok 2) now goal_id phase st1
                  else if rc \<noteq> 0 then (SUPERVISOR_EXIT_ERROR, st1)
                  else case check_phase_completion (below ok 3) js now goal_id phase st1 of
                         (completion, st2) \<Rightarrow>
                           if completion then (SUPERVISOR_EXIT_COMPLETE, st2)
                           else supervisor_loop (below ok 4) js now goal_id phase 0 0 rounds st2)"

section \<open>Recovery leaves no orphans\<close>

text \<open>The row after recovery, given the queue of the goal.\<close>

definition recovered_row :: "int \<Rightarrow> string \<Rightarrow> string \<Rightarrow> WorkItem list \<Rightarrow> action_row \<Rightarrow> action_row" where
  "recovered_row now goal_id wq items r =
     (if ar_goal_id r = goal_id \<and> ar_status r = ACTION_STATUS_RUNNING
      then case orphan_status all_ok wq items (action_of r) of
             None \<Rightarrow> r
           | Some (status, result) \<Rightarrow> r\<lparr>ar_status := status, ar_updated_at := now, ar_result := result\<rparr>
      else r)"

definition fix_row :: "int \<Rightarrow> string \<Rightarrow> WorkItem list \<Rightarrow> Action list \<Rightarrow> action_row \<Rightarrow> action_row" where
  "fix_row now wq items as r =
     (case find (\<lambda>a. a_id a = ar_id r) as of
        None \<Rightarrow> r
      | Some a \<Rightarrow>
          (case orphan_status all_ok wq items a of
             None \<Rightarrow> r
           | Some (status, result) \<Rightarrow> r\<lparr>ar_status := status, ar_updated_at := now, ar_result := result\<rparr>))"

lemma recover_loop_rows:
  assumes "distinct (map a_id as)"
  shows "recover_loop all_ok now wq items i as (n, rows) =
    (n + int (length (filter (\<lambda>a. orphan_status all_ok wq items a \<noteq> None) as)), map (fix_row now wq items as) rows)"
  using assms
proof (induction as arbitrary: i n rows)
  case Nil
  then show ?case by (simp add: fix_row_def map_idI)
next
  case (Cons a as)
  have "a_id a \<notin> set (map a_id as)"
    using Cons.prems by simp
  then have notin: "find (\<lambda>b. a_id b = a_id a) as = None"
    unfolding find_None_iff by (metis image_eqI list.set_map)
  show ?case
  proof (cases "orphan_status all_ok wq items a")
    case None
    have "fix_row now wq items (a # as) r = fix_row now wq items as r" for r
      using None notin by (cases "ar_id r = a_id a") (auto simp: fix_row_def)
    then show ?thesis
      using Cons None by simp
  next
    case (Some p)
    obtain status result where p: "p = (status, result)" by (cases p)
    let ?f = "\<lambda>r::action_row. r\<lparr>ar_status := status, ar_updated_at := now, ar_result := result\<rparr>"
    have "fix_row now wq items as (if ar_id r = a_id a then ?f r else r) = fix_row now wq items (a # as) r" for r
      using Some p notin by (cases "ar_id r = a_id a") (auto simp: fix_row_def)
    then have "map (fix_row now wq items as) (sql_update (\<lambda>r. ar_id r = a_id a) ?f rows) = map (fix_row now wq items (a # as)) rows"
      by (simp add: sql_update_def)
    then show ?thesis
      using Cons Some p by (simp add: action_store_update_status_def)
  qed
qed

text \<open>The rows of a goal that are running are those that the list holds.\<close>

lemma fix_row_recovered:
  assumes "action_table rows" and "r \<in> set rows"
  shows "fix_row now wq items (action_store_list_running all_ok goal_id rows) r = recovered_row now goal_id wq items r"
proof -
  let ?P = "\<lambda>r. ar_goal_id r = goal_id \<and> ar_status r = ACTION_STATUS_RUNNING"
  let ?q = "sort_key ar_created_at (filter ?P rows)"
  have ids: "a_id (action_of x) = ar_id x" if "x \<in> set rows" for x
    using assms(1) that by (auto simp: action_table_def short_id_def action_of_def)
  have inj: "inj_on ar_id (set rows)"
    using assms(1) by (simp add: action_table_def distinct_map)
  have list: "action_store_list_running all_ok goal_id rows = map action_of ?q"
    by (simp add: action_store_list_running_def action_query_ok)
  have q: "find (\<lambda>a. a_id a = ar_id r) (map action_of ?q) = (if ?P r then Some (action_of r) else None)"
  proof (cases "?P r")
    case True
    have "find (\<lambda>a. a_id a = ar_id r) (map action_of ?q) \<noteq> None"
      using True assms(2) ids[OF assms(2)] by (auto simp: find_None_iff)
    then obtain a where a: "find (\<lambda>a. a_id a = ar_id r) (map action_of ?q) = Some a" by blast
    then obtain x where x: "x \<in> set rows" "a = action_of x" "a_id a = ar_id r"
      by (auto simp: find_Some_iff in_set_conv_nth dest: nth_mem) (metis (no_types, lifting) in_set_conv_nth length_sort mem_Collect_eq nth_map set_filter set_sort)
    with ids inj assms(2) have "x = r" by (auto dest: inj_onD)
    with a x True show ?thesis by simp
  next
    case False
    have "\<forall>x \<in> set ?q. a_id (action_of x) \<noteq> ar_id r"
      using False ids inj assms(2) by (auto dest: inj_onD)
    then have "find (\<lambda>a. a_id a = ar_id r) (map action_of ?q) = None"
      unfolding find_None_iff by auto
    with False show ?thesis by simp
  qed
  show ?thesis
    unfolding fix_row_def list q by (auto simp: recovered_row_def)
qed


lemma running_action_status: "orphan_status ok wq items a = Some (s, res) \<Longrightarrow> s \<noteq> ACTION_STATUS_RUNNING"
  by (auto simp: orphan_status_def split: if_splits option.splits WorkItemStatus.splits)

lemma recovered_row_changed:
  "recovered_row now goal_id wq items r \<noteq> r \<longleftrightarrow>
     ar_goal_id r = goal_id \<and> ar_status r = ACTION_STATUS_RUNNING \<and> orphan_status all_ok wq items (action_of r) \<noteq> None"
proof (cases "orphan_status all_ok wq items (action_of r)")
  case (Some p)
  obtain s res where p: "p = (s, res)" by (cases p)
  have s: "s \<noteq> ACTION_STATUS_RUNNING"
    using Some p running_action_status by blast
  have "r\<lparr>ar_status := s, ar_updated_at := now, ar_result := res\<rparr> \<noteq> r" if "ar_status r = ACTION_STATUS_RUNNING"
  proof
    assume "r\<lparr>ar_status := s, ar_updated_at := now, ar_result := res\<rparr> = r"
    then have "ar_status (r\<lparr>ar_status := s, ar_updated_at := now, ar_result := res\<rparr>) = ar_status r" by (rule arg_cong)
    with that s show False by simp
  qed
  with Some p show ?thesis
    by (simp add: recovered_row_def)
qed (simp add: recovered_row_def)

lemma distinct_running:
  assumes "action_table rows"
  shows "distinct (map a_id (action_store_list_running all_ok goal_id rows))"
proof -
  let ?P = "\<lambda>r. ar_goal_id r = goal_id \<and> ar_status r = ACTION_STATUS_RUNNING"
  have "inj_on (\<lambda>r. a_id (action_of r)) (set rows)"
    using assms by (auto simp: action_table_def distinct_map short_id_def action_of_def inj_on_def)
  moreover have "distinct (sort_key ar_created_at (filter ?P rows))"
    using assms by (simp add: action_table_def distinct_map)
  ultimately show ?thesis
    by (auto simp: action_store_list_running_def action_query_ok distinct_map o_def inj_on_def)
qed

lemma recover_Some:
  assumes "supervisor_recover_orphaned_actions all_ok now goal_id st = (n, st')" and "n \<noteq> -1"
    and "st_actions st = Some rows" and "action_table rows"
  obtains goals g where "st_goals st = Some goals" and "find (\<lambda>g. g_id g = goal_id) goals = Some g"
    and "st' = st\<lparr>st_actions := Some (map (recovered_row now goal_id (take 63 (g_queue_name g)) (st_items st)) rows)\<rparr>"
    and "n = int (length (filter (\<lambda>r. recovered_row now goal_id (take 63 (g_queue_name g)) (st_items st) r \<noteq> r) rows))"
proof -
  obtain goals where goals: "st_goals st = Some goals"
    using assms(1,2) by (cases "st_goals st") (auto simp: supervisor_recover_orphaned_actions_def split: option.splits)
  obtain g where g: "find (\<lambda>g. g_id g = goal_id) goals = Some g"
    using assms(1-3) goals
    by (cases "find (\<lambda>g. g_id g = goal_id) goals") (auto simp: supervisor_recover_orphaned_actions_def goal_store_get_ok)
  define running where "running = action_store_list_running all_ok goal_id rows"
  define wq where "wq = take 63 (g_queue_name g)"
  define items where "items = st_items st"
  have rows: "map (fix_row now wq items running) rows = map (recovered_row now goal_id wq items) rows"
    unfolding running_def by (rule map_cong) (simp_all add: fix_row_recovered[OF assms(4)])
  have len: "length (filter (\<lambda>a. orphan_status all_ok wq items a \<noteq> None) running) =
      length (filter (\<lambda>r. recovered_row now goal_id wq items r \<noteq> r) rows)"
    unfolding recovered_row_changed
    by (simp add: running_def action_store_list_running_def action_query_ok filter_map o_def filter_sort conj_ac del: not_None_eq)
  have res: "recover_loop all_ok now wq items 0 running (0, rows) =
      (int (length (filter (\<lambda>r. recovered_row now goal_id wq items r \<noteq> r) rows)), map (recovered_row now goal_id wq items) rows)"
    using recover_loop_rows[OF distinct_running[OF assms(4)], of now wq items 0 goal_id 0 rows] rows len
    by (simp add: running_def)
  show thesis
  proof (cases "running = []")
    case True
    then have "n = 0" "st' = st" using assms(1,3) goals g
      by (simp_all add: supervisor_recover_orphaned_actions_def goal_store_get_ok running_def Let_def)
    with res True that[OF goals g] assms(3) show thesis by (auto simp: wq_def items_def)
  next
    case False
    then have "work_queue_create all_ok (g_queue_name (goal_of g)) = Some wq"
      using assms(1-3) goals g
      by (auto simp: supervisor_recover_orphaned_actions_def goal_store_get_ok running_def Let_def work_queue_create_def
          wq_def goal_of_def split: if_splits)
    with assms(1,3) goals g False res that[OF goals g] show thesis
      by (simp add: supervisor_recover_orphaned_actions_def goal_store_get_ok running_def[symmetric] Let_def wq_def items_def)
  qed
qed

text \<open>The status of a work item decides.\<close>

lemma orphan_status_item:
  assumes "short_id (or_empty (ar_work_item r))"
  shows "orphan_status all_ok wq items (action_of r) =
    (case (if or_empty (ar_work_item r) = [] then None else find (in_queue wq (or_empty (ar_work_item r))) items) of
       None \<Rightarrow> Some (ACTION_STATUS_PENDING, None)
     | Some item \<Rightarrow>
         (case wi_status item of
            WORK_ITEM_COMPLETED \<Rightarrow> Some (ACTION_STATUS_COMPLETED, wi_result item)
          | WORK_ITEM_FAILED \<Rightarrow> Some (ACTION_STATUS_FAILED, wi_error item)
          | WORK_ITEM_ASSIGNED \<Rightarrow> None
          | WORK_ITEM_PENDING \<Rightarrow> Some (ACTION_STATUS_PENDING, None)))"
  using assms
  by (auto simp: orphan_status_def action_of_def short_id_def work_queue_get_item_def map_work_item_def kept_def
      split: option.split WorkItemStatus.split)

lemma recovered_running:
  assumes "short_id (or_empty (ar_work_item r))" and "ar_goal_id (recovered_row now goal_id wq items r) = goal_id"
    and "ar_status (recovered_row now goal_id wq items r) = ACTION_STATUS_RUNNING"
  shows "\<exists>item \<in> set items. in_queue wq (or_empty (ar_work_item (recovered_row now goal_id wq items r))) item \<and> wi_status item = WORK_ITEM_ASSIGNED"
proof -
  have r: "ar_goal_id r = goal_id" "ar_status r = ACTION_STATUS_RUNNING" "orphan_status all_ok wq items (action_of r) = None"
    using assms(2,3) running_action_status[of all_ok wq items "action_of r"]
    by (auto simp: recovered_row_def split: if_splits option.splits)
  then have "recovered_row now goal_id wq items r = r" by (simp add: recovered_row_def)
  with r(3) orphan_status_item[OF assms(1), of wq items] show ?thesis
    by (auto simp: find_Some_iff split: option.splits WorkItemStatus.splits if_splits)
qed

lemma recovered_changed:
  assumes "recovered_row now goal_id wq items r \<noteq> r" and "short_id (or_empty (ar_work_item r))"
  shows "ar_goal_id r = goal_id \<and> ar_status r = ACTION_STATUS_RUNNING \<and>
    (\<exists>s res. recovered_row now goal_id wq items r = r\<lparr>ar_status := s, ar_updated_at := now, ar_result := res\<rparr> \<and>
      (s = ACTION_STATUS_PENDING \<and> res = None \<or>
       (\<exists>item \<in> set items. in_queue wq (or_empty (ar_work_item r)) item \<and>
         (s = ACTION_STATUS_COMPLETED \<and> wi_status item = WORK_ITEM_COMPLETED \<and> res = wi_result item \<or>
          s = ACTION_STATUS_FAILED \<and> wi_status item = WORK_ITEM_FAILED \<and> res = wi_error item))))"
proof -
  have r: "ar_goal_id r = goal_id" "ar_status r = ACTION_STATUS_RUNNING"
    using assms(1) by (auto simp: recovered_row_changed)
  obtain s res where o: "orphan_status all_ok wq items (action_of r) = Some (s, res)"
    using assms(1) by (auto simp: recovered_row_changed)
  have "s = ACTION_STATUS_PENDING \<and> res = None \<or>
       (\<exists>item \<in> set items. in_queue wq (or_empty (ar_work_item r)) item \<and>
         (s = ACTION_STATUS_COMPLETED \<and> wi_status item = WORK_ITEM_COMPLETED \<and> res = wi_result item \<or>
          s = ACTION_STATUS_FAILED \<and> wi_status item = WORK_ITEM_FAILED \<and> res = wi_error item))"
    using o orphan_status_item[OF assms(2), of wq items]
    by (auto simp: find_Some_iff split: option.splits WorkItemStatus.splits if_splits)
  with r o show ?thesis by (auto simp: recovered_row_def)
qed


section \<open>Completion\<close>

lemmas exit_codes = SUPERVISOR_EXIT_COMPLETE_def SUPERVISOR_EXIT_ERROR_def SUPERVISOR_EXIT_CONTEXT_def SESSION_CONTEXT_FULL_def

lemma supervisor_loop_complete:
  assumes "supervisor_loop all_ok js now goal_id phase i errors rounds st = (SUPERVISOR_EXIT_COMPLETE, st')"
  shows "\<exists>st1. check_phase_completion all_ok js now goal_id phase st1 = (True, st')"
  using assms
proof (induction rounds arbitrary: i errors st)
  case (Cons r rs)
  show ?case
  proof (cases "sr_ready r < 0")
    case True
    with Cons show ?thesis by simp
  next
    case False
    obtain rc st1 where n: "round_notifications r (sr_outside r st) = (rc, st1)" by fastforce
    obtain completion st2 where c: "check_phase_completion all_ok js now goal_id phase st1 = (completion, st2)" by fastforce
    show ?thesis
      using Cons n c False
      by (auto simp: exit_codes handle_context_full_exit_def Let_def split: if_splits)
  qed
qed (simp add: exit_codes)

lemma supervisor_run_complete:
  assumes "supervisor_run all_ok js now goal_id phase process rounds st = (SUPERVISOR_EXIT_COMPLETE, st')"
  shows "\<exists>st1. check_phase_completion all_ok js now goal_id phase st1 = (True, st')"
proof -
  define st0 where "st0 = (if phase = SUPERVISOR_PHASE_EXECUTE
    then snd (supervisor_recover_orphaned_actions all_ok now goal_id st) else st)"
  obtain rc st1 where p: "process st0 = (rc, st1)" by fastforce
  obtain completion st2 where c: "check_phase_completion all_ok js now goal_id phase st1 = (completion, st2)" by fastforce
  show ?thesis
    using assms p c supervisor_loop_complete[of js now goal_id phase 0 0 rounds st2 st']
    by (cases "phase = SUPERVISOR_PHASE_EXECUTE")
      (auto simp: supervisor_run_def st0_def exit_codes handle_context_full_exit_def Let_def split: if_splits)
qed

lemma set_status_lookup:
  assumes "st_goals st = Some goals" and "find (\<lambda>g. g_id g = i) goals = Some g"
  shows "\<exists>goals'. st_goals (set_status all_ok now i status st) = Some goals' \<and>
    find (\<lambda>g. g_id g = i) goals' = Some (g\<lparr>g_status := status, g_updated_at := now\<rparr>)"
proof -
  have k: "keeps g_id (\<lambda>g::goal_row. g\<lparr>g_status := status, g_updated_at := now\<rparr>)" by (simp add: keeps_def)
  show ?thesis
    using assms goals.update_lookup[OF k, of i i goals]
    by (simp add: set_status_def goal_store_update_status_def goal_update_def sqlite_dal_exec_p_def Let_def)
qed

lemma set_status_actions [simp]: "st_actions (set_status ok now i status st) = st_actions st"
  by (simp add: set_status_def split: option.split)


section \<open>Examples\<close>

text \<open>An action that was dispatched and whose worker has not claimed it yet.\<close>

lemma sample_recovery:
  "fst (supervisor_recover_orphaned_actions all_ok 9 ''g1'' sample_dispatched) = 1"
  "st_actions sample_dispatched = Some [dispatched_row 7 ''w1'' sample_action]"
  by code_simp+



text \<open>An action whose item waits in the queue is made pending, but the item stays in the queue: dispatched
  again, the action is there twice.\<close>

lemma recovered_item_stays:
  "map wi_task_description (filter (\<lambda>w. wi_status w = WORK_ITEM_PENDING) (st_items (snd (execute_goap_dispatch_action all_ok goap_js dispatch_sample 10
     (Some ''w2'') (call_of sample_dispatch) (snd (supervisor_recover_orphaned_actions all_ok 9 ''g1'' sample_dispatched)))))) =
   [''build'', ''build'']"
  by code_simp

end
