(* ===== verification/Orchestrator.thy ===== *)
theory Orchestrator
  imports Supervisor
begin

text \<open>
  The control of supervisors: \<^verbatim>\<open>lib/orchestrator/orchestrator.c\<close> and the operations of the tool
  \<^verbatim>\<open>orchestrator\<close> in \<^verbatim>\<open>lib/tools/orchestrator_tool.c\<close> that start, pause and cancel a goal.

  The operating system is a record of answers: what the signals 0 and \<^verbatim>\<open>SIGTERM\<close> to a process give, what
  \<^verbatim>\<open>waitpid\<close> returns when it does not wait, whether the path of the program is known, the process that
  the n-th start of a program makes and the clock in milliseconds. A supervisor that was started and kept
  is an entry of the goal and the phase in a log.
\<close>

section \<open>Processes\<close>

datatype signal_result = Delivered | NoSuchProcess | NotPermitted

record os_answers =
  os_probe :: "int \<Rightarrow> signal_result"
  os_term :: "int \<Rightarrow> signal_result"
  os_wait :: "int \<Rightarrow> int"
  os_exe_path :: bool
  os_spawn :: "nat \<Rightarrow> int option"
  os_millis :: int

type_synonym spawn_log = "(string \<times> string) list"

text \<open>Site 0 reads the goal and site 1 stores the process; a process that cannot be stored is killed.\<close>

definition orchestrator_spawn_supervisor ::
    "sites \<Rightarrow> int \<Rightarrow> os_answers \<Rightarrow> nat \<Rightarrow> string \<Rightarrow> goal_row list \<Rightarrow> int \<times> spawn_log \<times> goal_row list" where
  "orchestrator_spawn_supervisor ok now os n goal_id rows =
     (case goal_store_get (below ok 0) goal_id rows of
        None \<Rightarrow> (-1, [], rows)
      | Some goal \<Rightarrow>
          (let phase_str = (if g_status goal = GOAL_STATUS_PLANNING then ''plan'' else ''execute'')
           in if \<not> os_exe_path os then (-1, [], rows)
              else case os_spawn os n of
                     None \<Rightarrow> (-1, [], rows)
                   | Some pid \<Rightarrow>
                       (case goal_store_update_supervisor (below ok 1) now goal_id pid (os_millis os) rows of
                          (rc, rows') \<Rightarrow> if rc \<noteq> 0 then (-1, [], rows') else (0, [(goal_id, phase_str)], rows'))))"

definition orchestrator_supervisor_alive :: "sites \<Rightarrow> int \<Rightarrow> os_answers \<Rightarrow> string \<Rightarrow> goal_row list \<Rightarrow> bool \<times> goal_row list" where
  "orchestrator_supervisor_alive ok now os goal_id rows =
     (case goal_store_get (below ok 0) goal_id rows of
        None \<Rightarrow> (False, rows)
      | Some goal \<Rightarrow>
          (let pid = g_supervisor_pid goal
           in if pid \<le> 0 then (False, rows)
              else case os_probe os pid of
                     Delivered \<Rightarrow> (True, rows)
                   | NoSuchProcess \<Rightarrow> (False, snd (goal_store_update_supervisor (below ok 1) now goal_id 0 0 rows))
                   | NotPermitted \<Rightarrow> (False, rows)))"

text \<open>Whether the supervisor of a goal that was listed has ended: reaped, or unknown to the system.\<close>

definition reaped :: "os_answers \<Rightarrow> int \<Rightarrow> bool" where
  "reaped os pid \<longleftrightarrow> pid > 0 \<and> (os_wait os pid = pid \<or> os_wait os pid = -1 \<and> os_probe os pid = NoSuchProcess)"

definition vanished :: "os_answers \<Rightarrow> int \<Rightarrow> bool" where
  "vanished os pid \<longleftrightarrow> pid > 0 \<and> os_probe os pid = NoSuchProcess"

fun clear_supervisors ::
    "sites \<Rightarrow> int \<Rightarrow> (int \<Rightarrow> bool) \<Rightarrow> nat \<Rightarrow> Goal list \<Rightarrow> goal_row list \<Rightarrow> goal_row list" where
  "clear_supervisors ok now ended i [] rows = rows"
| "clear_supervisors ok now ended i (g # gs) rows =
     clear_supervisors ok now ended (Suc i) gs
       (if ended (g_supervisor_pid g) then snd (goal_store_update_supervisor (below ok i) now (g_id g) 0 0 rows) else rows)"

definition orchestrator_reap_supervisors :: "sites \<Rightarrow> int \<Rightarrow> os_answers \<Rightarrow> goal_row list \<Rightarrow> goal_row list" where
  "orchestrator_reap_supervisors ok now os rows =
     clear_supervisors (below ok 1) now (reaped os) 0 (goal_store_list_all (below ok 0) rows) rows"

definition orchestrator_check_stale :: "sites \<Rightarrow> int \<Rightarrow> os_answers \<Rightarrow> goal_row list \<Rightarrow> goal_row list" where
  "orchestrator_check_stale ok now os rows =
     clear_supervisors (below ok 1) now (vanished os) 0 (goal_store_list_all (below ok 0) rows) rows"

text \<open>After \<^verbatim>\<open>SIGTERM\<close> a process that still runs is killed and waited for, which the model does not show.\<close>

definition orchestrator_kill_supervisor :: "sites \<Rightarrow> int \<Rightarrow> os_answers \<Rightarrow> string \<Rightarrow> goal_row list \<Rightarrow> int \<times> goal_row list" where
  "orchestrator_kill_supervisor ok now os goal_id rows =
     (case goal_store_get (below ok 0) goal_id rows of
        None \<Rightarrow> (-1, rows)
      | Some goal \<Rightarrow>
          (let pid = g_supervisor_pid goal
           in if pid \<le> 0 then (-1, rows)
              else case os_term os pid of
                     NoSuchProcess \<Rightarrow> (0, snd (goal_store_update_supervisor (below ok 1) now goal_id 0 0 rows))
                   | NotPermitted \<Rightarrow> (-1, rows)
                   | Delivered \<Rightarrow>
                       (0, snd (goal_store_update_status (below ok 2) now goal_id GOAL_STATUS_PAUSED
                             (snd (goal_store_update_supervisor (below ok 1) now goal_id 0 0 rows))))))"

text \<open>The loop over the goals of one status; the number of the goal is that of the program it starts.\<close>

fun respawn_goals ::
    "sites \<Rightarrow> int \<Rightarrow> os_answers \<Rightarrow> nat \<Rightarrow> Goal list \<Rightarrow> spawn_log \<times> goal_row list \<Rightarrow> spawn_log \<times> goal_row list" where
  "respawn_goals ok now os i [] acc = acc"
| "respawn_goals ok now os i (g # gs) (lg, rows) =
     respawn_goals ok now os (Suc i) gs
       (if g_supervisor_pid g \<noteq> 0 then (lg, rows)
        else case orchestrator_spawn_supervisor (below ok i) now os i (g_id g) rows of
               (_, started, rows') \<Rightarrow> (lg @ started, rows'))"

text \<open>Goals that are planned come first, then the active ones; the result is the number of new supervisors.\<close>

definition orchestrator_respawn_dead :: "sites \<Rightarrow> int \<Rightarrow> os_answers \<Rightarrow> goal_row list \<Rightarrow> int \<times> spawn_log \<times> goal_row list" where
  "orchestrator_respawn_dead ok now os rows =
     (let planning = goal_store_list_by_status (below ok 0) GOAL_STATUS_PLANNING rows;
          (lg, rows1) = respawn_goals (below ok 1) now os 0 planning ([], rows);
          active = goal_store_list_by_status (below ok 2) GOAL_STATUS_ACTIVE rows1;
          (lg', rows2) = respawn_goals (below ok 3) now os (length planning) active (lg, rows1)
      in (int (length lg'), lg', rows2))"

section \<open>Operations of the tool\<close>

datatype control_answer = Started string string int | PausedGoal string | Cancelled string

definition status_error :: "string \<Rightarrow> GoalStatus \<Rightarrow> string \<Rightarrow> string" where
  "status_error a status b = take 127 (a @ goal_status_to_string status @ b)"

definition execute_start_goal ::
    "sites \<Rightarrow> int \<Rightarrow> os_answers \<Rightarrow> ToolCall \<Rightarrow> goal_row list option
     \<Rightarrow> control_answer tool_answer \<times> spawn_log \<times> goal_row list option" where
  "execute_start_goal ok now os tc store =
     (case param ok 0 tc ''goal_id'' of
        None \<Rightarrow> (ToolError ''Missing required parameter: goal_id'', [], store)
      | Some goal_id \<Rightarrow>
     (case store of
        None \<Rightarrow> (ToolError ''Goal store not available'', [], store)
      | Some rows \<Rightarrow>
     (case goal_store_get (below ok 1) goal_id rows of
        None \<Rightarrow> (ToolError ''Goal not found'', [], store)
      | Some goal \<Rightarrow>
     if g_status goal \<noteq> GOAL_STATUS_PLANNING \<and> g_status goal \<noteq> GOAL_STATUS_PAUSED
     then (ToolError (status_error ''Cannot start goal in '' (g_status goal) '' status (must be planning or paused)''), [], store)
     else
     (let (alive, rows0) = (if g_supervisor_pid goal > 0 then orchestrator_supervisor_alive (below ok 2) now os goal_id rows
                            else (False, rows))
      in if alive then (ToolError ''Supervisor already running for this goal'', [], Some rows0)
         else
     (let (rc1, rows1) = (if g_status goal = GOAL_STATUS_PAUSED
                          then goal_store_update_status (below ok 3) now goal_id GOAL_STATUS_ACTIVE rows0 else (0, rows0))
      in if rc1 \<noteq> 0 then (ToolError ''Failed to activate goal'', [], Some rows1)
         else
     (case orchestrator_spawn_supervisor (below ok 4) now os 0 goal_id rows1 of
        (rc2, lg, rows2) \<Rightarrow>
          if rc2 \<noteq> 0
          then (ToolError ''Failed to spawn supervisor'', lg,
                Some (if g_status goal = GOAL_STATUS_PAUSED
                      then snd (goal_store_update_status (below ok 5) now goal_id GOAL_STATUS_PAUSED rows2) else rows2))
          else (ToolSuccess (case goal_store_get (below ok 6) goal_id rows2 of
                               Some g \<Rightarrow> Started goal_id (goal_status_to_string (g_status g)) (g_supervisor_pid g)
                             | None \<Rightarrow> Started goal_id ''unknown'' 0), lg, Some rows2)))))))"

definition execute_pause_goal ::
    "sites \<Rightarrow> int \<Rightarrow> os_answers \<Rightarrow> ToolCall \<Rightarrow> goal_row list option \<Rightarrow> control_answer tool_answer \<times> goal_row list option" where
  "execute_pause_goal ok now os tc store =
     (case param ok 0 tc ''goal_id'' of
        None \<Rightarrow> (ToolError ''Missing required parameter: goal_id'', store)
      | Some goal_id \<Rightarrow>
     (case store of
        None \<Rightarrow> (ToolError ''Goal store not available'', store)
      | Some rows \<Rightarrow>
     (case goal_store_get (below ok 1) goal_id rows of
        None \<Rightarrow> (ToolError ''Goal not found'', store)
      | Some goal \<Rightarrow>
     if g_status goal \<noteq> GOAL_STATUS_ACTIVE
     then (ToolError (status_error ''Cannot pause goal in '' (g_status goal) '' status (must be active)''), store)
     else (case orchestrator_kill_supervisor (below ok 2) now os goal_id rows of
             (rc, rows') \<Rightarrow>
               (if rc = 0 then ToolSuccess (PausedGoal goal_id)
                else ToolError ''Failed to pause goal (no supervisor running?)'', Some rows')))))"

definition execute_cancel_goal ::
    "sites \<Rightarrow> int \<Rightarrow> os_answers \<Rightarrow> ToolCall \<Rightarrow> goal_row list option \<Rightarrow> control_answer tool_answer \<times> goal_row list option" where
  "execute_cancel_goal ok now os tc store =
     (case param ok 0 tc ''goal_id'' of
        None \<Rightarrow> (ToolError ''Missing required parameter: goal_id'', store)
      | Some goal_id \<Rightarrow>
     (case store of
        None \<Rightarrow> (ToolError ''Goal store not available'', store)
      | Some rows \<Rightarrow>
     (case goal_store_get (below ok 1) goal_id rows of
        None \<Rightarrow> (ToolError ''Goal not found'', store)
      | Some goal \<Rightarrow>
     if g_status goal = GOAL_STATUS_COMPLETED \<or> g_status goal = GOAL_STATUS_FAILED
     then (ToolError (status_error ''Goal already in terminal state: '' (g_status goal) ''''), store)
     else (let rows1 = (if g_supervisor_pid goal > 0
                        then snd (orchestrator_kill_supervisor (below ok 2) now os goal_id rows) else rows);
               rows2 = snd (goal_store_update_status (below ok 3) now goal_id GOAL_STATUS_FAILED rows1)
           in (ToolSuccess (Cancelled goal_id), Some rows2)))))"

text \<open>The goals with their progress and whether a supervisor is known.\<close>

definition execute_list_goals :: "sites \<Rightarrow> 'j cjson \<Rightarrow> goal_row list option \<Rightarrow> (Goal \<times> GoapProgress \<times> bool) list tool_answer" where
  "execute_list_goals ok js store =
     (case store of
        None \<Rightarrow> ToolError ''Goal store not available''
      | Some rows \<Rightarrow>
          ToolSuccess (map (\<lambda>g. (g, goap_check_progress js (g_goal_state g) (g_world_state g), g_supervisor_pid g > 0))
            (goal_store_list_all ok rows)))"

section \<open>The life of a goal\<close>

text \<open>The changes of status that the control operations can make.\<close>

inductive goal_edge :: "GoalStatus \<Rightarrow> GoalStatus \<Rightarrow> bool" where
  resume: "goal_edge GOAL_STATUS_PAUSED GOAL_STATUS_ACTIVE"
| pause: "s \<in> {GOAL_STATUS_PLANNING, GOAL_STATUS_ACTIVE} \<Longrightarrow> goal_edge s GOAL_STATUS_PAUSED"
| cancel: "s \<in> {GOAL_STATUS_PLANNING, GOAL_STATUS_ACTIVE, GOAL_STATUS_PAUSED} \<Longrightarrow> goal_edge s GOAL_STATUS_FAILED"

inductive_simps goal_edge_from [simp]:
  "goal_edge GOAL_STATUS_COMPLETED s" "goal_edge GOAL_STATUS_FAILED s" "goal_edge GOAL_STATUS_PLANNING s"
  "goal_edge GOAL_STATUS_ACTIVE s" "goal_edge GOAL_STATUS_PAUSED s"

text \<open>A call of the control operations with the answers it gets; the last three are those that the program
  makes by itself at the start and while it waits for input.\<close>

datatype control_op =
    StartGoal sites int os_answers ToolCall
  | PauseGoal sites int os_answers ToolCall
  | CancelGoal sites int os_answers ToolCall
  | ReapSupervisors sites int os_answers
  | CheckStale sites int os_answers
  | RespawnDead sites int os_answers

fun control_step :: "control_op \<Rightarrow> goal_row list option \<Rightarrow> goal_row list option" where
  "control_step (StartGoal ok now os tc) store = snd (snd (execute_start_goal ok now os tc store))"
| "control_step (PauseGoal ok now os tc) store = snd (execute_pause_goal ok now os tc store)"
| "control_step (CancelGoal ok now os tc) store = snd (execute_cancel_goal ok now os tc store)"
| "control_step (ReapSupervisors ok now os) store = map_option (orchestrator_reap_supervisors ok now os) store"
| "control_step (CheckStale ok now os) store = map_option (orchestrator_check_stale ok now os) store"
| "control_step (RespawnDead ok now os) store = map_option (\<lambda>rows. snd (snd (orchestrator_respawn_dead ok now os rows))) store"

definition status_of :: "goal_row list option \<Rightarrow> string \<Rightarrow> GoalStatus option" where
  "status_of store i = (case store of None \<Rightarrow> None | Some rows \<Rightarrow> map_option g_status (find (\<lambda>g. g_id g = i) rows))"

text \<open>What several operations promise of the states of the objects they work on: a state changes along edges
  only. Then a run of operations does the same, and a state without an edge stays.\<close>

locale lifecycle =
  fixes step :: "'o \<Rightarrow> 's \<Rightarrow> 's" and state :: "'s \<Rightarrow> 'k \<Rightarrow> 'v option" and edge :: "'v \<Rightarrow> 'v \<Rightarrow> bool"
  assumes step_edges: "state s k = Some v \<Longrightarrow> \<exists>v'. state (step x s) k = Some v' \<and> edge\<^sup>*\<^sup>* v v'"
begin

lemma run_edges: "state s k = Some v \<Longrightarrow> \<exists>v'. state (fold step xs s) k = Some v' \<and> edge\<^sup>*\<^sup>* v v'"
proof (induction xs arbitrary: s v)
  case (Cons x xs)
  obtain v1 where "state (step x s) k = Some v1" "edge\<^sup>*\<^sup>* v v1"
    using step_edges[OF Cons.prems] by blast
  with Cons.IH[of "step x s" v1] show ?case by (auto intro: rtranclp_trans)
qed auto

lemma run_terminal:
  assumes "state s k = Some v" and "\<forall>v'. \<not> edge v v'"
  shows "state (fold step xs s) k = Some v"
  using run_edges[OF assms(1), of xs] assms(2) by (metis converse_rtranclpE)

end

text \<open>The updates of the table.\<close>

lemma status_of_update_supervisor [simp]:
  "status_of (Some (snd (goal_store_update_supervisor ok now i pid t rows))) k = status_of (Some rows) k"
proof -
  have k: "keeps g_id (\<lambda>g::goal_row. g\<lparr>g_supervisor_pid := pid, g_supervisor_started_at := t, g_updated_at := now\<rparr>)"
    by (simp add: keeps_def)
  show ?thesis
    using goals.update_lookup[OF k, of k i rows]
    by (auto simp: status_of_def goal_store_update_supervisor_def goal_update_def sqlite_dal_exec_p_def Let_def
        option.map_comp o_def)
qed

lemma status_of_update_status:
  "status_of (Some (snd (goal_store_update_status ok now i s rows))) k =
    (if k = i \<and> ok [0] \<and> ok [1] then map_option (\<lambda>_. s) (status_of (Some rows) k) else status_of (Some rows) k)"
proof -
  have k: "keeps g_id (\<lambda>g::goal_row. g\<lparr>g_status := s, g_updated_at := now\<rparr>)"
    by (simp add: keeps_def)
  show ?thesis
    using goals.update_lookup[OF k, of k i rows]
    by (auto simp: status_of_def goal_store_update_status_def goal_update_def sqlite_dal_exec_p_def Let_def
        option.map_comp o_def)
qed

lemma status_of_spawn [simp]:
  "status_of (Some (snd (snd (orchestrator_spawn_supervisor ok now os n i rows)))) k = status_of (Some rows) k"
proof -
  have "status_of (Some rows') k = status_of (Some rows) k"
    if "goal_store_update_supervisor ok' now i pid t rows = (rc, rows')" for ok' pid t rc rows'
    using status_of_update_supervisor[of ok' now i pid t rows k] that by simp
  then show ?thesis
    by (auto simp: orchestrator_spawn_supervisor_def Let_def split: option.split prod.split)
qed

lemma status_of_alive [simp]:
  "status_of (Some (snd (orchestrator_supervisor_alive ok now os i rows))) k = status_of (Some rows) k"
  by (auto simp: orchestrator_supervisor_alive_def Let_def split: option.split signal_result.split)

lemma status_of_clear [simp]:
  "status_of (Some (clear_supervisors ok now ended n gs rows)) k = status_of (Some rows) k"
  by (induction ok now ended n gs rows rule: clear_supervisors.induct) auto

lemma status_of_respawn_goals [simp]:
  "status_of (Some (snd (respawn_goals ok now os n gs acc))) k = status_of (Some (snd acc)) k"
proof (induction gs arbitrary: n acc)
  case (Cons g gs)
  obtain lg rows where acc: "acc = (lg, rows)" by (cases acc)
  obtain rc started rows' where s: "orchestrator_spawn_supervisor (below ok n) now os n (g_id g) rows = (rc, started, rows')"
    by (cases "orchestrator_spawn_supervisor (below ok n) now os n (g_id g) rows")
  then have "status_of (Some rows') k = status_of (Some rows) k"
    using status_of_spawn[of "below ok n" now os n "g_id g" rows k] by simp
  with Cons s acc show ?case by simp
qed simp

lemma get_status: "goal_store_get ok i rows = Some g \<Longrightarrow> status_of (Some rows) i = Some (g_status g)"
  by (auto elim!: goal_store_get_Some simp: status_of_def goal_of_def)

lemma status_of_kill:
  assumes "status_of (Some rows) k = Some s" and "k = i \<Longrightarrow> s \<in> {GOAL_STATUS_PLANNING, GOAL_STATUS_ACTIVE, GOAL_STATUS_PAUSED}"
  shows "\<exists>s'. status_of (Some (snd (orchestrator_kill_supervisor ok now os i rows))) k = Some s' \<and>
    (s' = s \<or> k = i \<and> s' = GOAL_STATUS_PAUSED)"
  using assms
  by (auto simp: orchestrator_kill_supervisor_def status_of_update_status Let_def split: option.split signal_result.split)

lemma start_edges:
  assumes "status_of (Some rows) k = Some s"
  shows "\<exists>s'. status_of (snd (snd (execute_start_goal ok now os tc (Some rows)))) k = Some s' \<and> goal_edge\<^sup>*\<^sup>* s s'"
proof -
  let ?out = "status_of (snd (snd (execute_start_goal ok now os tc (Some rows)))) k"
  have "?out = Some s \<or> s = GOAL_STATUS_PAUSED \<and> ?out = Some GOAL_STATUS_ACTIVE"
  proof (cases "param ok 0 tc ''goal_id''")
    case None
    then show ?thesis using assms by (simp add: execute_start_goal_def)
  next
    case (Some i)
    show ?thesis
    proof (cases "goal_store_get (below ok 1) i rows")
      case None
      with Some assms show ?thesis by (simp add: execute_start_goal_def)
    next
      case (Some goal)
      have st: "status_of (Some rows) i = Some (g_status goal)" by (rule get_status[OF Some])
      define alive where "alive = (if g_supervisor_pid goal > 0
        then orchestrator_supervisor_alive (below ok 2) now os i rows else (False, rows))"
      define rows0 where "rows0 = snd alive"
      have s0: "status_of (Some rows0) k = Some s" "status_of (Some rows0) i = Some (g_status goal)"
        using assms st by (auto simp: rows0_def alive_def)
      define act where "act = (if g_status goal = GOAL_STATUS_PAUSED
        then goal_store_update_status (below ok 3) now i GOAL_STATUS_ACTIVE rows0 else (0, rows0))"
      define rows1 where "rows1 = snd act"
      have s1: "status_of (Some rows1) k = Some s \<or>
          k = i \<and> g_status goal = GOAL_STATUS_PAUSED \<and> status_of (Some rows1) k = Some GOAL_STATUS_ACTIVE"
        using s0 by (auto simp: rows1_def act_def status_of_update_status)
      obtain rc lg rows2 where sp: "orchestrator_spawn_supervisor (below ok 4) now os 0 i rows1 = (rc, lg, rows2)"
        using prod_cases3 by blast
      have s2: "status_of (Some rows2) k = status_of (Some rows1) k"
        using status_of_spawn[of "below ok 4" now os 0 i rows1 k] sp by simp
      have undone: "status_of (Some (snd (goal_store_update_status (below ok 5) now i GOAL_STATUS_PAUSED rows2))) k \<in>
          {status_of (Some rows2) k, if k = i then Some GOAL_STATUS_PAUSED else Some s}"
        using s1 s2 by (auto simp: status_of_update_status)
      have out: "snd (snd (execute_start_goal ok now os tc (Some rows))) =
          (if g_status goal \<noteq> GOAL_STATUS_PLANNING \<and> g_status goal \<noteq> GOAL_STATUS_PAUSED then Some rows
           else if fst alive then Some rows0 else if fst act \<noteq> 0 then Some rows1
           else if rc \<noteq> 0 \<and> g_status goal = GOAL_STATUS_PAUSED
           then Some (snd (goal_store_update_status (below ok 5) now i GOAL_STATUS_PAUSED rows2)) else Some rows2)"
        using \<open>param ok 0 tc ''goal_id'' = Some i\<close> Some sp
        by (cases "g_status goal = GOAL_STATUS_PAUSED"; cases "g_supervisor_pid goal > 0")
          (simp_all add: execute_start_goal_def alive_def rows0_def rows1_def act_def split_beta Let_def)
      have "k = i \<Longrightarrow> s = g_status goal" using st assms by simp
      with out assms s0 s1 s2 undone show ?thesis by (auto split: if_splits)
    qed
  qed
  then show ?thesis
    using r_into_rtranclp[of goal_edge, OF goal_edge.resume] by auto
qed

lemma pause_edges:
  assumes "status_of (Some rows) k = Some s"
  shows "\<exists>s'. status_of (snd (execute_pause_goal ok now os tc (Some rows))) k = Some s' \<and> goal_edge\<^sup>*\<^sup>* s s'"
proof (cases "\<exists>i goal. param ok 0 tc ''goal_id'' = Some i \<and> goal_store_get (below ok 1) i rows = Some goal \<and> g_status goal = GOAL_STATUS_ACTIVE")
  case False
  then show ?thesis
    using assms by (auto simp: execute_pause_goal_def split: option.splits)
next
  case True
  then obtain i goal where i: "param ok 0 tc ''goal_id'' = Some i" "goal_store_get (below ok 1) i rows = Some goal"
      "g_status goal = GOAL_STATUS_ACTIVE" by blast
  then have "k = i \<Longrightarrow> s = GOAL_STATUS_ACTIVE"
    using get_status[OF i(2)] assms by simp
  moreover have "goal_edge\<^sup>*\<^sup>* GOAL_STATUS_ACTIVE GOAL_STATUS_PAUSED"
    by (rule r_into_rtranclp) simp
  ultimately show ?thesis
    using status_of_kill[OF assms, of i "below ok 2" now os] i by (auto simp: execute_pause_goal_def split_beta)
qed

lemma cancel_edges:
  assumes "status_of (Some rows) k = Some s"
  shows "\<exists>s'. status_of (snd (execute_cancel_goal ok now os tc (Some rows))) k = Some s' \<and> goal_edge\<^sup>*\<^sup>* s s'"
proof (cases "\<exists>i goal. param ok 0 tc ''goal_id'' = Some i \<and> goal_store_get (below ok 1) i rows = Some goal \<and>
    g_status goal \<notin> {GOAL_STATUS_COMPLETED, GOAL_STATUS_FAILED}")
  case False
  then show ?thesis
    using assms by (auto simp: execute_cancel_goal_def split: option.splits)
next
  case True
  then obtain i goal where i: "param ok 0 tc ''goal_id'' = Some i" "goal_store_get (below ok 1) i rows = Some goal"
      "g_status goal \<notin> {GOAL_STATUS_COMPLETED, GOAL_STATUS_FAILED}" by blast
  have s: "k = i \<Longrightarrow> s \<in> {GOAL_STATUS_PLANNING, GOAL_STATUS_ACTIVE, GOAL_STATUS_PAUSED}"
    using get_status[OF i(2)] assms i(3) by (cases s) auto
  define rows1 where "rows1 = (if g_supervisor_pid goal > 0
    then snd (orchestrator_kill_supervisor (below ok 2) now os i rows) else rows)"
  obtain s1 where s1: "status_of (Some rows1) k = Some s1" "s1 = s \<or> k = i \<and> s1 = GOAL_STATUS_PAUSED"
    using status_of_kill[of rows k s i "below ok 2" now os, OF assms s] assms by (cases "g_supervisor_pid goal > 0") (auto simp: rows1_def)
  have out: "snd (execute_cancel_goal ok now os tc (Some rows)) =
      Some (snd (goal_store_update_status (below ok 3) now i GOAL_STATUS_FAILED rows1))"
    using i by (simp add: execute_cancel_goal_def rows1_def Let_def)
  show ?thesis
    unfolding out using s1 s by (cases s) (auto simp: status_of_update_status intro: goal_edge.intros)
qed

interpretation control: lifecycle control_step status_of goal_edge
proof
  fix store :: "goal_row list option" and k v x
  assume a: "status_of store k = Some v"
  then obtain rows where rows: "store = Some rows" by (cases store) (simp_all add: status_of_def)
  show "\<exists>v'. status_of (control_step x store) k = Some v' \<and> goal_edge\<^sup>*\<^sup>* v v'"
  proof (cases x)
    case (RespawnDead ok now os)
    then show ?thesis
      using a rows by (auto simp: orchestrator_respawn_dead_def Let_def split_beta)
  qed (use a rows start_edges pause_edges cancel_edges in
      \<open>auto simp: orchestrator_reap_supervisors_def orchestrator_check_stale_def\<close>)
qed

text \<open>C6. A goal that is over stays over. Whatever calls of the control operations follow, with whatever failures of
  the database and answers of the operating system, a goal that is completed or failed keeps its status,
  and any other goal stays in the store and changes its status only from planning or active to paused,
  from paused to active, and from these to failed: no control operation completes a goal or makes one
  active that was not paused.\<close>

theorem finished_goals_stay:
  assumes "status_of store i = Some s"
  shows "\<exists>s'. status_of (fold control_step ops store) i = Some s' \<and> goal_edge\<^sup>*\<^sup>* s s' \<and>
    (s \<in> {GOAL_STATUS_COMPLETED, GOAL_STATUS_FAILED} \<longrightarrow> s' = s) \<and> (s' = GOAL_STATUS_COMPLETED \<longrightarrow> s = GOAL_STATUS_COMPLETED)"
proof -
  obtain s' where s': "status_of (fold control_step ops store) i = Some s'" "goal_edge\<^sup>*\<^sup>* s s'"
    using control.run_edges[OF assms] by blast
  have "s' = s" if "s \<in> {GOAL_STATUS_COMPLETED, GOAL_STATUS_FAILED}"
    using control.run_terminal[OF assms, of ops] that s'(1) by auto
  moreover have "s = GOAL_STATUS_COMPLETED" if "s' = GOAL_STATUS_COMPLETED"
    using s'(2) that by (cases rule: rtranclp.cases) (auto elim: goal_edge.cases)
  ultimately show ?thesis using s' by blast
qed

section \<open>Supervisors that are started again\<close>

definition goal_table :: "goal_row list \<Rightarrow> bool" where
  "goal_table rows \<longleftrightarrow> distinct (map g_id rows) \<and> (\<forall>g \<in> set rows. short_id (g_id g))"

definition phase_of :: "GoalStatus \<Rightarrow> string" where
  "phase_of s = (if s = GOAL_STATUS_PLANNING then ''plan'' else ''execute'')"

text \<open>Programs can be started.\<close>

definition spawns :: "os_answers \<Rightarrow> bool" where
  "spawns os \<longleftrightarrow> os_exe_path os \<and> (\<forall>n. \<exists>p > 0. os_spawn os n = Some p)"

definition pid_of :: "goal_row list \<Rightarrow> string \<Rightarrow> int option" where
  "pid_of rows i = map_option g_supervisor_pid (find (\<lambda>g. g_id g = i) rows)"

lemma update_supervisor_lookup:
  "find (\<lambda>g. g_id g = k) (snd (goal_store_update_supervisor all_ok now i pid t rows)) =
    (if k = i then map_option (\<lambda>g. g\<lparr>g_supervisor_pid := pid, g_supervisor_started_at := t, g_updated_at := now\<rparr>)
       (find (\<lambda>g. g_id g = k) rows) else find (\<lambda>g. g_id g = k) rows)"
proof -
  have "keeps g_id (\<lambda>g::goal_row. g\<lparr>g_supervisor_pid := pid, g_supervisor_started_at := t, g_updated_at := now\<rparr>)"
    by (simp add: keeps_def)
  from goals.update_lookup[OF this, of k i rows] show ?thesis
    by (simp add: goal_store_update_supervisor_def goal_update_def sqlite_dal_exec_p_def Let_def)
qed

lemma sql_count_pos: "find P rows = Some r \<Longrightarrow> sql_count P rows > 0"
  by (induction rows) (auto simp: sql_count_def split: if_splits)

text \<open>The goals of a set have got a supervisor, no other goal has changed.\<close>

definition restarted :: "string set \<Rightarrow> goal_row list \<Rightarrow> goal_row list \<Rightarrow> bool" where
  "restarted K rows rows' \<longleftrightarrow> (\<forall>k. (k \<in> K \<longrightarrow> (\<exists>g g'. find (\<lambda>x. g_id x = k) rows = Some g \<and>
       find (\<lambda>x. g_id x = k) rows' = Some g' \<and> g_supervisor_pid g' > 0 \<and> g_status g' = g_status g)) \<and>
     (k \<notin> K \<longrightarrow> find (\<lambda>x. g_id x = k) rows' = find (\<lambda>x. g_id x = k) rows))"

lemma restarted_trans: "restarted K rows rows1 \<Longrightarrow> restarted L rows1 rows2 \<Longrightarrow> restarted (K \<union> L) rows rows2"
  unfolding restarted_def by (metis Un_iff option.inject)

lemma restarted_refl: "restarted {} rows rows"
  by (simp add: restarted_def)

lemma spawn_ok:
  assumes "find (\<lambda>g. g_id g = i) rows = Some g" and "spawns os"
  obtains rows' where "orchestrator_spawn_supervisor all_ok now os n i rows = (0, [(i, phase_of (g_status g))], rows')"
    and "restarted {i} rows rows'"
proof -
  obtain p where p: "p > 0" "os_spawn os n = Some p" "os_exe_path os"
    using assms(2) by (auto simp: spawns_def)
  have rc: "fst (goal_store_update_supervisor all_ok now i p (os_millis os) rows) = 0"
    using sql_count_pos[OF assms(1)]
    by (simp add: goal_store_update_supervisor_def goal_update_def sqlite_dal_exec_p_def)
  have "orchestrator_spawn_supervisor all_ok now os n i rows =
      (0, [(i, phase_of (g_status g))], snd (goal_store_update_supervisor all_ok now i p (os_millis os) rows))"
    using p assms(1) rc
    by (simp add: orchestrator_spawn_supervisor_def goal_store_get_ok phase_of_def goal_of_def Let_def split_beta)
  from that[OF this] p(1) assms(1) show thesis
    by (simp add: restarted_def update_supervisor_lookup)
qed

definition unsupervised :: "goal_row list \<Rightarrow> goal_row list" where
  "unsupervised gs = filter (\<lambda>g. g_supervisor_pid g = 0) gs"

text \<open>The loop over the goals of one status starts a supervisor for each goal without one.\<close>

lemma respawn_goals_ok:
  assumes "spawns os"
    and "\<forall>g \<in> set gs. short_id (g_id g) \<and> status_of (Some rows) (g_id g) = Some s"
  shows "\<exists>rows'. respawn_goals all_ok now os n (map goal_of gs) (lg, rows) =
      (lg @ map (\<lambda>g. (g_id g, phase_of s)) (unsupervised gs), rows') \<and> restarted (g_id ` set (unsupervised gs)) rows rows'"
  using assms(2)
proof (induction gs arbitrary: n lg rows)
  case Nil
  then show ?case by (simp add: restarted_refl unsupervised_def)
next
  case (Cons g gs)
  have id: "g_id (goal_of g) = g_id g" "g_supervisor_pid (goal_of g) = g_supervisor_pid g"
    using Cons.prems by (auto simp: goal_of_def short_id_def)
  show ?case
  proof (cases "g_supervisor_pid g = 0")
    case False
    with Cons.IH[of rows "Suc n" lg] Cons.prems id show ?thesis by (simp add: unsupervised_def)
  next
    case True
    obtain g0 where g0: "find (\<lambda>x. g_id x = g_id g) rows = Some g0" "g_status g0 = s"
      using Cons.prems by (auto simp: status_of_def)
    obtain rows1 where r1: "orchestrator_spawn_supervisor all_ok now os n (g_id g) rows = (0, [(g_id g, phase_of s)], rows1)"
        "restarted {g_id g} rows rows1"
      using spawn_ok[OF g0(1) assms(1), of now n] g0(2) by metis
    have "status_of (Some rows1) k = status_of (Some rows) k" for k
      using status_of_spawn[of all_ok now os n "g_id g" rows k] r1(1) by simp
    then have prem: "\<forall>g' \<in> set gs. short_id (g_id g') \<and> status_of (Some rows1) (g_id g') = Some s"
      using Cons.prems by simp
    obtain rows' where "respawn_goals all_ok now os (Suc n) (map goal_of gs) (lg @ [(g_id g, phase_of s)], rows1) =
        (lg @ map (\<lambda>g. (g_id g, phase_of s)) (unsupervised (g # gs)), rows')"
      and l2: "restarted (g_id ` set (unsupervised gs)) rows1 rows'"
      using Cons.IH[OF prem, of "Suc n" "lg @ [(g_id g, phase_of s)]"] True by (auto simp: unsupervised_def)
    with r1(1) True id have "respawn_goals all_ok now os n (map goal_of (g # gs)) (lg, rows) =
        (lg @ map (\<lambda>g. (g_id g, phase_of s)) (unsupervised (g # gs)), rows')"
      by simp
    moreover have "restarted (g_id ` set (unsupervised (g # gs))) rows rows'"
      using restarted_trans[OF r1(2) l2] True by (simp add: unsupervised_def)
    ultimately show ?thesis by blast
  qed
qed

lemma status_query:
  assumes "goal_table rows" and "qs = sort_key g_created_at (filter (\<lambda>r. g_status r = s) rows)"
  shows "goal_store_list_by_status all_ok s rows = map goal_of qs" and "distinct (map g_id qs)"
    and "\<forall>g \<in> set qs. short_id (g_id g) \<and> status_of (Some rows) (g_id g) = Some s"
    and "set qs = {g \<in> set rows. g_status g = s}"
proof -
  show "set qs = {g \<in> set rows. g_status g = s}" by (simp add: assms(2))
  have "inj_on g_id (set rows)" "distinct rows"
    using assms(1) by (simp_all add: goal_table_def distinct_map)
  then show "distinct (map g_id qs)"
    by (auto simp: assms(2) distinct_map intro: inj_on_subset)
  show "goal_store_list_by_status all_ok s rows = map goal_of qs"
    by (simp add: goal_list_ok assms(2))
  have "find (\<lambda>x. g_id x = g_id g) rows = Some g" if "g \<in> set rows" for g
    using assms(1) that goals.lookup_member[of rows "g_id g" g] by (simp add: goal_table_def)
  then show "\<forall>g \<in> set qs. short_id (g_id g) \<and> status_of (Some rows) (g_id g) = Some s"
    using assms by (auto simp: goal_table_def status_of_def)
qed

lemma respawn_goals_keys:
  "map g_id (snd (respawn_goals all_ok now os n gs acc)) = map g_id (snd acc)"
proof (induction gs arbitrary: n acc)
  case (Cons g gs)
  have keys: "map g_id (snd (goal_store_update_supervisor ok' now i pid t rows)) = map g_id rows" for ok' i pid t rows
    by (auto simp: goal_store_update_supervisor_def goal_update_def sqlite_dal_exec_p_def sql_update_def Let_def)
  obtain lg rows where acc: "acc = (lg, rows)" by (cases acc)
  have "map g_id (snd (snd (orchestrator_spawn_supervisor ok' now os n i rows))) = map g_id rows" for ok' i
    using keys by (auto simp: orchestrator_spawn_supervisor_def Let_def split_beta split: option.split)
  with Cons acc show ?case by (simp add: split_beta)
qed simp

lemma table_of_keys:
  assumes "goal_table rows" and "map g_id rows' = map g_id rows"
  shows "goal_table rows'"
  using assms by (metis (mono_tags, lifting) goal_table_def imageE image_eqI list.set_map)

text \<open>The goals of a status that have no supervisor keep having none while those of the other status get one.\<close>

lemma restarted_others:
  assumes "goal_table rows" and "goal_table rows'" and "restarted K rows rows'" and "\<forall>g \<in> set rows. g_id g \<in> K \<longrightarrow> g_status g \<noteq> s"
  shows "{g \<in> set rows'. g_status g = s} = {g \<in> set rows. g_status g = s}"
proof -
  have mem: "g \<in> set xs \<longleftrightarrow> find (\<lambda>x. g_id x = g_id g) xs = Some g" if "goal_table xs" for g xs
    using that goals.lookup_member[of xs "g_id g" g] by (simp add: goal_table_def)
  show ?thesis
  proof (intro equalityI subsetI)
    fix g assume "g \<in> {g \<in> set rows'. g_status g = s}"
    then have g: "find (\<lambda>x. g_id x = g_id g) rows' = Some g" "g_status g = s"
      using mem[OF assms(2)] by auto
    have "g_id g \<notin> K"
    proof
      assume "g_id g \<in> K"
      then obtain g0 where g0: "find (\<lambda>x. g_id x = g_id g) rows = Some g0" "g_status g0 = s"
        using assms(3) g unfolding restarted_def by fastforce
      then have "g0 \<in> set rows" "g_id g0 = g_id g" by (auto simp: find_Some_iff)
      with assms(4) g0(2) \<open>g_id g \<in> K\<close> show False by auto
    qed
    with assms(3) g mem[OF assms(1)] show "g \<in> {g \<in> set rows. g_status g = s}"
      by (simp add: restarted_def)
  next
    fix g assume g: "g \<in> {g \<in> set rows. g_status g = s}"
    with assms(4) have "g_id g \<notin> K" by auto
    with g assms(3) have "find (\<lambda>x. g_id x = g_id g) rows' = Some g"
      using mem[OF assms(1), of g] by (simp add: restarted_def)
    with g mem[OF assms(2), of g] show "g \<in> {g \<in> set rows'. g_status g = s}" by simp
  qed
qed

lemma respawn_phase:
  assumes "goal_table rows" and "spawns os" and "qs = sort_key g_created_at (filter (\<lambda>r. g_status r = s) rows)"
  obtains rows' where "respawn_goals all_ok now os n (goal_store_list_by_status all_ok s rows) (lg, rows) =
      (lg @ map (\<lambda>g. (g_id g, phase_of s)) (unsupervised qs), rows')"
    and "restarted (g_id ` set (unsupervised qs)) rows rows'" and "goal_table rows'"
proof -
  note q = status_query[OF assms(1,3)]
  obtain rows' where r: "respawn_goals all_ok now os n (map goal_of qs) (lg, rows) =
      (lg @ map (\<lambda>g. (g_id g, phase_of s)) (unsupervised qs), rows')" "restarted (g_id ` set (unsupervised qs)) rows rows'"
    using respawn_goals_ok[OF assms(2) q(3)] by blast
  then have "goal_table rows'"
    using table_of_keys[OF assms(1)] respawn_goals_keys[of now os n "map goal_of qs" "(lg, rows)"] by simp
  with that r q(1) show thesis by simp
qed

text \<open>The lg is made of the goals without a supervisor of the two statuses.\<close>

lemma respawn_parts:
  assumes "goal_table rows" and "spawns os" and "orchestrator_respawn_dead all_ok now os rows = (n, lg, rows')"
  obtains P A where "lg = map (\<lambda>g. (g_id g, ''plan'')) P @ map (\<lambda>g. (g_id g, ''execute'')) A" and "n = int (length lg)"
    and "set P = {g \<in> set rows. g_status g = GOAL_STATUS_PLANNING \<and> g_supervisor_pid g = 0}"
    and "set A = {g \<in> set rows. g_status g = GOAL_STATUS_ACTIVE \<and> g_supervisor_pid g = 0}"
    and "distinct (map g_id P)" and "distinct (map g_id A)" and "restarted (g_id ` set P \<union> g_id ` set A) rows rows'"
proof -
  define P where "P = sort_key g_created_at (filter (\<lambda>r. g_status r = GOAL_STATUS_PLANNING) rows)"
  obtain rows1 where r1: "respawn_goals all_ok now os 0 (goal_store_list_by_status all_ok GOAL_STATUS_PLANNING rows) ([], rows) =
      ([] @ map (\<lambda>g. (g_id g, phase_of GOAL_STATUS_PLANNING)) (unsupervised P), rows1)"
      "restarted (g_id ` set (unsupervised P)) rows rows1" "goal_table rows1"
    using respawn_phase[OF assms(1,2) P_def] by blast
  define A where "A = sort_key g_created_at (filter (\<lambda>r. g_status r = GOAL_STATUS_ACTIVE) rows1)"
  obtain rows2 where r2: "respawn_goals all_ok now os (length (goal_store_list_by_status all_ok GOAL_STATUS_PLANNING rows))
        (goal_store_list_by_status all_ok GOAL_STATUS_ACTIVE rows1) (map (\<lambda>g. (g_id g, ''plan'')) (unsupervised P), rows1) =
      (map (\<lambda>g. (g_id g, ''plan'')) (unsupervised P) @ map (\<lambda>g. (g_id g, phase_of GOAL_STATUS_ACTIVE)) (unsupervised A), rows2)"
      "restarted (g_id ` set (unsupervised A)) rows1 rows2"
    using respawn_phase[OF r1(3) assms(2) A_def] by blast
  have lg: "lg = map (\<lambda>g. (g_id g, ''plan'')) (unsupervised P) @ map (\<lambda>g. (g_id g, ''execute'')) (unsupervised A)"
    and n: "n = int (length lg)" and rows': "rows' = rows2"
    using assms(3) r1(1) r2(1) by (auto simp: orchestrator_respawn_dead_def Let_def phase_of_def)
  have setP: "set (unsupervised P) = {g \<in> set rows. g_status g = GOAL_STATUS_PLANNING \<and> g_supervisor_pid g = 0}"
    by (auto simp: unsupervised_def P_def)
  have "inj_on g_id (set rows)" using assms(1) by (simp add: goal_table_def distinct_map)
  then have "\<forall>g \<in> set rows. g_id g \<in> g_id ` set (unsupervised P) \<longrightarrow> g_status g \<noteq> GOAL_STATUS_ACTIVE"
    using setP by (auto dest: inj_onD)
  from restarted_others[OF assms(1) r1(3,2) this]
  have setA: "set (unsupervised A) = {g \<in> set rows. g_status g = GOAL_STATUS_ACTIVE \<and> g_supervisor_pid g = 0}"
    by (auto simp: unsupervised_def A_def)
  have d: "distinct (map g_id (unsupervised P))" "distinct (map g_id (unsupervised A))"
    using status_query(2)[OF assms(1) P_def] status_query(2)[OF r1(3) A_def]
    by (simp_all add: unsupervised_def distinct_map_filter)
  show thesis
    using that[OF lg n setP setA d] restarted_trans[OF r1(2) r2(2)] rows' by simp
qed

text \<open>C31. Every goal that is being planned or is active gets its supervisor back. When the database answers and
  programs can be started, then after \<^verbatim>\<open>orchestrator_respawn_dead\<close> the log holds, once each, exactly the
  goals without a supervisor that are being planned, started in the phase of planning, and those that
  are active, started in the phase of execution; the result is their number; each of these goals now has
  a supervisor, and no other goal has changed.\<close>

theorem respawn_restores_supervisors:
  assumes "goal_table rows" and "spawns os" and "orchestrator_respawn_dead all_ok now os rows = (n, lg, rows')"
  shows "(\<forall>i ph. (i, ph) \<in> set lg \<longleftrightarrow> (\<exists>g \<in> set rows. g_id g = i \<and> g_supervisor_pid g = 0 \<and>
      (g_status g = GOAL_STATUS_PLANNING \<and> ph = ''plan'' \<or> g_status g = GOAL_STATUS_ACTIVE \<and> ph = ''execute''))) \<and>
    distinct (map fst lg) \<and> n = int (length lg) \<and> restarted (fst ` set lg) rows rows'"
proof -
  obtain P A where lg: "lg = map (\<lambda>g. (g_id g, ''plan'')) P @ map (\<lambda>g. (g_id g, ''execute'')) A" and n: "n = int (length lg)"
    and P: "set P = {g \<in> set rows. g_status g = GOAL_STATUS_PLANNING \<and> g_supervisor_pid g = 0}"
    and A: "set A = {g \<in> set rows. g_status g = GOAL_STATUS_ACTIVE \<and> g_supervisor_pid g = 0}"
    and d: "distinct (map g_id P)" "distinct (map g_id A)" and r: "restarted (g_id ` set P \<union> g_id ` set A) rows rows'"
    by (rule respawn_parts[OF assms])
  have "inj_on g_id (set rows)" using assms(1) by (simp add: goal_table_def distinct_map)
  then have "distinct (map fst lg)"
    using P A d by (auto simp: lg o_def dest: inj_onD)
  moreover have "restarted (fst ` set lg) rows rows'"
    using r by (simp add: lg image_Un image_image)
  moreover have "(i, ph) \<in> set lg \<longleftrightarrow> (\<exists>g \<in> set rows. g_id g = i \<and> g_supervisor_pid g = 0 \<and>
      (g_status g = GOAL_STATUS_PLANNING \<and> ph = ''plan'' \<or> g_status g = GOAL_STATUS_ACTIVE \<and> ph = ''execute''))" for i ph
    using P A by (auto simp: lg)
  ultimately show ?thesis using n by blast
qed

lemma respawn_log:
  assumes "goal_table rows" and "spawns os" and "orchestrator_respawn_dead all_ok now os rows = (n, lg, rows')"
  shows "i \<in> fst ` set lg \<longleftrightarrow> (\<exists>g \<in> set rows. g_id g = i \<and> g_supervisor_pid g = 0 \<and>
    g_status g \<in> {GOAL_STATUS_PLANNING, GOAL_STATUS_ACTIVE})"
proof -
  obtain P A where lg: "lg = map (\<lambda>g. (g_id g, ''plan'')) P @ map (\<lambda>g. (g_id g, ''execute'')) A" and "n = int (length lg)"
    and P: "set P = {g \<in> set rows. g_status g = GOAL_STATUS_PLANNING \<and> g_supervisor_pid g = 0}"
    and A: "set A = {g \<in> set rows. g_status g = GOAL_STATUS_ACTIVE \<and> g_supervisor_pid g = 0}"
    and "distinct (map g_id P)" "distinct (map g_id A)" "restarted (g_id ` set P \<union> g_id ` set A) rows rows'"
    by (rule respawn_parts[OF assms])
  have "fst ` set lg = g_id ` set P \<union> g_id ` set A"
    by (simp add: lg image_Un image_image)
  then show ?thesis by (auto simp: P A)
qed

section \<open>Pausing a goal\<close>

lemma kill_lookup:
  assumes "find (\<lambda>g. g_id g = i) rows = Some g" and "orchestrator_kill_supervisor all_ok now os i rows = (0, rows')"
  shows "g_supervisor_pid g > 0 \<and> os_term os (g_supervisor_pid g) \<noteq> NotPermitted \<and> map g_id rows' = map g_id rows \<and>
    (\<exists>g'. find (\<lambda>g. g_id g = i) rows' = Some g' \<and> g_supervisor_pid g' = 0 \<and>
      g_status g' = (if os_term os (g_supervisor_pid g) = Delivered then GOAL_STATUS_PAUSED else g_status g))"
proof -
  have k: "keeps g_id (\<lambda>g::goal_row. g\<lparr>g_status := s, g_updated_at := now\<rparr>)" for s by (simp add: keeps_def)
  have status: "find (\<lambda>g. g_id g = i) (snd (goal_store_update_status all_ok now i s xs)) =
      map_option (\<lambda>g. g\<lparr>g_status := s, g_updated_at := now\<rparr>) (find (\<lambda>g. g_id g = i) xs)" for s xs
    using goals.update_lookup[OF k, of i i s xs]
    by (simp add: goal_store_update_status_def goal_update_def sqlite_dal_exec_p_def Let_def)
  have keys: "map g_id (snd (goal_store_update_status all_ok now i s xs)) = map g_id xs"
      "map g_id (snd (goal_store_update_supervisor all_ok now i p t xs)) = map g_id xs" for s xs p t
    by (simp_all add: goal_store_update_status_def goal_store_update_supervisor_def goal_update_def sqlite_dal_exec_p_def
        sql_update_def Let_def)
  have pid: "g_supervisor_pid (goal_of g) = g_supervisor_pid g" by (simp add: goal_of_def)
  show ?thesis
    using assms
    by (auto simp: orchestrator_kill_supervisor_def goal_store_get_ok Let_def pid status keys update_supervisor_lookup
        split: if_splits signal_result.splits)
qed

text \<open>Pausing works only while the supervisor runs. When the tool reports that it paused a goal, the goal was
  active and no supervisor is recorded for it any more; but its status is paused only if the signal
  reached the supervisor. If the process was gone, the goal is still active, and the next time that
  supervisors are started again it gets a new one.\<close>

theorem pause_needs_running_supervisor:
  assumes "execute_pause_goal all_ok now os tc (Some rows) = (ToolSuccess ans, Some rows')"
    and "param all_ok 0 tc ''goal_id'' = Some i" and "find (\<lambda>g. g_id g = i) rows = Some g"
    and "goal_table rows" and "spawns os'" and "orchestrator_respawn_dead all_ok later os' rows' = (n, lg, rows'')"
  shows "g_status g = GOAL_STATUS_ACTIVE \<and> pid_of rows' i = Some 0 \<and>
    status_of (Some rows') i = Some (if os_term os (g_supervisor_pid g) = Delivered then GOAL_STATUS_PAUSED else GOAL_STATUS_ACTIVE) \<and>
    (i \<in> fst ` set lg \<longleftrightarrow> os_term os (g_supervisor_pid g) = NoSuchProcess)"
proof -
  have st: "g_status (goal_of g) = g_status g" by (simp add: goal_of_def)
  have active: "g_status g = GOAL_STATUS_ACTIVE" and k: "orchestrator_kill_supervisor all_ok now os i rows = (0, rows')"
    using assms(1-3) by (auto simp: execute_pause_goal_def goal_store_get_ok st split: if_splits prod.splits)
  obtain g' where g': "find (\<lambda>g. g_id g = i) rows' = Some g'" "g_supervisor_pid g' = 0"
      "g_status g' = (if os_term os (g_supervisor_pid g) = Delivered then GOAL_STATUS_PAUSED else GOAL_STATUS_ACTIVE)"
      and sig: "os_term os (g_supervisor_pid g) \<noteq> NotPermitted" and keys: "map g_id rows' = map g_id rows"
    using kill_lookup[OF assms(3) k] active by auto
  have table: "goal_table rows'" using table_of_keys[OF assms(4) keys] .
  have mem: "x \<in> set rows' \<and> g_id x = i \<longleftrightarrow> x = g'" for x
    using goals.lookup_member[of rows' i x] g'(1) table by (auto simp: goal_table_def)
  have "i \<in> fst ` set lg \<longleftrightarrow> g_status g' \<in> {GOAL_STATUS_PLANNING, GOAL_STATUS_ACTIVE}"
    using respawn_log[OF table assms(5,6), of i] mem g'(2) by metis
  with g' sig active show ?thesis
    by (cases "os_term os (g_supervisor_pid g)") (auto simp: pid_of_def status_of_def)
qed

section \<open>Examples\<close>

definition sample_os :: os_answers where
  "sample_os = \<lparr>os_probe = (\<lambda>_. NoSuchProcess), os_term = (\<lambda>_. NoSuchProcess), os_wait = (\<lambda>_. -1), os_exe_path = True,
     os_spawn = (\<lambda>n. Some (int n + 100)), os_millis = 5\<rparr>"

definition sample_supervised :: goal_row where
  "sample_supervised = (sample_goal sample_open)\<lparr>g_supervisor_pid := 42\<rparr>"

definition sample_pause :: ToolCall where
  "sample_pause = call_of (''{'' @ quoted ''goal_id'' @ '':'' @ quoted ''g1'' @ ''}'')"

lemma sample_os_spawns: "spawns sample_os"
  unfolding spawns_def sample_os_def by (auto intro: exI[of _ "int _ + 100"])

lemma sample_pause_runs:
  "execute_pause_goal all_ok 8 sample_os sample_pause (Some [sample_supervised]) =
     (ToolSuccess (PausedGoal ''g1''), Some [sample_supervised\<lparr>g_supervisor_pid := 0, g_updated_at := 8\<rparr>])"
  "orchestrator_respawn_dead all_ok 9 sample_os [sample_supervised\<lparr>g_supervisor_pid := 0, g_updated_at := 8\<rparr>] =
     (1, [(''g1'', ''execute'')], [sample_supervised\<lparr>g_supervisor_pid := 100, g_supervisor_started_at := 5, g_updated_at := 9\<rparr>])"
  "param all_ok 0 sample_pause ''goal_id'' = Some ''g1''"
  by code_simp+

theorem pause_needs_running_supervisor_witness:
  "status_of (Some [sample_supervised\<lparr>g_supervisor_pid := 0, g_updated_at := 8\<rparr>]) ''g1'' = Some GOAL_STATUS_ACTIVE"
proof -
  have "find (\<lambda>g. g_id g = ''g1'') [sample_supervised] = Some sample_supervised" "goal_table [sample_supervised]"
    by (simp_all add: sample_supervised_def sample_goal_def goal_table_def short_id_def)
  from pause_needs_running_supervisor[OF sample_pause_runs(1,3) this sample_os_spawns sample_pause_runs(2)] show ?thesis
    by (simp add: sample_os_def)
qed

theorem respawn_restores_supervisors_witness:
  "restarted {''g1''} [sample_supervised\<lparr>g_supervisor_pid := 0, g_updated_at := 8\<rparr>]
     [sample_supervised\<lparr>g_supervisor_pid := 100, g_supervisor_started_at := 5, g_updated_at := 9\<rparr>]"
proof -
  have "goal_table [sample_supervised\<lparr>g_supervisor_pid := 0, g_updated_at := 8\<rparr>]"
    by (simp add: sample_supervised_def sample_goal_def goal_table_def short_id_def)
  from respawn_restores_supervisors[OF this sample_os_spawns sample_pause_runs(2)] show ?thesis by simp
qed

theorem finished_goals_stay_witness:
  "status_of (fold control_step [CancelGoal all_ok 8 sample_os sample_pause, RespawnDead all_ok 9 sample_os]
     (Some [sample_supervised\<lparr>g_status := GOAL_STATUS_COMPLETED\<rparr>])) ''g1'' = Some GOAL_STATUS_COMPLETED"
proof -
  have "status_of (Some [sample_supervised\<lparr>g_status := GOAL_STATUS_COMPLETED\<rparr>]) ''g1'' = Some GOAL_STATUS_COMPLETED"
    by (simp add: status_of_def sample_supervised_def sample_goal_def)
  from finished_goals_stay[OF this] show ?thesis by blast
qed

end
