(* ===== verification/Worker.thy ===== *)
theory Worker
  imports Sqlite_Stores Decimal Conversation
begin

text \<open>
  A worker, the mode \<^verbatim>\<open>AGENT_MODE_WORKER\<close> of \<^verbatim>\<open>agent_run\<close> in \<^verbatim>\<open>lib/agent/agent.c\<close>: it claims the items of its
  queue one after the other, has the session work on each and reports what came out, until nothing is left
  or a signal stops it. The session is an argument: what \<^verbatim>\<open>session_process_message\<close> returns for a message
  and an empty conversation, and the messages of the conversation afterwards. The signal and the memory for
  the message are arguments too. The loop has fuel; enough of it is one round for every attempt that is left
  in the queue.
\<close>

section \<open>The loop\<close>

record work_answer =
  wa_running :: bool
  wa_memory :: bool
  wa_session :: "string \<Rightarrow> int \<times> ConversationMessage list"

datatype work_outcome = WorkDone string | WorkInterrupted | WorkFailed string

definition work_message :: "WorkItem \<Rightarrow> string" where
  "work_message item =
     (case wi_context item of
        Some (c # cs) \<Rightarrow> ''Context: '' @ (c # cs) @ [CHR 0x0A, CHR 0x0A] @ ''Task: '' @ wi_task_description item
      | _ \<Rightarrow> wi_task_description item)"

text \<open>The content of the last message of the assistant that has one.\<close>

fun worker_result :: "ConversationMessage list \<Rightarrow> string \<Rightarrow> string" where
  "worker_result [] text = text"
| "worker_result (m # ms) text =
     worker_result ms (if cm_role m = Some ''assistant'' then case cm_content m of Some c \<Rightarrow> c | None \<Rightarrow> text else text)"

definition work_item_outcome :: "work_answer \<Rightarrow> WorkItem \<Rightarrow> work_outcome" where
  "work_item_outcome a item =
     (if \<not> wa_memory a then WorkFailed ''Failed to allocate message''
      else case wa_session a (work_message item) of
             (result, conv) \<Rightarrow>
               if result = 0 then WorkDone (worker_result conv ''Task completed successfully'')
               else if result = -2 then WorkInterrupted
               else WorkFailed (''Task processing failed with code '' @ decimal result))"

text \<open>The counters are those of the items processed and of the errors.\<close>

definition report_work ::
    "sites \<Rightarrow> int \<Rightarrow> string \<Rightarrow> string \<Rightarrow> work_outcome \<Rightarrow> WorkItem list \<times> int \<times> int \<Rightarrow> WorkItem list \<times> int \<times> int" where
  "report_work ok now queue item_id out s =
     (case s of (rows, processed, errors) \<Rightarrow>
        (case out of
           WorkDone r \<Rightarrow> (snd (work_queue_complete ok now queue item_id (Some r) rows), processed + 1, errors)
         | WorkInterrupted \<Rightarrow> (snd (work_queue_complete ok now queue item_id (Some ''Task interrupted by user'') rows), processed, errors)
         | WorkFailed e \<Rightarrow> (snd (work_queue_fail ok queue item_id (Some e) rows), processed, errors + 1)))"

fun worker_loop ::
    "nat \<Rightarrow> (nat \<Rightarrow> sites) \<Rightarrow> (nat \<Rightarrow> work_answer) \<Rightarrow> int \<Rightarrow> string \<Rightarrow> string \<Rightarrow> nat \<Rightarrow> WorkItem list \<times> int \<times> int
     \<Rightarrow> (WorkItem list \<times> int \<times> int) option" where
  "worker_loop 0 ok ans now queue worker i s = None"
| "worker_loop (Suc fuel) ok ans now queue worker i (rows, processed, errors) =
     (if \<not> wa_running (ans i) then Some (rows, processed, errors)
      else case work_queue_claim (below (ok i) 0) now queue worker rows of
             (None, rows') \<Rightarrow> Some (rows', processed, errors)
           | (Some item, rows') \<Rightarrow>
               worker_loop fuel ok ans now queue worker (Suc i)
                 (report_work (below (ok i) 1) now queue (wi_id item) (work_item_outcome (ans i) item) (rows', processed, errors)))"

text \<open>The exit code, and the items after it; \<open>None\<close> when the fuel is not enough.\<close>

definition run_worker ::
    "nat \<Rightarrow> sites \<Rightarrow> (nat \<Rightarrow> sites) \<Rightarrow> (nat \<Rightarrow> work_answer) \<Rightarrow> int \<Rightarrow> string \<Rightarrow> string \<Rightarrow> WorkItem list
     \<Rightarrow> (int \<times> WorkItem list) option" where
  "run_worker fuel ok oks ans now queue worker rows =
     (case work_queue_create ok queue of
        None \<Rightarrow> Some (-1, rows)
      | Some q \<Rightarrow>
          map_option (\<lambda>(rows', _, errors). (if errors > 0 then -1 else 0, rows'))
            (worker_loop fuel oks ans now q worker 0 (rows, 0, 0)))"

section \<open>Termination\<close>

text \<open>The attempts that are left in a queue.\<close>

definition attempts_left :: "string \<Rightarrow> WorkItem \<Rightarrow> nat" where
  "attempts_left queue r =
     (if wi_queue_name r = queue \<and> wi_status r = WORK_ITEM_PENDING then nat (wi_max_attempts r - wi_attempt_count r) else 0)"

definition queue_work :: "string \<Rightarrow> WorkItem list \<Rightarrow> nat" where
  "queue_work queue rows = sum_list (map (attempts_left queue) rows)"

definition item_table :: "WorkItem list \<Rightarrow> bool" where
  "item_table rows \<longleftrightarrow> distinct (map wi_id rows) \<and> (\<forall>r \<in> set rows. short_id (wi_id r) \<and> item_ok r)"

lemma queue_work_update:
  assumes "distinct (map wi_id rows)" and "r \<in> set rows"
  shows "queue_work queue (sql_update (\<lambda>x. wi_id x = wi_id r) f rows) + attempts_left queue r =
    queue_work queue rows + attempts_left queue (f r)"
  using assms
proof (induction rows)
  case (Cons x rows)
  show ?case
  proof (cases "wi_id x = wi_id r")
    case True
    then have "x = r" and "\<forall>y \<in> set rows. wi_id y \<noteq> wi_id r"
      using Cons.prems by (auto simp: image_iff)
    moreover from this have "sql_update (\<lambda>x. wi_id x = wi_id r) f rows = rows"
      by (simp add: sql_update_def map_idI)
    ultimately show ?thesis by (simp add: queue_work_def sql_update_def)
  next
    case False
    then show ?thesis using Cons by (auto simp: queue_work_def sql_update_def)
  qed
qed simp

definition waiting :: "string \<Rightarrow> WorkItem \<Rightarrow> bool" where
  "waiting queue r \<longleftrightarrow> wi_queue_name r = queue \<and> wi_status r = WORK_ITEM_PENDING"

definition claimed_row :: "int \<Rightarrow> string \<Rightarrow> WorkItem \<Rightarrow> WorkItem" where
  "claimed_row now worker x = x\<lparr>wi_assigned_to := Some worker, wi_status := WORK_ITEM_ASSIGNED,
     wi_attempt_count := wi_attempt_count x + 1, wi_assigned_at := Some now\<rparr>"

lemma claim_Some:
  assumes "work_queue_claim ok now queue worker rows = (Some item, rows')" and "item_table rows"
  obtains r where "r \<in> set rows" and "waiting queue r" and "wi_id item = wi_id r"
    and "rows' = sql_update (\<lambda>x. wi_id x = wi_id r) (claimed_row now worker) rows"
proof -
  obtain r where r: "oldest_pending queue rows = Some r"
    using assms(1) by (auto simp: work_queue_claim_def split: if_splits option.splits)
  note old = oldest_pending_Some[OF r]
  have "short_id (wi_id r)" using assms(2) old(1) by (simp add: item_table_def)
  then have "wi_id item = wi_id r" "rows' = sql_update (\<lambda>x. wi_id x = wi_id r) (claimed_row now worker) rows"
    using assms(1) r
    by (auto simp: work_queue_claim_def map_work_item_def short_id_def Let_def claimed_row_def[abs_def] split: if_splits)
  with that old show thesis by (simp add: waiting_def)
qed

text \<open>What a report makes of the row of the item that was claimed.\<close>

definition reported_row :: "sites \<Rightarrow> int \<Rightarrow> work_outcome \<Rightarrow> WorkItem \<Rightarrow> WorkItem" where
  "reported_row ok now out x =
     (case out of
        WorkDone r \<Rightarrow> if ok [0] \<and> ok [1]
          then x\<lparr>wi_status := WORK_ITEM_COMPLETED, wi_completed_at := Some now, wi_result := Some r\<rparr> else x
      | WorkInterrupted \<Rightarrow> if ok [0] \<and> ok [1]
          then x\<lparr>wi_status := WORK_ITEM_COMPLETED, wi_completed_at := Some now, wi_result := Some ''Task interrupted by user''\<rparr> else x
      | WorkFailed e \<Rightarrow> if ok [0] \<and> ok [1] \<and> ok [2] \<and> ok [3]
          then x\<lparr>wi_status := (if wi_attempt_count x < wi_max_attempts x then WORK_ITEM_PENDING else WORK_ITEM_FAILED),
                 wi_assigned_to := None, wi_error := Some e\<rparr> else x)"

lemma sql_update_id: "(\<And>x. x \<in> set rows \<Longrightarrow> P x \<Longrightarrow> f x = x) \<Longrightarrow> sql_update P f rows = rows"
  by (simp add: sql_update_def map_idI)

lemma sql_update_cong: "(\<And>x. x \<in> set rows \<Longrightarrow> P x = Q x \<and> (P x \<longrightarrow> f x = g x)) \<Longrightarrow> sql_update P f rows = sql_update Q g rows"
  by (simp add: sql_update_def)

lemma report_row:
  assumes "distinct (map wi_id rows)" and "r \<in> set rows" and "wi_queue_name r = queue"
  shows "fst (report_work ok now queue (wi_id r) out (rows, p, e)) = sql_update (\<lambda>x. wi_id x = wi_id r) (reported_row ok now out) rows"
proof -
  have q: "in_queue queue (wi_id r) x \<longleftrightarrow> x = r" "wi_id x = wi_id r \<longleftrightarrow> x = r" if "x \<in> set rows" for x
    using assms that by (auto simp: in_queue_def distinct_map dest: inj_onD)
  have "find (in_queue queue (wi_id r)) rows \<noteq> None"
    using assms(2) q(1)[OF assms(2)] by (auto simp: find_None_iff)
  then have f: "find (in_queue queue (wi_id r)) rows = Some r"
    using q(1) by (auto simp: find_Some_iff)
  show ?thesis
  proof (cases out)
    case (WorkFailed m)
    then show ?thesis
      using f q by (auto simp: report_work_def work_queue_fail_def reported_row_def Let_def
          intro!: sql_update_cong sql_update_id[symmetric])
  qed (use q in \<open>auto simp: report_work_def work_queue_complete_def reported_row_def
        intro!: sql_update_cong sql_update_id[symmetric]\<close>)
qed

text \<open>A round of the loop: the row of the item that was claimed is attempted once more, no other row changes.\<close>

lemma round_row:
  assumes "work_queue_claim ok now queue worker rows = (Some item, rows')" and "item_table rows"
  obtains r f where "r \<in> set rows" and "waiting queue r"
    and "fst (report_work ok' now queue (wi_id item) out (rows', p, e)) = sql_update (\<lambda>x. wi_id x = wi_id r) f rows"
    and "f = (\<lambda>x. reported_row ok' now out (claimed_row now worker x))"
proof -
  obtain r where r: "r \<in> set rows" "waiting queue r" "wi_id item = wi_id r"
      "rows' = sql_update (\<lambda>x. wi_id x = wi_id r) (claimed_row now worker) rows"
    using claim_Some[OF assms] by blast
  let ?c = "claimed_row now worker"
  have keeps: "keeps wi_id ?c" by (simp add: keeps_def claimed_row_def)
  have "distinct (map wi_id rows')"
    using items.update_keys[OF keeps] assms(2) r(4) by (simp add: item_table_def)
  moreover have "?c r \<in> set rows'" using r(1,4) by (auto simp: set_sql_update)
  moreover have "wi_queue_name (?c r) = queue" "wi_id (?c r) = wi_id r"
    using r(2) by (simp_all add: claimed_row_def waiting_def)
  ultimately have "fst (report_work ok' now queue (wi_id r) out (rows', p, e)) =
      sql_update (\<lambda>x. wi_id x = wi_id r) (reported_row ok' now out) rows'"
    using report_row[of rows' "?c r" queue ok' now out p e] by simp
  also have "\<dots> = sql_update (\<lambda>x. wi_id x = wi_id r) (\<lambda>x. reported_row ok' now out (?c x)) rows"
    by (simp add: r(4) sql_update_def claimed_row_def)
  finally show thesis using that r by simp
qed

lemma reported_claimed:
  assumes "item_ok r" and "waiting queue r"
  shows "item_ok (reported_row ok now out (claimed_row now worker r))"
    and "attempts_left queue (reported_row ok now out (claimed_row now worker r)) < attempts_left queue r"
    and "keeps wi_id (\<lambda>x. reported_row ok now out (claimed_row now worker x))"
  using assms
  by (auto simp: item_ok_def waiting_def attempts_left_def reported_row_def claimed_row_def keeps_def split: work_outcome.split)

lemma round_table:
  assumes "item_table rows" and "r \<in> set rows" and "waiting queue r"
    and "f = (\<lambda>x. reported_row ok now out (claimed_row now worker x))"
  shows "item_table (sql_update (\<lambda>x. wi_id x = wi_id r) f rows)"
    and "queue_work queue (sql_update (\<lambda>x. wi_id x = wi_id r) f rows) < queue_work queue rows"
    and "map wi_id (sql_update (\<lambda>x. wi_id x = wi_id r) f rows) = map wi_id rows"
proof -
  have ok: "item_ok r" using assms(1,2) by (simp add: item_table_def)
  note c = reported_claimed[OF ok assms(3), where ok = ok and now = now and out = out and worker = worker]
  show keys: "map wi_id (sql_update (\<lambda>x. wi_id x = wi_id r) f rows) = map wi_id rows"
    using items.update_keys c(3) assms(4) by simp
  have "inj_on wi_id (set rows)" using assms(1) by (simp add: item_table_def distinct_map)
  then have one: "x \<in> set rows \<Longrightarrow> wi_id x = wi_id r \<Longrightarrow> x = r" for x
    using assms(2) by (auto dest: inj_onD)
  show "item_table (sql_update (\<lambda>x. wi_id x = wi_id r) f rows)"
    using assms(1,4) c(1,3) keys one by (auto simp: item_table_def set_sql_update keeps_def)
  show "queue_work queue (sql_update (\<lambda>x. wi_id x = wi_id r) f rows) < queue_work queue rows"
    using queue_work_update[of rows r queue f] assms(1,2,4) c(2) by (simp add: item_table_def)
qed

lemma round_frame:
  assumes "item_table rows" and "r \<in> set rows" and "waiting queue r" and "x \<in> set rows" and "\<not> waiting queue x"
  shows "x \<in> set (sql_update (\<lambda>x. wi_id x = wi_id r) f rows)"
proof -
  have "inj_on wi_id (set rows)" using assms(1) by (simp add: item_table_def distinct_map)
  with assms have "wi_id x \<noteq> wi_id r" by (auto dest: inj_onD)
  with assms(4) show ?thesis by (simp add: set_sql_update)
qed

text \<open>When nothing fails, a claim that finds nothing leaves nothing waiting.\<close>

lemma claim_None_ok:
  assumes "work_queue_claim all_ok now queue worker rows = (None, rows')"
  shows "rows' = rows" and "\<forall>r \<in> set rows. \<not> waiting queue r"
proof -
  have "oldest_pending queue rows = None"
    using assms by (auto simp: work_queue_claim_def copied_def Let_def split: option.splits)
  then have e: "sort_key wi_created_at (filter (\<lambda>r. wi_queue_name r = queue \<and> wi_status r = WORK_ITEM_PENDING) rows) = []"
    by (auto simp: oldest_pending_def split: list.splits)
  have "set (sort_key wi_created_at (filter (\<lambda>r. wi_queue_name r = queue \<and> wi_status r = WORK_ITEM_PENDING) rows)) =
      {r \<in> set rows. waiting queue r}"
    by (auto simp: waiting_def)
  with e show "\<forall>r \<in> set rows. \<not> waiting queue r" by auto
  show "rows' = rows"
    using assms \<open>oldest_pending queue rows = None\<close> by (simp add: work_queue_claim_def)
qed

lemma claim_None_keys:
  assumes "work_queue_claim ok now queue worker rows = (None, rows')" and "item_table rows"
  shows "map wi_id rows' = map wi_id rows" and "\<forall>r \<in> set rows. \<not> waiting queue r \<longrightarrow> r \<in> set rows'"
proof -
  have "rows' = rows \<or> (\<exists>r. r \<in> set rows \<and> waiting queue r \<and> rows' = sql_update (\<lambda>x. wi_id x = wi_id r) (claimed_row now worker) rows)"
    using assms(1) oldest_pending_Some[of queue rows]
    by (auto simp: work_queue_claim_def Let_def claimed_row_def[abs_def] waiting_def split: if_splits option.splits)
  then show "map wi_id rows' = map wi_id rows" and "\<forall>r \<in> set rows. \<not> waiting queue r \<longrightarrow> r \<in> set rows'"
    using round_frame[OF assms(2)] by (auto simp: sql_update_def claimed_row_def)
qed

text \<open>C19. A worker comes to an end and leaves nothing undone. Whatever statements fail and whatever comes out of the
  work, the loop ends within one round for every attempt that is left in its queue; items that were not
  waiting in the queue are unchanged and none is lost. When the database answers and no signal stops the
  worker, no item is left waiting in the queue.\<close>

theorem worker_drains_queue:
  assumes "item_table rows" and "queue_work queue rows < fuel"
  shows "\<exists>rows' processed' errors'. worker_loop fuel ok ans now queue worker i (rows, processed, errors) = Some (rows', processed', errors') \<and>
    map wi_id rows' = map wi_id rows \<and> (\<forall>r \<in> set rows. \<not> waiting queue r \<longrightarrow> r \<in> set rows') \<and>
    ((\<forall>k. ok k = all_ok \<and> wa_running (ans k)) \<longrightarrow> (\<forall>r \<in> set rows'. \<not> waiting queue r))"
  using assms
proof (induction fuel arbitrary: i rows processed errors)
  case (Suc fuel)
  show ?case
  proof (cases "wa_running (ans i)")
    case False
    then show ?thesis by auto
  next
    case True
    obtain item rows1 where c: "work_queue_claim (below (ok i) 0) now queue worker rows = (item, rows1)" by fastforce
    show ?thesis
    proof (cases item)
      case None
      with c True claim_None_keys[of "below (ok i) 0" now queue worker rows rows1] claim_None_ok[of now queue worker rows rows1] Suc.prems(1)
      show ?thesis by auto
    next
      case (Some it)
      obtain r f where r: "r \<in> set rows" "waiting queue r" and f: "f = (\<lambda>x. reported_row (below (ok i) 1) now (work_item_outcome (ans i) it) (claimed_row now worker x))"
          and rep: "fst (report_work (below (ok i) 1) now queue (wi_id it) (work_item_outcome (ans i) it) (rows1, processed, errors)) =
            sql_update (\<lambda>x. wi_id x = wi_id r) f rows"
        using round_row[of "below (ok i) 0" now queue worker rows it rows1] c Some Suc.prems(1) by metis
      obtain p e where s: "report_work (below (ok i) 1) now queue (wi_id it) (work_item_outcome (ans i) it) (rows1, processed, errors) =
          (sql_update (\<lambda>x. wi_id x = wi_id r) f rows, p, e)"
        using rep by (metis prod.collapse)
      note t = round_table[OF Suc.prems(1) r f]
      have "queue_work queue (sql_update (\<lambda>x. wi_id x = wi_id r) f rows) < fuel"
        using t(2) Suc.prems(2) by simp
      from Suc.IH[OF t(1) this, of "Suc i" p e] True c Some s t(3) round_frame[OF Suc.prems(1) r] show ?thesis
        by (fastforce simp: reported_row_def claimed_row_def)
    qed
  qed
qed simp

section \<open>An example\<close>

text \<open>An item that fails once and then succeeds; an interrupted one counts as completed.\<close>

definition waiting_item :: WorkItem where
  "waiting_item = sample_item\<lparr>wi_status := WORK_ITEM_PENDING, wi_attempt_count := 0, wi_assigned_at := None, wi_error := None\<rparr>"

definition sample_answers :: "nat \<Rightarrow> work_answer" where
  "sample_answers i = \<lparr>wa_running = True, wa_memory = True,
     wa_session = (\<lambda>m. (if i = 0 then -1 else 0,
       [\<lparr>cm_role = Some ''assistant'', cm_content = Some ''built'', cm_tool_call_id = None, cm_tool_name = None, cm_has_tool_calls = False\<rparr>]))\<rparr>"

theorem worker_drains_queue_witness:
  "\<exists>rows' processed' errors'. worker_loop 3 (\<lambda>_. all_ok) sample_answers 20 ''q'' ''w'' 0 ([waiting_item], 0, 0) = Some (rows', processed', errors') \<and>
    processed' = 1 \<and> errors' = 1 \<and> map wi_id rows' = [''u''] \<and> (\<forall>r \<in> set rows'. \<not> waiting ''q'' r)"
proof -
  have "item_table [waiting_item]" "queue_work ''q'' [waiting_item] < 3"
    by (simp_all add: item_table_def waiting_item_def sample_item_def short_id_def item_ok_def queue_work_def attempts_left_def)
  from worker_drains_queue[OF this, of "\<lambda>_. all_ok" sample_answers 20 "''w''" 0 0 0]
  obtain rows' p e where w: "worker_loop 3 (\<lambda>_. all_ok) sample_answers 20 ''q'' ''w'' 0 ([waiting_item], 0, 0) = Some (rows', p, e)"
      "map wi_id rows' = [''u'']" "\<forall>r \<in> set rows'. \<not> waiting ''q'' r"
    by (auto simp: sample_answers_def waiting_item_def sample_item_def)
  have "map_option snd (worker_loop 3 (\<lambda>_. all_ok) sample_answers 20 ''q'' ''w'' 0 ([waiting_item], 0, 0)) = Some (1, 1)"
    by code_simp
  with w have "p = 1" "e = 1" by simp_all
  with w show ?thesis by metis
qed

lemma interrupted_counts_as_completed:
  "map_option (\<lambda>(code, rows). (code, map wi_status rows)) (run_worker 3 all_ok (\<lambda>_. all_ok)
     (\<lambda>_. \<lparr>wa_running = True, wa_memory = True, wa_session = (\<lambda>m. (-2, []))\<rparr>) 20 ''q'' ''w'' [waiting_item]) =
   Some (0, [WORK_ITEM_COMPLETED])"
  by code_simp

end
