(* ===== verification/Message_Store.thy ===== *)
theory Message_Store
  imports Sqlite_Stores
begin

text \<open>
  The messages between agents, \<^verbatim>\<open>lib/ipc/message_store.c\<close>: direct messages to one agent, and channels that
  agents publish to and subscribe. The database is a record of four tables. As in \<open>Sqlite_Stores\<close> a table
  is the list of its rows and \<open>ok\<close> says which statements and allocations succeed; \<open>now\<close> is the clock in
  milliseconds and \<open>uuid\<close> the identifier that \<^verbatim>\<open>uuid_generate_v4\<close> makes.

  Queries are ordered by \<^verbatim>\<open>rowid\<close>, which SQLite chooses as one more than the largest in the table, so
  the rows that hold messages have it as a field. Foreign keys are enforced, as the access layer asks for.
\<close>

section \<open>Tables\<close>

record direct_row =
  dr_rowid :: int
  dr_id :: string
  dr_sender_id :: string
  dr_recipient_id :: string
  dr_content :: string
  dr_created_at :: int
  dr_read_at :: "int option"
  dr_expires_at :: "int option"

record DirectMessage =
  dm_id :: string
  dm_sender_id :: string
  dm_recipient_id :: string
  dm_content :: string
  dm_created_at :: int
  dm_read_at :: int
  dm_expires_at :: int

record Channel =
  cl_id :: string
  cl_description :: "string option"
  cl_creator_id :: string
  cl_created_at :: int
  cl_is_persistent :: bool

record Subscription =
  su_channel_id :: string
  su_agent_id :: string
  su_subscribed_at :: int
  su_last_read_at :: int

record post_row =
  po_rowid :: int
  po_id :: string
  po_channel_id :: string
  po_sender_id :: string
  po_content :: string
  po_created_at :: int

record ChannelMessage =
  cg_id :: string
  cg_channel_id :: string
  cg_sender_id :: string
  cg_content :: string
  cg_created_at :: int

record PendingMessage =
  pm_id :: string
  pm_content :: string
  pm_from :: string
  pm_timestamp :: int

record message_db =
  mb_direct :: "direct_row list"
  mb_channels :: "Channel list"
  mb_subscriptions :: "Subscription list"
  mb_posts :: "post_row list"

definition next_rowid :: "('r \<Rightarrow> int) \<Rightarrow> 'r list \<Rightarrow> int" where
  "next_rowid rowid rows = fold (\<lambda>r m. max m (rowid r)) rows 0 + 1"

definition map_direct_message :: "sites \<Rightarrow> direct_row \<Rightarrow> DirectMessage option" where
  "map_direct_message ok r =
     (if ok [0] \<and> ok [1]
      then Some \<lparr>dm_id = take 39 (dr_id r), dm_sender_id = take 63 (dr_sender_id r),
        dm_recipient_id = take 63 (dr_recipient_id r), dm_content = dr_content r, dm_created_at = dr_created_at r,
        dm_read_at = (case dr_read_at r of None \<Rightarrow> 0 | Some t \<Rightarrow> t),
        dm_expires_at = (case dr_expires_at r of None \<Rightarrow> 0 | Some t \<Rightarrow> t)\<rparr>
      else None)"

text \<open>A description that cannot be copied is left out.\<close>

definition map_channel :: "sites \<Rightarrow> Channel \<Rightarrow> Channel option" where
  "map_channel ok r =
     (if ok [0]
      then Some (r\<lparr>cl_id := take 63 (cl_id r), cl_description := kept ok 1 (cl_description r),
        cl_creator_id := take 63 (cl_creator_id r)\<rparr>)
      else None)"

definition map_channel_message :: "sites \<Rightarrow> post_row \<Rightarrow> ChannelMessage option" where
  "map_channel_message ok r =
     (if ok [0] \<and> ok [1]
      then Some \<lparr>cg_id = take 39 (po_id r), cg_channel_id = take 63 (po_channel_id r),
        cg_sender_id = take 63 (po_sender_id r), cg_content = po_content r, cg_created_at = po_created_at r\<rparr>
      else None)"

definition map_pending_message :: "sites \<Rightarrow> direct_row \<Rightarrow> PendingMessage option" where
  "map_pending_message ok r =
     (if ok [0] \<and> ok [1] \<and> ok [2]
      then Some \<lparr>pm_id = take 39 (dr_id r), pm_content = dr_content r, pm_from = dr_sender_id r,
        pm_timestamp = dr_created_at r\<rparr>
      else None)"

definition map_string :: "sites \<Rightarrow> string \<Rightarrow> string option" where
  "map_string ok s = (if ok [0] then Some s else None)"

text \<open>A statement that deletes rows, with the number of them; the limit of a query, which SQLite ignores
  when it is negative.\<close>

definition sql_delete :: "sites \<Rightarrow> ('r \<Rightarrow> bool) \<Rightarrow> 'r list \<Rightarrow> int \<times> 'r list" where
  "sql_delete ok P rows = (if ok [0] \<and> ok [1] then (sql_count P rows, filter (\<lambda>r. \<not> P r) rows) else (-1, rows))"

definition sql_limit :: "int \<Rightarrow> 'r list \<Rightarrow> 'r list" where
  "sql_limit n rows = (if n < 0 then rows else take (nat n) rows)"

definition limit_or_100 :: "nat \<Rightarrow> int" where
  "limit_or_100 max_count = (if max_count > 0 then wrap32 (int max_count) else 100)"

section \<open>Direct messages\<close>

text \<open>The result is the identifier of the message, \<open>None\<close> for -1.\<close>

definition message_send_direct ::
    "sites \<Rightarrow> int \<Rightarrow> string option \<Rightarrow> string \<Rightarrow> string \<Rightarrow> string \<Rightarrow> int \<Rightarrow> message_db \<Rightarrow> string option \<times> message_db" where
  "message_send_direct ok now uuid sender_id recipient_id content ttl_seconds db =
     (case uuid of
        None \<Rightarrow> (None, db)
      | Some msg_id \<Rightarrow>
          if \<not> ok [0] \<or> \<not> ok [1] \<or> msg_id \<in> dr_id ` set (mb_direct db) then (None, db)
          else (Some msg_id, db\<lparr>mb_direct := mb_direct db @
            [\<lparr>dr_rowid = next_rowid dr_rowid (mb_direct db), dr_id = msg_id, dr_sender_id = sender_id,
              dr_recipient_id = recipient_id, dr_content = content, dr_created_at = now, dr_read_at = None,
              dr_expires_at = (if ttl_seconds > 0 then Some (now + ttl_seconds * 1000) else None)\<rparr>]\<rparr>))"

definition unread_for :: "string \<Rightarrow> direct_row \<Rightarrow> bool" where
  "unread_for agent r \<longleftrightarrow> dr_recipient_id r = agent \<and> dr_read_at r = None"

text \<open>The messages that are read and the statement that marks them are apart: \<open>between\<close> is what other
  processes do to the database in the meantime.\<close>

definition message_receive_direct ::
    "sites \<Rightarrow> int \<Rightarrow> (message_db \<Rightarrow> message_db) \<Rightarrow> string \<Rightarrow> nat \<Rightarrow> message_db \<Rightarrow> DirectMessage list \<times> message_db" where
  "message_receive_direct ok now between agent_id max_count db =
     (let items = results (sqlite_dal_query_list_p (below ok 0) map_direct_message
                    (sql_limit (limit_or_100 max_count) (sort_key dr_rowid (filter (unread_for agent_id) (mb_direct db)))))
      in if items = [] then ([], db)
         else let db' = between db
              in (items, db'\<lparr>mb_direct := snd (sqlite_dal_exec_p (below ok 1) (unread_for agent_id)
                                            (\<lambda>r. r\<lparr>dr_read_at := Some now\<rparr>) (mb_direct db'))\<rparr>))"

definition message_has_pending :: "sites \<Rightarrow> string \<Rightarrow> message_db \<Rightarrow> int" where
  "message_has_pending ok agent_id db = sqlite_dal_exists_p ok (unread_for agent_id) (mb_direct db)"

definition message_get_direct :: "sites \<Rightarrow> string \<Rightarrow> message_db \<Rightarrow> DirectMessage option" where
  "message_get_direct ok message_id db =
     sqlite_dal_query_one_p ok map_direct_message (filter (\<lambda>r. dr_id r = message_id) (mb_direct db))"

definition is_between :: "string \<Rightarrow> string \<Rightarrow> direct_row \<Rightarrow> bool" where
  "is_between a b r \<longleftrightarrow>
     dr_sender_id r = a \<and> dr_recipient_id r = b \<or> dr_sender_id r = b \<and> dr_recipient_id r = a"

text \<open>The row number of a message that is not there is \<^verbatim>\<open>NULL\<close>, and nothing compares with it.\<close>

definition rowid_of :: "string \<Rightarrow> direct_row list \<Rightarrow> int option" where
  "rowid_of i rows = map_option dr_rowid (find (\<lambda>r. dr_id r = i) rows)"

definition message_list_between ::
    "sites \<Rightarrow> string \<Rightarrow> string \<Rightarrow> string option \<Rightarrow> nat \<Rightarrow> message_db \<Rightarrow> DirectMessage list" where
  "message_list_between ok agent1 agent2 after_id limit db =
     (let after = (\<lambda>r. case after_id of
                         None \<Rightarrow> True
                       | Some i \<Rightarrow> (case rowid_of i (mb_direct db) of None \<Rightarrow> False | Some n \<Rightarrow> dr_rowid r > n))
      in results (sqlite_dal_query_list_p ok map_direct_message
           (sql_limit (limit_or_100 limit)
             (sort_key dr_rowid (filter (\<lambda>r. is_between agent1 agent2 r \<and> after r) (mb_direct db))))))"

text \<open>The latest messages, oldest first, and whether there are more before them: one more than the limit is
  asked for.\<close>

definition message_list_between_latest ::
    "sites \<Rightarrow> string \<Rightarrow> string \<Rightarrow> string option \<Rightarrow> nat \<Rightarrow> message_db \<Rightarrow> DirectMessage list \<times> bool" where
  "message_list_between_latest ok agent1 agent2 before_id limit db =
     (let actual_limit = limit_or_100 limit;
          before = (\<lambda>r. case before_id of
                          None \<Rightarrow> True
                        | Some i \<Rightarrow> (case rowid_of i (mb_direct db) of None \<Rightarrow> False | Some n \<Rightarrow> dr_rowid r < n));
          latest = sql_limit (wrap32 (actual_limit + 1))
            (rev (sort_key dr_rowid (filter (\<lambda>r. is_between agent1 agent2 r \<and> before r) (mb_direct db))));
          items = results (sqlite_dal_query_list_p ok map_direct_message (rev latest))
      in if wrap32 (int (length items)) > actual_limit \<and> items \<noteq> [] then (tl items, True) else (items, False))"

definition message_peek_pending :: "sites \<Rightarrow> string \<Rightarrow> message_db \<Rightarrow> PendingMessage option" where
  "message_peek_pending ok recipient db =
     sqlite_dal_query_one_p ok map_pending_message
       (sql_limit 1 (sort_key dr_rowid (filter (unread_for recipient) (mb_direct db))))"

definition message_consume :: "sites \<Rightarrow> int \<Rightarrow> string \<Rightarrow> message_db \<Rightarrow> int \<times> message_db" where
  "message_consume ok now message_id db =
     (let (changed, rows) = sqlite_dal_exec_p ok (\<lambda>r. dr_id r = message_id \<and> dr_read_at r = None)
                              (\<lambda>r. r\<lparr>dr_read_at := Some now\<rparr>) (mb_direct db)
      in (if changed > 0 then 0 else -1, db\<lparr>mb_direct := rows\<rparr>))"

section \<open>Channels\<close>

definition channel_create ::
    "sites \<Rightarrow> int \<Rightarrow> string \<Rightarrow> string option \<Rightarrow> string \<Rightarrow> bool \<Rightarrow> message_db \<Rightarrow> int \<times> message_db" where
  "channel_create ok now channel_name description creator_id is_persistent db =
     (if \<not> ok [0] \<or> \<not> ok [1] \<or> channel_name \<in> cl_id ` set (mb_channels db) then (-1, db)
      else (0, db\<lparr>mb_channels := mb_channels db @
        [\<lparr>cl_id = channel_name, cl_description = description, cl_creator_id = creator_id, cl_created_at = now,
          cl_is_persistent = is_persistent\<rparr>]\<rparr>))"

definition channel_get :: "sites \<Rightarrow> string \<Rightarrow> message_db \<Rightarrow> Channel option" where
  "channel_get ok channel_name db =
     sqlite_dal_query_one_p ok map_channel (filter (\<lambda>r. cl_id r = channel_name) (mb_channels db))"

definition channel_list :: "sites \<Rightarrow> message_db \<Rightarrow> Channel list" where
  "channel_list ok db = results (sqlite_dal_query_list_p ok map_channel (sort_key cl_created_at (mb_channels db)))"

text \<open>A channel takes its subscriptions and messages with it.\<close>

definition channel_delete :: "sites \<Rightarrow> string \<Rightarrow> message_db \<Rightarrow> int \<times> message_db" where
  "channel_delete ok channel_name db =
     (let (deleted, channels) = sql_delete ok (\<lambda>c. cl_id c = channel_name) (mb_channels db)
      in if deleted > 0
         then (0, db\<lparr>mb_channels := channels,
                mb_subscriptions := filter (\<lambda>s. su_channel_id s \<noteq> channel_name) (mb_subscriptions db),
                mb_posts := filter (\<lambda>p. po_channel_id p \<noteq> channel_name) (mb_posts db)\<rparr>)
         else (-1, db))"

definition subscription_of :: "string \<Rightarrow> string \<Rightarrow> Subscription \<Rightarrow> bool" where
  "subscription_of channel_name agent_id s \<longleftrightarrow> su_channel_id s = channel_name \<and> su_agent_id s = agent_id"

text \<open>A subscription that is there already is replaced, and starts anew.\<close>

definition channel_subscribe :: "sites \<Rightarrow> int \<Rightarrow> string \<Rightarrow> string \<Rightarrow> message_db \<Rightarrow> int \<times> message_db" where
  "channel_subscribe ok now channel_name agent_id db =
     (if \<not> ok [0] \<or> \<not> ok [1] \<or> channel_name \<notin> cl_id ` set (mb_channels db) then (-1, db)
      else (0, db\<lparr>mb_subscriptions := filter (\<lambda>s. \<not> subscription_of channel_name agent_id s) (mb_subscriptions db) @
        [\<lparr>su_channel_id = channel_name, su_agent_id = agent_id, su_subscribed_at = now, su_last_read_at = 0\<rparr>]\<rparr>))"

definition channel_unsubscribe :: "sites \<Rightarrow> string \<Rightarrow> string \<Rightarrow> message_db \<Rightarrow> int \<times> message_db" where
  "channel_unsubscribe ok channel_name agent_id db =
     (let (changes, subs) = sql_delete ok (subscription_of channel_name agent_id) (mb_subscriptions db)
      in (if changes \<ge> 0 then 0 else -1, db\<lparr>mb_subscriptions := subs\<rparr>))"

definition channel_is_subscribed :: "sites \<Rightarrow> string \<Rightarrow> string \<Rightarrow> message_db \<Rightarrow> int" where
  "channel_is_subscribed ok channel_name agent_id db =
     sqlite_dal_exists_p ok (subscription_of channel_name agent_id) (mb_subscriptions db)"

definition channel_get_subscribers :: "sites \<Rightarrow> string \<Rightarrow> message_db \<Rightarrow> string list" where
  "channel_get_subscribers ok channel_name db =
     results (sqlite_dal_query_list_p ok map_string
       (map su_agent_id (filter (\<lambda>s. su_channel_id s = channel_name) (mb_subscriptions db))))"

definition channel_get_agent_subscriptions :: "sites \<Rightarrow> string \<Rightarrow> message_db \<Rightarrow> string list" where
  "channel_get_agent_subscriptions ok agent_id db =
     results (sqlite_dal_query_list_p ok map_string
       (map su_channel_id (filter (\<lambda>s. su_agent_id s = agent_id) (mb_subscriptions db))))"

definition channel_publish ::
    "sites \<Rightarrow> int \<Rightarrow> string option \<Rightarrow> string \<Rightarrow> string \<Rightarrow> string \<Rightarrow> message_db \<Rightarrow> string option \<times> message_db" where
  "channel_publish ok now uuid channel_name sender_id content db =
     (case uuid of
        None \<Rightarrow> (None, db)
      | Some msg_id \<Rightarrow>
          if \<not> ok [0] \<or> \<not> ok [1] \<or> msg_id \<in> po_id ` set (mb_posts db) \<or> channel_name \<notin> cl_id ` set (mb_channels db)
          then (None, db)
          else (Some msg_id, db\<lparr>mb_posts := mb_posts db @
            [\<lparr>po_rowid = next_rowid po_rowid (mb_posts db), po_id = msg_id, po_channel_id = channel_name,
              po_sender_id = sender_id, po_content = content, po_created_at = now\<rparr>]\<rparr>))"

text \<open>The join of messages and subscriptions: an agent has at most one subscription to a channel.\<close>

definition unread_post :: "(Subscription \<Rightarrow> bool) \<Rightarrow> message_db \<Rightarrow> post_row \<Rightarrow> bool" where
  "unread_post P db p \<longleftrightarrow>
     list_ex (\<lambda>s. P s \<and> su_channel_id s = po_channel_id p \<and> po_rowid p > su_last_read_at s) (mb_subscriptions db)"

definition channel_has_pending :: "sites \<Rightarrow> string \<Rightarrow> message_db \<Rightarrow> int" where
  "channel_has_pending ok agent_id db =
     sqlite_dal_exists_p ok (unread_post (\<lambda>s. su_agent_id s = agent_id) db) (mb_posts db)"

text \<open>The messages of the subscriptions \<open>P\<close>, and the subscriptions with the row number of the last of them.
  Site 0 is the query, 1 that of the row number, 2 the update.\<close>

definition receive_posts ::
    "sites \<Rightarrow> (Subscription \<Rightarrow> bool) \<Rightarrow> nat \<Rightarrow> message_db \<Rightarrow> ChannelMessage list \<times> message_db" where
  "receive_posts ok P max_count db =
     (let items = results (sqlite_dal_query_list_p (below ok 0) map_channel_message
                    (sql_limit (limit_or_100 max_count) (sort_key po_rowid (filter (unread_post P db) (mb_posts db)))))
      in if items = [] then ([], db)
         else let last_rowid = (if ok [1, 0] \<and> ok [1, 1]
                                then case find (\<lambda>p. po_id p = cg_id (last items)) (mb_posts db) of
                                       None \<Rightarrow> 0 | Some p \<Rightarrow> po_rowid p
                                else 0)
              in (items,
                  if last_rowid > 0
                  then db\<lparr>mb_subscriptions := snd (sqlite_dal_exec_p (below ok 2) P
                            (\<lambda>s. s\<lparr>su_last_read_at := last_rowid\<rparr>) (mb_subscriptions db))\<rparr>
                  else db))"

definition channel_receive ::
    "sites \<Rightarrow> string \<Rightarrow> string \<Rightarrow> nat \<Rightarrow> message_db \<Rightarrow> ChannelMessage list \<times> message_db" where
  "channel_receive ok channel_name agent_id max_count db = receive_posts ok (subscription_of channel_name agent_id) max_count db"

definition channel_receive_all :: "sites \<Rightarrow> string \<Rightarrow> nat \<Rightarrow> message_db \<Rightarrow> ChannelMessage list \<times> message_db" where
  "channel_receive_all ok agent_id max_count db = receive_posts ok (\<lambda>s. su_agent_id s = agent_id) max_count db"

section \<open>Cleaning up\<close>

definition message_cleanup_read :: "sites \<Rightarrow> int \<Rightarrow> int \<Rightarrow> message_db \<Rightarrow> int \<times> message_db" where
  "message_cleanup_read ok now grace_period_seconds db =
     (let (n, rows) = sql_delete ok (\<lambda>r. case dr_read_at r of None \<Rightarrow> False | Some t \<Rightarrow> t < now - grace_period_seconds * 1000)
                        (mb_direct db)
      in (n, db\<lparr>mb_direct := rows\<rparr>))"

definition message_cleanup_expired :: "sites \<Rightarrow> int \<Rightarrow> message_db \<Rightarrow> int \<times> message_db" where
  "message_cleanup_expired ok now db =
     (let (n, rows) = sql_delete ok (\<lambda>r. case dr_expires_at r of None \<Rightarrow> False | Some t \<Rightarrow> t < now) (mb_direct db)
      in (n, db\<lparr>mb_direct := rows\<rparr>))"

text \<open>One transaction, whose statements are not checked: sites 0 the beginning, 1 and 2 the two statements, 3
  the commit. Without the commit the transaction stays open, which other processes do not see.\<close>

definition message_cleanup_agent :: "sites \<Rightarrow> string \<Rightarrow> message_db \<Rightarrow> int \<times> message_db" where
  "message_cleanup_agent ok agent_id db =
     (if \<not> ok [0] then (-1, db)
      else let db = db\<lparr>mb_direct := snd (sql_delete (below ok 1)
                         (\<lambda>r. dr_sender_id r = agent_id \<or> dr_recipient_id r = agent_id) (mb_direct db))\<rparr>;
               db = db\<lparr>mb_subscriptions := snd (sql_delete (below ok 2) (\<lambda>s. su_agent_id s = agent_id) (mb_subscriptions db))\<rparr>
           in (if ok [3] then 0 else -1, db))"

definition message_cleanup_channel_messages :: "sites \<Rightarrow> int \<Rightarrow> int \<Rightarrow> message_db \<Rightarrow> int \<times> message_db" where
  "message_cleanup_channel_messages ok now max_age_seconds db =
     (let temporary = map cl_id (filter (\<lambda>c. \<not> cl_is_persistent c) (mb_channels db));
          (n, rows) = sql_delete ok (\<lambda>p. po_channel_id p \<in> set temporary \<and> po_created_at p < now - max_age_seconds * 1000)
                        (mb_posts db)
      in (n, db\<lparr>mb_posts := rows\<rparr>))"

section \<open>Runs\<close>

text \<open>The operations on direct messages, with the answers of their oracles; the log holds what was received,
  with the agent that received it. No other process comes between the statements of one operation.\<close>

datatype direct_op =
    SendDirect sites int string string string string int
  | ReceiveDirect sites int string nat
  | ConsumeDirect sites int string
  | CleanupRead sites int int
  | CleanupExpired sites int
  | CleanupAgent sites string

type_synonym delivery = "string \<times> DirectMessage"

fun direct_step :: "direct_op \<Rightarrow> delivery list \<times> message_db \<Rightarrow> delivery list \<times> message_db" where
  "direct_step (SendDirect ok now uuid sender recipient content ttl) (log, db) =
     (log, snd (message_send_direct ok now (Some uuid) sender recipient content ttl db))"
| "direct_step (ReceiveDirect ok now agent max_count) (log, db) =
     (case message_receive_direct ok now id agent max_count db of (items, db') \<Rightarrow> (log @ map (Pair agent) items, db'))"
| "direct_step (ConsumeDirect ok now i) (log, db) = (log, snd (message_consume ok now i db))"
| "direct_step (CleanupRead ok now grace) (log, db) = (log, snd (message_cleanup_read ok now grace db))"
| "direct_step (CleanupExpired ok now) (log, db) = (log, snd (message_cleanup_expired ok now db))"
| "direct_step (CleanupAgent ok agent) (log, db) = (log, snd (message_cleanup_agent ok agent db))"

definition direct_run :: "direct_op list \<Rightarrow> delivery list \<times> message_db \<Rightarrow> delivery list \<times> message_db" where
  "direct_run = fold direct_step"

text \<open>What an agent was sent: the identifier, the sender and the text as they fit the fields.\<close>

fun sent_to :: "string \<Rightarrow> direct_op \<Rightarrow> (string \<times> string \<times> string) list" where
  "sent_to agent (SendDirect ok now uuid sender recipient content ttl) =
     (if recipient = agent then [(take 39 uuid, take 63 sender, content)] else [])"
| "sent_to agent _ = []"

definition received_by :: "string \<Rightarrow> delivery list \<Rightarrow> (string \<times> string \<times> string) list" where
  "received_by agent log = map (\<lambda>(_, m). (dm_id m, dm_sender_id m, dm_content m)) (filter (\<lambda>(a, _). a = agent) log)"

text \<open>The statement that marks messages as read succeeds.\<close>

fun marks_read :: "direct_op \<Rightarrow> bool" where
  "marks_read (ReceiveDirect ok now agent max_count) \<longleftrightarrow> ok [1, 0] \<and> ok [1, 1]"
| "marks_read _ \<longleftrightarrow> True"

section \<open>Direct messages arrive once and in order\<close>

definition in_rowid_order :: "('r \<Rightarrow> int) \<Rightarrow> 'r list \<Rightarrow> bool" where
  "in_rowid_order rowid rows \<longleftrightarrow> sorted_wrt (\<lambda>a b. rowid a < rowid b) rows"

lemma next_rowid_greater: "r \<in> set rows \<Longrightarrow> rowid r < next_rowid rowid rows"
proof -
  have "\<forall>r \<in> set rows. rowid r \<le> fold (\<lambda>r m. max m (rowid r)) rows n" "n \<le> fold (\<lambda>r m. max m (rowid r)) rows n" for n
    by (induction rows arbitrary: n) (auto, (meson max.bounded_iff order_trans)+)
  then show "r \<in> set rows \<Longrightarrow> rowid r < next_rowid rowid rows" by (fastforce simp: next_rowid_def)
qed

lemma rowid_order_append:
  "in_rowid_order rowid rows \<Longrightarrow> rowid r = next_rowid rowid rows \<Longrightarrow> in_rowid_order rowid (rows @ [r])"
  by (auto simp: in_rowid_order_def sorted_wrt_append next_rowid_greater)

lemma rowid_order_filter: "in_rowid_order rowid rows \<Longrightarrow> in_rowid_order rowid (filter P rows)"
  by (simp add: in_rowid_order_def sorted_wrt_filter)

lemma rowid_order_update: "in_rowid_order rowid rows \<Longrightarrow> (\<And>r. rowid (f r) = rowid r) \<Longrightarrow> in_rowid_order rowid (sql_update P f rows)"
  by (auto simp: in_rowid_order_def sql_update_def sorted_wrt_map elim!: sorted_wrt_mono_rel[rotated])

lemma sort_in_rowid_order: "in_rowid_order rowid rows \<Longrightarrow> sort_key rowid rows = rows"
  by (induction rows) (auto simp: in_rowid_order_def intro!: insort_is_Cons)

lemma fetch_rows_subseq:
  assumes "\<And>ok r a. mapper ok r = Some a \<Longrightarrow> a = m r" and "fetch_rows ok mapper i capacity items rows = Some xs"
  shows "\<exists>ys. xs = items @ ys \<and> subseq ys (map m rows)"
  using assms(2)
proof (induction rows arbitrary: i capacity items)
  case (Cons r rows)
  show ?case
  proof (cases "mapper (below (below ok i) 1) r")
    case None
    with Cons show ?thesis by (fastforce split: if_splits)
  next
    case (Some a)
    with assms(1) have "a = m r" by blast
    with Cons Some show ?thesis by (fastforce split: if_splits)
  qed
qed simp

lemma query_list_subseq:
  assumes "\<And>ok r a. mapper ok r = Some a \<Longrightarrow> a = m r"
  shows "subseq (results (sqlite_dal_query_list_p ok mapper rows)) (map m rows)"
proof (cases "sqlite_dal_query_list_p ok mapper rows")
  case (Some xs)
  then have "fetch_rows (below ok 2) mapper 0 16 [] rows = Some xs" by (simp add: sqlite_dal_query_list_p_def split: if_splits)
  from fetch_rows_subseq[where m = m, OF assms this] Some show ?thesis by (simp add: results_def)
qed (simp add: results_def)

lemma subseq_sql_limit: "subseq (sql_limit n rows) rows"
  by (simp add: sql_limit_def prefix_imp_subseq take_is_prefix)

definition message_of :: "direct_row \<Rightarrow> DirectMessage" where
  "message_of r = \<lparr>dm_id = take 39 (dr_id r), dm_sender_id = take 63 (dr_sender_id r),
     dm_recipient_id = take 63 (dr_recipient_id r), dm_content = dr_content r, dm_created_at = dr_created_at r,
     dm_read_at = (case dr_read_at r of None \<Rightarrow> 0 | Some t \<Rightarrow> t),
     dm_expires_at = (case dr_expires_at r of None \<Rightarrow> 0 | Some t \<Rightarrow> t)\<rparr>"

lemma map_direct_message_Some: "map_direct_message ok r = Some m \<Longrightarrow> m = message_of r"
  by (auto simp: map_direct_message_def message_of_def split: if_splits)

lemma map_direct_message_ok [simp]: "map_direct_message all_ok r = Some (message_of r)"
  by (simp add: map_direct_message_def message_of_def)

definition pending :: "string \<Rightarrow> message_db \<Rightarrow> direct_row list" where
  "pending agent db = filter (unread_for agent) (mb_direct db)"

lemma received_by_simps [simp]:
  "received_by agent [] = []"
  "received_by agent (log @ log') = received_by agent log @ received_by agent log'"
  "received_by agent (map (Pair a) items) =
     (if a = agent then map (\<lambda>m. (dm_id m, dm_sender_id m, dm_content m)) items else [])"
  by (auto simp: received_by_def filter_map comp_def)

text \<open>The invariant: an agent has received a part of what it was sent, in order, and what waits for it comes
  later.\<close>

definition message_key :: "direct_row \<Rightarrow> string \<times> string \<times> string" where
  "message_key r = (take 39 (dr_id r), take 63 (dr_sender_id r), dr_content r)"

definition delivery_inv :: "string \<Rightarrow> (string \<times> string \<times> string) list \<Rightarrow> delivery list \<times> message_db \<Rightarrow> bool" where
  "delivery_inv agent sent s \<longleftrightarrow> (case s of (log, db) \<Rightarrow>
     in_rowid_order dr_rowid (mb_direct db) \<and> subseq (received_by agent log @ map message_key (pending agent db)) sent)"

lemma receive_direct_items:
  assumes "message_receive_direct ok now between agent n db = (items, db')" and "in_rowid_order dr_rowid (mb_direct db)"
  shows "subseq items (map message_of (sql_limit (limit_or_100 n) (pending agent db)))"
proof -
  have "sort_key dr_rowid (filter (unread_for agent) (mb_direct db)) = pending agent db"
    using assms(2) by (simp add: pending_def sort_in_rowid_order rowid_order_filter)
  with assms(1) query_list_subseq[of map_direct_message message_of, OF map_direct_message_Some]
  show ?thesis by (auto simp: message_receive_direct_def Let_def split: if_splits)
qed

lemma pending_update:
  assumes "\<And>r. P r \<Longrightarrow> \<not> unread_for agent (f r)"
  shows "filter (unread_for agent) (sql_update P f rows) = filter (\<lambda>r. unread_for agent r \<and> \<not> P r) rows"
  by (induction rows) (use assms in \<open>auto simp: sql_update_def\<close>)

lemma subseq_append_trans: "subseq (xs @ zs) ws \<Longrightarrow> subseq ys zs \<Longrightarrow> subseq (xs @ ys) ws"
  by (meson subseq_append' subseq_order.trans)

lemma subseq_filter_conj: "subseq (filter (\<lambda>x. P x \<and> Q x) xs) (filter Q xs)" "subseq (filter (\<lambda>x. Q x \<and> P x) xs) (filter Q xs)"
  using subseq_filter_left[of P "filter Q xs"] by (simp_all add: conj_commute)

lemma pending_mark:
  "subseq (filter (unread_for agent) (sql_update P (\<lambda>r. r\<lparr>dr_read_at := Some now\<rparr>) rows)) (filter (unread_for agent) rows)"
  by (simp add: pending_update unread_for_def[of _ "dr_read_at_update _ _"] subseq_filter_conj)

lemma delivery_inv_less:
  assumes "delivery_inv agent sent (log, db)" and "in_rowid_order dr_rowid (mb_direct db')"
    and "subseq (pending agent db') (pending agent db)"
  shows "delivery_inv agent sent (log, db')"
  using assms by (auto simp: delivery_inv_def intro!: subseq_map elim: subseq_append_trans)

lemma delivery_inv_delete:
  "delivery_inv agent sent (log, db) \<Longrightarrow> delivery_inv agent sent (log, db\<lparr>mb_direct := snd (sql_delete ok P (mb_direct db))\<rparr>)"
  by (rule delivery_inv_less) (auto simp: delivery_inv_def sql_delete_def pending_def rowid_order_filter filter_filter
      intro: subseq_filter_conj)

lemma delivery_inv_subscriptions [simp]:
  "delivery_inv agent sent (log, db\<lparr>mb_subscriptions := x\<rparr>) = delivery_inv agent sent (log, db)"
  by (simp add: delivery_inv_def pending_def)

lemma delivery_inv_send:
  assumes "delivery_inv agent sent (log, db)"
  shows "delivery_inv agent (sent @ sent_to agent (SendDirect ok now u s r c ttl))
    (log, snd (message_send_direct ok now (Some u) s r c ttl db))"
proof (cases "ok [0] \<and> ok [1] \<and> u \<notin> dr_id ` set (mb_direct db)")
  case True
  then show ?thesis
    using assms by (auto simp: delivery_inv_def message_send_direct_def pending_def unread_for_def message_key_def
        intro!: rowid_order_append list_emb_append_mono[where P = "(=)"] simp flip: append_assoc)
next
  case False
  then have "snd (message_send_direct ok now (Some u) s r c ttl db) = db" by (auto simp: message_send_direct_def)
  with assms show ?thesis
    by (auto simp: delivery_inv_def intro: list_emb_append2 subseq_order.trans)
qed

lemma delivery_inv_receive:
  assumes "delivery_inv agent sent (log, db)" and "marks_read (ReceiveDirect ok now a n)"
  shows "delivery_inv agent sent (direct_step (ReceiveDirect ok now a n) (log, db))"
proof -
  obtain items db' where r: "message_receive_direct ok now id a n db = (items, db')" by fastforce
  have order: "in_rowid_order dr_rowid (mb_direct db)" and sub: "subseq (received_by agent log @ map message_key (pending agent db)) sent"
    using assms(1) by (simp_all add: delivery_inv_def)
  show ?thesis
  proof (cases "items = []")
    case True
    with r have "db' = db" by (auto simp: message_receive_direct_def Let_def split: if_splits)
    with r True assms(1) show ?thesis by (simp add: delivery_inv_def)
  next
    case False
    have db': "mb_direct db' = sql_update (unread_for a) (\<lambda>r. r\<lparr>dr_read_at := Some now\<rparr>) (mb_direct db)"
      using r False assms(2) by (auto simp: message_receive_direct_def Let_def sqlite_dal_exec_p_def below_def split: if_splits)
    have order': "in_rowid_order dr_rowid (mb_direct db')" by (simp add: db' rowid_order_update order)
    have pend: "pending agent db' = filter (\<lambda>r. unread_for agent r \<and> \<not> unread_for a r) (mb_direct db)"
      unfolding pending_def db' by (rule pending_update) (simp add: unread_for_def)
    show ?thesis
    proof (cases "a = agent")
      case True
      then have "pending agent db' = []" by (simp add: pend)
      moreover have "subseq (map (\<lambda>m. (dm_id m, dm_sender_id m, dm_content m)) items) (map message_key (pending agent db))"
      proof -
        have "subseq items (map message_of (pending agent db))"
          using receive_direct_items[OF r order] subseq_sql_limit[of "limit_or_100 n" "pending a db"] True
          by (meson subseq_map subseq_order.trans)
        then have "subseq (map (\<lambda>m. (dm_id m, dm_sender_id m, dm_content m)) items)
            (map (\<lambda>m. (dm_id m, dm_sender_id m, dm_content m)) (map message_of (pending agent db)))"
          by (rule subseq_map)
        then show ?thesis by (simp add: comp_def message_of_def message_key_def[abs_def])
      qed
      ultimately show ?thesis
        using r True order' subseq_append_trans[OF sub] by (auto simp: delivery_inv_def)
    next
      case False
      then have "pending agent db' = pending agent db"
        unfolding pend unfolding pending_def by (intro filter_cong) (auto simp: unread_for_def)
      with r False order' sub show ?thesis by (simp add: delivery_inv_def)
    qed
  qed
qed

lemma delivery_inv_step:
  assumes "delivery_inv agent sent s" and "marks_read op"
  shows "delivery_inv agent (sent @ sent_to agent op) (direct_step op s)"
proof -
  obtain log db where s: "s = (log, db)" by fastforce
  show ?thesis
  proof (cases op)
    case (SendDirect ok now u sender r c ttl)
    with delivery_inv_send assms(1) s show ?thesis by simp
  next
    case (ReceiveDirect ok now a n)
    with delivery_inv_receive assms s show ?thesis by (simp split: prod.splits)
  next
    case (ConsumeDirect ok now i)
    have "delivery_inv agent sent (log, snd (message_consume ok now i db))"
      using assms(1)[unfolded s]
    proof (rule delivery_inv_less)
      show "in_rowid_order dr_rowid (mb_direct (snd (message_consume ok now i db)))"
        using assms(1) by (auto simp: s delivery_inv_def message_consume_def sqlite_dal_exec_p_def rowid_order_update)
      show "subseq (pending agent (snd (message_consume ok now i db))) (pending agent db)"
        by (auto simp: message_consume_def sqlite_dal_exec_p_def pending_def pending_mark)
    qed
    with ConsumeDirect s show ?thesis by simp
  qed (use assms(1) s delivery_inv_delete in \<open>auto simp: message_cleanup_read_def message_cleanup_expired_def
        message_cleanup_agent_def Let_def case_prod_beta\<close>)
qed

text \<open>C24. Direct messages arrive in order and at most once. Whatever agents send, receive and clean up, starting
  with no messages and whatever statements and allocations fail except those that mark messages as read,
  the messages that an agent has received are among those sent to it, with their sender and text, in the
  order in which they were sent and none of them twice.\<close>

theorem direct_messages_in_order:
  assumes "mb_direct db = []" and "list_all marks_read ops" and "direct_run ops ([], db) = (log, db')"
  shows "subseq (received_by agent log) (concat (map (sent_to agent) ops))"
proof -
  have "delivery_inv agent (sent @ concat (map (sent_to agent) ops)) (direct_run ops s)"
    if "delivery_inv agent sent s" "list_all marks_read ops" for sent s ops
    using that
  proof (induction ops arbitrary: sent s)
    case (Cons op ops)
    from Cons.IH[OF delivery_inv_step[OF Cons.prems(1)]] Cons.prems(2) show ?case by (simp add: direct_run_def)
  qed (simp add: direct_run_def)
  moreover have "delivery_inv agent [] ([], db)"
    using assms(1) by (simp add: delivery_inv_def in_rowid_order_def pending_def)
  ultimately have "delivery_inv agent ([] @ concat (map (sent_to agent) ops)) (log, db')"
    using assms(2,3) by metis
  then show ?thesis
    using subseq_append_trans[of _ _ _ "[]"] by (fastforce simp: delivery_inv_def)
qed

section \<open>Messages beyond the limit\<close>

text \<open>Identifiers that the field of a message holds, and that no two messages share.\<close>

definition direct_table :: "message_db \<Rightarrow> bool" where
  "direct_table db \<longleftrightarrow> in_rowid_order dr_rowid (mb_direct db) \<and> distinct (map dr_id (mb_direct db)) \<and>
     (\<forall>r \<in> set (mb_direct db). short_id (dr_id r))"

lemma receive_direct_ok:
  assumes "in_rowid_order dr_rowid (mb_direct db)"
  shows "fst (message_receive_direct all_ok now between agent n db) = map message_of (sql_limit (limit_or_100 n) (pending agent db))"
    and "fst (message_receive_direct all_ok now between agent n db) \<noteq> [] \<Longrightarrow>
      pending agent (snd (message_receive_direct all_ok now between agent n db)) = []"
proof -
  have "sort_key dr_rowid (filter (unread_for agent) (mb_direct db)) = pending agent db"
    using assms by (simp add: pending_def sort_in_rowid_order rowid_order_filter)
  then show "fst (message_receive_direct all_ok now between agent n db) = map message_of (sql_limit (limit_or_100 n) (pending agent db))"
    by (simp add: message_receive_direct_def sqlite_dal_query_list_p_def fetch_rows_ok[where m = message_of] results_def Let_def)
  show "pending agent (snd (message_receive_direct all_ok now between agent n db)) = []"
    if "fst (message_receive_direct all_ok now between agent n db) \<noteq> []"
  proof -
    have "filter (unread_for agent) (sql_update (unread_for agent) (\<lambda>r. r\<lparr>dr_read_at := Some now\<rparr>) rows) = []" for rows
      by (subst pending_update) (auto simp: unread_for_def filter_empty_conv)
    with that show ?thesis
      by (simp add: message_receive_direct_def sqlite_dal_exec_p_def pending_def Let_def split: if_split_asm)
  qed
qed

text \<open>An identifier that is used up: no message waits that has it, and none will be sent.\<close>

fun sends :: "string \<Rightarrow> direct_op \<Rightarrow> bool" where
  "sends i (SendDirect ok now uuid sender recipient content ttl) \<longleftrightarrow> take 39 uuid = i"
| "sends i _ \<longleftrightarrow> False"

definition used_up :: "string \<Rightarrow> message_db \<Rightarrow> bool" where
  "used_up i db \<longleftrightarrow> (\<forall>r \<in> set (mb_direct db). take 39 (dr_id r) = i \<longrightarrow> dr_read_at r \<noteq> None)"

lemma used_up_mark: "used_up i db \<Longrightarrow> used_up i (db\<lparr>mb_direct := snd (sqlite_dal_exec_p ok P (\<lambda>r. r\<lparr>dr_read_at := Some t\<rparr>) (mb_direct db))\<rparr>)"
  by (auto simp: used_up_def sqlite_dal_exec_p_def set_sql_update)

lemma used_up_delete: "used_up i db \<Longrightarrow> used_up i (db\<lparr>mb_direct := snd (sql_delete ok P (mb_direct db))\<rparr>)"
  by (auto simp: used_up_def sql_delete_def)

lemma used_up_subscriptions [simp]: "used_up i (db\<lparr>mb_subscriptions := x\<rparr>) = used_up i db"
  by (simp add: used_up_def)

lemma query_list_set:
  assumes "\<And>ok r a. mapper ok r = Some a \<Longrightarrow> a = m r"
  shows "set (results (sqlite_dal_query_list_p ok mapper rows)) \<subseteq> m ` set rows"
proof
  fix a assume "a \<in> set (results (sqlite_dal_query_list_p ok mapper rows))"
  moreover have "subseq (results (sqlite_dal_query_list_p ok mapper rows)) (map m rows)"
    by (rule query_list_subseq) (rule assms)
  ultimately show "a \<in> m ` set rows" by (auto elim: list_emb_set)
qed

lemma set_sql_limit: "set (sql_limit n rows) \<subseteq> set rows"
  by (auto simp: sql_limit_def dest: in_set_takeD)

lemma receive_direct_unread:
  assumes "message_receive_direct ok now between a n db = (items, db')" and "m \<in> set items"
  shows "\<exists>r \<in> set (mb_direct db). m = message_of r \<and> unread_for a r"
proof -
  have "m \<in> message_of ` set (sql_limit (limit_or_100 n) (sort_key dr_rowid (filter (unread_for a) (mb_direct db))))"
    using assms query_list_set[of map_direct_message message_of, OF map_direct_message_Some]
    by (fastforce simp: message_receive_direct_def Let_def split: if_splits)
  then show ?thesis using set_sql_limit by fastforce
qed

lemma used_up_step:
  assumes "used_up i db" and "\<not> sends i op"
  shows "used_up i (snd (direct_step op (log, db)))"
proof (cases op)
  case (SendDirect ok now u s r c ttl)
  with assms show ?thesis by (auto simp: message_send_direct_def used_up_def)
next
  case (ReceiveDirect ok now a n)
  with assms(1) used_up_mark show ?thesis by (simp add: message_receive_direct_def Let_def)
qed (use assms(1) used_up_mark used_up_delete in \<open>simp_all add: message_consume_def message_cleanup_read_def
      message_cleanup_expired_def message_cleanup_agent_def case_prod_beta Let_def\<close>)

lemma used_up_log:
  assumes "used_up i db" and "m \<in> snd ` set (fst (direct_step op (log, db)))" and "dm_id m = i"
  shows "m \<in> snd ` set log"
proof (cases op)
  case (ReceiveDirect ok now a n)
  obtain items db' where r: "message_receive_direct ok now id a n db = (items, db')" by fastforce
  have "m \<notin> set items"
  proof
    assume "m \<in> set items"
    then obtain x where x: "x \<in> set (mb_direct db)" "m = message_of x" "unread_for a x"
      using receive_direct_unread[OF r] by blast
    then have "take 39 (dr_id x) = i" using assms(3) by (simp add: message_of_def)
    with assms(1) x(1,3) show False by (auto simp: used_up_def unread_for_def)
  qed
  with assms(2) ReceiveDirect r show ?thesis by (auto simp: image_iff)
qed (use assms(2) in simp_all)

lemma used_up_run:
  assumes "used_up i db" and "\<not> list_ex (sends i) ops" and "m \<in> snd ` set (fst (direct_run ops (log, db)))" and "dm_id m = i"
  shows "m \<in> snd ` set log"
  using assms
proof (induction ops arbitrary: log db)
  case (Cons op ops)
  obtain log' db' where s: "direct_step op (log, db) = (log', db')" by fastforce
  with Cons.prems used_up_step[of i db op log] have "m \<in> snd ` set log'"
    by (intro Cons.IH[of db' log']) (simp_all add: direct_run_def)
  with used_up_log[OF Cons.prems(1) _ Cons.prems(4), of op log] s show ?case by simp
qed (simp add: direct_run_def)

text \<open>C37. Messages beyond the limit are lost. When more messages wait for an agent than are asked for, the first
  of them are received, and the others are marked as read with them: no message waits afterwards, and
  none of the others is ever received, whatever follows.\<close>

theorem messages_beyond_limit_lost:
  assumes "direct_table db" and "message_receive_direct all_ok now id agent n db = (items, db')" and "0 < n" and "int n \<le> INT_MAX"
    and "r \<in> set (drop n (pending agent db))" and "\<not> list_ex (sends (dr_id r)) ops" and "direct_run ops ([], db') = (log, db'')"
  shows "items = map message_of (take n (pending agent db)) \<and> pending agent db' = [] \<and>
    dr_id r \<notin> dm_id ` set items \<and> dr_id r \<notin> dm_id ` snd ` set log"
proof -
  let ?p = "pending agent db"
  have order: "in_rowid_order dr_rowid (mb_direct db)" and d: "distinct (map dr_id ?p)" and short: "\<forall>x \<in> set ?p. short_id (dr_id x)"
    using assms(1) by (auto simp: direct_table_def pending_def distinct_map inj_on_def)
  have lim: "sql_limit (limit_or_100 n) ?p = take n ?p"
    using assms(3,4) by (simp add: sql_limit_def limit_or_100_def)
  have items: "items = map message_of (take n ?p)"
    using receive_direct_ok(1)[OF order, of now id agent n] assms(2) lim by simp
  have r: "r \<in> set ?p" "dr_id r \<notin> dr_id ` set (take n ?p)"
  proof -
    have "distinct (map dr_id (take n ?p @ drop n ?p))" using d by simp
    then show "dr_id r \<notin> dr_id ` set (take n ?p)"
      unfolding map_append distinct_append using assms(5) by auto
    show "r \<in> set ?p" using assms(5) by (rule in_set_dropD)
  qed
  have "items \<noteq> []" using assms(3) r(1) by (auto simp: items)
  then have none: "pending agent db' = []"
    using receive_direct_ok(2)[OF order, of now id agent n] assms(2) by simp
  have ids: "dm_id ` set items = dr_id ` set (take n ?p)"
    using short by (force simp: items message_of_def short_id_def image_iff dest: in_set_takeD)
  have "used_up (dr_id r) db'"
  proof -
    have "mb_direct db' = sql_update (unread_for agent) (\<lambda>r. r\<lparr>dr_read_at := Some now\<rparr>) (mb_direct db)"
      using assms(2) \<open>items \<noteq> []\<close> by (auto simp: message_receive_direct_def sqlite_dal_exec_p_def Let_def split: if_split_asm)
    moreover have "x = r" if "x \<in> set (mb_direct db)" "take 39 (dr_id x) = dr_id r" for x
      using that r(1) assms(1) by (auto simp: direct_table_def pending_def short_id_def distinct_map dest!: inj_onD)
    moreover have "unread_for agent r" using r(1) by (simp add: pending_def)
    ultimately show ?thesis by (auto simp: used_up_def set_sql_update)
  qed
  then have "dr_id r \<notin> dm_id ` snd ` set log"
    using used_up_run[of "dr_id r" db' ops _ "[]"] assms(6,7) by fastforce
  with items none ids r(2) show ?thesis by simp
qed

section \<open>Examples\<close>

definition empty_db :: message_db where
  "empty_db = \<lparr>mb_direct = [], mb_channels = [], mb_subscriptions = [], mb_posts = []\<rparr>"

definition send_two :: "direct_op list" where
  "send_two = [SendDirect all_ok 5 ''u1'' ''s'' ''a'' ''first'' 0, SendDirect all_ok 6 ''u2'' ''s'' ''a'' ''second'' 0]"

definition two_waiting :: message_db where
  "two_waiting = snd (direct_run send_two ([], empty_db))"

theorem direct_messages_in_order_witness:
  "subseq (received_by ''a'' (fst (direct_run (send_two @ [ReceiveDirect all_ok 7 ''a'' 20]) ([], empty_db))))
     (concat (map (sent_to ''a'') (send_two @ [ReceiveDirect all_ok 7 ''a'' 20]))) \<and>
   received_by ''a'' (fst (direct_run (send_two @ [ReceiveDirect all_ok 7 ''a'' 20]) ([], empty_db))) =
     [(''u1'', ''s'', ''first''), (''u2'', ''s'', ''second'')]"
proof -
  have "mb_direct empty_db = []" "list_all marks_read (send_two @ [ReceiveDirect all_ok 7 ''a'' 20])"
    by (simp_all add: empty_db_def send_two_def)
  from direct_messages_in_order[OF this prod.collapse[symmetric]] show ?thesis
    by (rule conjI) code_simp
qed

theorem messages_beyond_limit_lost_witness:
  "case message_receive_direct all_ok 7 id ''a'' 1 two_waiting of
     (items, db') \<Rightarrow> map dm_content items = [''first''] \<and> pending ''a'' db' = [] \<and>
       fst (direct_run [ReceiveDirect all_ok 8 ''a'' 1] ([], db')) = []"
proof -
  obtain items db' where r: "message_receive_direct all_ok 7 id ''a'' 1 two_waiting = (items, db')" by fastforce
  obtain log db'' where l: "direct_run [ReceiveDirect all_ok 8 ''a'' 1] ([], db') = (log, db'')" by fastforce
  define r2 where "r2 = pending ''a'' two_waiting ! 1"
  have p: "map dr_id (pending ''a'' two_waiting) = [''u1'', ''u2'']" "length (pending ''a'' two_waiting) = 2"
    "map dr_content (pending ''a'' two_waiting) = [''first'', ''second'']"
    by code_simp+
  then have "r2 \<in> set (drop 1 (pending ''a'' two_waiting))"
    by (auto simp: r2_def in_set_conv_nth intro!: exI[of _ 0])
  moreover have "direct_table two_waiting"
    by (simp add: direct_table_def in_rowid_order_def short_id_def two_waiting_def send_two_def direct_run_def empty_db_def
        message_send_direct_def next_rowid_def)
  moreover have "\<not> list_ex (sends (dr_id r2)) [ReceiveDirect all_ok 8 ''a'' 1]" by simp
  ultimately have i: "items = map message_of (take 1 (pending ''a'' two_waiting))" "pending ''a'' db' = []"
      and n: "dr_id r2 \<notin> dm_id ` snd ` set log"
    using messages_beyond_limit_lost[OF _ r _ _ _ _ l, of r2] by auto
  have "fst (direct_run [ReceiveDirect all_ok 8 ''a'' 1] ([], snd (message_receive_direct all_ok 7 id ''a'' 1 two_waiting))) = []"
    by code_simp
  with r i p(3) show ?thesis by (cases "pending ''a'' two_waiting") (auto simp: message_of_def)
qed

text \<open>Channels that are read apart and together: reading all of them sets every mark to the same row number, so
  a message of another channel that was read before is received again.\<close>

definition two_channels :: message_db where
  "two_channels = snd (channel_publish all_ok 4 (Some ''p2'') ''x'' ''s'' ''from x''
     (snd (channel_publish all_ok 3 (Some ''p1'') ''y'' ''s'' ''from y''
       (snd (channel_subscribe all_ok 2 ''y'' ''a'' (snd (channel_subscribe all_ok 2 ''x'' ''a''
         (snd (channel_create all_ok 1 ''y'' None ''s'' False (snd (channel_create all_ok 1 ''x'' None ''s'' False empty_db)))))))))))"

lemma channel_message_repeated:
  "case channel_receive all_ok ''x'' ''a'' 10 two_channels of (m1, db1) \<Rightarrow>
   (case channel_receive_all all_ok ''a'' 10 db1 of (m2, db2) \<Rightarrow>
    (case channel_receive_all all_ok ''a'' 10 db2 of (m3, db3) \<Rightarrow>
      map cg_content m1 = [''from x''] \<and> map cg_content m2 = [''from y''] \<and> map cg_content m3 = [''from x'']))"
  by code_simp

text \<open>A channel whose old messages were deleted: the next message gets a row number again that the agent has
  read, and is never received.\<close>

lemma channel_message_unseen:
  "case channel_receive_all all_ok ''a'' 10 two_channels of (m1, db1) \<Rightarrow>
   (case message_cleanup_channel_messages all_ok 100000 10 db1 of (n, db2) \<Rightarrow>
    (case channel_publish all_ok 100001 (Some ''p3'') ''x'' ''s'' ''new'' db2 of (i, db3) \<Rightarrow>
      length m1 = 2 \<and> n = 2 \<and> i = Some ''p3'' \<and> channel_has_pending all_ok ''a'' db3 = 0 \<and>
      fst (channel_receive_all all_ok ''a'' 10 db3) = []))"
  by code_simp

end
