(* ===== verification/Notifications.thy ===== *)
theory Notifications
  imports Message_Store Streaming
begin

text \<open>
  The messages that reach the model: \<^verbatim>\<open>lib/ipc/notification_formatter.c\<close>, with \<^verbatim>\<open>strip_ansi\<close> of
  \<^verbatim>\<open>lib/util/common_utils.c\<close>. The messages that wait for an agent are collected in a bundle, which is printed
  into a buffer whose size is computed before. The report of a subagent is printed into a buffer of its own,
  with \<^verbatim>\<open>snprintf\<close> and a pointer that moves by its result. That result is the length of the whole text, also
  when only a part of it fits, so writing behind the buffer is a possible outcome.
\<close>

section \<open>Escape sequences of a terminal\<close>

definition csi_parameter :: "char \<Rightarrow> bool" where
  "csi_parameter c \<longleftrightarrow> 0x30 \<le> char_code c \<and> char_code c \<le> 0x3F"

definition csi_intermediate :: "char \<Rightarrow> bool" where
  "csi_intermediate c \<longleftrightarrow> 0x20 \<le> char_code c \<and> char_code c \<le> 0x2F"

definition csi_final :: "char \<Rightarrow> bool" where
  "csi_final c \<longleftrightarrow> 0x40 \<le> char_code c \<and> char_code c \<le> 0x7E"

text \<open>The rest of the text after a sequence; of a malformed one the first character that does not belong to it
  stays.\<close>

definition after_csi :: "string \<Rightarrow> string" where
  "after_csi s =
     (let rest = dropWhile csi_intermediate (dropWhile csi_parameter s)
      in case rest of [] \<Rightarrow> [] | c # cs \<Rightarrow> if csi_final c then cs else rest)"

lemma length_after_csi: "length (after_csi s) \<le> length s"
proof -
  have "length (dropWhile csi_intermediate (dropWhile csi_parameter s)) \<le> length s"
    by (meson length_dropWhile_le order_trans)
  then show ?thesis by (auto simp: after_csi_def Let_def split: list.split)
qed

function strip_codes :: "string \<Rightarrow> string" where
  "strip_codes [] = []"
| "strip_codes (c # cs) =
     (if c = CHR 0x1B \<and> cs \<noteq> [] \<and> hd cs = CHR ''['' then strip_codes (after_csi (tl cs))
      else if c = CHR 0x0D then strip_codes cs
      else c # strip_codes cs)"
  by pat_completeness auto
termination
proof (relation "measure length")
  fix c :: char and cs :: string
  show "(after_csi (tl cs), c # cs) \<in> measure length"
    using length_after_csi[of "tl cs"] by simp
qed simp_all

definition strip_ansi :: "bool \<Rightarrow> string \<Rightarrow> string option" where
  "strip_ansi ok str = (if ok then Some (strip_codes str) else None)"

section \<open>Printing into a buffer\<close>

datatype formatted = NoText | Formatted string | OutOfBounds

text \<open>The pointer, what is left of the buffer after it as the code computes it, and the text so far. \<open>cap\<close> is the
  size of the buffer; \<open>None\<close> stands for a write behind it. A size that has wrapped round is taken as it is:
  the pointer is behind the buffer then, and nothing stops the next text from being written there.\<close>

type_synonym print_pos = "nat \<times> nat \<times> string"

definition print_at :: "nat \<Rightarrow> string \<Rightarrow> print_pos \<Rightarrow> print_pos option" where
  "print_at cap text s =
     (case s of (pos, remaining, out) \<Rightarrow>
        (let w = min (length text) (remaining - 1)
         in if remaining = 0 then Some (pos + length text, size_sub remaining (length text), out)
            else if pos + w + 1 > cap then None
            else Some (pos + length text, size_sub remaining (length text), out @ take w text)))"

text \<open>The parts that follow are printed only while something is left.\<close>

definition print_more :: "nat \<Rightarrow> string option \<Rightarrow> print_pos \<Rightarrow> print_pos option" where
  "print_more cap text s =
     (case text of
        None \<Rightarrow> Some s
      | Some t \<Rightarrow> if fst (snd s) > 0 then print_at cap t s else Some s)"

definition text_length :: "nat \<Rightarrow> string option \<Rightarrow> nat" where
  "text_length extra t = (case t of None \<Rightarrow> 0 | Some s \<Rightarrow> length s + extra)"

definition after_label :: "string \<Rightarrow> string \<Rightarrow> string" where
  "after_label label text = CHR 0x0A # label @ text"

text \<open>What a report says of the outcome.\<close>

definition completion_outcome :: "string \<Rightarrow> string option \<Rightarrow> string option \<Rightarrow> string option" where
  "completion_outcome status clean_result clean_error =
     (case (if status = ''completed'' then clean_result else None) of
        Some r \<Rightarrow> Some (after_label ''Output: '' r)
      | None \<Rightarrow>
          (case (if status = ''failed'' then clean_error else None) of
             Some e \<Rightarrow> Some (after_label ''Error: '' e)
           | None \<Rightarrow>
               if status = ''timeout'' then Some (CHR 0x0A # ''Subagent timed out before completing.'') else None))"

definition completion_head :: "string \<Rightarrow> string \<Rightarrow> string" where
  "completion_head subagent_id status = ''[Subagent '' @ subagent_id @ '' '' @ status @ '']''"

definition completion_buffer :: "string option \<Rightarrow> string option \<Rightarrow> string option \<Rightarrow> nat" where
  "completion_buffer task clean_result clean_error =
     1024 + text_length 0 task + text_length 100 clean_result + text_length 100 clean_error"

definition print_completion ::
    "string \<Rightarrow> string \<Rightarrow> string option \<Rightarrow> string option \<Rightarrow> string option \<Rightarrow> formatted" where
  "print_completion subagent_id status task clean_result clean_error =
     (let cap = completion_buffer task clean_result clean_error
      in case Option.bind (Option.bind (print_at cap (completion_head subagent_id status) (0, cap, []))
                (print_more cap (map_option (after_label ''Task: '') task)))
                (print_more cap (completion_outcome status clean_result clean_error)) of
           None \<Rightarrow> OutOfBounds
         | Some (_, _, out) \<Rightarrow> Formatted out)"

text \<open>Sites 0 and 1 are the cleaned texts, 2 the buffer.\<close>

definition format_subagent_completion :: "sites \<Rightarrow> 'j cjson \<Rightarrow> string option \<Rightarrow> formatted" where
  "format_subagent_completion ok js content =
     (case content of
        None \<Rightarrow> NoText
      | Some c \<Rightarrow>
          if \<not> strstr c ''subagent_completion'' then NoText
          else case cJSON_Parse js c of
                 None \<Rightarrow> NoText
               | Some root \<Rightarrow>
                   (let get = (\<lambda>k. jstring js (cJSON_GetObjectItem js root k))
                    in if get ''type'' \<noteq> Some ''subagent_completion'' then NoText
                       else let id_str = (case get ''subagent_id'' of Some s \<Rightarrow> s | None \<Rightarrow> ''unknown'');
                                status_str = (case get ''status'' of Some s \<Rightarrow> s | None \<Rightarrow> ''unknown'');
                                clean_result = Option.bind (get ''result'') (strip_ansi (ok [0]));
                                clean_error = Option.bind (get ''error'') (strip_ansi (ok [1]))
                            in if ok [2] then print_completion id_str status_str (get ''task'') clean_result clean_error
                               else NoText))"

section \<open>The bundle\<close>

record notification_message =
  nm_sender_id :: "string option"
  nm_content :: "string option"
  nm_channel_id :: "string option"
  nm_is_channel_message :: bool

record notification_bundle =
  nb_messages :: "notification_message list"
  nb_capacity :: nat

text \<open>Site 0 is the array, the others the copies.\<close>

definition bundle_add_message ::
    "sites \<Rightarrow> string option \<Rightarrow> string option \<Rightarrow> string option \<Rightarrow> bool \<Rightarrow> notification_bundle
     \<Rightarrow> int \<times> notification_bundle" where
  "bundle_add_message ok sender_id content channel_id is_channel bundle =
     (let full = (length (nb_messages bundle) \<ge> nb_capacity bundle)
      in if full \<and> \<not> ok [0] then (-1, bundle)
         else let bundle = (if full then bundle\<lparr>nb_capacity := nb_capacity bundle * 2\<rparr> else bundle)
              in if copied ok 1 sender_id \<and> copied ok 2 content \<and> copied ok 3 channel_id
                 then (0, bundle\<lparr>nb_messages := nb_messages bundle @
                        [\<lparr>nm_sender_id = sender_id, nm_content = content, nm_channel_id = channel_id,
                          nm_is_channel_message = is_channel\<rparr>]\<rparr>)
                 else (-1, bundle))"

fun add_direct :: "sites \<Rightarrow> nat \<Rightarrow> DirectMessage list \<Rightarrow> notification_bundle \<Rightarrow> notification_bundle" where
  "add_direct ok i [] b = b"
| "add_direct ok i (m # ms) b =
     add_direct ok (Suc i) ms (snd (bundle_add_message (below ok i) (Some (dm_sender_id m)) (Some (dm_content m)) None False b))"

fun add_channel :: "sites \<Rightarrow> nat \<Rightarrow> ChannelMessage list \<Rightarrow> notification_bundle \<Rightarrow> notification_bundle" where
  "add_channel ok i [] b = b"
| "add_channel ok i (m # ms) b =
     add_channel ok (Suc i) ms
       (snd (bundle_add_message (below ok i) (Some (cg_sender_id m)) (Some (cg_content m)) (Some (cg_channel_id m)) True b))"

definition MAX_MESSAGES_PER_TYPE :: nat where
  "MAX_MESSAGES_PER_TYPE = 20"

definition BUNDLE_CAPACITY :: nat where
  "BUNDLE_CAPACITY = 8"

text \<open>The messages that are read are marked, so the store changes. Sites: 0 and 1 the bundle, 2 and 3 the
  direct messages, 4 and 5 those of the channels.\<close>

definition notification_bundle_create ::
    "sites \<Rightarrow> int \<Rightarrow> string \<Rightarrow> message_db option \<Rightarrow> notification_bundle option \<times> message_db option" where
  "notification_bundle_create ok now agent_id store =
     (if \<not> ok [0] \<or> \<not> ok [1] then (None, store)
      else let bundle = \<lparr>nb_messages = [], nb_capacity = BUNDLE_CAPACITY\<rparr>
           in case store of
                None \<Rightarrow> (Some bundle, None)
              | Some db \<Rightarrow>
                  (let (direct, db1) = message_receive_direct (below ok 2) now id agent_id MAX_MESSAGES_PER_TYPE db;
                       (posts, db2) = channel_receive_all (below ok 4) agent_id MAX_MESSAGES_PER_TYPE db1
                   in (Some (add_channel (below ok 5) 0 posts (add_direct (below ok 3) 0 direct bundle)), Some db2)))"

definition notification_bundle_total_count :: "notification_bundle option \<Rightarrow> int" where
  "notification_bundle_total_count bundle = (case bundle of None \<Rightarrow> 0 | Some b \<Rightarrow> int (length (nb_messages b)))"

section \<open>The text for the model\<close>

definition or_unknown :: "string option \<Rightarrow> string" where
  "or_unknown t = (case t of Some s \<Rightarrow> s | None \<Rightarrow> ''unknown'')"

definition message_line :: "notification_message \<Rightarrow> string" where
  "message_line m =
     (if nm_is_channel_message m
      then ''Channel #'' @ or_unknown (nm_channel_id m) @ '' from '' @ or_unknown (nm_sender_id m) @ '': '' @ quoted (or_empty (nm_content m))
      else ''Direct from '' @ or_unknown (nm_sender_id m) @ '': '' @ quoted (or_empty (nm_content m))) @ [CHR 0x0A]"

definition total_size :: "notification_message list \<Rightarrow> nat" where
  "total_size ms = 256 + (\<Sum>m \<leftarrow> ms. 128 + text_length 0 (nm_content m) + text_length 0 (nm_sender_id m) + text_length 0 (nm_channel_id m))"

text \<open>The loop: what is left of the buffer and the text so far. \<open>None\<close> when a report is written behind its
  buffer; message \<open>i\<close> has its own sites.\<close>

fun format_messages ::
    "sites \<Rightarrow> 'j cjson \<Rightarrow> nat \<Rightarrow> notification_message list \<Rightarrow> nat \<times> string \<Rightarrow> (nat \<times> string) option" where
  "format_messages ok js i [] s = Some s"
| "format_messages ok js i (m # ms) (remaining, out) =
     (if remaining \<le> 1 then Some (remaining, out)
      else case (case format_subagent_completion (below ok i) js (nm_content m) of
                   NoText \<Rightarrow> Some (message_line m)
                 | Formatted t \<Rightarrow> Some (t @ [CHR 0x0A])
                 | OutOfBounds \<Rightarrow> None) of
             None \<Rightarrow> None
           | Some line \<Rightarrow>
               (let written = (if length line < remaining then length line else remaining - 1)
                in format_messages ok js (Suc i) ms (remaining - written, out @ take written line)))"

definition messages_header :: string where
  "messages_header = ''[INCOMING AGENT MESSAGES]'' @ [CHR 0x0A, CHR 0x0A]"

definition messages_footer :: string where
  "messages_footer = CHR 0x0A # ''Please review and respond to these messages.'' @ [CHR 0x0A]"

definition notification_format_for_llm :: "sites \<Rightarrow> 'j cjson \<Rightarrow> notification_bundle option \<Rightarrow> formatted" where
  "notification_format_for_llm ok js bundle =
     (case bundle of
        None \<Rightarrow> NoText
      | Some b \<Rightarrow>
          if nb_messages b = [] \<or> \<not> ok [0] then NoText
          else case format_messages (below ok 1) js 0 (nb_messages b)
                      (total_size (nb_messages b) - length messages_header, messages_header) of
                 None \<Rightarrow> OutOfBounds
               | Some (remaining, out) \<Rightarrow> Formatted (if remaining > 64 then out @ messages_footer else out))"

section \<open>Reports of subagents\<close>

text \<open>The report that is meant.\<close>

definition completion_text :: "string \<Rightarrow> string \<Rightarrow> string option \<Rightarrow> string option \<Rightarrow> string option \<Rightarrow> string" where
  "completion_text subagent_id status task clean_result clean_error =
     completion_head subagent_id status @ or_empty (map_option (after_label ''Task: '') task) @
     or_empty (completion_outcome status clean_result clean_error)"

lemma print_at_fits:
  assumes "length text < remaining" and "pos + remaining = cap" and "remaining < SIZE_MOD"
  shows "print_at cap text (pos, remaining, out) = Some (pos + length text, remaining - length text, out @ text)"
  using assms by (simp add: print_at_def min_def SIZE_MOD_def SIZE_MAX_def Let_def)

lemma print_more_fits:
  assumes "text_length 0 t < remaining" and "pos + remaining = cap" and "remaining < SIZE_MOD"
  shows "print_more cap t (pos, remaining, out) =
    Some (pos + text_length 0 t, remaining - text_length 0 t, out @ or_empty t)"
  using assms print_at_fits by (cases t) (auto simp: print_more_def text_length_def or_empty_def)

lemma prints_fit:
  assumes "length h + text_length 0 t + text_length 0 out < cap" and "cap < SIZE_MOD"
  shows "Option.bind (Option.bind (print_at cap h (0, cap, [])) (print_more cap t)) (print_more cap out) =
    Some (length h + text_length 0 t + text_length 0 out, cap - length h - text_length 0 t - text_length 0 out,
      h @ or_empty t @ or_empty out)"
proof -
  have "print_at cap h (0, cap, []) = Some (length h, cap - length h, h)"
    using print_at_fits[of h cap 0 cap "[]"] assms by simp
  moreover have "print_more cap t (length h, cap - length h, h) =
      Some (length h + text_length 0 t, cap - length h - text_length 0 t, h @ or_empty t)"
    using assms by (intro print_more_fits) simp_all
  moreover have "print_more cap out (length h + text_length 0 t, cap - length h - text_length 0 t, h @ or_empty t) =
      Some (length h + text_length 0 t + text_length 0 out, cap - length h - text_length 0 t - text_length 0 out,
        (h @ or_empty t) @ or_empty out)"
    using assms by (intro print_more_fits) simp_all
  ultimately show ?thesis by simp
qed

lemma completion_outcome_length:
  "text_length 0 (completion_outcome status r e) \<le> 38 + text_length 100 r + text_length 100 e"
  by (auto simp: completion_outcome_def text_length_def after_label_def split: option.split)

text \<open>A report with an identifier and a status of ordinary length fits its buffer.\<close>

lemma print_completion_fits:
  assumes "length subagent_id + length status \<le> 900" and "completion_buffer task r e < SIZE_MOD"
  shows "print_completion subagent_id status task r e = Formatted (completion_text subagent_id status task r e)"
proof -
  have "length (completion_head subagent_id status) \<le> 912" using assms(1) by (simp add: completion_head_def)
  moreover have "text_length 0 (map_option (after_label l) task) \<le> Suc (length l) + text_length 0 task" for l
    by (auto simp: text_length_def after_label_def split: option.split)
  from this[of "''Task: ''"] have "text_length 0 (map_option (after_label ''Task: '') task) \<le> 7 + text_length 0 task" by simp
  ultimately have "length (completion_head subagent_id status) + text_length 0 (map_option (after_label ''Task: '') task) +
      text_length 0 (completion_outcome status r e) < completion_buffer task r e"
    using completion_outcome_length[of status r e] by (simp add: completion_buffer_def)
  from prints_fit[OF this assms(2)] show ?thesis
    by (simp add: print_completion_def completion_text_def Let_def)
qed

text \<open>Nothing limits the identifier: when it does not fit, what is printed next is written behind the buffer.\<close>

lemma print_completion_overflows:
  assumes "completion_buffer task r e < length (completion_head subagent_id status)"
    and "length (completion_head subagent_id status) < SIZE_MOD" and "task \<noteq> None"
  shows "print_completion subagent_id status task r e = OutOfBounds"
proof -
  let ?cap = "completion_buffer task r e" and ?h = "completion_head subagent_id status"
  obtain t where t: "task = Some t" using assms(3) by blast
  have "0 < ?cap" by (simp add: completion_buffer_def)
  then have 1: "print_at ?cap ?h (0, ?cap, []) = Some (length ?h, size_sub ?cap (length ?h), take (?cap - 1) ?h)"
    using assms(1) by (simp add: print_at_def min_def)
  have "0 < size_sub ?cap (length ?h)"
    using assms(1,2) by (simp add: size_sub_def mod_less)
  then have "print_more ?cap (Some x) (length ?h, size_sub ?cap (length ?h), out) = None" for x out
    using assms(1) by (simp add: print_more_def print_at_def)
  with 1 t show ?thesis by (simp add: print_completion_def Let_def)
qed

text \<open>C39. A report of a subagent can be written behind its buffer. Whoever sends an agent a message that looks
  like such a report, with an identifier that is longer than the room for it and a task, makes the agent
  write behind a buffer on the heap when it formats the messages that wait for it.\<close>

theorem report_overflows_buffer:
  assumes "nb_messages b = m # ms" and "nm_content m = Some c" and "strstr c ''subagent_completion''" and "cJSON_Parse js c = Some root"
    and "jstring js (cJSON_GetObjectItem js root ''type'') = Some ''subagent_completion''"
    and "jstring js (cJSON_GetObjectItem js root ''subagent_id'') = Some i"
    and "jstring js (cJSON_GetObjectItem js root ''task'') = Some t"
    and "jstring js (cJSON_GetObjectItem js root ''status'') = None"
    and "jstring js (cJSON_GetObjectItem js root ''result'') = None"
    and "jstring js (cJSON_GetObjectItem js root ''error'') = None"
    and "1024 + length t < length i" and "length i < 1000000"
  shows "notification_format_for_llm all_ok js (Some b) = OutOfBounds"
proof -
  have "print_completion i ''unknown'' (Some t) None None = OutOfBounds"
    using assms(11,12)
    by (intro print_completion_overflows) (simp_all add: completion_buffer_def completion_head_def text_length_def SIZE_MOD_def)
  then have f: "format_subagent_completion all_ok js (nm_content m) = OutOfBounds"
    using assms(2-10) by (simp add: format_subagent_completion_def Let_def)
  have "1 < total_size (nb_messages b) - length messages_header"
    by (simp add: total_size_def messages_header_def)
  with f assms(1) show ?thesis
    by (simp add: notification_format_for_llm_def)
qed

definition false_report :: notification_bundle where
  "false_report = \<lparr>nb_messages = [\<lparr>nm_sender_id = Some ''peer'', nm_content = Some ''subagent_completion'',
     nm_channel_id = None, nm_is_channel_message = False\<rparr>], nb_capacity = 8\<rparr>"

definition false_report_json :: "jvalue cjson" where
  "false_report_json = table_json [(''subagent_completion'', VObject
     [(''type'', VString ''subagent_completion''), (''subagent_id'', VString (replicate 1030 CHR ''x'')),
      (''task'', VString ''scan'')])]"

theorem report_overflows_buffer_witness:
  "notification_format_for_llm all_ok false_report_json (Some false_report) = OutOfBounds"
  by (rule report_overflows_buffer[of _ "hd (nb_messages false_report)" "[]" "''subagent_completion''" _
        "VObject [(''type'', VString ''subagent_completion''), (''subagent_id'', VString (replicate 1030 CHR ''x'')),
          (''task'', VString ''scan'')]" "replicate 1030 CHR ''x''" "''scan''"])
     (simp_all add: false_report_json_def false_report_def table_json_def jstring_def)

section \<open>The text is complete\<close>

definition line_of :: "'j cjson \<Rightarrow> notification_message \<Rightarrow> string" where
  "line_of js m =
     (case format_subagent_completion all_ok js (nm_content m) of
        Formatted t \<Rightarrow> t @ [CHR 0x0A]
      | _ \<Rightarrow> message_line m)"

definition share :: "notification_message \<Rightarrow> nat" where
  "share m = 128 + text_length 0 (nm_content m) + text_length 0 (nm_sender_id m) + text_length 0 (nm_channel_id m)"

definition line_fits :: "'j cjson \<Rightarrow> notification_message \<Rightarrow> bool" where
  "line_fits js m \<longleftrightarrow> format_subagent_completion all_ok js (nm_content m) \<noteq> OutOfBounds \<and> length (line_of js m) \<le> share m"

lemma message_line_length: "length (message_line m) \<le> share m"
  by (auto simp: message_line_def share_def text_length_def quoted_def or_unknown_def or_empty_def split: option.split)

lemma format_messages_fits:
  assumes "\<forall>m \<in> set ms. line_fits js m" and "sum_list (map share ms) + 65 \<le> remaining"
  shows "\<exists>r. r \<ge> 65 \<and> format_messages all_ok js i ms (remaining, out) = Some (r, out @ concat (map (line_of js) ms))"
  using assms
proof (induction ms arbitrary: i remaining out)
  case (Cons m ms)
  have fits: "length (line_of js m) \<le> share m" "format_subagent_completion all_ok js (nm_content m) \<noteq> OutOfBounds"
    using Cons.prems(1) by (simp_all add: line_fits_def)
  have step: "format_messages all_ok js i (m # ms) (remaining, out) =
      format_messages all_ok js (Suc i) ms (remaining - length (line_of js m), out @ line_of js m)"
    using fits Cons.prems(2)
    by (cases "format_subagent_completion all_ok js (nm_content m)") (simp_all add: line_of_def Let_def)
  have "sum_list (map share ms) + 65 \<le> remaining - length (line_of js m)" using fits(1) Cons.prems(2) by simp
  with Cons.IH[OF _ this, of "Suc i" "out @ line_of js m"] Cons.prems(1) show ?case
    unfolding step by simp
qed simp

text \<open>Every message of a bundle is shown to the model, in order and in full.\<close>

lemma notification_text:
  assumes "nb_messages b \<noteq> []" and "\<forall>m \<in> set (nb_messages b). line_fits js m"
  shows "notification_format_for_llm all_ok js (Some b) =
    Formatted (messages_header @ concat (map (line_of js) (nb_messages b)) @ messages_footer)"
proof -
  have "total_size (nb_messages b) = 256 + sum_list (map share (nb_messages b))"
    by (simp add: total_size_def share_def[abs_def])
  then have "sum_list (map share (nb_messages b)) + 65 \<le> total_size (nb_messages b) - length messages_header"
    by (simp add: messages_header_def)
  from format_messages_fits[OF assms(2) this, of 0 messages_header] assms(1) show ?thesis
    by (auto simp: notification_format_for_llm_def)
qed

definition direct_note :: "DirectMessage \<Rightarrow> notification_message" where
  "direct_note m = \<lparr>nm_sender_id = Some (dm_sender_id m), nm_content = Some (dm_content m), nm_channel_id = None,
     nm_is_channel_message = False\<rparr>"

definition channel_note :: "ChannelMessage \<Rightarrow> notification_message" where
  "channel_note m = \<lparr>nm_sender_id = Some (cg_sender_id m), nm_content = Some (cg_content m),
     nm_channel_id = Some (cg_channel_id m), nm_is_channel_message = True\<rparr>"

lemma bundle_add_ok:
  "nb_messages (snd (bundle_add_message all_ok s c ch k b)) = nb_messages b @
     [\<lparr>nm_sender_id = s, nm_content = c, nm_channel_id = ch, nm_is_channel_message = k\<rparr>]"
  by (simp add: bundle_add_message_def copied_def Let_def)

lemma add_direct_ok: "nb_messages (add_direct all_ok i ms b) = nb_messages b @ map direct_note ms"
  by (induction ms arbitrary: i b) (simp_all add: bundle_add_ok direct_note_def)

lemma add_channel_ok: "nb_messages (add_channel all_ok i ms b) = nb_messages b @ map channel_note ms"
  by (induction ms arbitrary: i b) (simp_all add: bundle_add_ok channel_note_def)

text \<open>A bundle has the direct messages that wait, up to the limit, and then those of the channels.\<close>

lemma bundle_messages:
  assumes "in_rowid_order dr_rowid (mb_direct db)"
  obtains b store posts where "notification_bundle_create all_ok now agent (Some db) = (Some b, store)"
    and "nb_messages b = map (direct_note \<circ> message_of) (take 20 (pending agent db)) @ map channel_note posts"
proof -
  have "fst (message_receive_direct all_ok now id agent 20 db) = map message_of (take 20 (pending agent db))"
    using receive_direct_ok(1)[OF assms, of now id agent 20] by (simp add: sql_limit_def limit_or_100_def)
  then show thesis
    using that by (simp add: notification_bundle_create_def MAX_MESSAGES_PER_TYPE_def Let_def case_prod_beta
        add_direct_ok add_channel_ok)
qed

end
