(* ===== verification/Subagent_Manager.thy ===== *)
theory Subagent_Manager
  imports Subagent_Parent Notifications Decimal "HOL-Library.Multiset"
begin

text \<open>
  The processes of subagents: \<^verbatim>\<open>lib/tools/subagent_tool.c\<close> and \<^verbatim>\<open>lib/tools/subagent_process.c\<close>. A manager
  keeps an array of the subagents that were started. Each has a pipe for its output and a channel for its
  questions to the user; when it ends, is too slow or is interrupted, its status is set and the agent
  above gets a message.

  What the system does is an argument of each operation: what reading the pipe gives, what \<^verbatim>\<open>waitpid\<close> returns,
  the clock and the allocations. The parts of the sub_world that several subagents share are the record
  \<open>sub_world\<close>: terminal, message store, open descriptors, signals that were sent and programs that were
  started. The flags of a descriptor and the pauses between two looks at a process are not modelled.
\<close>

section \<open>Data\<close>

definition SUBAGENT_MAX_DEFAULT :: int where "SUBAGENT_MAX_DEFAULT = 5"
definition SUBAGENT_TIMEOUT_DEFAULT :: int where "SUBAGENT_TIMEOUT_DEFAULT = 300"
definition SUBAGENT_MAX_OUTPUT_LENGTH :: nat where "SUBAGENT_MAX_OUTPUT_LENGTH = 131072"
definition SUBAGENT_HARD_CAP :: int where "SUBAGENT_HARD_CAP = 20"
definition SUBAGENT_MAX_TIMEOUT_SEC :: int where "SUBAGENT_MAX_TIMEOUT_SEC = 3600"

datatype SubagentStatus =
    SUBAGENT_STATUS_PENDING
  | SUBAGENT_STATUS_RUNNING
  | SUBAGENT_STATUS_COMPLETED
  | SUBAGENT_STATUS_FAILED
  | SUBAGENT_STATUS_TIMEOUT

text \<open>The write end of the pipe for the output is closed in the process above and is left out. The length of
  the output is that of the list.\<close>

record Subagent =
  sa_id :: string
  sa_pid :: int
  sa_status :: SubagentStatus
  sa_stdout :: int
  sa_channel :: ApprovalChannel
  sa_task :: "string option"
  sa_context :: "string option"
  sa_output :: "string option"
  sa_result :: "string option"
  sa_error :: "string option"
  sa_start_time :: int

record 'r SubagentManager =
  sm_subagents :: "Subagent list"
  sm_max_subagents :: int
  sm_timeout_seconds :: int
  sm_is_subagent_process :: bool
  sm_gate_config :: "'r ApprovalGateConfig option"

datatype signal = SIGTERM | SIGKILL

record sub_world =
  wd_io :: gate_io
  wd_db :: "message_db option"
  wd_fds :: "int list"
  wd_signals :: "(int \<times> signal) list"
  wd_programs :: "(int \<times> string list) list"

definition subagent_status_to_string :: "SubagentStatus \<Rightarrow> string" where
  "subagent_status_to_string s =
     (case s of
        SUBAGENT_STATUS_PENDING \<Rightarrow> ''pending''
      | SUBAGENT_STATUS_RUNNING \<Rightarrow> ''running''
      | SUBAGENT_STATUS_COMPLETED \<Rightarrow> ''completed''
      | SUBAGENT_STATUS_FAILED \<Rightarrow> ''failed''
      | SUBAGENT_STATUS_TIMEOUT \<Rightarrow> ''timeout'')"

text \<open>An identifier is the text of eight random bytes.\<close>

definition generate_subagent_id :: "nat list \<Rightarrow> string" where
  "generate_subagent_id random_bytes =
     concat (map (\<lambda>b. [''0123456789abcdef'' ! (b div 16), ''0123456789abcdef'' ! (b mod 16)]) random_bytes)"

definition subagent_manager_init_with_config :: "bool \<Rightarrow> int \<Rightarrow> int \<Rightarrow> 'r SubagentManager option" where
  "subagent_manager_init_with_config ok max_subagents timeout_seconds =
     (let max_subagents = (if max_subagents < 1 then SUBAGENT_MAX_DEFAULT else max_subagents);
          max_subagents = (if max_subagents > SUBAGENT_HARD_CAP then SUBAGENT_HARD_CAP else max_subagents);
          timeout_seconds = (if timeout_seconds < 1 then SUBAGENT_TIMEOUT_DEFAULT else timeout_seconds);
          timeout_seconds = (if timeout_seconds > SUBAGENT_MAX_TIMEOUT_SEC then SUBAGENT_MAX_TIMEOUT_SEC else timeout_seconds)
      in if \<not> ok then None
         else Some \<lparr>sm_subagents = [], sm_max_subagents = max_subagents, sm_timeout_seconds = timeout_seconds,
                    sm_is_subagent_process = False, sm_gate_config = None\<rparr>)"

definition subagent_manager_set_gate_config :: "'r SubagentManager \<Rightarrow> 'r ApprovalGateConfig option \<Rightarrow> 'r SubagentManager" where
  "subagent_manager_set_gate_config manager gate_config = manager\<lparr>sm_gate_config := gate_config\<rparr>"

definition subagent_find_by_id :: "'r SubagentManager \<Rightarrow> string \<Rightarrow> nat option" where
  "subagent_find_by_id manager subagent_id = find_index (\<lambda>s. sa_id s = subagent_id) (sm_subagents manager)"

section \<open>The output\<close>

text \<open>What becomes of some bytes that were read: there is no room for them, no memory, or as many as fit are
  kept.\<close>

datatype kept_bytes = No_room | No_memory | Kept string

definition keep_output :: "bool \<Rightarrow> string option \<Rightarrow> string \<Rightarrow> kept_bytes" where
  "keep_output ok output bytes =
     (let old = (case output of None \<Rightarrow> [] | Some s \<Rightarrow> s);
          new_len = length old + length bytes;
          n = (if new_len > SUBAGENT_MAX_OUTPUT_LENGTH then SUBAGENT_MAX_OUTPUT_LENGTH - length old else length bytes)
      in if new_len > SUBAGENT_MAX_OUTPUT_LENGTH \<and> n = 0 then No_room
         else if \<not> ok then No_memory
         else Kept (old @ take n bytes))"

text \<open>Reading what is there: the bytes that were read, or -1, and the output. After the last event nothing is
  there. Site k is the k-th allocation.\<close>

fun drain_pipe :: "alloc \<Rightarrow> nat \<Rightarrow> read_event list \<Rightarrow> int \<Rightarrow> string option \<Rightarrow> int \<times> string option" where
  "drain_pipe ok k [] got output = (got, output)"
| "drain_pipe ok k (Not_ready # es) got output = (got, output)"
| "drain_pipe ok k (Read_failed # es) got output = (-1, output)"
| "drain_pipe ok k (Got bytes # es) got output =
     (if bytes = [] then (got, output)
      else case keep_output (ok k) output bytes of
             No_room \<Rightarrow> (got + int (length bytes), output)
           | No_memory \<Rightarrow> (-1, output)
           | Kept s \<Rightarrow> drain_pipe ok (Suc k) es (got + int (length bytes)) (Some s))"

text \<open>The first argument that is not memory: whether the flags of the descriptor are known.\<close>

definition read_subagent_output_nonblocking :: "alloc \<Rightarrow> bool \<Rightarrow> read_event list \<Rightarrow> Subagent \<Rightarrow> int \<times> Subagent" where
  "read_subagent_output_nonblocking ok flags es sub =
     (if sa_stdout sub \<le> 0 \<or> \<not> flags then (-1, sub)
      else case drain_pipe ok 0 es 0 (sa_output sub) of (n, output) \<Rightarrow> (n, sub\<lparr>sa_output := output\<rparr>))"

text \<open>Reading to the end, which is reached after the last event; the result tells whether nothing failed.\<close>

fun read_to_end :: "alloc \<Rightarrow> nat \<Rightarrow> read_event list \<Rightarrow> string option \<Rightarrow> bool \<times> string option" where
  "read_to_end ok k [] output = (True, output)"
| "read_to_end ok k (Not_ready # es) output = (False, output)"
| "read_to_end ok k (Read_failed # es) output = (False, output)"
| "read_to_end ok k (Got bytes # es) output =
     (if bytes = [] then (True, output)
      else case keep_output (ok k) output bytes of
             No_room \<Rightarrow> (True, output)
           | No_memory \<Rightarrow> (False, output)
           | Kept s \<Rightarrow> read_to_end ok (Suc k) es (Some s))"

definition read_subagent_output :: "alloc \<Rightarrow> read_event list \<Rightarrow> Subagent \<times> sub_world \<Rightarrow> int \<times> Subagent \<times> sub_world" where
  "read_subagent_output ok es s =
     (case s of (sub, w) \<Rightarrow>
        if sa_stdout sub \<le> 0 then (-1, sub, w)
        else case read_to_end ok 0 es (sa_output sub) of
               (ended, output) \<Rightarrow>
                 if ended then (0, sub\<lparr>sa_output := output, sa_stdout := -1\<rparr>, w\<lparr>wd_fds := remove1 (sa_stdout sub) (wd_fds w)\<rparr>)
                 else (-1, sub\<lparr>sa_output := output\<rparr>, w))"

section \<open>The end of a subagent\<close>

datatype proc_status = Exited int | Killed_by int | Other_status

definition exit_message :: "proc_status \<Rightarrow> string" where
  "exit_message st =
     (case st of
        Exited code \<Rightarrow> ''Subagent exited with code '' @ decimal code
      | Killed_by sig \<Rightarrow> ''Subagent killed by signal '' @ decimal sig
      | Other_status \<Rightarrow> ''Subagent process failed'')"

text \<open>Sites: 0 and 1 the error, 2 below the output.\<close>

definition subagent_handle_process_exit ::
    "sites \<Rightarrow> read_event list \<Rightarrow> proc_status \<Rightarrow> Subagent \<times> sub_world \<Rightarrow> Subagent \<times> sub_world" where
  "subagent_handle_process_exit ok es st s =
     (case snd (read_subagent_output (\<lambda>k. ok [2, k]) es s) of
        (sub, w) \<Rightarrow>
          if st = Exited 0
          then (sub\<lparr>sa_status := SUBAGENT_STATUS_COMPLETED, sa_result := map_option c_text (sa_output sub), sa_output := None\<rparr>, w)
          else let error_msg = exit_message st;
                   short = (if ok [1] then Some error_msg else None);
                   error = (case sa_output sub of
                              None \<Rightarrow> short
                            | Some out \<Rightarrow>
                                if out \<noteq> [] \<and> ok [0] then Some (error_msg @ ''. Output: '' @ c_text out) else short)
               in (sub\<lparr>sa_status := SUBAGENT_STATUS_FAILED, sa_error := error, sa_output := None\<rparr>, w))"

text \<open>The message to the agent above. Sites of the store are below 0; a report that cannot be built or
  printed is \<open>None\<close> of the printer.\<close>

record report_env =
  re_ok :: sites
  re_parent_id :: "string option"
  re_uuid :: "string option"
  re_now :: int
  re_millis :: int

definition report_status :: "SubagentStatus \<Rightarrow> string" where
  "report_status s =
     (if s = SUBAGENT_STATUS_COMPLETED then ''completed''
      else if s = SUBAGENT_STATUS_FAILED then ''failed''
      else if s = SUBAGENT_STATUS_TIMEOUT then ''timeout'' else ''unknown'')"

definition optional_field :: "string \<Rightarrow> string option \<Rightarrow> (string \<times> json_field) list" where
  "optional_field k v = (case v of None \<Rightarrow> [] | Some s \<Rightarrow> [(k, JStr s)])"

definition report_fields :: "int \<Rightarrow> Subagent \<Rightarrow> (string \<times> json_field) list" where
  "report_fields now sub =
     [(''type'', JStr ''subagent_completion''), (''subagent_id'', JStr (sa_id sub)),
      (''status'', JStr (report_status (sa_status sub)))] @
     optional_field ''result'' (sa_result sub) @ optional_field ''error'' (sa_error sub) @
     optional_field ''task'' (sa_task sub) @
     (if sa_start_time sub > 0 then [(''elapsed_seconds'', JNum (wrap32 (now - sa_start_time sub)))] else [])"

definition subagent_notify_parent :: "'j cjson \<Rightarrow> report_env \<Rightarrow> Subagent \<Rightarrow> message_db option \<Rightarrow> message_db option" where
  "subagent_notify_parent js env sub store =
     (case re_parent_id env of
        None \<Rightarrow> store
      | Some parent_id \<Rightarrow>
          if parent_id = [] then store
          else case store of
                 None \<Rightarrow> None
               | Some db \<Rightarrow>
                   (case cJSON_PrintObject js (report_fields (re_now env) sub) of
                      None \<Rightarrow> Some db
                    | Some json_str \<Rightarrow>
                        Some (snd (message_send_direct (re_ok env) (re_millis env) (re_uuid env) (sa_id sub) parent_id json_str 0 db))))"

section \<open>Looking at a subagent\<close>

text \<open>What \<^verbatim>\<open>waitpid\<close> says when it does not wait.\<close>

datatype wait_answer = Still_running | Ended proc_status | No_child | Wait_failed

text \<open>The answers of the world for one look: \<open>le_reads\<close> is what the pipe has at first, \<open>le_rest\<close> what it has
  when the process has ended.\<close>

record look_env =
  le_ok :: sites
  le_flags :: bool
  le_reads :: "read_event list"
  le_wait :: wait_answer
  le_rest :: "read_event list"
  le_report :: report_env

definition signalled :: "int \<Rightarrow> signal \<Rightarrow> sub_world \<Rightarrow> sub_world" where
  "signalled pid sig w = w\<lparr>wd_signals := wd_signals w @ [(pid, sig)]\<rparr>"

definition notified :: "'j cjson \<Rightarrow> look_env \<Rightarrow> Subagent \<times> sub_world \<Rightarrow> Subagent \<times> sub_world" where
  "notified js env s =
     (case s of (sub, w) \<Rightarrow> (sub, w\<lparr>wd_db := subagent_notify_parent js (le_report env) sub (wd_db w)\<rparr>))"

definition strdup :: "bool \<Rightarrow> string \<Rightarrow> string option" where
  "strdup ok s = (if ok then Some s else None)"

text \<open>Sites: 0 the message of the error, 1 and 2 below the output, 3 below the end of the process.\<close>

definition time_out :: "'j cjson \<Rightarrow> look_env \<Rightarrow> Subagent \<times> sub_world \<Rightarrow> Subagent \<times> sub_world" where
  "time_out js env s =
     (case s of (sub, w) \<Rightarrow>
        (case snd (read_subagent_output (\<lambda>k. le_ok env [1, k]) (le_rest env) (sub, signalled (sa_pid sub) SIGKILL w)) of
           (sub, w) \<Rightarrow>
             notified js env
               (sub\<lparr>sa_status := SUBAGENT_STATUS_TIMEOUT,
                    sa_error := strdup (le_ok env [0]) ''Subagent execution timed out''\<rparr>, w)))"

definition look :: "'j cjson \<Rightarrow> look_env \<Rightarrow> Subagent \<times> sub_world \<Rightarrow> Subagent \<times> sub_world" where
  "look js env s =
     (case s of (sub, w) \<Rightarrow>
        (let sub = snd (read_subagent_output_nonblocking (\<lambda>k. le_ok env [2, k]) (le_flags env) (le_reads env) sub)
         in case le_wait env of
              Ended st \<Rightarrow> notified js env (subagent_handle_process_exit (below (le_ok env) 3) (le_rest env) st (sub, w))
            | Wait_failed \<Rightarrow>
                notified js env
                  (sub\<lparr>sa_status := SUBAGENT_STATUS_FAILED,
                       sa_error := strdup (le_ok env [0]) ''Failed to check subagent status''\<rparr>, w)
            | Still_running \<Rightarrow> (sub, w)
            | No_child \<Rightarrow> (sub, w)))"

text \<open>A look at a running subagent, which is killed when its time is over.\<close>

definition poll_one :: "'j cjson \<Rightarrow> int \<Rightarrow> int \<Rightarrow> look_env \<Rightarrow> Subagent \<times> sub_world \<Rightarrow> Subagent \<times> sub_world" where
  "poll_one js timeout now env s =
     (if now - sa_start_time (fst s) > timeout then time_out js env s else look js env s)"

fun poll_from ::
    "'j cjson \<Rightarrow> int \<Rightarrow> int \<Rightarrow> (nat \<Rightarrow> look_env) \<Rightarrow> nat \<Rightarrow> Subagent list \<Rightarrow> sub_world \<Rightarrow> int \<times> Subagent list \<times> sub_world" where
  "poll_from js timeout now envs i [] w = (0, [], w)"
| "poll_from js timeout now envs i (sub # subs) w =
     (if sa_status sub \<noteq> SUBAGENT_STATUS_RUNNING
      then case poll_from js timeout now envs (Suc i) subs w of (n, subs, w) \<Rightarrow> (n, sub # subs, w)
      else case poll_one js timeout now (envs i) (sub, w) of
             (sub, w) \<Rightarrow>
               (case poll_from js timeout now envs (Suc i) subs w of
                  (n, subs, w) \<Rightarrow> (if sa_status sub \<noteq> SUBAGENT_STATUS_RUNNING then n + 1 else n, sub # subs, w)))"

definition subagent_poll_all ::
    "'j cjson \<Rightarrow> int \<Rightarrow> (nat \<Rightarrow> look_env) \<Rightarrow> 'r SubagentManager \<times> sub_world \<Rightarrow> int \<times> 'r SubagentManager \<times> sub_world" where
  "subagent_poll_all js now envs s =
     (case s of (manager, w) \<Rightarrow>
        (case poll_from js (sm_timeout_seconds manager) now envs 0 (sm_subagents manager) w of
           (changed, subs, w) \<Rightarrow> (changed, manager\<lparr>sm_subagents := subs\<rparr>, w)))"

section \<open>Starting a subagent\<close>

text \<open>Pipes are pairs of descriptors, the end for reading first, \<open>None\<close> if they cannot be made.\<close>

record spawn_env =
  sp_ok :: sites
  sp_random :: "nat list"
  sp_stdout :: "(int \<times> int) option"
  sp_request :: "(int \<times> int) option"
  sp_response :: "(int \<times> int) option"
  sp_path :: "string option"
  sp_fork :: "int option"
  sp_now :: int

definition fds_closed :: "int list \<Rightarrow> sub_world \<Rightarrow> sub_world" where
  "fds_closed xs w = w\<lparr>wd_fds := fold remove1 xs (wd_fds w)\<rparr>"

text \<open>The identifier and the three pipes.\<close>

type_synonym prepared = "string \<times> (int \<times> int) \<times> (int \<times> int) \<times> (int \<times> int)"

definition prefork_setup :: "spawn_env \<Rightarrow> 'r SubagentManager \<Rightarrow> sub_world \<Rightarrow> prepared option \<times> sub_world" where
  "prefork_setup env manager w =
     (if sm_is_subagent_process manager then (None, w)
      else if sm_max_subagents manager \<le> 0 \<or> int (length (sm_subagents manager)) \<ge> sm_max_subagents manager then (None, w)
      else let id_out = generate_subagent_id (sp_random env)
           in case sp_stdout env of
                None \<Rightarrow> (None, w)
              | Some (out_r, out_w) \<Rightarrow>
                  let w = w\<lparr>wd_fds := [out_r, out_w] @ wd_fds w\<rparr>
                  in case create_approval_channel_pipes (sp_request env) (sp_response env) (wd_fds w) of
                       (None, fds) \<Rightarrow> (None, fds_closed [out_r, out_w] (w\<lparr>wd_fds := fds\<rparr>))
                     | (Some (req, resp), fds) \<Rightarrow> (Some (id_out, (out_r, out_w), req, resp), w\<lparr>wd_fds := fds\<rparr>))"

text \<open>Sites: 0 the task, 1 the context, 2 the array.\<close>

definition register_subagent ::
    "sites \<Rightarrow> int \<Rightarrow> string \<Rightarrow> int \<Rightarrow> int \<Rightarrow> int \<Rightarrow> int \<Rightarrow> string option \<Rightarrow> string option
     \<Rightarrow> 'r SubagentManager \<times> sub_world \<Rightarrow> string option \<times> 'r SubagentManager \<times> sub_world" where
  "register_subagent ok now sub_id pid stdout_read_fd request_read_fd response_write_fd task context_str s =
     (case s of (manager, w) \<Rightarrow>
        (let has_context = (context_str \<noteq> None \<and> context_str \<noteq> Some []);
             new_sub = \<lparr>sa_id = sub_id, sa_pid = pid, sa_status = SUBAGENT_STATUS_RUNNING, sa_stdout = stdout_read_fd,
               sa_channel = \<lparr>request_fd = request_read_fd, response_fd = response_write_fd, subagent_pid = pid\<rparr>,
               sa_task = strdup (ok [0]) (case task of None \<Rightarrow> ''subagent'' | Some t \<Rightarrow> t),
               sa_context = (if has_context then strdup (ok [1]) (the context_str) else None),
               sa_output = None, sa_result = None, sa_error = None, sa_start_time = now\<rparr>;
             failed = (None, manager,
               fds_closed [stdout_read_fd, request_read_fd, response_write_fd] (signalled pid SIGKILL w))
         in if sa_task new_sub = None \<or> has_context \<and> sa_context new_sub = None then failed
            else if \<not> ok [2] then failed
            else (Some sub_id, manager\<lparr>sm_subagents := sm_subagents manager @ [new_sub]\<rparr>, w)))"

text \<open>What is closed when there is no process.\<close>

definition undo_pipes :: "int \<times> int \<Rightarrow> int \<times> int \<Rightarrow> int \<times> int \<Rightarrow> sub_world \<Rightarrow> sub_world" where
  "undo_pipes out req resp w =
     (let w = fds_closed [fst out, snd out] w
      in w\<lparr>wd_fds := cleanup_approval_channel_pipes (Some req) (Some resp) (wd_fds w)\<rparr>)"

definition started :: "int \<Rightarrow> string list \<Rightarrow> int \<times> int \<Rightarrow> int \<times> int \<Rightarrow> int \<times> int \<Rightarrow> sub_world \<Rightarrow> sub_world" where
  "started pid args out req resp w =
     fds_closed [snd out, snd req, fst resp] (w\<lparr>wd_programs := wd_programs w @ [(pid, args)]\<rparr>)"

definition child_args :: "string \<Rightarrow> string \<Rightarrow> string option \<Rightarrow> string option \<Rightarrow> string list" where
  "child_args path task ctx model =
     [path, ''--subagent'', ''--task'', task] @
     (case ctx of None \<Rightarrow> [] | Some c \<Rightarrow> if c \<noteq> [] then [''--context'', c] else []) @
     (case model of None \<Rightarrow> [] | Some m \<Rightarrow> if m \<noteq> [] then [''--model'', m] else [])"

definition subagent_spawn ::
    "spawn_env \<Rightarrow> string option \<Rightarrow> string option \<Rightarrow> string option \<Rightarrow> 'r SubagentManager \<times> sub_world
     \<Rightarrow> string option \<times> 'r SubagentManager \<times> sub_world" where
  "subagent_spawn env task ctx model s =
     (case s of (manager, w) \<Rightarrow>
        (case task of
           None \<Rightarrow> (None, manager, w)
         | Some t \<Rightarrow>
             (case prefork_setup env manager w of
                (None, w) \<Rightarrow> (None, manager, w)
              | (Some (sub_id, out, req, resp), w) \<Rightarrow>
                  (case sp_path env of
                     None \<Rightarrow> (None, manager, undo_pipes out req resp w)
                   | Some path \<Rightarrow>
                       (case sp_fork env of
                          None \<Rightarrow> (None, manager, undo_pipes out req resp w)
                        | Some pid \<Rightarrow>
                            register_subagent (sp_ok env) (sp_now env) sub_id pid (fst out) (fst req) (snd resp) task ctx
                              (manager, started pid (child_args path t ctx model) out req resp w))))))"

definition subagent_spawn_with_args ::
    "spawn_env \<Rightarrow> string list \<Rightarrow> string option \<Rightarrow> 'r SubagentManager \<times> sub_world
     \<Rightarrow> string option \<times> 'r SubagentManager \<times> sub_world" where
  "subagent_spawn_with_args env args task_desc s =
     (case s of (manager, w) \<Rightarrow>
        if args = [] then (None, manager, w)
        else case prefork_setup env manager w of
               (None, w) \<Rightarrow> (None, manager, w)
             | (Some (sub_id, out, req, resp), w) \<Rightarrow>
                 (case sp_fork env of
                    None \<Rightarrow> (None, manager, undo_pipes out req resp w)
                  | Some pid \<Rightarrow>
                      register_subagent (sp_ok env) (sp_now env) sub_id pid (fst out) (fst req) (snd resp) task_desc None
                        (manager, started pid args out req resp w)))"

section \<open>Questions of subagents\<close>

text \<open>\<open>ready\<close> tells which subagents \<^verbatim>\<open>poll\<close> reports, \<open>None\<close> if it fails or times out.\<close>

definition subagent_poll_approval_requests :: "bool \<Rightarrow> (nat \<Rightarrow> bool) option \<Rightarrow> 'r SubagentManager \<Rightarrow> int" where
  "subagent_poll_approval_requests ok ready manager =
     (let subs = sm_subagents manager;
          running = (\<lambda>i. sa_status (subs ! i) = SUBAGENT_STATUS_RUNNING)
      in if \<not> list_ex (\<lambda>i. running i \<and> request_fd (sa_channel (subs ! i)) \<ge> 0) [0..<length subs] then -1
         else if \<not> ok then -1
         else case ready of
                None \<Rightarrow> -1
              | Some flags \<Rightarrow>
                  (case find_index (\<lambda>i. running i \<and> request_fd (sa_channel (subs ! i)) > 2 \<and> flags i) [0..<length subs] of
                     None \<Rightarrow> -1
                   | Some i \<Rightarrow> int i))"

definition close_above_2 :: "int \<Rightarrow> int list \<Rightarrow> int \<times> int list" where
  "close_above_2 fd fds = (if fd > 2 then (-1, remove1 fd fds) else (fd, fds))"

definition close_approval_channel :: "Subagent \<times> sub_world \<Rightarrow> Subagent \<times> sub_world" where
  "close_approval_channel s =
     (case s of (sub, w) \<Rightarrow>
        (case close_above_2 (request_fd (sa_channel sub)) (wd_fds w) of
           (rq, fds) \<Rightarrow>
             (case close_above_2 (response_fd (sa_channel sub)) fds of
                (rp, fds) \<Rightarrow>
                  (sub\<lparr>sa_channel := (sa_channel sub)\<lparr>request_fd := rq, response_fd := rp\<rparr>\<rparr>, w\<lparr>wd_fds := fds\<rparr>))))"

text \<open>The configuration of the gate that is passed is that of the manager.\<close>

definition subagent_handle_approval_request ::
    "handle_env \<Rightarrow> ('j, 'r) orch_lib \<Rightarrow> int \<Rightarrow> 'r SubagentManager \<times> sub_world \<Rightarrow> int \<times> 'r SubagentManager \<times> sub_world" where
  "subagent_handle_approval_request env lib idx s =
     (case s of (manager, w) \<Rightarrow>
        (case sm_gate_config manager of
           None \<Rightarrow> (-1, manager, w)
         | Some gate_config \<Rightarrow>
             (let subs = sm_subagents manager
              in if idx < 0 \<or> idx \<ge> int (length subs) then (-1, manager, w)
                 else let sub = subs ! nat idx
                      in if sa_status sub \<noteq> SUBAGENT_STATUS_RUNNING then (-1, manager, w)
                         else let h = handle_subagent_approval_request env lib (wd_io w) gate_config;
                                  w = w\<lparr>wd_io := hd_io h\<rparr>;
                                  manager = manager\<lparr>sm_gate_config := Some (hd_config h)\<rparr>
                              in if hd_code h < 0
                                 then case close_approval_channel (sub, w) of
                                        (sub, w) \<Rightarrow> (-1, manager\<lparr>sm_subagents := subs[nat idx := sub]\<rparr>, w)
                                 else (0, manager, w))))"

definition subagent_check_and_handle_approvals ::
    "bool \<Rightarrow> (nat \<Rightarrow> bool) option \<Rightarrow> (nat \<Rightarrow> handle_env) \<Rightarrow> ('j, 'r) orch_lib \<Rightarrow> 'r SubagentManager \<times> sub_world
     \<Rightarrow> int \<times> 'r SubagentManager \<times> sub_world" where
  "subagent_check_and_handle_approvals ok ready envs lib s =
     (if sm_gate_config (fst s) = None then (-1, s)
      else let idx = subagent_poll_approval_requests ok ready (fst s)
           in if idx < 0 then (0, s)
              else case subagent_handle_approval_request (envs (nat idx)) lib idx s of
                     (rc, s) \<Rightarrow> (if rc = 0 then 1 else -1, s))"

section \<open>The status of a subagent\<close>

text \<open>What happens in one turn of waiting: whether the user interrupts, the clock, the questions that are
  asked, the look at the process and what the first \<^verbatim>\<open>waitpid\<close> after an interruption returns.\<close>

record wait_round =
  wr_interrupted :: bool
  wr_now :: int
  wr_poll_ok :: bool
  wr_ready :: "(nat \<Rightarrow> bool) option"
  wr_handle :: "nat \<Rightarrow> handle_env"
  wr_look :: look_env
  wr_stops :: bool

definition on_sub ::
    "nat \<Rightarrow> (Subagent \<times> sub_world \<Rightarrow> Subagent \<times> sub_world) \<Rightarrow> 'r SubagentManager \<times> sub_world \<Rightarrow> 'r SubagentManager \<times> sub_world" where
  "on_sub k f s =
     (case s of (manager, w) \<Rightarrow>
        (case f (sm_subagents manager ! k, w) of
           (sub, w) \<Rightarrow> (manager\<lparr>sm_subagents := (sm_subagents manager)[k := sub]\<rparr>, w)))"

definition stop_child :: "bool \<Rightarrow> int \<Rightarrow> sub_world \<Rightarrow> sub_world" where
  "stop_child stops pid w =
     (let w = signalled pid SIGTERM w in if stops then w else signalled pid SIGKILL w)"

definition interrupt_sub :: "'j cjson \<Rightarrow> wait_round \<Rightarrow> Subagent \<times> sub_world \<Rightarrow> Subagent \<times> sub_world" where
  "interrupt_sub js rd s =
     (case s of (sub, w) \<Rightarrow>
        (let env = wr_look rd;
             sub = sub\<lparr>sa_status := SUBAGENT_STATUS_FAILED, sa_error := strdup (le_ok env [0]) ''Interrupted by user''\<rparr>;
             w = stop_child (wr_stops rd) (sa_pid sub) w
         in notified js env (snd (read_subagent_output (\<lambda>k. le_ok env [1, k]) (le_rest env) (sub, w)))))"

definition answer_questions ::
    "('j, 'r) orch_lib \<Rightarrow> wait_round \<Rightarrow> nat \<Rightarrow> 'r SubagentManager \<times> sub_world \<Rightarrow> 'r SubagentManager \<times> sub_world" where
  "answer_questions lib rd k s =
     (if sm_gate_config (fst s) \<noteq> None \<and> request_fd (sa_channel (sm_subagents (fst s) ! k)) > 2
      then let idx = subagent_poll_approval_requests (wr_poll_ok rd) (wr_ready rd) (fst s)
           in if idx \<ge> 0 then snd (subagent_handle_approval_request (wr_handle rd (nat idx)) lib idx s) else s
      else s)"

text \<open>\<open>None\<close> if the loop is still waiting after all rounds.\<close>

fun wait_loop ::
    "('j, 'r) orch_lib \<Rightarrow> nat \<Rightarrow> wait_round list \<Rightarrow> 'r SubagentManager \<times> sub_world \<Rightarrow> ('r SubagentManager \<times> sub_world) option" where
  "wait_loop lib k [] s =
     (if sa_status (sm_subagents (fst s) ! k) \<noteq> SUBAGENT_STATUS_RUNNING then Some s else None)"
| "wait_loop lib k (rd # rds) s =
     (let sub = sm_subagents (fst s) ! k
      in if sa_status sub \<noteq> SUBAGENT_STATUS_RUNNING then Some s
         else if wr_interrupted rd then Some (on_sub k (interrupt_sub (ol_json lib) rd) s)
         else if wr_now rd - sa_start_time sub > sm_timeout_seconds (fst s)
         then Some (on_sub k (time_out (ol_json lib) (wr_look rd)) s)
         else wait_loop lib k rds (on_sub k (look (ol_json lib) (wr_look rd)) (answer_questions lib rd k s)))"

record status_env =
  st_ok :: sites
  st_now :: int
  st_look :: look_env
  st_rounds :: "wait_round list"

record status_report =
  sr_code :: int
  sr_status :: SubagentStatus
  sr_result :: "string option"
  sr_error :: "string option"

text \<open>Sites: 0 and 1 the copies of result and error.\<close>

definition current_state :: "sites \<Rightarrow> Subagent \<Rightarrow> status_report" where
  "current_state ok sub =
     \<lparr>sr_code = 0, sr_status = sa_status sub,
      sr_result = Option.bind (sa_result sub) (strdup (ok [0])), sr_error = Option.bind (sa_error sub) (strdup (ok [1]))\<rparr>"

definition subagent_get_status ::
    "status_env \<Rightarrow> ('j, 'r) orch_lib \<Rightarrow> string \<Rightarrow> bool \<Rightarrow> 'r SubagentManager \<times> sub_world
     \<Rightarrow> (status_report \<times> 'r SubagentManager \<times> sub_world) option" where
  "subagent_get_status env lib subagent_id wait s =
     (case subagent_find_by_id (fst s) subagent_id of
        None \<Rightarrow> Some (\<lparr>sr_code = -1, sr_status = SUBAGENT_STATUS_FAILED, sr_result = None,
                        sr_error = strdup (st_ok env [1]) ''Subagent not found''\<rparr>, s)
      | Some k \<Rightarrow>
          (let sub = sm_subagents (fst s) ! k;
               answer = (\<lambda>s. (current_state (st_ok env) (sm_subagents (fst s) ! k), s))
           in if sa_status sub \<in> {SUBAGENT_STATUS_COMPLETED, SUBAGENT_STATUS_FAILED, SUBAGENT_STATUS_TIMEOUT}
              then Some (answer s)
              else if \<not> wait
              then Some (answer (on_sub k (poll_one (ol_json lib) (sm_timeout_seconds (fst s)) (st_now env) (st_look env)) s))
              else map_option answer (wait_loop lib k (st_rounds env) s)))"

section \<open>The tools\<close>

definition extract_json_string_value ::
    "bool \<Rightarrow> 'j cjson \<Rightarrow> ('j \<Rightarrow> string \<Rightarrow> 'j option) \<Rightarrow> string option \<Rightarrow> string \<Rightarrow> string option" where
  "extract_json_string_value ok js get json key =
     (case Option.bind json (cJSON_Parse js) of
        None \<Rightarrow> None
      | Some root \<Rightarrow> Option.bind (jstring js (get root key)) (strdup ok))"

definition extract_json_boolean_value ::
    "'j cjson \<Rightarrow> ('j \<Rightarrow> string \<Rightarrow> 'j option) \<Rightarrow> string option \<Rightarrow> string \<Rightarrow> bool \<Rightarrow> bool" where
  "extract_json_boolean_value js get json key default_value =
     (case Option.bind json (cJSON_Parse js) of
        None \<Rightarrow> default_value
      | Some root \<Rightarrow>
          (case get root key of
             None \<Rightarrow> default_value
           | Some item \<Rightarrow> if cJSON_IsBool js item then cJSON_IsTrue js item else default_value))"

text \<open>The models of the configuration: the current one and the three classes.\<close>

record model_config =
  mc_model :: "string option"
  mc_simple :: "string option"
  mc_standard :: "string option"
  mc_high :: "string option"

definition config_resolve_model :: "model_config option \<Rightarrow> string \<Rightarrow> string" where
  "config_resolve_model config name =
     (case config of
        None \<Rightarrow> name
      | Some c \<Rightarrow>
          if name = ''simple'' \<and> mc_simple c \<noteq> None then the (mc_simple c)
          else if name = ''standard'' \<and> mc_standard c \<noteq> None then the (mc_standard c)
          else if name = ''high'' \<and> mc_high c \<noteq> None then the (mc_high c)
          else name)"

text \<open>The answer of a tool; \<open>None\<close> is -1.\<close>

record tool_reply =
  tr_success :: bool
  tr_text :: "string option"

definition reply_with :: "sites \<Rightarrow> bool \<Rightarrow> string \<Rightarrow> tool_reply" where
  "reply_with ok success s = \<lparr>tr_success = success, tr_text = strdup (ok [1]) s\<rparr>"

text \<open>Sites: 0 the identifier of the call, 1 the answer, 2 to 4 the parameters.\<close>

definition execute_subagent_tool_call ::
    "sites \<Rightarrow> 'j cjson \<Rightarrow> ('j \<Rightarrow> string \<Rightarrow> 'j option) \<Rightarrow> model_config option \<Rightarrow> spawn_env \<Rightarrow> ToolCall
     \<Rightarrow> 'r SubagentManager option \<times> sub_world \<Rightarrow> tool_reply option \<times> 'r SubagentManager option \<times> sub_world" where
  "execute_subagent_tool_call ok js get config env tool_call s =
     (case s of (g_subagent_manager, w) \<Rightarrow>
        if \<not> ok [0] then (None, s)
        else case g_subagent_manager of
               None \<Rightarrow> (Some (reply_with ok False ''{\"error\": \"Subagent manager not initialized\"}''), s)
             | Some manager \<Rightarrow>
                 if sm_is_subagent_process manager
                 then (Some (reply_with ok False ''{\"error\": \"Subagents cannot spawn additional subagents\"}''), s)
                 else let arg = (\<lambda>n. extract_json_string_value (ok [n]) js get (tc_arguments tool_call));
                          task = arg 2 ''task''; ctx = arg 3 ''context''; model_raw = arg 4 ''model'';
                          model = (case model_raw of
                                     None \<Rightarrow> Option.bind config mc_model
                                   | Some m \<Rightarrow> if m \<noteq> [] then Some (config_resolve_model config m)
                                               else Option.bind config mc_model)
                      in if task = None \<or> task = Some []
                         then (Some (reply_with ok False ''{\"error\": \"Task parameter is required\"}''), s)
                         else case subagent_spawn env task ctx model (manager, w) of
                                (None, manager, w) \<Rightarrow>
                                  (Some (reply_with ok False
                                     (if wrap32 (int (length (sm_subagents manager))) \<ge> sm_max_subagents manager
                                      then ''{\"error\": \"Maximum number of concurrent subagents ('' @
                                        decimal (sm_max_subagents manager) @ '') reached\"}''
                                      else ''{\"error\": \"Failed to spawn subagent\"}'')), Some manager, w)
                              | (Some subagent_id, manager, w) \<Rightarrow>
                                  (Some (reply_with ok True (''{\"subagent_id\": \"'' @ subagent_id @
                                     ''\", \"status\": \"running\", \"message\": \"Subagent spawned successfully\"}'')),
                                   Some manager, w))"

text \<open>Site 6 is the buffer of the answer.\<close>

definition status_reply :: "sites \<Rightarrow> ('j, 'r) orch_lib \<Rightarrow> status_report \<Rightarrow> tool_reply" where
  "status_reply ok lib st =
     (let esc = (\<lambda>n s. Option.bind s (\<lambda>t. json_escape_string (\<lambda>_. ok [n]) (ol_print lib) (Some t)));
          status_str = subagent_status_to_string (sr_status st);
          opening = ''{\"status\": \"'' @ status_str
      in if sr_code st \<noteq> 0
         then reply_with ok False (''{\"error\": \"'' @
                (case esc 5 (Some (case sr_error st of None \<Rightarrow> ''Subagent not found'' | Some e \<Rightarrow> e)) of
                   None \<Rightarrow> ''Unknown error'' | Some e \<Rightarrow> e) @ ''\"}'')
         else if \<not> ok [6] then reply_with ok False ''{\"error\": \"Memory allocation failed\"}''
         else case (if sr_status st = SUBAGENT_STATUS_COMPLETED then esc 4 (sr_result st) else None) of
                Some r \<Rightarrow> \<lparr>tr_success = True, tr_text = Some (opening @ ''\", \"result\": \"'' @ r @ ''\"}'')\<rparr>
              | None \<Rightarrow>
                  (case (if sr_status st = SUBAGENT_STATUS_FAILED \<or> sr_status st = SUBAGENT_STATUS_TIMEOUT
                         then esc 5 (sr_error st) else None) of
                     Some e \<Rightarrow> \<lparr>tr_success = False, tr_text = Some (opening @ ''\", \"error\": \"'' @ e @ ''\"}'')\<rparr>
                   | None \<Rightarrow>
                       if sr_status st = SUBAGENT_STATUS_RUNNING
                       then \<lparr>tr_success = True, tr_text = Some (opening @ ''\", \"message\": \"Subagent is still running\"}'')\<rparr>
                       else \<lparr>tr_success = (sr_status st = SUBAGENT_STATUS_COMPLETED), tr_text = Some (opening @ ''\"}'')\<rparr>))"

text \<open>Sites: 2 the parameter, 4 and 5 the escaped texts. The outer option is \<open>None\<close> while
  the call waits.\<close>

definition execute_subagent_status_tool_call ::
    "sites \<Rightarrow> ('j, 'r) orch_lib \<Rightarrow> ('j \<Rightarrow> string \<Rightarrow> 'j option) \<Rightarrow> status_env \<Rightarrow> ToolCall
     \<Rightarrow> 'r SubagentManager option \<times> sub_world \<Rightarrow> (tool_reply option \<times> 'r SubagentManager option \<times> sub_world) option" where
  "execute_subagent_status_tool_call ok lib get env tool_call s =
     (case s of (g_subagent_manager, w) \<Rightarrow>
        if \<not> ok [0] then Some (None, s)
        else case g_subagent_manager of
               None \<Rightarrow> Some (Some (reply_with ok False ''{\"error\": \"Subagent manager not initialized\"}''), s)
             | Some manager \<Rightarrow>
                 (case extract_json_string_value (ok [2]) (ol_json lib) get (tc_arguments tool_call) ''subagent_id'' of
                    None \<Rightarrow> Some (Some (reply_with ok False ''{\"error\": \"subagent_id parameter is required\"}''), s)
                  | Some subagent_id \<Rightarrow>
                      if subagent_id = []
                      then Some (Some (reply_with ok False ''{\"error\": \"subagent_id parameter is required\"}''), s)
                      else let wait = extract_json_boolean_value (ol_json lib) get (tc_arguments tool_call) ''wait'' False
                           in map_option (\<lambda>(st, manager, w). (Some (status_reply ok lib st), Some manager, w))
                                (subagent_get_status env lib subagent_id wait (manager, w))))"

section \<open>The end of the manager\<close>

definition cleanup_subagent :: "sites \<Rightarrow> Subagent \<times> sub_world \<Rightarrow> Subagent \<times> sub_world" where
  "cleanup_subagent ok s =
     (case s of (sub, w) \<Rightarrow>
        (let w = (if sa_stdout sub > 0 then fds_closed [sa_stdout sub] w else w);
             sub = (if sa_stdout sub > 0 then sub\<lparr>sa_stdout := -1\<rparr> else sub)
         in case close_approval_channel (sub, w) of
              (sub, w) \<Rightarrow>
                (let sub = sub\<lparr>sa_channel := (sa_channel sub)\<lparr>subagent_pid := 0\<rparr>, sa_task := None, sa_context := None,
                       sa_output := None, sa_result := None, sa_error := None, sa_pid := 0,
                       sa_status := SUBAGENT_STATUS_PENDING\<rparr>;
                     db = (if sa_id sub \<noteq> [] then map_option (\<lambda>db. snd (message_cleanup_agent ok (sa_id sub) db)) (wd_db w)
                           else wd_db w)
                 in (sub, w\<lparr>wd_db := db\<rparr>))))"

text \<open>\<open>stops i\<close> tells whether the i-th subagent has ended right after the first signal.\<close>

fun cleanup_from :: "(nat \<Rightarrow> sites) \<Rightarrow> (nat \<Rightarrow> bool) \<Rightarrow> nat \<Rightarrow> Subagent list \<Rightarrow> sub_world \<Rightarrow> sub_world" where
  "cleanup_from oks stops i [] w = w"
| "cleanup_from oks stops i (sub # subs) w =
     (let w = (if sa_status sub = SUBAGENT_STATUS_RUNNING \<and> sa_pid sub > 0 then stop_child (stops i) (sa_pid sub) w else w)
      in cleanup_from oks stops (Suc i) subs (snd (cleanup_subagent (oks i) (sub, w))))"

definition subagent_manager_cleanup :: "(nat \<Rightarrow> sites) \<Rightarrow> (nat \<Rightarrow> bool) \<Rightarrow> 'r SubagentManager \<times> sub_world \<Rightarrow> 'r SubagentManager \<times> sub_world" where
  "subagent_manager_cleanup oks stops s =
     (case s of (manager, w) \<Rightarrow> (manager\<lparr>sm_subagents := []\<rparr>, cleanup_from oks stops 0 (sm_subagents manager) w))"

section \<open>Changes of the state\<close>

text \<open>What a single look at a running subagent can do: its identity stays, its status becomes final at most,
  and then exactly one message about its last state is sent; its pipe is closed at most once.\<close>

definition same_identity :: "Subagent \<Rightarrow> Subagent \<Rightarrow> bool" where
  "same_identity a b \<longleftrightarrow> sa_id b = sa_id a \<and> sa_pid b = sa_pid a \<and> sa_task b = sa_task a \<and>
     sa_context b = sa_context a \<and> sa_start_time b = sa_start_time a \<and> sa_channel b = sa_channel a"

definition pipe_moves :: "Subagent \<times> sub_world \<Rightarrow> Subagent \<times> sub_world \<Rightarrow> bool" where
  "pipe_moves s s' \<longleftrightarrow>
     sa_stdout (fst s') = sa_stdout (fst s) \<and> wd_fds (snd s') = wd_fds (snd s) \<or>
     sa_stdout (fst s) > 0 \<and> sa_stdout (fst s') = -1 \<and> wd_fds (snd s') = remove1 (sa_stdout (fst s)) (wd_fds (snd s))"

definition sub_moves :: "'j cjson \<Rightarrow> Subagent \<times> sub_world \<Rightarrow> Subagent \<times> sub_world \<Rightarrow> bool" where
  "sub_moves js s s' \<longleftrightarrow>
     same_identity (fst s) (fst s') \<and> sa_status (fst s') \<noteq> SUBAGENT_STATUS_PENDING \<and> pipe_moves s s' \<and>
     (if sa_status (fst s') = SUBAGENT_STATUS_RUNNING then wd_db (snd s') = wd_db (snd s)
      else \<exists>env. wd_db (snd s') = subagent_notify_parent js env (fst s') (wd_db (snd s)))"

lemma read_output_moves:
  assumes "read_subagent_output ok es (sub, w) = (n, sub', w')"
  shows "same_identity sub sub'" and "sa_status sub' = sa_status sub" and "wd_db w' = wd_db w"
    and "pipe_moves (sub, w) (sub', w')"
  using assms
  by (auto simp: read_subagent_output_def same_identity_def pipe_moves_def split: if_split_asm prod.split_asm)

lemma nonblocking_moves:
  assumes "read_subagent_output_nonblocking ok flags es sub = (n, sub')"
  shows "same_identity sub sub'" and "sa_status sub' = sa_status sub" and "sa_stdout sub' = sa_stdout sub"
  using assms
  by (auto simp: read_subagent_output_nonblocking_def same_identity_def split: if_split_asm prod.split_asm)

lemma exit_moves:
  assumes "subagent_handle_process_exit ok es st (sub, w) = (sub', w')"
  shows "same_identity sub sub'" and "sa_status sub' \<in> {SUBAGENT_STATUS_COMPLETED, SUBAGENT_STATUS_FAILED}"
    and "wd_db w' = wd_db w" and "pipe_moves (sub, w) (sub', w')"
proof -
  obtain n a b where r: "read_subagent_output (\<lambda>k. ok [2, k]) es (sub, w) = (n, a, b)" by (metis prod_cases3)
  note m = read_output_moves[OF r]
  show "same_identity sub sub'" "sa_status sub' \<in> {SUBAGENT_STATUS_COMPLETED, SUBAGENT_STATUS_FAILED}"
    "wd_db w' = wd_db w" "pipe_moves (sub, w) (sub', w')"
    using assms r m by (auto simp: subagent_handle_process_exit_def Let_def same_identity_def pipe_moves_def
        split: if_split_asm)
qed

lemma time_out_moves:
  assumes "sa_status sub = SUBAGENT_STATUS_RUNNING"
  shows "sub_moves js (sub, w) (time_out js env (sub, w))"
    and "sa_status (fst (time_out js env (sub, w))) = SUBAGENT_STATUS_TIMEOUT"
proof -
  obtain n a b where r: "read_subagent_output (\<lambda>k. le_ok env [1, k]) (le_rest env) (sub, signalled (sa_pid sub) SIGKILL w) = (n, a, b)"
    by (metis prod_cases3)
  note m = read_output_moves[OF r]
  show "sub_moves js (sub, w) (time_out js env (sub, w))"
    "sa_status (fst (time_out js env (sub, w))) = SUBAGENT_STATUS_TIMEOUT"
    using r m by (auto simp: time_out_def notified_def sub_moves_def same_identity_def pipe_moves_def signalled_def)
qed

lemma interrupt_moves:
  assumes "sa_status sub = SUBAGENT_STATUS_RUNNING"
  shows "sub_moves js (sub, w) (interrupt_sub js rd (sub, w))"
    and "sa_status (fst (interrupt_sub js rd (sub, w))) = SUBAGENT_STATUS_FAILED"
proof -
  let ?sub = "sub\<lparr>sa_status := SUBAGENT_STATUS_FAILED, sa_error := strdup (le_ok (wr_look rd) [0]) ''Interrupted by user''\<rparr>"
  let ?w = "stop_child (wr_stops rd) (sa_pid sub) w"
  obtain n a b where r: "read_subagent_output (\<lambda>k. le_ok (wr_look rd) [1, k]) (le_rest (wr_look rd)) (?sub, ?w) = (n, a, b)"
    by (metis prod_cases3)
  have w: "wd_fds ?w = wd_fds w" "wd_db ?w = wd_db w" by (simp_all add: stop_child_def signalled_def Let_def)
  note m = read_output_moves[OF r]
  show "sub_moves js (sub, w) (interrupt_sub js rd (sub, w))"
    "sa_status (fst (interrupt_sub js rd (sub, w))) = SUBAGENT_STATUS_FAILED"
    using r m w by (auto simp: interrupt_sub_def notified_def sub_moves_def same_identity_def pipe_moves_def Let_def)
qed

lemma look_moves:
  assumes run: "sa_status sub = SUBAGENT_STATUS_RUNNING"
  shows "sub_moves js (sub, w) (look js env (sub, w))"
proof -
  obtain n a where r: "read_subagent_output_nonblocking (\<lambda>k. le_ok env [2, k]) (le_flags env) (le_reads env) sub = (n, a)"
    by (metis surj_pair)
  note m = nonblocking_moves[OF r]
  show ?thesis
  proof (cases "le_wait env")
    case (Ended st)
    obtain b c where e: "subagent_handle_process_exit (below (le_ok env) 3) (le_rest env) st (a, w) = (b, c)"
      by (metis surj_pair)
    note x = exit_moves[OF e]
    show ?thesis using r m x e Ended
      by (auto simp: look_def notified_def sub_moves_def same_identity_def pipe_moves_def)
  qed (use run r m in \<open>auto simp: look_def notified_def sub_moves_def same_identity_def pipe_moves_def\<close>)
qed

text \<open>The contract of the operations: what they may do to the manager and the world, step by step. \<open>fine\<close> is
  what is known of the descriptors of new pipes.\<close>

definition pipes_of :: "Subagent \<Rightarrow> int list" where
  "pipes_of sub = [sa_stdout sub, request_fd (sa_channel sub), response_fd (sa_channel sub)]"

definition new_subagent :: "Subagent \<Rightarrow> bool" where
  "new_subagent sub \<longleftrightarrow> sa_status sub = SUBAGENT_STATUS_RUNNING \<and> sa_output sub = None \<and> sa_result sub = None \<and> sa_error sub = None"

inductive change :: "'j cjson \<Rightarrow> (int \<Rightarrow> bool) \<Rightarrow> 'r SubagentManager \<times> sub_world \<Rightarrow> 'r SubagentManager \<times> sub_world \<Rightarrow> bool"
  for js fine where
  Move: "k < length (sm_subagents m) \<Longrightarrow> sa_status (sm_subagents m ! k) = SUBAGENT_STATUS_RUNNING \<Longrightarrow>
         sub_moves js (sm_subagents m ! k, w) (sub', w') \<Longrightarrow>
         change js fine (m, w) (m\<lparr>sm_subagents := (sm_subagents m)[k := sub']\<rparr>, w')"
| Close: "k < length (sm_subagents m) \<Longrightarrow> sa_status (sm_subagents m ! k) = SUBAGENT_STATUS_RUNNING \<Longrightarrow>
         close_approval_channel (sm_subagents m ! k, w) = (sub', w') \<Longrightarrow>
         change js fine (m, w) (m\<lparr>sm_subagents := (sm_subagents m)[k := sub']\<rparr>, w')"
| Gate: "change js fine (m, w) (m\<lparr>sm_gate_config := g\<rparr>, w\<lparr>wd_io := gio\<rparr>)"
| Start: "\<not> sm_is_subagent_process m \<Longrightarrow> int (length (sm_subagents m)) < sm_max_subagents m \<Longrightarrow> new_subagent sub \<Longrightarrow>
         list_all fine (pipes_of sub) \<Longrightarrow> mset (wd_fds w') = mset (pipes_of sub) + mset (wd_fds w) \<Longrightarrow> wd_db w' = wd_db w \<Longrightarrow>
         change js fine (m, w) (m\<lparr>sm_subagents := sm_subagents m @ [sub]\<rparr>, w')"
| Nothing: "mset (wd_fds w') = mset (wd_fds w) \<Longrightarrow> wd_db w' = wd_db w \<Longrightarrow> change js fine (m, w) (m, w')"

abbreviation changes :: "'j cjson \<Rightarrow> (int \<Rightarrow> bool) \<Rightarrow> 'r SubagentManager \<times> sub_world \<Rightarrow> 'r SubagentManager \<times> sub_world \<Rightarrow> bool" where
  "changes js fine \<equiv> (change js fine)\<^sup>*\<^sup>*"

section \<open>The operations keep the contract\<close>

lemma poll_one_moves:
  assumes "sa_status sub = SUBAGENT_STATUS_RUNNING"
  shows "sub_moves js (sub, w) (poll_one js timeout now env (sub, w))"
  using assms by (simp add: poll_one_def time_out_moves(1) look_moves)

lemma on_sub_changes:
  assumes "k < length (sm_subagents m)" and "sa_status (sm_subagents m ! k) = SUBAGENT_STATUS_RUNNING"
    and "sub_moves js (sm_subagents m ! k, w) (f (sm_subagents m ! k, w))"
  shows "change js fine (m, w) (on_sub k f (m, w))"
  using assms Move[of k m js w "fst (f (sm_subagents m ! k, w))" "snd (f (sm_subagents m ! k, w))" fine]
  by (simp add: on_sub_def case_prod_beta)

lemma poll_from_changes:
  assumes "sm_subagents m = pre @ subs" and "poll_from js timeout now envs i subs w = (n, subs', w')"
  shows "changes js fine (m, w) (m\<lparr>sm_subagents := pre @ subs'\<rparr>, w')"
  using assms
proof (induction subs arbitrary: m pre i w n subs' w')
  case (Cons sub subs)
  show ?case
  proof (cases "sa_status sub = SUBAGENT_STATUS_RUNNING")
    case True
    obtain a u where p: "poll_one js timeout now (envs i) (sub, w) = (a, u)" by (metis surj_pair)
    obtain c rest v where q: "poll_from js timeout now envs (Suc i) subs u = (c, rest, v)" by (metis prod_cases3)
    let ?m = "m\<lparr>sm_subagents := pre @ a # subs\<rparr>"
    have "change js fine (m, w) (m\<lparr>sm_subagents := (sm_subagents m)[length pre := a]\<rparr>, u)"
      using poll_one_moves[OF True, of js w timeout now "envs i"] Cons.prems(1) True p by (intro Move) simp_all
    then have "change js fine (m, w) (?m, u)" using Cons.prems(1) by simp
    moreover have "changes js fine (?m, u) (?m\<lparr>sm_subagents := (pre @ [a]) @ rest\<rparr>, v)"
      by (rule Cons.IH[OF _ q]) simp
    ultimately show ?thesis using Cons.prems(2) True p q by (auto intro: converse_rtranclp_into_rtranclp)
  next
    case False
    obtain c rest v where q: "poll_from js timeout now envs (Suc i) subs w = (c, rest, v)" by (metis prod_cases3)
    have "changes js fine (m, w) (m\<lparr>sm_subagents := (pre @ [sub]) @ rest\<rparr>, v)"
      by (rule Cons.IH[OF _ q]) (use Cons.prems(1) in simp)
    then show ?thesis using Cons.prems(2) False q by simp
  qed
qed auto

lemma poll_all_changes:
  assumes "subagent_poll_all js now envs (m, w) = (n, m', w')"
  shows "changes js fine (m, w) (m', w')"
proof -
  obtain c subs v where p: "poll_from js (sm_timeout_seconds m) now envs 0 (sm_subagents m) w = (c, subs, v)" by (metis prod_cases3)
  show ?thesis using poll_from_changes[OF _ p, of m "[]" fine] assms p by (simp add: subagent_poll_all_def)
qed

lemma handle_request_changes:
  assumes "subagent_handle_approval_request env lib idx (m, w) = (rc, m', w')"
  shows "changes js fine (m, w) (m', w')"
proof (cases "sm_gate_config m = None \<or> idx < 0 \<or> idx \<ge> int (length (sm_subagents m)) \<or>
    sa_status (sm_subagents m ! nat idx) \<noteq> SUBAGENT_STATUS_RUNNING")
  case True
  then have "(m', w') = (m, w)" using assms by (cases "sm_gate_config m") (auto simp: subagent_handle_approval_request_def Let_def split: if_split_asm)
  then show ?thesis by simp
next
  case False
  then obtain gate where g: "sm_gate_config m = Some gate" by auto
  let ?h = "handle_subagent_approval_request env lib (wd_io w) gate"
  let ?m = "m\<lparr>sm_gate_config := Some (hd_config ?h)\<rparr>" and ?w = "w\<lparr>wd_io := hd_io ?h\<rparr>"
  obtain sub' u where c: "close_approval_channel (sm_subagents m ! nat idx, ?w) = (sub', u)" by (metis surj_pair)
  have k: "nat idx < length (sm_subagents ?m)" "sa_status (sm_subagents ?m ! nat idx) = SUBAGENT_STATUS_RUNNING"
    using False by auto
  have "change js fine (m, w) (?m, ?w)" by (rule Gate)
  moreover have "change js fine (?m, ?w) (?m\<lparr>sm_subagents := (sm_subagents ?m)[nat idx := sub']\<rparr>, u)"
    using k c by (intro Close) simp_all
  ultimately show ?thesis using assms False g c
    by (auto simp: subagent_handle_approval_request_def Let_def split: if_split_asm
        intro: converse_rtranclp_into_rtranclp)
qed

lemma approvals_changes:
  "changes js fine s (snd (subagent_check_and_handle_approvals ok ready envs lib s))"
proof -
  obtain m w where s: "s = (m, w)" by (metis surj_pair)
  let ?i = "subagent_poll_approval_requests ok ready m"
  obtain rc m' w' where h: "subagent_handle_approval_request (envs (nat ?i)) lib ?i (m, w) = (rc, m', w')" by (metis prod_cases3)
  show ?thesis using handle_request_changes[OF h, of js fine] h s by (simp add: subagent_check_and_handle_approvals_def Let_def)
qed

lemma questions_changes: "changes js fine s (answer_questions lib rd k s)"
proof -
  obtain m w where s: "s = (m, w)" by (metis surj_pair)
  let ?i = "subagent_poll_approval_requests (wr_poll_ok rd) (wr_ready rd) m"
  obtain rc m' w' where h: "subagent_handle_approval_request (wr_handle rd (nat ?i)) lib ?i (m, w) = (rc, m', w')"
    by (metis prod_cases3)
  show ?thesis using handle_request_changes[OF h, of js fine] h s by (simp add: answer_questions_def Let_def)
qed

lemma changes_sub:
  assumes "changes js fine s s'" and "k < length (sm_subagents (fst s))"
  shows "k < length (sm_subagents (fst s')) \<and> sa_start_time (sm_subagents (fst s') ! k) = sa_start_time (sm_subagents (fst s) ! k) \<and>
    sm_timeout_seconds (fst s') = sm_timeout_seconds (fst s)"
  using assms
proof (induction rule: rtranclp_induct)
  case (step t u)
  from step.hyps(2) step.IH[OF step.prems] show ?case
    by (cases rule: change.cases)
       (auto simp: nth_list_update nth_append sub_moves_def same_identity_def close_approval_channel_def split: prod.split_asm)
qed simp

lemma handle_request_status:
  "map sa_status (sm_subagents (fst (snd (subagent_handle_approval_request env lib idx s)))) = map sa_status (sm_subagents (fst s))"
proof -
  have "map sa_status (subs[i := fst (close_approval_channel (subs ! i, w))]) = map sa_status subs" for subs i w
    by (cases "i < length subs")
       (simp_all add: close_approval_channel_def case_prod_beta map_update list_update_same_conv list_update_beyond)
  then show ?thesis
    by (simp add: subagent_handle_approval_request_def Let_def case_prod_beta split: option.split)
qed

lemma questions_status:
  "map sa_status (sm_subagents (fst (answer_questions lib rd k s))) = map sa_status (sm_subagents (fst s))"
  by (simp add: answer_questions_def handle_request_status Let_def)

lemma wait_loop_changes:
  assumes "wait_loop lib k rds s = Some s'" and "k < length (sm_subagents (fst s))"
  shows "changes (ol_json lib) fine s s'"
  using assms
proof (induction rds arbitrary: s)
  case Nil
  then show ?case by (simp split: if_split_asm)
next
  case (Cons rd rds)
  obtain m w where s: "s = (m, w)" by (metis surj_pair)
  show ?case
  proof (cases "sa_status (sm_subagents m ! k) = SUBAGENT_STATUS_RUNNING")
    case run: True
    have one: "change (ol_json lib) fine s (on_sub k f s)"
      if "sub_moves (ol_json lib) (sm_subagents m ! k, w) (f (sm_subagents m ! k, w))" for f
      using on_sub_changes[of k m "ol_json lib" w f fine] run Cons.prems(2) s that by simp
    consider "wr_interrupted rd" | "\<not> wr_interrupted rd" "wr_now rd - sa_start_time (sm_subagents m ! k) > sm_timeout_seconds m"
      | "\<not> wr_interrupted rd" "\<not> wr_now rd - sa_start_time (sm_subagents m ! k) > sm_timeout_seconds m" by blast
    then show ?thesis
    proof cases
      case 1
      then show ?thesis using one[of "interrupt_sub (ol_json lib) rd"] interrupt_moves(1)[OF run] Cons.prems(1) run s by auto
    next
      case 2
      then show ?thesis using one[of "time_out (ol_json lib) (wr_look rd)"] time_out_moves(1)[OF run] Cons.prems(1) run s by auto
    next
      case 3
      let ?q = "answer_questions lib rd k s"
      have q: "changes (ol_json lib) fine s ?q" by (rule questions_changes)
      note kept = changes_sub[OF q Cons.prems(2)]
      obtain m' w' where mw: "?q = (m', w')" by (metis surj_pair)
      have "sa_status (sm_subagents m' ! k) = SUBAGENT_STATUS_RUNNING"
        using questions_status[of lib rd k s] kept run Cons.prems(2) s mw by (metis fst_conv nth_map)
      then have "change (ol_json lib) fine ?q (on_sub k (look (ol_json lib) (wr_look rd)) ?q)"
        using on_sub_changes[of k m' "ol_json lib" w' "look (ol_json lib) (wr_look rd)" fine] kept mw by (simp add: look_moves)
      with q have l: "changes (ol_json lib) fine s (on_sub k (look (ol_json lib) (wr_look rd)) ?q)" by simp
      have "wait_loop lib k rds (on_sub k (look (ol_json lib) (wr_look rd)) ?q) = Some s'"
        using Cons.prems(1) 3 run s by simp
      from Cons.IH[OF this] l changes_sub[OF l Cons.prems(2)] show ?thesis by simp
    qed
  qed (use Cons.prems s in auto)
qed

lemma find_by_id_Some:
  assumes "subagent_find_by_id m i = Some k"
  shows "k < length (sm_subagents m)" and "sa_id (sm_subagents m ! k) = i"
  using assms find_index_Some[of "\<lambda>s. sa_id s = i" "sm_subagents m" k] by (simp_all add: subagent_find_by_id_def)

definition started_only :: "'r SubagentManager \<Rightarrow> bool" where
  "started_only m \<longleftrightarrow> (\<forall>sub \<in> set (sm_subagents m). sa_status sub \<noteq> SUBAGENT_STATUS_PENDING)"

lemma get_status_changes:
  assumes "subagent_get_status env lib i wait s = Some (r, s')" and "started_only (fst s)"
  shows "changes (ol_json lib) fine s s'"
proof -
  obtain m w where s: "s = (m, w)" by (metis surj_pair)
  show ?thesis
  proof (cases "subagent_find_by_id m i")
    case None
    then show ?thesis using assms(1) s by (simp add: subagent_get_status_def)
  next
    case (Some k)
    note k = find_by_id_Some(1)[OF Some]
    show ?thesis
    proof (cases "sa_status (sm_subagents m ! k) = SUBAGENT_STATUS_RUNNING")
      case True
      show ?thesis
      proof (cases wait)
        case True
        then show ?thesis using assms(1) s Some k \<open>sa_status (sm_subagents m ! k) = _\<close> wait_loop_changes[of lib k "st_rounds env" s s' fine]
          by (auto simp: subagent_get_status_def Let_def)
      next
        case False
        have "change (ol_json lib) fine (m, w)
            (on_sub k (poll_one (ol_json lib) (sm_timeout_seconds m) (st_now env) (st_look env)) (m, w))"
          using k True by (intro on_sub_changes poll_one_moves)
        then show ?thesis using assms(1) s Some False True by (auto simp: subagent_get_status_def Let_def)
      qed
    next
      case False
      moreover have "sa_status (sm_subagents m ! k) \<noteq> SUBAGENT_STATUS_PENDING" using assms(2) s k by (simp add: started_only_def)
      ultimately show ?thesis using assms(1) s Some
        by (cases "sa_status (sm_subagents m ! k)") (auto simp: subagent_get_status_def Let_def)
    qed
  qed
qed

text \<open>The descriptors of the pipes that a start makes.\<close>

definition spawn_fds :: "spawn_env \<Rightarrow> int list" where
  "spawn_fds env =
     concat (map (\<lambda>p. case p of None \<Rightarrow> [] | Some (r, u) \<Rightarrow> [r, u]) [sp_stdout env, sp_request env, sp_response env])"

lemma mset_closed: "mset (wd_fds (fds_closed xs w)) = mset (wd_fds w) - mset xs"
proof -
  have "mset (fold remove1 xs ys) = mset ys - mset xs" for ys :: "int list"
    by (induction xs arbitrary: ys) simp_all
  then show ?thesis by (simp add: fds_closed_def)
qed

lemma closed_db [simp]: "wd_db (fds_closed xs w) = wd_db w"
  by (simp add: fds_closed_def)

lemma prefork_refused:
  assumes "prefork_setup env m w = (None, w')"
  shows "mset (wd_fds w') = mset (wd_fds w)" and "wd_db w' = wd_db w"
  using assms
  by (auto simp: prefork_setup_def create_approval_channel_pipes_def Let_def mset_closed split: if_split_asm option.split_asm prod.split_asm)

lemma prefork_made:
  assumes "prefork_setup env m w = (Some (sub_id, out, req, resp), w')"
  shows "\<not> sm_is_subagent_process m" and "int (length (sm_subagents m)) < sm_max_subagents m" and "wd_db w' = wd_db w"
    and "mset (wd_fds w') = mset [fst req, snd req, fst resp, snd resp, fst out, snd out] + mset (wd_fds w)"
    and "set [fst req, snd req, fst resp, snd resp, fst out, snd out] \<subseteq> set (spawn_fds env)"
  using assms
  by (auto simp: prefork_setup_def create_approval_channel_pipes_def Let_def spawn_fds_def split: if_split_asm option.split_asm prod.split_asm)

lemma register_changes:
  fixes m :: "'r SubagentManager"
  assumes "register_subagent ok now sub_id pid out rq rp task ctx (m, v) = (r, m', w')"
    and "\<not> sm_is_subagent_process m" and "int (length (sm_subagents m)) < sm_max_subagents m"
    and "mset (wd_fds v) = mset [out, rq, rp] + mset (wd_fds w)" and "wd_db v = wd_db w" and "list_all fine [out, rq, rp]"
  shows "change js fine (m, w) (m', w')"
proof (cases r)
  case None
  then have "m' = m" "mset (wd_fds w') = mset (wd_fds w)" "wd_db w' = wd_db w"
    using assms(1,4,5) by (auto simp: register_subagent_def Let_def mset_closed signalled_def split: if_split_asm)
  then show ?thesis by (auto intro: Nothing)
next
  case (Some i)
  then obtain sub where "m' = m\<lparr>sm_subagents := sm_subagents m @ [sub]\<rparr>" "new_subagent sub" "pipes_of sub = [out, rq, rp]" "w' = v"
    using assms(1) by (fastforce simp: register_subagent_def Let_def new_subagent_def pipes_of_def split: if_split_asm)
  then show ?thesis using assms(2-6) by (auto intro: Start)
qed

lemma undo_pipes_fds:
  assumes "mset (wd_fds v) = mset [fst req, snd req, fst resp, snd resp, fst out, snd out] + mset (wd_fds w)"
    and "\<forall>f \<in> {fst req, snd req, fst resp, snd resp}. 0 \<le> f"
  shows "mset (wd_fds (undo_pipes out req resp v)) = mset (wd_fds w)" and "wd_db (undo_pipes out req resp v) = wd_db v"
  using assms
  by (auto simp: undo_pipes_def Let_def cleanup_approval_channel_pipes_def close_fd_def mset_closed split: prod.split)

lemma started_fds:
  assumes "mset (wd_fds v) = mset [fst req, snd req, fst resp, snd resp, fst out, snd out] + mset (wd_fds w)"
  shows "mset (wd_fds (started pid args out req resp v)) = mset [fst out, fst req, snd resp] + mset (wd_fds w)"
    and "wd_db (started pid args out req resp v) = wd_db v"
  using assms by (simp_all add: started_def mset_closed)

lemma after_prefork:
  fixes m :: "'r SubagentManager"
  assumes pre: "prefork_setup env m w = (Some (sub_id, out, req, resp), v)" and fds: "\<forall>f \<in> set (spawn_fds env). 0 \<le> f \<and> fine f"
  shows "change js fine (m, w) (m, undo_pipes out req resp v)"
    and "register_subagent ok now i pid (fst out) (fst req) (snd resp) task ctx (m, started pid args out req resp v) = (r, m', w')
         \<Longrightarrow> change js fine (m, w) (m', w')"
proof -
  note p = prefork_made[OF pre]
  have u: "\<forall>f \<in> {fst req, snd req, fst resp, snd resp}. 0 \<le> f" "list_all fine [fst out, fst req, snd resp]"
    using p(5) fds by auto
  show "change js fine (m, w) (m, undo_pipes out req resp v)"
    using undo_pipes_fds[OF p(4) u(1)] p(3) by (intro Nothing) simp_all
  assume "register_subagent ok now i pid (fst out) (fst req) (snd resp) task ctx (m, started pid args out req resp v) = (r, m', w')"
  from register_changes[OF this p(1,2) started_fds(1)[OF p(4)] _ u(2)] show "change js fine (m, w) (m', w')"
    using p(3) started_fds(2)[OF p(4)] by simp
qed

lemma prefork_cases:
  fixes m :: "'r SubagentManager"
  obtains v where "prefork_setup env m w = (None, v)" "\<And>js fine. change js fine (m, w) (m, v)"
  | sub_id out req resp v where "prefork_setup env m w = (Some (sub_id, out, req, resp), v)"
proof (cases "prefork_setup env m w")
  case (Pair a v)
  then show thesis using prefork_refused[of env m w v] that by (cases a) (auto intro: Nothing)
qed

lemma spawn_changes:
  fixes m :: "'r SubagentManager"
  assumes "subagent_spawn env task ctx model (m, w) = (r, s')" and "\<forall>f \<in> set (spawn_fds env). 0 \<le> f \<and> fine f"
  shows "changes js fine (m, w) s'"
proof (rule prefork_cases[of env m w])
  fix sub_id out req resp v
  assume pre: "prefork_setup env m w = (Some (sub_id, out, req, resp), v)"
  note a = after_prefork[OF pre assms(2)]
  show ?thesis using assms(1) pre a(1)[of js] a(2)[of "sp_ok env" "sp_now env" sub_id _ task ctx _ r "fst s'" "snd s'" js]
    by (auto simp: subagent_spawn_def split: option.split_asm)
qed (use assms(1) in \<open>auto simp: subagent_spawn_def split: option.split_asm\<close>)

lemma spawn_with_args_changes:
  fixes m :: "'r SubagentManager"
  assumes "subagent_spawn_with_args env args task (m, w) = (r, s')" and "\<forall>f \<in> set (spawn_fds env). 0 \<le> f \<and> fine f"
  shows "changes js fine (m, w) s'"
proof (rule prefork_cases[of env m w])
  fix sub_id out req resp v
  assume pre: "prefork_setup env m w = (Some (sub_id, out, req, resp), v)"
  note a = after_prefork[OF pre assms(2)]
  show ?thesis using assms(1) pre a(1)[of js] a(2)[of "sp_ok env" "sp_now env" sub_id _ task None _ r "fst s'" "snd s'" js]
    by (auto simp: subagent_spawn_with_args_def split: option.split_asm if_split_asm)
qed (use assms(1) in \<open>auto simp: subagent_spawn_with_args_def split: if_split_asm\<close>)

section \<open>Sequences of operations\<close>

datatype sub_op =
    Spawn spawn_env "string option" "string option" "string option"
  | Spawn_args spawn_env "string list" "string option"
  | Poll int "nat \<Rightarrow> look_env"
  | Status status_env string bool
  | Approve bool "(nat \<Rightarrow> bool) option" "nat \<Rightarrow> handle_env"

fun sub_step :: "('j, 'r) orch_lib \<Rightarrow> sub_op \<Rightarrow> 'r SubagentManager \<times> sub_world \<Rightarrow> ('r SubagentManager \<times> sub_world) option" where
  "sub_step lib (Spawn env task ctx model) s = Some (snd (subagent_spawn env task ctx model s))"
| "sub_step lib (Spawn_args env args task) s = Some (snd (subagent_spawn_with_args env args task s))"
| "sub_step lib (Poll now envs) s = Some (snd (subagent_poll_all (ol_json lib) now envs s))"
| "sub_step lib (Status env i wait) s = map_option snd (subagent_get_status env lib i wait s)"
| "sub_step lib (Approve ok ready envs) s = Some (snd (subagent_check_and_handle_approvals ok ready envs lib s))"

text \<open>\<open>None\<close> if an operation is still waiting.\<close>

definition sub_run ::
    "('j, 'r) orch_lib \<Rightarrow> sub_op list \<Rightarrow> 'r SubagentManager \<times> sub_world \<Rightarrow> ('r SubagentManager \<times> sub_world) option" where
  "sub_run lib ops s = opt_fold (sub_step lib) ops s"

fun op_fds :: "sub_op \<Rightarrow> int list" where
  "op_fds (Spawn env _ _ _) = spawn_fds env"
| "op_fds (Spawn_args env _ _) = spawn_fds env"
| "op_fds _ = []"

lemma started_only_change:
  assumes "change js fine s s'" and "started_only (fst s)"
  shows "started_only (fst s')"
  using assms
proof (cases rule: change.cases)
  case (Close k m w sub' w')
  then have "sa_status sub' = SUBAGENT_STATUS_RUNNING"
    by (auto simp: close_approval_channel_def split: prod.split_asm)
  then show ?thesis using Close assms(2) by (auto simp: started_only_def dest!: subsetD[OF set_update_subset_insert])
qed (auto simp: started_only_def sub_moves_def new_subagent_def dest!: subsetD[OF set_update_subset_insert])

lemma started_only_changes:
  assumes "changes js fine s s'" and "started_only (fst s)"
  shows "started_only (fst s')"
  using assms by (induction rule: rtranclp_induct) (auto intro: started_only_change)

lemma sub_step_changes:
  fixes s :: "'r SubagentManager \<times> sub_world"
  assumes "sub_step lib op s = Some s'" and "\<forall>f \<in> set (op_fds op). 0 \<le> f \<and> fine f" and "started_only (fst s)"
  shows "changes (ol_json lib) fine s s'"
proof -
  obtain m w where s: "s = (m, w)" by (metis surj_pair)
  show ?thesis
  proof (cases op)
    case (Spawn env task ctx model)
    then show ?thesis using assms(1,2) s spawn_changes[of env task ctx model m w "fst (subagent_spawn env task ctx model s)" s' fine]
      by auto
  next
    case (Spawn_args env args task)
    then show ?thesis using assms(1,2) s
        spawn_with_args_changes[of env args task m w "fst (subagent_spawn_with_args env args task s)" s' fine]
      by auto
  next
    case (Poll now envs)
    then show ?thesis using assms(1) s poll_all_changes[of "ol_json lib" now envs m w]
      by (cases "subagent_poll_all (ol_json lib) now envs s") auto
  next
    case (Status env i wait)
    then show ?thesis using assms(1,3) get_status_changes[of env lib i wait s _ s' fine] by auto
  next
    case (Approve ok ready envs)
    then show ?thesis using assms(1) by (auto intro: approvals_changes)
  qed
qed

lemma sub_run_changes:
  fixes s :: "'r SubagentManager \<times> sub_world"
  assumes "sub_run lib ops s = Some s'" and "\<forall>op \<in> set ops. \<forall>f \<in> set (op_fds op). 0 \<le> f \<and> fine f" and "started_only (fst s)"
  shows "changes (ol_json lib) fine s s'"
  using assms
proof (induction ops arbitrary: s)
  case (Cons op ops)
  then obtain t where t: "sub_step lib op s = Some t" "sub_run lib ops t = Some s'"
    by (auto simp: sub_run_def split: option.split_asm)
  have c: "changes (ol_json lib) fine s t" using sub_step_changes[OF t(1) _ Cons.prems(3)] Cons.prems(2) by simp
  show ?case using Cons.IH[OF t(2) _ started_only_changes[OF c Cons.prems(3)]] Cons.prems(2) c by simp
qed (simp add: sub_run_def)

section \<open>The life of a subagent\<close>

definition sub_kept :: "Subagent \<Rightarrow> Subagent \<Rightarrow> bool" where
  "sub_kept a b \<longleftrightarrow> sa_id b = sa_id a \<and> sa_pid b = sa_pid a \<and> sa_task b = sa_task a \<and> sa_start_time b = sa_start_time a \<and>
     (sa_status a \<noteq> SUBAGENT_STATUS_RUNNING \<longrightarrow> b = a)"

definition evolves :: "'r SubagentManager \<Rightarrow> 'r SubagentManager \<Rightarrow> bool" where
  "evolves m m' \<longleftrightarrow> sm_max_subagents m' = sm_max_subagents m \<and>
     length (sm_subagents m) \<le> length (sm_subagents m') \<and>
     (\<forall>i < length (sm_subagents m). sub_kept (sm_subagents m ! i) (sm_subagents m' ! i))"

lemma sub_kept_refl [simp]: "sub_kept a a"
  by (simp add: sub_kept_def)

lemma evolves_trans: "evolves m m' \<Longrightarrow> evolves m' m'' \<Longrightarrow> evolves m m''"
  by (fastforce simp: evolves_def sub_kept_def)

lemma change_evolves:
  assumes "change js fine s s'"
  shows "evolves (fst s) (fst s')"
  using assms
  by (cases rule: change.cases)
     (auto simp: evolves_def sub_kept_def nth_list_update nth_append sub_moves_def same_identity_def
        close_approval_channel_def split: prod.split_asm)

lemma changes_evolve:
  assumes "changes js fine s s'"
  shows "evolves (fst s) (fst s')"
  using assms
proof (induction rule: rtranclp_induct)
  case base
  then show ?case by (simp add: evolves_def)
next
  case (step t u)
  then show ?case using change_evolves evolves_trans by blast
qed

definition within_capacity :: "'r SubagentManager \<Rightarrow> bool" where
  "within_capacity m \<longleftrightarrow> int (length (sm_subagents m)) \<le> sm_max_subagents m"

lemma changes_within_capacity:
  assumes "changes js fine s s'" and "within_capacity (fst s)"
  shows "within_capacity (fst s')"
  using assms
proof (induction rule: rtranclp_induct)
  case (step t u)
  from step.hyps(2) step.IH[OF step.prems] show ?case
    by (cases rule: change.cases) (auto simp: within_capacity_def)
qed simp

lemma manager_init:
  assumes "subagent_manager_init_with_config ok max_subagents timeout_seconds = Some m"
  shows "sm_subagents m = []" and "1 \<le> sm_max_subagents m" and "sm_max_subagents m \<le> 20"
    and "within_capacity m" and "started_only m"
  using assms
  by (auto simp: subagent_manager_init_with_config_def SUBAGENT_MAX_DEFAULT_def SUBAGENT_HARD_CAP_def within_capacity_def
      started_only_def split: if_split_asm)

text \<open>C16. A subagent ends once. Whatever operations follow one another, a subagent that has ended keeps its
status, its result and everything else; those that run may end, and only then; none is ever removed; and there
are never more than the manager allows, which is at most 20.\<close>

theorem subagents_end_once:
  fixes m :: "'r SubagentManager"
  assumes "subagent_manager_init_with_config ok max_subagents timeout_seconds = Some m"
    and "sub_run lib ops (m, w) = Some s" and "sub_run lib ops' s = Some s'"
    and "\<forall>op \<in> set (ops @ ops'). \<forall>f \<in> set (op_fds op). 0 \<le> f"
  shows "int (length (sm_subagents (fst s'))) \<le> sm_max_subagents m \<and> sm_max_subagents m \<le> 20 \<and>
    (\<forall>i < length (sm_subagents (fst s)). i < length (sm_subagents (fst s')) \<and>
      sa_id (sm_subagents (fst s') ! i) = sa_id (sm_subagents (fst s) ! i) \<and>
      (sa_status (sm_subagents (fst s) ! i) \<noteq> SUBAGENT_STATUS_RUNNING \<longrightarrow>
       sm_subagents (fst s') ! i = sm_subagents (fst s) ! i)) \<and>
    (\<forall>sub \<in> set (sm_subagents (fst s')). sa_status sub \<noteq> SUBAGENT_STATUS_PENDING)"
proof (intro conjI)
  note i = manager_init[OF assms(1)]
  have a: "changes (ol_json lib) (\<lambda>_. True) (m, w) s"
    using sub_run_changes[OF assms(2), where fine = "\<lambda>_. True"] assms(4) i(5) by (simp add: ball_Un)
  note so = started_only_changes[OF a]
  have b: "changes (ol_json lib) (\<lambda>_. True) s s'"
    using sub_run_changes[OF assms(3), where fine = "\<lambda>_. True"] assms(4) so i(5) by (simp add: ball_Un)
  show "int (length (sm_subagents (fst s'))) \<le> sm_max_subagents m" "sm_max_subagents m \<le> 20"
    using changes_within_capacity[OF b] changes_within_capacity[OF a] i(3,4) changes_evolve[OF a] changes_evolve[OF b]
    by (simp_all add: within_capacity_def evolves_def)
  show "\<forall>i < length (sm_subagents (fst s)). i < length (sm_subagents (fst s')) \<and>
      sa_id (sm_subagents (fst s') ! i) = sa_id (sm_subagents (fst s) ! i) \<and>
      (sa_status (sm_subagents (fst s) ! i) \<noteq> SUBAGENT_STATUS_RUNNING \<longrightarrow>
       sm_subagents (fst s') ! i = sm_subagents (fst s) ! i)"
    using changes_evolve[OF b] by (auto simp: evolves_def sub_kept_def)
  show "\<forall>sub \<in> set (sm_subagents (fst s')). sa_status sub \<noteq> SUBAGENT_STATUS_PENDING"
    using started_only_changes[OF b] so i(5) by (simp add: started_only_def)
qed

section \<open>Messages to the agent above\<close>

definition reports :: "string \<Rightarrow> sub_world \<Rightarrow> nat" where
  "reports i w = (case wd_db w of None \<Rightarrow> 0 | Some db \<Rightarrow> length (filter (\<lambda>r. dr_sender_id r = i) (mb_direct db)))"

definition ended :: "string \<Rightarrow> 'r SubagentManager \<Rightarrow> nat" where
  "ended i m = length (filter (\<lambda>sub. sa_id sub = i \<and> sa_status sub \<noteq> SUBAGENT_STATUS_RUNNING) (sm_subagents m))"

lemma notify_reports:
  assumes "wd_db w' = subagent_notify_parent js env sub (wd_db w)"
  shows "reports i w' \<le> reports i w + (if sa_id sub = i then 1 else 0)"
  using assms
  by (auto simp: reports_def subagent_notify_parent_def message_send_direct_def split: option.splits if_splits)

lemma filter_length_update:
  assumes "k < length xs" and "\<not> P (xs ! k)"
  shows "length (filter P (xs[k := y])) = length (filter P xs) + (if P y then 1 else 0)"
  using assms(1) assms(2)
proof (induction xs arbitrary: k)
  case (Cons x xs)
  then show ?case by (cases k) auto
qed simp

lemma change_reports:
  assumes "change js fine s s'"
  shows "reports i (snd s') + ended i (fst s) \<le> reports i (snd s) + ended i (fst s')"
  using assms
proof (cases rule: change.cases)
  case (Move k m w sub' w')
  let ?P = "\<lambda>sub. sa_id sub = i \<and> sa_status sub \<noteq> SUBAGENT_STATUS_RUNNING"
  have e: "ended i (m\<lparr>sm_subagents := (sm_subagents m)[k := sub']\<rparr>) = ended i m + (if ?P sub' then 1 else 0)"
    using filter_length_update[of k "sm_subagents m" ?P sub'] Move(3,4) by (simp add: ended_def)
  show ?thesis
  proof (cases "sa_status sub' = SUBAGENT_STATUS_RUNNING")
    case True
    then show ?thesis using Move e by (simp add: sub_moves_def reports_def)
  next
    case False
    then obtain env where "wd_db w' = subagent_notify_parent js env sub' (wd_db w)" using Move by (auto simp: sub_moves_def)
    from notify_reports[OF this, of i] show ?thesis using Move e False by auto
  qed
next
  case (Close k m w sub' w')
  let ?P = "\<lambda>sub. sa_id sub = i \<and> sa_status sub \<noteq> SUBAGENT_STATUS_RUNNING"
  have "sa_status sub' = SUBAGENT_STATUS_RUNNING" "wd_db w' = wd_db w"
    using Close by (auto simp: close_approval_channel_def split: prod.split_asm)
  then show ?thesis using filter_length_update[of k "sm_subagents m" ?P sub'] Close by (simp add: ended_def reports_def)
qed (auto simp: reports_def ended_def)

lemma changes_reports:
  assumes "changes js fine s s'"
  shows "reports i (snd s') + ended i (fst s) \<le> reports i (snd s) + ended i (fst s')"
  using assms
proof (induction rule: rtranclp_induct)
  case (step t u)
  from change_reports[OF step.hyps(2), of i] step.IH show ?case by linarith
qed simp

lemma filter_distinct_id:
  assumes "distinct (map sa_id subs)" and "sub \<in> set subs"
  shows "length (filter (\<lambda>x. sa_id x = sa_id sub \<and> P x) subs) = (if P sub then 1 else 0)"
  using assms
proof (induction subs)
  case (Cons x xs)
  then show ?case by (auto simp: filter_empty_conv rev_image_eqI image_iff)
qed simp

text \<open>C17. The agent above hears of a subagent once. Whatever operations follow one another, a subagent that
runs has sent no message about its end and one that has ended at most one, also when its end is seen by several
polls and questions for its status.\<close>

theorem subagent_reports_once:
  fixes m :: "'r SubagentManager"
  assumes "subagent_manager_init_with_config ok max_subagents timeout_seconds = Some m"
    and "sub_run lib ops (m, w) = Some (m', w')" and "\<forall>op \<in> set ops. \<forall>f \<in> set (op_fds op). 0 \<le> f"
    and "distinct (map sa_id (sm_subagents m'))" and "sub \<in> set (sm_subagents m')"
    and "\<forall>db. wd_db w = Some db \<longrightarrow> sa_id sub \<notin> dr_sender_id ` set (mb_direct db)"
  shows "reports (sa_id sub) w' \<le> (if sa_status sub = SUBAGENT_STATUS_RUNNING then 0 else 1)"
proof -
  note i = manager_init[OF assms(1)]
  have c: "changes (ol_json lib) (\<lambda>_. True) (m, w) (m', w')" using sub_run_changes[OF assms(2), where fine = "\<lambda>_. True"] assms(3) i(5) by simp
  have "dr_sender_id r \<noteq> sa_id sub" if "wd_db w = Some db" "r \<in> set (mb_direct db)" for db r
    using assms(6) that by (metis imageI)
  then have "reports (sa_id sub) w = 0" by (auto simp: reports_def filter_empty_conv split: option.split)
  with changes_reports[OF c, of "sa_id sub"] have "reports (sa_id sub) w' \<le> ended (sa_id sub) m'" by simp
  also have "ended (sa_id sub) m' = (if sa_status sub \<noteq> SUBAGENT_STATUS_RUNNING then 1 else 0)"
    unfolding ended_def by (rule filter_distinct_id[OF assms(4,5), of "\<lambda>x. sa_status x \<noteq> SUBAGENT_STATUS_RUNNING"])
  finally show ?thesis by (simp split: if_split_asm)
qed

section \<open>Descriptors\<close>

text \<open>The descriptors that a subagent still holds. Those of the standard streams are never closed.\<close>

definition owned :: "Subagent \<Rightarrow> int multiset" where
  "owned sub = mset (filter (\<lambda>f. f > 2) (pipes_of sub))"

definition pipe_or_closed :: "Subagent \<Rightarrow> bool" where
  "pipe_or_closed sub \<longleftrightarrow> list_all (\<lambda>f. f = -1 \<or> f > 2) (pipes_of sub)"

definition fds_balanced :: "int multiset \<Rightarrow> 'r SubagentManager \<times> sub_world \<Rightarrow> bool" where
  "fds_balanced base s \<longleftrightarrow> (\<forall>sub \<in> set (sm_subagents (fst s)). pipe_or_closed sub) \<and>
     mset (wd_fds (snd s)) = base + sum_list (map owned (sm_subagents (fst s)))"

lemma sum_list_update_mset:
  fixes f :: "'a \<Rightarrow> 'b multiset"
  assumes "k < length xs"
  shows "sum_list (map f (xs[k := y])) + f (xs ! k) = sum_list (map f xs) + f y"
  using assms
proof (induction xs arbitrary: k)
  case (Cons x xs)
  show ?case
  proof (cases k)
    case (Suc n)
    then show ?thesis using Cons.IH[of n] Cons.prems by (simp add: ac_simps)
  qed (simp add: ac_simps)
qed simp

lemma fds_balanced_update:
  assumes "fds_balanced base (m, w)" and "k < length (sm_subagents m)" and "pipe_or_closed sub'"
    and "owned (sm_subagents m ! k) = gone + owned sub'" and "mset (wd_fds w') = mset (wd_fds w) - gone"
  shows "fds_balanced base (m\<lparr>sm_subagents := (sm_subagents m)[k := sub']\<rparr>, w')"
proof -
  let ?f = "\<lambda>subs. sum_list (map owned subs)"
  have "?f ((sm_subagents m)[k := sub']) + gone + owned sub' = ?f (sm_subagents m) + owned sub'"
    using sum_list_update_mset[OF assms(2), of owned sub'] assms(4) by (simp add: ac_simps)
  then have "?f (sm_subagents m) = ?f ((sm_subagents m)[k := sub']) + gone" by simp
  then show ?thesis using assms(1,3,5)
    by (auto simp: fds_balanced_def dest!: subsetD[OF set_update_subset_insert])
qed

lemma pipe_moves_owned:
  assumes "pipe_moves (sub, w) (sub', w')" and "same_identity sub sub'" and "pipe_or_closed sub"
  obtains gone where "pipe_or_closed sub'" and "owned sub = gone + owned sub'" and "mset (wd_fds w') = mset (wd_fds w) - gone"
proof (cases "sa_stdout sub' = sa_stdout sub \<and> wd_fds w' = wd_fds w")
  case True
  then show thesis using that[of "{#}"] assms by (simp add: same_identity_def owned_def pipe_or_closed_def pipes_of_def)
next
  case False
  then show thesis using that[of "{#sa_stdout sub#}"] assms
    by (auto simp: pipe_moves_def same_identity_def owned_def pipe_or_closed_def pipes_of_def)
qed

lemma close_channel_owned:
  assumes "close_approval_channel (sub, w) = (sub', w')" and "pipe_or_closed sub"
  obtains gone where "pipe_or_closed sub'" and "owned sub = gone + owned sub'" and "mset (wd_fds w') = mset (wd_fds w) - gone"
proof
  let ?gone = "mset (filter (\<lambda>f. f > 2) [request_fd (sa_channel sub), response_fd (sa_channel sub)])"
  show "pipe_or_closed sub'" "owned sub = ?gone + owned sub'" "mset (wd_fds w') = mset (wd_fds w) - ?gone"
    using assms by (auto simp: close_approval_channel_def close_above_2_def pipe_or_closed_def owned_def pipes_of_def
        add_mset_commute split: if_split_asm)
qed

lemma change_balanced:
  assumes "change js (\<lambda>f. f > 2) s s'" and "fds_balanced base s"
  shows "fds_balanced base s'"
  using assms(1)
proof (cases rule: change.cases)
  case (Move k m w sub' w')
  have "pipe_or_closed (sm_subagents m ! k)" using assms(2) Move by (simp add: fds_balanced_def)
  with Move(5) obtain gone where "pipe_or_closed sub'" "owned (sm_subagents m ! k) = gone + owned sub'"
    "mset (wd_fds w') = mset (wd_fds w) - gone"
    by (auto simp: sub_moves_def elim: pipe_moves_owned)
  then show ?thesis using fds_balanced_update[of base m w k sub' gone w'] assms(2) Move by simp
next
  case (Close k m w sub' w')
  have "pipe_or_closed (sm_subagents m ! k)" using assms(2) Close by (simp add: fds_balanced_def)
  with Close(5) obtain gone where "pipe_or_closed sub'" "owned (sm_subagents m ! k) = gone + owned sub'"
    "mset (wd_fds w') = mset (wd_fds w) - gone"
    by (auto elim: close_channel_owned)
  then show ?thesis using fds_balanced_update[of base m w k sub' gone w'] assms(2) Close by simp
next
  case (Start m sub w' w)
  have "pipe_or_closed sub" "owned sub = mset (pipes_of sub)"
    using Start(6) by (auto simp: pipe_or_closed_def owned_def pipes_of_def)
  then show ?thesis using Start assms(2) by (auto simp: fds_balanced_def)
qed (use assms(2) in \<open>auto simp: fds_balanced_def\<close>)

lemma changes_balanced:
  assumes "changes js (\<lambda>f. f > 2) s s'" and "fds_balanced base s"
  shows "fds_balanced base s'"
  using assms by (induction rule: rtranclp_induct) (auto intro: change_balanced)

lemma stop_child_fds [simp]: "wd_fds (stop_child stops pid w) = wd_fds w"
  by (simp add: stop_child_def signalled_def Let_def)

lemma cleanup_subagent_fds:
  assumes "pipe_or_closed sub"
  shows "mset (wd_fds (snd (cleanup_subagent ok (sub, w)))) = mset (wd_fds w) - owned sub"
  using assms
  by (auto simp: cleanup_subagent_def close_approval_channel_def close_above_2_def fds_closed_def pipe_or_closed_def owned_def
      pipes_of_def Let_def add_mset_commute)

lemma cleanup_from_fds:
  assumes "\<forall>sub \<in> set subs. pipe_or_closed sub" and "mset (wd_fds w) = base + sum_list (map owned subs)"
  shows "mset (wd_fds (cleanup_from oks stops i subs w)) = base"
  using assms by (induction subs arbitrary: i w) (simp_all add: cleanup_subagent_fds Let_def)

text \<open>C22. No descriptor is lost. Whatever operations follow one another, and whatever fails in them, after the
cleanup of the manager the descriptors that are open are those that were open before.\<close>

theorem manager_returns_descriptors:
  fixes m :: "'r SubagentManager"
  assumes "subagent_manager_init_with_config ok max_subagents timeout_seconds = Some m"
    and "sub_run lib ops (m, w) = Some s" and "\<forall>op \<in> set ops. \<forall>f \<in> set (op_fds op). f > 2"
  shows "mset (wd_fds (snd (subagent_manager_cleanup oks stops s))) = mset (wd_fds w)"
proof -
  note i = manager_init[OF assms(1)]
  have c: "changes (ol_json lib) (\<lambda>f. f > 2) (m, w) s"
    by (rule sub_run_changes[OF assms(2)]) (use assms(3) i(5) in fastforce)+
  have "fds_balanced (mset (wd_fds w)) s"
    by (rule changes_balanced[OF c]) (simp add: fds_balanced_def i(1))
  then show ?thesis
    using cleanup_from_fds[of "sm_subagents (fst s)" "snd s" "mset (wd_fds w)" oks stops 0]
    by (cases s) (simp add: subagent_manager_cleanup_def fds_balanced_def)
qed

section \<open>Waiting\<close>

lemma wait_loop_ended:
  assumes "wait_loop lib k rds s = Some s'" and "k < length (sm_subagents (fst s))"
  shows "sa_status (sm_subagents (fst s') ! k) \<noteq> SUBAGENT_STATUS_RUNNING"
  using assms
proof (induction rds arbitrary: s)
  case (Cons rd rds)
  let ?q = "on_sub k (look (ol_json lib) (wr_look rd)) (answer_questions lib rd k s)"
  have q: "k < length (sm_subagents (fst ?q))"
    using changes_sub[OF questions_changes[of "ol_json lib" "\<lambda>_. True"] Cons.prems(2), of lib rd k]
    by (simp add: on_sub_def case_prod_beta)
  show ?case
  proof (cases "sa_status (sm_subagents (fst s) ! k) = SUBAGENT_STATUS_RUNNING")
    case True
    then show ?thesis using Cons.prems Cons.IH[OF _ q] interrupt_moves(2)[OF True, of "ol_json lib" rd "snd s"]
        time_out_moves(2)[OF True, of "ol_json lib" "wr_look rd" "snd s"]
      by (auto simp: on_sub_def case_prod_beta Let_def split: if_split_asm)
  qed (use Cons.prems in auto)
qed (auto split: if_split_asm)

lemma wait_loop_returns:
  assumes "k < length (sm_subagents (fst s))"
    and "\<exists>rd \<in> set rds. wr_interrupted rd \<or> wr_now rd - sa_start_time (sm_subagents (fst s) ! k) > sm_timeout_seconds (fst s)"
  shows "\<exists>s'. wait_loop lib k rds s = Some s'"
  using assms
proof (induction rds arbitrary: s)
  case (Cons rd rds)
  obtain m w where s: "s = (m, w)" by (metis surj_pair)
  obtain m' w' where a: "answer_questions lib rd k s = (m', w')" by (metis surj_pair)
  note q = changes_sub[OF questions_changes[of "ol_json lib" "\<lambda>_. True" s lib rd k] Cons.prems(1)]
  have st: "sa_status (sm_subagents m' ! k) = sa_status (sm_subagents m ! k)"
    using questions_status[of lib rd k s] q Cons.prems(1) s a by (metis fst_conv nth_map)
  let ?q = "on_sub k (look (ol_json lib) (wr_look rd)) (answer_questions lib rd k s)"
  show ?case
  proof (cases "sa_status (sm_subagents m ! k) = SUBAGENT_STATUS_RUNNING \<and> \<not> wr_interrupted rd \<and>
      \<not> wr_now rd - sa_start_time (sm_subagents m ! k) > sm_timeout_seconds m")
    case True
    have l: "sub_moves (ol_json lib) (sm_subagents m' ! k, w') (look (ol_json lib) (wr_look rd) (sm_subagents m' ! k, w'))"
      using True st by (intro look_moves) simp
    have "\<exists>s'. wait_loop lib k rds ?q = Some s'"
      by (rule Cons.IH) (use Cons.prems q True l s a in
        \<open>auto simp: on_sub_def case_prod_beta sub_moves_def same_identity_def\<close>)
    then show ?thesis using True s by simp
  qed (auto simp: s Let_def)
qed simp


text \<open>C38. A manager that is full stays full. The documentation speaks of concurrent subagents, but none is taken
out of the array when it has ended, so that after the allowed number of starts every other one is refused.\<close>

theorem ended_subagents_block_starts:
  fixes m :: "'r SubagentManager"
  assumes "sm_max_subagents m \<le> int (length (sm_subagents m))" and "started_only m"
    and "sub_run lib ops (m, w) = Some s" and "\<forall>op \<in> set ops. \<forall>f \<in> set (op_fds op). 0 \<le> f"
  shows "fst (subagent_spawn env task ctx model s) = None \<and> fst (subagent_spawn_with_args env args task s) = None"
proof -
  have "changes (ol_json lib) (\<lambda>_. True) (m, w) s"
    using sub_run_changes[OF assms(3), where fine = "\<lambda>_. True"] assms(2,4) by simp
  from changes_evolve[OF this] assms(1) have f: "sm_max_subagents (fst s) \<le> int (length (sm_subagents (fst s)))"
    by (simp add: evolves_def)
  obtain m' w' where s: "s = (m', w')" by (metis surj_pair)
  have "prefork_setup env m' w' = (None, w')" using f s by (simp add: prefork_setup_def)
  then show ?thesis
    by (simp add: subagent_spawn_def subagent_spawn_with_args_def s split: option.split)
qed

section \<open>From the output to the model\<close>

text \<open>The output is the beginning of what was written, as much of it as is kept.\<close>

definition gathered :: "string option \<Rightarrow> string list \<Rightarrow> string option" where
  "gathered out chunks =
     (if chunks = [] then out
      else Some (take SUBAGENT_MAX_OUTPUT_LENGTH (or_empty out @ concat chunks)))"

definition kept_length :: "string option \<Rightarrow> bool" where
  "kept_length out \<longleftrightarrow> length (or_empty out) \<le> SUBAGENT_MAX_OUTPUT_LENGTH"

lemma keep_output_kept:
  assumes "kept_length out"
  shows "keep_output True out b \<noteq> No_memory" and "keep_output True out b = No_room \<Longrightarrow> b \<noteq> [] \<Longrightarrow>
      out \<noteq> None \<and> take SUBAGENT_MAX_OUTPUT_LENGTH (or_empty out @ x) = or_empty out"
    and "keep_output True out b = Kept t \<Longrightarrow> t = take SUBAGENT_MAX_OUTPUT_LENGTH (or_empty out @ b)"
  using assms
  by (auto simp: keep_output_def kept_length_def or_empty_def Let_def SUBAGENT_MAX_OUTPUT_LENGTH_def split: if_split_asm option.split_asm)

lemma take_take_append: "take n (take n xs @ ys) = take n (xs @ ys)"
  by (cases "length xs \<le> n") simp_all

lemma gathered_Cons:
  assumes "kept_length out" and "keep_output True out b = Kept t"
  shows "gathered out (b # bs) = gathered (Some t) bs" and "kept_length (Some t)"
proof -
  note t = keep_output_kept(3)[OF assms]
  have "take SUBAGENT_MAX_OUTPUT_LENGTH (t @ concat bs) = take SUBAGENT_MAX_OUTPUT_LENGTH (or_empty out @ b @ concat bs)"
    unfolding t by (simp only: take_take_append append_assoc)
  then show "gathered out (b # bs) = gathered (Some t) bs" unfolding gathered_def or_empty_def using t
    by (cases "bs = []") (simp_all add: or_empty_def)
  show "kept_length (Some t)" unfolding kept_length_def or_empty_def t by simp
qed

lemma gathered_full:
  assumes "kept_length out" and "keep_output True out b = No_room" and "b \<noteq> []"
  shows "gathered out (b # bs) = out"
  using keep_output_kept(2)[OF assms, of "concat (b # bs)"] by (auto simp: gathered_def or_empty_def)

lemma drain_gathers:
  assumes "kept_length out" and "[] \<notin> set chunks"
  shows "snd (drain_pipe alloc_ok k (map Got chunks) n out) = gathered out chunks"
  using assms
proof (induction chunks arbitrary: k n out)
  case (Cons b bs)
  have b: "b \<noteq> []" "[] \<notin> set bs" using Cons.prems(2) by auto
  show ?case
  proof (cases "keep_output True out b")
    case No_room
    then show ?thesis using gathered_full[OF Cons.prems(1) No_room b(1), of bs] b by simp
  next
    case (Kept t)
    note g = gathered_Cons[OF Cons.prems(1) Kept]
    show ?thesis using Cons.IH[OF g(2) b(2)] g(1)[of bs] b Kept by simp
  qed (use keep_output_kept(1)[OF Cons.prems(1)] in simp)
qed (simp add: gathered_def)

lemma read_to_end_gathers:
  assumes "kept_length out" and "[] \<notin> set chunks"
  shows "read_to_end alloc_ok k (map Got chunks) out = (True, gathered out chunks)"
  using assms
proof (induction chunks arbitrary: k out)
  case (Cons b bs)
  have b: "b \<noteq> []" "[] \<notin> set bs" using Cons.prems(2) by auto
  show ?case
  proof (cases "keep_output True out b")
    case No_room
    then show ?thesis using gathered_full[OF Cons.prems(1) No_room b(1), of bs] b by simp
  next
    case (Kept t)
    note g = gathered_Cons[OF Cons.prems(1) Kept]
    show ?thesis using Cons.IH[OF g(2) b(2)] g(1)[of bs] b Kept by simp
  qed (use keep_output_kept(1)[OF Cons.prems(1)] in simp)
qed (simp add: gathered_def)

lemma gathered_gathered: "gathered (gathered out xs) ys = gathered out (xs @ ys)"
  by (auto simp: gathered_def or_empty_def take_append min_def)

lemma kept_gathered: "kept_length out \<Longrightarrow> kept_length (gathered out xs)"
  by (auto simp: gathered_def kept_length_def or_empty_def)

text \<open>A look at a subagent that has ended well.\<close>

lemma look_completed:
  assumes "le_ok env = all_ok" and "le_flags env" and "le_reads env = map Got xs" and "le_rest env = map Got ys"
    and "le_wait env = Ended (Exited 0)" and "[] \<notin> set (xs @ ys)" and "sa_stdout sub > 0" and "kept_length (sa_output sub)"
  shows "look js env (sub, w) = notified js env
    (sub\<lparr>sa_stdout := -1, sa_status := SUBAGENT_STATUS_COMPLETED,
         sa_result := map_option c_text (gathered (sa_output sub) (xs @ ys)), sa_output := None\<rparr>, w\<lparr>wd_fds := remove1 (sa_stdout sub) (wd_fds w)\<rparr>)"
proof -
  have r: "read_subagent_output_nonblocking alloc_ok True (map Got xs) sub =
      (fst (drain_pipe alloc_ok 0 (map Got xs) 0 (sa_output sub)), sub\<lparr>sa_output := gathered (sa_output sub) xs\<rparr>)"
    using drain_gathers[OF assms(8), of xs 0 0] assms(6,7) by (simp add: read_subagent_output_nonblocking_def case_prod_beta)
  have "read_to_end alloc_ok 0 (map Got ys) (gathered (sa_output sub) xs) = (True, gathered (sa_output sub) (xs @ ys))"
    using read_to_end_gathers[OF kept_gathered[OF assms(8)], of ys 0 xs] assms(6) by (simp add: gathered_gathered)
  then show ?thesis using assms(1-5,7) r
    by (simp add: look_def subagent_handle_process_exit_def read_subagent_output_def)
qed

text \<open>What is relied on of printed JSON besides \<open>json_roundtrip\<close>: the text holds every name in it as it is, it is
  at least as long as the texts in it, and the object that is read has no other names.\<close>

definition field_length :: "string \<times> json_field \<Rightarrow> nat" where
  "field_length f = (case snd f of JStr s \<Rightarrow> length s | JNum n \<Rightarrow> 0)"

definition plain_name :: "string \<Rightarrow> bool" where
  "plain_name s \<longleftrightarrow> set s \<subseteq> set ''abcdefghijklmnopqrstuvwxyz_''"

definition json_prints :: "'j cjson \<Rightarrow> bool" where
  "json_prints js \<longleftrightarrow> (\<forall>fs s. cJSON_PrintObject js fs = Some s \<longrightarrow>
     sum_list (map field_length fs) \<le> length s \<and>
     (\<forall>k t. (k, JStr t) \<in> set fs \<longrightarrow> plain_name t \<longrightarrow> strstr s t) \<and>
     (\<forall>root k. cJSON_Parse js s = Some root \<longrightarrow> list_all plain_name (k # map fst fs) \<longrightarrow> k \<notin> fst ` set fs \<longrightarrow>
        cJSON_GetObjectItem js root k = None))"

lemma strip_codes_length: "length (strip_codes s) \<le> length s"
proof (induction s rule: strip_codes.induct)
  case (2 c cs)
  show ?case
  proof (cases "c = CHR 0x1B \<and> cs \<noteq> [] \<and> hd cs = CHR ''[''")
    case True
    then have "length (strip_codes (after_csi (tl cs))) \<le> length (after_csi (tl cs))" using 2(1) by simp
    also have "\<dots> \<le> length (tl cs)" by (rule length_after_csi)
    finally show ?thesis using True by simp
  next
    case False
    then show ?thesis using 2(2,3) by auto
  qed
qed simp

text \<open>The report of a subagent that has completed.\<close>

definition completed_with :: "string \<Rightarrow> Subagent \<Rightarrow> bool" where
  "completed_with result sub \<longleftrightarrow>
     sa_status sub = SUBAGENT_STATUS_COMPLETED \<and> sa_result sub = Some result \<and> sa_error sub = None"

lemma json_text_back:
  assumes "json_roundtrip js" and "cJSON_PrintObject js fs = Some s" and "distinct (map fst fs)"
  shows "\<exists>root. cJSON_Parse js s = Some root \<and>
    (\<forall>k t. (k, JStr t) \<in> set fs \<longrightarrow> jstring js (cJSON_GetObjectItem js root k) = Some t)"
proof -
  obtain root where root: "cJSON_Parse js s = Some root"
    and f: "\<forall>(k, f) \<in> set fs. \<exists>i. cJSON_GetObjectItem js root k = Some i \<and>
              (case f of
                 JStr t \<Rightarrow> cJSON_IsString js i \<and> cJSON_valuestring js i = Some t
               | JNum n \<Rightarrow> cJSON_IsNumber js i \<and> cJSON_valuedouble js i = n)"
    using assms unfolding json_roundtrip_def by blast
  have "jstring js (cJSON_GetObjectItem js root k) = Some t" if "(k, JStr t) \<in> set fs" for k t
    using bspec[OF f that] by (auto simp: jstring_def)
  with root show ?thesis by blast
qed

lemma report_read_back:
  assumes "json_roundtrip js" and "json_prints js" and "cJSON_PrintObject js (report_fields now sub) = Some s"
    and "completed_with result sub" and "sa_task sub = Some task"
  obtains root where "cJSON_Parse js s = Some root" and "strstr s ''subagent_completion''"
    and "jstring js (cJSON_GetObjectItem js root ''type'') = Some ''subagent_completion''"
    and "jstring js (cJSON_GetObjectItem js root ''subagent_id'') = Some (sa_id sub)"
    and "jstring js (cJSON_GetObjectItem js root ''status'') = Some ''completed''"
    and "jstring js (cJSON_GetObjectItem js root ''result'') = Some result"
    and "jstring js (cJSON_GetObjectItem js root ''task'') = Some task"
    and "jstring js (cJSON_GetObjectItem js root ''error'') = None"
    and "length (sa_id sub) + length result + length task + 28 \<le> length s"
proof -
  let ?fs = "report_fields now sub"
  have fs: "set ?fs \<supseteq> {(''type'', JStr ''subagent_completion''), (''subagent_id'', JStr (sa_id sub)), (''status'', JStr ''completed''),
      (''result'', JStr result), (''task'', JStr task)}" and d: "distinct (map fst ?fs)"
    using assms(4,5) by (auto simp: report_fields_def completed_with_def optional_field_def report_status_def)
  from json_text_back[OF assms(1,3) d] obtain root where root: "cJSON_Parse js s = Some root"
    and get: "\<And>k t. (k, JStr t) \<in> set ?fs \<Longrightarrow> jstring js (cJSON_GetObjectItem js root k) = Some t" by blast
  have "strstr s ''subagent_completion''" and len: "sum_list (map field_length ?fs) \<le> length s"
    using assms(2,3) fs by (auto simp: json_prints_def plain_name_def)
  moreover have "list_all plain_name (''error'' # map fst ?fs)" "''error'' \<notin> fst ` set ?fs"
    using assms(4,5) by (auto simp: report_fields_def completed_with_def optional_field_def plain_name_def)
  then have "jstring js (cJSON_GetObjectItem js root ''error'') = None"
    using assms(2,3) root unfolding json_prints_def jstring_def by fastforce
  moreover have "length (sa_id sub) + length result + length task + 28 \<le> sum_list (map field_length ?fs)"
    using assms(4,5) by (auto simp: report_fields_def completed_with_def optional_field_def report_status_def field_length_def)
  ultimately show thesis using that[OF root] get fs by auto
qed

lemma completed_line:
  assumes "json_roundtrip js" and "json_prints js" and "cJSON_PrintObject js (report_fields now sub) = Some s"
    and "completed_with result sub" and "sa_task sub = Some task" and "length (sa_id sub) \<le> 800"
    and "length result + length task < 4294967296" and "nm_content note = Some s"
  shows "line_of js note = completion_text (sa_id sub) ''completed'' (Some task) (Some (strip_codes result)) None @ [CHR 0x0A]"
    and "line_fits js note"
proof -
  obtain root where r: "cJSON_Parse js s = Some root" "strstr s ''subagent_completion''"
    "jstring js (cJSON_GetObjectItem js root ''type'') = Some ''subagent_completion''"
    "jstring js (cJSON_GetObjectItem js root ''subagent_id'') = Some (sa_id sub)"
    "jstring js (cJSON_GetObjectItem js root ''status'') = Some ''completed''"
    "jstring js (cJSON_GetObjectItem js root ''result'') = Some result"
    "jstring js (cJSON_GetObjectItem js root ''task'') = Some task"
    "jstring js (cJSON_GetObjectItem js root ''error'') = None"
    and len: "length (sa_id sub) + length result + length task + 28 \<le> length s"
    using report_read_back[OF assms(1-5)] by metis
  let ?text = "completion_text (sa_id sub) ''completed'' (Some task) (Some (strip_codes result)) None"
  have "print_completion (sa_id sub) ''completed'' (Some task) (Some (strip_codes result)) None = Formatted ?text"
    using assms(6,7) strip_codes_length[of result]
    by (intro print_completion_fits) (simp_all add: completion_buffer_def text_length_def SIZE_MOD_def)
  then have f: "format_subagent_completion all_ok js (nm_content note) = Formatted ?text"
    using r assms(8) by (simp add: format_subagent_completion_def strip_ansi_def)
  then show l: "line_of js note = ?text @ [CHR 0x0A]" by (simp add: line_of_def)
  have "length ?text + 1 \<le> 128 + length s"
    using len strip_codes_length[of result]
    by (simp add: completion_text_def completion_head_def completion_outcome_def after_label_def or_empty_def)
  then show "line_fits js note"
    using l f assms(8) by (simp add: line_fits_def share_def text_length_def[of _ "Some _"])
qed

lemma poll_from_idle:
  assumes "\<forall>sub \<in> set subs. sa_status sub \<noteq> SUBAGENT_STATUS_RUNNING"
  shows "poll_from js timeout now envs i (subs @ rest) w =
    (case poll_from js timeout now envs (i + length subs) rest w of (n, rest', w') \<Rightarrow> (n, subs @ rest', w'))"
  using assms
proof (induction subs arbitrary: i)
  case (Cons sub subs)
  then show ?case using Cons.IH[of "Suc i"] by (simp add: case_prod_beta)
qed simp

lemma poll_single:
  assumes "sm_subagents m = pre @ sub # post" and "sa_status sub = SUBAGENT_STATUS_RUNNING"
    and "\<forall>x \<in> set (pre @ post). sa_status x \<noteq> SUBAGENT_STATUS_RUNNING"
  shows "snd (snd (subagent_poll_all js now envs (m, w))) =
    snd (poll_one js (sm_timeout_seconds m) now (envs (length pre)) (sub, w))"
proof -
  have idle: "poll_from js timeout now envs i post u = (0, post, u)" for timeout i u
    using poll_from_idle[of post js timeout now envs i "[]" u] assms(3) by simp
  show ?thesis
    using poll_from_idle[of pre js "sm_timeout_seconds m" now envs 0 "sub # post" w] assms
    by (simp add: subagent_poll_all_def case_prod_beta idle)
qed

lemma no_posts:
  assumes "\<forall>s \<in> set (mb_subscriptions db). su_agent_id s \<noteq> p"
  shows "channel_receive_all all_ok p n db = ([], db)"
proof -
  have "filter (unread_post (\<lambda>s. su_agent_id s = p) db) (mb_posts db) = []"
    using assms by (auto simp: unread_post_def list_ex_iff filter_empty_conv)
  then show ?thesis
    by (simp add: channel_receive_all_def receive_posts_def sqlite_dal_query_list_p_def sql_limit_def results_def Let_def)
qed

lemma receive_direct_subscriptions:
  "mb_subscriptions (snd (message_receive_direct ok now id p n db)) = mb_subscriptions db"
  by (simp add: message_receive_direct_def Let_def)

lemma bundle_of_direct:
  assumes "in_rowid_order dr_rowid (mb_direct db)" and "\<forall>s \<in> set (mb_subscriptions db). su_agent_id s \<noteq> p"
  obtains b where "fst (notification_bundle_create all_ok t p (Some db)) = Some b"
    and "nb_messages b = map (direct_note \<circ> message_of) (take 20 (pending p db))"
proof -
  have "fst (message_receive_direct all_ok t id p 20 db) = map message_of (take 20 (pending p db))"
    using receive_direct_ok(1)[OF assms(1), of t id p 20] by (simp add: sql_limit_def limit_or_100_def)
  then show thesis
    using that no_posts[of "snd (message_receive_direct all_ok t id p 20 db)" p 20] assms(2)
    by (simp add: notification_bundle_create_def MAX_MESSAGES_PER_TYPE_def Let_def case_prod_beta add_direct_ok
        receive_direct_subscriptions)
qed

text \<open>The message about an end is the only one that waits.\<close>

lemma notified_pending:
  assumes "pending p db = []" and "in_rowid_order dr_rowid (mb_direct db)" and "re_parent_id env = Some p" and "p \<noteq> []"
    and "re_ok env = all_ok" and "re_uuid env = Some u" and "u \<notin> dr_id ` set (mb_direct db)"
    and "cJSON_PrintObject js (report_fields (re_now env) sub) = Some s"
  obtains db' r where "subagent_notify_parent js env sub (Some db) = Some db'" and "pending p db' = [r]" and "dr_content r = s"
    and "in_rowid_order dr_rowid (mb_direct db')" and "mb_subscriptions db' = mb_subscriptions db"
proof -
  let ?r = "\<lparr>dr_rowid = next_rowid dr_rowid (mb_direct db), dr_id = u, dr_sender_id = sa_id sub,
    dr_recipient_id = p, dr_content = s, dr_created_at = re_millis env, dr_read_at = None, dr_expires_at = None\<rparr>"
  have "subagent_notify_parent js env sub (Some db) = Some (db\<lparr>mb_direct := mb_direct db @ [?r]\<rparr>)"
    using assms(3-8) by (simp add: subagent_notify_parent_def message_send_direct_def)
  moreover have "pending p (db\<lparr>mb_direct := mb_direct db @ [?r]\<rparr>) = [?r]"
    using assms(1) by (simp add: pending_def unread_for_def)
  moreover have "in_rowid_order dr_rowid (mb_direct db @ [?r])" using rowid_order_append[OF assms(2), of ?r] by simp
  ultimately show thesis using that by fastforce
qed

definition completed_sub :: "string list \<Rightarrow> Subagent \<Rightarrow> Subagent" where
  "completed_sub chunks sub = sub\<lparr>sa_stdout := -1, sa_status := SUBAGENT_STATUS_COMPLETED,
     sa_result := map_option c_text (gathered (sa_output sub) chunks), sa_output := None\<rparr>"


section \<open>A concrete run\<close>

text \<open>A manager for one subagent, which is started, writes in two pieces and ends.\<close>

definition sample_manager :: "string SubagentManager" where
  "sample_manager = \<lparr>sm_subagents = [], sm_max_subagents = 1, sm_timeout_seconds = 60, sm_is_subagent_process = False,
     sm_gate_config = None\<rparr>"

definition sample_world :: sub_world where
  "sample_world = \<lparr>wd_io = keys_io [], wd_db = Some empty_db, wd_fds = [0, 1, 2], wd_signals = [], wd_programs = []\<rparr>"

definition sample_spawn :: spawn_env where
  "sample_spawn = \<lparr>sp_ok = all_ok, sp_random = [27], sp_stdout = Some (3, 4), sp_request = Some (5, 6),
     sp_response = Some (7, 8), sp_path = Some ''/ralph'', sp_fork = Some 100, sp_now = 1000\<rparr>"

definition sample_look :: look_env where
  "sample_look = \<lparr>le_ok = all_ok, le_flags = True, le_reads = [Got ''do''], le_wait = Ended (Exited 0), le_rest = [Got ''ne''],
     le_report = \<lparr>re_ok = all_ok, re_parent_id = Some ''p'', re_uuid = Some ''u1'', re_now = 1010, re_millis = 5\<rparr>\<rparr>"

definition sample_sub :: Subagent where
  "sample_sub = \<lparr>sa_id = ''1b'', sa_pid = 100, sa_status = SUBAGENT_STATUS_RUNNING, sa_stdout = 3,
     sa_channel = \<lparr>request_fd = 5, response_fd = 8, subagent_pid = 100\<rparr>, sa_task = Some ''scan'', sa_context = None,
     sa_output = None, sa_result = None, sa_error = None, sa_start_time = 1000\<rparr>"

definition report_text :: string where
  "report_text = ''{\"type\":\"subagent_completion\",\"subagent_id\":\"1b\",\"status\":\"completed\",\"result\":\"done\",\"task\":\"scan\",\"elapsed_seconds\":10}''"

definition sample_fields :: "(string \<times> json_field) list" where
  "sample_fields = report_fields 1010 (completed_sub [''do'', ''ne''] sample_sub)"

lemma sample_fields_eval:
  "sample_fields = [(''type'', JStr ''subagent_completion''), (''subagent_id'', JStr ''1b''), (''status'', JStr ''completed''),
     (''result'', JStr ''done''), (''task'', JStr ''scan''), (''elapsed_seconds'', JNum 10)]"
  by (simp add: sample_fields_def report_fields_def optional_field_def report_status_def completed_sub_def gathered_def
      SUBAGENT_MAX_OUTPUT_LENGTH_def c_text_def or_empty_def sample_sub_def wrap32_def)

definition report_json :: "jvalue cjson" where
  "report_json = (table_json [(report_text, VObject (map field_value sample_fields))])
     \<lparr>cJSON_PrintObject := (\<lambda>fs. if fs = sample_fields then Some report_text else None)\<rparr>"

lemma report_json_roundtrip: "json_roundtrip report_json"
  by (auto simp: json_roundtrip_def report_json_def table_json_def sample_fields_eval field_value_def)

lemma report_json_prints: "json_prints report_json"
proof -
  have a: "sum_list (map field_length sample_fields) \<le> length report_text"
    by (simp add: sample_fields_eval field_length_def report_text_def)
  have b: "\<forall>(k, f) \<in> set sample_fields. (case f of JStr t \<Rightarrow> plain_name t \<longrightarrow> strstr report_text t | JNum n \<Rightarrow> True)"
    by (simp add: sample_fields_eval report_text_def)
  have c: "cJSON_GetObjectItem report_json root k = None"
    if "cJSON_Parse report_json report_text = Some root" "k \<notin> fst ` set sample_fields" for root k
    using that by (auto simp: report_json_def table_json_def sample_fields_eval field_value_def)
  show ?thesis
    unfolding json_prints_def
  proof (intro allI impI)
    fix fs s
    assume "cJSON_PrintObject report_json fs = Some s"
    then have "fs = sample_fields" "s = report_text" by (simp_all add: report_json_def split: if_split_asm)
    then show "sum_list (map field_length fs) \<le> length s \<and> (\<forall>k t. (k, JStr t) \<in> set fs \<longrightarrow> plain_name t \<longrightarrow> strstr s t) \<and>
        (\<forall>root k. cJSON_Parse report_json s = Some root \<longrightarrow> list_all plain_name (k # map fst fs) \<longrightarrow> k \<notin> fst ` set fs \<longrightarrow>
          cJSON_GetObjectItem report_json root k = None)"
      using a b c by fastforce
  qed
qed

definition report_lib :: "(jvalue, string) orch_lib" where
  "report_lib = sample_lib\<lparr>ol_json := report_json\<rparr>"

definition start_op :: sub_op where
  "start_op = Spawn sample_spawn (Some ''scan'') None None"

definition poll_op :: sub_op where
  "poll_op = Poll 1010 (\<lambda>_. sample_look)"

definition one_started :: "string SubagentManager \<times> sub_world" where
  "one_started = (sample_manager\<lparr>sm_subagents := [sample_sub]\<rparr>,
     sample_world\<lparr>wd_fds := [5, 8, 3, 0, 1, 2], wd_programs := [(100, [''/ralph'', ''--subagent'', ''--task'', ''scan''])]\<rparr>)"

definition one_ended :: "string SubagentManager \<times> sub_world" where
  "one_ended = (sample_manager\<lparr>sm_subagents := [completed_sub [''do'', ''ne''] sample_sub]\<rparr>,
     (snd one_started)\<lparr>wd_fds := [5, 8, 0, 1, 2],
       wd_db := Some (empty_db\<lparr>mb_direct := [\<lparr>dr_rowid = 1, dr_id = ''u1'', dr_sender_id = ''1b'', dr_recipient_id = ''p'',
         dr_content = report_text, dr_created_at = 5, dr_read_at = None, dr_expires_at = None\<rparr>]\<rparr>)\<rparr>)"

lemma sample_init: "subagent_manager_init_with_config True 1 60 = Some sample_manager"
  by (simp add: subagent_manager_init_with_config_def SUBAGENT_HARD_CAP_def SUBAGENT_MAX_TIMEOUT_SEC_def sample_manager_def)

lemma start_sample: "sub_step lib start_op (sample_manager, sample_world) = Some one_started"
  by (simp add: start_op_def one_started_def subagent_spawn_def prefork_setup_def create_approval_channel_pipes_def
      sample_manager_def sample_world_def sample_spawn_def started_def fds_closed_def register_subagent_def strdup_def child_args_def
      sample_sub_def generate_subagent_id_def Let_def)

lemma look_sample:
  "look report_json sample_look (sample_sub, w) =
     notified report_json sample_look (completed_sub [''do'', ''ne''] sample_sub, w\<lparr>wd_fds := remove1 3 (wd_fds w)\<rparr>)"
  using look_completed[of sample_look "[''do'']" "[''ne'']" sample_sub report_json w]
  by (simp add: sample_look_def sample_sub_def completed_sub_def kept_length_def or_empty_def)

lemma sample_reported:
  "subagent_notify_parent report_json (le_report sample_look) (completed_sub [''do'', ''ne''] sample_sub) (wd_db sample_world) =
     wd_db (snd one_ended)"
proof -
  have "report_fields 1010 (completed_sub [''do'', ''ne''] sample_sub) = sample_fields" by (simp add: sample_fields_def)
  then show ?thesis
    by (simp add: subagent_notify_parent_def sample_look_def report_json_def sample_world_def one_ended_def message_send_direct_def
        empty_db_def next_rowid_def) (simp add: completed_sub_def sample_sub_def)
qed

lemma poll_sample: "sub_step report_lib poll_op one_started = Some one_ended"
proof -
  have "poll_one report_json 60 1010 sample_look (sample_sub, snd one_started) =
      (completed_sub [''do'', ''ne''] sample_sub, snd one_ended)"
    using sample_reported
    by (simp add: poll_one_def look_sample notified_def one_started_def one_ended_def sample_world_def)
       (simp add: sample_sub_def)
  then show ?thesis
    by (simp add: poll_op_def report_lib_def subagent_poll_all_def one_started_def one_ended_def sample_manager_def)
       (simp add: sample_sub_def completed_sub_def)
qed

lemma sample_runs:
  "sub_run report_lib [start_op] (sample_manager, sample_world) = Some one_started"
  "sub_run report_lib [poll_op] one_started = Some one_ended"
  "sub_run report_lib [start_op, poll_op] (sample_manager, sample_world) = Some one_ended"
  by (simp_all add: sub_run_def start_sample poll_sample)

lemma sample_fds: "op_fds start_op = [3, 4, 5, 6, 7, 8]" "op_fds poll_op = []"
  by (simp_all add: start_op_def poll_op_def spawn_fds_def sample_spawn_def)

theorem subagents_end_once_witness:
  "length (sm_subagents (fst one_ended)) = 1 \<and>
   sm_subagents (fst (the (sub_run report_lib [poll_op] one_ended))) = sm_subagents (fst one_ended)"
proof -
  have idle: "sub_run report_lib [poll_op] one_ended = Some one_ended"
    by (simp add: sub_run_def poll_op_def one_ended_def subagent_poll_all_def completed_sub_def)
  have ops: "\<forall>op \<in> set ([start_op, poll_op] @ [poll_op]). \<forall>f \<in> set (op_fds op). 0 \<le> f" by (simp add: sample_fds)
  note e = subagents_end_once[OF sample_init sample_runs(3) idle ops]
  have n: "length (sm_subagents (fst one_ended)) = 1" by (simp add: one_ended_def)
  with e idle show ?thesis by simp
qed

theorem subagent_reports_once_witness: "reports ''1b'' (snd one_ended) = 1"
proof -
  let ?sub = "completed_sub [''do'', ''ne''] sample_sub"
  have run: "sub_run report_lib [start_op, poll_op] (sample_manager, sample_world) = Some (fst one_ended, snd one_ended)"
    using sample_runs(3) by simp
  have subs: "sm_subagents (fst one_ended) = [?sub]" by (simp add: one_ended_def)
  have "reports (sa_id ?sub) (snd one_ended) \<le> (if sa_status ?sub = SUBAGENT_STATUS_RUNNING then 0 else 1)"
    by (rule subagent_reports_once[OF sample_init run]) (simp_all add: subs sample_fds sample_world_def empty_db_def)
  moreover have "reports ''1b'' (snd one_ended) \<ge> 1" by (simp add: reports_def one_ended_def)
  ultimately show ?thesis by (simp add: completed_sub_def sample_sub_def split: if_split_asm)
qed

theorem manager_returns_descriptors_witness:
  "mset (wd_fds (snd (subagent_manager_cleanup (\<lambda>_. all_ok) (\<lambda>_. True) one_ended))) = {#0, 1, 2#}"
  using manager_returns_descriptors[OF sample_init sample_runs(3), of "\<lambda>_. all_ok" "\<lambda>_. True"]
  by (simp add: sample_fds sample_world_def)

definition late_round :: wait_round where
  "late_round = \<lparr>wr_interrupted = False, wr_now = 2000, wr_poll_ok = True, wr_ready = None, wr_handle = (\<lambda>_. \<lparr>he_oks = (\<lambda>_. alloc_ok), he_ready = False, he_reads = [], he_writes = []\<rparr>),
     wr_look = sample_look, wr_stops = True\<rparr>"


theorem ended_subagents_block_starts_witness:
  "fst (subagent_spawn sample_spawn (Some ''more'') None None one_ended) = None \<and>
   sa_status (hd (sm_subagents (fst one_ended))) = SUBAGENT_STATUS_COMPLETED"
proof -
  have "fst (subagent_spawn sample_spawn (Some ''more'') None None one_ended) = None"
    using ended_subagents_block_starts[of "fst one_started" report_lib "[poll_op]" "snd one_started" one_ended]
      sample_runs(2) by (simp add: sample_fds one_started_def sample_manager_def started_only_def sample_sub_def)
  then show ?thesis by (simp add: one_ended_def completed_sub_def)
qed


end
