(* ===== verification/Spec2Isabelle.thy ===== *)
theory Spec2Isabelle
  imports Rate_Limiter Shell_Parser Ptrarray Allowlist Protected_Files Gate_Batch Tool_Batch Stream_Providers Subagent_Parent
    Document_Chunker Agent_Loop Orchestrator Worker Subagent_Manager
begin

text \<open>
  Scaffold is a command-line program that lets a language model work with tools: it streams the replies of
  the model, asks the user before dangerous tool calls, executes the calls, keeps the conversation within
  the context window of the model, runs subagents as processes, and pursues goals in the background with
  supervisors and workers. This library models the parts of it that decide: what may run, what was said,
  what is to be done next and what becomes of it. Each theory names the C file that it translates; a
  function of the source is the definition of the same name, a structure the record and an enumeration the
  datatype of the same name.

  \<^bold>\<open>How the parts work together.\<close> A reply of the model arrives in pieces (\<open>Streaming\<close>, \<open>Stream_Providers\<close>)
  and is added to the conversation (\<open>Conversation\<close>), whose size is managed before every request
  (\<open>Token_Manager\<close>, with \<open>C_Float\<close>). The calls in the reply go through the agent loop (\<open>Agent_Loop\<close>) to
  the batch executor (\<open>Tool_Batch\<close>), which asks plugins (\<open>Hook_Dispatcher\<close>) and the orchestration
  (\<open>Tool_Orchestration\<close>). The orchestration asks the approval gate (\<open>Approval_Gate\<close>, \<open>Gate_Config\<close>,
  \<open>Gate_Match\<close>, \<open>Gate_Batch\<close>), which looks at protected files (\<open>Protected_Files\<close>, \<open>Path_Normalize\<close>,
  \<open>App_Home\<close>), the back-off after denials (\<open>Rate_Limiter\<close>), the allowlist with the parsed shell command
  (\<open>Allowlist\<close>, \<open>Shell_Posix\<close>, \<open>Shell_Cmd\<close>, \<open>Shell_PS\<close>, \<open>Shell_Parser\<close>) and, if need be, the user, or the
  process above when it is a subagent (\<open>Subagent_Channel\<close>, \<open>Subagent_Parent\<close>). An approval for ever becomes
  a pattern (\<open>Pattern_Generator\<close>); a refusal becomes an error for the model (\<open>Approval_Errors\<close>); a file that
  was approved is opened so that it is the file that was shown (\<open>Atomic_File\<close>). Goals are kept in a
  database (\<open>Sqlite_Stores\<close>) and changed by tools (\<open>Tool_Params\<close>, \<open>Goap\<close>); the orchestrator starts, pauses
  and cancels their supervisors (\<open>Orchestrator\<close>), a supervisor plans and dispatches actions (\<open>Supervisor\<close>)
  and workers take them from queues (\<open>Worker\<close>). Subagents are processes that a manager
  starts, polls and waits for (\<open>Subagent_Manager\<close>); their reports and the messages of other agents lie in a
  store (\<open>Message_Store\<close>) and are printed for the model (\<open>Notifications\<close>). Below them are the arrays
  (\<open>Darray\<close>, \<open>Ptrarray\<close>), the chunker for documents (\<open>Document_Chunker\<close>) and decimal numerals (\<open>Decimal\<close>).

  \<^bold>\<open>Conventions.\<close>
  \<^item> State is passed explicitly. A fallible function returns an option or the error code of the source;
    reading or writing outside a buffer, or memory that was freed, is a value of its own where the source
    can do it, and never silently absent.
  \<^item> Allocations and statements of the database may fail: \<open>alloc\<close> and \<open>sites\<close> are oracles that say, for
    each numbered place in a function, whether it succeeds. The comment of a definition numbers its places.
    Theorems hold for all oracles unless they say that the database answers.
  \<^item> The JSON library, the regular expressions of the system, SQLite below the statements, the operating
    system, the terminal, the clock and the model behind the network are arguments: records of functions or
    lists of events. What a theorem needs of them is a named hypothesis (\<open>json_roundtrip\<close>, \<open>json_objects\<close>,
    \<open>spawns\<close> and the like), and its witness has a concrete instance of it.
  \<^item> Numbers of 32 bits go through \<open>wrap32\<close>, sizes through arithmetic modulo \<open>SIZE_MOD\<close>, where the source
    can exceed them; C floating point is rational arithmetic with explicit rounding.
  \<^item> Loops are recursion over the data or over the list of rounds that the outside world provides. Two
    loops have fuel: the agent loop, whose bound of 200 iterations is that of the source, and the loop of a
    worker, for which one round per attempt that is left in the queue is shown to be enough.

  \<^bold>\<open>What is shown.\<close>
  \<^item> Approval: only calls that the gate in force lets through are executed, in a batch and over a whole
    workflow, and none twice; the gate allows exactly what its rules say; a command that runs without a
    question is one simple command, for each of the three shells; protected files are recognised exactly;
    a subagent inherits only the configured patterns, and its answers come from its parent; what the user
    allows for ever is not asked again; a file that is opened is the one approved.
  \<^item> Conversation: a streamed reply is collected exactly, in whatever pieces it arrives, within the buffers;
    trimming keeps order and fits the limit; the agent loop ends.
  \<^item> Goals: the status of a goal changes only along the edges of its life; dispatch respects the capacity;
    recovery leaves no orphans; the world state is a map that assertions override; attempts at a work item
    are bounded and workers drain their queue; supervisors report only what is complete and are restarted.
  \<^item> Subagents: one that has ended stays as it is, is reported once, and what it wrote is what the model above
    reads; waiting ends; no descriptor is lost; direct messages arrive in order and at most once.
  \<^item> Libraries: growing arrays refine lists, words that are quoted are read back, chunks cover a document.
  \<^item> Defects: theorems of the kind error and lemmas at the end of the theories show where the source does
    not do what it means to; the manifest lists them as findings.

  Interfaces are locales: the words and flags of the lexers, the laws of arrays, the rules of the allowlist, the
  limiter of denials, the events of a stream, the turns of the agent loop, the tables with a key and the life
  of a goal, each interpreted on the definitions of the component that provides them. The contract of the
  operations on subagents is a step relation that each of them is shown to keep.

  \<^bold>\<open>Not modelled.\<close> Parsing and printing of JSON, SQL and regular expressions belong to libraries. Sending
  requests over the network (\<^verbatim>\<open>lib/network/http_client.c\<close>, the bodies of requests in \<^verbatim>\<open>lib/llm\<close>), the
  transports of \<^verbatim>\<open>lib/mcp\<close>, authentication, embeddings and the vector database, PDF extraction and the
  updater are input and output around libraries; \<^verbatim>\<open>lib/network/embedded_cacert.c\<close> is generated data. The
  terminal interface of \<^verbatim>\<open>lib/ui\<close> and the main programs under \<^verbatim>\<open>src\<close> print and read the command line. Threads
  appear only through the order in which their effects can happen. The texts of prompts and log messages are
  left out where nothing depends on them.
\<close>

section \<open>The gate and the shell parser\<close>


definition ls_config :: "string ApprovalGateConfig" where
  "ls_config = sample_config\<lparr>shell_allowlist := [built_shell_entry [''ls''] SHELL_TYPE_UNKNOWN]\<rparr>"

definition ls_json :: "jvalue cjson" where
  "ls_json = table_json [(''a'', VObject [(''command'', VString ''ls -l'')])]"

definition ls_call :: ToolCall where
  "ls_call = \<lparr>tc_id = None, tc_name = Some ''shell'', tc_arguments = Some ''a''\<rparr>"


end
